(* ===== verification/Prelude.thy ===== *)
theory Prelude
  imports Main "HOL-Library.AList" "HOL-Library.Char_ord" "HOL-Library.List_Lexorder"
    "HOL-Library.Word" "HOL-Library.Multiset" "HOL-Library.Sublist"
begin

text \<open>
  What the components share: the parts of Go's language and standard library the modelled
  code uses, and the generic lemmas about them.

  \<^item> A Go string is a byte string: \<^typ>\<open>string\<close> (a list of 8-bit characters), compared
    bytewise, which is the lexicographic order of \<open>List_Lexorder\<close> over \<open>Char_ord\<close>.
  \<^item> A Go map is an association list with distinct keys (\<open>gomap\<close>, \<open>wfmap\<close>).
    Go leaves the iteration order of a map open; a \<open>range\<close> loop is a recursion over
    the list, and a theorem about every list is a theorem about every order.
  \<^item> A set (\<open>map[string]struct{}\<close>) is a list of distinct elements.
  \<^item> Instants and durations are integers, in nanoseconds. The zero \<open>time.Time\<close> is
    \<open>None\<close> where the code tests \<open>IsZero\<close>.
  \<^item> \<open>sort.Search\<close> is the binary search of the standard library; \<open>sort.Slice\<close> is an
    insertion sort by the comparison function it is given.
\<close>

section \<open>Collections of simplification facts\<close>

named_theorems go_map \<open>laws of maps as association lists\<close>
named_theorems go_str \<open>laws of byte strings\<close>

section \<open>Integers and durations\<close>

definition second :: int where "second = 1000000000"
definition minute :: int where "minute = 60 * second"
definition hour :: int where "hour = 60 * minute"

definition max_int64 :: int where "max_int64 = 2 ^ 63 - 1"

text \<open>Two's complement wrap-around of a 64-bit signed result.\<close>

definition to_int64 :: "int \<Rightarrow> int" where
  "to_int64 x = (x + 2 ^ 63) mod 2 ^ 64 - 2 ^ 63"

lemma to_int64_id: "- (2 ^ 63) \<le> x \<Longrightarrow> x < 2 ^ 63 \<Longrightarrow> to_int64 x = x"
  by (simp add: to_int64_def)

lemma to_int64_range: "- (2 ^ 63) \<le> to_int64 x \<and> to_int64 x < 2 ^ 63"
proof -
  have "0 \<le> (x + 2 ^ 63) mod 2 ^ 64" "(x + 2 ^ 63) mod 2 ^ 64 < 2 ^ 64"
    by simp_all
  then show ?thesis by (simp add: to_int64_def)
qed

section \<open>Bytes\<close>

definition byteIn :: "char \<Rightarrow> char \<Rightarrow> char \<Rightarrow> bool" where
  "byteIn lo hi c \<longleftrightarrow> lo \<le> c \<and> c \<le> hi"

definition digit :: "char \<Rightarrow> bool" where
  "digit c \<longleftrightarrow> byteIn (CHR ''0'') (CHR ''9'') c"

section \<open>Maps\<close>

type_synonym ('k, 'v) gomap = "('k \<times> 'v) list"

abbreviation mget :: "('k, 'v) gomap \<Rightarrow> 'k \<Rightarrow> 'v option" where
  "mget m k \<equiv> map_of m k"

abbreviation mput :: "'k \<Rightarrow> 'v \<Rightarrow> ('k, 'v) gomap \<Rightarrow> ('k, 'v) gomap" where
  "mput k v m \<equiv> AList.update k v m"

abbreviation mdel :: "'k \<Rightarrow> ('k, 'v) gomap \<Rightarrow> ('k, 'v) gomap" where
  "mdel k m \<equiv> AList.delete k m"

abbreviation mkeys :: "('k, 'v) gomap \<Rightarrow> 'k list" where
  "mkeys m \<equiv> map fst m"

definition mhas :: "('k, 'v) gomap \<Rightarrow> 'k \<Rightarrow> bool" where
  "mhas m k \<longleftrightarrow> mget m k \<noteq> None"

abbreviation wfmap :: "('k, 'v) gomap \<Rightarrow> bool" where
  "wfmap m \<equiv> distinct (mkeys m)"

lemma mget_mput [go_map]: "mget (mput k v m) k' = (if k' = k then Some v else mget m k')"
  by (simp add: update_conv')

lemma mget_mdel [go_map]: "mget (mdel k m) k' = (if k' = k then None else mget m k')"
  by (simp add: delete_conv')

lemma wfmap_mput [go_map, intro]: "wfmap m \<Longrightarrow> wfmap (mput k v m)"
  by (rule distinct_update)

lemma wfmap_mdel [go_map, intro]: "wfmap m \<Longrightarrow> wfmap (mdel k m)"
  by (rule distinct_delete)

lemma mhas_keys: "mhas m k \<longleftrightarrow> k \<in> set (mkeys m)"
  by (force simp: mhas_def map_of_eq_None_iff)

lemma mhas_mput [go_map]: "mhas (mput k v m) k' \<longleftrightarrow> k' = k \<or> mhas m k'"
  by (simp add: mhas_def go_map)

lemma mhas_mdel [go_map]: "mhas (mdel k m) k' \<longleftrightarrow> k' \<noteq> k \<and> mhas m k'"
  by (simp add: mhas_def go_map)

lemma mget_in: "wfmap m \<Longrightarrow> (k, v) \<in> set m \<longleftrightarrow> mget m k = Some v"
  by auto

lemma mget_filter_key: "mget (filter (\<lambda>(k, v). P k) m) k' = (if P k' then mget m k' else None)"
  by (induction m) auto

lemma wfmap_filter [go_map, intro]: "wfmap m \<Longrightarrow> wfmap (filter P m)"
  by (rule distinct_map_filter)

lemma mget_filter:
  assumes "wfmap m"
  shows "mget (filter (\<lambda>(k, v). P k v) m) k'
    = (case mget m k' of None \<Rightarrow> None | Some v \<Rightarrow> if P k' v then Some v else None)"
  using assms
proof (induction m)
  case (Cons kv m)
  obtain k v where [simp]: "kv = (k, v)" by (cases kv)
  have nin: "mget m k = None" using Cons.prems by (auto simp: map_of_eq_None_iff)
  show ?case using Cons nin by (auto split: option.splits)
qed simp

lemma filter_eq_mdel: "filter (\<lambda>(k', v). k' \<noteq> k) m = mdel k m"
  by (induction m) auto

text \<open>Removing every key of a list, one after the other.\<close>

definition mdels :: "'k list \<Rightarrow> ('k, 'v) gomap \<Rightarrow> ('k, 'v) gomap" where
  "mdels ks m = fold mdel ks m"

lemma mget_mdels [go_map]: "mget (mdels ks m) k = (if k \<in> set ks then None else mget m k)"
  unfolding mdels_def by (induction ks arbitrary: m) (auto simp: go_map)

lemma wfmap_mdels [go_map, intro]: "wfmap m \<Longrightarrow> wfmap (mdels ks m)"
  unfolding mdels_def by (induction ks arbitrary: m) (auto simp: go_map)

lemma in_map_filter: "x \<in> set (List.map_filter f xs) \<longleftrightarrow> (\<exists>y \<in> set xs. f y = Some x)"
  by (force simp: List.map_filter_def)

lemma set_mkeys_mput: "set (mkeys (mput k v m)) = insert k (set (mkeys m))"
  by (induction m) auto

lemma set_mkeys_mdel: "set (mkeys (mdel k m)) = set (mkeys m) - {k}"
  by (simp add: delete_keys)

section \<open>Byte strings\<close>

text \<open>\<open>strings.HasPrefix\<close>, \<open>strings.HasSuffix\<close>.\<close>

definition hasPrefix :: "string \<Rightarrow> string \<Rightarrow> bool" where
  "hasPrefix s p \<longleftrightarrow> take (length p) s = p"

definition hasSuffix :: "string \<Rightarrow> string \<Rightarrow> bool" where
  "hasSuffix s p \<longleftrightarrow> length p \<le> length s \<and> drop (length s - length p) s = p"

lemma hasPrefix_iff [go_str]: "hasPrefix s p \<longleftrightarrow> prefix p s"
  by (metis hasPrefix_def prefix_def append_eq_conv_conj take_is_prefix)

lemma hasPrefix_append [simp]: "hasPrefix (p @ s) p"
  by (simp add: hasPrefix_def)

lemma hasPrefix_ex: "hasPrefix s p \<longleftrightarrow> (\<exists>r. s = p @ r)"
  by (simp add: hasPrefix_iff prefix_def)

lemma hasSuffix_append [simp]: "hasSuffix (s @ p) p"
  by (simp add: hasSuffix_def)

lemma hasSuffix_ex: "hasSuffix s p \<longleftrightarrow> (\<exists>r. s = r @ p)"
  by (metis hasSuffix_append hasSuffix_def append_take_drop_id)

text \<open>Two suffixes of one length are equal.\<close>

lemma hasSuffix_same_length:
  "hasSuffix s p \<Longrightarrow> hasSuffix s q \<Longrightarrow> length p = length q \<Longrightarrow> p = q"
  by (auto simp: hasSuffix_ex)

text \<open>\<open>strings.IndexByte\<close>: the first position of a byte.\<close>

fun indexByte :: "string \<Rightarrow> char \<Rightarrow> nat option" where
  "indexByte [] c = None"
| "indexByte (x # xs) c = (if x = c then Some 0 else map_option Suc (indexByte xs c))"

text \<open>The bytewise order of two strings that share a prefix is decided after it.\<close>

lemma append_less_cancel [simp]: "((p :: string) @ a < p @ b) \<longleftrightarrow> a < b"
  by (induction p) auto

lemma append_le_cancel [simp]: "((p :: string) @ a \<le> p @ b) \<longleftrightarrow> a \<le> b"
  by (induction p) auto

lemma less_append_nonempty: "s \<noteq> [] \<Longrightarrow> (p :: string) < p @ s"
  by (induction p) (auto simp: neq_Nil_conv)

lemma same_length_less_append:
  "length a = length b \<Longrightarrow> (a :: string) < b \<Longrightarrow> a @ x < b @ y"
proof (induction a b rule: list_induct2)
  case (Cons x xs y ys)
  then show ?case by auto
qed simp

section \<open>Subsequences\<close>

lemma subseq_sub: "subseq xs ys \<Longrightarrow> set xs \<subseteq> set ys"
  by (auto elim: list_emb_set)

lemma subseq_distinct: "subseq xs ys \<Longrightarrow> distinct ys \<Longrightarrow> distinct xs"
  by (induction rule: list_emb.induct) (auto dest: subseq_sub)

section \<open>State machines\<close>

text \<open>
  A component as its state and the operations that change it, each one atomic (the code runs
  them under the component's lock). \<open>pre op s\<close> is what the code's callers establish before
  the call. A run is any sequence of operations, so a fact about runs holds for every
  interleaving of the component's users.
\<close>

fun runs_ok :: "('op \<Rightarrow> 's \<Rightarrow> bool) \<Rightarrow> ('op \<Rightarrow> 's \<Rightarrow> 's) \<Rightarrow> 'op list \<Rightarrow> 's \<Rightarrow> bool" where
  "runs_ok pre step [] s = True"
| "runs_ok pre step (x # xs) s = (pre x s \<and> runs_ok pre step xs (step x s))"

locale machine =
  fixes pre :: "'op \<Rightarrow> 's \<Rightarrow> bool"
    and step :: "'op \<Rightarrow> 's \<Rightarrow> 's"
    and inv :: "'s \<Rightarrow> bool"
  assumes step_inv: "inv s \<Longrightarrow> pre op s \<Longrightarrow> inv (step op s)"
begin

lemma run_inv: "inv s \<Longrightarrow> runs_ok pre step ops s \<Longrightarrow> inv (fold step ops s)"
  by (induction ops arbitrary: s) (auto intro: step_inv)

text \<open>What every step keeps, once it holds, a run keeps.\<close>

lemma run_keeps:
  assumes "\<And>op s. inv s \<Longrightarrow> pre op s \<Longrightarrow> op \<in> set ops \<Longrightarrow> P s \<Longrightarrow> P (step op s)"
    and "inv s" "P s" "runs_ok pre step ops s"
  shows "P (fold step ops s)"
  using assms by (induction ops arbitrary: s) (auto intro: step_inv)

end

end
