(* ===== verification/TombKeys.thy ===== *)
theory TombKeys
  imports Prelude
begin

unbundle bit_operations_syntax

text \<open>
  The keys of the tombstone objects, \<open>src/internal/delete/keys.go\<close>: the escaping of ids,
  the fixed-width hexadecimal key times, \<open>formatKey\<close> and \<open>parseKey\<close>. The theorems are
  the round trips in both directions and the order: keys sort by their times, so the listing
  a poll starts after \<open>startAfterKey\<close> holds every key of the poll window.
\<close>

section \<open>Definitions\<close>

definition tombstonePrefixSegment :: string where
  "tombstonePrefixSegment = ''_tombstones/''"

definition kindDefinition :: string where "kindDefinition = ''.json''"
definition kindUndo :: string where "kindUndo = ''.undo''"
definition maxEscapedIDLen :: nat where "maxEscapedIDLen = 400"

record tombKey =
  tk_kind :: string
  tk_timeNs :: int
  tk_id :: string
  tk_defNs :: int

text \<open>\<open>strings.TrimRight(prefix, "/")\<close>.\<close>

definition trimRightSlash :: "string \<Rightarrow> string" where
  "trimRightSlash s = rev (dropWhile (\<lambda>c. c = CHR ''/'') (rev s))"

definition TombstonePrefix :: "string \<Rightarrow> string" where
  "TombstonePrefix pfx =
     (let p = trimRightSlash pfx
      in if p = [] then tombstonePrefixSegment else p @ ''/'' @ tombstonePrefixSegment)"

text \<open>The bytes that stay as they are in an escaped id: the letters, the digits, the underscore
  and the hyphen.\<close>

definition bareByte :: "char \<Rightarrow> bool" where
  "bareByte c \<longleftrightarrow> byteIn (CHR ''a'') (CHR ''z'') c \<or> byteIn (CHR ''A'') (CHR ''Z'') c
     \<or> byteIn (CHR ''0'') (CHR ''9'') c \<or> c = CHR ''_'' \<or> c = CHR ''-''"

definition upperHex :: "nat \<Rightarrow> char" where
  "upperHex n = ''0123456789ABCDEF'' ! n"

fun escapeID :: "string \<Rightarrow> string" where
  "escapeID [] = []"
| "escapeID (c # cs) =
     (if bareByte c then c # escapeID cs
      else CHR ''%'' # upperHex (of_char c div 16) # upperHex (of_char c mod 16) # escapeID cs)"

definition upperHexVal :: "char \<Rightarrow> nat option" where
  "upperHexVal c =
     (if CHR ''0'' \<le> c \<and> c \<le> CHR ''9'' then Some (of_char c - of_char (CHR ''0''))
      else if CHR ''A'' \<le> c \<and> c \<le> CHR ''F'' then Some (of_char c - of_char (CHR ''A'') + 10)
      else None)"

fun unescapeID :: "string \<Rightarrow> string option" where
  "unescapeID [] = Some []"
| "unescapeID (c # cs) =
     (if bareByte c then map_option ((#) c) (unescapeID cs)
      else if c = CHR ''%'' then
        (case cs of
           h # l # rest \<Rightarrow>
             (case (upperHexVal h, upperHexVal l) of
                (Some hi, Some lo) \<Rightarrow>
                  (let v = char_of (hi * 16 + lo)
                   in if bareByte v then None else map_option ((#) v) (unescapeID rest))
              | _ \<Rightarrow> None)
         | _ \<Rightarrow> None)
      else None)"

definition lowerHex :: "64 word \<Rightarrow> char" where
  "lowerHex w = ''0123456789abcdef'' ! unat w"

text \<open>The loop of \<open>hexTime\<close> fills the buffer from its last byte to its first: the digits are
  produced from the least significant one.\<close>

fun hexDigits :: "nat \<Rightarrow> 64 word \<Rightarrow> string \<Rightarrow> string" where
  "hexDigits 0 v buf = buf"
| "hexDigits (Suc n) v buf = hexDigits n (drop_bit 4 v) (lowerHex (v AND 15) # buf)"

definition hexTime :: "int \<Rightarrow> string" where
  "hexTime ns = hexDigits 16 (word_of_int ns) []"

definition formatKey :: "string \<Rightarrow> tombKey \<Rightarrow> string" where
  "formatKey pfx k =
     (if tk_kind k = kindUndo
      then pfx @ ''t'' @ hexTime (tk_timeNs k) @ ''-'' @ hexTime (tk_defNs k) @ ''-''
        @ escapeID (tk_id k) @ tk_kind k
      else pfx @ ''t'' @ hexTime (tk_timeNs k) @ ''-'' @ escapeID (tk_id k) @ tk_kind k)"

definition definitionKey :: "string \<Rightarrow> tombKey \<Rightarrow> string" where
  "definitionKey pfx k =
     formatKey pfx \<lparr>tk_kind = kindDefinition, tk_timeNs = tk_defNs k, tk_id = tk_id k, tk_defNs = 0\<rparr>"

definition startAfterKey :: "string \<Rightarrow> int \<Rightarrow> string" where
  "startAfterKey pfx ns = (if ns \<le> 0 then [] else pfx @ ''t'' @ hexTime ns)"

definition lowerHexVal :: "char \<Rightarrow> nat option" where
  "lowerHexVal c =
     (if CHR ''0'' \<le> c \<and> c \<le> CHR ''9'' then Some (of_char c - of_char (CHR ''0''))
      else if CHR ''a'' \<le> c \<and> c \<le> CHR ''f'' then Some (of_char c - of_char (CHR ''a'') + 10)
      else None)"

fun parseHexDigits :: "string \<Rightarrow> 64 word \<Rightarrow> 64 word option" where
  "parseHexDigits [] ns = Some ns"
| "parseHexDigits (c # cs) ns =
     (case lowerHexVal c of
        None \<Rightarrow> None
      | Some v \<Rightarrow> parseHexDigits cs (push_bit 4 ns OR of_nat v))"

definition parseHexTime :: "string \<Rightarrow> 64 word option" where
  "parseHexTime s = (if length s \<noteq> 16 then None else parseHexDigits s 0)"

text \<open>\<open>utf8.ValidString\<close> of the standard library.\<close>

definition contByte :: "nat \<Rightarrow> char \<Rightarrow> bool" where
  "contByte lo c \<longleftrightarrow> lo \<le> of_char c \<and> of_char c \<le> (0xBF :: nat)"

fun utf8_valid :: "string \<Rightarrow> bool" where
  "utf8_valid [] = True"
| "utf8_valid (c # cs) =
     (let n = (of_char c :: nat) in
      if n < 0x80 then utf8_valid cs
      else if 0xC2 \<le> n \<and> n \<le> 0xDF then
        (case cs of a # r \<Rightarrow> contByte 0x80 a \<and> utf8_valid r | _ \<Rightarrow> False)
      else if 0xE0 \<le> n \<and> n \<le> 0xEF then
        (case cs of
           a # b # r \<Rightarrow> contByte (if n = 0xE0 then 0xA0 else 0x80) a
             \<and> (n = 0xED \<longrightarrow> of_char a \<le> (0x9F :: nat)) \<and> contByte 0x80 b \<and> utf8_valid r
         | _ \<Rightarrow> False)
      else if 0xF0 \<le> n \<and> n \<le> 0xF4 then
        (case cs of
           a # b # d # r \<Rightarrow> contByte (if n = 0xF0 then 0x90 else 0x80) a
             \<and> (n = 0xF4 \<longrightarrow> of_char a \<le> (0x8F :: nat)) \<and> contByte 0x80 b \<and> contByte 0x80 d
             \<and> utf8_valid r
         | _ \<Rightarrow> False)
      else False)"

text \<open>The key time \<open>parseKey\<close> accepts: not zero and no more than the largest int64.\<close>

definition keyTimeOK :: "64 word \<Rightarrow> bool" where
  "keyTimeOK ns \<longleftrightarrow> ns \<noteq> 0 \<and> ns \<le> 0x7FFFFFFFFFFFFFFF"

text \<open>The end of \<open>parseKey\<close>: the escaped id.\<close>

definition parseKeyID :: "string \<Rightarrow> 64 word \<Rightarrow> 64 word \<Rightarrow> string \<Rightarrow> tombKey option" where
  "parseKeyID kind ns defNs escaped =
     (if length escaped > maxEscapedIDLen then None
      else case unescapeID escaped of
        None \<Rightarrow> None
      | Some i \<Rightarrow>
          if i = [] \<or> \<not> utf8_valid i then None
          else Some \<lparr>tk_kind = kind, tk_timeNs = sint ns, tk_id = i, tk_defNs = sint defNs\<rparr>)"

text \<open>The kind of a key by its suffix, and what stands before it.\<close>

definition splitKind :: "string \<Rightarrow> (string \<times> string) option" where
  "splitKind rest =
     (if hasSuffix rest kindDefinition
      then Some (kindDefinition, take (length rest - length kindDefinition) rest)
      else if hasSuffix rest kindUndo
      then Some (kindUndo, take (length rest - length kindUndo) rest)
      else None)"

definition parseRest :: "string \<Rightarrow> string \<Rightarrow> tombKey option" where
  "parseRest kind rest =
     (if length rest < 1 + 16 + 1 + 1 \<or> rest ! 0 \<noteq> CHR ''t'' \<or> rest ! 17 \<noteq> CHR ''-'' then None
      else case parseHexTime (take 16 (drop 1 rest)) of
        None \<Rightarrow> None
      | Some ns \<Rightarrow>
          if \<not> keyTimeOK ns then None
          else let escaped = drop 18 rest in
            if kind = kindUndo then
              if length escaped < 16 + 1 + 1 \<or> escaped ! 16 \<noteq> CHR ''-'' then None
              else case parseHexTime (take 16 escaped) of
                None \<Rightarrow> None
              | Some d \<Rightarrow>
                  if \<not> keyTimeOK d then None
                  else parseKeyID kind ns d (drop 17 escaped)
            else parseKeyID kind ns 0 escaped)"

definition parseKey :: "string \<Rightarrow> string \<Rightarrow> tombKey option" where
  "parseKey pfx key =
     (if \<not> hasPrefix key pfx then None
      else case splitKind (drop (length pfx) key) of
        None \<Rightarrow> None
      | Some (kind, rest) \<Rightarrow> parseRest kind rest)"

text \<open>\<open>idTime\<close>: \<open>strconv.ParseInt(id, 10, 64)\<close> accepts an optional sign and decimal digits; of
  those, \<open>FormatInt(v) == id\<close> keeps the one spelling without sign or leading zero (the range
  makes every accepted number positive).\<close>

definition decDigit :: "char \<Rightarrow> nat option" where
  "decDigit c = (if CHR ''0'' \<le> c \<and> c \<le> CHR ''9'' then Some (of_char c - of_char (CHR ''0'')) else None)"

fun decValue :: "string \<Rightarrow> nat \<Rightarrow> nat option" where
  "decValue [] n = Some n"
| "decValue (c # cs) n = (case decDigit c of None \<Rightarrow> None | Some d \<Rightarrow> decValue cs (n * 10 + d))"

fun formatDec :: "nat \<Rightarrow> string" where
  "formatDec n = (if n < 10 then [char_of (48 + n)] else formatDec (n div 10) @ [char_of (48 + n mod 10)])"

declare formatDec.simps [simp del]

definition idTime :: "string \<Rightarrow> int option" where
  "idTime i =
     (let digits = (case i of c # cs \<Rightarrow> if c = CHR ''+'' then cs else i | [] \<Rightarrow> i)
      in if digits = [] then None
         else case decValue digits 0 of
           None \<Rightarrow> None
         | Some v \<Rightarrow>
             if v < 1000000000000000000 \<or> v > 4000000000000000000 then None
             else if formatDec v \<noteq> i then None
             else Some (int v))"

section \<open>Hexadecimal digits\<close>

lemma upTo16: "n < 16 \<Longrightarrow> list_all P [0..<16] \<Longrightarrow> P (n :: nat)"
  by (simp add: list_all_iff)

lemma upperHexVal_upperHex [simp]: "n < 16 \<Longrightarrow> upperHexVal (upperHex n) = Some n"
  by (erule upTo16) code_simp

lemma lowerHexVal_digit: "n < 16 \<Longrightarrow> lowerHexVal (''0123456789abcdef'' ! n) = Some n"
  by (erule upTo16) code_simp

lemma hex_char_mono: "a < b \<Longrightarrow> b < 16 \<Longrightarrow> ''0123456789abcdef'' ! a < ''0123456789abcdef'' ! b"
proof -
  have "list_all (\<lambda>b. list_all (\<lambda>a. ''0123456789abcdef'' ! a < ''0123456789abcdef'' ! b) [0..<b]) [0..<16]"
    by code_simp
  then show "a < b \<Longrightarrow> b < 16 \<Longrightarrow> ?thesis" by (simp add: list_all_iff)
qed

lemma char_of_nat_range: "lo \<le> c \<Longrightarrow> c \<le> hi \<Longrightarrow> \<exists>n. c = char_of n \<and> (of_char lo :: nat) \<le> n \<and> n \<le> of_char hi"
  for c :: char
  by (rule exI [of _ "of_char c :: nat"]) (simp add: less_eq_char_def)

lemma upperHexVal_Some: "upperHexVal c = Some n \<Longrightarrow> n < 16 \<and> upperHex n = c"
proof -
  have d: "list_all (\<lambda>k. upperHex k = char_of (48 + k)) [0..<10]"
    and a: "list_all (\<lambda>k. upperHex (k + 10) = char_of (65 + k)) [0..<6]" by code_simp+
  assume "upperHexVal c = Some n"
  then consider "CHR ''0'' \<le> c" "c \<le> CHR ''9''" "n = of_char c - 48"
    | "CHR ''A'' \<le> c" "c \<le> CHR ''F''" "n = of_char c - 65 + 10"
    by (auto simp: upperHexVal_def split: if_splits)
  then show ?thesis
  proof cases
    case 1
    then have "(48::nat) \<le> of_char c" "of_char c \<le> (57::nat)" by (simp_all add: less_eq_char_def)
    with 1 d show ?thesis by (auto simp: list_all_iff dest: bspec [of _ _ n])
  next
    case 2
    then have "(65::nat) \<le> of_char c" "of_char c \<le> (70::nat)" by (simp_all add: less_eq_char_def)
    with 2 a show ?thesis by (auto simp: list_all_iff dest: bspec [of _ _ "n - 10"])
  qed
qed

lemma lowerHexVal_Some: "lowerHexVal c = Some n \<Longrightarrow> n < 16 \<and> ''0123456789abcdef'' ! n = c"
proof -
  have d: "list_all (\<lambda>k. ''0123456789abcdef'' ! k = char_of (48 + k)) [0..<10]"
    and a: "list_all (\<lambda>k. ''0123456789abcdef'' ! (k + 10) = char_of (97 + k)) [0..<6]"
    by code_simp+
  assume "lowerHexVal c = Some n"
  then consider "CHR ''0'' \<le> c" "c \<le> CHR ''9''" "n = of_char c - 48"
    | "CHR ''a'' \<le> c" "c \<le> CHR ''f''" "n = of_char c - 97 + 10"
    by (auto simp: lowerHexVal_def split: if_splits)
  then show ?thesis
  proof cases
    case 1
    then have "(48::nat) \<le> of_char c" "of_char c \<le> (57::nat)" by (simp_all add: less_eq_char_def)
    with 1 d show ?thesis by (auto simp: list_all_iff dest: bspec [of _ _ n])
  next
    case 2
    then have "(97::nat) \<le> of_char c" "of_char c \<le> (102::nat)" by (simp_all add: less_eq_char_def)
    with 2 a show ?thesis by (auto simp: list_all_iff dest: bspec [of _ _ "n - 10"])
  qed
qed

section \<open>Escaped ids\<close>

lemma byte_nibbles: "(of_char c :: nat) div 16 < 16" "char_of (of_char c div 16 * 16 + of_char c mod 16 :: nat) = c"
proof -
  show "(of_char c :: nat) div 16 < 16"
    using nat_of_char_less_256 [of c] by (intro less_mult_imp_div_less) simp
qed simp

lemma percent_not_bare [simp]: "\<not> bareByte (CHR ''%'')"
  by code_simp

theorem unescape_escape: "unescapeID (escapeID s) = Some s"
proof (induction s)
  case (Cons c s)
  then show ?case using byte_nibbles [of c] by (cases "bareByte c") simp_all
qed simp

lemma escape_unescape: "unescapeID s = Some i \<Longrightarrow> escapeID i = s"
proof (induction s arbitrary: i rule: unescapeID.induct)
  case (2 c cs)
  show ?case
  proof (cases "bareByte c")
    case True
    with "2" show ?thesis by auto
  next
    case False
    with "2.prems" obtain h l rest hi lo i' where
      eq: "c = CHR ''%''" "cs = h # l # rest" "upperHexVal h = Some hi" "upperHexVal l = Some lo"
      and nb: "\<not> bareByte (char_of (hi * 16 + lo))"
      and i': "unescapeID rest = Some i'" "i = char_of (hi * 16 + lo) # i'"
      by (auto split: if_splits list.splits option.splits simp: Let_def)
    have v: "hi < 16" "lo < 16" "upperHex hi = h" "upperHex lo = l"
      using upperHexVal_Some eq by blast+
    then have "(of_char (char_of (hi * 16 + lo) :: char) :: nat) = hi * 16 + lo"
      by (simp add: take_bit_eq_mod)
    moreover have "escapeID i' = rest"
      using "2.IH"(2) False eq nb i' by simp
    ultimately show ?thesis using nb eq i' v by simp
  qed
qed simp

lemma escapeID_inject: "escapeID a = escapeID b \<Longrightarrow> a = b"
  by (metis option.inject unescape_escape)

lemma escapeID_Nil [simp]: "escapeID s = [] \<longleftrightarrow> s = []"
  by (cases s) auto

section \<open>Key times\<close>

lemma hexDigits_append: "hexDigits n v buf = hexDigits n v [] @ buf"
proof (induction n arbitrary: v buf)
  case (Suc n)
  show ?case by (simp add: Suc [of _ "_ # buf"] Suc [of _ "[_]"])
qed simp

lemma hexDigits_Suc:
  "hexDigits (Suc n) v [] = hexDigits n (drop_bit 4 v) [] @ [lowerHex (v AND 15)]"
  by (simp add: hexDigits_append [of n _ "[_]"])

lemma length_hexDigits [simp]: "length (hexDigits n v buf) = n + length buf"
  by (induction n v buf rule: hexDigits.induct) auto

lemma length_hexTime [simp]: "length (hexTime ns) = 16"
  by (simp add: hexTime_def)

lemma and15 [simp]: "(v :: 64 word) AND 15 = take_bit 4 v"
  using take_bit_eq_mask [of 4 v] by (simp add: mask_eq_exp_minus_1)

lemma unat_nibble: "unat (take_bit 4 v :: 64 word) = unat v mod 16"
  by (simp add: take_bit_eq_mod unat_mod)

lemma unat_drop4: "unat (drop_bit 4 v :: 64 word) = unat v div 16"
  by (simp add: drop_bit_eq_div unat_div)

lemma lowerHex_nibble: "lowerHexVal (lowerHex (take_bit 4 v)) = Some (unat (take_bit 4 v))"
  unfolding lowerHex_def by (rule lowerHexVal_digit) (simp add: unat_nibble)

lemma parseHexDigits_append:
  "parseHexDigits (xs @ ys) a = Option.bind (parseHexDigits xs a) (parseHexDigits ys)"
  by (induction xs a rule: parseHexDigits.induct) (auto split: option.splits)

lemma parse_hexDigits:
  "parseHexDigits (hexDigits n v []) a = Some (push_bit (4 * n) a OR take_bit (4 * n) v)"
proof (induction n arbitrary: v)
  case (Suc n)
  have "push_bit 4 (push_bit (4 * n) a OR take_bit (4 * n) (drop_bit 4 v)) OR take_bit 4 v
      = push_bit (4 * Suc n) a OR take_bit (4 * Suc n) v"
    by (rule bit_word_eqI) (auto simp: bit_simps)
  with Suc show ?case
    by (simp add: hexDigits_Suc parseHexDigits_append lowerHex_nibble del: hexDigits.simps)
qed simp

lemma parseHexTime_hexTime: "parseHexTime (hexTime ns) = Some (word_of_int ns)"
proof -
  have "take_bit 64 v = v" for v :: "64 word"
    by (rule bit_word_eqI) (simp add: bit_simps)
  then show ?thesis
    by (simp add: parseHexTime_def hexTime_def parse_hexDigits del: hexDigits.simps)
qed

lemma hexDigits_low:
  "take_bit (4 * n) v = take_bit (4 * n) w \<Longrightarrow> hexDigits n v [] = hexDigits n w []"
proof (induction n arbitrary: v w)
  case (Suc n)
  have low: "take_bit 4 x = take_bit 4 (take_bit (4 * Suc n) x)"
    and high: "take_bit (4 * n) (drop_bit 4 x) = drop_bit 4 (take_bit (4 * Suc n) x)" for x :: "64 word"
    by (rule bit_word_eqI; auto simp: bit_simps)+
  have "take_bit 4 v = take_bit 4 w"
    by (simp only: low [of v] low [of w] Suc.prems)
  moreover have "take_bit (4 * n) (drop_bit 4 v) = take_bit (4 * n) (drop_bit 4 w)"
    by (simp only: high [of v] high [of w] Suc.prems)
  ultimately show ?case
    using Suc.IH [of "drop_bit 4 v" "drop_bit 4 w"] by (simp add: hexDigits_Suc del: hexDigits.simps)
qed simp

lemma hexDigits_parse:
  "parseHexDigits s a = Some w \<Longrightarrow> length s \<le> 16 \<Longrightarrow> hexDigits (length s) w [] = s"
proof (induction s arbitrary: w rule: rev_induct)
  case (snoc c s)
  then obtain b v where b: "parseHexDigits s a = Some b" "lowerHexVal c = Some v"
    "w = push_bit 4 b OR of_nat v"
    by (auto simp: parseHexDigits_append split: option.splits bind_splits)
  have v: "v < 16" "''0123456789abcdef'' ! v = c" using lowerHexVal_Some b(2) by blast+
  have uv: "unat (of_nat v :: 64 word) = v"
    using v(1) by (simp add: unsigned_of_nat take_bit_nat_eq_self)
  have tv: "take_bit 4 (of_nat v :: 64 word) = of_nat v" "drop_bit 4 (of_nat v :: 64 word) = 0"
    using v(1) by (simp_all add: word_unat_eq_iff unat_nibble unat_drop4 uv)
  have "take_bit 4 w = take_bit 4 (of_nat v)"
    unfolding b(3) by (rule bit_word_eqI) (auto simp: bit_simps)
  then have "lowerHex (take_bit 4 w) = c"
    using v tv uv by (simp add: lowerHex_def)
  moreover have "take_bit (4 * length s) (drop_bit 4 w) = take_bit (4 * length s) b"
  proof -
    have "drop_bit 4 w = drop_bit 4 (push_bit 4 b)" unfolding b(3) by (simp add: tv)
    then show ?thesis using snoc.prems(2) by (simp, intro bit_word_eqI) (auto simp: bit_simps)
  qed
  ultimately show ?case
    using snoc.IH [OF b(1)] snoc.prems(2) hexDigits_low [of "length s" "drop_bit 4 w" b]
    by (simp add: hexDigits_Suc del: hexDigits.simps)
qed simp

lemma hexTime_parse: "parseHexTime s = Some w \<Longrightarrow> hexTime (uint w) = s"
  using hexDigits_parse [of s 0 w]
  by (auto simp: parseHexTime_def hexTime_def split: if_splits)

section \<open>Round trips of the keys\<close>

definition wf_tombKey :: "tombKey \<Rightarrow> bool" where
  "wf_tombKey k \<longleftrightarrow> tk_kind k \<in> {kindDefinition, kindUndo}
     \<and> 0 < tk_timeNs k \<and> tk_timeNs k \<le> max_int64
     \<and> (if tk_kind k = kindUndo then 0 < tk_defNs k \<and> tk_defNs k \<le> max_int64 else tk_defNs k = 0)
     \<and> tk_id k \<noteq> [] \<and> utf8_valid (tk_id k) \<and> length (escapeID (tk_id k)) \<le> maxEscapedIDLen"

lemma kinds_neq [simp]: "kindDefinition \<noteq> kindUndo" "kindUndo \<noteq> kindDefinition"
  "kindDefinition \<noteq> []" "kindUndo \<noteq> []"
  by (simp_all add: kindDefinition_def kindUndo_def)

lemma length_kinds [simp]: "length kindDefinition = 5" "length kindUndo = 5"
  by (simp_all add: kindDefinition_def kindUndo_def)

lemma splitKind_append [simp]:
  "splitKind (r @ kindDefinition) = Some (kindDefinition, r)"
  "splitKind (r @ kindUndo) = Some (kindUndo, r)"
proof -
  have "\<not> hasSuffix (r @ kindUndo) kindDefinition"
    using hasSuffix_same_length [of "r @ kindUndo" kindDefinition kindUndo] by auto
  then show "splitKind (r @ kindUndo) = Some (kindUndo, r)" by (simp add: splitKind_def)
qed (simp add: splitKind_def)

lemma splitKind_Some:
  "splitKind s = Some (kind, r) \<Longrightarrow> kind \<in> {kindDefinition, kindUndo} \<and> s = r @ kind"
  by (auto simp: splitKind_def hasSuffix_ex split: if_splits)

lemma keyTimeOK_word:
  "0 < t \<Longrightarrow> t \<le> max_int64 \<Longrightarrow> keyTimeOK (word_of_int t) \<and> sint (word_of_int t :: 64 word) = t"
proof -
  assume t: "0 < t" "t \<le> max_int64"
  then have u: "uint (word_of_int t :: 64 word) = t"
    by (simp add: uint_word_of_int max_int64_def)
  moreover have "sint (word_of_int t :: 64 word) = t"
    using t by (simp add: signed_of_int signed_take_bit_int_eq_self max_int64_def)
  ultimately show ?thesis
    using t by (auto simp: keyTimeOK_def word_le_def max_int64_def)
qed

lemma keyTimeOK_sint: "keyTimeOK w \<Longrightarrow> sint w = uint w \<and> 0 < uint w \<and> uint w \<le> max_int64"
proof -
  assume w: "keyTimeOK w"
  then have le: "uint w \<le> 2 ^ 63 - 1" and pos: "w \<noteq> 0"
    by (simp_all add: keyTimeOK_def word_le_def)
  have "0 < uint w" using pos by (simp add: word_less_def [symmetric] word_gt_0 uint_0_iff order_less_le)
  moreover have "- (2 ^ 63) \<le> uint w" by (rule order_trans [OF _ unsigned_greater_eq]) simp
  then have "sint w = uint w"
    using le by (simp add: sint_uint signed_take_bit_int_eq_self)
  ultimately show ?thesis using le by (simp add: max_int64_def)
qed

lemma parseKeyID_iff:
  "parseKeyID kind ns d e = Some k \<longleftrightarrow>
     length e \<le> maxEscapedIDLen \<and> e = escapeID (tk_id k) \<and> tk_id k \<noteq> [] \<and> utf8_valid (tk_id k)
     \<and> tk_kind k = kind \<and> tk_timeNs k = sint ns \<and> tk_defNs k = sint d"
  by (cases k) (auto simp: parseKeyID_def unescape_escape dest: escape_unescape split: option.splits)

text \<open>The shape of what stands between the prefix and the suffix.\<close>

lemma parseRest_json:
  "length h = 16 \<Longrightarrow> e \<noteq> [] \<Longrightarrow> parseRest kindDefinition (CHR ''t'' # h @ CHR ''-'' # e) =
     (case parseHexTime h of None \<Rightarrow> None
      | Some ns \<Rightarrow> if keyTimeOK ns then parseKeyID kindDefinition ns 0 e else None)"
  by (cases e) (auto simp: parseRest_def nth_append split: option.splits)

lemma parseRest_undo:
  "length h = 16 \<Longrightarrow> length g = 16 \<Longrightarrow> e \<noteq> [] \<Longrightarrow>
   parseRest kindUndo (CHR ''t'' # h @ CHR ''-'' # g @ CHR ''-'' # e) =
     (case parseHexTime h of None \<Rightarrow> None
      | Some ns \<Rightarrow> if \<not> keyTimeOK ns then None
          else (case parseHexTime g of None \<Rightarrow> None
                | Some d \<Rightarrow> if keyTimeOK d then parseKeyID kindUndo ns d e else None))"
  by (cases e) (auto simp: parseRest_def nth_append split: option.splits)

lemma split_at_nth:
  "n < length r \<Longrightarrow> r ! n = c \<Longrightarrow> \<exists>a b. r = a @ c # b \<and> length a = n"
  by (metis id_take_nth_drop length_take less_imp_le min_absorb2)

lemma parseRest_shape:
  assumes "parseRest kind r = Some k"
  obtains h e where "r = CHR ''t'' # h @ CHR ''-'' # e" "length h = 16" "e \<noteq> []"
proof -
  from assms have r: "length r \<ge> 19" "r ! 0 = CHR ''t''" "r ! 17 = CHR ''-''"
    by (auto simp: parseRest_def split: if_splits)
  then obtain r' where r': "r = CHR ''t'' # r'" by (cases r) auto
  with r obtain h e where "r' = h @ CHR ''-'' # e" "length h = 16"
    using split_at_nth [of 16 r' "CHR ''-''"] by auto
  with r r' that show ?thesis by (cases e) auto
qed

lemma parseRest_undo_shape:
  assumes "parseRest kindUndo (CHR ''t'' # h @ CHR ''-'' # e) = Some k" "length h = 16"
  obtains g e' where "e = g @ CHR ''-'' # e'" "length g = 16" "e' \<noteq> []"
proof -
  from assms have "length e \<ge> 18" "e ! 16 = CHR ''-''"
    by (auto simp: parseRest_def Let_def split: if_splits option.splits)
  then obtain g e' where "e = g @ CHR ''-'' # e'" "length g = 16"
    using split_at_nth [of 16 e "CHR ''-''"] by auto
  with \<open>length e \<ge> 18\<close> that show ?thesis by (cases e') auto
qed

lemma parse_format:
  assumes wf: "wf_tombKey k"
  shows "parseKey pfx (formatKey pfx k) = Some k"
proof -
  note t = keyTimeOK_word [of "tk_timeNs k"] and d = keyTimeOK_word [of "tk_defNs k"]
  have e: "escapeID (tk_id k) \<noteq> []" using wf by (simp add: wf_tombKey_def)
  consider (def) "tk_kind k = kindDefinition" | (undo) "tk_kind k = kindUndo"
    using wf by (auto simp: wf_tombKey_def)
  then show ?thesis
  proof cases
    case def
    have "parseKey pfx (formatKey pfx k)
        = parseRest kindDefinition (CHR ''t'' # hexTime (tk_timeNs k) @ CHR ''-'' # escapeID (tk_id k))"
      using splitKind_append(1) [of "CHR ''t'' # hexTime (tk_timeNs k) @ CHR ''-'' # escapeID (tk_id k)"]
      by (simp add: parseKey_def formatKey_def def)
    then show ?thesis
      using wf def t e by (simp add: parseRest_json parseHexTime_hexTime parseKeyID_iff wf_tombKey_def)
  next
    case undo
    let ?r = "CHR ''t'' # hexTime (tk_timeNs k) @ CHR ''-'' # hexTime (tk_defNs k) @ CHR ''-'' # escapeID (tk_id k)"
    have "parseKey pfx (formatKey pfx k) = parseRest kindUndo ?r"
      using splitKind_append(2) [of ?r] by (simp add: parseKey_def formatKey_def undo)
    then show ?thesis
      using wf undo t d e by (simp add: parseRest_undo parseHexTime_hexTime parseKeyID_iff wf_tombKey_def)
  qed
qed

lemma format_parse:
  assumes "parseKey pfx key = Some k"
  shows "formatKey pfx k = key \<and> wf_tombKey k"
proof -
  from assms obtain kind r where kr: "key = pfx @ r @ kind" "kind \<in> {kindDefinition, kindUndo}"
    and p: "parseRest kind r = Some k"
    by (auto simp: parseKey_def hasPrefix_ex split: if_splits option.splits dest!: splitKind_Some)
  from p obtain h e where he: "r = CHR ''t'' # h @ CHR ''-'' # e" "length h = 16" "e \<noteq> []"
    by (rule parseRest_shape)
  from kr(2) show ?thesis
  proof safe
    assume def: "kind = kindDefinition"
    with p he obtain ns where ns: "parseHexTime h = Some ns" "keyTimeOK ns"
      and k: "parseKeyID kindDefinition ns 0 e = Some k"
      by (auto simp: parseRest_json split: option.splits if_splits)
    with keyTimeOK_sint [OF ns(2)] hexTime_parse [OF ns(1)] he kr def
    show "formatKey pfx k = key" "wf_tombKey k"
      by (auto simp: parseKeyID_iff formatKey_def wf_tombKey_def)
  next
    assume undo: "kind = kindUndo"
    with p he obtain g e' where g: "e = g @ CHR ''-'' # e'" "length g = 16" "e' \<noteq> []"
      by (metis parseRest_undo_shape)
    with p he undo obtain ns d where ns: "parseHexTime h = Some ns" "keyTimeOK ns"
      and d: "parseHexTime g = Some d" "keyTimeOK d" and k: "parseKeyID kindUndo ns d e' = Some k"
      by (auto simp: parseRest_undo split: option.splits if_splits)
    with keyTimeOK_sint [OF ns(2)] hexTime_parse [OF ns(1)] keyTimeOK_sint [OF d(2)]
      hexTime_parse [OF d(1)] he kr g undo
    show "formatKey pfx k = key" "wf_tombKey k"
      by (auto simp: parseKeyID_iff formatKey_def wf_tombKey_def)
  qed
qed

section \<open>Keys sort by their times\<close>

text \<open>The digits of a number, most significant first.\<close>

fun hexNat :: "nat \<Rightarrow> nat \<Rightarrow> string" where
  "hexNat 0 k = []"
| "hexNat (Suc n) k = hexNat n (k div 16) @ [''0123456789abcdef'' ! (k mod 16)]"

lemma length_hexNat [simp]: "length (hexNat n k) = n"
  by (induction n arbitrary: k) auto

lemma hexDigits_hexNat: "hexDigits n v [] = hexNat n (unat v)"
  by (induction n arbitrary: v)
    (simp_all add: hexDigits_Suc unat_drop4 unat_nibble lowerHex_def del: hexDigits.simps(2))

lemma hexNat_mono: "a < b \<Longrightarrow> b < 16 ^ n \<Longrightarrow> hexNat n a < hexNat n b"
proof (induction n arbitrary: a b)
  case (Suc n)
  show ?case
  proof (cases "a div 16 < b div 16")
    case True
    then have "hexNat n (a div 16) < hexNat n (b div 16)"
      using Suc by (simp add: less_mult_imp_div_less)
    then show ?thesis by (simp add: same_length_less_append)
  next
    case False
    with \<open>a < b\<close> have eq: "a div 16 = b div 16" by (simp add: div_le_mono order_le_less)
    with \<open>a < b\<close> have "a mod 16 < b mod 16"
      by (metis add_less_cancel_left mult_div_mod_eq)
    then have "''0123456789abcdef'' ! (a mod 16) < ''0123456789abcdef'' ! (b mod 16)"
      by (rule hex_char_mono) simp
    then show ?thesis using eq by (simp del: nth_Cons_numeral nth_Cons')
  qed
qed simp

lemma hexTime_mono:
  assumes "0 \<le> a" "a < b" "b \<le> max_int64"
  shows "hexTime a < hexTime b"
proof -
  have u: "unat (word_of_int x :: 64 word) = nat x" if "0 \<le> x" "x \<le> max_int64" for x
    using that by (simp add: unat_eq_nat_uint uint_word_of_int max_int64_def)
  have "nat b < 16 ^ 16" using assms by (simp add: max_int64_def)
  moreover have "nat a < nat b" using assms by simp
  ultimately have "hexNat 16 (nat a) < hexNat 16 (nat b)" by (intro hexNat_mono)
  then show ?thesis
    unfolding hexTime_def hexDigits_hexNat using u [of a] u [of b] assms by simp
qed

lemma formatKey_split:
  "\<exists>e. e \<noteq> [] \<and> formatKey pfx k = pfx @ ''t'' @ hexTime (tk_timeNs k) @ e"
  by (simp add: formatKey_def)

lemma formatKey_mono:
  assumes "0 \<le> tk_timeNs a" "tk_timeNs a < tk_timeNs b" "tk_timeNs b \<le> max_int64"
  shows "formatKey pfx a < formatKey pfx b"
proof -
  obtain x y where "formatKey pfx a = pfx @ ''t'' @ hexTime (tk_timeNs a) @ x"
    "formatKey pfx b = pfx @ ''t'' @ hexTime (tk_timeNs b) @ y"
    using formatKey_split by blast
  with hexTime_mono [OF assms] show ?thesis by (simp add: same_length_less_append)
qed

lemma startAfter_before:
  assumes "wf_tombKey k" "ns \<le> tk_timeNs k"
  shows "startAfterKey pfx ns < formatKey pfx k"
proof (cases "ns \<le> 0")
  case True
  obtain e where "formatKey pfx k = pfx @ ''t'' @ hexTime (tk_timeNs k) @ e" using formatKey_split by blast
  with True show ?thesis by (cases pfx) (simp_all add: startAfterKey_def)
next
  case False
  obtain e where e: "e \<noteq> []" "formatKey pfx k = pfx @ ''t'' @ hexTime (tk_timeNs k) @ e"
    using formatKey_split by blast
  show ?thesis
  proof (cases "ns = tk_timeNs k")
    case True
    with e False show ?thesis by (simp add: startAfterKey_def less_append_nonempty)
  next
    case neq: False
    with assms False have "hexTime ns < hexTime (tk_timeNs k)"
      by (intro hexTime_mono) (auto simp: wf_tombKey_def)
    then have "hexTime ns @ [] < hexTime (tk_timeNs k) @ e" by (intro same_length_less_append) simp_all
    with e False show ?thesis by (simp add: startAfterKey_def)
  qed
qed

end
