(* ===== verification/GoSort.thy ===== *)
theory GoSort
  imports Prelude
begin

text \<open>
  Go's \<open>sort\<close> package as the modelled code uses it. \<open>sortSearch\<close> is \<open>sort.Search\<close>
  (the standard library's bisection) with its total correctness on a monotone predicate.
  \<open>sort_slice\<close> is \<open>sort.Slice\<close> and \<open>sort.SliceStable\<close>: an insertion sort by a
  comparison function. What a comparison function must promise is the locale
  \<open>comparator\<close>; each component interprets it on its own comparison functions, and the
  facts about the sorted result come from there.
\<close>

section \<open>sort.Search\<close>

function sort_search :: "(nat \<Rightarrow> bool) \<Rightarrow> nat \<Rightarrow> nat \<Rightarrow> nat" where
  "sort_search f i j =
     (if i < j
      then let h = (i + j) div 2
           in if \<not> f h then sort_search f (Suc h) j else sort_search f i h
      else i)"
  by pat_completeness auto
termination
  by (relation "measure (\<lambda>(f, i, j). j - i)") auto

declare sort_search.simps [simp del]

definition sortSearch :: "nat \<Rightarrow> (nat \<Rightarrow> bool) \<Rightarrow> nat" where
  "sortSearch n f = sort_search f 0 n"

text \<open>The position found is the boundary between the indices where \<open>f\<close> fails and those
  where it holds.\<close>

definition boundary :: "(nat \<Rightarrow> bool) \<Rightarrow> nat \<Rightarrow> nat \<Rightarrow> bool" where
  "boundary f n r \<longleftrightarrow> r \<le> n \<and> (\<forall>a < r. \<not> f a) \<and> (\<forall>a. r \<le> a \<longrightarrow> a < n \<longrightarrow> f a)"

lemma sort_search_boundary:
  assumes "i \<le> j" "j \<le> n" "\<forall>a < i. \<not> f a" "\<forall>a. j \<le> a \<longrightarrow> a < n \<longrightarrow> f a"
    and mono: "\<forall>a b. a \<le> b \<longrightarrow> b < n \<longrightarrow> f a \<longrightarrow> f b"
  shows "boundary f n (sort_search f i j)"
  using assms
proof (induction f i j rule: sort_search.induct)
  case (1 f i j)
  define h where "h = (i + j) div 2"
  note unf = sort_search.simps [of f i j, folded h_def, unfolded Let_def]
  show ?case
  proof (cases "i < j")
    case True
    then have h: "i \<le> h" "h < j" unfolding h_def by auto
    show ?thesis
    proof (cases "f h")
      case True
      with "1.prems" h have "\<forall>a. h \<le> a \<longrightarrow> a < n \<longrightarrow> f a" by blast
      with True \<open>i < j\<close> h "1.prems" show ?thesis
        using "1.IH"(2) [OF \<open>i < j\<close> h_def] by (simp add: unf)
    next
      case False
      with "1.prems" h have "\<forall>a < Suc h. \<not> f a"
        by (metis less_Suc_eq_le order_less_le_trans)
      with False \<open>i < j\<close> h "1.prems" show ?thesis
        using "1.IH"(1) [OF \<open>i < j\<close> h_def] by (simp add: unf)
    qed
  next
    case False
    then have "sort_search f i j = i" by (simp add: unf)
    with False "1.prems" show ?thesis by (simp add: boundary_def)
  qed
qed

lemma sortSearch_boundary:
  "(\<And>a b. a \<le> b \<Longrightarrow> b < n \<Longrightarrow> f a \<Longrightarrow> f b) \<Longrightarrow> boundary f n (sortSearch n f)"
  unfolding sortSearch_def by (rule sort_search_boundary) auto

text \<open>Cutting a list at the boundary of a predicate on its elements keeps exactly the elements
  with the predicate.\<close>

lemma drop_boundary:
  assumes "boundary (\<lambda>i. P (xs ! i)) (length xs) r"
  shows "drop r xs = filter P xs" "take r xs = filter (\<lambda>x. \<not> P x) xs"
proof -
  have t: "\<And>x. x \<in> set (take r xs) \<Longrightarrow> \<not> P x" and d: "\<And>x. x \<in> set (drop r xs) \<Longrightarrow> P x"
    using assms by (auto simp: boundary_def in_set_conv_nth)
  have "filter P xs = filter P (take r xs @ drop r xs)" by simp
  also have "\<dots> = drop r xs"
    using t d by (simp only: filter_append) (simp add: filter_False filter_True)
  finally show "drop r xs = filter P xs" by simp
  have "filter (\<lambda>x. \<not> P x) xs = filter (\<lambda>x. \<not> P x) (take r xs @ drop r xs)" by simp
  also have "\<dots> = take r xs"
    using t d by (simp only: filter_append) (simp add: filter_False filter_True)
  finally show "take r xs = filter (\<lambda>x. \<not> P x) xs" by simp
qed

lemma drop_sortSearch:
  assumes "\<And>a b. a \<le> b \<Longrightarrow> b < length xs \<Longrightarrow> P (xs ! a) \<Longrightarrow> P (xs ! b)"
  shows "drop (sortSearch (length xs) (\<lambda>i. P (xs ! i))) xs = filter P xs"
    "take (sortSearch (length xs) (\<lambda>i. P (xs ! i))) xs = filter (\<lambda>x. \<not> P x) xs"
  using drop_boundary [OF sortSearch_boundary] assms by blast+

section \<open>sort.Slice\<close>

fun insert_by :: "('a \<Rightarrow> 'a \<Rightarrow> bool) \<Rightarrow> 'a \<Rightarrow> 'a list \<Rightarrow> 'a list" where
  "insert_by lt x [] = [x]"
| "insert_by lt x (y # ys) =
     (if lt y x then y # insert_by lt x ys else x # y # ys)"

definition sort_slice :: "('a \<Rightarrow> 'a \<Rightarrow> bool) \<Rightarrow> 'a list \<Rightarrow> 'a list" where
  "sort_slice lt xs = foldr (insert_by lt) xs []"

lemma mset_insert_by [simp]: "mset (insert_by lt x xs) = add_mset x (mset xs)"
  by (induction xs) auto

lemma set_insert_by [simp]: "set (insert_by lt x xs) = insert x (set xs)"
  by (induction xs) auto

lemma mset_sort_slice [simp]: "mset (sort_slice lt xs) = mset xs"
  unfolding sort_slice_def by (induction xs) auto

lemma set_sort_slice [simp]: "set (sort_slice lt xs) = set xs"
  by (metis mset_sort_slice set_mset_mset)

lemma length_sort_slice [simp]: "length (sort_slice lt xs) = length xs"
  by (metis mset_sort_slice size_mset)

lemma distinct_sort_slice [simp]: "distinct (sort_slice lt xs) = distinct xs"
  by (metis mset_eq_imp_distinct_iff mset_sort_slice)

lemma sort_slice_Nil [simp]: "sort_slice lt [] = []"
  by (simp add: sort_slice_def)

text \<open>The contract of a comparison function handed to \<open>sort.Slice\<close>: a strict weak order.\<close>

locale comparator =
  fixes lt :: "'a \<Rightarrow> 'a \<Rightarrow> bool"
  assumes irrefl: "\<not> lt x x"
    and trans: "lt x y \<Longrightarrow> lt y z \<Longrightarrow> lt x z"
    and weak: "lt x z \<Longrightarrow> lt x y \<or> lt y z"
begin

lemma asym: "lt x y \<Longrightarrow> \<not> lt y x"
  using irrefl trans by blast

lemma le_trans: "\<not> lt y x \<Longrightarrow> \<not> lt z y \<Longrightarrow> \<not> lt z x"
  using weak by blast

lemma sorted_insert_by:
  "sorted_wrt (\<lambda>a b. \<not> lt b a) xs \<Longrightarrow> sorted_wrt (\<lambda>a b. \<not> lt b a) (insert_by lt x xs)"
proof (induction xs)
  case (Cons y ys)
  show ?case
  proof (cases "lt y x")
    case True
    with Cons show ?thesis using asym by auto
  next
    case False
    with Cons.prems have "\<forall>b \<in> set ys. \<not> lt b x" using le_trans by auto
    with False Cons.prems show ?thesis by simp
  qed
qed simp

lemma sorted_sort_slice: "sorted_wrt (\<lambda>a b. \<not> lt b a) (sort_slice lt xs)"
  unfolding sort_slice_def by (induction xs) (auto intro: sorted_insert_by)

text \<open>Where the order separates the elements, the sorted list depends on the elements only, not
  on the order they came in.\<close>

lemma sorted_perm_eq:
  assumes "sorted_wrt (\<lambda>a b. \<not> lt b a) xs" "sorted_wrt (\<lambda>a b. \<not> lt b a) ys"
    and "mset xs = mset ys"
    and "\<And>a b. a \<in> set xs \<Longrightarrow> b \<in> set xs \<Longrightarrow> lt a b \<or> a = b \<or> lt b a"
  shows "xs = ys"
  using assms
proof (induction xs arbitrary: ys)
  case (Cons x xs)
  then obtain y ys' where ys: "ys = y # ys'" by (cases ys) auto
  have "x \<in> set ys" "y \<in> set (x # xs)"
    using Cons.prems(3) ys by (metis list.set_intros(1) set_mset_mset)+
  then have "\<not> lt x y" "\<not> lt y x"
    using Cons.prems(1,2) ys irrefl by auto
  then have "x = y" using Cons.prems(4) \<open>y \<in> set (x # xs)\<close> by force
  moreover have "xs = ys'"
    using Cons.IH [of ys'] Cons.prems ys \<open>x = y\<close> by auto
  ultimately show ?case using ys by simp
qed simp

lemma sort_slice_perm:
  assumes "mset xs = mset ys"
    and "\<And>a b. a \<in> set xs \<Longrightarrow> b \<in> set xs \<Longrightarrow> lt a b \<or> a = b \<or> lt b a"
  shows "sort_slice lt xs = sort_slice lt ys"
  using sorted_perm_eq [OF sorted_sort_slice sorted_sort_slice, of xs ys] assms by simp

text \<open>The first element of a sorted slice is a least one.\<close>

lemma hd_sort_slice_least:
  assumes "xs \<noteq> []" "y \<in> set xs"
  shows "\<not> lt y (hd (sort_slice lt xs))"
proof -
  obtain z zs where z: "sort_slice lt xs = z # zs"
    using assms(1) by (metis length_0_conv length_sort_slice neq_Nil_conv)
  then have "y = z \<or> y \<in> set zs" using assms(2) set_sort_slice [of lt xs] by auto
  moreover have "\<forall>b \<in> set zs. \<not> lt b z" using sorted_sort_slice [of xs] z by simp
  ultimately show ?thesis using z irrefl by auto
qed

end

text \<open>The strings' own order, as \<open>sort.Strings\<close> uses it.\<close>

interpretation string_order: comparator "(<) :: string \<Rightarrow> string \<Rightarrow> bool"
  by unfold_locales auto

text \<open>Comparison functions that compare a key first and fall back to another order on a tie,
  the shape of every multi-key comparison function in the sources.\<close>

lemma comparator_lex:
  fixes key :: "'a \<Rightarrow> 'b :: linorder"
  assumes "comparator lt"
  shows "comparator (\<lambda>a b. if key a \<noteq> key b then key a < key b else lt a b)"
proof -
  from assms have "\<And>x. \<not> lt x x" "\<And>x y z. lt x y \<Longrightarrow> lt y z \<Longrightarrow> lt x z"
    "\<And>x y z. lt x z \<Longrightarrow> lt x y \<or> lt y z"
    by (auto simp: comparator_def)
  then show ?thesis unfolding comparator_def
    by (smt (verit) linorder_neqE order_less_trans order_less_irrefl)
qed

lemma comparator_key:
  fixes key :: "'a \<Rightarrow> 'b :: linorder"
  shows "comparator (\<lambda>a b. key a < key b)"
  by unfold_locales auto

end
