(* ===== verification/Tombstones.thy ===== *)
theory Tombstones
  imports TombKeys GoSort
begin

text \<open>
  The tombstone and its tenants: \<open>src/internal/delete/tombstone.go\<close>,
  \<open>src/internal/delete/tenant_scope.go\<close> and the definition codec of
  \<open>src/internal/delete/keys.go\<close>.

  The LogsQL filter engine is third-party code and a parameter: \<open>ql query at\<close> is
  \<open>None\<close> when the query does not parse and otherwise the filter's predicate on a row.
  The bytes of a definition object are represented by what \<open>encoding/json\<close> reads from
  them (\<open>body\<close>).
\<close>

section \<open>Tenants\<close>

record tenantRef =
  AccountID :: nat
  ProjectID :: nat

definition tenantLess :: "tenantRef \<Rightarrow> tenantRef \<Rightarrow> bool" where
  "tenantLess a b =
     (if AccountID a \<noteq> AccountID b then AccountID a < AccountID b else ProjectID a < ProjectID b)"

text \<open>The compaction loop of \<open>NormalizeTenants\<close>: \<open>out[n-1]\<close> is the last tenant kept.\<close>

fun dedupAdjacent :: "tenantRef \<Rightarrow> tenantRef list \<Rightarrow> tenantRef list" where
  "dedupAdjacent prev [] = []"
| "dedupAdjacent prev (t # ts) =
     (if t \<noteq> prev then t # dedupAdjacent t ts else dedupAdjacent prev ts)"

definition NormalizeTenants :: "tenantRef list \<Rightarrow> tenantRef list" where
  "NormalizeTenants tenants =
     (case sort_slice tenantLess tenants of [] \<Rightarrow> [] | t # ts \<Rightarrow> t # dedupAdjacent t ts)"

section \<open>Tombstones\<close>

type_synonym row = "(string \<times> string) list"
type_synonym filter_engine = "string \<Rightarrow> int \<Rightarrow> (row \<Rightarrow> bool) option"

record tombstone =
  t_ID :: string
  t_Query :: string
  t_StartNs :: int
  t_EndNs :: int
  t_CreatedAt :: "int option"
  t_CreatedBy :: string
  t_Mode :: string
  t_FilterAt :: int
  t_Tenants :: "tenantRef list"

definition AffectsFile :: "tombstone \<Rightarrow> int \<Rightarrow> int \<Rightarrow> bool" where
  "AffectsFile t fileMinNs fileMaxNs =
     (if t_StartNs t > t_EndNs t then False
      else t_StartNs t \<le> fileMaxNs \<and> t_EndNs t \<ge> fileMinNs)"

definition matchAll :: "string \<Rightarrow> bool" where
  "matchAll q \<longleftrightarrow> q = [] \<or> q = ''*''"

definition MatchesFields :: "filter_engine \<Rightarrow> tombstone \<Rightarrow> row \<Rightarrow> int \<Rightarrow> bool" where
  "MatchesFields ql t flds ts =
     (if ts < t_StartNs t \<or> ts > t_EndNs t then False
      else if matchAll (t_Query t) then True
      else case ql (t_Query t) (t_FilterAt t) of None \<Rightarrow> False | Some f \<Rightarrow> f flds)"

datatype terror =
    NoID | NotUTF8 string | IDTooLong nat | RangeInverted int int | NoTenantScope
  | QueryDoesNotParse | UnknownMode string
  | NotADefinition | UnsupportedVersion int | IDMismatch string string

definition Validate :: "filter_engine \<Rightarrow> tombstone \<Rightarrow> terror option" where
  "Validate ql t =
     (if t_ID t = [] then Some NoID
      else case find (\<lambda>(name, v). \<not> utf8_valid v)
          [(''id'', t_ID t), (''query'', t_Query t), (''created_by'', t_CreatedBy t), (''mode'', t_Mode t)] of
        Some (name, v) \<Rightarrow> Some (NotUTF8 name)
      | None \<Rightarrow>
          if length (escapeID (t_ID t)) > maxEscapedIDLen then Some (IDTooLong (length (escapeID (t_ID t))))
          else if t_StartNs t > t_EndNs t then Some (RangeInverted (t_StartNs t) (t_EndNs t))
          else if t_Tenants t = [] then Some NoTenantScope
          else if \<not> matchAll (t_Query t) \<and> ql (t_Query t) (t_FilterAt t) = None then Some QueryDoesNotParse
          else if t_Mode t \<in> {[], ''hide'', ''permanent'', ''auto''} then None
          else Some (UnknownMode (t_Mode t)))"

section \<open>Tenant scope\<close>

text \<open>A key parser: the account and project segments of an object key, \<open>None\<close> for a key
  without tenant segments.\<close>

type_synonym key_tenant = "string \<Rightarrow> (string \<times> string) option"

definition AppliesToTenant :: "tombstone \<Rightarrow> nat \<Rightarrow> nat \<Rightarrow> bool" where
  "AppliesToTenant t acc proj \<longleftrightarrow> (\<exists>tn \<in> set (t_Tenants t). AccountID tn = acc \<and> ProjectID tn = proj)"

fun anyTenantOwnsKey :: "tenantRef list \<Rightarrow> key_tenant \<Rightarrow> string \<Rightarrow> bool" where
  "anyTenantOwnsKey [] parse key = False"
| "anyTenantOwnsKey (tn # tns) parse key =
     (case parse key of
        None \<Rightarrow>
          if AccountID tn = 0 \<and> ProjectID tn = 0 then True else anyTenantOwnsKey tns parse key
      | Some (account, project) \<Rightarrow>
          if account \<noteq> formatDec (AccountID tn) then anyTenantOwnsKey tns parse key
          else if project = [] \<or> project = formatDec (ProjectID tn) then True
          else anyTenantOwnsKey tns parse key)"

definition AppliesToKey :: "tombstone \<Rightarrow> key_tenant \<Rightarrow> string \<Rightarrow> bool" where
  "AppliesToKey t parse key = anyTenantOwnsKey (t_Tenants t) parse key"

definition KeyBelongsTo :: "key_tenant \<Rightarrow> string \<Rightarrow> tenantRef \<Rightarrow> bool" where
  "KeyBelongsTo parse key tenant = anyTenantOwnsKey [tenant] parse key"

definition ScopedExactlyTo :: "tombstone \<Rightarrow> nat \<Rightarrow> nat \<Rightarrow> bool" where
  "ScopedExactlyTo t acc proj \<longleftrightarrow>
     length (t_Tenants t) = 1 \<and> AccountID (t_Tenants t ! 0) = acc \<and> ProjectID (t_Tenants t ! 0) = proj"

definition ForTenant :: "tombstone list \<Rightarrow> nat \<Rightarrow> nat \<Rightarrow> tombstone list" where
  "ForTenant tss acc proj = filter (\<lambda>t. AppliesToTenant t acc proj) tss"

definition ForKey :: "tombstone list \<Rightarrow> key_tenant \<Rightarrow> string \<Rightarrow> tombstone list" where
  "ForKey tss parse key = filter (\<lambda>t. AppliesToKey t parse key) tss"

definition CheckTenantsForKeyLayout :: "tenantRef list \<Rightarrow> bool \<Rightarrow> tenantRef option" where
  "CheckTenantsForKeyLayout tenants accountOnlyKeys =
     (if \<not> accountOnlyKeys then None else find (\<lambda>tn. ProjectID tn \<noteq> 0) tenants)"

section \<open>The definition object\<close>

record definition_obj =
  d_V :: int
  d_ID :: string
  d_Tenants :: "tenantRef list"
  d_Filter :: string
  d_FilterAt :: int
  d_StartNs :: int
  d_EndNs :: int
  d_Mode :: string
  d_By :: string

definition definitionVersion :: int where "definitionVersion = 1"

text \<open>
  The bytes of an object under the tombstone prefix. \<open>JDef d n\<close> are bytes that
  \<open>json.Unmarshal\<close> reads as the definition \<open>d\<close>; \<open>n = 0\<close> are the canonical bytes
  \<open>json.Marshal\<close> writes for \<open>d\<close>, and other numbers stand for other spellings of the same
  object. \<open>JOther ts n\<close> are bytes \<open>json.Unmarshal\<close> refuses to read as a definition, with the
  tenants it still reads from them, if it can.
\<close>

datatype body = JDef definition_obj nat | JOther "tenantRef list option" nat

definition json_marshal :: "definition_obj \<Rightarrow> body" where
  "json_marshal d = JDef d 0"

definition encodeDefinition :: "tombstone \<Rightarrow> body" where
  "encodeDefinition ts =
     json_marshal \<lparr>d_V = definitionVersion, d_ID = t_ID ts, d_Tenants = NormalizeTenants (t_Tenants ts),
       d_Filter = t_Query ts, d_FilterAt = t_FilterAt ts, d_StartNs = t_StartNs ts,
       d_EndNs = t_EndNs ts, d_Mode = t_Mode ts, d_By = t_CreatedBy ts\<rparr>"

definition decodeDefinition :: "filter_engine \<Rightarrow> body \<Rightarrow> terror + tombstone" where
  "decodeDefinition ql data =
     (case data of
        JOther _ _ \<Rightarrow> Inl NotADefinition
      | JDef d _ \<Rightarrow>
          if d_V d \<noteq> definitionVersion then Inl (UnsupportedVersion (d_V d))
          else let ts = \<lparr>t_ID = d_ID d, t_Query = d_Filter d, t_StartNs = d_StartNs d, t_EndNs = d_EndNs d,
              t_CreatedAt = None, t_CreatedBy = d_By d, t_Mode = d_Mode d, t_FilterAt = d_FilterAt d,
              t_Tenants = NormalizeTenants (d_Tenants d)\<rparr>
            in case Validate ql ts of Some e \<Rightarrow> Inl e | None \<Rightarrow> Inr ts)"

definition namedTenants :: "body \<Rightarrow> tenantRef list option" where
  "namedTenants data =
     (let ts = (case data of JDef d _ \<Rightarrow> Some (d_Tenants d) | JOther ts _ \<Rightarrow> ts)
      in case ts of
           None \<Rightarrow> None
         | Some [] \<Rightarrow> None
         | Some (t # r) \<Rightarrow> Some (NormalizeTenants (t # r)))"

section \<open>Normalised tenants\<close>

interpretation tenant_order: comparator tenantLess
  unfolding tenantLess_def by (rule comparator_lex [OF comparator_key])

lemma tenantLess_total: "tenantLess a b \<or> a = b \<or> tenantLess b a"
  unfolding tenantLess_def by (cases a, cases b) auto

lemma set_dedupAdjacent: "insert t (set (dedupAdjacent t ts)) = insert t (set ts)"
  by (induction t ts rule: dedupAdjacent.induct) auto

lemma sorted_dedupAdjacent:
  assumes "sorted_wrt (\<lambda>a b. \<not> tenantLess b a) (t # ts)"
  shows "sorted_wrt tenantLess (t # dedupAdjacent t ts)"
  using assms
proof (induction t ts rule: dedupAdjacent.induct)
  case (2 prev t ts)
  show ?case
  proof (cases "t = prev")
    case False
    with "2.prems" have less: "tenantLess prev t" using tenantLess_total by fastforce
    have IH: "sorted_wrt tenantLess (t # dedupAdjacent t ts)" using "2.IH"(1) False "2.prems" by simp
    with less False show ?thesis using tenant_order.trans by auto
  qed (use 2 in simp)
qed simp

lemma NormalizeTenants_set [simp]: "set (NormalizeTenants ts) = set ts"
proof (cases "sort_slice tenantLess ts")
  case Nil
  then show ?thesis using set_sort_slice [of tenantLess ts] by (simp add: NormalizeTenants_def)
next
  case (Cons u us)
  then show ?thesis
    using set_sort_slice [of tenantLess ts] set_dedupAdjacent [of u us]
    by (simp add: NormalizeTenants_def)
qed

lemma NormalizeTenants_sorted: "sorted_wrt tenantLess (NormalizeTenants ts)"
proof (cases "sort_slice tenantLess ts")
  case (Cons u us)
  then show ?thesis
    using tenant_order.sorted_sort_slice [of ts] sorted_dedupAdjacent [of u us]
    by (simp add: NormalizeTenants_def)
qed (simp add: NormalizeTenants_def)

lemma NormalizeTenants_Nil [simp]: "NormalizeTenants ts = [] \<longleftrightarrow> ts = []"
  by (metis NormalizeTenants_set set_empty)

lemma strict_sorted_unique:
  "sorted_wrt tenantLess xs \<Longrightarrow> sorted_wrt tenantLess ys \<Longrightarrow> set xs = set ys \<Longrightarrow> xs = ys"
proof -
  assume s: "sorted_wrt tenantLess xs" "sorted_wrt tenantLess ys" "set xs = set ys"
  have d: "distinct zs" if "sorted_wrt tenantLess zs" for zs
    using that tenant_order.irrefl by (induction zs) auto
  have w: "sorted_wrt (\<lambda>a b. \<not> tenantLess b a) zs" if "sorted_wrt tenantLess zs" for zs
    using that by (rule sorted_wrt_mono_rel [rotated]) (auto dest: tenant_order.asym)
  have "mset xs = mset ys"
    using s(3) d [OF s(1)] d [OF s(2)] by (metis set_eq_iff_mset_eq_distinct)
  then show ?thesis
    by (rule tenant_order.sorted_perm_eq [OF w [OF s(1)] w [OF s(2)]]) (rule tenantLess_total)
qed

lemma NormalizeTenants_canonical: "set a = set b \<Longrightarrow> NormalizeTenants a = NormalizeTenants b"
  by (rule strict_sorted_unique [OF NormalizeTenants_sorted NormalizeTenants_sorted]) simp

lemma NormalizeTenants_idem [simp]: "NormalizeTenants (NormalizeTenants ts) = NormalizeTenants ts"
  by (rule NormalizeTenants_canonical) simp

section \<open>Validation and the codec\<close>

lemma Validate_None_iff:
  "Validate ql t = None \<longleftrightarrow>
     t_ID t \<noteq> [] \<and> utf8_valid (t_ID t) \<and> utf8_valid (t_Query t) \<and> utf8_valid (t_CreatedBy t)
     \<and> utf8_valid (t_Mode t) \<and> length (escapeID (t_ID t)) \<le> maxEscapedIDLen
     \<and> t_StartNs t \<le> t_EndNs t \<and> t_Tenants t \<noteq> []
     \<and> (matchAll (t_Query t) \<or> ql (t_Query t) (t_FilterAt t) \<noteq> None)
     \<and> t_Mode t \<in> {[], ''hide'', ''permanent'', ''auto''}"
  unfolding Validate_def by (auto split: option.splits simp: not_less)

lemma decode_encode:
  "decodeDefinition ql (encodeDefinition ts) =
     (case Validate ql ts of
        Some e \<Rightarrow> Inl e
      | None \<Rightarrow> Inr (ts\<lparr>t_CreatedAt := None, t_Tenants := NormalizeTenants (t_Tenants ts)\<rparr>))"
proof -
  have v: "Validate ql \<lparr>t_ID = t_ID ts, t_Query = t_Query ts, t_StartNs = t_StartNs ts, t_EndNs = t_EndNs ts,
      t_CreatedAt = None, t_CreatedBy = t_CreatedBy ts, t_Mode = t_Mode ts, t_FilterAt = t_FilterAt ts,
      t_Tenants = NormalizeTenants (t_Tenants ts)\<rparr> = Validate ql ts"
    by (simp add: Validate_def)
  show ?thesis
    by (cases ts)
      (use v in \<open>simp add: encodeDefinition_def json_marshal_def decodeDefinition_def Let_def
         split: option.split\<close>)
qed

lemma decodeDefinition_valid: "decodeDefinition ql b = Inr ts \<Longrightarrow> Validate ql ts = None"
  by (auto simp: decodeDefinition_def Let_def split: body.splits if_splits option.splits)

lemma encodeDefinition_inject:
  "encodeDefinition a = encodeDefinition b \<Longrightarrow>
     a\<lparr>t_CreatedAt := x, t_Tenants := []\<rparr> = b\<lparr>t_CreatedAt := x, t_Tenants := []\<rparr>
     \<and> set (t_Tenants a) = set (t_Tenants b)"
  by (cases a, cases b)
    (auto simp: encodeDefinition_def json_marshal_def dest!: arg_cong [where f = set])

section \<open>Which rows a tombstone hides\<close>

lemma MatchesFields_in_range:
  "MatchesFields ql t f ts \<Longrightarrow> t_StartNs t \<le> ts \<and> ts \<le> t_EndNs t"
  by (auto simp: MatchesFields_def split: if_splits)

lemma MatchesFields_AffectsFile:
  "MatchesFields ql t f ts \<Longrightarrow> lo \<le> ts \<Longrightarrow> ts \<le> hi \<Longrightarrow> AffectsFile t lo hi"
  using MatchesFields_in_range [of ql t f ts] by (auto simp: AffectsFile_def)

lemma anyTenantOwnsKey_iff:
  "anyTenantOwnsKey tns parse key \<longleftrightarrow> (\<exists>tn \<in> set tns. case parse key of
       None \<Rightarrow> AccountID tn = 0 \<and> ProjectID tn = 0
     | Some (account, project) \<Rightarrow> account = formatDec (AccountID tn)
         \<and> (project = [] \<or> project = formatDec (ProjectID tn)))"
proof (cases "parse key")
  case None
  then show ?thesis by (induction tns) auto
next
  case (Some ap)
  obtain a q where "ap = (a, q)" by (cases ap)
  with Some have "parse key = Some (a, q)" by simp
  then show ?thesis by (induction tns) auto
qed

end
