(* ===== verification/TombStore.thy ===== *)
theory TombStore
  imports Tombstones
begin

text \<open>
  A pod's view of the deletes: \<open>src/internal/delete/store.go\<close>.

  The code shares \<open>*entry\<close> pointers between the map \<open>byID\<close> and the ordered index
  \<open>byEnd\<close>, compares them and mutates \<open>undone\<close> through them, so the model has a heap: a
  reference is an index into \<open>s_heap\<close>. \<open>s_parsed\<close> is the process-wide cache of parsed
  filters (the keys it holds). An operation runs under \<open>mu\<close> and is one atomic function; the
  gauges are not modelled.
\<close>

section \<open>State\<close>

record entry =
  e_t :: tombstone
  e_defKey :: string
  e_undone :: bool

type_synonym filterKey = "string \<times> int"

record tstore =
  s_heap :: "entry list"
  s_byID :: "(string, nat) gomap"
  s_byEnd :: "nat list"
  s_inForce :: int
  s_filterRefs :: "(filterKey, int) gomap"
  s_parsed :: "filterKey list"

abbreviation deref :: "tstore \<Rightarrow> nat \<Rightarrow> entry" where
  "deref s r \<equiv> s_heap s ! r"

definition filterKeyOf :: "entry \<Rightarrow> filterKey" where
  "filterKeyOf e = (t_Query (e_t e), t_FilterAt (e_t e))"

definition NewTombstoneStore :: "filterKey list \<Rightarrow> tstore" where
  "NewTombstoneStore parsed =
     \<lparr>s_heap = [], s_byID = [], s_byEnd = [], s_inForce = 0, s_filterRefs = [], s_parsed = parsed\<rparr>"

section \<open>The ordered index\<close>

definition entryLess :: "entry \<Rightarrow> entry \<Rightarrow> bool" where
  "entryLess a b =
     (if t_EndNs (e_t a) \<noteq> t_EndNs (e_t b) then t_EndNs (e_t a) < t_EndNs (e_t b)
      else t_ID (e_t a) < t_ID (e_t b))"

definition indexPos :: "nat \<Rightarrow> tstore \<Rightarrow> nat" where
  "indexPos r s =
     sortSearch (length (s_byEnd s)) (\<lambda>i. \<not> entryLess (deref s (s_byEnd s ! i)) (deref s r))"

definition indexInsertLocked :: "nat \<Rightarrow> tstore \<Rightarrow> tstore" where
  "indexInsertLocked r s =
     (let i = indexPos r s in s\<lparr>s_byEnd := take i (s_byEnd s) @ r # drop i (s_byEnd s)\<rparr>)"

definition indexRemoveLocked :: "nat \<Rightarrow> tstore \<Rightarrow> tstore" where
  "indexRemoveLocked r s =
     (let i = indexPos r s
      in if i < length (s_byEnd s) \<and> s_byEnd s ! i = r
         then s\<lparr>s_byEnd := take i (s_byEnd s) @ drop (Suc i) (s_byEnd s)\<rparr>
         else s)"

section \<open>Adding, undoing and forgetting\<close>

definition dropLocked :: "nat \<Rightarrow> tstore \<Rightarrow> tstore" where
  "dropLocked r s =
     (let e = deref s r; k = filterKeyOf e;
          n = (case mget (s_filterRefs s) k of None \<Rightarrow> 0 | Some n \<Rightarrow> n) - 1;
          s1 = s\<lparr>s_byID := mdel (t_ID (e_t e)) (s_byID s),
                 s_inForce := (if \<not> e_undone e then s_inForce s - 1 else s_inForce s)\<rparr>
      in if n \<le> 0
         then s1\<lparr>s_filterRefs := mdel k (s_filterRefs s), s_parsed := removeAll k (s_parsed s)\<rparr>
         else s1\<lparr>s_filterRefs := mput k n (s_filterRefs s)\<rparr>)"

text \<open>\<open>putLocked e\<close> receives a pointer to a fresh entry: the entry is allocated first.\<close>

definition putLocked :: "entry \<Rightarrow> tstore \<Rightarrow> tstore" where
  "putLocked e s =
     (let r = length (s_heap s);
          s0 = s\<lparr>s_heap := s_heap s @ [e]\<rparr>;
          s1 = (case mget (s_byID s0) (t_ID (e_t e)) of
                  Some prev \<Rightarrow> dropLocked prev (indexRemoveLocked prev s0)
                | None \<Rightarrow> s0);
          s2 = indexInsertLocked r (s1\<lparr>s_byID := mput (t_ID (e_t e)) r (s_byID s1)\<rparr>);
          k = filterKeyOf e;
          n = (case mget (s_filterRefs s2) k of None \<Rightarrow> 0 | Some n \<Rightarrow> n)
      in s2\<lparr>s_inForce := (if \<not> e_undone e then s_inForce s2 + 1 else s_inForce s2),
            s_filterRefs := mput k (n + 1) (s_filterRefs s2)\<rparr>)"

definition Add :: "tombstone \<Rightarrow> tstore \<Rightarrow> tstore" where
  "Add ts s = putLocked \<lparr>e_t = ts, e_defKey = [], e_undone = False\<rparr> s"

definition markUndoneLocked :: "nat \<Rightarrow> tstore \<Rightarrow> tstore" where
  "markUndoneLocked r s =
     (if \<not> e_undone (deref s r)
      then s\<lparr>s_heap := (s_heap s)[r := (deref s r)\<lparr>e_undone := True\<rparr>], s_inForce := s_inForce s - 1\<rparr>
      else s)"

text \<open>The first loop of \<open>forgetMany\<close>: the entries of the ids leave the maps, and their
  references are collected in \<open>gone\<close>.\<close>

fun forgetLoop :: "string list \<Rightarrow> tstore \<Rightarrow> nat list \<Rightarrow> tstore \<times> nat list" where
  "forgetLoop [] s gone = (s, gone)"
| "forgetLoop (i # ids) s gone =
     (case mget (s_byID s) i of
        Some r \<Rightarrow> forgetLoop ids (dropLocked r s) (gone @ [r])
      | None \<Rightarrow> forgetLoop ids s gone)"

definition forgetMany :: "string list \<Rightarrow> tstore \<Rightarrow> tstore" where
  "forgetMany ids s =
     (if ids = [] then s
      else case forgetLoop ids s [] of
        (s1, gone) \<Rightarrow>
          if length gone \<le> 16 then fold indexRemoveLocked gone s1
          else s1\<lparr>s_byEnd := filter (\<lambda>r. mget (s_byID s1) (t_ID (e_t (deref s1 r))) = Some r) (s_byEnd s1)\<rparr>)"

definition forget :: "string \<Rightarrow> tstore \<Rightarrow> tstore" where
  "forget i s = forgetMany [i] s"

section \<open>Reading\<close>

definition Get :: "tstore \<Rightarrow> string \<Rightarrow> tombstone option" where
  "Get s i =
     (case mget (s_byID s) i of
        None \<Rightarrow> None
      | Some r \<Rightarrow> if e_undone (deref s r) then None else Some (e_t (deref s r)))"

definition state :: "tstore \<Rightarrow> string \<Rightarrow> entry option" where
  "state s i = map_option (deref s) (mget (s_byID s) i)"

definition Active :: "tstore \<Rightarrow> tombstone list" where
  "Active s = map e_t (filter (\<lambda>e. \<not> e_undone e) (map (\<lambda>(id, r). deref s r) (s_byID s)))"

definition ForRange :: "tstore \<Rightarrow> int \<Rightarrow> int \<Rightarrow> tombstone list" where
  "ForRange s startNs endNs =
     (let i = sortSearch (length (s_byEnd s)) (\<lambda>i. t_EndNs (e_t (deref s (s_byEnd s ! i))) \<ge> startNs)
      in map e_t (filter (\<lambda>e. \<not> e_undone e \<and> t_StartNs (e_t e) \<le> endNs)
           (map (deref s) (drop i (s_byEnd s)))))"

definition Count :: "tstore \<Rightarrow> int" where
  "Count s = s_inForce s"

section \<open>The invariant\<close>

text \<open>
  \<open>tracked R s\<close>: the maps and the counters describe exactly the entries of \<open>R\<close>.
  \<open>store_ok\<close>: the index holds the tracked entries, strictly ordered. Between
  \<open>dropLocked\<close> and the repair of the index only \<open>tracked\<close> holds.
\<close>

definition refcount :: "nat set \<Rightarrow> entry list \<Rightarrow> filterKey \<Rightarrow> nat" where
  "refcount R h k = card {r \<in> R. filterKeyOf (h ! r) = k}"

definition tracked :: "nat set \<Rightarrow> tstore \<Rightarrow> bool" where
  "tracked R s \<longleftrightarrow>
     finite R \<and> wfmap (s_byID s) \<and> wfmap (s_filterRefs s) \<and> (\<forall>r \<in> R. r < length (s_heap s))
     \<and> (\<forall>id r. mget (s_byID s) id = Some r \<longleftrightarrow> r \<in> R \<and> t_ID (e_t (deref s r)) = id)
     \<and> s_inForce s = int (card {r \<in> R. \<not> e_undone (deref s r)})
     \<and> (\<forall>k. mget (s_filterRefs s) k =
          (if refcount R (s_heap s) k = 0 then None else Some (int (refcount R (s_heap s) k))))"

definition ordered :: "entry list \<Rightarrow> nat list \<Rightarrow> bool" where
  "ordered h rs \<longleftrightarrow> sorted_wrt (\<lambda>a b. entryLess (h ! a) (h ! b)) rs"

definition store_ok :: "tstore \<Rightarrow> bool" where
  "store_ok s \<longleftrightarrow> tracked (set (s_byEnd s)) s \<and> ordered (s_heap s) (s_byEnd s)"

interpretation entry_order: comparator entryLess
  unfolding entryLess_def by (rule comparator_lex [OF comparator_key])

lemma entryLess_total: "t_ID (e_t a) \<noteq> t_ID (e_t b) \<Longrightarrow> entryLess a b \<or> entryLess b a"
  by (auto simp: entryLess_def)

lemma ordered_distinct: "ordered h rs \<Longrightarrow> distinct rs"
  unfolding ordered_def using entry_order.irrefl by (induction rs) auto

section \<open>The index finds an entry\<close>

lemma ordered_nth:
  "ordered h rs \<Longrightarrow> i < j \<Longrightarrow> j < length rs \<Longrightarrow> entryLess (h ! (rs ! i)) (h ! (rs ! j))"
  unfolding ordered_def by (simp add: sorted_wrt_iff_nth_less)

lemma indexPos_split:
  assumes "ordered (s_heap s) (s_byEnd s)"
  shows "take (indexPos r s) (s_byEnd s) = filter (\<lambda>x. entryLess (deref s x) (deref s r)) (s_byEnd s)"
    "drop (indexPos r s) (s_byEnd s) = filter (\<lambda>x. \<not> entryLess (deref s x) (deref s r)) (s_byEnd s)"
proof -
  let ?P = "\<lambda>x. \<not> entryLess (deref s x) (deref s r)"
  have mono: "?P (s_byEnd s ! b)" if "a \<le> b" "b < length (s_byEnd s)" "?P (s_byEnd s ! a)" for a b
    using ordered_nth [OF assms, of a b] that entry_order.trans by (cases "a = b") auto
  show "drop (indexPos r s) (s_byEnd s) = filter ?P (s_byEnd s)"
    unfolding indexPos_def using drop_sortSearch(1) [where P = ?P, OF mono] by simp
  show "take (indexPos r s) (s_byEnd s) = filter (\<lambda>x. entryLess (deref s x) (deref s r)) (s_byEnd s)"
    unfolding indexPos_def using drop_sortSearch(2) [where P = ?P, OF mono] by simp
qed

lemma ordered_filter: "ordered h rs \<Longrightarrow> ordered h (filter P rs)"
  unfolding ordered_def by (rule sorted_wrt_filter)

lemma indexRemove_ordered:
  assumes "ordered (s_heap s) (s_byEnd s)" "r \<in> set (s_byEnd s)"
  shows "indexRemoveLocked r s = s\<lparr>s_byEnd := removeAll r (s_byEnd s)\<rparr>"
proof -
  let ?xs = "s_byEnd s" and ?i = "indexPos r s"
  note split = indexPos_split [OF assms(1), of r]
  obtain as bs where xs: "?xs = as @ r # bs" using assms(2) by (meson split_list)
  have o: "\<forall>a \<in> set as. entryLess (deref s a) (deref s r)" "\<forall>b \<in> set bs. entryLess (deref s r) (deref s b)"
    using assms(1) unfolding ordered_def xs by (auto simp: sorted_wrt_append)
  have "take ?i ?xs = as" "drop ?i ?xs = r # bs"
    unfolding split using o entry_order.irrefl entry_order.asym
    by (auto simp: xs filter_True filter_empty_conv intro!: filter_True)
  then have i: "?i = length as" "?i < length ?xs" using xs
    by (metis append_eq_append_conv append_take_drop_id length_append length_drop length_take
        list.distinct(1) drop_all not_le min.absorb2 less_imp_le_nat)+
  have "r \<notin> set as" "r \<notin> set bs" using ordered_distinct [OF assms(1)] xs by auto
  then show ?thesis by (simp add: indexRemoveLocked_def Let_def i(1) xs)
qed

lemma indexInsert_ordered:
  assumes "ordered (s_heap s) (s_byEnd s)"
    and "\<And>x. x \<in> set (s_byEnd s) \<Longrightarrow> t_ID (e_t (deref s x)) \<noteq> t_ID (e_t (deref s r))"
  shows "ordered (s_heap s) (s_byEnd (indexInsertLocked r s))"
    "set (s_byEnd (indexInsertLocked r s)) = insert r (set (s_byEnd s))"
proof -
  have o: "ordered (s_heap s) (take (indexPos r s) (s_byEnd s) @ drop (indexPos r s) (s_byEnd s))"
    using assms(1) by simp
  have "\<forall>x \<in> set (take (indexPos r s) (s_byEnd s)). entryLess (deref s x) (deref s r)"
    by (simp add: indexPos_split [OF assms(1)])
  moreover have "\<forall>x \<in> set (drop (indexPos r s) (s_byEnd s)). entryLess (deref s r) (deref s x)"
    using entryLess_total assms(2) by (auto simp: indexPos_split [OF assms(1)])
  ultimately show "ordered (s_heap s) (s_byEnd (indexInsertLocked r s))"
    using o unfolding ordered_def indexInsertLocked_def Let_def
    by (auto simp: sorted_wrt_append) (meson entry_order.trans)
  show "set (s_byEnd (indexInsertLocked r s)) = insert r (set (s_byEnd s))"
    using set_append [of "take (indexPos r s) (s_byEnd s)" "drop (indexPos r s) (s_byEnd s)"]
    unfolding append_take_drop_id
    by (auto simp: indexInsertLocked_def Let_def)
qed

section \<open>The maps and counters follow each operation\<close>

lemma card_filter_insert:
  "finite R \<Longrightarrow> r \<notin> R \<Longrightarrow>
     card {x \<in> insert r R. P x} = card {x \<in> R. P x} + (if P r then 1 else 0)"
proof -
  assume "finite R" "r \<notin> R"
  moreover have "{x \<in> insert r R. P x} = (if P r then insert r {x \<in> R. P x} else {x \<in> R. P x})"
    by auto
  ultimately show ?thesis by simp
qed

lemma card_filter_remove:
  assumes "finite R" "r \<in> R"
  shows "card {x \<in> R. P x} = card {x \<in> R - {r}. P x} + (if P r then 1 else 0)"
  using card_filter_insert [of "R - {r}" r P] assms by (simp add: insert_absorb)

lemma tracked_byEnd [simp]: "tracked R (s\<lparr>s_byEnd := x\<rparr>) = tracked R s"
  by (simp add: tracked_def)

lemma trackedD:
  assumes "tracked R s"
  shows "finite R" "wfmap (s_byID s)" "wfmap (s_filterRefs s)" "\<And>r. r \<in> R \<Longrightarrow> r < length (s_heap s)"
    "\<And>i r. mget (s_byID s) i = Some r \<longleftrightarrow> r \<in> R \<and> t_ID (e_t (deref s r)) = i"
    "s_inForce s = int (card {r \<in> R. \<not> e_undone (deref s r)})"
    "\<And>k. mget (s_filterRefs s) k =
       (if refcount R (s_heap s) k = 0 then None else Some (int (refcount R (s_heap s) k)))"
  using assms unfolding tracked_def by blast+

lemma tracked_unique:
  "tracked R s \<Longrightarrow> a \<in> R \<Longrightarrow> b \<in> R \<Longrightarrow> t_ID (e_t (deref s a)) = t_ID (e_t (deref s b)) \<Longrightarrow> a = b"
  by (metis trackedD(5) option.inject)

lemma dropLocked_frame [simp]:
  "s_heap (dropLocked r s) = s_heap s" "s_byEnd (dropLocked r s) = s_byEnd s"
  "s_byID (dropLocked r s) = mdel (t_ID (e_t (deref s r))) (s_byID s)"
  by (simp_all add: dropLocked_def Let_def)

lemma dropLocked_tracked:
  assumes T: "tracked R s" and r: "r \<in> R"
  shows "tracked (R - {r}) (dropLocked r s)"
proof -
  let ?k = "filterKeyOf (deref s r)"
  note D = trackedD [OF T]
  have ref: "refcount R (s_heap s) k = refcount (R - {r}) (s_heap s) k + (if ?k = k then 1 else 0)" for k
    unfolding refcount_def by (rule card_filter_remove [OF D(1) r])
  have inf: "card {x \<in> R. \<not> e_undone (deref s x)}
      = card {x \<in> R - {r}. \<not> e_undone (deref s x)} + (if \<not> e_undone (deref s r) then 1 else 0)"
    by (rule card_filter_remove [OF D(1) r])
  have id: "mget (mdel (t_ID (e_t (deref s r))) (s_byID s)) i = Some x
      \<longleftrightarrow> x \<in> R - {r} \<and> t_ID (e_t (deref s x)) = i" for i x
    using tracked_unique [OF T r, of x] by (auto simp: go_map D(5))
  have refs: "mget (s_filterRefs (dropLocked r s)) k =
      (if refcount (R - {r}) (s_heap s) k = 0 then None else Some (int (refcount (R - {r}) (s_heap s) k)))" for k
    using ref [of k] by (auto simp: dropLocked_def Let_def go_map D(7))
  have "wfmap (s_filterRefs (dropLocked r s))" "s_inForce (dropLocked r s)
      = int (card {x \<in> R - {r}. \<not> e_undone (deref s x)})"
    using D(3) inf by (auto simp: dropLocked_def Let_def go_map D(6))
  then show ?thesis
    unfolding tracked_def using D(1,2,4) refs id by (auto simp: go_map)
qed

lemma alloc_tracked: "tracked R s \<Longrightarrow> tracked R (s\<lparr>s_heap := s_heap s @ [e]\<rparr>)"
proof -
  assume T: "tracked R s"
  have h: "(s_heap s @ [e]) ! r = deref s r" if "r \<in> R" for r
    using trackedD(4) [OF T that] by (simp add: nth_append)
  have c: "{r \<in> R. P ((s_heap s @ [e]) ! r)} = {r \<in> R. P (deref s r)}" for P
    using h by auto
  show ?thesis
    using T h c [of "\<lambda>x. \<not> e_undone x"] c [of "\<lambda>x. filterKeyOf x = _"]
    unfolding tracked_def refcount_def by (auto simp: less_SucI)
qed

lemma enter_tracked:
  assumes T: "tracked R s" and new: "r \<notin> R" "r < length (s_heap s)" "deref s r = e"
    and free: "mget (s_byID s) (t_ID (e_t e)) = None"
  shows "tracked (insert r R)
    (s\<lparr>s_byID := mput (t_ID (e_t e)) r (s_byID s),
       s_inForce := (if \<not> e_undone e then s_inForce s + 1 else s_inForce s),
       s_filterRefs := mput (filterKeyOf e)
         ((case mget (s_filterRefs s) (filterKeyOf e) of None \<Rightarrow> 0 | Some n \<Rightarrow> n) + 1) (s_filterRefs s)\<rparr>)"
proof -
  note D = trackedD [OF T]
  have ref: "refcount (insert r R) (s_heap s) k
      = refcount R (s_heap s) k + (if filterKeyOf (deref s r) = k then 1 else 0)" for k
    unfolding refcount_def by (rule card_filter_insert [OF D(1) new(1)])
  have inf: "card {x \<in> insert r R. \<not> e_undone (deref s x)}
      = card {x \<in> R. \<not> e_undone (deref s x)} + (if \<not> e_undone (deref s r) then 1 else 0)"
    by (rule card_filter_insert [OF D(1) new(1)])
  have nid: "\<And>x. x \<in> R \<Longrightarrow> t_ID (e_t (deref s x)) \<noteq> t_ID (e_t e)"
    using free D(5) by (metis option.distinct(1))
  have id: "mget (mput (t_ID (e_t e)) r (s_byID s)) i = Some x
      \<longleftrightarrow> x \<in> insert r R \<and> t_ID (e_t (deref s x)) = i" for i x
    using new nid by (auto simp: go_map D(5))
  show ?thesis
    unfolding tracked_def using D(1-4,6) new ref inf id by (auto simp: go_map D(7))
qed

lemma put_decompose:
  "putLocked e s =
    (let s0 = s\<lparr>s_heap := s_heap s @ [e]\<rparr>;
         s1 = (case mget (s_byID s) (t_ID (e_t e)) of
                 Some prev \<Rightarrow> dropLocked prev (indexRemoveLocked prev s0) | None \<Rightarrow> s0)
     in indexInsertLocked (length (s_heap s))
          (s1\<lparr>s_byID := mput (t_ID (e_t e)) (length (s_heap s)) (s_byID s1),
             s_inForce := (if \<not> e_undone e then s_inForce s1 + 1 else s_inForce s1),
             s_filterRefs := mput (filterKeyOf e)
               ((case mget (s_filterRefs s1) (filterKeyOf e) of None \<Rightarrow> 0 | Some n \<Rightarrow> n) + 1)
               (s_filterRefs s1)\<rparr>))"
  by (simp add: putLocked_def Let_def indexInsertLocked_def indexPos_def)

section \<open>Every operation keeps the invariant\<close>

text \<open>The abstract view: what the store knows of each id.\<close>

abbreviation view :: "tstore \<Rightarrow> string \<rightharpoonup> entry" where
  "view \<equiv> state"

lemma view_tracked:
  "tracked R s \<Longrightarrow> view s i = Some e \<longleftrightarrow> (\<exists>r \<in> R. deref s r = e \<and> t_ID (e_t e) = i)"
  by (auto simp: state_def trackedD(5) simp del: map_of_eq_Some_iff)

lemma store_ok_new [simp]: "store_ok (NewTombstoneStore p)"
  by (simp add: store_ok_def NewTombstoneStore_def tracked_def ordered_def refcount_def)

lemma view_new [simp]: "view (NewTombstoneStore p) = Map.empty"
  by (simp add: state_def NewTombstoneStore_def fun_eq_iff)

lemma indexInsert_frame [simp]:
  "tracked R (indexInsertLocked r s) = tracked R s"
  "s_heap (indexInsertLocked r s) = s_heap s" "s_byID (indexInsertLocked r s) = s_byID s"
  by (simp_all add: indexInsertLocked_def Let_def)

lemma indexRemove_frame [simp]:
  "tracked R (indexRemoveLocked r s) = tracked R s"
  "s_heap (indexRemoveLocked r s) = s_heap s" "s_byID (indexRemoveLocked r s) = s_byID s"
  by (simp_all add: indexRemoveLocked_def Let_def)

lemma ordered_alloc:
  "\<forall>r \<in> set rs. r < length h \<Longrightarrow> ordered (h @ [e]) rs = ordered h rs"
  unfolding ordered_def by (induction rs) (auto simp: nth_append)

text \<open>The state in which \<open>putLocked\<close> enters the new entry: any previous entry of the id is
  out of the maps and of the index.\<close>

lemma put_replaced:
  fixes e :: entry and s :: tstore
  assumes "store_ok s"
  defines "s0 \<equiv> s\<lparr>s_heap := s_heap s @ [e]\<rparr>"
  defines "s1 \<equiv> (case mget (s_byID s) (t_ID (e_t e)) of
                 Some prev \<Rightarrow> dropLocked prev (indexRemoveLocked prev s0) | None \<Rightarrow> s0)"
  shows "store_ok s1" "s_heap s1 = s_heap s @ [e]" "s_byID s1 = mdel (t_ID (e_t e)) (s_byID s)"
    "length (s_heap s) \<notin> set (s_byEnd s1)"
proof -
  have T: "tracked (set (s_byEnd s)) s" and O: "ordered (s_heap s) (s_byEnd s)"
    using assms(1) by (auto simp: store_ok_def)
  have T0: "tracked (set (s_byEnd s)) s0" unfolding s0_def by (rule alloc_tracked [OF T])
  have O0: "ordered (s_heap s0) (s_byEnd s0)"
    using O trackedD(4) [OF T] by (simp add: s0_def ordered_alloc)
  have "store_ok s1 \<and> s_heap s1 = s_heap s @ [e] \<and> s_byID s1 = mdel (t_ID (e_t e)) (s_byID s)
      \<and> set (s_byEnd s1) \<subseteq> set (s_byEnd s)"
  proof (cases "mget (s_byID s) (t_ID (e_t e))")
    case None
    then have "mdel (t_ID (e_t e)) (s_byID s) = s_byID s"
      by (simp add: delete_id map_of_eq_None_iff)
    with None T0 O0 show ?thesis by (simp add: s1_def s0_def store_ok_def)
  next
    case (Some prev)
    then have p: "prev \<in> set (s_byEnd s)" "t_ID (e_t (deref s prev)) = t_ID (e_t e)"
      using trackedD(5) [OF T] by blast+
    have d: "deref s0 prev = deref s prev"
      using trackedD(4) [OF T p(1)] by (simp add: s0_def nth_append)
    have rem: "indexRemoveLocked prev s0 = s0\<lparr>s_byEnd := removeAll prev (s_byEnd s0)\<rparr>"
      using indexRemove_ordered [OF O0] p(1) by (simp add: s0_def)
    have "tracked (set (s_byEnd s) - {prev}) (dropLocked prev (indexRemoveLocked prev s0))"
      by (rule dropLocked_tracked) (simp_all add: T0 p(1))
    moreover have "ordered (s_heap s0) (removeAll prev (s_byEnd s0))"
      using ordered_filter [OF O0] by (simp add: removeAll_filter_not_eq)
    ultimately show ?thesis using Some p d
      by (auto simp: s1_def store_ok_def rem) (auto simp: s0_def)
  qed
  then show "store_ok s1" "s_heap s1 = s_heap s @ [e]" "s_byID s1 = mdel (t_ID (e_t e)) (s_byID s)"
    "length (s_heap s) \<notin> set (s_byEnd s1)"
    using trackedD(4) [OF T] by auto
qed

lemma putLocked_ok:
  assumes "store_ok s"
  shows "store_ok (putLocked e s)" "view (putLocked e s) = (view s)(t_ID (e_t e) \<mapsto> e)"
proof -
  define s1 where "s1 = (case mget (s_byID s) (t_ID (e_t e)) of
     Some prev \<Rightarrow> dropLocked prev (indexRemoveLocked prev (s\<lparr>s_heap := s_heap s @ [e]\<rparr>))
   | None \<Rightarrow> s\<lparr>s_heap := s_heap s @ [e]\<rparr>)"
  note R = put_replaced [OF assms, of e, folded s1_def]
  define s2 where "s2 = s1\<lparr>s_byID := mput (t_ID (e_t e)) (length (s_heap s)) (s_byID s1),
       s_inForce := (if \<not> e_undone e then s_inForce s1 + 1 else s_inForce s1),
       s_filterRefs := mput (filterKeyOf e)
         ((case mget (s_filterRefs s1) (filterKeyOf e) of None \<Rightarrow> 0 | Some n \<Rightarrow> n) + 1) (s_filterRefs s1)\<rparr>"
  have put: "putLocked e s = indexInsertLocked (length (s_heap s)) s2"
    by (simp add: put_decompose s1_def s2_def Let_def)
  have T1: "tracked (set (s_byEnd s1)) s1" and O1: "ordered (s_heap s1) (s_byEnd s1)"
    using R(1) by (auto simp: store_ok_def)
  have T2: "tracked (insert (length (s_heap s)) (set (s_byEnd s1))) s2"
    unfolding s2_def by (rule enter_tracked [OF T1 R(4)]) (simp_all add: R go_map)
  have O2: "ordered (s_heap s2) (s_byEnd s2)" using O1 by (simp add: s2_def)
  have "mget (s_byID s1) (t_ID (e_t e)) = None" by (simp add: R(3) go_map)
  then have nid: "t_ID (e_t (deref s2 x)) \<noteq> t_ID (e_t (deref s2 (length (s_heap s))))"
    if "x \<in> set (s_byEnd s2)" for x
    using that trackedD(5) [OF T1, of "t_ID (e_t e)" x] by (auto simp: s2_def R(2))
  show "store_ok (putLocked e s)"
    using T2 indexInsert_ordered [OF O2 nid] by (simp add: put store_ok_def s2_def)
  have old: "r < length (s_heap s)" if "mget (s_byID s) i = Some r" for i r
    using that assms trackedD(4,5) unfolding store_ok_def by blast
  show "view (putLocked e s) = (view s)(t_ID (e_t e) \<mapsto> e)"
    using old by (auto simp: put state_def s2_def R(2,3) go_map fun_eq_iff nth_append
        intro!: option.map_cong simp del: map_of_eq_Some_iff)
qed

lemma markUndoneLocked_ok:
  assumes "store_ok s" "mget (s_byID s) i = Some r"
  shows "store_ok (markUndoneLocked r s)"
    "view (markUndoneLocked r s) = (view s)(i \<mapsto> (deref s r)\<lparr>e_undone := True\<rparr>)"
proof -
  let ?R = "set (s_byEnd s)" and ?h = "(s_heap s)[r := (deref s r)\<lparr>e_undone := True\<rparr>]"
  have T: "tracked ?R s" and O: "ordered (s_heap s) (s_byEnd s)"
    using assms(1) by (auto simp: store_ok_def)
  note D = trackedD [OF T]
  have r: "r \<in> ?R" "r < length (s_heap s)" "t_ID (e_t (deref s r)) = i"
    using assms(2) D(4,5) by blast+
  have h: "e_t (?h ! x) = e_t (deref s x)" "filterKeyOf (?h ! x) = filterKeyOf (deref s x)"
    "e_undone (?h ! x) = (x = r \<or> e_undone (deref s x))" if "x < length (s_heap s)" for x
    using that r(2) by (auto simp: nth_list_update filterKeyOf_def)
  have o: "ordered ?h (s_byEnd s)"
    using O h(1) D(4) unfolding ordered_def
    by (auto simp: sorted_wrt_iff_nth_less entryLess_def)
  have f: "{x \<in> ?R. filterKeyOf (?h ! x) = k} = {x \<in> ?R. filterKeyOf (deref s x) = k}" for k
    using h(2) D(4) by auto
  have u: "{x \<in> ?R. \<not> e_undone (?h ! x)} = {x \<in> ?R - {r}. \<not> e_undone (deref s x)}"
    using h(3) D(4) by auto
  show "store_ok (markUndoneLocked r s)"
  proof (cases "e_undone (deref s r)")
    case False
    have c: "card {x \<in> ?R. \<not> e_undone (deref s x)} = card {x \<in> ?R - {r}. \<not> e_undone (deref s x)} + 1"
      using card_filter_remove [OF D(1) r(1), of "\<lambda>x. \<not> e_undone (deref s x)"] False by simp
    have "tracked ?R (s\<lparr>s_heap := ?h, s_inForce := s_inForce s - 1\<rparr>)"
      unfolding tracked_def refcount_def
      using D h(1) by (auto simp: f u c refcount_def simp del: map_of_eq_Some_iff)
    with o False show ?thesis by (simp add: markUndoneLocked_def store_ok_def)
  qed (simp add: markUndoneLocked_def assms(1))
  have same: "e_undone (deref s r) \<Longrightarrow> (deref s r)\<lparr>e_undone := True\<rparr> = deref s r"
    by (cases "deref s r") simp
  have upd: "?h ! x = (if x = r then (deref s r)\<lparr>e_undone := True\<rparr> else deref s x)" for x
    using r(2) by (simp add: nth_list_update)
  show "view (markUndoneLocked r s) = (view s)(i \<mapsto> (deref s r)\<lparr>e_undone := True\<rparr>)"
  proof
    fix x
    have st: "s_byID (markUndoneLocked r s) = s_byID s" "s_heap (markUndoneLocked r s) = ?h"
      by (cases "e_undone (deref s r)"; simp add: markUndoneLocked_def same)+
    show "view (markUndoneLocked r s) x = ((view s)(i \<mapsto> (deref s r)\<lparr>e_undone := True\<rparr>)) x"
    proof (cases "x = i")
      case True
      then show ?thesis using assms(2) by (simp add: state_def st upd)
    next
      case False
      then have "mget (s_byID s) x \<noteq> Some r" by (simp add: D(5) r(3) del: map_of_eq_Some_iff)
      with False show ?thesis
        by (cases "mget (s_byID s) x") (simp_all add: state_def st upd del: map_of_eq_Some_iff)
    qed
  qed
qed

lemma forgetLoop_tracked:
  assumes "tracked R s" "forgetLoop ids s g = (s', gone)"
  shows "\<exists>G. gone = g @ G \<and> distinct G \<and> set G = {r \<in> R. t_ID (e_t (deref s r)) \<in> set ids}
    \<and> tracked (R - set G) s' \<and> s_heap s' = s_heap s \<and> s_byEnd s' = s_byEnd s"
  using assms
proof (induction ids s g arbitrary: R rule: forgetLoop.induct)
  case (2 i ids s gone')
  note D = trackedD [OF "2.prems"(1)]
  show ?case
  proof (cases "mget (s_byID s) i")
    case None
    then have "t_ID (e_t (deref s r)) \<noteq> i" if "r \<in> R" for r
      using that D(5) [of i r] by auto
    then have "{r \<in> R. t_ID (e_t (deref s r)) \<in> set (i # ids)} = {r \<in> R. t_ID (e_t (deref s r)) \<in> set ids}"
      by auto
    with None "2.IH"(1) [OF None "2.prems"(1)] "2.prems"(2) show ?thesis by simp
  next
    case (Some r)
    then have r: "r \<in> R" "t_ID (e_t (deref s r)) = i" using D(5) by blast+
    have u: "x = r" if "x \<in> R" "t_ID (e_t (deref s x)) = i" for x
      using tracked_unique [OF "2.prems"(1) that(1) r(1)] that r by simp
    from "2.IH"(2) [OF Some dropLocked_tracked [OF "2.prems"(1) r(1)]] "2.prems"(2) Some
    obtain G where G: "gone = (gone' @ [r]) @ G" "distinct G"
      "set G = {x \<in> R - {r}. t_ID (e_t (deref s x)) \<in> set ids}"
      "tracked (R - {r} - set G) s'" "s_heap s' = s_heap s" "s_byEnd s' = s_byEnd s"
      by auto
    have "R - {r} - set G = R - set (r # G)" by auto
    with G have "tracked (R - set (r # G)) s'" by simp
    moreover have "set (r # G) = {x \<in> R. t_ID (e_t (deref s x)) \<in> set (i # ids)}"
      unfolding list.set G(3) using r u by blast
    ultimately show ?thesis using G(1,2,3,5,6) by (intro exI [of _ "r # G"]) auto
  qed
qed auto

lemma fold_indexRemove:
  "ordered (s_heap s) (s_byEnd s) \<Longrightarrow> distinct G \<Longrightarrow> set G \<subseteq> set (s_byEnd s) \<Longrightarrow>
     fold indexRemoveLocked G s = s\<lparr>s_byEnd := filter (\<lambda>r. r \<notin> set G) (s_byEnd s)\<rparr>"
proof (induction G arbitrary: s)
  case (Cons g G)
  let ?s = "s\<lparr>s_byEnd := removeAll g (s_byEnd s)\<rparr>"
  have rm: "removeAll g xs = filter (\<lambda>x. x \<noteq> g) xs" for xs by (induction xs) auto
  have "indexRemoveLocked g s = ?s" using indexRemove_ordered Cons.prems by simp
  moreover have "fold indexRemoveLocked G ?s = ?s\<lparr>s_byEnd := filter (\<lambda>r. r \<notin> set G) (s_byEnd ?s)\<rparr>"
    using Cons.prems ordered_filter [OF Cons.prems(1)] 
    by (intro Cons.IH) (auto simp: rm)
  ultimately show ?case by (simp add: rm conj_commute)
qed (simp add: filter_True)

lemma forgetMany_effect:
  assumes "store_ok s"
  obtains s1 where "tracked (set (s_byEnd (forgetMany ids s))) s1"
    "s_byEnd (forgetMany ids s) = filter (\<lambda>r. t_ID (e_t (deref s r)) \<notin> set ids) (s_byEnd s)"
    "s_heap s1 = s_heap s" "forgetMany ids s = s1\<lparr>s_byEnd := s_byEnd (forgetMany ids s)\<rparr>"
proof (cases "ids = []")
  case True
  with assms show ?thesis by (intro that [of s]) (auto simp: forgetMany_def store_ok_def)
next
  case False
  have T: "tracked (set (s_byEnd s)) s" and O: "ordered (s_heap s) (s_byEnd s)"
    using assms by (auto simp: store_ok_def)
  obtain s1 G where loop: "forgetLoop ids s [] = (s1, G)" by fastforce
  from forgetLoop_tracked [OF T loop]
  have G: "distinct G" "set G = {r \<in> set (s_byEnd s). t_ID (e_t (deref s r)) \<in> set ids}"
    "tracked (set (s_byEnd s) - set G) s1" "s_heap s1 = s_heap s" "s_byEnd s1 = s_byEnd s"
    by auto
  have small: "fold indexRemoveLocked G s1 = s1\<lparr>s_byEnd := filter (\<lambda>r. r \<notin> set G) (s_byEnd s)\<rparr>"
    using fold_indexRemove [of s1 G] O G by auto
  have "mget (s_byID s1) (t_ID (e_t (deref s1 r))) = Some r \<longleftrightarrow> r \<notin> set G" if "r \<in> set (s_byEnd s)" for r
    using that trackedD(5) [OF G(3)] by auto
  then have big: "filter (\<lambda>r. mget (s_byID s1) (t_ID (e_t (deref s1 r))) = Some r) (s_byEnd s1)
      = filter (\<lambda>r. r \<notin> set G) (s_byEnd s)"
    by (auto simp: G(5) intro!: filter_cong simp del: map_of_eq_Some_iff)
  have f: "forgetMany ids s = s1\<lparr>s_byEnd := filter (\<lambda>r. r \<notin> set G) (s_byEnd s)\<rparr>"
    using False by (simp add: forgetMany_def loop small big)
  have e: "filter (\<lambda>r. r \<notin> set G) (s_byEnd s) = filter (\<lambda>r. t_ID (e_t (deref s r)) \<notin> set ids) (s_byEnd s)"
    by (auto simp: G(2) intro: filter_cong)
  have "set (filter (\<lambda>r. r \<notin> set G) (s_byEnd s)) = set (s_byEnd s) - set G" by auto
  then have "tracked (set (s_byEnd (forgetMany ids s))) s1" using G(3) by (simp add: f del: set_filter)
  then show ?thesis by (rule that) (simp_all add: f e G(4))
qed

lemma forgetMany_ok:
  assumes "store_ok s"
  shows "store_ok (forgetMany ids s)" "view (forgetMany ids s) = (view s) |` (- set ids)"
proof -
  obtain s1 where F: "tracked (set (s_byEnd (forgetMany ids s))) s1"
    "s_byEnd (forgetMany ids s) = filter (\<lambda>r. t_ID (e_t (deref s r)) \<notin> set ids) (s_byEnd s)"
    "s_heap s1 = s_heap s" "forgetMany ids s = s1\<lparr>s_byEnd := s_byEnd (forgetMany ids s)\<rparr>"
    by (rule forgetMany_effect [OF assms])
  have T: "tracked (set (s_byEnd s)) s" and O: "ordered (s_heap s) (s_byEnd s)"
    using assms by (auto simp: store_ok_def)
  have T': "tracked (set (s_byEnd (forgetMany ids s))) (forgetMany ids s)"
    using F(1,4) by (metis tracked_byEnd)
  have h: "s_heap (forgetMany ids s) = s_heap s"
    using F(3,4) by (metis tstore.select_convs(1) tstore.surjective tstore.update_convs(3))
  show "store_ok (forgetMany ids s)"
    using T' ordered_filter [OF O] by (simp add: store_ok_def h F(2))
  show "view (forgetMany ids s) = (view s) |` (- set ids)"
  proof
    fix i
    have "view (forgetMany ids s) i = Some e \<longleftrightarrow> ((view s) |` (- set ids)) i = Some e" for e
      unfolding view_tracked [OF T'] F(2) h restrict_map_def
      using view_tracked [OF T, of i e] by auto
    then show "view (forgetMany ids s) i = ((view s) |` (- set ids)) i"
      by (metis option.exhaust)
  qed
qed

section \<open>What readers see\<close>

definition in_force :: "tstore \<Rightarrow> tombstone set" where
  "in_force s = {e_t e | e i. view s i = Some e \<and> \<not> e_undone e}"

lemma Get_iff: "Get s i = Some t \<longleftrightarrow> (\<exists>e. view s i = Some e \<and> \<not> e_undone e \<and> e_t e = t)"
  by (auto simp: Get_def state_def split: option.split)

lemma in_force_tracked:
  "tracked R s \<Longrightarrow> in_force s = (\<lambda>r. e_t (deref s r)) ` {r \<in> R. \<not> e_undone (deref s r)}"
  unfolding in_force_def by (auto simp: view_tracked)

lemma in_force_inj: "tracked R s \<Longrightarrow> inj_on (\<lambda>r. e_t (deref s r)) R"
  by (rule inj_onI) (metis tracked_unique)

lemma Count_correct: "store_ok s \<Longrightarrow> Count s = int (card (in_force s))"
proof -
  assume "store_ok s"
  then have T: "tracked (set (s_byEnd s)) s" by (simp add: store_ok_def)
  have "inj_on (\<lambda>r. e_t (deref s r)) {r \<in> set (s_byEnd s). \<not> e_undone (deref s r)}"
    by (rule inj_on_subset [OF in_force_inj [OF T]]) auto
  then show ?thesis
    using trackedD(6) [OF T] by (simp add: Count_def in_force_tracked [OF T] card_image)
qed

lemma Active_correct: "store_ok s \<Longrightarrow> set (Active s) = in_force s \<and> distinct (Active s)"
proof -
  assume "store_ok s"
  then have T: "tracked (set (s_byEnd s)) s" by (simp add: store_ok_def)
  have w: "wfmap (s_byID s)" using trackedD(2) [OF T] .
  have A: "Active s = map (\<lambda>(i, r). e_t (deref s r)) (filter (\<lambda>(i, r). \<not> e_undone (deref s r)) (s_byID s))"
    unfolding Active_def by (induction "s_byID s") (auto simp: filter_map comp_def case_prod_beta)
  have in_id: "(i, r) \<in> set (s_byID s) \<longleftrightarrow> r \<in> set (s_byEnd s) \<and> t_ID (e_t (deref s r)) = i" for i r
    using mget_in [OF w] trackedD(5) [OF T] by simp
  have s: "set (Active s) = in_force s"
    unfolding A in_force_tracked [OF T] by (force simp: in_id)
  have "distinct (map t_ID (Active s))"
  proof -
    have "map t_ID (Active s) = map fst (filter (\<lambda>(i, r). \<not> e_undone (deref s r)) (s_byID s))"
      unfolding A by (auto simp: in_id)
    then show ?thesis using wfmap_filter [OF w] by metis
  qed
  with s show ?thesis by (simp add: distinct_map)
qed

lemma ForRange_eq:
  assumes "store_ok s"
  shows "ForRange s lo hi = map (\<lambda>r. e_t (deref s r))
    (filter (\<lambda>r. \<not> e_undone (deref s r) \<and> t_StartNs (e_t (deref s r)) \<le> hi \<and> t_EndNs (e_t (deref s r)) \<ge> lo)
      (s_byEnd s))"
proof -
  let ?P = "\<lambda>r. t_EndNs (e_t (deref s r)) \<ge> lo"
  have O: "ordered (s_heap s) (s_byEnd s)" using assms by (simp add: store_ok_def)
  have mono: "?P (s_byEnd s ! b)" if "a \<le> b" "b < length (s_byEnd s)" "?P (s_byEnd s ! a)" for a b
    using ordered_nth [OF O, of a b] that by (cases "a = b") (auto simp: entryLess_def split: if_splits)
  have cut: "drop (sortSearch (length (s_byEnd s)) (\<lambda>i. ?P (s_byEnd s ! i))) (s_byEnd s) = filter ?P (s_byEnd s)"
    by (rule drop_sortSearch(1)) (rule mono)
  show ?thesis
    unfolding ForRange_def Let_def cut
    by (simp add: filter_map comp_def conj_ac cong: conj_cong)
qed

lemma ForRange_correct:
  assumes "store_ok s"
  shows "set (ForRange s lo hi) = {t \<in> in_force s. t_StartNs t \<le> hi \<and> lo \<le> t_EndNs t}"
    "sorted_wrt (\<lambda>a b. t_EndNs a < t_EndNs b \<or> t_EndNs a = t_EndNs b \<and> t_ID a < t_ID b) (ForRange s lo hi)"
proof -
  have T: "tracked (set (s_byEnd s)) s" and O: "ordered (s_heap s) (s_byEnd s)"
    using assms by (simp_all add: store_ok_def)
  show "set (ForRange s lo hi) = {t \<in> in_force s. t_StartNs t \<le> hi \<and> lo \<le> t_EndNs t}"
    unfolding ForRange_eq [OF assms] in_force_tracked [OF T] by auto
  show "sorted_wrt (\<lambda>a b. t_EndNs a < t_EndNs b \<or> t_EndNs a = t_EndNs b \<and> t_ID a < t_ID b) (ForRange s lo hi)"
    unfolding ForRange_eq [OF assms] sorted_wrt_map using ordered_filter [OF O]
    unfolding ordered_def by (rule sorted_wrt_mono_rel [rotated]) (auto simp: entryLess_def split: if_splits)
qed

lemma ForRange_AffectsFile:
  assumes "store_ok s" "lo \<le> hi"
  shows "set (filter (\<lambda>t. t_StartNs t \<le> t_EndNs t) (ForRange s lo hi)) = {t \<in> in_force s. AffectsFile t lo hi}"
  using ForRange_correct(1) [OF assms(1)] by (auto simp: AffectsFile_def split: if_splits)

section \<open>The store as a machine\<close>

text \<open>What the protocol relies on: a map from ids to entries with four operations.\<close>

locale tombstone_view =
  fixes ok :: "'s \<Rightarrow> bool"
    and look :: "'s \<Rightarrow> string \<rightharpoonup> entry"
    and put :: "entry \<Rightarrow> 's \<Rightarrow> 's"
    and undo :: "string \<Rightarrow> 's \<Rightarrow> 's"
    and drops :: "string list \<Rightarrow> 's \<Rightarrow> 's"
  assumes put_ok: "ok s \<Longrightarrow> ok (put e s)"
    and undo_ok: "ok s \<Longrightarrow> ok (undo i s)"
    and drops_ok: "ok s \<Longrightarrow> ok (drops is s)"
    and look_put: "ok s \<Longrightarrow> look (put e s) = (look s)(t_ID (e_t e) \<mapsto> e)"
    and look_undo: "ok s \<Longrightarrow> look (undo i s) =
      (case look s i of None \<Rightarrow> look s | Some e \<Rightarrow> (look s)(i \<mapsto> e\<lparr>e_undone := True\<rparr>))"
    and look_drops: "ok s \<Longrightarrow> look (drops is s) = (look s) |` (- set is)"
    and look_id: "ok s \<Longrightarrow> look s i = Some e \<Longrightarrow> t_ID (e_t e) = i"

datatype store_op = OPut entry | OUndo string | OForget "string list"

context tombstone_view
begin

fun step :: "store_op \<Rightarrow> 's \<Rightarrow> 's" where
  "step (OPut e) s = put e s"
| "step (OUndo i) s = undo i s"
| "step (OForget is) s = drops is s"

text \<open>An entry stays what it is until an operation names its id.\<close>

lemma run_keeps_entry:
  assumes "ok s" "\<forall>x \<in> set ops. case x of OPut e \<Rightarrow> t_ID (e_t e) \<noteq> i | OUndo j \<Rightarrow> j \<noteq> i | OForget is \<Rightarrow> i \<notin> set is"
  shows "look (fold step ops s) i = look s i \<and> ok (fold step ops s)"
  using assms
proof (induction ops arbitrary: s)
  case (Cons x ops)
  have "look (step x s) i = look s i \<and> ok (step x s)"
    using Cons.prems by (cases x)
      (auto simp: look_put look_undo look_drops put_ok undo_ok drops_ok restrict_map_def split: option.split)
  with Cons show ?case by simp
qed simp

end

definition undoID :: "string \<Rightarrow> tstore \<Rightarrow> tstore" where
  "undoID i s = (case mget (s_byID s) i of None \<Rightarrow> s | Some r \<Rightarrow> markUndoneLocked r s)"

lemma undoID_ok:
  assumes "store_ok s"
  shows "store_ok (undoID i s)" "view (undoID i s) =
      (case view s i of None \<Rightarrow> view s | Some e \<Rightarrow> (view s)(i \<mapsto> e\<lparr>e_undone := True\<rparr>))"
  using markUndoneLocked_ok [OF assms, of i] assms
  by (auto simp: undoID_def state_def split: option.split simp del: map_of_eq_Some_iff)

interpretation pod_view: tombstone_view store_ok view putLocked undoID forgetMany
proof unfold_locales
  fix s i e assume "store_ok s" "view s i = Some e"
  then show "t_ID (e_t e) = i" unfolding store_ok_def by (metis view_tracked)
qed (simp_all add: putLocked_ok undoID_ok forgetMany_ok)

interpretation pod_machine: machine "\<lambda>op s. True" pod_view.step store_ok
proof unfold_locales
  fix s op assume "store_ok s"
  then show "store_ok (pod_view.step op s)"
    by (cases op) (simp_all add: putLocked_ok undoID_ok forgetMany_ok)
qed

end
