(* ===== verification/TombProtocol.thy ===== *)
theory TombProtocol
  imports TombStore
begin

text \<open>
  How a pod keeps its view of the deletes current: \<open>src/internal/delete/protocol.go\<close> and
  \<open>src/internal/delete/cache.go\<close>.

  The bucket, the clocks and the request context are the environment (\<open>env\<close>): each
  operation reads and changes a world of any type \<open>'w\<close>, so every answer the
  \<open>Backend\<close> interface allows (errors, short listings, other pods writing between two calls)
  is some environment. A sync runs under \<open>syncMu\<close> and is one function. The parallel GETs and
  HEADs of a sync are done in list order. Metrics and logging are not modelled.
\<close>

section \<open>The environment\<close>

record 'w env =
  ql :: filter_engine
  cacheName :: "string \<Rightarrow> string"
  be_put :: "string \<Rightarrow> body \<Rightarrow> 'w \<Rightarrow> (string + bool) \<times> 'w"
  be_get :: "string \<Rightarrow> 'w \<Rightarrow> (string + body option) \<times> 'w"
  be_exists :: "string \<Rightarrow> 'w \<Rightarrow> (string + bool) \<times> 'w"
  be_list :: "string \<Rightarrow> string \<Rightarrow> 'w \<Rightarrow> (string list \<times> string option) \<times> 'w"
  be_delete :: "string \<Rightarrow> 'w \<Rightarrow> string option \<times> 'w"
  ctx_err :: "'w \<Rightarrow> string option \<times> 'w"
  pod_now :: "'w \<Rightarrow> int \<times> 'w"
  mono_now :: "'w \<Rightarrow> int \<times> 'w"

definition emptyBody :: body where "emptyBody = JOther None 0"

section \<open>The local cache of tombstone objects\<close>

text \<open>A cache file holds \<open>Some (key, body)\<close>, or \<open>None\<close> when it has no first line.
  \<open>c_writable\<close> is false on a read-only or full volume.\<close>

record bodyCache =
  c_files :: "(string, (string \<times> body) option) gomap"
  c_writable :: bool
  c_failed :: bool

definition cacheGet :: "'w env \<Rightarrow> bodyCache option \<Rightarrow> string \<Rightarrow> body option" where
  "cacheGet E c key =
     (case c of
        None \<Rightarrow> None
      | Some c \<Rightarrow>
          (case mget (c_files c) (cacheName E key) of
             Some (Some (k, b)) \<Rightarrow> if k \<noteq> key then None else Some b
           | _ \<Rightarrow> None))"

definition cachePut :: "'w env \<Rightarrow> string \<Rightarrow> body \<Rightarrow> bodyCache option \<Rightarrow> bodyCache option" where
  "cachePut E key b c =
     (case c of
        None \<Rightarrow> None
      | Some c \<Rightarrow>
          if c_writable c then Some (c\<lparr>c_files := mput (cacheName E key) (Some (key, b)) (c_files c)\<rparr>)
          else Some (c\<lparr>c_failed := True\<rparr>))"

definition cacheRemove :: "'w env \<Rightarrow> string \<Rightarrow> bodyCache option \<Rightarrow> bodyCache option" where
  "cacheRemove E key c =
     (case c of
        None \<Rightarrow> None
      | Some c \<Rightarrow>
          if c_writable c then Some (c\<lparr>c_files := mdel (cacheName E key) (c_files c)\<rparr>) else Some c)"

section \<open>The protocol's state\<close>

definition pollWindow :: int where "pollWindow = 10 * minute"
definition fullEvery :: int where "fullEvery = 60"
definition staleAfter :: int where "staleAfter = 3"
definition maxStartupWait :: int where "maxStartupWait = 30 * second"
definition defaultInterval :: int where "defaultInterval = minute"
definition gcBatch :: nat where "gcBatch = 500"
definition retentionMargin :: int where "retentionMargin = 24 * hour"

record unreadableDef =
  u_tenants :: "tenantRef list"
  u_all :: bool
  u_why :: terror

record proto =
  p_s :: tstore
  p_prefix :: string
  p_interval :: int
  p_cache :: "bodyCache option"
  p_expiry :: "(tombstone \<Rightarrow> int option) option"
  p_maintenance :: bool
  p_gateOn :: bool
  p_bad :: "(string, string) gomap"
  p_unreadable :: "(string, unreadableDef) gomap"
  p_undoSeen :: "(string, int) gomap"
  p_lastFull :: "int option"
  p_lastList :: "int option"
  p_gone :: "string list"
  p_seeded :: "string list"
  p_expired :: "(string, string) gomap"
  p_firstDone :: bool
  p_confirmCursor :: int
  p_lastGood :: "int option"
  p_unreadableSnapshot :: "(string, unreadableDef) gomap"
  p_synced :: bool

datatype perror =
    ErrViewStale | ErrViewNotSynced | ErrNoBackend | ErrTenantUnreadable | ErrNotReversible
  | ErrTombstoneNotFound | TaskExists string | Invalid terror | ListErr string | CtxErr string
  | Incomplete nat | WriteErr string | ReadExisting | LookUp perror

record options =
  o_backend :: bool
  o_prefix :: string
  o_interval :: int
  o_gateOff :: bool
  o_cache :: "bodyCache option"
  o_expiry :: "(tombstone \<Rightarrow> int option) option"
  o_maintenance :: bool

section \<open>Decoding, seeding and attaching\<close>

definition decodeFor :: "'w env \<Rightarrow> tombKey \<Rightarrow> body \<Rightarrow> terror + tombstone" where
  "decodeFor E k b =
     (case decodeDefinition (ql E) b of
        Inl e \<Rightarrow> Inl e
      | Inr ts \<Rightarrow>
          if t_ID ts \<noteq> tk_id k then Inl (IDMismatch (t_ID ts) (tk_id k))
          else Inr (ts\<lparr>t_CreatedAt := Some (tk_timeNs k)\<rparr>))"

definition seedOne :: "'w env \<Rightarrow> string \<Rightarrow> body \<Rightarrow> proto \<Rightarrow> proto" where
  "seedOne E key b p =
     (case parseKey (p_prefix p) key of
        None \<Rightarrow> p
      | Some k \<Rightarrow>
          if tk_kind k \<noteq> kindDefinition then p
          else case decodeFor E k b of
            Inl _ \<Rightarrow> p\<lparr>p_cache := cacheRemove E key (p_cache p)\<rparr>
          | Inr ts \<Rightarrow> p\<lparr>p_s := putLocked \<lparr>e_t = ts, e_defKey = key, e_undone = False\<rparr> (p_s p),
              p_seeded := List.insert key (p_seeded p)\<rparr>)"

text \<open>\<open>each\<close> reads the directory once and the files one by one, while the callback may remove
  files.\<close>

fun seedLoop :: "'w env \<Rightarrow> string list \<Rightarrow> proto \<Rightarrow> proto" where
  "seedLoop E [] p = p"
| "seedLoop E (name # names) p =
     (case p_cache p of
        None \<Rightarrow> p
      | Some c \<Rightarrow>
          (case mget (c_files c) name of
             Some (Some (key, b)) \<Rightarrow> seedLoop E names (seedOne E key b p)
           | _ \<Rightarrow> seedLoop E names p))"

definition seed :: "'w env \<Rightarrow> proto \<Rightarrow> proto" where
  "seed E p =
     (case p_cache p of
        None \<Rightarrow> p
      | Some c \<Rightarrow>
          seedLoop E (filter (\<lambda>n. hasSuffix n ''.tomb'') (sort_slice (<) (mkeys (c_files c)))) p)"

definition Attach :: "'w env \<Rightarrow> options \<Rightarrow> tstore \<Rightarrow> perror + proto" where
  "Attach E opts s =
     (if \<not> o_backend opts then Inl ErrNoBackend
      else Inr (seed E \<lparr>p_s = s, p_prefix = TombstonePrefix (o_prefix opts),
        p_interval = (if o_interval opts \<le> 0 then defaultInterval else o_interval opts),
        p_cache = o_cache opts, p_expiry = o_expiry opts, p_maintenance = o_maintenance opts,
        p_gateOn = (\<not> o_gateOff opts), p_bad = [], p_unreadable = [], p_undoSeen = [],
        p_lastFull = None, p_lastList = None, p_gone = [], p_seeded = [], p_expired = [],
        p_firstDone = False, p_confirmCursor = 0, p_lastGood = None, p_unreadableSnapshot = [],
        p_synced = False\<rparr>))"

section \<open>Undo keys\<close>

text \<open>The boolean says whether the tombstone the undo key names is in the view.\<close>

definition applyUndo :: "tombKey \<Rightarrow> proto \<Rightarrow> bool \<times> proto" where
  "applyUndo k p =
     (case mget (s_byID (p_s p)) (tk_id k) of
        None \<Rightarrow> (False, p)
      | Some r \<Rightarrow>
          if e_defKey (deref (p_s p) r) \<noteq> definitionKey (p_prefix p) k then (False, p)
          else if t_Mode (e_t (deref (p_s p) r)) \<noteq> ''hide'' then (True, p)
          else (True, p\<lparr>p_s := markUndoneLocked r (p_s p)\<rparr>))"

section \<open>The gate\<close>

definition viewAge :: "int \<Rightarrow> proto \<Rightarrow> int option" where
  "viewAge now p = map_option (\<lambda>g. now - g) (p_lastGood p)"

definition markSynced :: "int \<Rightarrow> proto \<Rightarrow> proto" where
  "markSynced now p = p\<lparr>p_lastGood := Some now, p_synced := True\<rparr>"

definition closedFor :: "proto \<Rightarrow> tenantRef list \<Rightarrow> bool" where
  "closedFor p tenants \<longleftrightarrow>
     (\<exists>(key, u) \<in> set (p_unreadableSnapshot p).
        u_all u \<or> tenants = []
        \<or> (\<exists>want \<in> set tenants. \<exists>named \<in> set (u_tenants u).
             AccountID named = AccountID want
             \<and> (ProjectID named = ProjectID want \<or> ProjectID named = 0)))"

definition gateCheck :: "int \<Rightarrow> proto \<Rightarrow> tenantRef list \<Rightarrow> perror option" where
  "gateCheck now p tenants =
     (case viewAge now p of
        None \<Rightarrow> Some ErrViewStale
      | Some age \<Rightarrow>
          if age > staleAfter * p_interval p then Some ErrViewStale
          else if closedFor p tenants then Some ErrTenantUnreadable
          else None)"

text \<open>\<open>wait limit\<close> is the first wait of a pod that has not synced: \<open>Some (now, p')\<close> when the
  first complete sync comes within the limit (the time and the state the gate then reads),
  \<open>None\<close> when the request's context or the timer ends it.\<close>

definition Gate :: "proto option \<Rightarrow> (int \<Rightarrow> (int \<times> proto) option) \<Rightarrow> int \<Rightarrow> tenantRef list \<Rightarrow> perror option" where
  "Gate po wait now tenants =
     (case po of
        None \<Rightarrow> None
      | Some p \<Rightarrow>
          if \<not> p_gateOn p then None
          else if p_synced p then gateCheck now p tenants
          else let limit = staleAfter * p_interval p;
                   limit = (if limit > maxStartupWait then maxStartupWait else limit)
               in case wait limit of
                    None \<Rightarrow> Some ErrViewNotSynced
                  | Some (now', p') \<Rightarrow> gateCheck now' p' tenants)"

definition Synced :: "proto option \<Rightarrow> bool" where
  "Synced po = (case po of None \<Rightarrow> True | Some p \<Rightarrow> p_synced p)"

section \<open>Reading definitions\<close>

record listedKey =
  lk_key :: string
  lk_k :: tombKey

text \<open>\<open>FBody body fromCache\<close>: read; \<open>FMissing\<close>: the key does not exist.\<close>

datatype fetched = FErr string | FMissing | FBody body bool

definition getThrough :: "'w env \<Rightarrow> string \<Rightarrow> proto \<Rightarrow> 'w \<Rightarrow> fetched \<times> proto \<times> 'w" where
  "getThrough E key p w =
     (case be_get E key w of
        (Inl err, w1) \<Rightarrow> (FErr err, p, w1)
      | (Inr None, w1) \<Rightarrow> (FMissing, p, w1)
      | (Inr (Some b), w1) \<Rightarrow> (FBody b False, p\<lparr>p_cache := cachePut E key b (p_cache p)\<rparr>, w1))"

definition refetch :: "'w env \<Rightarrow> string \<Rightarrow> proto \<Rightarrow> 'w \<Rightarrow> fetched \<times> proto \<times> 'w" where
  "refetch E key p w = getThrough E key (p\<lparr>p_cache := cacheRemove E key (p_cache p)\<rparr>) w"

fun fetch :: "'w env \<Rightarrow> string list \<Rightarrow> proto \<Rightarrow> 'w \<Rightarrow> (string, fetched) gomap \<times> proto \<times> 'w" where
  "fetch E [] p w = ([], p, w)"
| "fetch E (key # keys) p w =
     (case (case cacheGet E (p_cache p) key of
              Some b \<Rightarrow> (FBody b True, p, w)
            | None \<Rightarrow> getThrough E key p w) of
        (f, p1, w1) \<Rightarrow>
          (case fetch E keys p1 w1 of (out, p2, w2) \<Rightarrow> (mput key f out, p2, w2)))"

definition markBad :: "string \<Rightarrow> string \<Rightarrow> proto \<Rightarrow> proto" where
  "markBad key why p = p\<lparr>p_bad := mput key why (p_bad p)\<rparr>"

definition clearBad :: "string \<Rightarrow> proto \<Rightarrow> proto" where
  "clearBad key p = p\<lparr>p_bad := mdel key (p_bad p)\<rparr>"

definition markUnreadable :: "string \<Rightarrow> body \<Rightarrow> terror \<Rightarrow> proto \<Rightarrow> proto" where
  "markUnreadable key b cause p =
     p\<lparr>p_unreadable := mput key
         \<lparr>u_tenants = (case namedTenants b of None \<Rightarrow> [] | Some ts \<Rightarrow> ts),
          u_all = (namedTenants b = None), u_why = cause\<rparr> (p_unreadable p)\<rparr>"

text \<open>The first loop of \<open>learnDefinitions\<close>: whether a listed definition has to be read.\<close>

definition needsRead :: "proto \<Rightarrow> listedKey \<Rightarrow> bool" where
  "needsRead p d =
     (case state (p_s p) (tk_id (lk_k d)) of
        None \<Rightarrow> lk_key d \<notin> set (p_gone p)
      | Some e \<Rightarrow>
          if e_defKey e = lk_key d then False
          else if lk_key d \<in> set (p_gone p) then False
          else if e_defKey e \<noteq> [] \<and> e_defKey e < lk_key d then False
          else True)"

text \<open>The end of the second loop's body, for a definition that decoded: the earlier key of an id
  wins, and an undo that waited for this definition applies.\<close>

definition learnDecoded :: "listedKey \<Rightarrow> tombstone \<Rightarrow> proto \<Rightarrow> proto" where
  "learnDecoded d ts p0 =
     (let p = clearBad (lk_key d) p0;
          p = p\<lparr>p_unreadable := mdel (lk_key d) (p_unreadable p)\<rparr>
      in if (case state (p_s p) (t_ID ts) of
               None \<Rightarrow> False
             | Some cur \<Rightarrow> e_defKey cur \<noteq> [] \<and> e_defKey cur < lk_key d)
         then p
         else let p = p\<lparr>p_s := putLocked \<lparr>e_t = ts, e_defKey = lk_key d, e_undone = False\<rparr> (p_s p),
                        p_seeded := removeAll (lk_key d) (p_seeded p)\<rparr>
              in case mget (p_undoSeen p) (lk_key d) of
                   None \<Rightarrow> p
                 | Some at \<Rightarrow>
                     (case applyUndo \<lparr>tk_kind = kindUndo, tk_timeNs = at, tk_id = t_ID ts,
                              tk_defNs = tk_timeNs (lk_k d)\<rparr> p of
                        (applied, p') \<Rightarrow>
                          if applied then p'\<lparr>p_undoSeen := mdel (lk_key d) (p_undoSeen p')\<rparr> else p'))"

text \<open>The rest of the second loop's body. A cached copy that does not decode is dropped and the
  bucket's copy is read instead.\<close>

definition learnBody :: "'w env \<Rightarrow> listedKey \<Rightarrow> body \<Rightarrow> proto \<Rightarrow> proto" where
  "learnBody E d b p =
     (case decodeFor E (lk_k d) b of
        Inl err \<Rightarrow> markUnreadable (lk_key d) b err p
      | Inr ts \<Rightarrow> learnDecoded d ts p)"

definition learnOne :: "'w env \<Rightarrow> listedKey \<Rightarrow> fetched \<Rightarrow> proto \<Rightarrow> 'w \<Rightarrow> proto \<times> 'w" where
  "learnOne E d f p w =
     (case f of
        FErr err \<Rightarrow> (markBad (lk_key d) (''read: '' @ err) p, w)
      | FMissing \<Rightarrow> (clearBad (lk_key d) p, w)
      | FBody b fromCache \<Rightarrow>
          (case decodeFor E (lk_k d) b of
             Inr ts \<Rightarrow> (learnDecoded d ts p, w)
           | Inl err \<Rightarrow>
               if \<not> fromCache then (markUnreadable (lk_key d) b err p, w)
               else case refetch E (lk_key d) p w of
                 (FErr err, p1, w1) \<Rightarrow> (markBad (lk_key d) (''read: '' @ err) p1, w1)
               | (FMissing, p1, w1) \<Rightarrow> (clearBad (lk_key d) p1, w1)
               | (FBody b' _, p1, w1) \<Rightarrow> (learnBody E d b' p1, w1)))"

fun learnLoop :: "'w env \<Rightarrow> (string, fetched) gomap \<Rightarrow> listedKey list \<Rightarrow> proto \<Rightarrow> 'w \<Rightarrow> proto \<times> 'w" where
  "learnLoop E got [] p w = (p, w)"
| "learnLoop E got (d # ds) p w =
     (case learnOne E d (case mget got (lk_key d) of None \<Rightarrow> FMissing | Some f \<Rightarrow> f) p w of
        (p1, w1) \<Rightarrow> learnLoop E got ds p1 w1)"

definition learnDefinitions :: "'w env \<Rightarrow> listedKey list \<Rightarrow> proto \<Rightarrow> 'w \<Rightarrow> string option \<times> proto \<times> 'w" where
  "learnDefinitions E defs p w =
     (let need = filter (needsRead p) defs
      in if need = [] then (None, p, w)
         else case fetch E (map lk_key need) p w of
           (got, p1, w1) \<Rightarrow>
             (case learnLoop E got need p1 w1 of
                (p2, w2) \<Rightarrow> (case ctx_err E w2 of (err, w3) \<Rightarrow> (err, p2, w3))))"

definition learnUndo :: "listedKey \<Rightarrow> proto \<Rightarrow> proto" where
  "learnUndo u p =
     (let defKey = definitionKey (p_prefix p) (lk_k u);
          cur = state (p_s p) (tk_id (lk_k u));
          matches = (case cur of None \<Rightarrow> False | Some e \<Rightarrow> e_defKey e = defKey);
          already = (matches \<and> (case cur of None \<Rightarrow> False | Some e \<Rightarrow> e_undone e))
      in if already then p
         else if \<not> matches then p\<lparr>p_undoSeen := mput defKey (tk_timeNs (lk_k u)) (p_undoSeen p)\<rparr>
         else snd (applyUndo (lk_k u) p))"

definition learnUndos :: "listedKey list \<Rightarrow> proto \<Rightarrow> proto" where
  "learnUndos undos p = fold learnUndo undos p"

section \<open>What a full listing did not list\<close>

text \<open>Go's \<open>%\<close> truncates towards zero.\<close>

definition rotated :: "'a list \<Rightarrow> int \<Rightarrow> 'a list" where
  "rotated xs offset =
     (if xs = [] then xs
      else let l = int (length xs);
               n = sgn offset * (\<bar>offset\<bar> mod l);
               n = nat (if n < 0 then n + l else n)
           in drop n xs @ take n xs)"

text \<open>HEAD checks of \<open>(id, key)\<close> pairs: those the store answered do not exist.\<close>

fun checkAbsent :: "'w env \<Rightarrow> (string \<times> string) list \<Rightarrow> 'w \<Rightarrow> (string \<times> string) list \<times> 'w" where
  "checkAbsent E [] w = ([], w)"
| "checkAbsent E ((i, key) # cs) w =
     (case be_exists E key w of
        (r, w1) \<Rightarrow>
          (case checkAbsent E cs w1 of
             (out, w2) \<Rightarrow> (if r = Inr False then (i, key) # out else out, w2)))"

text \<open>The bounded sample of the absent keys: the candidates of the view and the seeded keys to
  check in this pass, and whether some had to wait.\<close>

definition confirmSample ::
    "nat \<Rightarrow> (string \<times> string) list \<Rightarrow> string list \<Rightarrow> (string \<times> string) list \<times> string list \<times> bool" where
  "confirmSample budget cands seeded =
     (if length cands + length seeded > budget
      then if length cands > budget then (take budget cands, [], True)
           else (cands, take (budget - length cands) seeded, True)
      else (cands, seeded, False))"

definition confirmAbsent :: "'w env \<Rightarrow> string list \<Rightarrow> proto \<Rightarrow> 'w \<Rightarrow> proto \<times> 'w" where
  "confirmAbsent E listed p w =
     (let s = p_s p;
          total = length (s_byID s);
          cands = map (\<lambda>(i, r). (i, e_defKey (deref s r)))
            (filter (\<lambda>(i, r). e_defKey (deref s r) \<noteq> [] \<and> e_defKey (deref s r) \<notin> set listed) (s_byID s));
          seeded = filter (\<lambda>key. key \<notin> set listed) (p_seeded p);
          p1 = p\<lparr>p_seeded := seeded\<rparr>;
          budget = max 100 (total div 100);
          cands = rotated (sort_slice (\<lambda>a b. snd a < snd b) cands) (p_confirmCursor p);
          seeded = rotated (sort_slice (<) seeded) (p_confirmCursor p)
      in case confirmSample budget cands seeded of
           (cs, sd, over) \<Rightarrow>
             let p2 = (if over then p1\<lparr>p_confirmCursor := to_int64 (p_confirmCursor p1 + int budget)\<rparr> else p1)
             in case checkAbsent E cs w of
                  (gone, w1) \<Rightarrow>
                    (case checkAbsent E (map (\<lambda>key. ([], key)) sd) w1 of
                       (goneSeeded, w2) \<Rightarrow>
                         (case ctx_err E w2 of
                            (Some _, w3) \<Rightarrow> (p2, w3)
                          | (None, w3) \<Rightarrow>
                              let dropCache = map snd gone @ map snd goneSeeded
                              in (p2\<lparr>p_s := forgetMany (map fst gone) (p_s p2),
                                    p_cache := fold (cacheRemove E) dropCache (p_cache p2),
                                    p_seeded := filter (\<lambda>k. k \<notin> set dropCache) (p_seeded p2)\<rparr>, w3))))"

section \<open>Retention\<close>

definition expiredAt :: "proto \<Rightarrow> int \<Rightarrow> tombstone \<Rightarrow> bool" where
  "expiredAt p now t =
     (case p_expiry p of
        None \<Rightarrow> False
      | Some f \<Rightarrow> (case f t of None \<Rightarrow> False | Some at \<Rightarrow> now > at))"

definition noteGone :: "string \<times> string \<Rightarrow> proto \<Rightarrow> proto" where
  "noteGone g p =
     (if snd g = [] then p
      else p\<lparr>p_gone := List.insert (snd g) (p_gone p),
             p_expired := (if p_maintenance p then mput (fst g) (snd g) (p_expired p) else p_expired p)\<rparr>)"

definition sweepExpired :: "int \<Rightarrow> proto \<Rightarrow> proto" where
  "sweepExpired now p =
     (case p_expiry p of
        None \<Rightarrow> p
      | Some _ \<Rightarrow>
          let drops = map (\<lambda>(i, r). (i, e_defKey (deref (p_s p) r)))
                (filter (\<lambda>(i, r). expiredAt p now (e_t (deref (p_s p) r))) (s_byID (p_s p)));
              p1 = fold noteGone drops p
          in p1\<lparr>p_s := forgetMany (map fst drops) (p_s p1)\<rparr>)"

text \<open>The inner loop of \<open>gc\<close>: the keys of one tombstone, up to the first failure.\<close>

fun gcKeys :: "'w env \<Rightarrow> string list \<Rightarrow> bodyCache option \<Rightarrow> 'w \<Rightarrow> bool \<times> bodyCache option \<times> 'w" where
  "gcKeys E [] c w = (True, c, w)"
| "gcKeys E (key # keys) c w =
     (case be_delete E key w of
        (Some _, w1) \<Rightarrow> (False, c, w1)
      | (None, w1) \<Rightarrow> gcKeys E keys (cacheRemove E key c) w1)"

definition undosOf :: "string \<Rightarrow> listedKey list \<Rightarrow> string \<Rightarrow> string list" where
  "undosOf pfx undos defKey =
     map lk_key (filter (\<lambda>u. definitionKey pfx (lk_k u) = defKey) undos)"

fun gcLoop :: "'w env \<Rightarrow> listedKey list \<Rightarrow> nat \<Rightarrow> (string \<times> string) list \<Rightarrow> proto \<Rightarrow> 'w \<Rightarrow> proto \<times> 'w" where
  "gcLoop E undos n [] p w = (p, w)"
| "gcLoop E undos n ((i, defKey) # es) p w =
     (if n \<ge> gcBatch then (p, w)
      else case ctx_err E w of
        (Some _, w1) \<Rightarrow> (p, w1)
      | (None, w1) \<Rightarrow>
          (case gcKeys E (undosOf (p_prefix p) undos defKey @ [defKey]) (p_cache p) w1 of
             (done, c, w2) \<Rightarrow>
               let p1 = p\<lparr>p_cache := c\<rparr>;
                   p2 = (if done
                         then p1\<lparr>p_expired := mdel i (p_expired p1), p_gone := removeAll defKey (p_gone p1)\<rparr>
                         else p1)
               in gcLoop E undos (Suc n) es p2 w2))"

definition gc :: "'w env \<Rightarrow> listedKey list \<Rightarrow> proto \<Rightarrow> 'w \<Rightarrow> proto \<times> 'w" where
  "gc E undos p w = gcLoop E undos 0 (p_expired p) p w"

definition ExpiryAt :: "tombstone \<Rightarrow> int \<Rightarrow> int option" where
  "ExpiryAt t maxTTL =
     (let margin = to_int64 (maxTTL + retentionMargin)
      in if t_EndNs t > to_int64 (max_int64 - margin) then None else Some (to_int64 (t_EndNs t + margin)))"

section \<open>One sync\<close>

definition publishUnreadable :: "proto \<Rightarrow> proto" where
  "publishUnreadable p = p\<lparr>p_unreadableSnapshot := p_unreadable p\<rparr>"

definition syncFull :: "int \<Rightarrow> bool \<Rightarrow> proto \<Rightarrow> bool" where
  "syncFull t0 forceFull p =
     (forceFull
      \<or> (case p_lastList p of None \<Rightarrow> True | Some l \<Rightarrow> t0 - l > pollWindow div 2)
      \<or> (case p_lastFull p of None \<Rightarrow> True | Some l \<Rightarrow> t0 - l \<ge> fullEvery * p_interval p))"

text \<open>The listing's callback: the parsed definition and undo keys, in key order.\<close>

definition listedOf :: "string \<Rightarrow> string \<Rightarrow> string list \<Rightarrow> listedKey list" where
  "listedOf pfx kind keys =
     List.map_filter (\<lambda>key. case parseKey pfx key of
         None \<Rightarrow> None
       | Some k \<Rightarrow> if tk_kind k = kind then Some \<lparr>lk_key = key, lk_k = k\<rparr> else None) keys"

text \<open>Keys that could not be read before are tried again, unless they are listed anyway.\<close>

definition retryBad :: "string list \<Rightarrow> proto \<Rightarrow> listedKey list \<times> proto" where
  "retryBad listedDefs p =
     (let good = (\<lambda>key. case parseKey (p_prefix p) key of
                   None \<Rightarrow> False | Some k \<Rightarrow> tk_kind k = kindDefinition);
          bad = filter (\<lambda>(key, why). good key) (p_bad p)
      in (filter (\<lambda>d. lk_key d \<notin> set listedDefs) (listedOf (p_prefix p) kindDefinition (mkeys bad)),
          p\<lparr>p_bad := bad\<rparr>))"

definition pruneAfterFull :: "listedKey list \<Rightarrow> string list \<Rightarrow> int \<Rightarrow> proto \<Rightarrow> proto" where
  "pruneAfterFull defs listedAll t0 p =
     (let p1 = p\<lparr>p_gone := filter (\<lambda>k. k \<in> set listedAll) (p_gone p),
                 p_unreadable := filter (\<lambda>(k, u). k \<in> set listedAll) (p_unreadable p)\<rparr>;
          wanted = filter (\<lambda>k. k \<notin> set (p_gone p1)) (map lk_key defs);
          inView = (\<lambda>dk. case parseKey (p_prefix p1) dk of
             None \<Rightarrow> False
           | Some k \<Rightarrow> (case state (p_s p1) (tk_id k) of None \<Rightarrow> False | Some e \<Rightarrow> e_defKey e = dk))
      in p1\<lparr>p_undoSeen := filter (\<lambda>(dk, at). inView dk \<or> dk \<in> set wanted) (p_undoSeen p1),
            p_lastFull := Some t0\<rparr>)"

text \<open>What a sync does once the listing is in and its definitions are read.\<close>

definition syncTail ::
    "'w env \<Rightarrow> bool \<Rightarrow> int \<Rightarrow> listedKey list \<Rightarrow> listedKey list \<Rightarrow> string list \<Rightarrow> proto \<Rightarrow> 'w
     \<Rightarrow> perror option \<times> proto \<times> 'w" where
  "syncTail E full t0 defs undos listedAll p w =
     (let p1 = learnUndos undos p in
      case (if full
            then (case confirmAbsent E listedAll p1 w of
                    (p2, w1) \<Rightarrow> (pruneAfterFull defs listedAll t0 p2, w1))
            else (p1, w)) of
        (p3, w2) \<Rightarrow>
          let p4 = sweepExpired t0 p3 in
          case (if full \<and> p_maintenance p4 then gc E undos p4 w2 else (p4, w2)) of
            (p5, w3) \<Rightarrow>
              let p6 = publishUnreadable (p5\<lparr>p_lastList := Some t0, p_firstDone := True\<rparr>) in
              if p_bad p6 \<noteq> [] then (Some (Incomplete (length (p_bad p6))), p6, w3)
              else case mono_now E w3 of (now, w4) \<Rightarrow> (None, markSynced now p6, w4))"

definition sync :: "'w env \<Rightarrow> bool \<Rightarrow> proto \<Rightarrow> 'w \<Rightarrow> perror option \<times> proto \<times> 'w" where
  "sync E forceFull p w =
     (case pod_now E w of
        (t0, w0) \<Rightarrow>
          let full = syncFull t0 forceFull p;
              startAfter = (if full then [] else startAfterKey (p_prefix p) (t0 - pollWindow))
          in case be_list E (p_prefix p) startAfter w0 of
               ((keys, Some err), w1) \<Rightarrow> (Some (ListErr err), p, w1)
             | ((keys, None), w1) \<Rightarrow>
                 let listed = listedOf (p_prefix p) kindDefinition keys;
                     undos = listedOf (p_prefix p) kindUndo keys;
                     listedAll = filter (\<lambda>k. parseKey (p_prefix p) k \<noteq> None) keys
                 in case retryBad (map lk_key listed) p of
                      (again, p1) \<Rightarrow>
                        let defs = listed @ again in
                        case learnDefinitions E defs p1 w1 of
                          (Some err, p2, w2) \<Rightarrow> (Some (CtxErr err), p2, w2)
                        | (None, p2, w2) \<Rightarrow> syncTail E full t0 defs undos listedAll p2 w2)"

definition SyncNow :: "'w env \<Rightarrow> bool \<Rightarrow> proto option \<Rightarrow> 'w \<Rightarrow> perror option \<times> proto option \<times> 'w" where
  "SyncNow E full po w =
     (case po of
        None \<Rightarrow> (Some ErrNoBackend, None, w)
      | Some p \<Rightarrow> (case sync E full p w of (err, p', w') \<Rightarrow> (err, Some p', w')))"

text \<open>The poll loop: a full sync retried until it succeeds, then a sync per tick. \<open>n\<close> bounds the
  iterations (the loop itself ends only with its context); the boolean is false when the
  context ended it.\<close>

fun startFirst :: "'w env \<Rightarrow> nat \<Rightarrow> proto \<Rightarrow> 'w \<Rightarrow> (bool \<times> nat) \<times> proto \<times> 'w" where
  "startFirst E 0 p w = ((False, 0), p, w)"
| "startFirst E (Suc n) p w =
     (case sync E True p w of
        (None, p1, w1) \<Rightarrow> ((True, n), p1, w1)
      | (Some _, p1, w1) \<Rightarrow>
          (case ctx_err E w1 of
             (Some _, w2) \<Rightarrow> ((False, 0), p1, w2)
           | (None, w2) \<Rightarrow> startFirst E n p1 w2))"

fun startPoll :: "'w env \<Rightarrow> nat \<Rightarrow> proto \<Rightarrow> 'w \<Rightarrow> proto \<times> 'w" where
  "startPoll E 0 p w = (p, w)"
| "startPoll E (Suc n) p w =
     (case ctx_err E w of
        (Some _, w1) \<Rightarrow> (p, w1)
      | (None, w1) \<Rightarrow> (case sync E False p w1 of (_, p1, w2) \<Rightarrow> startPoll E n p1 w2))"

definition Start :: "'w env \<Rightarrow> nat \<Rightarrow> proto \<Rightarrow> 'w \<Rightarrow> proto \<times> 'w" where
  "Start E n p w =
     (case startFirst E n p w of ((go, m), p1, w1) \<Rightarrow> if go then startPoll E m p1 w1 else (p1, w1))"

section \<open>Creating and undoing a delete\<close>

definition sameOrExists :: "entry \<Rightarrow> tombstone \<Rightarrow> body \<Rightarrow> perror + tombstone" where
  "sameOrExists cur want wantBody =
     (if e_defKey cur \<noteq> []
         \<and> encodeDefinition ((e_t cur)\<lparr>t_CreatedAt := t_CreatedAt want\<rparr>) = wantBody \<and> \<not> e_undone cur
      then Inr (e_t cur) else Inl (TaskExists (t_ID want)))"

definition putDefinition :: "'w env \<Rightarrow> string \<Rightarrow> tombstone \<Rightarrow> proto \<Rightarrow> proto" where
  "putDefinition E key ts p =
     p\<lparr>p_cache := cachePut E key (encodeDefinition ts) (p_cache p),
       p_s := putLocked \<lparr>e_t = ts, e_defKey = key, e_undone = False\<rparr> (p_s p)\<rparr>"

text \<open>\<open>Create\<close> after validation: the definition is written once and put in force.\<close>

definition createAt :: "'w env \<Rightarrow> int \<Rightarrow> tombstone \<Rightarrow> proto \<Rightarrow> 'w \<Rightarrow> (perror + tombstone) \<times> proto \<times> 'w" where
  "createAt E keyNs ts0 p w =
     (let ts = ts0\<lparr>t_CreatedAt := Some keyNs\<rparr>; b = encodeDefinition ts in
      case state (p_s p) (t_ID ts) of
        Some cur \<Rightarrow> (sameOrExists cur ts b, p, w)
      | None \<Rightarrow>
          let key = formatKey (p_prefix p)
                \<lparr>tk_kind = kindDefinition, tk_timeNs = keyNs, tk_id = t_ID ts, tk_defNs = 0\<rparr> in
          case be_put E key b w of
            (Inl err, w1) \<Rightarrow> (Inl (WriteErr err), p, w1)
          | (Inr True, w1) \<Rightarrow> (Inr ts, putDefinition E key ts p, w1)
          | (Inr False, w1) \<Rightarrow>
              (case be_get E key w1 of
                 (Inl _, w2) \<Rightarrow> (Inl ReadExisting, p, w2)
               | (Inr None, w2) \<Rightarrow> (Inl ReadExisting, p, w2)
               | (Inr (Some existing), w2) \<Rightarrow>
                   if existing \<noteq> b then (Inl (TaskExists (t_ID ts)), p, w2)
                   else (Inr ts, putDefinition E key ts p, w2)))"

definition Create :: "'w env \<Rightarrow> tombstone \<Rightarrow> proto option \<Rightarrow> 'w
    \<Rightarrow> (perror + tombstone) \<times> proto option \<times> 'w" where
  "Create E ts0 po w =
     (case po of
        None \<Rightarrow> (Inl ErrNoBackend, None, w)
      | Some p \<Rightarrow>
          let ts1 = (if t_Mode ts0 = [] then ts0\<lparr>t_Mode := ''hide''\<rparr> else ts0) in
          case Validate (ql E) ts1 of
            Some e \<Rightarrow> (Inl (Invalid e), Some p, w)
          | None \<Rightarrow>
              let ts = ts1\<lparr>t_Tenants := NormalizeTenants (t_Tenants ts1)\<rparr> in
              case (case idTime (t_ID ts) of Some ns \<Rightarrow> (ns, w) | None \<Rightarrow> pod_now E w) of
                (keyNs, w1) \<Rightarrow>
                  (case createAt E keyNs ts p w1 of (r, p', w2) \<Rightarrow> (r, Some p', w2)))"

text \<open>\<open>UndeleteIf\<close> once the tombstone was looked up.\<close>

definition undoEntry :: "'w env \<Rightarrow> string \<Rightarrow> entry \<Rightarrow> proto \<Rightarrow> 'w \<Rightarrow> perror option \<times> proto \<times> 'w" where
  "undoEntry E i e p w =
     (if e_defKey e = [] then (Some ErrNoBackend, p, w)
      else if t_Mode (e_t e) \<noteq> ''hide'' then (Some ErrNotReversible, p, w)
      else case parseKey (p_prefix p) (e_defKey e) of
        None \<Rightarrow> (Some ErrNoBackend, p, w)
      | Some dk \<Rightarrow>
          (case pod_now E w of
             (now, w1) \<Rightarrow>
               let undo = \<lparr>tk_kind = kindUndo, tk_timeNs = now, tk_id = i, tk_defNs = tk_timeNs dk\<rparr> in
               case be_put E (formatKey (p_prefix p) undo) emptyBody w1 of
                 (Inl err, w2) \<Rightarrow> (Some (WriteErr err), p, w2)
               | (Inr _, w2) \<Rightarrow> (None, snd (applyUndo undo p), w2)))"

definition UndeleteIf :: "'w env \<Rightarrow> string \<Rightarrow> (tombstone \<Rightarrow> bool) option \<Rightarrow> proto option \<Rightarrow> 'w
    \<Rightarrow> perror option \<times> proto option \<times> 'w" where
  "UndeleteIf E i allow po w =
     (case po of
        None \<Rightarrow> (Some ErrNoBackend, None, w)
      | Some p \<Rightarrow>
          let (syncErr, p1, w1) =
                (case state (p_s p) i of Some _ \<Rightarrow> (None, p, w) | None \<Rightarrow> sync E False p w)
          in case state (p_s p1) i of
               None \<Rightarrow>
                 (Some (case syncErr of Some err \<Rightarrow> LookUp err | None \<Rightarrow> ErrTombstoneNotFound), Some p1, w1)
             | Some e \<Rightarrow>
                 if (case allow of None \<Rightarrow> False | Some f \<Rightarrow> \<not> f (e_t e))
                 then (Some ErrTombstoneNotFound, Some p1, w1)
                 else (case undoEntry E i e p1 w1 of (err, p2, w2) \<Rightarrow> (err, Some p2, w2)))"

definition Undelete :: "'w env \<Rightarrow> string \<Rightarrow> proto option \<Rightarrow> 'w \<Rightarrow> perror option \<times> proto option \<times> 'w" where
  "Undelete E i po w = UndeleteIf E i None po w"

end
