(* ===== verification/TombSync.thy ===== *)
theory TombSync
  imports TombProtocol
begin

text \<open>
  What the tombstone protocol promises, and that it keeps it.

  \<open>vstep\<close> is the abstract specification: a view of the deletes (a map from ids to entries)
  changes only by learning a definition, by an undo and by forgetting, and each of these needs
  its evidence. \<open>sync_refines\<close>: whatever the bucket answers, a sync is a sequence of such
  steps. The safety properties of the protocol are invariants of \<open>vstep\<close>, by rule induction.
  \<open>learnDefinitions\<close> and \<open>sync\<close> also make progress: a sync that succeeds leaves every listed
  definition enforced, expired or recorded as unreadable.
\<close>

section \<open>The abstract view\<close>

type_synonym tview = "string \<rightharpoonup> entry"

text \<open>The evidence: \<open>Ld key\<close> (\<open>key\<close> was listed, now or when it could not be read), \<open>Ab key\<close> (the store answered that \<open>key\<close> does not exist), \<open>Xp t\<close>
  (retention has passed for \<open>t\<close>), \<open>Ud key\<close> (an undo key of the definition \<open>key\<close> is known).\<close>

inductive vstep :: "string \<Rightarrow> (string \<Rightarrow> bool) \<Rightarrow> (string \<Rightarrow> bool) \<Rightarrow> (tombstone \<Rightarrow> bool) \<Rightarrow> (string \<Rightarrow> bool)
    \<Rightarrow> tview \<Rightarrow> tview \<Rightarrow> bool"
  for pfx Ld Ab Xp Ud where
  learn: "Ld key \<Longrightarrow> parseKey pfx key = Some k \<Longrightarrow> tk_kind k = kindDefinition \<Longrightarrow> tk_id k = t_ID ts
    \<Longrightarrow> \<not> (\<exists>cur. v (t_ID ts) = Some cur \<and> e_defKey cur \<noteq> [] \<and> e_defKey cur < key)
    \<Longrightarrow> vstep pfx Ld Ab Xp Ud v (v(t_ID ts \<mapsto> \<lparr>e_t = ts, e_defKey = key, e_undone = False\<rparr>))"
| undo: "v i = Some e \<Longrightarrow> t_Mode (e_t e) = ''hide'' \<Longrightarrow> Ud (e_defKey e)
    \<Longrightarrow> vstep pfx Ld Ab Xp Ud v (v(i \<mapsto> e\<lparr>e_undone := True\<rparr>))"
| forget: "(\<And>i e. i \<in> set ids \<Longrightarrow> v i = Some e \<Longrightarrow> Xp (e_t e) \<or> e_defKey e \<noteq> [] \<and> Ab (e_defKey e))
    \<Longrightarrow> vstep pfx Ld Ab Xp Ud v (v |` (- set ids))"

inductive_cases vstepE: "vstep pfx Ld Ab Xp Ud v v'"

section \<open>Invariants of the abstract view\<close>

definition view_wf :: "tview \<Rightarrow> bool" where
  "view_wf v \<longleftrightarrow> (\<forall>i e. v i = Some e \<longrightarrow> t_ID (e_t e) = i)"

text \<open>An id whose definition \<open>key\<close> was learned stays enforced, by it or by an earlier definition
  of the id, as long as nothing allows forgetting it.\<close>

definition enforced :: "string \<Rightarrow> string \<Rightarrow> tview \<Rightarrow> bool" where
  "enforced i key v \<longleftrightarrow> (\<exists>e. v i = Some e \<and> e_defKey e \<noteq> [] \<and> e_defKey e \<le> key)"

text \<open>The definition of \<open>i\<close> in the view has a key in \<open>S\<close>.\<close>

definition keyIn :: "(string \<Rightarrow> bool) \<Rightarrow> string \<Rightarrow> tview \<Rightarrow> bool" where
  "keyIn S i v \<longleftrightarrow> (\<forall>e. v i = Some e \<longrightarrow> e_defKey e \<noteq> [] \<longrightarrow> S (e_defKey e))"

lemma vstep_keyIn:
  assumes "vstep pfx Ld Ab Xp Ud v v'" "keyIn S i v"
    and "\<And>key' k. Ld key' \<Longrightarrow> parseKey pfx key' = Some k \<Longrightarrow> tk_id k = i \<Longrightarrow> S key'"
  shows "keyIn S i v'"
  using assms by (induction rule: vstep.induct) (auto simp: keyIn_def restrict_map_def)

lemma vstep_enforced:
  assumes "vstep pfx Ld Ab Xp Ud v v'" "enforced i key v"
    and "\<And>key'. key' \<le> key \<Longrightarrow> S key' \<Longrightarrow> \<not> Ab key'" "\<And>t. t_ID t = i \<Longrightarrow> \<not> Xp t"
    and "keyIn S i v" "view_wf v"
  shows "enforced i key v'"
  using assms(1)
proof cases
  case (learn key' k ts)
  then have "key' \<noteq> []" using format_parse by (fastforce simp: formatKey_def split: if_splits)
  with learn assms(2) show ?thesis by (fastforce simp: enforced_def)
next
  case (forget ids)
  then show ?thesis using assms(2-6) by (fastforce simp: enforced_def keyIn_def restrict_map_def view_wf_def)
qed (use assms(2) in \<open>auto simp: enforced_def\<close>)

definition hide_only :: "tview \<Rightarrow> bool" where
  "hide_only v \<longleftrightarrow> (\<forall>i e. v i = Some e \<longrightarrow> e_undone e \<longrightarrow> t_Mode (e_t e) = ''hide'')"

definition keyed :: "string \<Rightarrow> tview \<Rightarrow> bool" where
  "keyed pfx v \<longleftrightarrow> (\<forall>i e. v i = Some e \<longrightarrow> e_defKey e \<noteq> [] \<longrightarrow>
     (\<exists>k. parseKey pfx (e_defKey e) = Some k \<and> tk_kind k = kindDefinition \<and> tk_id k = i))"

lemma vstep_view_wf: "vstep pfx Ld Ab Xp Ud v v' \<Longrightarrow> view_wf v \<Longrightarrow> view_wf v'"
  by (induction rule: vstep.induct) (auto simp: view_wf_def restrict_map_def)

lemma vstep_hide_only: "vstep pfx Ld Ab Xp Ud v v' \<Longrightarrow> hide_only v \<Longrightarrow> hide_only v'"
  by (induction rule: vstep.induct) (auto simp: hide_only_def restrict_map_def)

lemma vstep_keyed: "vstep pfx Ld Ab Xp Ud v v' \<Longrightarrow> keyed pfx v \<Longrightarrow> keyed pfx v'"
  by (induction rule: vstep.induct) (auto simp: keyed_def restrict_map_def)

text \<open>Without an undo key of its definition an entry in force is not undone.\<close>

definition not_undone :: "string \<Rightarrow> tview \<Rightarrow> bool" where
  "not_undone key v \<longleftrightarrow> (\<forall>i e. v i = Some e \<longrightarrow> e_defKey e = key \<longrightarrow> \<not> e_undone e)"

lemma vstep_not_undone: "vstep pfx Ld Ab Xp Ud v v' \<Longrightarrow> not_undone key v \<Longrightarrow> \<not> Ud key \<Longrightarrow> not_undone key v'"
  by (induction rule: vstep.induct) (auto simp: not_undone_def restrict_map_def)

lemma vsteps_invariant:
  assumes "(vstep pfx Ld Ab Xp Ud)\<^sup>*\<^sup>* v v'" "P v"
    and "\<And>a b. vstep pfx Ld Ab Xp Ud a b \<Longrightarrow> P a \<Longrightarrow> P b"
  shows "P v'"
  using assms(1,2) by (induction rule: rtranclp_induct) (auto intro: assms(3))

lemma vsteps_enforced:
  assumes "(vstep pfx Ld Ab Xp Ud)\<^sup>*\<^sup>* v v'" "enforced i key v" "view_wf v" "keyIn S i v"
    and "\<And>key'. key' \<le> key \<Longrightarrow> S key' \<Longrightarrow> \<not> Ab key'" "\<And>t. t_ID t = i \<Longrightarrow> \<not> Xp t"
    and "\<And>key' k. Ld key' \<Longrightarrow> parseKey pfx key' = Some k \<Longrightarrow> tk_id k = i \<Longrightarrow> S key'"
  shows "enforced i key v'"
proof -
  have "enforced i key v' \<and> view_wf v' \<and> keyIn S i v'" using assms(1)
  proof (induction rule: rtranclp_induct)
    case (step a b)
    have "enforced i key b" by (rule vstep_enforced [where S = S, OF step(2)]) (use step(3) assms(5,6) in blast)+
    moreover have "keyIn S i b" by (rule vstep_keyIn [OF step(2)]) (use step(3) assms(7) in blast)+
    ultimately show ?case using step(3) vstep_view_wf [OF step(2)] by simp
  qed (simp add: assms(2-4))
  then show ?thesis ..
qed

section \<open>The steps of a sync refine the abstract view\<close>

text \<open>\<open>good Ud p\<close>: the store is consistent and every undo that waits is evidence for \<open>Ud\<close>.\<close>

definition good :: "(string \<Rightarrow> bool) \<Rightarrow> proto \<Rightarrow> bool" where
  "good Ud p \<longleftrightarrow> store_ok (p_s p) \<and> (\<forall>dk. mhas (p_undoSeen p) dk \<longrightarrow> Ud dk)"

text \<open>The fields no step of a sync changes.\<close>

definition conf :: "proto \<Rightarrow> string \<times> int \<times> (tombstone \<Rightarrow> int option) option \<times> bool \<times> bool" where
  "conf p = (p_prefix p, p_interval p, p_expiry p, p_maintenance p, p_gateOn p)"

definition refines :: "(string \<Rightarrow> bool) \<Rightarrow> (string \<Rightarrow> bool) \<Rightarrow> (tombstone \<Rightarrow> bool) \<Rightarrow> (string \<Rightarrow> bool) \<Rightarrow> proto \<Rightarrow> proto \<Rightarrow> bool" where
  "refines Ld Ab Xp Ud p p' \<longleftrightarrow>
     (good Ud p \<longrightarrow> good Ud p' \<and> conf p' = conf p
        \<and> (vstep (p_prefix p) Ld Ab Xp Ud)\<^sup>*\<^sup>* (view (p_s p)) (view (p_s p')))"

lemma conf_eq: "conf p' = conf p \<Longrightarrow> p_prefix p' = p_prefix p \<and> p_expiry p' = p_expiry p
    \<and> p_maintenance p' = p_maintenance p \<and> p_interval p' = p_interval p \<and> p_gateOn p' = p_gateOn p"
  by (simp add: conf_def)

lemma refines_trans [trans]: "refines Ld Ab Xp Ud p q \<Longrightarrow> refines Ld Ab Xp Ud q r \<Longrightarrow> refines Ld Ab Xp Ud p r"
  unfolding refines_def by (auto dest!: conf_eq intro: rtranclp_trans)

lemma refines_same:
  "p_s p' = p_s p \<Longrightarrow> conf p' = conf p \<Longrightarrow> (\<And>dk. mhas (p_undoSeen p') dk \<Longrightarrow> mhas (p_undoSeen p) dk \<or> Ud dk)
     \<Longrightarrow> refines Ld Ab Xp Ud p p'"
  by (auto simp: refines_def good_def)

lemma refines_refl: "refines Ld Ab Xp Ud p p"
  by (rule refines_same) auto

lemma refines_step:
  assumes "store_ok (p_s p) \<Longrightarrow> store_ok (p_s p') \<and> vstep (p_prefix p) Ld Ab Xp Ud (view (p_s p)) (view (p_s p'))"
    and "conf p' = conf p" "p_undoSeen p' = p_undoSeen p"
  shows "refines Ld Ab Xp Ud p p'"
  using assms by (auto simp: refines_def good_def)

lemma view_eq_None: "view s i = None \<longleftrightarrow> mget (s_byID s) i = None"
  by (simp add: state_def)

lemma view_Some: "mget (s_byID s) i = Some r \<Longrightarrow> view s i = Some (deref s r)"
  by (simp add: state_def)

lemma applyUndo_refines:
  assumes "applyUndo k p = (applied, p')" "Ud (definitionKey (p_prefix p) k)"
  shows "refines Ld Ab Xp Ud p p'"
proof (cases "p' = p")
  case False
  with assms(1) obtain r where r: "mget (s_byID (p_s p)) (tk_id k) = Some r"
    "e_defKey (deref (p_s p) r) = definitionKey (p_prefix p) k" "t_Mode (e_t (deref (p_s p) r)) = ''hide''"
    "p' = p\<lparr>p_s := markUndoneLocked r (p_s p)\<rparr>"
    by (auto simp: applyUndo_def split: option.splits if_splits simp del: map_of_eq_Some_iff)
  show ?thesis
  proof (rule refines_step)
    assume ok: "store_ok (p_s p)"
    show "store_ok (p_s p') \<and> vstep (p_prefix p) Ld Ab Xp Ud (view (p_s p)) (view (p_s p'))"
      using markUndoneLocked_ok [OF ok r(1)] vstep.undo [of "view (p_s p)" "tk_id k", OF view_Some [OF r(1)] r(3)] r(2) assms(2)
      by (simp add: r(4))
  qed (simp_all add: r(4) conf_def)
qed (simp add: refines_refl)

lemma refinesI: "(good Ud p \<Longrightarrow> refines Ld Ab Xp Ud p p') \<Longrightarrow> refines Ld Ab Xp Ud p p'"
  by (simp add: refines_def)

text \<open>A listed definition key, with what it parses to.\<close>

definition defListed :: "string \<Rightarrow> listedKey \<Rightarrow> bool" where
  "defListed pfx d \<longleftrightarrow> parseKey pfx (lk_key d) = Some (lk_k d) \<and> tk_kind (lk_k d) = kindDefinition"

lemma defListed_key:
  "defListed pfx d \<Longrightarrow> tk_id (lk_k d) = i \<Longrightarrow>
     definitionKey pfx \<lparr>tk_kind = kindUndo, tk_timeNs = at, tk_id = i, tk_defNs = tk_timeNs (lk_k d)\<rparr> = lk_key d"
  using format_parse [of pfx "lk_key d" "lk_k d"]
  by (auto simp: defListed_def definitionKey_def wf_tombKey_def formatKey_def)

lemma learnDecoded_refines:
  assumes "defListed (p_prefix p) d" "t_ID ts = tk_id (lk_k d)" "Ld (lk_key d)"
  shows "refines Ld Ab Xp Ud p (learnDecoded d ts p)"
proof -
  define p1 where "p1 = (clearBad (lk_key d) p)\<lparr>p_unreadable := mdel (lk_key d) (p_unreadable p)\<rparr>"
  define p2 where "p2 = p1\<lparr>p_s := putLocked \<lparr>e_t = ts, e_defKey = lk_key d, e_undone = False\<rparr> (p_s p1),
     p_seeded := removeAll (lk_key d) (p_seeded p1)\<rparr>"
  let ?undo = "\<lambda>at. \<lparr>tk_kind = kindUndo, tk_timeNs = at, tk_id = t_ID ts, tk_defNs = tk_timeNs (lk_k d)\<rparr>"
  define ear where "ear = (case view (p_s p) (t_ID ts) of None \<Rightarrow> False
      | Some cur \<Rightarrow> e_defKey cur \<noteq> [] \<and> e_defKey cur < lk_key d)"
  have learn: "learnDecoded d ts p = (if ear then p1
      else case mget (p_undoSeen p2) (lk_key d) of
          None \<Rightarrow> p2
        | Some at \<Rightarrow> (case applyUndo (?undo at) p2 of (applied, p') \<Rightarrow>
            if applied then p'\<lparr>p_undoSeen := mdel (lk_key d) (p_undoSeen p')\<rparr> else p'))"
    unfolding learnDecoded_def Let_def p2_def p1_def clearBad_def by (simp add: ear_def cong: option.case_cong)
  have 1: "refines Ld Ab Xp Ud p p1" by (rule refines_same) (simp_all add: p1_def clearBad_def conf_def)
  have 2: "refines Ld Ab Xp Ud p1 p2" if "\<not> ear"
  proof (rule refines_step)
    assume "store_ok (p_s p1)"
    then show "store_ok (p_s p2) \<and> vstep (p_prefix p1) Ld Ab Xp Ud (view (p_s p1)) (view (p_s p2))"
      using vstep.learn [of Ld "lk_key d" "p_prefix p" "lk_k d" ts "view (p_s p)"] assms that
      by (auto simp: ear_def split: option.splits) (simp_all add: p2_def p1_def clearBad_def putLocked_ok defListed_def)
  qed (simp_all add: p1_def p2_def clearBad_def conf_def)
  show ?thesis
  proof (rule refinesI)
    assume good: "good Ud p"
    have 3: "refines Ld Ab Xp Ud p2 (learnDecoded d ts p)" if "\<not> ear"
    proof (cases "mget (p_undoSeen p2) (lk_key d)")
      case None
      with that show ?thesis by (simp add: learn refines_refl)
    next
      case (Some at)
      obtain applied p3 where u: "applyUndo (?undo at) p2 = (applied, p3)" by fastforce
      have "Ud (lk_key d)" using good Some by (simp add: good_def p2_def p1_def clearBad_def mhas_def)
      then have "refines Ld Ab Xp Ud p2 p3"
        using assms by (intro applyUndo_refines [OF u])
          (simp add: defListed_key p2_def p1_def clearBad_def)
      also have "refines Ld Ab Xp Ud p3 (learnDecoded d ts p)"
        using that by (intro refines_same) (auto simp: learn Some u go_map conf_def split: if_splits)
      finally show ?thesis .
    qed
    show "refines Ld Ab Xp Ud p (learnDecoded d ts p)"
    proof (cases ear)
      case True
      then show ?thesis using 1 by (simp add: learn)
    next
      case False
      then show ?thesis using refines_trans [OF 1 refines_trans [OF 2 3]] by blast
    qed
  qed
qed

lemma decodeFor_id: "decodeFor E k b = Inr ts \<Longrightarrow> t_ID ts = tk_id k"
  by (auto simp: decodeFor_def split: sum.splits if_splits)

lemma learnBody_refines:
  "defListed (p_prefix p) d \<Longrightarrow> Ld (lk_key d) \<Longrightarrow> refines Ld Ab Xp Ud p (learnBody E d b p)"
  by (auto simp: learnBody_def markUnreadable_def conf_def decodeFor_id split: sum.splits
      intro!: refines_same learnDecoded_refines)

text \<open>Reading changes only the cache.\<close>

lemma cache_same: "\<exists>c. p = p\<lparr>p_cache := c\<rparr>"
  by (rule exI [of _ "p_cache p"]) simp

lemma getThrough_frame:
  "getThrough E key p w = (f, p', w') \<Longrightarrow> \<exists>c. p' = p\<lparr>p_cache := c\<rparr>"
  by (auto simp: getThrough_def cache_same split: prod.splits sum.splits option.splits)

lemma fetch_frame: "fetch E keys p w = (out, p', w') \<Longrightarrow> \<exists>c. p' = p\<lparr>p_cache := c\<rparr>"
proof (induction E keys p w arbitrary: out p' w' rule: fetch.induct)
  case (2 E key keys p w)
  obtain f p1 w1 where g: "(case cacheGet E (p_cache p) key of
      Some b \<Rightarrow> (FBody b True, p, w) | None \<Rightarrow> getThrough E key p w) = (f, p1, w1)"
    by (metis prod_cases3)
  then obtain c where c: "p1 = p\<lparr>p_cache := c\<rparr>"
    using cache_same [of p] by (auto split: option.splits dest!: getThrough_frame)
  obtain o2 p2 w2 where r: "fetch E keys p1 w1 = (o2, p2, w2)" by (metis prod_cases3)
  from "2.IH" [OF g [symmetric] refl r] obtain c2 where "p2 = p1\<lparr>p_cache := c2\<rparr>" by blast
  with c r g "2.prems" show ?case by auto
qed (auto simp: cache_same)

lemma refines_cache: "refines Ld Ab Xp Ud p (p\<lparr>p_cache := c\<rparr>)"
  by (rule refines_same) (simp_all add: conf_def)

lemma learnOne_refines:
  assumes "defListed (p_prefix p) d" "learnOne E d f p w = (p', w')" "Ld (lk_key d)"
  shows "refines Ld Ab Xp Ud p p'"
proof (cases "\<exists>b err. f = FBody b True \<and> decodeFor E (lk_k d) b = Inl err")
  case True
  then obtain b err where b: "f = FBody b True" "decodeFor E (lk_k d) b = Inl err" by blast
  obtain f1 p1 w1 where r: "refetch E (lk_key d) p w = (f1, p1, w1)" by (metis prod_cases3)
  then obtain c where c: "p1 = p\<lparr>p_cache := c\<rparr>"
    by (auto simp: refetch_def dest!: getThrough_frame)
  have "refines Ld Ab Xp Ud p1 p'"
    using assms(1,3) assms(2) [unfolded learnOne_def b fetched.case sum.case r prod.case]
    by (cases f1) (auto simp: c b markBad_def clearBad_def conf_def intro!: refines_same learnBody_refines)
  then show ?thesis using refines_trans [OF refines_cache] unfolding c by blast
next
  case False
  then show ?thesis using assms
    by (cases f) (auto simp: learnOne_def markBad_def clearBad_def markUnreadable_def conf_def decodeFor_id
        split: sum.splits if_splits intro!: refines_same learnDecoded_refines)
qed

lemma refines_prefix: "good Ud p \<Longrightarrow> refines Ld Ab Xp Ud p p' \<Longrightarrow> good Ud p' \<and> p_prefix p' = p_prefix p"
  by (auto simp: refines_def conf_def)

lemma learnLoop_refines:
  "\<forall>d \<in> set ds. defListed (p_prefix p) d \<and> Ld (lk_key d) \<Longrightarrow> learnLoop E got ds p w = (p', w') \<Longrightarrow> refines Ld Ab Xp Ud p p'"
proof (induction E got ds p w arbitrary: p' w' rule: learnLoop.induct)
  case (2 E got d ds p w)
  obtain p1 w1 where one: "learnOne E d (case mget got (lk_key d) of None \<Rightarrow> FMissing | Some f \<Rightarrow> f) p w = (p1, w1)"
    by fastforce
  have r: "refines Ld Ab Xp Ud p p1" using "2.prems"(1) by (intro learnOne_refines [OF _ one]) auto
  show ?case
  proof (rule refinesI)
    assume "good Ud p"
    with r have "p_prefix p1 = p_prefix p" by (blast dest: refines_prefix)
    then have "refines Ld Ab Xp Ud p1 p'" using "2.IH" [OF one [symmetric]] "2.prems" one by auto
    then show "refines Ld Ab Xp Ud p p'" by (rule refines_trans [OF r])
  qed
qed (auto simp: refines_refl)

lemma learnDefinitions_refines:
  assumes "\<forall>d \<in> set defs. defListed (p_prefix p) d \<and> Ld (lk_key d)" "learnDefinitions E defs p w = (err, p', w')"
  shows "refines Ld Ab Xp Ud p p'"
proof (cases "filter (needsRead p) defs = []")
  case True
  with assms(2) show ?thesis by (simp add: learnDefinitions_def refines_refl)
next
  case False
  obtain got p1 w1 where f: "fetch E (map lk_key (filter (needsRead p) defs)) p w = (got, p1, w1)"
    by (metis prod_cases3)
  obtain p2 w2 where l: "learnLoop E got (filter (needsRead p) defs) p1 w1 = (p2, w2)" by fastforce
  obtain c where c: "p1 = p\<lparr>p_cache := c\<rparr>" using fetch_frame [OF f] by blast
  have "p' = p2" using assms(2) False by (auto simp: learnDefinitions_def Let_def f l split: prod.splits)
  moreover have "refines Ld Ab Xp Ud p1 p2" using assms(1) by (intro learnLoop_refines [OF _ l]) (auto simp: c)
  ultimately show ?thesis using refines_trans [OF refines_cache] unfolding c by blast
qed

section \<open>What the reads of a sync keep of the world\<close>

text \<open>\<open>I\<close> is any fact about the world that reading requests keep: with \<open>I\<close> it can be said what
  the store answers throughout a sync.\<close>

definition reads_keep :: "'w env \<Rightarrow> ('w \<Rightarrow> bool) \<Rightarrow> bool" where
  "reads_keep E I \<longleftrightarrow> (\<forall>w. I w \<longrightarrow>
     (\<forall>key. I (snd (be_get E key w)) \<and> I (snd (be_exists E key w)) \<and> (\<forall>after. I (snd (be_list E key after w))))
     \<and> I (snd (ctx_err E w)) \<and> I (snd (pod_now E w)) \<and> I (snd (mono_now E w)))"

lemma reads_keepD:
  assumes "reads_keep E I" "I w"
  shows "be_get E key w = (r, w') \<Longrightarrow> I w'" "be_exists E key w = (x, w') \<Longrightarrow> I w'"
    "be_list E key aft w = (l, w') \<Longrightarrow> I w'" "ctx_err E w = (c, w') \<Longrightarrow> I w'"
    "pod_now E w = (n, w') \<Longrightarrow> I w'" "mono_now E w = (n, w') \<Longrightarrow> I w'"
  using assms unfolding reads_keep_def by (metis snd_conv)+

lemma getThrough_world: "reads_keep E I \<Longrightarrow> I w \<Longrightarrow> getThrough E key p w = (f, p', w') \<Longrightarrow> I w'"
  by (auto simp: getThrough_def split: prod.splits sum.splits option.splits intro: reads_keepD)

lemma fetch_world: "fetch E keys p w = (out, p', w') \<Longrightarrow> reads_keep E I \<Longrightarrow> I w \<Longrightarrow> I w'"
proof (induction E keys p w arbitrary: out p' w' rule: fetch.induct)
  case (2 E key keys p w)
  obtain f p1 w1 where g: "(case cacheGet E (p_cache p) key of
      Some b \<Rightarrow> (FBody b True, p, w) | None \<Rightarrow> getThrough E key p w) = (f, p1, w1)"
    by (metis prod_cases3)
  then have "I w1" using "2.prems" by (auto split: option.splits intro: getThrough_world)
  moreover obtain o2 p2 w2 where r: "fetch E keys p1 w1 = (o2, p2, w2)" by (metis prod_cases3)
  ultimately have "I w2" using "2.IH" [OF g [symmetric] refl r] "2.prems" by blast
  with r g "2.prems" show ?case by auto
qed auto

lemma learnOne_world:
  "learnOne E d f p w = (p', w') \<Longrightarrow> reads_keep E I \<Longrightarrow> I w \<Longrightarrow> I w'"
  by (auto simp: learnOne_def refetch_def
      split: fetched.splits sum.splits if_splits prod.splits intro: getThrough_world)

lemma learnLoop_world: "learnLoop E got ds p w = (p', w') \<Longrightarrow> reads_keep E I \<Longrightarrow> I w \<Longrightarrow> I w'"
  by (induction E got ds p w arbitrary: p' w' rule: learnLoop.induct)
    (auto split: prod.splits dest: learnOne_world)

lemma learnDefinitions_world:
  "learnDefinitions E defs p w = (err, p', w') \<Longrightarrow> reads_keep E I \<Longrightarrow> I w \<Longrightarrow> I w'"
  by (auto simp: learnDefinitions_def Let_def split: if_splits prod.splits
      dest: fetch_world learnLoop_world intro: reads_keepD)

lemma checkAbsent_world: "checkAbsent E cs w = (out, w') \<Longrightarrow> reads_keep E I \<Longrightarrow> I w \<Longrightarrow> I w'"
  by (induction E cs w arbitrary: out w' rule: checkAbsent.induct)
    (auto split: prod.splits dest: reads_keepD(2))

lemma checkAbsent_evidence:
  "checkAbsent E cs w = (out, w') \<Longrightarrow> reads_keep E I \<Longrightarrow> I w \<Longrightarrow> (i, key) \<in> set out \<Longrightarrow>
     (i, key) \<in> set cs \<and> (\<exists>w1. I w1 \<and> fst (be_exists E key w1) = Inr False)"
proof (induction E cs w arbitrary: out w' rule: checkAbsent.induct)
  case (2 E j key' cs w)
  obtain r w1 where x: "be_exists E key' w = (r, w1)" by fastforce
  then have "I w1" using "2.prems" by (blast dest: reads_keepD(2))
  with 2 x show ?case by (fastforce split: prod.splits if_splits)
qed simp

lemma mset_drop_take: "mset (drop n xs @ take n xs) = mset xs"
  by (metis append_take_drop_id mset_append union_commute)

lemma mset_rotated: "mset (rotated xs n) = mset xs"
  unfolding rotated_def Let_def by (simp only: mset_drop_take split: if_split) simp

lemma set_rotated [simp]: "set (rotated xs n) = set xs"
  by (metis mset_rotated set_mset_mset)

section \<open>The rest of a sync\<close>

lemma learnUndo_refines:
  "Ud (definitionKey (p_prefix p) (lk_k u)) \<Longrightarrow> refines Ld Ab Xp Ud p (learnUndo u p)"
  by (auto simp: learnUndo_def Let_def conf_def go_map split: option.splits if_splits
      intro!: refines_same refines_refl applyUndo_refines [OF prod.collapse [symmetric]])

lemma learnUndos_refines:
  "\<forall>u \<in> set us. Ud (definitionKey (p_prefix p) (lk_k u)) \<Longrightarrow> refines Ld Ab Xp Ud p (learnUndos us p)"
  unfolding learnUndos_def
proof (induction us arbitrary: p)
  case (Cons u us)
  have r: "refines Ld Ab Xp Ud p (learnUndo u p)" using Cons.prems by (simp add: learnUndo_refines)
  show ?case
  proof (rule refinesI)
    assume "good Ud p"
    with r have "p_prefix (learnUndo u p) = p_prefix p" by (blast dest: refines_prefix)
    then show "refines Ld Ab Xp Ud p (fold learnUndo (u # us) p)"
      using Cons.IH [of "learnUndo u p"] Cons.prems refines_trans [OF r] by auto
  qed
qed (simp add: refines_refl)

lemma refines_forget:
  assumes "p_s p' = forgetMany ids (p_s p)" "conf p' = conf p" "p_undoSeen p' = p_undoSeen p"
    and "\<And>i e. store_ok (p_s p) \<Longrightarrow> i \<in> set ids \<Longrightarrow> view (p_s p) i = Some e
      \<Longrightarrow> Xp (e_t e) \<or> e_defKey e \<noteq> [] \<and> Ab (e_defKey e)"
  shows "refines Ld Ab Xp Ud p p'"
proof (rule refines_step)
  assume ok: "store_ok (p_s p)"
  then show "store_ok (p_s p') \<and> vstep (p_prefix p) Ld Ab Xp Ud (view (p_s p)) (view (p_s p'))"
    using vstep.forget [of ids "view (p_s p)"] assms(4) by (auto simp: assms(1) forgetMany_ok)
qed (use assms in simp_all)

lemma store_entry:
  "store_ok s \<Longrightarrow> (i, r) \<in> set (s_byID s) \<Longrightarrow> view s i = Some (deref s r)"
  unfolding store_ok_def by (metis mget_in trackedD(2) view_Some)

lemma confirmSample_subset:
  "confirmSample n cs sd = (cs', sd', over) \<Longrightarrow> set cs' \<subseteq> set cs \<and> set sd' \<subseteq> set sd"
  by (auto simp: confirmSample_def split: if_splits dest: in_set_takeD)

lemma confirmAbsent_refines:
  assumes c: "confirmAbsent E listed p w = (p', w')" and I: "reads_keep E I" "I w"
    and Ab: "\<And>key w. I w \<Longrightarrow> fst (be_exists E key w) = Inr False \<Longrightarrow> key \<notin> set listed \<Longrightarrow> Ab key"
  shows "refines Ld Ab Xp Ud p p'" "I w'"
proof -
  define cands where "cands = map (\<lambda>(i, r). (i, e_defKey (deref (p_s p) r)))
      (filter (\<lambda>(i, r). e_defKey (deref (p_s p) r) \<noteq> [] \<and> e_defKey (deref (p_s p) r) \<notin> set listed) (s_byID (p_s p)))"
  define seeded where "seeded = filter (\<lambda>key. key \<notin> set listed) (p_seeded p)"
  obtain cs sd over where smp: "confirmSample (max 100 (length (s_byID (p_s p)) div 100))
      (rotated (sort_slice (\<lambda>a b. snd a < snd b) cands) (p_confirmCursor p))
      (rotated (sort_slice (<) seeded) (p_confirmCursor p)) = (cs, sd, over)"
    by (metis prod_cases3)
  obtain gone w1 where g: "checkAbsent E cs w = (gone, w1)" by fastforce
  obtain gs w2 where gs: "checkAbsent E (map (\<lambda>key. ([], key)) sd) w1 = (gs, w2)" by fastforce
  obtain ce w3 where ce: "ctx_err E w2 = (ce, w3)" by fastforce
  note unf = c [unfolded confirmAbsent_def Let_def, folded cands_def seeded_def, unfolded smp g gs ce prod.case]
  have I1: "I w1" using checkAbsent_world [OF g I] .
  have I2: "I w2" using checkAbsent_world [OF gs I(1) I1] .
  have "w' = w3" using unf by (auto split: option.splits)
  then show "I w'" using reads_keepD(4) [OF I(1) I2 ce] by simp
  show "refines Ld Ab Xp Ud p p'"
  proof (cases ce)
    case (Some x)
    then show ?thesis using unf by (intro refines_same) (auto simp: conf_def split: if_splits)
  next
    case None
    have p': "p_s p' = forgetMany (map fst gone) (p_s p)" "conf p' = conf p" "p_undoSeen p' = p_undoSeen p"
      using unf None by (cases over; auto simp: conf_def)+
    show ?thesis
    proof (rule refines_forget [OF p'])
      fix i e assume ok: "store_ok (p_s p)" and i: "i \<in> set (map fst gone)" "view (p_s p) i = Some e"
      then obtain key where k: "(i, key) \<in> set gone" by auto
      from checkAbsent_evidence [OF g I k] have cs: "(i, key) \<in> set cs"
        and ev: "\<exists>w1. I w1 \<and> fst (be_exists E key w1) = Inr False" by auto
      have "(i, key) \<in> set cands" using cs confirmSample_subset [OF smp] by auto
      then obtain r where r: "(i, r) \<in> set (s_byID (p_s p))" "key = e_defKey (deref (p_s p) r)"
        "key \<noteq> []" "key \<notin> set listed"
        unfolding cands_def by auto
      with store_entry [OF ok r(1)] i(2) have "e_defKey e = key" by simp
      with ev Ab r(3,4) show "Xp (e_t e) \<or> e_defKey e \<noteq> [] \<and> Ab (e_defKey e)" by auto
    qed
  qed
qed

lemma pruneAfterFull_refines: "refines Ld Ab Xp Ud p (pruneAfterFull defs listed t0 p)"
  by (rule refines_same) (auto simp: pruneAfterFull_def Let_def conf_def mhas_def mget_filter_key
      split: if_splits)

lemma noteGone_frame:
  "p_s (fold noteGone gs p) = p_s p \<and> conf (fold noteGone gs p) = conf p
     \<and> p_undoSeen (fold noteGone gs p) = p_undoSeen p"
  by (induction gs arbitrary: p) (simp_all add: noteGone_def conf_def)

lemma sweepExpired_refines:
  assumes "\<And>t. expiredAt p now t \<Longrightarrow> Xp t"
  shows "refines Ld Ab Xp Ud p (sweepExpired now p)"
proof (cases "p_expiry p")
  case None
  then show ?thesis by (simp add: sweepExpired_def refines_refl)
next
  case (Some f)
  define drops where "drops = map (\<lambda>(i, r). (i, e_defKey (deref (p_s p) r)))
      (filter (\<lambda>(i, r). expiredAt p now (e_t (deref (p_s p) r))) (s_byID (p_s p)))"
  have p': "sweepExpired now p = (fold noteGone drops p)\<lparr>p_s := forgetMany (map fst drops) (p_s p)\<rparr>"
    by (simp add: sweepExpired_def Some Let_def drops_def noteGone_frame)
  show ?thesis
  proof (rule refines_forget [where ids = "map fst drops"])
    fix i e assume ok: "store_ok (p_s p)" and i: "i \<in> set (map fst drops)" "view (p_s p) i = Some e"
    then obtain r where r: "(i, r) \<in> set (s_byID (p_s p))" "expiredAt p now (e_t (deref (p_s p) r))"
      unfolding drops_def by auto
    with store_entry [OF ok r(1)] i(2) assms show "Xp (e_t e) \<or> e_defKey e \<noteq> [] \<and> Ab (e_defKey e)" by simp
  qed (use noteGone_frame [of drops p] in \<open>simp_all add: p' conf_def\<close>)
qed

lemma gcLoop_frame:
  "gcLoop E undos n es p w = (p', w') \<Longrightarrow> p_s p' = p_s p \<and> conf p' = conf p \<and> p_undoSeen p' = p_undoSeen p"
proof (induction E undos n es p w arbitrary: p' w' rule: gcLoop.induct)
  case (2 E undos n i dk es p w)
  obtain ce w1 where ce: "ctx_err E w = (ce, w1)" by fastforce
  obtain dn c w2 where k: "gcKeys E (undosOf (p_prefix p) undos dk @ [dk]) (p_cache p) w1 = (dn, c, w2)"
    by (metis prod_cases3)
  show ?case
  proof (cases "n \<ge> gcBatch \<or> ce \<noteq> None")
    case True
    then show ?thesis using "2.prems" ce by (auto split: if_splits)
  next
    case False
    let ?p1 = "p\<lparr>p_cache := c\<rparr>"
    let ?p2 = "if dn then ?p1\<lparr>p_expired := mdel i (p_expired ?p1), p_gone := removeAll dk (p_gone ?p1)\<rparr> else ?p1"
    have run: "gcLoop E undos (Suc n) es ?p2 w2 = (p', w')"
      using "2.prems" False ce k by (simp add: Let_def)
    have f: "p_s ?p2 = p_s p" "conf ?p2 = conf p" "p_undoSeen ?p2 = p_undoSeen p"
      by (simp_all add: conf_def)
    show ?thesis
      using "2.IH" [OF _ ce [symmetric] _ k [symmetric] refl refl refl run] False f by auto
  qed
qed simp

lemma gc_refines: "gc E undos p w = (p', w') \<Longrightarrow> refines Ld Ab Xp Ud p p'"
  using gcLoop_frame unfolding gc_def by (intro refines_same) (fastforce simp: conf_def)+

section \<open>A sync refines the abstract view\<close>

text \<open>The time of a sync and the keys its listing delivers.\<close>

definition syncTime :: "'w env \<Rightarrow> 'w \<Rightarrow> int" where
  "syncTime E w = fst (pod_now E w)"

definition syncKeys :: "'w env \<Rightarrow> bool \<Rightarrow> proto \<Rightarrow> 'w \<Rightarrow> string list" where
  "syncKeys E ff p w =
     fst (fst (be_list E (p_prefix p)
       (if syncFull (syncTime E w) ff p then [] else startAfterKey (p_prefix p) (syncTime E w - pollWindow))
       (snd (pod_now E w))))"

lemma listedOf_in:
  "d \<in> set (listedOf pfx kind keys) \<longleftrightarrow>
     lk_key d \<in> set keys \<and> parseKey pfx (lk_key d) = Some (lk_k d) \<and> tk_kind (lk_k d) = kind"
  unfolding listedOf_def in_map_filter
  by (cases d) (auto split: option.splits if_splits)

lemma retryBad_frame:
  assumes "retryBad ls p = (again, p1)"
  shows "p1 = p\<lparr>p_bad := filter (\<lambda>(key, why). case parseKey (p_prefix p) key of
           None \<Rightarrow> False | Some k \<Rightarrow> tk_kind k = kindDefinition) (p_bad p)\<rparr>"
    "\<forall>d \<in> set again. defListed (p_prefix p) d"
    "d \<in> set again \<longleftrightarrow> defListed (p_prefix p) d \<and> mhas (p_bad p) (lk_key d) \<and> lk_key d \<notin> set ls"
proof -
  show "p1 = p\<lparr>p_bad := filter (\<lambda>(key, why). case parseKey (p_prefix p) key of
           None \<Rightarrow> False | Some k \<Rightarrow> tk_kind k = kindDefinition) (p_bad p)\<rparr>"
    using assms by (auto simp: retryBad_def Let_def)
  show iff: "d \<in> set again \<longleftrightarrow> defListed (p_prefix p) d \<and> mhas (p_bad p) (lk_key d) \<and> lk_key d \<notin> set ls" for d
    using assms by (force simp: retryBad_def Let_def listedOf_in defListed_def mhas_keys)
  then show "\<forall>d \<in> set again. defListed (p_prefix p) d" by blast
qed

lemma syncTail_refines:
  assumes t: "syncTail E full t0 defs undos listedAll p w = (r, p', w')" and I: "reads_keep E I" "I w"
    and Ab: "\<And>key w. I w \<Longrightarrow> fst (be_exists E key w) = Inr False \<Longrightarrow> key \<notin> set listedAll \<Longrightarrow> full \<Longrightarrow> Ab key"
    and Xp: "\<And>t. expiredAt p t0 t \<Longrightarrow> Xp t"
    and Ud: "\<And>u. u \<in> set undos \<Longrightarrow> Ud (definitionKey (p_prefix p) (lk_k u))"
  shows "refines Ld Ab Xp Ud p p'"
proof (rule refinesI)
  assume good: "good Ud p"
  define p1 where "p1 = learnUndos undos p"
  have r1: "refines Ld Ab Xp Ud p p1" unfolding p1_def by (rule learnUndos_refines) (simp add: Ud)
  obtain p3 w2 where m: "(if full then (case confirmAbsent E listedAll p1 w of
      (p2, w1) \<Rightarrow> (pruneAfterFull defs listedAll t0 p2, w1)) else (p1, w)) = (p3, w2)" by fastforce
  have r3: "refines Ld Ab Xp Ud p1 p3"
  proof (cases full)
    case True
    obtain p2 w1 where c: "confirmAbsent E listedAll p1 w = (p2, w1)" by fastforce
    have "refines Ld Ab Xp Ud p1 p2" using confirmAbsent_refines(1) [OF c I] Ab True by blast
    with m c True show ?thesis using refines_trans [OF _ pruneAfterFull_refines] by auto
  qed (use m in \<open>simp add: refines_refl\<close>)
  have r13: "refines Ld Ab Xp Ud p p3" by (rule refines_trans [OF r1 r3])
  with good have cf: "conf p3 = conf p" by (simp add: refines_def)
  then have "expiredAt p3 t0 = expiredAt p t0" by (simp add: conf_def expiredAt_def fun_eq_iff)
  with Xp have r4: "refines Ld Ab Xp Ud p3 (sweepExpired t0 p3)" by (intro sweepExpired_refines) simp
  let ?p4 = "sweepExpired t0 p3"
  obtain p5 w3 where g: "(if full \<and> p_maintenance ?p4 then gc E undos ?p4 w2 else (?p4, w2)) = (p5, w3)"
    by fastforce
  then have r5: "refines Ld Ab Xp Ud ?p4 p5" by (auto split: if_splits intro: gc_refines refines_refl)
  note unf = t [unfolded syncTail_def Let_def, folded p1_def, unfolded m prod.case g]
  have "p_s p' = p_s p5 \<and> conf p' = conf p5 \<and> p_undoSeen p' = p_undoSeen p5"
    using unf by (auto simp: publishUnreadable_def markSynced_def conf_def split: if_splits prod.splits)
  then have r6: "refines Ld Ab Xp Ud p5 p'" by (intro refines_same) auto
  show "refines Ld Ab Xp Ud p p'"
    by (rule refines_trans [OF r13 refines_trans [OF r4 refines_trans [OF r5 r6]]])
qed

text \<open>What a sync does after a listing that succeeded.\<close>

lemma sync_cases:
  assumes "sync E ff p w = (r, p', w')"
  obtains (list_error) err where "p' = p" "r = Some (ListErr err)"
  | (ctx_error) err again p1 w1 where
      "retryBad (map lk_key (listedOf (p_prefix p) kindDefinition (syncKeys E ff p w))) p = (again, p1)"
      "learnDefinitions E (listedOf (p_prefix p) kindDefinition (syncKeys E ff p w) @ again) p1 w1 = (Some err, p', w')"
      "r = Some (CtxErr err)"
  | (listed) again p1 w1 p2 w2 w0 where
      "w0 = snd (pod_now E w)"
      "be_list E (p_prefix p) (if syncFull (syncTime E w) ff p then []
         else startAfterKey (p_prefix p) (syncTime E w - pollWindow)) w0 = ((syncKeys E ff p w, None), w1)"
      "retryBad (map lk_key (listedOf (p_prefix p) kindDefinition (syncKeys E ff p w))) p = (again, p1)"
      "learnDefinitions E (listedOf (p_prefix p) kindDefinition (syncKeys E ff p w) @ again) p1 w1 = (None, p2, w2)"
      "syncTail E (syncFull (syncTime E w) ff p) (syncTime E w)
         (listedOf (p_prefix p) kindDefinition (syncKeys E ff p w) @ again)
         (listedOf (p_prefix p) kindUndo (syncKeys E ff p w))
         (filter (\<lambda>k. parseKey (p_prefix p) k \<noteq> None) (syncKeys E ff p w)) p2 w2 = (r, p', w')"
proof -
  obtain t0 w0 where n: "pod_now E w = (t0, w0)" by fastforce
  define start where "start = (if syncFull t0 ff p then [] else startAfterKey (p_prefix p) (t0 - pollWindow))"
  obtain keys err w1 where l: "be_list E (p_prefix p) start w0 = ((keys, err), w1)" by (metis surj_pair)
  have K: "syncKeys E ff p w = keys" unfolding syncKeys_def syncTime_def n fst_conv snd_conv start_def [symmetric] l ..
  have T: "syncTime E w = t0" by (simp add: syncTime_def n)
  note unf = assms [unfolded sync_def n prod.case Let_def, folded start_def, unfolded l prod.case]
  show thesis
  proof (cases err)
    case (Some e)
    then show ?thesis using unf list_error by auto
  next
    case None
    obtain again p1 where b: "retryBad (map lk_key (listedOf (p_prefix p) kindDefinition keys)) p = (again, p1)"
      by fastforce
    obtain e p2 w2 where d: "learnDefinitions E (listedOf (p_prefix p) kindDefinition keys @ again) p1 w1 = (e, p2, w2)"
      by (metis prod_cases3)
    show ?thesis
    proof (cases e)
      case (Some x)
      then show ?thesis using unf None b d ctx_error [unfolded K] by auto
    next
      case N: None
      show ?thesis
        using unf None b d N l listed [unfolded K T, of w0 w1 again p1 p2 w2]
        by (simp add: n start_def)
    qed
  qed
qed

theorem sync_refines:
  assumes s: "sync E ff p w = (r, p', w')" and I: "reads_keep E I" "I w"
    and Ab: "\<And>key w1. I w1 \<Longrightarrow> fst (be_exists E key w1) = Inr False \<Longrightarrow> syncFull (syncTime E w) ff p
      \<Longrightarrow> \<not> (key \<in> set (syncKeys E ff p w) \<and> parseKey (p_prefix p) key \<noteq> None) \<Longrightarrow> Ab key"
    and Xp: "\<And>t. expiredAt p (syncTime E w) t \<Longrightarrow> Xp t"
    and Ld: "\<And>key. key \<in> set (syncKeys E ff p w) \<or> mhas (p_bad p) key \<Longrightarrow> Ld key"
    and Ud: "\<And>key k. key \<in> set (syncKeys E ff p w) \<Longrightarrow> parseKey (p_prefix p) key = Some k
      \<Longrightarrow> tk_kind k = kindUndo \<Longrightarrow> Ud (definitionKey (p_prefix p) k)"
  shows "refines Ld Ab Xp Ud p p'"
  using s
proof (cases rule: sync_cases)
  case list_error
  then show ?thesis by (simp add: refines_refl)
next
  case (ctx_error err again p1 w1)
  have 1: "refines Ld Ab Xp Ud p p1"
    using retryBad_frame(1) [OF ctx_error(1)] by (intro refines_same) (simp_all add: conf_def)
  have "refines Ld Ab Xp Ud p1 p'"
    using retryBad_frame(1,3) [OF ctx_error(1)] Ld
    by (intro learnDefinitions_refines [OF _ ctx_error(2)]) (auto simp: listedOf_in defListed_def)
  then show ?thesis by (rule refines_trans [OF 1])
next
  case (listed again p1 w1 p2 w2 w0)
  show ?thesis
  proof (rule refinesI)
    assume good: "good Ud p"
    have 1: "refines Ld Ab Xp Ud p p1"
      using retryBad_frame(1) [OF listed(3)] by (intro refines_same) (simp_all add: conf_def)
    have "refines Ld Ab Xp Ud p1 p2"
      using retryBad_frame(1,3) [OF listed(3)] Ld
      by (intro learnDefinitions_refines [OF _ listed(4)]) (auto simp: listedOf_in defListed_def)
    then have 2: "refines Ld Ab Xp Ud p p2" by (rule refines_trans [OF 1])
    then have c: "conf p2 = conf p" using good by (simp add: refines_def)
    have "I w0" using I listed(1) unfolding reads_keep_def by simp
    then have "I w1" using reads_keepD(3) [OF I(1) _ listed(2)] by simp
    then have "I w2" using learnDefinitions_world [OF listed(4) I(1)] by simp
    moreover have "expiredAt p2 t = expiredAt p t" for t using c by (simp add: conf_def expiredAt_def fun_eq_iff)
    ultimately have "refines Ld Ab Xp Ud p2 p'"
      using c by (intro syncTail_refines [OF listed(5) I(1)])
        (auto simp: conf_def listedOf_in intro: Ab Xp Ud)
    then show "refines Ld Ab Xp Ud p p'" by (rule refines_trans [OF 2])
  qed
qed

section \<open>A sync learns what it lists\<close>

definition noev :: "'a \<Rightarrow> bool" where "noev x = False"

text \<open>What is known of a listed definition after it was processed: its id is enforced, it is
  recorded as undecodable, or it is recorded as not read.\<close>

definition settled :: "string \<Rightarrow> string \<Rightarrow> proto \<Rightarrow> bool" where
  "settled i key p \<longleftrightarrow> enforced i key (view (p_s p)) \<or> mhas (p_unreadable p) key \<or> mhas (p_bad p) key"

lemma refines_enforced:
  assumes "refines Ld Ab Xp Ud p p'" "good Ud p" "enforced i key (view (p_s p))" "keyIn S i (view (p_s p))"
    and "\<And>key'. key' \<le> key \<Longrightarrow> S key' \<Longrightarrow> \<not> Ab key'" "\<And>t. t_ID t = i \<Longrightarrow> \<not> Xp t"
    and "\<And>key' k. Ld key' \<Longrightarrow> parseKey (p_prefix p) key' = Some k \<Longrightarrow> tk_id k = i \<Longrightarrow> S key'"
  shows "enforced i key (view (p_s p'))"
proof -
  have wf: "view_wf (view (p_s p))"
    using assms(2) pod_view.look_id by (auto simp: good_def view_wf_def)
  have v: "(vstep (p_prefix p) Ld Ab Xp Ud)\<^sup>*\<^sup>* (view (p_s p)) (view (p_s p'))"
    using assms(1,2) by (simp add: refines_def)
  show ?thesis by (rule vsteps_enforced [OF v assms(3) wf assms(4)]) (rule assms; assumption)+
qed

lemma learning_enforced:
  "refines Ld noev noev Ud p p' \<Longrightarrow> good Ud p \<Longrightarrow> enforced i key (view (p_s p)) \<Longrightarrow> enforced i key (view (p_s p'))"
  by (rule refines_enforced [where S = "\<lambda>_. True"]) (auto simp: keyIn_def noev_def)

lemma learnDecoded_maps:
  "p_unreadable (learnDecoded d ts p) = mdel (lk_key d) (p_unreadable p)
   \<and> p_bad (learnDecoded d ts p) = mdel (lk_key d) (p_bad p)
   \<and> p_gone (learnDecoded d ts p) = p_gone p"
  by (auto simp: learnDecoded_def Let_def clearBad_def applyUndo_def split: option.splits prod.splits if_splits)

lemma learnDecoded_enforces:
  assumes "store_ok (p_s p)" "defListed (p_prefix p) d" "t_ID ts = tk_id (lk_k d)" "good Ud p"
  shows "enforced (tk_id (lk_k d)) (lk_key d) (view (p_s (learnDecoded d ts p)))"
proof (cases "\<exists>cur. view (p_s p) (t_ID ts) = Some cur \<and> e_defKey cur \<noteq> [] \<and> e_defKey cur < lk_key d")
  case True
  have "enforced (tk_id (lk_k d)) (lk_key d) (view (p_s p))" using True assms(3) by (auto simp: enforced_def)
  with learning_enforced [OF learnDecoded_refines [of p d ts "\<lambda>_. True" noev noev Ud] assms(4)] assms(2,3)
  show ?thesis by simp
next
  case False
  define p2 where "p2 = p\<lparr>p_bad := mdel (lk_key d) (p_bad p), p_unreadable := mdel (lk_key d) (p_unreadable p),
     p_s := putLocked \<lparr>e_t = ts, e_defKey = lk_key d, e_undone = False\<rparr> (p_s p),
     p_seeded := removeAll (lk_key d) (p_seeded p)\<rparr>"
  have F: "\<not> (case view (p_s p) (t_ID ts) of None \<Rightarrow> False
      | Some cur \<Rightarrow> e_defKey cur \<noteq> [] \<and> e_defKey cur < lk_key d)"
    using False by (auto split: option.splits)
  have "lk_key d \<noteq> []" using assms(2) format_parse by (fastforce simp: defListed_def formatKey_def split: if_splits)
  then have e2: "enforced (tk_id (lk_k d)) (lk_key d) (view (p_s p2))"
    using assms(1,3) by (simp add: enforced_def p2_def putLocked_ok)
  have ok2: "store_ok (p_s p2)" using assms(1) by (simp add: p2_def putLocked_ok)
  have "\<exists>k ap q. applyUndo k p2 = (ap, q) \<and> p_s (learnDecoded d ts p) = p_s q
      \<or> p_s (learnDecoded d ts p) = p_s p2"
    using F by (auto simp: learnDecoded_def clearBad_def Let_def p2_def split: option.splits prod.splits if_splits)
  then consider (undo) k ap q where "applyUndo k p2 = (ap, q)" "p_s (learnDecoded d ts p) = p_s q"
    | (same) "p_s (learnDecoded d ts p) = p_s p2" by blast
  then show ?thesis
  proof cases
    case undo
    have "refines (\<lambda>_. True) noev noev (\<lambda>_. True) p2 q" by (rule applyUndo_refines [OF undo(1)]) simp
    with learning_enforced [OF this _ e2] ok2 undo(2) show ?thesis by (simp add: good_def)
  qed (use e2 in simp)
qed

text \<open>The object at \<open>key\<close> does not go away while \<open>I\<close> holds.\<close>

definition stays :: "'w env \<Rightarrow> ('w \<Rightarrow> bool) \<Rightarrow> string \<Rightarrow> bool" where
  "stays E I key \<longleftrightarrow> (\<forall>w. I w \<longrightarrow> fst (be_get E key w) \<noteq> Inr None \<and> fst (be_exists E key w) \<noteq> Inr False)"

lemma getThrough_found: "stays E I key \<Longrightarrow> I w \<Longrightarrow> getThrough E key p w = (f, p', w') \<Longrightarrow> f \<noteq> FMissing"
  by (fastforce simp: getThrough_def stays_def split: prod.splits sum.splits option.splits)

lemma fetch_found:
  "fetch E keys p w = (out, p', w') \<Longrightarrow> reads_keep E I \<Longrightarrow> I w \<Longrightarrow> stays E I key \<Longrightarrow> key \<in> set keys
     \<Longrightarrow> \<exists>f. mget out key = Some f \<and> f \<noteq> FMissing"
proof (induction E keys p w arbitrary: out p' w' rule: fetch.induct)
  case (2 E key' keys p w)
  obtain f p1 w1 where g: "(case cacheGet E (p_cache p) key' of
      Some b \<Rightarrow> (FBody b True, p, w) | None \<Rightarrow> getThrough E key' p w) = (f, p1, w1)"
    by (metis prod_cases3)
  obtain o2 p2 w2 where r: "fetch E keys p1 w1 = (o2, p2, w2)" by (metis prod_cases3)
  have "I w1" using g "2.prems" by (auto split: option.splits intro: getThrough_world)
  moreover have "key = key' \<Longrightarrow> f \<noteq> FMissing"
    using g "2.prems" by (auto split: option.splits dest: getThrough_found)
  moreover have "out = mput key' f o2" using "2.prems"(1) g r by auto
  ultimately show ?case using "2.IH" [OF g [symmetric] refl r] "2.prems" by (auto simp: go_map)
qed simp

lemma learnBody_settles:
  assumes "defListed (p_prefix p) d" "good Ud p"
  shows "settled (tk_id (lk_k d)) (lk_key d) (learnBody E d b p)"
  using assms by (auto simp: learnBody_def settled_def markUnreadable_def go_map good_def decodeFor_id
      split: sum.splits intro!: learnDecoded_enforces)

lemma learnOne_settles:
  assumes "learnOne E d f p w = (p', w')" "defListed (p_prefix p) d" "good Ud p"
    and "f \<noteq> FMissing" "stays E I (lk_key d)" "I w"
  shows "settled (tk_id (lk_k d)) (lk_key d) p'"
proof (cases "\<exists>b err. f = FBody b True \<and> decodeFor E (lk_k d) b = Inl err")
  case True
  then obtain b err where b: "f = FBody b True" "decodeFor E (lk_k d) b = Inl err" by blast
  obtain f1 p1 w1 where r: "refetch E (lk_key d) p w = (f1, p1, w1)" by (metis prod_cases3)
  then obtain c where c: "p1 = p\<lparr>p_cache := c\<rparr>" by (auto simp: refetch_def dest!: getThrough_frame)
  have "f1 \<noteq> FMissing" using r getThrough_found [OF assms(5,6)] by (auto simp: refetch_def)
  moreover have "good Ud p1" using assms(3) by (simp add: c good_def)
  ultimately show ?thesis
    using assms(1) [unfolded learnOne_def b fetched.case sum.case r prod.case] learnBody_settles [of p1 d Ud E] assms(2)
    by (cases f1) (auto simp: c b markBad_def settled_def go_map)
next
  case False
  have dec: "decodeFor E (lk_k d) b = Inr ts \<Longrightarrow> settled (tk_id (lk_k d)) (lk_key d) (learnDecoded d ts p)" for b ts
    using learnDecoded_enforces [of p d ts Ud] assms(2,3) by (simp add: settled_def good_def decodeFor_id)
  show ?thesis using False assms(1,4) dec
    by (cases f) (auto simp: learnOne_def markBad_def markUnreadable_def settled_def go_map split: sum.splits if_splits)
qed

lemma learnOne_other:
  assumes "learnOne E d f p w = (p', w')" "lk_key d \<noteq> key" "defListed (p_prefix p) d" "good Ud p" "settled i key p"
  shows "settled i key p'"
proof -
  have r: "refines (\<lambda>_. True) noev noev Ud p p'" by (rule learnOne_refines [OF assms(3,1)]) simp
  have maps: "mhas (p_unreadable p') key = mhas (p_unreadable p) key \<and> mhas (p_bad p') key = mhas (p_bad p) key"
    using assms(1,2)
    by (auto simp: learnOne_def learnBody_def markBad_def clearBad_def markUnreadable_def learnDecoded_maps go_map
        refetch_def split: fetched.splits sum.splits if_splits prod.splits dest!: getThrough_frame)
  show ?thesis
    using assms(5) maps learning_enforced [OF r assms(4), of i key] by (auto simp: settled_def)
qed

lemma learnLoop_settles:
  assumes "learnLoop E got ds p w = (p', w')" "\<forall>d \<in> set ds. defListed (p_prefix p) d" "good Ud p"
    and "reads_keep E I" "I w" "stays E I key"
    and "\<exists>f. mget got key = Some f \<and> f \<noteq> FMissing"
    and "parseKey (p_prefix p) key = Some k"
    and "key \<in> lk_key ` set ds \<or> settled (tk_id k) key p"
  shows "settled (tk_id k) key p'"
  using assms
proof (induction E got ds p w arbitrary: p' w' rule: learnLoop.induct)
  case (2 E got d ds p w)
  define f where "f = (case mget got (lk_key d) of None \<Rightarrow> FMissing | Some f \<Rightarrow> f)"
  obtain p1 w1 where one: "learnOne E d f p w = (p1, w1)" by fastforce
  have dl: "defListed (p_prefix p) d" using "2.prems"(2) by simp
  have r: "refines (\<lambda>_. True) noev noev Ud p p1" by (rule learnOne_refines [OF dl one]) simp
  have g1: "good Ud p1" "p_prefix p1 = p_prefix p" using refines_prefix [OF "2.prems"(3) r] by auto
  have I1: "I w1" using learnOne_world [OF one] "2.prems" by blast
  have s1: "key \<in> lk_key ` set ds \<or> settled (tk_id k) key p1"
  proof (cases "lk_key d = key")
    case True
    then have "lk_k d = k" using dl "2.prems"(8) by (simp add: defListed_def)
    moreover have "f \<noteq> FMissing" using "2.prems"(7) True by (auto simp: f_def)
    ultimately show ?thesis using learnOne_settles [OF one dl "2.prems"(3), of I] "2.prems"(5,6) True by auto
  next
    case False
    then show ?thesis using "2.prems"(9) learnOne_other [OF one False dl "2.prems"(3)] by auto
  qed
  show ?case
    using "2.IH" [OF one [unfolded f_def, symmetric], of p' w'] "2.prems" g1 I1 s1 one
    by (auto simp: f_def)
qed auto

lemma learnDefinitions_settles:
  assumes l: "learnDefinitions E defs p w = (err, p', w')" and D: "\<forall>d \<in> set defs. defListed (p_prefix p) d"
    and g: "good Ud p" and I: "reads_keep E I" "I w" "stays E I (lk_key d)" and d: "d \<in> set defs"
  shows "settled (tk_id (lk_k d)) (lk_key d) p' \<or> lk_key d \<in> set (p_gone p)"
proof (cases "needsRead p d")
  case False
  have ne: "lk_key d \<noteq> []"
    using D d format_parse by (fastforce simp: defListed_def formatKey_def split: if_splits)
  have "lk_key d \<in> set (p_gone p) \<or> enforced (tk_id (lk_k d)) (lk_key d) (view (p_s p))"
    using False ne by (auto simp: needsRead_def enforced_def split: option.splits if_splits)
  moreover have "refines (\<lambda>_. True) noev noev Ud p p'" by (rule learnDefinitions_refines [OF _ l]) (simp add: D)
  ultimately show ?thesis using learning_enforced [OF _ g] by (auto simp: settled_def)
next
  case True
  let ?need = "filter (needsRead p) defs"
  have ne: "?need \<noteq> []" "lk_key d \<in> set (map lk_key ?need)" using True d by (auto simp: filter_empty_conv)
  obtain got p1 w1 where f: "fetch E (map lk_key ?need) p w = (got, p1, w1)" by (metis prod_cases3)
  obtain p2 w2 where lo: "learnLoop E got ?need p1 w1 = (p2, w2)" by fastforce
  obtain c where c: "p1 = p\<lparr>p_cache := c\<rparr>" using fetch_frame [OF f] by blast
  have "p' = p2" using l ne(1) by (auto simp: learnDefinitions_def Let_def f lo split: prod.splits)
  moreover have "settled (tk_id (lk_k d)) (lk_key d) p2"
    using D d g ne(2) fetch_found [OF f I ne(2)] fetch_world [OF f I(1,2)] I
    by (intro learnLoop_settles [OF lo, of Ud I]) (auto simp: c good_def defListed_def)
  ultimately show ?thesis by simp
qed

lemma learnUndo_maps:
  "p_bad (learnUndos us p) = p_bad p \<and> p_unreadable (learnUndos us p) = p_unreadable p"
  unfolding learnUndos_def
proof (induction us arbitrary: p)
  case (Cons u us)
  have "p_bad (learnUndo u p) = p_bad p \<and> p_unreadable (learnUndo u p) = p_unreadable p"
    by (auto simp: learnUndo_def Let_def applyUndo_def split: option.splits)
  with Cons show ?case by simp
qed simp

lemma confirmAbsent_maps:
  "confirmAbsent E l p w = (p', w') \<Longrightarrow> p_bad p' = p_bad p \<and> p_unreadable p' = p_unreadable p"
  by (auto simp: confirmAbsent_def Let_def split: prod.splits option.splits if_splits)

lemma sweepExpired_maps:
  "p_bad (sweepExpired now p) = p_bad p \<and> p_unreadable (sweepExpired now p) = p_unreadable p"
proof -
  have "p_bad (fold noteGone gs q) = p_bad q \<and> p_unreadable (fold noteGone gs q) = p_unreadable q" for gs q
    by (induction gs arbitrary: q) (simp_all add: noteGone_def)
  then show ?thesis by (simp add: sweepExpired_def Let_def split: option.split)
qed

lemma gcLoop_maps:
  "gcLoop E undos n es p w = (p', w') \<Longrightarrow> p_bad p' = p_bad p \<and> p_unreadable p' = p_unreadable p"
proof (induction es arbitrary: n p w)
  case (Cons x es)
  obtain i dk where x: "x = (i, dk)" by fastforce
  obtain ce w1 where ce: "ctx_err E w = (ce, w1)" by fastforce
  obtain dn c w2 where k: "gcKeys E (undosOf (p_prefix p) undos dk @ [dk]) (p_cache p) w1 = (dn, c, w2)"
    by (metis prod_cases3)
  show ?case
    using Cons.IH Cons.prems
    by (cases "n \<ge> gcBatch \<or> ce \<noteq> None") (fastforce simp: x ce k Let_def split: if_splits)+
qed simp

lemma syncTail_maps:
  assumes "syncTail E full t0 defs undos listed p w = (r, p', w')"
  shows "p_bad p' = p_bad p"
    "p_unreadable p' = (if full then filter (\<lambda>(k, u). k \<in> set listed) (p_unreadable p) else p_unreadable p)"
    "p_unreadableSnapshot p' = p_unreadable p'" "r = None \<longleftrightarrow> p_bad p' = []"
    "r = None \<Longrightarrow> p_synced p'"
proof -
  define p1 where "p1 = learnUndos undos p"
  obtain p3 w2 where m: "(if full then (case confirmAbsent E listed p1 w of
      (p2, w1) \<Rightarrow> (pruneAfterFull defs listed t0 p2, w1)) else (p1, w)) = (p3, w2)" by fastforce
  then have 3: "p_bad p3 = p_bad p" "p_unreadable p3 =
      (if full then filter (\<lambda>(k, u). k \<in> set listed) (p_unreadable p) else p_unreadable p)"
    by (auto simp: p1_def learnUndo_maps pruneAfterFull_def Let_def split: if_splits prod.splits
        dest!: confirmAbsent_maps)
  let ?p4 = "sweepExpired t0 p3"
  obtain p5 w3 where g: "(if full \<and> p_maintenance ?p4 then gc E undos ?p4 w2 else (?p4, w2)) = (p5, w3)"
    by fastforce
  then have 5: "p_bad p5 = p_bad p3 \<and> p_unreadable p5 = p_unreadable p3"
    by (auto simp: gc_def sweepExpired_maps split: if_splits dest!: gcLoop_maps)
  note unf = assms [unfolded syncTail_def Let_def, folded p1_def, unfolded m prod.case g]
  show "p_bad p' = p_bad p"
    "p_unreadable p' = (if full then filter (\<lambda>(k, u). k \<in> set listed) (p_unreadable p) else p_unreadable p)"
    "p_unreadableSnapshot p' = p_unreadable p'" "r = None \<longleftrightarrow> p_bad p' = []" "r = None \<Longrightarrow> p_synced p'"
    using unf 3 5 by (auto simp: publishUnreadable_def markSynced_def split: if_splits prod.splits)
qed

text \<open>The keys under which a sync can hold the id \<open>i\<close>.\<close>

definition knownKey :: "'w env \<Rightarrow> bool \<Rightarrow> proto \<Rightarrow> 'w \<Rightarrow> string \<Rightarrow> string \<Rightarrow> bool" where
  "knownKey E ff p w i key \<longleftrightarrow>
     (\<exists>e. view (p_s p) i = Some e \<and> e_defKey e = key)
     \<or> (key \<in> set (syncKeys E ff p w) \<or> mhas (p_bad p) key) \<and> (\<exists>k. parseKey (p_prefix p) key = Some k \<and> tk_id k = i)"

lemma knownKey_in: "keyIn (knownKey E ff p w i) i (view (p_s p))"
  by (auto simp: keyIn_def knownKey_def)

lemma refines_keyIn:
  assumes "refines Ld Ab Xp Ud p p'" "good Ud p" "keyIn S i (view (p_s p))"
    and "\<And>key' k. Ld key' \<Longrightarrow> parseKey (p_prefix p) key' = Some k \<Longrightarrow> tk_id k = i \<Longrightarrow> S key'"
  shows "keyIn S i (view (p_s p'))"
proof -
  have v: "(vstep (p_prefix p) Ld Ab Xp Ud)\<^sup>*\<^sup>* (view (p_s p)) (view (p_s p'))"
    using assms(1,2) by (simp add: refines_def)
  show ?thesis
  proof (rule vsteps_invariant [where P = "keyIn S i", OF v assms(3)])
    fix a b assume "vstep (p_prefix p) Ld Ab Xp Ud a b" "keyIn S i a"
    then show "keyIn S i b" using assms(4) by (rule vstep_keyIn)
  qed
qed

theorem sync_keeps:
  assumes s: "sync E ff p w = (r, p', w')" and ok: "store_ok (p_s p)" and I: "reads_keep E I" "I w"
    and there: "\<And>key'. key' \<le> key \<Longrightarrow> knownKey E ff p w i key' \<Longrightarrow> stays E I key'"
    and fresh: "\<And>t. t_ID t = i \<Longrightarrow> \<not> expiredAt p (syncTime E w) t"
    and e: "enforced i key (view (p_s p))"
  shows "enforced i key (view (p_s p'))"
proof -
  define Ab where "Ab = (\<lambda>key. \<exists>w. I w \<and> fst (be_exists E key w) = Inr False)"
  define Ld where "Ld = (\<lambda>key. key \<in> set (syncKeys E ff p w) \<or> mhas (p_bad p) key)"
  have r: "refines Ld Ab (expiredAt p (syncTime E w)) (\<lambda>_. True) p p'"
    by (rule sync_refines [OF s I]) (auto simp: Ab_def Ld_def)
  have "good (\<lambda>_. True) p" using ok by (simp add: good_def)
  then show ?thesis
    using there fresh by (intro refines_enforced [OF r _ e knownKey_in])
      (auto simp: Ab_def Ld_def stays_def knownKey_def)
qed

theorem sync_learns:
  assumes s: "sync E ff p w = (None, p', w')" and ok: "store_ok (p_s p)"
    and I: "reads_keep E I" "I w"
    and there: "\<And>key'. key' \<le> key \<Longrightarrow> knownKey E ff p w (tk_id k) key' \<Longrightarrow> stays E I key'"
    and listed: "key \<in> set (syncKeys E ff p w)" "parseKey (p_prefix p) key = Some k" "tk_kind k = kindDefinition"
    and fresh: "\<And>t. t_ID t = tk_id k \<Longrightarrow> \<not> expiredAt p (syncTime E w) t"
  shows "enforced (tk_id k) key (view (p_s p')) \<or> mhas (p_unreadableSnapshot p') key \<or> key \<in> set (p_gone p)"
  using s
proof (cases rule: sync_cases)
  case (listed again p1 w1 p2 w2 w0)
  define Ud where "Ud = (\<lambda>_ :: string. True)"
  define Ld where "Ld = (\<lambda>key. key \<in> set (syncKeys E ff p w) \<or> mhas (p_bad p) key)"
  let ?d = "\<lparr>lk_key = key, lk_k = k\<rparr>" and ?S = "knownKey E ff p w (tk_id k)"
  let ?defs = "listedOf (p_prefix p) kindDefinition (syncKeys E ff p w) @ again"
  note p1 = retryBad_frame(1) [OF listed(3)]
  have D: "\<forall>d \<in> set ?defs. defListed (p_prefix p1) d \<and> Ld (lk_key d)"
    using retryBad_frame(3) [OF listed(3)] by (auto simp: listedOf_in defListed_def p1 Ld_def)
  have g1: "good Ud p1" using ok by (simp add: good_def Ud_def p1)
  have "I w0" using I listed(1) unfolding reads_keep_def by simp
  then have I1: "I w1" using reads_keepD(3) [OF I(1) _ listed(2)] by simp
  have d: "?d \<in> set ?defs" using assms(6-8) by (simp add: listedOf_in)
  have key: "stays E I key" using there assms(6,7) by (auto simp: knownKey_def)
  have s2: "settled (tk_id k) key p2 \<or> key \<in> set (p_gone p)"
    using learnDefinitions_settles [OF listed(4) _ g1 I(1) I1 _ d] D key by (simp add: p1)
  have r2: "refines Ld noev noev Ud p1 p2" by (rule learnDefinitions_refines [OF D listed(4)])
  then have g2: "good Ud p2" and c2: "conf p2 = conf p" using g1 by (auto simp: refines_def p1 conf_def)
  have in2: "keyIn ?S (tk_id k) (view (p_s p2))"
    using knownKey_in [of E ff p w "tk_id k"]
    by (intro refines_keyIn [OF r2 g1]) (auto simp: p1 Ld_def knownKey_def)
  have I2: "I w2" by (rule learnDefinitions_world [OF listed(4) I(1) I1])
  define Ab where "Ab = (\<lambda>key. \<exists>w. I w \<and> fst (be_exists E key w) = Inr False)"
  have rt: "refines noev Ab (expiredAt p (syncTime E w)) Ud p2 p'"
    using c2 by (intro syncTail_refines [OF listed(5) I(1) I2])
      (auto simp: Ab_def Ud_def conf_def expiredAt_def)
  have "p_bad p2 = []" using syncTail_maps(1,4) [OF listed(5)] by simp
  then consider "enforced (tk_id k) key (view (p_s p2))" | "mhas (p_unreadable p2) key" | "key \<in> set (p_gone p)"
    using s2 by (auto simp: settled_def mhas_def)
  then show ?thesis
  proof cases
    case 1
    then show ?thesis
      using refines_enforced [OF rt g2 1 in2] there fresh by (fastforce simp: Ab_def stays_def noev_def)
  next
    case 2
    then have "mhas (p_unreadable p') key"
      using assms(6,7) by (auto simp: syncTail_maps(2) [OF listed(5)] mhas_def mget_filter_key)
    then show ?thesis by (simp add: syncTail_maps(3) [OF listed(5)])
  qed simp
qed simp_all

text \<open>Nothing but an undo key of its own definition ends a delete that is in force.\<close>

theorem sync_not_undone:
  assumes s: "sync E ff p w = (r, p', w')" and ok: "store_ok (p_s p)" and I: "reads_keep E I" "I w"
    and no_undo: "\<And>u k. u \<in> set (syncKeys E ff p w) \<Longrightarrow> parseKey (p_prefix p) u = Some k \<Longrightarrow> tk_kind k = kindUndo
      \<Longrightarrow> definitionKey (p_prefix p) k \<noteq> key"
    and none_waits: "\<not> mhas (p_undoSeen p) key" and n: "not_undone key (view (p_s p))"
  shows "not_undone key (view (p_s p'))"
proof -
  have r: "refines (\<lambda>_. True) (\<lambda>_. True) (\<lambda>_. True) (\<lambda>dk. dk \<noteq> key) p p'"
    by (rule sync_refines [OF s I]) (use no_undo in blast)+
  moreover have "good (\<lambda>dk. dk \<noteq> key) p" using ok none_waits by (auto simp: good_def)
  ultimately have v: "(vstep (p_prefix p) (\<lambda>_. True) (\<lambda>_. True) (\<lambda>_. True) (\<lambda>dk. dk \<noteq> key))\<^sup>*\<^sup>* (view (p_s p)) (view (p_s p'))"
    by (simp add: refines_def)
  show ?thesis by (rule vsteps_invariant [where P = "not_undone key", OF v n]) (auto dest: vstep_not_undone)
qed

end
