(* ===== verification/TombBucket.thy ===== *)
theory TombBucket
  imports TombSync
begin

text \<open>
  The operations of the tombstone protocol that write: \<open>Create\<close>, \<open>UndeleteIf\<close> and the
  retention GC, with what they rely on of the bucket.

  The locale \<open>bucket\<close> is the contract of the \<open>Backend\<close> interface
  (\<open>src/internal/delete/backend.go\<close>): the conditional create, reads and deletes of one
  shared map of objects. It is interpreted on the in-memory bucket that the protocol's own tests run
  against (\<open>src/internal/delete/deletetest/bucket.go\<close>), with its fault injection.
\<close>

section \<open>The contract of a backend\<close>

locale bucket =
  fixes E :: "'w env" and obj :: "'w \<Rightarrow> string \<rightharpoonup> body"
  assumes put_created: "be_put E key b w = (Inr True, w') \<Longrightarrow> obj w key = None \<and> obj w' = (obj w)(key \<mapsto> b)"
    and put_exists: "be_put E key b w = (Inr False, w') \<Longrightarrow> obj w key \<noteq> None \<and> obj w' = obj w"
    and put_failed: "be_put E key b w = (Inl err, w') \<Longrightarrow> obj w' = obj w \<or> obj w' = (obj w)(key \<mapsto> b) \<and> obj w key = None"
    and get_reads: "be_get E key w = (Inr r, w') \<Longrightarrow> r = obj w key"
    and get_frame: "be_get E key w = (g, w') \<Longrightarrow> obj w' = obj w"
    and exists_reads: "be_exists E key w = (Inr x, w') \<Longrightarrow> x \<longleftrightarrow> obj w key \<noteq> None"
    and exists_frame: "be_exists E key w = (ex, w') \<Longrightarrow> obj w' = obj w"
    and list_reads: "be_list E pfx aft w = ((keys, lerr), w') \<Longrightarrow> key \<in> set keys
      \<Longrightarrow> obj w key \<noteq> None \<and> hasPrefix key pfx \<and> aft < key"
    and list_frame: "be_list E pfx aft w = (l, w') \<Longrightarrow> obj w' = obj w"
    and delete_ok: "be_delete E key w = (None, w') \<Longrightarrow> obj w' = (obj w)(key := None)"
    and delete_failed: "be_delete E key w = (Some err, w') \<Longrightarrow> obj w' = obj w \<or> obj w' = (obj w)(key := None)"
    and other_frame: "obj (snd (ctx_err E w)) = obj w" "obj (snd (pod_now E w)) = obj w"
      "obj (snd (mono_now E w)) = obj w"
begin

text \<open>Reading keeps the objects, so an object that is there stays.\<close>

lemma reads_keep_obj: "reads_keep E (\<lambda>w. obj w = m)"
  unfolding reads_keep_def
  by (auto simp: other_frame) (metis exists_frame get_frame list_frame prod.collapse)+

lemma present_stays: "m key \<noteq> None \<Longrightarrow> stays E (\<lambda>w. obj w = m) key"
  unfolding stays_def by (metis exists_reads get_reads prod.collapse)

text \<open>No request overwrites an object: what is at a key stays until it is deleted.\<close>

lemma put_keeps: "be_put E key b w = (r, w') \<Longrightarrow> obj w key' = Some x \<Longrightarrow> obj w' key' = Some x"
proof (cases r)
  case (Inl err)
  assume "be_put E key b w = (r, w')" "obj w key' = Some x"
  then show ?thesis using put_failed [of key b w err w'] Inl by auto
next
  case (Inr c)
  assume "be_put E key b w = (r, w')" "obj w key' = Some x"
  then show ?thesis using put_created [of key b w w'] put_exists [of key b w w'] Inr by (cases c) auto
qed

end

section \<open>The in-memory bucket\<close>

record membucket =
  m_objs :: "(string, body) gomap"
  m_now :: int
  m_skew :: int
  m_shortN :: nat
  m_failOps :: "(string, nat) gomap"
  m_ctx :: "string option"

definition mem_fail :: "string \<Rightarrow> membucket \<Rightarrow> bool \<times> membucket" where
  "mem_fail kind w =
     (case mget (m_failOps w) kind of
        Some (Suc n) \<Rightarrow> (True, w\<lparr>m_failOps := mput kind n (m_failOps w)\<rparr>)
      | _ \<Rightarrow> (False, w))"

definition errInjected :: string where "errInjected = ''deletetest: injected failure''"

definition mem_put :: "string \<Rightarrow> body \<Rightarrow> membucket \<Rightarrow> (string + bool) \<times> membucket" where
  "mem_put key data w0 =
     (case mem_fail ''put'' w0 of
        (True, w) \<Rightarrow> (Inl errInjected, w)
      | (False, w) \<Rightarrow>
          let created = \<not> mhas (m_objs w) key
          in (Inr created, if created then w\<lparr>m_objs := mput key data (m_objs w)\<rparr> else w))"

definition mem_get :: "string \<Rightarrow> membucket \<Rightarrow> (string + body option) \<times> membucket" where
  "mem_get key w0 =
     (case mem_fail ''get'' w0 of
        (True, w) \<Rightarrow> (Inl errInjected, w)
      | (False, w) \<Rightarrow> (Inr (mget (m_objs w) key), w))"

definition mem_exists :: "string \<Rightarrow> membucket \<Rightarrow> (string + bool) \<times> membucket" where
  "mem_exists key w0 =
     (case mem_fail ''head'' w0 of
        (True, w) \<Rightarrow> (Inl errInjected, w)
      | (False, w) \<Rightarrow> (Inr (mhas (m_objs w) key), w))"

definition mem_list :: "string \<Rightarrow> string \<Rightarrow> membucket \<Rightarrow> (string list \<times> string option) \<times> membucket" where
  "mem_list pfx startAfter w0 =
     (case mem_fail ''list'' w0 of
        (True, w) \<Rightarrow> (([], Some errInjected), w)
      | (False, w) \<Rightarrow>
          let keys = sort_slice (<) (filter (\<lambda>k. hasPrefix k pfx \<and> startAfter < k) (mkeys (m_objs w)));
              keys = (if 0 < m_shortN w \<and> m_shortN w < length keys then take (m_shortN w) keys else keys)
          in ((keys, None), w\<lparr>m_shortN := 0\<rparr>))"

definition mem_delete :: "string \<Rightarrow> membucket \<Rightarrow> string option \<times> membucket" where
  "mem_delete key w0 =
     (case mem_fail ''delete'' w0 of
        (True, w) \<Rightarrow> (Some errInjected, w)
      | (False, w) \<Rightarrow> (None, w\<lparr>m_objs := mdel key (m_objs w)\<rparr>))"

definition memEnv :: "filter_engine \<Rightarrow> membucket env" where
  "memEnv q =
     \<lparr>ql = q, cacheName = (\<lambda>key. key @ ''.tomb''), be_put = mem_put, be_get = mem_get,
      be_exists = mem_exists, be_list = mem_list, be_delete = mem_delete,
      ctx_err = (\<lambda>w. (m_ctx w, w)), pod_now = (\<lambda>w. (m_now w + m_skew w, w)), mono_now = (\<lambda>w. (m_now w, w))\<rparr>"

definition mem_obj :: "membucket \<Rightarrow> string \<rightharpoonup> body" where
  "mem_obj w = mget (m_objs w)"

lemma mem_fail_frame: "mem_fail kind w = (b, w') \<Longrightarrow> m_objs w' = m_objs w"
  by (auto simp: mem_fail_def split: option.splits nat.splits)

lemma mem_sel [simp]:
  "be_put (memEnv q) = mem_put" "be_get (memEnv q) = mem_get" "be_exists (memEnv q) = mem_exists"
  "be_list (memEnv q) = mem_list" "be_delete (memEnv q) = mem_delete" "ctx_err (memEnv q) = (\<lambda>w. (m_ctx w, w))"
  "pod_now (memEnv q) = (\<lambda>w. (m_now w + m_skew w, w))" "mono_now (memEnv q) = (\<lambda>w. (m_now w, w))"
  by (simp_all add: memEnv_def)

lemma not_in_mdel: "(k, v) \<notin> set (mdel k m)"
  by (simp add: AList.delete_eq)

interpretation mem: bucket "memEnv q" mem_obj for q
  by unfold_locales
    (auto simp: mem_put_def mem_get_def mem_exists_def mem_list_def mem_delete_def mem_obj_def Let_def
      mhas_def go_map fun_eq_iff split: prod.splits bool.splits if_splits
      dest!: mem_fail_frame in_set_takeD dest: map_of_SomeD
      simp: map_of_eq_None_iff image_iff not_in_mdel)

section \<open>Creating a delete\<close>

lemma sameOrExists_cases:
  "sameOrExists cur want b = Inr t \<longleftrightarrow>
     t = e_t cur \<and> e_defKey cur \<noteq> [] \<and> encodeDefinition ((e_t cur)\<lparr>t_CreatedAt := t_CreatedAt want\<rparr>) = b \<and> \<not> e_undone cur"
  by (auto simp: sameOrExists_def)

lemma encode_CreatedAt [simp]: "encodeDefinition (t\<lparr>t_CreatedAt := x\<rparr>) = encodeDefinition t"
  by (simp add: encodeDefinition_def)

lemma encode_Normalize [simp]:
  "encodeDefinition (t\<lparr>t_Tenants := NormalizeTenants ts\<rparr>) = encodeDefinition (t\<lparr>t_Tenants := ts\<rparr>)"
  by (simp add: encodeDefinition_def)

lemma createAt_ok:
  assumes "createAt E keyNs ts p w = (Inr t, p', w')" "store_ok (p_s p)"
  shows "store_ok (p_s p') \<and> Get (p_s p') (t_ID ts) = Some t \<and> encodeDefinition t = encodeDefinition ts"
proof (cases "view (p_s p) (t_ID ts)")
  case (Some cur)
  then show ?thesis using assms by (auto simp: createAt_def Let_def sameOrExists_cases Get_iff)
next
  case None
  with assms show ?thesis
    by (auto simp: createAt_def Let_def putDefinition_def Get_iff putLocked_ok
        split: prod.splits sum.splits bool.splits option.splits if_splits)
qed

lemma createAt_error: "createAt E keyNs ts p w = (Inl err, p', w') \<Longrightarrow> p' = p"
  by (auto simp: createAt_def Let_def split: prod.splits sum.splits bool.splits option.splits if_splits)

definition defaultMode :: "tombstone \<Rightarrow> tombstone" where
  "defaultMode t = (if t_Mode t = [] then t\<lparr>t_Mode := ''hide''\<rparr> else t)"

lemma Create_cases:
  assumes "Create E ts (Some p) w = (r, po, w')"
  obtains (invalid) e where "r = Inl (Invalid e)" "po = Some p" "w' = w" "Validate (ql E) (defaultMode ts) = Some e"
  | (run) keyNs w1 p' where
      "Validate (ql E) (defaultMode ts) = None" "po = Some p'"
      "(case idTime (t_ID ts) of Some ns \<Rightarrow> (ns, w) | None \<Rightarrow> pod_now E w) = (keyNs, w1)"
      "createAt E keyNs ((defaultMode ts)\<lparr>t_Tenants := NormalizeTenants (t_Tenants ts)\<rparr>) p w1 = (r, p', w')"
proof (cases "Validate (ql E) (defaultMode ts)")
  case (Some e)
  with assms show ?thesis using invalid by (auto simp: Create_def Let_def defaultMode_def split: if_splits)
next
  case None
  have sel: "t_ID (defaultMode ts) = t_ID ts" "t_Tenants (defaultMode ts) = t_Tenants ts"
    by (simp_all add: defaultMode_def)
  obtain keyNs w1 where k: "(case idTime (t_ID ts) of Some ns \<Rightarrow> (ns, w) | None \<Rightarrow> pod_now E w) = (keyNs, w1)"
    by fastforce
  obtain r' p' w2 where c: "createAt E keyNs ((defaultMode ts)\<lparr>t_Tenants := NormalizeTenants (t_Tenants ts)\<rparr>) p w1 = (r', p', w2)"
    by (metis prod_cases3)
  have "(r, po, w') = (r', Some p', w2)"
    using assms None k c by (simp add: Create_def Let_def sel flip: defaultMode_def)
  with None k c show ?thesis by (intro run) auto
qed

lemma Create_success:
  assumes "Create E ts (Some p) w = (Inr t, po, w')" "store_ok (p_s p)"
  shows "\<exists>p'. po = Some p' \<and> store_ok (p_s p') \<and> Get (p_s p') (t_ID ts) = Some t
    \<and> Validate (ql E) (defaultMode ts) = None \<and> encodeDefinition t = encodeDefinition (defaultMode ts)"
  using assms(1)
proof (cases rule: Create_cases)
  case (run keyNs w1 p')
  have "encodeDefinition ((defaultMode ts)\<lparr>t_Tenants := t_Tenants ts\<rparr>) = encodeDefinition (defaultMode ts)"
    "t_ID (defaultMode ts) = t_ID ts" by (simp_all add: defaultMode_def encodeDefinition_def)
  with createAt_ok [OF run(4) assms(2)] run(1,2) show ?thesis by simp
qed simp

lemma Create_failure:
  "Create E ts (Some p) w = (Inl err, po, w') \<Longrightarrow> po = Some p"
  by (erule Create_cases) (auto dest: createAt_error)

text \<open>The key a create writes.\<close>

definition createKey :: "string \<Rightarrow> int \<Rightarrow> string \<Rightarrow> string" where
  "createKey pfx keyNs i =
     formatKey pfx \<lparr>tk_kind = kindDefinition, tk_timeNs = keyNs, tk_id = i, tk_defNs = 0\<rparr>"

context bucket
begin

lemma createAt_durable:
  assumes "createAt E keyNs ts p w = (Inr t, p', w')" "view (p_s p) (t_ID ts) = None"
  shows "obj w' (createKey (p_prefix p) keyNs (t_ID ts)) = Some (encodeDefinition ts)"
proof -
  let ?key = "createKey (p_prefix p) keyNs (t_ID ts)"
  obtain r w1 where pt: "be_put E ?key (encodeDefinition ts) w = (r, w1)" by fastforce
  obtain g w2 where gt: "be_get E ?key w1 = (g, w2)" by fastforce
  note unf = assms(1) [unfolded createAt_def Let_def]
  consider "r = Inr True" "w' = w1" | "r = Inr False" "w' = w2" "g = Inr (Some (encodeDefinition ts))"
    using unf pt gt assms(2) unfolding createKey_def
    by (auto split: sum.splits bool.splits option.splits if_splits)
  then show ?thesis
    using put_created [of ?key _ w w1] get_reads [of ?key w1 _ w2] get_frame [of ?key w1 g w2] pt gt
    by cases auto
qed

lemma createAt_conflict:
  assumes "view (p_s p) (t_ID ts) = None"
    and "obj w (createKey (p_prefix p) keyNs (t_ID ts)) = Some b" "b \<noteq> encodeDefinition ts"
  shows "\<exists>err w'. createAt E keyNs ts p w = (Inl err, p, w')"
proof -
  let ?key = "createKey (p_prefix p) keyNs (t_ID ts)"
  obtain r w1 where pt: "be_put E ?key (encodeDefinition ts) w = (r, w1)" by fastforce
  obtain g w2 where gt: "be_get E ?key w1 = (g, w2)" by fastforce
  have r: "r \<noteq> Inr True" using put_created [of ?key _ w w1] pt assms(2) by auto
  have "r = Inr False \<Longrightarrow> g = Inr x \<Longrightarrow> x = Some b" for x
    using put_exists [of ?key _ w w1] get_reads [of ?key w1 x w2] pt gt assms(2) by auto
  then show ?thesis
    using r pt gt assms(1,3) unfolding createAt_def Let_def createKey_def
    by (auto split: sum.splits bool.splits option.splits)
qed

lemma createAt_keeps:
  assumes "createAt E keyNs ts p w = (r, p', w')" "obj w k = Some x"
  shows "obj w' k = Some x"
  using assms by (auto simp: createAt_def Let_def split: option.splits prod.splits sum.splits bool.splits if_splits
      dest!: get_frame dest: put_keeps)

lemma Create_world:
  assumes "(case idTime i of Some ns \<Rightarrow> (ns, w) | None \<Rightarrow> pod_now E w) = (keyNs, w1)"
  shows "obj w1 = obj w" "keyNs = (case idTime i of Some ns \<Rightarrow> ns | None \<Rightarrow> fst (pod_now E w))"
  using assms other_frame(2) [of w] by (auto split: option.splits)

lemma Create_keeps:
  assumes "Create E ts (Some p) w = (r, po, w')" "obj w k = Some x"
  shows "obj w' k = Some x"
  using assms(1)
proof (cases rule: Create_cases)
  case (run keyNs w1 p')
  then show ?thesis using createAt_keeps [OF run(4)] Create_world(1) [OF run(3)] assms(2) by simp
qed (use assms(2) in simp)

lemma Create_conflict:
  assumes "Create E ts (Some p) w = (r, po, w')" "view (p_s p) (t_ID ts) = None"
    and "obj w (createKey (p_prefix p) (case idTime (t_ID ts) of Some ns \<Rightarrow> ns | None \<Rightarrow> fst (pod_now E w)) (t_ID ts)) = Some b"
    and "b \<noteq> encodeDefinition (defaultMode ts)"
  shows "isl r \<and> po = Some p"
  using assms(1)
proof (cases rule: Create_cases)
  case (run keyNs w1 p')
  let ?ts = "(defaultMode ts)\<lparr>t_Tenants := NormalizeTenants (t_Tenants ts)\<rparr>"
  have i: "t_ID ?ts = t_ID ts" "encodeDefinition ?ts = encodeDefinition (defaultMode ts)"
    by (simp_all add: defaultMode_def encodeDefinition_def)
  note W = Create_world [OF run(3)]
  have "\<exists>err w'. createAt E keyNs ?ts p w1 = (Inl err, p, w')"
    by (rule createAt_conflict [where b = b]) (use assms(2-4) W i in simp_all)
  then show ?thesis using run by (auto simp: isl_def)
qed (simp add: isl_def)

end

section \<open>Undoing a delete\<close>

lemma undoEntry_ok:
  assumes "undoEntry E i e p w = (None, p', w')" "store_ok (p_s p)" "keyed (p_prefix p) (view (p_s p))"
    and "view (p_s p) i = Some e"
  shows "t_Mode (e_t e) = ''hide'' \<and> store_ok (p_s p') \<and> view (p_s p') = (view (p_s p))(i \<mapsto> e\<lparr>e_undone := True\<rparr>)"
proof -
  from assms(1) obtain dk now w1 r where
    h: "e_defKey e \<noteq> []" "t_Mode (e_t e) = ''hide''" "parseKey (p_prefix p) (e_defKey e) = Some dk"
    and p': "p' = snd (applyUndo \<lparr>tk_kind = kindUndo, tk_timeNs = now, tk_id = i, tk_defNs = tk_timeNs dk\<rparr> p)"
    by (auto simp: undoEntry_def Let_def split: if_splits option.splits prod.splits sum.splits)
  obtain r where r: "mget (s_byID (p_s p)) i = Some r" "deref (p_s p) r = e"
    using assms(4) by (auto simp: state_def simp del: map_of_eq_Some_iff)
  have "defListed (p_prefix p) \<lparr>lk_key = e_defKey e, lk_k = dk\<rparr>" "tk_id dk = i"
    using assms(3,4) h by (fastforce simp: keyed_def defListed_def)+
  then have "definitionKey (p_prefix p) \<lparr>tk_kind = kindUndo, tk_timeNs = now, tk_id = i, tk_defNs = tk_timeNs dk\<rparr>
      = e_defKey e"
    using defListed_key by fastforce
  then have "p' = p\<lparr>p_s := markUndoneLocked r (p_s p)\<rparr>" using r h by (simp add: p' applyUndo_def)
  then show ?thesis using markUndoneLocked_ok [OF assms(2) r(1)] r(2) h(2) by simp
qed

lemma undoEntry_irreversible:
  "e_defKey e \<noteq> [] \<Longrightarrow> t_Mode (e_t e) \<noteq> ''hide'' \<Longrightarrow> undoEntry E i e p w = (Some ErrNotReversible, p, w)"
  by (simp add: undoEntry_def)

lemma UndeleteIf_known:
  "view (p_s p) i = Some e \<Longrightarrow> UndeleteIf E i allow (Some p) w =
     (if (case allow of None \<Rightarrow> False | Some f \<Rightarrow> \<not> f (e_t e)) then (Some ErrTombstoneNotFound, Some p, w)
      else case undoEntry E i e p w of (err, p2, w2) \<Rightarrow> (err, Some p2, w2))"
  by (simp add: UndeleteIf_def)

section \<open>Retention GC\<close>

text \<open>The keys the GC may delete: the definition keys of the tombstones that left the view by
  retention, and the listed undo keys of these.\<close>

definition gcTargets :: "string \<Rightarrow> listedKey list \<Rightarrow> (string \<times> string) list \<Rightarrow> string set" where
  "gcTargets pfx undos es = (\<Union>(i, dk) \<in> set es. insert dk (set (undosOf pfx undos dk)))"

lemma gcKeys_world:
  assumes "gcKeys E keys c w = (dn, c', w')" "J w"
    and "\<And>key w. key \<in> set keys \<Longrightarrow> J w \<Longrightarrow> J (snd (be_delete E key w))"
  shows "J w'"
  using assms
proof (induction E keys c w rule: gcKeys.induct)
  case (2 E key keys c w)
  obtain r w1 where d: "be_delete E key w = (r, w1)" by fastforce
  then have "J w1" using "2.prems"(3) [of key w] "2.prems"(2) by simp
  with 2 d show ?case by (cases r) auto
qed simp

lemma gcLoop_world:
  assumes "gcLoop E undos n es p w = (p', w')" "J w"
    and "\<And>key w. key \<in> gcTargets (p_prefix p) undos es \<Longrightarrow> J w \<Longrightarrow> J (snd (be_delete E key w))"
    and "\<And>w. J w \<Longrightarrow> J (snd (ctx_err E w))"
  shows "J w'"
  using assms
proof (induction es arbitrary: n p w)
  case (Cons x es)
  obtain i dk where x: "x = (i, dk)" by fastforce
  obtain ce w1 where ce: "ctx_err E w = (ce, w1)" by fastforce
  have J1: "J w1" using Cons.prems(2,4) ce by (metis snd_conv)
  obtain dn c w2 where k: "gcKeys E (undosOf (p_prefix p) undos dk @ [dk]) (p_cache p) w1 = (dn, c, w2)"
    by (metis prod_cases3)
  have J2: "J w2" using Cons.prems(3) by (intro gcKeys_world [where J = J, OF k J1]) (auto simp: gcTargets_def x)
  show ?case
  proof (cases "n \<ge> gcBatch \<or> ce \<noteq> None")
    case True
    then show ?thesis using Cons.prems(1,2) J1 by (auto simp: x ce split: if_splits)
  next
    case False
    then obtain q where "gcLoop E undos (Suc n) es q w2 = (p', w')" "p_prefix q = p_prefix p"
      using Cons.prems(1) by (auto simp: x ce k Let_def split: if_splits)
    then show ?thesis using Cons.IH [of "Suc n" q w2] J2 Cons.prems(3,4) by (auto simp: gcTargets_def)
  qed
qed simp

text \<open>The undo keys go first and the definition last: the requests a pass sends for one tombstone
  are a beginning of that sequence, and the tombstone is done only when all of it succeeded.\<close>

lemma gcKeys_in_order:
  "gcKeys E keys c w = (dn, c', w') \<Longrightarrow>
     \<exists>n. w' = fold (\<lambda>key w. snd (be_delete E key w)) (take n keys) w \<and> (dn \<longrightarrow> n = length keys)"
proof (induction E keys c w rule: gcKeys.induct)
  case (2 E key keys c w)
  obtain r w1 where d: "be_delete E key w = (r, w1)" by fastforce
  show ?case
  proof (cases r)
    case None
    then obtain n where "w' = fold (\<lambda>key w. snd (be_delete E key w)) (take n keys) w1" "dn \<longrightarrow> n = length keys"
      using 2 d by auto
    then show ?thesis using d by (intro exI [of _ "Suc n"]) auto
  next
    case (Some err)
    then show ?thesis using "2.prems" d by (intro exI [of _ 1]) auto
  qed
qed simp

section \<open>The gate\<close>

lemma gateCheck_open:
  "gateCheck now p tenants = None \<longleftrightarrow>
     (\<exists>g. p_lastGood p = Some g \<and> now - g \<le> staleAfter * p_interval p) \<and> \<not> closedFor p tenants"
  by (auto simp: gateCheck_def viewAge_def split: option.splits)

text \<open>An undecodable definition closes the gate for each tenant it names, and for every tenant
  when it names none.\<close>

lemma closedFor_unreadable:
  assumes "mget (p_unreadableSnapshot p) key = Some u"
    and "u_all u \<or> tenants = [] \<or> (\<exists>t \<in> set tenants. t \<in> set (u_tenants u))"
  shows "closedFor p tenants"
  using assms map_of_SomeD unfolding closedFor_def by fastforce

section \<open>Earlier definitions win in any order\<close>

definition learnAll :: "(listedKey \<times> tombstone) list \<Rightarrow> proto \<Rightarrow> proto" where
  "learnAll ds p = fold (\<lambda>(d, ts). learnDecoded d ts) ds p"

lemma learnDecoded_view:
  assumes "store_ok (p_s p)" "p_undoSeen p = []"
  shows "store_ok (p_s (learnDecoded d ts p)) \<and> p_undoSeen (learnDecoded d ts p) = []
    \<and> view (p_s (learnDecoded d ts p)) =
        (if (case view (p_s p) (t_ID ts) of None \<Rightarrow> False | Some cur \<Rightarrow> e_defKey cur \<noteq> [] \<and> e_defKey cur < lk_key d)
         then view (p_s p)
         else (view (p_s p))(t_ID ts \<mapsto> \<lparr>e_t = ts, e_defKey = lk_key d, e_undone = False\<rparr>))"
proof (cases "case view (p_s p) (t_ID ts) of None \<Rightarrow> False | Some cur \<Rightarrow> e_defKey cur \<noteq> [] \<and> e_defKey cur < lk_key d")
  case True
  with assms show ?thesis by (simp add: learnDecoded_def clearBad_def Let_def)
next
  case False
  with assms show ?thesis by (simp add: learnDecoded_def clearBad_def Let_def putLocked_ok)
qed

text \<open>What one id is after its definitions were learned: the one with the least key.\<close>

definition least :: "(listedKey \<times> tombstone) set \<Rightarrow> listedKey \<times> tombstone \<Rightarrow> bool" where
  "least S dt \<longleftrightarrow> dt \<in> S \<and> (\<forall>dt' \<in> S. lk_key (fst dt) \<le> lk_key (fst dt'))"

lemma learnAll_least:
  assumes "store_ok (p_s p)" "p_undoSeen p = []"
    and "\<forall>(d, ts) \<in> set ds. t_ID ts = i \<and> lk_key d \<noteq> []"
    and "inj_on (\<lambda>(d, ts). lk_key d) (insert dt0 (set ds))"
    and "view (p_s p) i = Some \<lparr>e_t = snd dt0, e_defKey = lk_key (fst dt0), e_undone = False\<rparr>" "lk_key (fst dt0) \<noteq> []"
  shows "\<exists>dt. least (insert dt0 (set ds)) dt
    \<and> view (p_s (learnAll ds p)) i = Some \<lparr>e_t = snd dt, e_defKey = lk_key (fst dt), e_undone = False\<rparr>"
  using assms
proof (induction ds arbitrary: p dt0)
  case Nil
  then show ?case by (auto simp: learnAll_def least_def)
next
  case (Cons x ds)
  obtain d ts where x: "x = (d, ts)" by fastforce
  define p1 where "p1 = learnDecoded d ts p"
  note v = learnDecoded_view [OF Cons.prems(1,2), of d ts, folded p1_def]
  have i: "t_ID ts = i" "lk_key d \<noteq> []" using Cons.prems(3) by (auto simp: x)
  have run: "learnAll (x # ds) p = learnAll ds p1" by (simp add: learnAll_def x p1_def)
  define dt1 where "dt1 = (if lk_key (fst dt0) < lk_key d then dt0 else (d, ts))"
  have v1: "view (p_s p1) i = Some \<lparr>e_t = snd dt1, e_defKey = lk_key (fst dt1), e_undone = False\<rparr>"
    using v Cons.prems(5,6) i by (auto simp: dt1_def)
  have inj1: "inj_on (\<lambda>(d, ts). lk_key d) (insert dt1 (set ds))"
    using Cons.prems(4) by (rule inj_on_subset) (auto simp: dt1_def x)
  have pre: "\<forall>(d, ts) \<in> set ds. t_ID ts = i \<and> lk_key d \<noteq> []" using Cons.prems(3) by simp
  have ne: "lk_key (fst dt1) \<noteq> []" using Cons.prems(6) i(2) by (simp add: dt1_def)
  from Cons.IH [OF _ _ pre inj1 v1 ne] v obtain dt where dt: "least (insert dt1 (set ds)) dt"
    "view (p_s (learnAll ds p1)) i = Some \<lparr>e_t = snd dt, e_defKey = lk_key (fst dt), e_undone = False\<rparr>"
    by blast
  have "least (insert dt0 (set (x # ds))) dt"
    using dt(1) unfolding least_def dt1_def x by (auto split: if_splits)
  with dt(2) run show ?case by metis
qed

lemma least_unique:
  "inj_on (\<lambda>(d, ts). lk_key d) S \<Longrightarrow> least S a \<Longrightarrow> least S b \<Longrightarrow> a = b"
  unfolding least_def inj_on_def case_prod_beta by (metis order_antisym)

lemma learnAll_order:
  assumes "store_ok (p_s p)" "p_undoSeen p = []" "view (p_s p) i = None" "store_ok (p_s q)" "p_undoSeen q = []"
    and "view (p_s q) i = None" "set ds = set es"
    and "\<forall>(d, ts) \<in> set ds. t_ID ts = i \<and> lk_key d \<noteq> []" "inj_on (\<lambda>(d, ts). lk_key d) (set ds)"
  shows "view (p_s (learnAll ds p)) i = view (p_s (learnAll es q)) i"
proof -
  have one: "\<exists>dt. least (set ls) dt \<and> view (p_s (learnAll ls r)) i
      = Some \<lparr>e_t = snd dt, e_defKey = lk_key (fst dt), e_undone = False\<rparr>"
    if "store_ok (p_s r)" "p_undoSeen r = []" "view (p_s r) i = None" "set ls = set ds" "ls \<noteq> []" for ls r
  proof -
    note hyp = that
    obtain d ts rest where ls: "ls = (d, ts) # rest" using hyp(5) by (cases ls) auto
    note v = learnDecoded_view [OF hyp(1,2), of d ts]
    have "(d, ts) \<in> set ds" using hyp(4) ls by auto
    then have d: "t_ID ts = i \<and> lk_key d \<noteq> []" using assms(8) by auto
    have "\<exists>dt. least (insert (d, ts) (set rest)) dt \<and> view (p_s (learnAll rest (learnDecoded d ts r))) i
        = Some \<lparr>e_t = snd dt, e_defKey = lk_key (fst dt), e_undone = False\<rparr>"
      using v d hyp assms(8,9) ls by (intro learnAll_least) auto
    then show ?thesis by (simp add: ls learnAll_def)
  qed
  show ?thesis
  proof (cases "ds = []")
    case True
    then have "es = []" using assms(7) by simp
    with True assms(3,6) show ?thesis by (simp add: learnAll_def)
  next
    case False
    then have "es \<noteq> []" using assms(7) by auto
    with False one [of p ds] one [of q es] assms least_unique [OF assms(9)] show ?thesis by metis
  qed
qed

section \<open>A pod's view is well formed at every moment\<close>

definition proto_inv :: "proto \<Rightarrow> bool" where
  "proto_inv p \<longleftrightarrow> store_ok (p_s p) \<and> hide_only (view (p_s p)) \<and> keyed (p_prefix p) (view (p_s p))"

text \<open>The pod's clock gives times a key can carry.\<close>

definition clock_ok :: "'w env \<Rightarrow> bool" where
  "clock_ok E \<longleftrightarrow> (\<forall>w. 0 < fst (pod_now E w) \<and> fst (pod_now E w) \<le> max_int64)"

lemma idTime_range: "idTime i = Some ns \<Longrightarrow> 0 < ns \<and> ns \<le> max_int64"
  unfolding idTime_def Let_def max_int64_def by (fastforce split: if_splits option.splits)

lemma refines_inv: "refines Ld Ab Xp (\<lambda>_. True) p p' \<Longrightarrow> proto_inv p \<Longrightarrow> proto_inv p'"
proof -
  assume r: "refines Ld Ab Xp (\<lambda>_. True) p p'" and i: "proto_inv p"
  then have ok: "store_ok (p_s p')" "p_prefix p' = p_prefix p"
    and v: "(vstep (p_prefix p) Ld Ab Xp (\<lambda>_. True))\<^sup>*\<^sup>* (view (p_s p)) (view (p_s p'))"
    by (auto simp: refines_def good_def proto_inv_def conf_def)
  have "hide_only (view (p_s p'))"
    using i by (intro vsteps_invariant [where P = hide_only, OF v]) (auto simp: proto_inv_def intro: vstep_hide_only)
  moreover have "keyed (p_prefix p) (view (p_s p'))"
    using i by (intro vsteps_invariant [where P = "keyed (p_prefix p)", OF v])
      (auto simp: proto_inv_def intro: vstep_keyed)
  ultimately show ?thesis using ok by (simp add: proto_inv_def)
qed

lemma sync_inv: "sync E ff p w = (r, p', w') \<Longrightarrow> proto_inv p \<Longrightarrow> proto_inv p'"
  using refines_inv [OF sync_refines [where I = "\<lambda>_. True" and Ld = "\<lambda>_. True" and Ab = "\<lambda>_. True" and Xp = "\<lambda>_. True"
      and Ud = "\<lambda>_. True"]]
  by (simp add: reads_keep_def)

lemma put_inv:
  assumes "proto_inv p" "parseKey (p_prefix p) key = Some k" "tk_kind k = kindDefinition" "tk_id k = t_ID ts"
  shows "proto_inv (p\<lparr>p_s := putLocked \<lparr>e_t = ts, e_defKey = key, e_undone = False\<rparr> (p_s p)\<rparr>)"
  using assms by (auto simp: proto_inv_def putLocked_ok hide_only_def keyed_def)

lemma proto_inv_frame: "p_s q = p_s p \<Longrightarrow> p_prefix q = p_prefix p \<Longrightarrow> proto_inv q = proto_inv p"
  by (simp add: proto_inv_def)

lemma seedLoop_inv: "proto_inv p \<Longrightarrow> proto_inv (seedLoop E names p)"
proof (induction E names p rule: seedLoop.induct)
  case (2 E name names p)
  have "proto_inv (seedOne E key b p)" for key b
    using "2.prems" put_inv [OF "2.prems", of key] proto_inv_frame
    by (auto simp: seedOne_def proto_inv_def decodeFor_id split: option.splits sum.splits)
  with 2 show ?case by (auto split: option.splits)
qed simp

lemma Attach_inv:
  assumes "Attach E opts (NewTombstoneStore parsed) = Inr p"
  shows "proto_inv p"
proof -
  have "proto_inv (seed E q)" if "p_s q = NewTombstoneStore parsed" for q
  proof -
    have "proto_inv q" using that by (simp add: proto_inv_def hide_only_def keyed_def)
    then show ?thesis by (simp add: seed_def seedLoop_inv split: option.split)
  qed
  with assms show ?thesis by (auto simp: Attach_def split: if_splits)
qed

lemma Create_inv:
  assumes c: "Create E ts (Some p) w = (r, Some p', w')" and "proto_inv p" "clock_ok E"
  shows "proto_inv p'"
  using c
proof (cases rule: Create_cases)
  case invalid
  with assms show ?thesis by simp
next
  case (run keyNs w1 q)
  let ?ts = "(defaultMode ts)\<lparr>t_Tenants := NormalizeTenants (t_Tenants ts)\<rparr>"
  let ?k = "\<lparr>tk_kind = kindDefinition, tk_timeNs = keyNs, tk_id = t_ID ts, tk_defNs = 0\<rparr>"
  have ns: "0 < keyNs \<and> keyNs \<le> max_int64"
    using run(3) assms(3) idTime_range by (auto simp: clock_ok_def split: option.splits) (metis fst_conv)+
  have i: "t_ID ?ts = t_ID ts" "t_ID (defaultMode ts) = t_ID ts" by (simp_all add: defaultMode_def)
  have "wf_tombKey ?k" using run(1) ns i by (auto simp: wf_tombKey_def Validate_None_iff)
  then have pk: "parseKey (p_prefix p) (formatKey (p_prefix p) ?k) = Some ?k" by (rule parse_format)
  have "q = p \<or> q = putDefinition E (formatKey (p_prefix p) ?k) (?ts\<lparr>t_CreatedAt := Some keyNs\<rparr>) p"
    using run(4) i by (auto simp: createAt_def Let_def split: option.splits prod.splits sum.splits bool.splits if_splits)
  then show ?thesis
    using run(2) assms(2) put_inv [OF assms(2) pk, of "?ts\<lparr>t_CreatedAt := Some keyNs\<rparr>"] i
    by (auto simp: putDefinition_def proto_inv_def)
qed

lemma undoEntry_inv:
  "undoEntry E i e p w = (err, p', w') \<Longrightarrow> proto_inv p \<Longrightarrow> proto_inv p'"
  by (auto simp: undoEntry_def Let_def split: if_splits option.splits prod.splits sum.splits
      intro!: refines_inv [OF applyUndo_refines [OF prod.collapse [symmetric]]])

lemma UndeleteIf_inv:
  assumes "UndeleteIf E i allow (Some p) w = (err, Some p', w')" "proto_inv p"
  shows "proto_inv p'"
  using assms by (auto simp: UndeleteIf_def split: option.splits prod.splits if_splits
      intro: undoEntry_inv sync_inv)

text \<open>Everything a pod does to its view, as operations on the pod and its world.\<close>

datatype pod_op = PSync bool | PCreate tombstone | PUndelete string

fun podStep :: "'w env \<Rightarrow> pod_op \<Rightarrow> proto \<times> 'w \<Rightarrow> proto \<times> 'w" where
  "podStep E (PSync ff) (p, w) = (case sync E ff p w of (_, p', w') \<Rightarrow> (p', w'))"
| "podStep E (PCreate ts) (p, w) = (case Create E ts (Some p) w of (_, po, w') \<Rightarrow> (the po, w'))"
| "podStep E (PUndelete i) (p, w) = (case Undelete E i (Some p) w of (_, po, w') \<Rightarrow> (the po, w'))"

lemma podStep_inv:
  assumes "clock_ok E" "proto_inv (fst s)"
  shows "proto_inv (fst (podStep E op s))"
proof -
  obtain p w where s: "s = (p, w)" by fastforce
  show ?thesis
  proof (cases op)
    case (PSync ff)
    obtain r p' w' where "sync E ff p w = (r, p', w')" by (metis prod_cases3)
    then show ?thesis using sync_inv assms by (auto simp: s PSync)
  next
    case (PCreate ts)
    obtain r po w' where c: "Create E ts (Some p) w = (r, po, w')" by (metis prod_cases3)
    then obtain p' where "po = Some p'" by (cases rule: Create_cases) auto
    then show ?thesis using c Create_inv assms by (auto simp: s PCreate)
  next
    case (PUndelete i)
    obtain r po w' where c: "UndeleteIf E i None (Some p) w = (r, po, w')" by (metis prod_cases3)
    then obtain p' where "po = Some p'"
      by (auto simp: UndeleteIf_def split: option.splits prod.splits if_splits)
    then show ?thesis using c UndeleteIf_inv assms by (auto simp: s PUndelete Undelete_def)
  qed
qed

interpretation pod: machine "\<lambda>op s. clock_ok E" "podStep E" "\<lambda>s. proto_inv (fst s)" for E
  by unfold_locales (rule podStep_inv)

lemma pod_run_inv:
  assumes "clock_ok E" "Attach E opts (NewTombstoneStore parsed) = Inr p"
  shows "proto_inv (fst (fold (podStep E) ops (p, w)))"
proof -
  have "runs_ok (\<lambda>op s. clock_ok E) (podStep E) ops s" for s
    by (induction ops arbitrary: s) (simp_all add: assms(1))
  then show ?thesis using pod.run_inv [of "(p, w)"] Attach_inv [OF assms(2)] by simp
qed

end
