(* ===== verification/Scenario.thy ===== *)
theory Scenario
  imports TombBucket
begin

text \<open>
  A small deployment the theorems are applied to: one pod on the in-memory bucket, one delete of
  every row of tenant \<open>(1, 2)\<close> in a time range, and the states the protocol goes through. Every
  state is computed by the model's own operations.
\<close>

definition noql :: filter_engine where
  "noql q at = None"

definition exTenant :: tenantRef where
  "exTenant = \<lparr>AccountID = 1, ProjectID = 2\<rparr>"

definition exDelete :: tombstone where
  "exDelete = \<lparr>t_ID = ''d1'', t_Query = ''*'', t_StartNs = 5, t_EndNs = 9, t_CreatedAt = None,
     t_CreatedBy = ''ops'', t_Mode = ''hide'', t_FilterAt = 7, t_Tenants = [exTenant]\<rparr>"

definition exOpts :: options where
  "exOpts = \<lparr>o_backend = True, o_prefix = ''logs'', o_interval = 0, o_gateOff = False, o_cache = None,
     o_expiry = None, o_maintenance = True\<rparr>"

definition exPod :: proto where
  "exPod = (case Attach (memEnv noql) exOpts (NewTombstoneStore []) of Inr p \<Rightarrow> p | Inl _ \<Rightarrow> undefined)"

definition exBucket :: membucket where
  "exBucket = \<lparr>m_objs = [], m_now = 1700000000000000001, m_skew = 0, m_shortN = 0, m_failOps = [], m_ctx = None\<rparr>"

text \<open>The pod takes the delete; another pod, freshly attached, syncs with the same bucket.\<close>

definition exCreated :: "(perror + tombstone) \<times> proto option \<times> membucket" where
  "exCreated = Create (memEnv noql) exDelete (Some exPod) exBucket"

definition exWorld :: membucket where
  "exWorld = snd (snd exCreated)"

definition exCreator :: proto where
  "exCreator = the (fst (snd exCreated))"

definition exSynced :: "perror option \<times> proto \<times> membucket" where
  "exSynced = sync (memEnv noql) True exPod exWorld"

definition exReader :: proto where
  "exReader = fst (snd exSynced)"

definition exKey :: string where
  "exKey = createKey (p_prefix exPod) 1700000000000000001 ''d1''"

lemma exPod_attached: "Attach (memEnv noql) exOpts (NewTombstoneStore []) = Inr exPod"
  by (simp add: exPod_def Attach_def exOpts_def)

lemma exCreated_ok: "\<not> isl (fst exCreated)" "fst (snd exCreated) \<noteq> None \<and> mem_obj exWorld exKey \<noteq> None"
  by code_simp+

lemma exSynced_ok: "fst exSynced = None"
  by code_simp

lemma exReader_view: "map_option (\<lambda>e. (e_defKey e, e_undone e)) (view (p_s exReader) ''d1'') = Some (exKey, False)"
  by code_simp

lemma exReader_conf: "p_expiry exReader = None" "p_expiry exPod = None"
proof -
  have "case p_expiry exReader of None \<Rightarrow> True | Some f \<Rightarrow> False" "case p_expiry exPod of None \<Rightarrow> True | Some f \<Rightarrow> False"
    by code_simp+
  then show "p_expiry exReader = None" "p_expiry exPod = None" by (auto split: option.splits)
qed

lemma exReader_expiry: "\<not> expiredAt exReader t ts" "\<not> expiredAt exPod t ts"
  by (simp_all add: expiredAt_def exReader_conf)

lemma exReader_enforced: "enforced ''d1'' exKey (view (p_s exReader))"
proof -
  have "exKey \<noteq> []" by code_simp
  then show ?thesis using exReader_view by (auto simp: enforced_def)
qed

lemma exPod_inv: "proto_inv exPod"
  by (rule Attach_inv [OF exPod_attached])

lemma exReader_inv: "proto_inv exReader"
proof -
  obtain r p w where "sync (memEnv noql) True exPod exWorld = (r, p, w)" by (metis prod_cases3)
  then show ?thesis using sync_inv exPod_inv by (simp add: exReader_def exSynced_def)
qed

lemma ex_store_ok: "store_ok (p_s exPod)" "store_ok (p_s exReader)"
  using exPod_inv exReader_inv by (simp_all add: proto_inv_def)

text \<open>Whatever a listing of this bucket delivers is an object of it.\<close>

lemma mem_syncKeys: "key \<in> set (syncKeys (memEnv q) ff p w) \<Longrightarrow> mem_obj w key \<noteq> None"
  unfolding syncKeys_def by (metis mem.list_reads mem.other_frame(2) prod.collapse)

lemma ex_objects:
  "\<forall>key'. key' \<le> exKey \<longrightarrow> knownKey (memEnv noql) ff exReader exWorld ''d1'' key' \<longrightarrow> mem_obj exWorld key' \<noteq> None"
  "\<forall>key'. key' \<le> exKey \<longrightarrow> knownKey (memEnv noql) ff exPod exWorld ''d1'' key' \<longrightarrow> mem_obj exWorld key' \<noteq> None"
proof -
  have "p_bad exReader = []" "p_bad exPod = []" and e: "s_byID (p_s exPod) = []" by code_simp+
  moreover have "view (p_s exPod) ''d1'' = None" by (simp add: view_eq_None e)
  moreover have "e_defKey e = exKey" if "view (p_s exReader) ''d1'' = Some e" for e
    using exReader_view that by simp
  ultimately show "\<forall>key'. key' \<le> exKey \<longrightarrow> knownKey (memEnv noql) ff exReader exWorld ''d1'' key' \<longrightarrow> mem_obj exWorld key' \<noteq> None"
    "\<forall>key'. key' \<le> exKey \<longrightarrow> knownKey (memEnv noql) ff exPod exWorld ''d1'' key' \<longrightarrow> mem_obj exWorld key' \<noteq> None"
    using exCreated_ok(2) by (auto simp: knownKey_def mhas_def dest: mem_syncKeys)
qed

text \<open>A second definition of the same id, with a later key, and the bucket after the first one was
  removed from it.\<close>

definition exKey2 :: string where
  "exKey2 = createKey (p_prefix exPod) 1700000000000000002 ''d1''"

definition exSwapped :: membucket where
  "exSwapped = exWorld\<lparr>m_objs := [(exKey2, encodeDefinition (exDelete\<lparr>t_EndNs := 99\<rparr>))]\<rparr>"

definition exAfterSwap :: "perror option \<times> proto \<times> membucket" where
  "exAfterSwap = sync (memEnv noql) True exReader exSwapped"

end
