(* ===== verification/Manifest.thy ===== *)
theory Manifest
  imports GoSort
begin

text \<open>
  The manifest of a node: \<open>src/internal/manifest/manifest.go\<close>,
  \<open>src/internal/manifest/column_stats.go\<close> and \<open>src/internal/manifest/retired.go\<close>. This theory
  holds the data, the parsing of keys and partitions, the tenant aggregates, the file operations and
  the retired and pending keys; the refresh is in \<open>ManifestRefresh\<close>, the invariants are in
  \<open>ManifestInv\<close>.

  Every operation runs under the manifest's write lock and is one function; \<open>now\<close> is the
  \<open>time.Now()\<close> of the call. Not modelled: metrics, the observers (\<open>onAdd\<close>, \<open>onRemove\<close>,
  \<open>removeHooks\<close>), and the copy-on-write bookkeeping of the snapshot writer
  (\<open>writableFilesLocked\<close>), which decides only whether a slice is copied before it is changed.
  Byte and row totals are unbounded integers.
\<close>

section \<open>Files\<close>

record columnMinMax =
  cm_Min :: string
  cm_Max :: string

record fileInfo =
  fi_Key :: string
  fi_Bucket :: string
  fi_Size :: int
  fi_RowCount :: int
  fi_MinTimeNs :: int
  fi_MaxTimeNs :: int
  fi_BoundsInferred :: bool
  fi_RawBytes :: int
  fi_BloomBytes :: int
  fi_SchemaFingerprint :: string
  fi_CompactionLevel :: int
  fi_Labels :: "(string, string list) gomap"
  fi_ColumnStats :: "(string, columnMinMax) gomap option"
  fi_LabelAggregates :: "(string, (string, int) gomap) gomap"
  fi_ColumnBytes :: "(string, int) gomap"
  fi_StorageClass :: string
  fi_ClassCheckedAt :: int
  fi_ClassSource :: string
  fi_CreatedAt :: "int option"
  fi_TraceIDHex :: bool

definition ExactBounds :: "fileInfo \<Rightarrow> int \<times> int" where
  "ExactBounds fi = (if fi_BoundsInferred fi then (0, 0) else (fi_MinTimeNs fi, fi_MaxTimeNs fi))"

definition BucketOr :: "fileInfo \<Rightarrow> string \<Rightarrow> string" where
  "BucketOr fi defaultBucket = (if fi_Bucket fi = [] then defaultBucket else fi_Bucket fi)"

definition MatchesLabel :: "fileInfo \<Rightarrow> string \<Rightarrow> string \<Rightarrow> bool" where
  "MatchesLabel fi fld v =
     (case mget (fi_Labels fi) fld of None \<Rightarrow> False | Some vs \<Rightarrow> v \<in> set vs)"

definition ColumnStatsContains :: "fileInfo \<Rightarrow> string \<Rightarrow> string \<Rightarrow> bool" where
  "ColumnStatsContains fi column v =
     (case fi_ColumnStats fi of
        None \<Rightarrow> True
      | Some m \<Rightarrow> (case mget m column of None \<Rightarrow> True | Some st \<Rightarrow> cm_Min st \<le> v \<and> v \<le> cm_Max st))"

definition maxLabelsPerField :: nat where "maxLabelsPerField = 100"

section \<open>Keys and partitions\<close>

text \<open>\<open>strings.Split(s, "/")\<close> and \<open>strings.SplitN(s, "/", n)\<close> for positive \<open>n\<close>.\<close>

fun splitSlash :: "string \<Rightarrow> string list" where
  "splitSlash [] = [[]]"
| "splitSlash (c # s) =
     (if c = CHR ''/'' then [] # splitSlash s
      else case splitSlash s of [] \<Rightarrow> [[c]] | p # ps \<Rightarrow> (c # p) # ps)"

fun splitN :: "nat \<Rightarrow> string \<Rightarrow> string list" where
  "splitN 0 s = []"
| "splitN (Suc 0) s = [s]"
| "splitN (Suc (Suc n)) s =
     (case indexByte s (CHR ''/'') of
        None \<Rightarrow> [s]
      | Some i \<Rightarrow> take i s # splitN (Suc n) (drop (Suc i) s))"

text \<open>\<open>path.Clean\<close> and \<open>path.Dir\<close>.\<close>

fun cleanLoop :: "bool \<Rightarrow> string list \<Rightarrow> string list \<Rightarrow> string list" where
  "cleanLoop rooted [] out = rev out"
| "cleanLoop rooted (c # cs) out =
     (if c = [] \<or> c = ''.'' then cleanLoop rooted cs out
      else if c = ''..'' then
        (case out of
           [] \<Rightarrow> if rooted then cleanLoop rooted cs [] else cleanLoop rooted cs [''..'']
         | o1 # os \<Rightarrow> if o1 = ''..'' then cleanLoop rooted cs (''..'' # out) else cleanLoop rooted cs os)
      else cleanLoop rooted cs (c # out))"

fun joinSlash :: "string list \<Rightarrow> string" where
  "joinSlash [] = []"
| "joinSlash [p] = p"
| "joinSlash (p # ps) = p @ ''/'' @ joinSlash ps"

definition pathClean :: "string \<Rightarrow> string" where
  "pathClean s =
     (if s = [] then ''.''
      else let rooted = (hd s = CHR ''/'');
               body = joinSlash (cleanLoop rooted (splitSlash s) [])
           in if rooted then ''/'' @ body else if body = [] then ''.'' else body)"

definition pathDir :: "string \<Rightarrow> string" where
  "pathDir s = pathClean (rev (dropWhile (\<lambda>c. c \<noteq> CHR ''/'') (rev s)))"

definition extractPartition :: "string \<Rightarrow> string" where
  "extractPartition key =
     (let parts = splitSlash (pathDir key);
          dtPart = fold (\<lambda>p d. if hasPrefix p ''dt='' then p else d) parts [];
          hourPart = fold (\<lambda>p h. if hasPrefix p ''hour='' then p else h) parts []
      in if dtPart = [] then [] else if hourPart = [] then dtPart else dtPart @ ''/'' @ hourPart)"

definition digits :: "string \<Rightarrow> int" where
  "digits s = fold (\<lambda>c n. n * 10 + (of_char c - 48)) s 0"

definition extractDateFromPrefix :: "string \<Rightarrow> string" where
  "extractDateFromPrefix p =
     (case find (\<lambda>i. hasPrefix (drop i p) ''dt='') [0..<Suc (length p)] of
        None \<Rightarrow> []
      | Some i \<Rightarrow>
          let rest = drop (i + 3) p; date = take 10 rest
          in if length rest < 10 then []
             else if date ! 4 \<noteq> CHR ''-'' \<or> date ! 7 \<noteq> CHR ''-'' then []
             else if list_all (\<lambda>j. j = 4 \<or> j = 7 \<or> digit (date ! j)) [0..<10] then date else [])"

text \<open>\<open>time.Parse("2006-01-02", s)\<close> in days since 1 January 1970.\<close>

definition leap :: "int \<Rightarrow> bool" where
  "leap y \<longleftrightarrow> y mod 4 = 0 \<and> (y mod 100 \<noteq> 0 \<or> y mod 400 = 0)"

definition daysIn :: "int \<Rightarrow> int \<Rightarrow> int" where
  "daysIn m y =
     (if m = 2 then (if leap y then 29 else 28) else if m \<in> {4, 6, 9, 11} then 30 else 31)"

definition daysBeforeMonth :: "int \<Rightarrow> int \<Rightarrow> int" where
  "daysBeforeMonth m y = sum_list (map (\<lambda>k. daysIn k y) [1..m - 1])"

definition daysBeforeYear :: "int \<Rightarrow> int" where
  "daysBeforeYear y = 365 * (y - 1) + (y - 1) div 4 - (y - 1) div 100 + (y - 1) div 400"

definition parseDate :: "string \<Rightarrow> int option" where
  "parseDate s =
     (if length s = 10 \<and> list_all (\<lambda>j. if j = 4 \<or> j = 7 then s ! j = CHR ''-'' else digit (s ! j)) [0..<10]
      then let y = digits (take 4 s); m = digits (take 2 (drop 5 s)); d = digits (drop 8 s)
           in if 1 \<le> m \<and> m \<le> 12 \<and> 1 \<le> d \<and> d \<le> daysIn m y
              then Some (daysBeforeYear y + daysBeforeMonth m y + d - 1 - 719162) else None
      else None)"

text \<open>\<open>fmt.Sscanf(s, "%d", &hour)\<close>: blanks, a sign, digits; what follows is not looked at. A number
  that does not fit 64 bits is an error.\<close>

definition scanInt :: "string \<Rightarrow> int option" where
  "scanInt s =
     (let t = dropWhile (\<lambda>c. c \<in> {CHR '' '', CHR 0x09, CHR 0x0B, CHR 0x0C, CHR 0x0D}) s;
          neg = (t \<noteq> [] \<and> hd t = CHR ''-'');
          u = (if t \<noteq> [] \<and> (hd t = CHR ''-'' \<or> hd t = CHR ''+'') then tl t else t);
          ds = takeWhile digit u;
          v = (if neg then - digits ds else digits ds)
      in if ds = [] \<or> v < - (2 ^ 63) \<or> v > max_int64 then None else Some v)"

definition cutPrefixes :: "string \<Rightarrow> string list \<Rightarrow> string" where
  "cutPrefixes pre parts = fold (\<lambda>p v. if hasPrefix p pre then drop (length pre) p else v) parts []"

text \<open>The instant, in nanoseconds; \<open>None\<close> is the error return. Year 1, day 1 is Go's zero time.\<close>

definition parsePartitionTime :: "string \<Rightarrow> int option" where
  "parsePartitionTime part =
     (let parts = splitSlash part; dateStr = cutPrefixes ''dt='' parts; hourStr = cutPrefixes ''hour='' parts
      in if dateStr = [] then None
         else case parseDate dateStr of
           None \<Rightarrow> None
         | Some d \<Rightarrow>
             if d = - 719162 then None
             else Some (d * 24 * hour +
               (if hourStr = [] then 0
                else case scanInt hourStr of
                  None \<Rightarrow> 0
                | Some h \<Rightarrow> if 0 \<le> h \<and> h < 24 then h * hour else 0)))"

text \<open>\<open>Time.UnixNano\<close> wraps around outside the years it can represent.\<close>

definition unixNano :: "int \<Rightarrow> int" where "unixNano t = to_int64 t"

section \<open>Tenants of keys\<close>

definition isValidTenantSegment :: "string \<Rightarrow> bool" where
  "isValidTenantSegment s \<longleftrightarrow>
     s \<noteq> [] \<and> length s \<le> 64
     \<and> list_all (\<lambda>c. digit c \<or> byteIn (CHR ''a'') (CHR ''z'') c \<or> byteIn (CHR ''A'') (CHR ''Z'') c
         \<or> c = CHR ''_'' \<or> c = CHR ''-'') s"

definition parseTenantSegments :: "string \<Rightarrow> nat \<Rightarrow> (string \<times> string) option" where
  "parseTenantSegments fileKey segments =
     (let parts = splitN (segments + 2) fileKey
      in if length parts < segments + 1 then None
         else if \<not> isValidTenantSegment (parts ! 0) then None
         else if segments = 1 then Some (parts ! 0, [])
         else if \<not> isValidTenantSegment (parts ! 1) then None
         else Some (parts ! 0, parts ! 1))"

text \<open>\<open>strings.Contains\<close>.\<close>

definition containsStr :: "string \<Rightarrow> string \<Rightarrow> bool" where
  "containsStr s t = list_ex (\<lambda>i. hasPrefix (drop i s) t) [0..<Suc (length s)]"

definition templateSegmentsOf :: "nat \<Rightarrow> string \<Rightarrow> nat" where
  "templateSegmentsOf cached tmpl =
     (if cached = 0
      then if containsStr tmpl ''{OrgID}'' \<and> \<not> containsStr tmpl ''{ProjectID}'' then 1 else 2
      else cached)"

section \<open>The manifest\<close>

record retiredKey =
  rk_Key :: string
  rk_At :: int
  rk_By :: string
  rk_Reclaim :: bool
  rk_Deleted :: bool

record partitionEntry =
  pe_key :: string
  pe_start :: int
  pe_end :: int

record tenantAccum =
  ta_files :: int
  ta_bytes :: int
  ta_rows :: int
  ta_rawBytes :: int
  ta_partitions :: "(string, int) gomap"
  ta_minTimeNs :: int
  ta_maxTimeNs :: int

type_synonym fileMap = "(string, fileInfo list) gomap"
type_synonym labelIndex = "(string, (string, string list) gomap) gomap"

record manifest =
  m_files :: fileMap
  m_sortedPartitions :: "partitionEntry list"
  m_labelIndex :: labelIndex
  m_byKey :: "(string, string) gomap"
  m_tenantAggregates :: "(string \<times> string, tenantAccum) gomap"
  m_legacyAggregate :: "tenantAccum option"
  m_minTime :: "int option"
  m_maxTime :: "int option"
  m_totalFiles :: int
  m_totalBytes :: int
  m_lastRefresh :: "int option"
  m_prefixTemplate :: string
  m_templateSegments :: nat
  m_partitionAttempts :: "(string, int) gomap"
  m_retired :: "(string, retiredKey) gomap"
  m_pending :: "(string, int) gomap"
  m_recentAdds :: "(string \<times> int) list"
  m_awaitingAdoption :: "(string, int) gomap"
  m_held :: "string list"
  m_listed :: bool
  m_lastComplete :: "int option \<times> nat"

definition New :: manifest where
  "New = \<lparr>m_files = [], m_sortedPartitions = [], m_labelIndex = [], m_byKey = [], m_tenantAggregates = [],
     m_legacyAggregate = None, m_minTime = None, m_maxTime = None, m_totalFiles = 0, m_totalBytes = 0,
     m_lastRefresh = None, m_prefixTemplate = [], m_templateSegments = 0, m_partitionAttempts = [],
     m_retired = [], m_pending = [], m_recentAdds = [], m_awaitingAdoption = [], m_held = [],
     m_listed = False, m_lastComplete = (None, 0)\<rparr>"

text \<open>A missing part reads as the empty slice.\<close>

definition filesOf :: "fileMap \<Rightarrow> string \<Rightarrow> fileInfo list" where
  "filesOf fs p = (case mget fs p of None \<Rightarrow> [] | Some l \<Rightarrow> l)"

definition tenantKeyFromFileKey :: "manifest \<Rightarrow> string \<Rightarrow> (string \<times> string) option" where
  "tenantKeyFromFileKey m key =
     parseTenantSegments key (templateSegmentsOf (m_templateSegments m) (m_prefixTemplate m))"

definition KeyTenant :: "manifest \<Rightarrow> string \<Rightarrow> (string \<times> string) option" where
  "KeyTenant m key = tenantKeyFromFileKey m key"

definition AccountOnlyTenantKeys :: "manifest \<Rightarrow> bool" where
  "AccountOnlyTenantKeys m = (templateSegmentsOf (m_templateSegments m) (m_prefixTemplate m) = 1)"

definition TenantKeyPrefix :: "manifest \<Rightarrow> string \<Rightarrow> string \<Rightarrow> string" where
  "TenantKeyPrefix m account project =
     (if m_templateSegments m = 1 then account @ ''/'' else account @ ''/'' @ project @ ''/'')"

section \<open>Tenant aggregates\<close>

definition emptyAccum :: tenantAccum where
  "emptyAccum = \<lparr>ta_files = 0, ta_bytes = 0, ta_rows = 0, ta_rawBytes = 0, ta_partitions = [],
     ta_minTimeNs = 0, ta_maxTimeNs = 0\<rparr>"

definition partCount :: "tenantAccum \<Rightarrow> string \<Rightarrow> int" where
  "partCount a p = (case mget (ta_partitions a) p of None \<Rightarrow> 0 | Some n \<Rightarrow> n)"

definition widen :: "string \<Rightarrow> tenantAccum \<Rightarrow> tenantAccum" where
  "widen part a =
     (case parsePartitionTime part of
        None \<Rightarrow> a
      | Some t \<Rightarrow>
          let startNs = unixNano t; endNs = unixNano (t + hour)
          in a\<lparr>ta_minTimeNs := (if ta_minTimeNs a = 0 \<or> startNs < ta_minTimeNs a then startNs else ta_minTimeNs a),
               ta_maxTimeNs := (if endNs > ta_maxTimeNs a then endNs else ta_maxTimeNs a)\<rparr>)"

definition accumAdd :: "string \<Rightarrow> fileInfo \<Rightarrow> tenantAccum \<Rightarrow> tenantAccum" where
  "accumAdd part fi a =
     widen part (a\<lparr>ta_files := ta_files a + 1, ta_bytes := ta_bytes a + fi_Size fi,
       ta_rows := ta_rows a + fi_RowCount fi, ta_rawBytes := ta_rawBytes a + fi_RawBytes fi,
       ta_partitions := mput part (partCount a part + 1) (ta_partitions a)\<rparr>)"

definition updateTenantAggregateOnAdd :: "string \<Rightarrow> fileInfo \<Rightarrow> manifest \<Rightarrow> manifest" where
  "updateTenantAggregateOnAdd part fi m =
     (case tenantKeyFromFileKey m (fi_Key fi) of
        Some tk \<Rightarrow>
          let a = (case mget (m_tenantAggregates m) tk of None \<Rightarrow> emptyAccum | Some a \<Rightarrow> a)
          in m\<lparr>m_tenantAggregates := mput tk (accumAdd part fi a) (m_tenantAggregates m)\<rparr>
      | None \<Rightarrow>
          let a = (case m_legacyAggregate m of None \<Rightarrow> emptyAccum | Some a \<Rightarrow> a)
          in m\<lparr>m_legacyAggregate := Some (accumAdd part fi a)\<rparr>)"

definition recomputeTenantTimeBounds :: "tenantAccum \<Rightarrow> tenantAccum" where
  "recomputeTenantTimeBounds a =
     fold (\<lambda>(p, n) a. widen p a) (ta_partitions a) (a\<lparr>ta_minTimeNs := 0, ta_maxTimeNs := 0\<rparr>)"

definition accumRemove :: "string \<Rightarrow> fileInfo \<Rightarrow> tenantAccum \<Rightarrow> tenantAccum" where
  "accumRemove part fi a =
     (let n = partCount a part - 1;
          a1 = a\<lparr>ta_files := ta_files a - 1, ta_bytes := ta_bytes a - fi_Size fi,
                 ta_rows := ta_rows a - fi_RowCount fi, ta_rawBytes := ta_rawBytes a - fi_RawBytes fi\<rparr>
      in if n \<le> 0
         then let a2 = a1\<lparr>ta_partitions := mdel part (ta_partitions a1)\<rparr>
              in case parsePartitionTime part of
                   None \<Rightarrow> a2
                 | Some t \<Rightarrow>
                     if unixNano t = ta_minTimeNs a2 \<or> unixNano (t + hour) = ta_maxTimeNs a2
                     then recomputeTenantTimeBounds a2 else a2
         else a1\<lparr>ta_partitions := mput part n (ta_partitions a1)\<rparr>)"

definition updateTenantAggregateOnRemove :: "string \<Rightarrow> fileInfo \<Rightarrow> manifest \<Rightarrow> manifest" where
  "updateTenantAggregateOnRemove part fi m =
     (case tenantKeyFromFileKey m (fi_Key fi) of
        Some tk \<Rightarrow>
          (case mget (m_tenantAggregates m) tk of
             None \<Rightarrow> m
           | Some a \<Rightarrow>
               let a' = accumRemove part fi a
               in m\<lparr>m_tenantAggregates :=
                      (if ta_files a' = 0 then mdel tk (m_tenantAggregates m)
                       else mput tk a' (m_tenantAggregates m))\<rparr>)
      | None \<Rightarrow>
          (case m_legacyAggregate m of
             None \<Rightarrow> m
           | Some a \<Rightarrow>
               let a' = accumRemove part fi a
               in m\<lparr>m_legacyAggregate := (if ta_files a' = 0 then None else Some a')\<rparr>))"

definition rebuildTenantAggregates :: "manifest \<Rightarrow> manifest" where
  "rebuildTenantAggregates m =
     fold (\<lambda>(p, fs) m. fold (updateTenantAggregateOnAdd p) fs m) (m_files m)
       (m\<lparr>m_tenantAggregates := [], m_legacyAggregate := None\<rparr>)"

section \<open>Indexes\<close>

definition indexFileLabels :: "fileInfo \<Rightarrow> labelIndex \<Rightarrow> labelIndex" where
  "indexFileLabels fi ix =
     fold (\<lambda>(fld, vs) ix.
         if length vs \<ge> maxLabelsPerField then ix
         else let fm = (case mget ix fld of None \<Rightarrow> [] | Some fm \<Rightarrow> fm);
                  fm' = fold (\<lambda>v fm. mput v (List.insert (fi_Key fi) (case mget fm v of None \<Rightarrow> [] | Some ks \<Rightarrow> ks)) fm) vs fm
              in mput fld fm' ix)
       (fi_Labels fi) ix"

definition GetFileKeysByLabel :: "manifest \<Rightarrow> string \<Rightarrow> string \<Rightarrow> string list" where
  "GetFileKeysByLabel m fld v =
     (case mget (m_labelIndex m) fld of
        None \<Rightarrow> []
      | Some fm \<Rightarrow> (case mget fm v of None \<Rightarrow> [] | Some ks \<Rightarrow> ks))"

definition entryOf :: "string \<Rightarrow> partitionEntry option" where
  "entryOf p = map_option (\<lambda>t. \<lparr>pe_key = p, pe_start = t, pe_end = t + hour\<rparr>) (parsePartitionTime p)"

definition entryBefore :: "partitionEntry \<Rightarrow> partitionEntry \<Rightarrow> bool" where
  "entryBefore a b \<longleftrightarrow> pe_start a < pe_start b"

definition rebuildByKey :: "manifest \<Rightarrow> manifest" where
  "rebuildByKey m =
     m\<lparr>m_byKey := fold (\<lambda>(p, fs) bk. fold (\<lambda>fi bk. mput (fi_Key fi) p bk) fs bk) (m_files m) []\<rparr>"

definition rebuildIndex :: "manifest \<Rightarrow> manifest" where
  "rebuildIndex m =
     m\<lparr>m_sortedPartitions := sort_slice entryBefore (List.map_filter entryOf (mkeys (m_files m))),
       m_labelIndex := fold (\<lambda>(p, fs) ix. if parsePartitionTime p = None then ix else fold indexFileLabels fs ix)
         (m_files m) []\<rparr>"

section \<open>Retiring and adding\<close>

definition retiredKeyTTL :: int where "retiredKeyTTL = 7 * 24 * hour"
definition maxRetiredKeys :: nat where "maxRetiredKeys = 100000"
definition maxRecentAdds :: nat where "maxRecentAdds = 50000"

definition retireLocked :: "int \<Rightarrow> retiredKey \<Rightarrow> manifest \<Rightarrow> manifest" where
  "retireLocked now rk0 m =
     (let rk = rk0\<lparr>rk_At := now\<rparr>;
          rk' = (case mget (m_retired m) (rk_Key rk) of
                   None \<Rightarrow> rk
                 | Some cur \<Rightarrow> rk\<lparr>rk_Reclaim := rk_Reclaim rk \<or> rk_Reclaim cur,
                     rk_By := (if rk_By rk = [] then rk_By cur else rk_By rk)\<rparr>)
      in m\<lparr>m_retired := mput (rk_Key rk) rk' (m_retired m), m_pending := mdel (rk_Key rk) (m_pending m)\<rparr>)"

definition newRetired :: "string \<Rightarrow> string \<Rightarrow> bool \<Rightarrow> retiredKey" where
  "newRetired key by' reclaim = \<lparr>rk_Key = key, rk_At = 0, rk_By = by', rk_Reclaim = reclaim, rk_Deleted = False\<rparr>"

definition noteAddedLocked :: "string \<Rightarrow> int \<Rightarrow> manifest \<Rightarrow> manifest" where
  "noteAddedLocked key now m =
     (let adds = m_recentAdds m;
          at = (if adds \<noteq> [] \<and> now < snd (last adds) then snd (last adds) else now);
          adds' = adds @ [(key, at)]
      in m\<lparr>m_pending := mdel key (m_pending m), m_awaitingAdoption := mdel key (m_awaitingAdoption m),
           m_retired := mdel key (m_retired m),
           m_recentAdds := (if length adds' > 2 * maxRecentAdds then drop (length adds' - maxRecentAdds) adds' else adds')\<rparr>)"

definition recentAddsSinceLocked :: "manifest \<Rightarrow> int \<Rightarrow> (string \<times> int) list" where
  "recentAddsSinceLocked m t =
     drop (sortSearch (length (m_recentAdds m)) (\<lambda>i. \<not> snd (m_recentAdds m ! i) < t)) (m_recentAdds m)"

definition insertPartition :: "string \<Rightarrow> partitionEntry list \<Rightarrow> partitionEntry list" where
  "insertPartition p es =
     (case entryOf p of
        None \<Rightarrow> es
      | Some e \<Rightarrow>
          let i = sortSearch (length es) (\<lambda>j. \<not> pe_start (es ! j) < pe_start e)
          in take i es @ e # drop i es)"

definition widenTimes :: "string \<Rightarrow> manifest \<Rightarrow> manifest" where
  "widenTimes part m =
     (case parsePartitionTime part of
        None \<Rightarrow> m
      | Some t \<Rightarrow>
          m\<lparr>m_minTime := (case m_minTime m of None \<Rightarrow> Some t | Some x \<Rightarrow> if t < x then Some t else Some x),
            m_maxTime := (case m_maxTime m of None \<Rightarrow> Some (t + hour)
                          | Some x \<Rightarrow> if t + hour > x then Some (t + hour) else Some x)\<rparr>)"

definition addFileLocked :: "int \<Rightarrow> string \<Rightarrow> fileInfo \<Rightarrow> manifest \<Rightarrow> manifest" where
  "addFileLocked now part fi m =
     (if mhas (m_byKey m) (fi_Key fi) then m
      else let m1 = noteAddedLocked (fi_Key fi) now m;
               isNew = (filesOf (m_files m1) part = []);
               m2 = m1\<lparr>m_files := mput part (filesOf (m_files m1) part @ [fi]) (m_files m1),
                       m_byKey := mput (fi_Key fi) part (m_byKey m1)\<rparr>;
               m3 = updateTenantAggregateOnAdd part fi m2;
               m4 = m3\<lparr>m_totalFiles := m_totalFiles m3 + 1, m_totalBytes := m_totalBytes m3 + fi_Size fi,
                       m_sortedPartitions := (if isNew then insertPartition part (m_sortedPartitions m3)
                          else m_sortedPartitions m3),
                       m_labelIndex := indexFileLabels fi (m_labelIndex m3)\<rparr>
           in widenTimes part m4)"

definition removeFileLocked :: "string \<Rightarrow> string \<Rightarrow> manifest \<Rightarrow> bool \<times> manifest" where
  "removeFileLocked part key m =
     (case find (\<lambda>fi. fi_Key fi = key) (filesOf (m_files m) part) of
        None \<Rightarrow> (False, m)
      | Some fi \<Rightarrow>
          let m1 = m\<lparr>m_totalFiles := m_totalFiles m - 1, m_totalBytes := m_totalBytes m - fi_Size fi\<rparr>;
              m2 = updateTenantAggregateOnRemove part fi m1;
              fs = remove1 fi (filesOf (m_files m2) part);
              m3 = m2\<lparr>m_files := (if fs = [] then mdel part (m_files m2) else mput part fs (m_files m2)),
                      m_byKey := mdel key (m_byKey m2)\<rparr>
          in (True, rebuildIndex m3))"

definition keyInPartitionLocked :: "string \<Rightarrow> string \<Rightarrow> manifest \<Rightarrow> bool" where
  "keyInPartitionLocked part key m \<longleftrightarrow> mget (m_byKey m) key = Some part"

definition freeForPublishLocked :: "string \<Rightarrow> string list \<Rightarrow> manifest \<Rightarrow> bool" where
  "freeForPublishLocked newKey replacing m \<longleftrightarrow> \<not> mhas (m_byKey m) newKey \<or> newKey \<in> set replacing"

definition AddFile :: "int \<Rightarrow> string \<Rightarrow> fileInfo \<Rightarrow> manifest \<Rightarrow> manifest" where
  "AddFile now part fi m = addFileLocked now part fi m"

definition AddFileUnlessRetired :: "int \<Rightarrow> string \<Rightarrow> fileInfo \<Rightarrow> manifest \<Rightarrow> bool \<times> manifest" where
  "AddFileUnlessRetired now part fi m =
     (if mhas (m_retired m) (fi_Key fi) then (False, m) else (True, addFileLocked now part fi m))"

definition RemoveFile :: "int \<Rightarrow> string \<Rightarrow> string \<Rightarrow> manifest \<Rightarrow> manifest" where
  "RemoveFile now part key m =
     retireLocked now (newRetired key [] False) (snd (removeFileLocked part key m))"

definition RemoveFileIfPresent :: "int \<Rightarrow> string \<Rightarrow> string \<Rightarrow> manifest \<Rightarrow> bool \<times> manifest" where
  "RemoveFileIfPresent now part key m =
     (if \<not> keyInPartitionLocked part key m \<or> key \<in> set (m_held m) then (False, m)
      else case removeFileLocked part key m of
        (removed, m1) \<Rightarrow>
          if \<not> removed then (False, m1) else (True, retireLocked now (newRetired key [] True) m1))"

definition ReplaceFile :: "int \<Rightarrow> string \<Rightarrow> string \<Rightarrow> fileInfo \<Rightarrow> manifest \<Rightarrow> bool \<times> manifest" where
  "ReplaceFile now part oldKey fi m =
     (if \<not> keyInPartitionLocked part oldKey m \<or> oldKey \<in> set (m_held m)
         \<or> \<not> freeForPublishLocked (fi_Key fi) [oldKey] m
      then (False, m)
      else let m1 = snd (removeFileLocked part oldKey m);
               m2 = retireLocked now (newRetired oldKey (fi_Key fi) True) m1
           in (True, addFileLocked now part fi m2))"

definition ReplaceFiles :: "int \<Rightarrow> string \<Rightarrow> string list \<Rightarrow> fileInfo \<Rightarrow> manifest \<Rightarrow> bool \<times> manifest" where
  "ReplaceFiles now part oldKeys fi m =
     (if \<not> list_all (\<lambda>k. keyInPartitionLocked part k m \<and> k \<notin> set (m_held m)) oldKeys then (False, m)
      else if \<not> freeForPublishLocked (fi_Key fi) oldKeys m then (False, m)
      else let m1 = fold (\<lambda>k m. retireLocked now (newRetired k (fi_Key fi) True)
                (snd (removeFileLocked part k m))) oldKeys m
           in (True, addFileLocked now part fi m1))"

section \<open>Pending, held and retired keys\<close>

definition ClaimPending :: "int \<Rightarrow> string \<Rightarrow> manifest \<Rightarrow> bool \<times> manifest" where
  "ClaimPending now key m =
     (if key = [] \<or> mhas (m_byKey m) key \<or> mhas (m_retired m) key \<or> mhas (m_pending m) key then (False, m)
      else (True, m\<lparr>m_pending := mput key now (m_pending m)\<rparr>))"

definition ReleasePending :: "string \<Rightarrow> manifest \<Rightarrow> manifest" where
  "ReleasePending key m = m\<lparr>m_pending := mdel key (m_pending m)\<rparr>"

definition Hold :: "string \<Rightarrow> manifest \<Rightarrow> manifest" where
  "Hold key m = (if key = [] then m else m\<lparr>m_held := List.insert key (m_held m)\<rparr>)"

definition Release :: "string \<Rightarrow> manifest \<Rightarrow> manifest" where
  "Release key m = m\<lparr>m_held := removeAll key (m_held m)\<rparr>"

definition IsHeld :: "string \<Rightarrow> manifest \<Rightarrow> bool" where
  "IsHeld key m \<longleftrightarrow> key \<in> set (m_held m)"

definition HeldKeys :: "manifest \<Rightarrow> string list" where
  "HeldKeys m = sort_slice (<) (m_held m)"

definition PendingKeys :: "manifest \<Rightarrow> (string \<times> int \<times> bool) list" where
  "PendingKeys m =
     sort_slice (\<lambda>(k, at, h) (k', at', h'). if at \<noteq> at' then at < at' else k < k')
       (map (\<lambda>(k, at). (k, at, k \<in> set (m_held m))) (m_pending m))"

definition unregister :: "string \<Rightarrow> manifest \<Rightarrow> bool \<times> manifest" where
  "unregister key m =
     (case mget (m_byKey m) key of None \<Rightarrow> (False, m) | Some p \<Rightarrow> removeFileLocked p key m)"

definition AbandonPending :: "int \<Rightarrow> string \<Rightarrow> manifest \<Rightarrow> manifest" where
  "AbandonPending now key m = retireLocked now (newRetired key [] True) (snd (unregister key m))"

definition Retire :: "int \<Rightarrow> string \<Rightarrow> string \<Rightarrow> bool \<Rightarrow> manifest \<Rightarrow> bool \<times> manifest" where
  "Retire now key by' reclaim m =
     (case unregister key m of (removed, m1) \<Rightarrow> (removed, retireLocked now (newRetired key by' reclaim) m1))"

definition Unretire :: "string \<Rightarrow> manifest \<Rightarrow> bool \<times> manifest" where
  "Unretire key m =
     (mhas (m_retired m) key \<or> mhas (m_pending m) key,
      m\<lparr>m_retired := mdel key (m_retired m), m_pending := mdel key (m_pending m)\<rparr>)"

definition UnretireIfReplacedBy :: "string \<Rightarrow> string \<Rightarrow> manifest \<Rightarrow> bool \<times> manifest" where
  "UnretireIfReplacedBy key replacement m =
     (case mget (m_retired m) key of
        None \<Rightarrow> (False, m)
      | Some rk \<Rightarrow>
          if rk_By rk \<noteq> replacement then (False, m)
          else (True, m\<lparr>m_retired := mdel key (m_retired m)\<rparr>))"

definition ConfirmDeleted :: "string \<Rightarrow> manifest \<Rightarrow> manifest" where
  "ConfirmDeleted key m =
     (case mget (m_retired m) key of
        None \<Rightarrow> m
      | Some rk \<Rightarrow> m\<lparr>m_retired := mput key (rk\<lparr>rk_Reclaim := False, rk_Deleted := True\<rparr>) (m_retired m)\<rparr>)"

definition RetiredKeys :: "manifest \<Rightarrow> retiredKey list" where
  "RetiredKeys m =
     sort_slice (\<lambda>a b. if rk_At a \<noteq> rk_At b then rk_At a < rk_At b else rk_Key a < rk_Key b)
       (map snd (m_retired m))"

definition HasKey :: "string \<Rightarrow> manifest \<Rightarrow> bool" where
  "HasKey key m = mhas (m_byKey m) key"

text \<open>The loop of \<open>ReclaimRetired\<close> over the retired keys it read at the start; the lock is free
  between two keys, and \<open>env\<close> is what other goroutines do to the manifest while the delete request
  of a key runs. \<open>cancelled\<close> answers whether the context is done when the loop reaches a key,
  \<open>del\<close> whether the delete of a key succeeds.\<close>

fun reclaimLoop ::
    "(string \<Rightarrow> bool) \<Rightarrow> (string \<Rightarrow> bool) \<Rightarrow> (string \<Rightarrow> manifest \<Rightarrow> manifest) \<Rightarrow> nat \<Rightarrow> retiredKey list \<Rightarrow> nat \<Rightarrow> nat
     \<Rightarrow> manifest \<Rightarrow> nat \<times> nat \<times> manifest" where
  "reclaimLoop cancelled del env lim [] deleted failed m = (deleted, failed, m)"
| "reclaimLoop cancelled del env lim (rk # rks) deleted failed m =
     (if lim > 0 \<and> deleted + failed \<ge> lim then (deleted, failed, m)
      else if \<not> rk_Reclaim rk \<or> cancelled (rk_Key rk) \<or> HasKey (rk_Key rk) m
      then reclaimLoop cancelled del env lim rks deleted failed m
      else let m1 = env (rk_Key rk) m in
        if \<not> del (rk_Key rk) then reclaimLoop cancelled del env lim rks deleted (Suc failed) m1
        else let m2 = (case mget (m_retired m1) (rk_Key rk) of
                   None \<Rightarrow> m1
                 | Some cur \<Rightarrow>
                     if rk_At cur = rk_At rk
                     then m1\<lparr>m_retired := mput (rk_Key rk) (cur\<lparr>rk_Reclaim := False, rk_Deleted := True\<rparr>) (m_retired m1)\<rparr>
                     else m1)
             in reclaimLoop cancelled del env lim rks (Suc deleted) failed m2)"

definition ReclaimRetired ::
    "(string \<Rightarrow> bool) \<Rightarrow> (string \<Rightarrow> bool) \<Rightarrow> (string \<Rightarrow> manifest \<Rightarrow> manifest) \<Rightarrow> nat \<Rightarrow> manifest \<Rightarrow> nat \<times> nat \<times> manifest" where
  "ReclaimRetired cancelled del env lim m = reclaimLoop cancelled del env lim (RetiredKeys m) 0 0 m"

text \<open>The order in which the cap evicts retired keys.\<close>

definition evictBefore :: "retiredKey \<Rightarrow> retiredKey \<Rightarrow> bool" where
  "evictBefore a b =
     (if rk_Deleted a \<noteq> rk_Deleted b then rk_Deleted a
      else if rk_Reclaim a \<noteq> rk_Reclaim b then \<not> rk_Reclaim a
      else rk_At a < rk_At b)"

definition pruneRetiredWith :: "nat \<Rightarrow> int \<Rightarrow> (string, retiredKey) gomap \<Rightarrow> (string, retiredKey) gomap" where
  "pruneRetiredWith cap now rs =
     (let live = filter (\<lambda>(k, rk). rk_Reclaim rk \<or> \<not> now - rk_At rk > retiredKeyTTL) rs
      in if length live > cap
         then let order = sort_slice (\<lambda>a b. evictBefore (snd a) (snd b)) live
              in mdels (map fst (take (length live - cap) order)) live
         else live)"

definition pruneRetiredLocked :: "int \<Rightarrow> manifest \<Rightarrow> manifest" where
  "pruneRetiredLocked now m = m\<lparr>m_retired := pruneRetiredWith maxRetiredKeys now (m_retired m)\<rparr>"

definition oldestAwaiting :: "(string, int) gomap \<Rightarrow> string" where
  "oldestAwaiting aw =
     fst (fold (\<lambda>(k, at) (ok, oat). if ok = [] \<or> at < oat then (k, at) else (ok, oat)) aw ([], 0))"

definition dropOldestAwaitingAdoptionLocked :: "manifest \<Rightarrow> manifest" where
  "dropOldestAwaitingAdoptionLocked m =
     m\<lparr>m_awaitingAdoption := mdel (oldestAwaiting (m_awaitingAdoption m)) (m_awaitingAdoption m)\<rparr>"

definition ExpectInListing :: "int \<Rightarrow> string \<Rightarrow> manifest \<Rightarrow> manifest" where
  "ExpectInListing now key m =
     (if key = [] then m
      else let m1 = (if length (m_awaitingAdoption m) \<ge> maxRecentAdds then dropOldestAwaitingAdoptionLocked m else m)
           in m1\<lparr>m_awaitingAdoption := mput key now (m_awaitingAdoption m1)\<rparr>)"

definition AwaitingListing :: "string \<Rightarrow> manifest \<Rightarrow> bool" where
  "AwaitingListing key m = mhas (m_awaitingAdoption m) key"

section \<open>Attempts and lookups\<close>

definition MarkAttempt :: "string \<Rightarrow> int \<Rightarrow> manifest \<Rightarrow> manifest" where
  "MarkAttempt part t m = m\<lparr>m_partitionAttempts := mput part t (m_partitionAttempts m)\<rparr>"

definition LastAttempt :: "string \<Rightarrow> manifest \<Rightarrow> int option" where
  "LastAttempt part m = mget (m_partitionAttempts m) part"

definition AttemptsView :: "manifest \<Rightarrow> (string, int option) gomap" where
  "AttemptsView m = map (\<lambda>(p, fs). (p, mget (m_partitionAttempts m) p)) (m_files m)"

definition KeysUnderPrefix :: "string \<Rightarrow> manifest \<Rightarrow> string list" where
  "KeysUnderPrefix p m =
     (let date = extractDateFromPrefix p in
      if date \<noteq> []
      then concat (map (\<lambda>(part, fs). map fi_Key (filter (\<lambda>fi. hasPrefix (fi_Key fi) p) fs))
             (filter (\<lambda>(part, fs). hasPrefix part (''dt='' @ date @ ''/'')) (m_files m)))
      else concat (map (\<lambda>(part, fs). map fi_Key (filter (\<lambda>fi. p = [] \<or> hasPrefix (fi_Key fi) p) fs)) (m_files m)))"

definition PartitionForKey :: "string \<Rightarrow> manifest \<Rightarrow> string option" where
  "PartitionForKey key m = mget (m_byKey m) key"

definition GetFileByKey :: "string \<Rightarrow> manifest \<Rightarrow> fileInfo option" where
  "GetFileByKey key m =
     (case mget (m_byKey m) key of
        None \<Rightarrow> None
      | Some p \<Rightarrow> find (\<lambda>fi. fi_Key fi = key) (filesOf (m_files m) p))"

end
