(* ===== verification/ManifestRefresh.thy ===== *)
theory ManifestRefresh
  imports Manifest
begin

text \<open>
  The refresh of the manifest from a bucket listing, and what readers ask of the manifest:
  \<open>src/internal/manifest/manifest.go\<close> (\<open>mergeRefreshedFilesLocked\<close> to
  \<open>applyRefreshedFiles\<close>, the range queries and the per-file updates) and
  \<open>refreshExclusionsLocked\<close>, \<open>afterAcceptedRefreshLocked\<close> of
  \<open>src/internal/manifest/retired.go\<close>.

  A refresh reads the manifest twice: once under the read lock to probe a shrinking listing, once under
  the write lock to apply it. What other goroutines do in between is the parameter \<open>env\<close>. The
  random sample of the probe is the parameter \<open>pick\<close>, the HEAD request is \<open>probe\<close>.
\<close>

section \<open>What a listing may not adopt\<close>

definition underSkipped :: "string \<Rightarrow> string list \<Rightarrow> bool" where
  "underSkipped key skipped = list_ex (\<lambda>p. hasPrefix key p) skipped"

definition listedKeys :: "fileMap \<Rightarrow> string list" where
  "listedKeys files = concat (map (\<lambda>(p, fs). map fi_Key fs) files)"

definition excludeListing :: "manifest \<Rightarrow> fileMap \<Rightarrow> fileMap" where
  "excludeListing m files =
     filter (\<lambda>(p, fs). fs \<noteq> [])
       (map (\<lambda>(p, fs). (p, filter (\<lambda>fi. \<not> mhas (m_retired m) (fi_Key fi) \<and> \<not> mhas (m_pending m) (fi_Key fi)) fs)) files)"

definition keepRecent :: "manifest \<Rightarrow> string \<times> int \<Rightarrow> string list \<times> fileMap \<Rightarrow> string list \<times> fileMap" where
  "keepRecent m ra st =
     (case st of (listed, files) \<Rightarrow>
        if fst ra \<in> set listed then (listed, files)
        else (fst ra # listed,
          (case mget (m_byKey m) (fst ra) of
             None \<Rightarrow> files
           | Some p \<Rightarrow>
               (case find (\<lambda>fi. fi_Key fi = fst ra) (filesOf (m_files m) p) of
                  None \<Rightarrow> files
                | Some fi \<Rightarrow> mput p (filesOf files p @ [fi]) files))))"

definition refreshExclusionsLocked :: "manifest \<Rightarrow> fileMap \<Rightarrow> int \<Rightarrow> fileMap \<times> string list" where
  "refreshExclusionsLocked m files listStart =
     (let listed = listedKeys files;
          confirmedGone = map fst (filter (\<lambda>(k, rk). k \<notin> set listed \<and> rk_At rk < listStart) (m_retired m))
      in (snd (fold (keepRecent m) (recentAddsSinceLocked m listStart) (listed, excludeListing m files)),
          confirmedGone))"

section \<open>Merging a listing into the tracked files\<close>

text \<open>A tracked entry stays as it is; only the bucket (when it had none) and a newer storage class
  come from the listing.\<close>

definition mergeEntry :: "fileInfo \<Rightarrow> fileInfo \<Rightarrow> fileInfo" where
  "mergeEntry old listed =
     (let o1 = (if fi_Bucket old = [] then old\<lparr>fi_Bucket := fi_Bucket listed\<rparr> else old)
      in if fi_StorageClass listed \<noteq> [] \<and> \<not> fi_ClassCheckedAt listed < fi_ClassCheckedAt o1
         then o1\<lparr>fi_StorageClass := fi_StorageClass listed, fi_ClassCheckedAt := fi_ClassCheckedAt listed,
                 fi_ClassSource := fi_ClassSource listed\<rparr>
         else o1)"

text \<open>\<open>oldByKey\<close> is filled in slice order, so the last entry of a key counts.\<close>

definition mergeFile :: "fileInfo list \<Rightarrow> fileInfo \<Rightarrow> fileInfo" where
  "mergeFile olds fi =
     (case find (\<lambda>o1. fi_Key o1 = fi_Key fi) (rev olds) of None \<Rightarrow> fi | Some o1 \<Rightarrow> mergeEntry o1 fi)"

definition inferBounds :: "string \<Rightarrow> fileInfo \<Rightarrow> fileInfo" where
  "inferBounds p fi =
     (case parsePartitionTime p of
        None \<Rightarrow> fi
      | Some t \<Rightarrow>
          let f1 = (if fi_MinTimeNs fi = 0 then fi\<lparr>fi_MinTimeNs := unixNano t, fi_BoundsInferred := True\<rparr> else fi)
          in if fi_MaxTimeNs f1 = 0
             then f1\<lparr>fi_MaxTimeNs := to_int64 (unixNano (t + hour) - 1), fi_BoundsInferred := True\<rparr> else f1)"

definition mergeRefreshedFilesLocked :: "manifest \<Rightarrow> fileMap \<Rightarrow> int \<Rightarrow> fileMap \<times> string list" where
  "mergeRefreshedFilesLocked m files listStart =
     (case refreshExclusionsLocked m files listStart of
        (fs, gone) \<Rightarrow>
          (map (\<lambda>(p, l). (p, map (\<lambda>fi. inferBounds p (mergeFile (filesOf (m_files m) p) fi)) l)) fs, gone))"

definition carryOne :: "string list \<Rightarrow> string \<Rightarrow> fileInfo \<Rightarrow> string list \<times> fileMap \<Rightarrow> string list \<times> fileMap" where
  "carryOne skipped p fi st =
     (case st of (have', files) \<Rightarrow>
        if \<not> underSkipped (fi_Key fi) skipped \<or> fi_Key fi \<in> set have' then (have', files)
        else (fi_Key fi # have', mput p (filesOf files p @ [fi]) files))"

definition carrySkippedLocked :: "manifest \<Rightarrow> fileMap \<Rightarrow> string list \<Rightarrow> fileMap" where
  "carrySkippedLocked m files skipped =
     snd (fold (\<lambda>(p, fs) st. fold (carryOne skipped p) fs st) (m_files m)
       (filter (\<lambda>k. underSkipped k skipped) (listedKeys files), files))"

text \<open>One partition of \<open>dedupeRefreshedFiles\<close>: the first entry of a key stays.\<close>

fun dedupeList :: "string list \<Rightarrow> fileInfo list \<Rightarrow> string list \<times> fileInfo list" where
  "dedupeList seen [] = (seen, [])"
| "dedupeList seen (fi # fs) =
     (if fi_Key fi \<in> set seen then dedupeList seen fs
      else case dedupeList (fi_Key fi # seen) fs of (seen', kept) \<Rightarrow> (seen', fi # kept))"

fun dedupeLoop :: "string list \<Rightarrow> string list \<Rightarrow> fileMap \<Rightarrow> fileMap" where
  "dedupeLoop seen [] files = files"
| "dedupeLoop seen (p # ps) files =
     (case dedupeList seen (filesOf files p) of
        (seen', kept) \<Rightarrow>
          dedupeLoop seen' ps (if kept = [] then mdel p files else mput p kept files))"

definition dedupeRefreshedFiles :: "fileMap \<Rightarrow> fileMap" where
  "dedupeRefreshedFiles files = dedupeLoop [] (sort_slice (<) (mkeys files)) files"

section \<open>Probing a listing that shrinks\<close>

datatype shrinkVerdict = shrinkNotChecked | shrinkConfirmed | shrinkLive | shrinkUnconfirmed

definition cliffProbeSample :: nat where "cliffProbeSample = 16"

text \<open>The reservoir: \<open>pick n\<close> is the random index below \<open>n\<close>.\<close>

definition reservoir :: "(nat \<Rightarrow> nat) \<Rightarrow> string \<times> string \<Rightarrow> nat \<times> (string \<times> string) list \<Rightarrow> nat \<times> (string \<times> string) list" where
  "reservoir pick c st =
     (case st of (dropped, sample) \<Rightarrow>
        let d = Suc dropped
        in (d, if length sample < cliffProbeSample then sample @ [c]
               else if pick d < cliffProbeSample then sample[pick d := c] else sample))"

type_synonym prober = "string \<Rightarrow> string \<Rightarrow> string + bool"

fun verdictOf :: "(string + bool) list \<Rightarrow> shrinkVerdict \<Rightarrow> shrinkVerdict" where
  "verdictOf [] v = v"
| "verdictOf (Inr True # rs) v = shrinkLive"
| "verdictOf (Inr False # rs) v = verdictOf rs v"
| "verdictOf (Inl e # rs) v = verdictOf rs shrinkUnconfirmed"

definition probeKept :: "manifest \<Rightarrow> fileMap \<Rightarrow> int \<Rightarrow> string list" where
  "probeKept m files listStart =
     remdups (filter (\<lambda>k. \<not> mhas (m_retired m) k \<and> \<not> mhas (m_pending m) k) (listedKeys files)
       @ filter (mhas (m_byKey m)) (map fst (recentAddsSinceLocked m listStart)))"

definition probeShrink :: "(nat \<Rightarrow> nat) \<Rightarrow> prober option \<Rightarrow> fileMap \<Rightarrow> int \<Rightarrow> string list \<Rightarrow> manifest \<Rightarrow> shrinkVerdict" where
  "probeShrink pick probe files listStart skipped m =
     (if m_totalFiles m = 0 then shrinkNotChecked
      else let kept = probeKept m files listStart;
               rest = filter (\<lambda>(k, p). k \<notin> set kept) (m_byKey m);
               carried = filter (\<lambda>(k, p). skipped \<noteq> [] \<and> underSkipped k skipped) rest;
               lost = filter (\<lambda>(k, p). \<not> (skipped \<noteq> [] \<and> underSkipped k skipped)) rest;
               sample = snd (fold (reservoir pick) lost (0, []))
           in if int (length kept + length carried) \<ge> m_totalFiles m div 2 then shrinkNotChecked
              else case probe of
                None \<Rightarrow> shrinkUnconfirmed
              | Some f \<Rightarrow>
                  verdictOf (map (\<lambda>(k, p).
                      f (case find (\<lambda>fi. fi_Key fi = k) (filesOf (m_files m) p) of None \<Rightarrow> [] | Some fi \<Rightarrow> fi_Bucket fi) k) sample)
                    shrinkConfirmed)"

section \<open>Applying a listing\<close>

definition afterAcceptedRefreshLocked :: "string list \<Rightarrow> int \<Rightarrow> string list \<Rightarrow> int \<Rightarrow> manifest \<Rightarrow> manifest" where
  "afterAcceptedRefreshLocked confirmedGone listStart skipped now m =
     pruneRetiredLocked now
       (m\<lparr>m_retired := mdels confirmedGone (m_retired m),
          m_recentAdds := recentAddsSinceLocked m listStart,
          m_awaitingAdoption := filter (\<lambda>(k, at). \<not> (at < listStart \<and> \<not> underSkipped k skipped)) (m_awaitingAdoption m)\<rparr>)"

definition sumSizes :: "fileMap \<Rightarrow> int" where
  "sumSizes files = sum_list (map (\<lambda>(p, fs). sum_list (map fi_Size fs)) files)"

definition countFiles :: "fileMap \<Rightarrow> int" where
  "countFiles files = sum_list (map (\<lambda>(p, fs). int (length fs)) files)"

definition timesOf :: "fileMap \<Rightarrow> int option \<times> int option" where
  "timesOf files =
     fold (\<lambda>(p, fs) (lo, hi).
         case parsePartitionTime p of
           None \<Rightarrow> (lo, hi)
         | Some t \<Rightarrow>
             ((case lo of None \<Rightarrow> Some t | Some x \<Rightarrow> if t < x then Some t else Some x),
              (case hi of None \<Rightarrow> Some (t + hour) | Some x \<Rightarrow> if t + hour > x then Some (t + hour) else Some x)))
       files (None, None)"

text \<open>The files a refresh would install, and the retired keys the listing settles.\<close>

definition refreshedFiles :: "manifest \<Rightarrow> fileMap \<Rightarrow> int \<Rightarrow> string list \<Rightarrow> fileMap \<times> string list" where
  "refreshedFiles m files listStart skipped =
     (case mergeRefreshedFilesLocked m files listStart of
        (fs, gone) \<Rightarrow>
          if skipped \<noteq> []
          then (dedupeRefreshedFiles (carrySkippedLocked m fs skipped), filter (\<lambda>k. \<not> underSkipped k skipped) gone)
          else (dedupeRefreshedFiles fs, gone))"

definition installFiles :: "fileMap \<Rightarrow> int \<Rightarrow> string list \<Rightarrow> int \<Rightarrow> manifest \<Rightarrow> manifest" where
  "installFiles fs listStart skipped now m =
     (let m1 = rebuildIndex (rebuildTenantAggregates (rebuildByKey (m\<lparr>m_files := fs\<rparr>)));
          m2 = m1\<lparr>m_minTime := fst (timesOf fs), m_maxTime := snd (timesOf fs), m_totalFiles := countFiles fs,
                  m_totalBytes := sumSizes fs, m_lastRefresh := Some now\<rparr>
      in if skipped = []
         then m2\<lparr>m_listed := True, m_lastComplete := (Some listStart, Suc (snd (m_lastComplete m2)))\<rparr>
         else m2)"

text \<open>What happens under the write lock, with the verdict of the probe.\<close>

definition applyLocked :: "shrinkVerdict \<Rightarrow> int \<Rightarrow> fileMap \<Rightarrow> int \<Rightarrow> string list \<Rightarrow> manifest \<Rightarrow> bool \<times> manifest" where
  "applyLocked verdict now files listStart skipped m =
     (case refreshedFiles m files listStart skipped of
        (fs, gone) \<Rightarrow>
          if m_totalFiles m > 0 \<and> countFiles fs < m_totalFiles m div 2 \<and> verdict \<noteq> shrinkConfirmed
          then (False, m)
          else (True, afterAcceptedRefreshLocked gone listStart skipped now (installFiles fs listStart skipped now m)))"

definition applyRefreshedFiles ::
    "(nat \<Rightarrow> nat) \<Rightarrow> prober option \<Rightarrow> (manifest \<Rightarrow> manifest) \<Rightarrow> int \<Rightarrow> fileMap \<Rightarrow> int \<Rightarrow> string list \<Rightarrow> manifest
     \<Rightarrow> bool \<times> manifest" where
  "applyRefreshedFiles pick probe env now files listStart skipped m =
     applyLocked (probeShrink pick probe files listStart skipped m) now files listStart skipped (env m)"

text \<open>An object of a listing, and the file an unknown object is registered as.\<close>

definition listedFile :: "string \<Rightarrow> int \<Rightarrow> fileInfo" where
  "listedFile key size' =
     \<lparr>fi_Key = key, fi_Bucket = [], fi_Size = size', fi_RowCount = 0, fi_MinTimeNs = 0, fi_MaxTimeNs = 0,
      fi_BoundsInferred = False, fi_RawBytes = 0, fi_BloomBytes = 0, fi_SchemaFingerprint = [],
      fi_CompactionLevel = 0, fi_Labels = [], fi_ColumnStats = None, fi_LabelAggregates = [], fi_ColumnBytes = [],
      fi_StorageClass = [], fi_ClassCheckedAt = 0, fi_ClassSource = [], fi_CreatedAt = None, fi_TraceIDHex = False\<rparr>"

definition listingFiles :: "(string \<times> int) list \<Rightarrow> fileMap" where
  "listingFiles objects =
     fold (\<lambda>(key, size') files.
         if \<not> hasSuffix key ''.parquet'' then files
         else let p = extractPartition key
              in if p = [] then files else mput p (filesOf files p @ [listedFile key size']) files)
       objects []"

definition ApplyPartialListing ::
    "(nat \<Rightarrow> nat) \<Rightarrow> prober option \<Rightarrow> (manifest \<Rightarrow> manifest) \<Rightarrow> int \<Rightarrow> (string \<times> int) list \<Rightarrow> int \<Rightarrow> string list \<Rightarrow> manifest
     \<Rightarrow> bool \<times> manifest" where
  "ApplyPartialListing pick probe env now objects listStart skipped m =
     applyRefreshedFiles pick probe env now (listingFiles objects) listStart skipped m"

definition ApplyListing ::
    "(nat \<Rightarrow> nat) \<Rightarrow> prober option \<Rightarrow> (manifest \<Rightarrow> manifest) \<Rightarrow> int \<Rightarrow> (string \<times> int) list \<Rightarrow> int \<Rightarrow> manifest \<Rightarrow> bool \<times> manifest" where
  "ApplyListing pick probe env now objects listStart m = ApplyPartialListing pick probe env now objects listStart [] m"

definition CompleteSince :: "int \<Rightarrow> manifest \<Rightarrow> bool" where
  "CompleteSince t m =
     (snd (m_lastComplete m) > 0 \<and> (case fst (m_lastComplete m) of None \<Rightarrow> False | Some s \<Rightarrow> s > t))"

section \<open>Reading the manifest\<close>

definition HasDataForRange :: "int \<Rightarrow> int \<Rightarrow> manifest \<Rightarrow> bool" where
  "HasDataForRange startNs endNs m =
     (if m_totalFiles m = 0 then False
      else (case m_maxTime m of None \<Rightarrow> False | Some hi \<Rightarrow> \<not> startNs > hi)
           \<and> (case m_minTime m of None \<Rightarrow> True | Some lo \<Rightarrow> \<not> endNs < lo))"

definition inFileRange :: "int \<Rightarrow> int \<Rightarrow> fileInfo \<Rightarrow> bool" where
  "inFileRange startNs endNs fi \<longleftrightarrow>
     \<not> (fi_MinTimeNs fi \<noteq> 0 \<and> fi_MaxTimeNs fi \<noteq> 0 \<and> (fi_MaxTimeNs fi < startNs \<or> fi_MinTimeNs fi > endNs))"

text \<open>The partitions a range query walks: from the first one that ends after the start, up to the
  first one that starts after the end.\<close>

definition rangePartitions :: "int \<Rightarrow> int \<Rightarrow> manifest \<Rightarrow> partitionEntry list" where
  "rangePartitions startNs endNs m =
     (let ps = m_sortedPartitions m;
          idx = sortSearch (length ps) (\<lambda>i. pe_end (ps ! i) > startNs)
      in takeWhile (\<lambda>p. \<not> pe_start p > endNs) (drop idx ps))"

definition GetFilesForRange :: "int \<Rightarrow> int \<Rightarrow> manifest \<Rightarrow> fileInfo list" where
  "GetFilesForRange startNs endNs m =
     sort_slice (\<lambda>a b. fi_Key a < fi_Key b)
       (concat (map (\<lambda>p. filter (inFileRange startNs endNs) (filesOf (m_files m) (pe_key p)))
         (rangePartitions startNs endNs m)))"

definition filesInAccumRangeLocked :: "tenantAccum \<Rightarrow> int \<Rightarrow> int \<Rightarrow> string \<Rightarrow> manifest \<Rightarrow> fileInfo list" where
  "filesInAccumRangeLocked a startNs endNs keyPrefix m =
     sort_slice (\<lambda>x y. fi_MinTimeNs x < fi_MinTimeNs y)
       (concat (map (\<lambda>p. filter (\<lambda>fi. (keyPrefix = [] \<or> hasPrefix (fi_Key fi) keyPrefix) \<and> inFileRange startNs endNs fi)
           (filesOf (m_files m) (pe_key p)))
         (filter (\<lambda>p. \<not> partCount a (pe_key p) \<le> 0) (rangePartitions startNs endNs m))))"

definition GetFilesForRangeTenant :: "int \<Rightarrow> int \<Rightarrow> string \<Rightarrow> string \<Rightarrow> manifest \<Rightarrow> fileInfo list" where
  "GetFilesForRangeTenant startNs endNs account project m =
     (if account = [] then GetFilesForRange startNs endNs m
      else case mget (m_tenantAggregates m) (account, project) of
        None \<Rightarrow> []
      | Some a \<Rightarrow>
          if ta_partitions a = [] then []
          else filesInAccumRangeLocked a startNs endNs
                 (account @ ''/'' @ (if project \<noteq> [] then project @ ''/'' else [])) m)"

definition GetFilesForRangeUntenanted :: "int \<Rightarrow> int \<Rightarrow> manifest \<Rightarrow> fileInfo list" where
  "GetFilesForRangeUntenanted startNs endNs m =
     (case m_legacyAggregate m of
        None \<Rightarrow> []
      | Some a \<Rightarrow>
          if ta_partitions a = [] then []
          else filter (\<lambda>fi. tenantKeyFromFileKey m (fi_Key fi) = None)
                 (filesInAccumRangeLocked a startNs endNs [] m))"

definition SoleTenant :: "manifest \<Rightarrow> (string \<times> string) option" where
  "SoleTenant m =
     (let legacy = (case m_legacyAggregate m of None \<Rightarrow> False | Some a \<Rightarrow> ta_files a > 0)
      in case m_tenantAggregates m of
           [] \<Rightarrow> if legacy then Some (''0'', ''0'') else None
         | [((account, project), a)] \<Rightarrow>
             if legacy \<and> (account \<noteq> ''0'' \<or> (project \<noteq> ''0'' \<and> project \<noteq> [])) then None else Some (account, project)
         | _ \<Rightarrow> None)"

definition addCounts :: "(string, int) gomap \<Rightarrow> (string, int) gomap \<Rightarrow> (string, int) gomap" where
  "addCounts agg counts =
     fold (\<lambda>(v, c) cs. mput v ((case mget cs v of None \<Rightarrow> 0 | Some n \<Rightarrow> n) + c) cs) agg counts"

definition countStep :: "int \<Rightarrow> int \<Rightarrow> string \<Rightarrow> fileInfo \<Rightarrow> (string, int) gomap \<times> fileInfo list \<Rightarrow> (string, int) gomap \<times> fileInfo list" where
  "countStep startNs endNs fld fi st =
     (case st of (counts, uncovered) \<Rightarrow>
        if fi_MinTimeNs fi > 0 \<and> fi_MaxTimeNs fi > 0 \<and> fi_MinTimeNs fi \<ge> startNs \<and> fi_MaxTimeNs fi \<le> endNs
        then (case mget (fi_LabelAggregates fi) fld of
                Some agg \<Rightarrow> (addCounts agg counts, uncovered)
              | None \<Rightarrow> (counts, uncovered @ [fi]))
        else (counts, uncovered @ [fi]))"

definition CountByLabel :: "int \<Rightarrow> int \<Rightarrow> string \<Rightarrow> string \<Rightarrow> string \<Rightarrow> manifest \<Rightarrow> (string, int) gomap \<times> fileInfo list \<times> bool" where
  "CountByLabel startNs endNs account project fld m =
     (case fold (countStep startNs endNs fld) (GetFilesForRangeTenant startNs endNs account project m) ([], []) of
        (counts, uncovered) \<Rightarrow> (counts, uncovered, uncovered = []))"

definition LabelValueCounts :: "string \<Rightarrow> manifest \<Rightarrow> (string, int) gomap" where
  "LabelValueCounts fld m =
     fold (\<lambda>(p, fs) out. fold (\<lambda>fi out. case mget (fi_LabelAggregates fi) fld of
         None \<Rightarrow> out | Some agg \<Rightarrow> addCounts agg out) fs out) (m_files m) []"

section \<open>Updates of one file\<close>

definition hourShaped :: "string \<Rightarrow> int \<Rightarrow> int \<Rightarrow> bool" where
  "hourShaped key minNs maxNs =
     (let p = extractPartition key
      in if p = [] then False
         else case parsePartitionTime p of
           None \<Rightarrow> False
         | Some t \<Rightarrow> minNs = unixNano t \<and> maxNs = to_int64 (unixNano (t + hour) - 1))"

fun updateFirst :: "string \<Rightarrow> (fileInfo \<Rightarrow> fileInfo) \<Rightarrow> fileInfo list \<Rightarrow> fileInfo list" where
  "updateFirst key f [] = []"
| "updateFirst key f (fi # fs) = (if fi_Key fi = key then f fi # fs else fi # updateFirst key f fs)"

text \<open>\<open>findFileForWriteLocked\<close> and the assignment that follows it.\<close>

definition updateFile :: "string \<Rightarrow> (fileInfo \<Rightarrow> fileInfo) \<Rightarrow> manifest \<Rightarrow> manifest" where
  "updateFile key f m =
     (case mget (m_byKey m) key of
        None \<Rightarrow> m
      | Some p \<Rightarrow>
          if list_ex (\<lambda>fi. fi_Key fi = key) (filesOf (m_files m) p)
          then m\<lparr>m_files := mput p (updateFirst key f (filesOf (m_files m) p)) (m_files m)\<rparr> else m)"

definition SetFileBucket :: "string \<Rightarrow> string \<Rightarrow> manifest \<Rightarrow> manifest" where
  "SetFileBucket key bucket' m = updateFile key (\<lambda>fi. fi\<lparr>fi_Bucket := bucket'\<rparr>) m"

definition UpdateFileColumnStats :: "string \<Rightarrow> (string, columnMinMax) gomap option \<Rightarrow> manifest \<Rightarrow> manifest" where
  "UpdateFileColumnStats key st m = updateFile key (\<lambda>fi. fi\<lparr>fi_ColumnStats := st\<rparr>) m"

definition MarkTraceIDHex :: "string \<Rightarrow> manifest \<Rightarrow> manifest" where
  "MarkTraceIDHex key m = updateFile key (\<lambda>fi. fi\<lparr>fi_TraceIDHex := True\<rparr>) m"

definition enrich :: "int \<Rightarrow> int \<Rightarrow> int \<Rightarrow> fileInfo \<Rightarrow> fileInfo" where
  "enrich rowCount minNs maxNs fi =
     (let f1 = (if fi_RowCount fi = 0 \<and> rowCount > 0 then fi\<lparr>fi_RowCount := rowCount\<rparr> else fi)
      in if fi_BoundsInferred f1
         then if minNs > 0 \<and> maxNs \<ge> minNs \<and> \<not> hourShaped (fi_Key f1) minNs maxNs
              then f1\<lparr>fi_MinTimeNs := minNs, fi_MaxTimeNs := maxNs, fi_BoundsInferred := False\<rparr> else f1
         else f1\<lparr>fi_MinTimeNs := (if fi_MinTimeNs f1 = 0 \<and> minNs > 0 then minNs else fi_MinTimeNs f1),
                 fi_MaxTimeNs := (if fi_MaxTimeNs f1 = 0 \<and> maxNs > 0 then maxNs else fi_MaxTimeNs f1)\<rparr>)"

definition EnrichFileMetadata :: "string \<Rightarrow> int \<Rightarrow> int \<Rightarrow> int \<Rightarrow> manifest \<Rightarrow> manifest" where
  "EnrichFileMetadata key rowCount minNs maxNs m =
     (case GetFileByKey key m of
        None \<Rightarrow> m
      | Some fi \<Rightarrow>
          let m1 = updateFile key (enrich rowCount minNs maxNs) m
          in if fi_RowCount fi = 0 \<and> rowCount > 0
             then (case tenantKeyFromFileKey m1 key of
                     None \<Rightarrow> m1
                   | Some tk \<Rightarrow>
                       (case mget (m_tenantAggregates m1) tk of
                          None \<Rightarrow> m1
                        | Some a \<Rightarrow> m1\<lparr>m_tenantAggregates := mput tk (a\<lparr>ta_rows := ta_rows a + rowCount\<rparr>) (m_tenantAggregates m1)\<rparr>))
             else m1)"

definition SetPrefixTemplate :: "string \<Rightarrow> manifest \<Rightarrow> manifest" where
  "SetPrefixTemplate tmpl m =
     m\<lparr>m_prefixTemplate := tmpl,
       m_templateSegments := (if containsStr tmpl ''{OrgID}'' \<and> \<not> containsStr tmpl ''{ProjectID}'' then 1 else 2)\<rparr>"

end
