(* ===== verification/ManifestInv.thy ===== *)
theory ManifestInv
  imports ManifestRefresh
begin

text \<open>
  The invariants of the manifest and that every operation keeps them.

  \<^item> \<open>files_ok\<close>: each key is tracked once, \<open>byKey\<close> is exactly the index of the tracked files,
    and the totals are right.
  \<^item> \<open>guard_ok\<close>: registered, retired and pending keys are pairwise disjoint, a retirement whose
    delete landed owes nothing, and the add log is sorted.
  \<^item> \<open>index_ok\<close>: the partition index lists the partitions with a time, in order.
  \<^item> \<open>agg_ok\<close>: the tenant aggregates count the tracked files.
\<close>

section \<open>The invariants\<close>

definition allFiles :: "fileMap \<Rightarrow> fileInfo list" where
  "allFiles fs = concat (map snd fs)"

definition map_ok :: "fileMap \<Rightarrow> bool" where
  "map_ok fs \<longleftrightarrow> wfmap fs \<and> (\<forall>(p, l) \<in> set fs. l \<noteq> []) \<and> distinct (map fi_Key (allFiles fs))"

definition indexes :: "(string, string) gomap \<Rightarrow> fileMap \<Rightarrow> bool" where
  "indexes bk fs \<longleftrightarrow> wfmap bk
     \<and> (\<forall>k p. mget bk k = Some p \<longleftrightarrow> (\<exists>fi \<in> set (filesOf fs p). fi_Key fi = k))"

definition files_ok :: "manifest \<Rightarrow> bool" where
  "files_ok m \<longleftrightarrow> map_ok (m_files m) \<and> indexes (m_byKey m) (m_files m)
     \<and> m_totalFiles m = int (length (allFiles (m_files m)))
     \<and> m_totalBytes m = sum_list (map fi_Size (allFiles (m_files m)))"

definition guard_ok :: "manifest \<Rightarrow> bool" where
  "guard_ok m \<longleftrightarrow> wfmap (m_retired m) \<and> wfmap (m_pending m)
     \<and> (\<forall>k rk. mget (m_retired m) k = Some rk \<longrightarrow> rk_Key rk = k \<and> \<not> (rk_Reclaim rk \<and> rk_Deleted rk))
     \<and> (\<forall>k. mhas (m_byKey m) k \<longrightarrow> \<not> mhas (m_retired m) k \<and> \<not> mhas (m_pending m) k)
     \<and> (\<forall>k. mhas (m_retired m) k \<longrightarrow> \<not> mhas (m_pending m) k)
     \<and> sorted (map snd (m_recentAdds m))"

definition index_ok :: "manifest \<Rightarrow> bool" where
  "index_ok m \<longleftrightarrow> distinct (m_sortedPartitions m)
     \<and> sorted_wrt (\<lambda>a b. \<not> entryBefore b a) (m_sortedPartitions m)
     \<and> set (m_sortedPartitions m) = set (List.map_filter entryOf (mkeys (m_files m)))"

definition man_ok :: "manifest \<Rightarrow> bool" where
  "man_ok m \<longleftrightarrow> files_ok m \<and> guard_ok m \<and> index_ok m"

lemma man_ok_New: "man_ok New"
  by (simp add: man_ok_def files_ok_def guard_ok_def index_ok_def map_ok_def indexes_def New_def allFiles_def
      filesOf_def mhas_def List.map_filter_def)

section \<open>File maps\<close>

lemma filesOf_mput [simp]: "filesOf (mput p l fs) q = (if q = p then l else filesOf fs q)"
  by (simp add: filesOf_def go_map)

lemma filesOf_mdel [simp]: "filesOf (mdel p fs) q = (if q = p then [] else filesOf fs q)"
  by (simp add: filesOf_def go_map)

lemma filesOf_notin: "p \<notin> set (mkeys fs) \<Longrightarrow> filesOf fs p = []"
  by (simp add: filesOf_def map_of_eq_None_iff split: option.split) (metis option.distinct(1) map_of_eq_None_iff)

lemma filesOf_in: "wfmap fs \<Longrightarrow> (p, l) \<in> set fs \<Longrightarrow> filesOf fs p = l"
  by (simp add: filesOf_def)

lemma mset_mdel: "wfmap fs \<Longrightarrow> mset (allFiles (mdel p fs)) + mset (filesOf fs p) = mset (allFiles fs)"
proof (induction fs)
  case (Cons x fs)
  obtain q l where x: "x = (q, l)" by (cases x)
  show ?case
  proof (cases "q = p")
    case True
    then have "mdel p fs = fs" using Cons.prems x by auto
    then show ?thesis using True x by (simp add: allFiles_def filesOf_def)
  next
    case False
    then show ?thesis using Cons x by (auto simp: allFiles_def filesOf_def ac_simps)
  qed
qed (simp add: allFiles_def filesOf_def)

lemma mset_mput: "wfmap fs \<Longrightarrow> mset (allFiles (mput p l fs)) + mset (filesOf fs p) = mset (allFiles fs) + mset l"
proof (induction fs)
  case (Cons x fs)
  obtain q k where x: "x = (q, k)" by (cases x)
  show ?case
  proof (cases "q = p")
    case True
    then show ?thesis using x by (simp add: allFiles_def filesOf_def ac_simps)
  next
    case False
    then show ?thesis using Cons x by (auto simp: allFiles_def filesOf_def ac_simps)
  qed
qed (simp add: allFiles_def filesOf_def)

lemma in_allFiles: "wfmap fs \<Longrightarrow> fi \<in> set (allFiles fs) \<longleftrightarrow> (\<exists>p. fi \<in> set (filesOf fs p))"
proof
  assume w: "wfmap fs" and "fi \<in> set (allFiles fs)"
  then obtain p l where "(p, l) \<in> set fs" "fi \<in> set l" by (auto simp: allFiles_def)
  with w show "\<exists>p. fi \<in> set (filesOf fs p)" using filesOf_in by metis
next
  assume "\<exists>p. fi \<in> set (filesOf fs p)"
  then obtain p where p: "fi \<in> set (filesOf fs p)" by blast
  then obtain l where "mget fs p = Some l" "fi \<in> set l" by (cases "mget fs p") (simp_all add: filesOf_def)
  then have "(p, l) \<in> set fs" by (blast dest: map_of_SomeD)
  with \<open>fi \<in> set l\<close> show "fi \<in> set (allFiles fs)" by (force simp: allFiles_def)
qed

text \<open>Two tracked files with one key are the same file of the same partition.\<close>

lemma map_ok_unique:
  assumes "map_ok fs" "a \<in> set (filesOf fs p)" "b \<in> set (filesOf fs q)" "fi_Key a = fi_Key b"
  shows "a = b \<and> p = q"
proof -
  have w: "wfmap fs" and d: "distinct (map fi_Key (allFiles fs))" using assms(1) by (auto simp: map_ok_def)
  have "a \<in> set (allFiles fs)" "b \<in> set (allFiles fs)" using in_allFiles [OF w] assms(2,3) by blast+
  then have ab: "a = b" using d assms(4) by (auto simp: distinct_map inj_on_def)
  have "p = q"
  proof (rule ccontr)
    assume "p \<noteq> q"
    have "mset (allFiles (mdel p fs)) + mset (filesOf fs p) = mset (allFiles fs)" by (rule mset_mdel [OF w])
    moreover have "a \<in> set (allFiles (mdel p fs))"
      using in_allFiles [OF wfmap_mdel [OF w], of a p] assms(3) ab \<open>p \<noteq> q\<close> by (metis filesOf_mdel)
    ultimately have "count (mset (allFiles fs)) a \<ge> 2"
      using assms(2) by (metis add_mono_thms_linordered_semiring(1) count_greater_eq_one_iff count_union
          nat_1_add_1 set_mset_mset)
    moreover have "count (mset (allFiles fs)) a \<le> 1"
      using distinct_map [THEN iffD1, OF d] by (simp add: distinct_count_atmost_1)
    ultimately show False by simp
  qed
  with ab show ?thesis ..
qed

lemma distinct_keys_mset:
  "mset xs = mset ys \<Longrightarrow> distinct (map fi_Key xs) = distinct (map fi_Key ys)"
  by (metis mset_eq_imp_distinct_iff mset_map)

lemma sizes_mset:
  fixes f :: "'a \<Rightarrow> int"
  shows "mset xs = mset ys \<Longrightarrow> sum_list (map f xs) = sum_list (map f ys)"
  by (metis mset_map sum_mset_sum_list)

lemma indexesD: "indexes bk fs \<Longrightarrow> mget bk k = Some p \<longleftrightarrow> (\<exists>fi \<in> set (filesOf fs p). fi_Key fi = k)"
  by (simp add: indexes_def)

lemma indexes_mhas: "indexes bk fs \<Longrightarrow> mhas bk k \<longleftrightarrow> (\<exists>p. \<exists>fi \<in> set (filesOf fs p). fi_Key fi = k)"
  by (auto simp: mhas_def indexesD [symmetric] simp del: map_of_eq_Some_iff)

section \<open>Adding a file\<close>

lemma addTo_map:
  assumes "map_ok fs" "\<And>q x. x \<in> set (filesOf fs q) \<Longrightarrow> fi_Key x \<noteq> fi_Key fi"
  shows "map_ok (mput p (filesOf fs p @ [fi]) fs)"
    "mset (allFiles (mput p (filesOf fs p @ [fi]) fs)) = add_mset fi (mset (allFiles fs))"
proof -
  have w: "wfmap fs" and ne: "\<forall>(p, l) \<in> set fs. l \<noteq> []" and d: "distinct (map fi_Key (allFiles fs))"
    using assms(1) by (auto simp: map_ok_def)
  show m: "mset (allFiles (mput p (filesOf fs p @ [fi]) fs)) = add_mset fi (mset (allFiles fs))"
    using mset_mput [OF w, of p "filesOf fs p @ [fi]"] by simp
  have "fi_Key fi \<notin> set (map fi_Key (allFiles fs))"
  proof
    assume "fi_Key fi \<in> set (map fi_Key (allFiles fs))"
    then obtain x where "x \<in> set (allFiles fs)" "fi_Key x = fi_Key fi" by auto
    then show False using assms(2) in_allFiles [OF w] by blast
  qed
  then have "distinct (map fi_Key (fi # allFiles fs))" using d by simp
  moreover have "mset (allFiles (mput p (filesOf fs p @ [fi]) fs)) = mset (fi # allFiles fs)" using m by simp
  ultimately have "distinct (map fi_Key (allFiles (mput p (filesOf fs p @ [fi]) fs)))"
    using distinct_keys_mset by metis
  moreover have "\<forall>(q, l) \<in> set (mput p (filesOf fs p @ [fi]) fs). l \<noteq> []"
  proof (clarify)
    fix q assume "(q, []) \<in> set (mput p (filesOf fs p @ [fi]) fs)"
    then have "mget (mput p (filesOf fs p @ [fi]) fs) q = Some []" using wfmap_mput [OF w] mget_in by metis
    then show False using ne w by (auto simp: go_map split: if_splits)
  qed
  ultimately show "map_ok (mput p (filesOf fs p @ [fi]) fs)" using w by (simp add: map_ok_def wfmap_mput)
qed

lemma addTo_indexes:
  assumes "indexes bk fs" "\<not> mhas bk (fi_Key fi)"
  shows "indexes (mput (fi_Key fi) p bk) (mput p (filesOf fs p @ [fi]) fs)"
proof -
  have nk: "x \<in> set (filesOf fs q) \<Longrightarrow> fi_Key x \<noteq> fi_Key fi" for q x
    using assms indexes_mhas by metis
  show ?thesis unfolding indexes_def
  proof (intro conjI allI)
    show "wfmap (mput (fi_Key fi) p bk)" using assms(1) by (simp add: indexes_def wfmap_mput)
    fix k q
    show "mget (mput (fi_Key fi) p bk) k = Some q
      \<longleftrightarrow> (\<exists>x \<in> set (filesOf (mput p (filesOf fs p @ [fi]) fs) q). fi_Key x = k)"
      using indexesD [OF assms(1), of k q] nk by (auto simp: go_map simp del: map_of_eq_Some_iff)
  qed
qed

lemma aggregateOnAdd_frame [simp]:
  "m_files (updateTenantAggregateOnAdd p fi m) = m_files m"
  "m_byKey (updateTenantAggregateOnAdd p fi m) = m_byKey m"
  "m_totalFiles (updateTenantAggregateOnAdd p fi m) = m_totalFiles m"
  "m_totalBytes (updateTenantAggregateOnAdd p fi m) = m_totalBytes m"
  "m_sortedPartitions (updateTenantAggregateOnAdd p fi m) = m_sortedPartitions m"
  "m_retired (updateTenantAggregateOnAdd p fi m) = m_retired m"
  "m_pending (updateTenantAggregateOnAdd p fi m) = m_pending m"
  "m_recentAdds (updateTenantAggregateOnAdd p fi m) = m_recentAdds m"
  "m_held (updateTenantAggregateOnAdd p fi m) = m_held m"
  "m_templateSegments (updateTenantAggregateOnAdd p fi m) = m_templateSegments m"
  "m_prefixTemplate (updateTenantAggregateOnAdd p fi m) = m_prefixTemplate m"
  by (simp_all add: updateTenantAggregateOnAdd_def Let_def split: option.split)

lemma aggregateOnRemove_frame [simp]:
  "m_files (updateTenantAggregateOnRemove p fi m) = m_files m"
  "m_byKey (updateTenantAggregateOnRemove p fi m) = m_byKey m"
  "m_totalFiles (updateTenantAggregateOnRemove p fi m) = m_totalFiles m"
  "m_totalBytes (updateTenantAggregateOnRemove p fi m) = m_totalBytes m"
  "m_sortedPartitions (updateTenantAggregateOnRemove p fi m) = m_sortedPartitions m"
  "m_retired (updateTenantAggregateOnRemove p fi m) = m_retired m"
  "m_pending (updateTenantAggregateOnRemove p fi m) = m_pending m"
  "m_recentAdds (updateTenantAggregateOnRemove p fi m) = m_recentAdds m"
  "m_held (updateTenantAggregateOnRemove p fi m) = m_held m"
  "m_templateSegments (updateTenantAggregateOnRemove p fi m) = m_templateSegments m"
  "m_prefixTemplate (updateTenantAggregateOnRemove p fi m) = m_prefixTemplate m"
  by (simp_all add: updateTenantAggregateOnRemove_def Let_def split: option.split)

lemma widenTimes_frame [simp]:
  "m_files (widenTimes p m) = m_files m" "m_byKey (widenTimes p m) = m_byKey m"
  "m_totalFiles (widenTimes p m) = m_totalFiles m" "m_totalBytes (widenTimes p m) = m_totalBytes m"
  "m_sortedPartitions (widenTimes p m) = m_sortedPartitions m" "m_retired (widenTimes p m) = m_retired m"
  "m_pending (widenTimes p m) = m_pending m" "m_recentAdds (widenTimes p m) = m_recentAdds m"
  "m_held (widenTimes p m) = m_held m"
  "m_tenantAggregates (widenTimes p m) = m_tenantAggregates m" "m_legacyAggregate (widenTimes p m) = m_legacyAggregate m"
  "m_templateSegments (widenTimes p m) = m_templateSegments m" "m_prefixTemplate (widenTimes p m) = m_prefixTemplate m"
  by (simp_all add: widenTimes_def split: option.split)

lemma noteAdded_frame [simp]:
  "m_files (noteAddedLocked k now m) = m_files m" "m_byKey (noteAddedLocked k now m) = m_byKey m"
  "m_totalFiles (noteAddedLocked k now m) = m_totalFiles m" "m_totalBytes (noteAddedLocked k now m) = m_totalBytes m"
  "m_sortedPartitions (noteAddedLocked k now m) = m_sortedPartitions m"
  "m_retired (noteAddedLocked k now m) = mdel k (m_retired m)"
  "m_pending (noteAddedLocked k now m) = mdel k (m_pending m)" "m_held (noteAddedLocked k now m) = m_held m"
  "m_tenantAggregates (noteAddedLocked k now m) = m_tenantAggregates m"
  "m_legacyAggregate (noteAddedLocked k now m) = m_legacyAggregate m"
  "m_templateSegments (noteAddedLocked k now m) = m_templateSegments m"
  "m_prefixTemplate (noteAddedLocked k now m) = m_prefixTemplate m"
  by (simp_all add: noteAddedLocked_def Let_def)

lemma sorted_adds:
  "sorted (map snd (m_recentAdds m)) \<Longrightarrow> sorted (map snd (m_recentAdds (noteAddedLocked k now m)))"
proof -
  assume s: "sorted (map snd (m_recentAdds m))"
  let ?a = "m_recentAdds m"
  let ?at = "if ?a \<noteq> [] \<and> now < snd (last ?a) then snd (last ?a) else now"
  have le: "x \<le> ?at" if "x \<in> set (map snd ?a)" for x
  proof -
    have "?a \<noteq> []" using that by auto
    moreover have "x \<le> last ys" if "sorted ys" "x \<in> set ys" for ys :: "int list"
      using that by (induction ys) auto
    ultimately have "x \<le> last (map snd ?a)" using s that by blast
    then show ?thesis using \<open>?a \<noteq> []\<close> by (auto simp: last_map)
  qed
  have "sorted (map snd (?a @ [(k, ?at)]))" using s le by (auto simp: sorted_append)
  moreover have "\<exists>n. m_recentAdds (noteAddedLocked k now m) = drop n (?a @ [(k, ?at)])"
    unfolding noteAddedLocked_def Let_def by (auto intro: exI [of _ 0] simp del: drop_append)
  ultimately show ?thesis by (auto simp: drop_map [symmetric] sorted_wrt_drop simp del: drop_append map_append)
qed

lemma addFile_frame:
  assumes "\<not> mhas (m_byKey m) (fi_Key fi)"
  shows "m_files (addFileLocked now p fi m) = mput p (filesOf (m_files m) p @ [fi]) (m_files m)"
    "m_byKey (addFileLocked now p fi m) = mput (fi_Key fi) p (m_byKey m)"
    "m_totalFiles (addFileLocked now p fi m) = m_totalFiles m + 1"
    "m_totalBytes (addFileLocked now p fi m) = m_totalBytes m + fi_Size fi"
    "m_retired (addFileLocked now p fi m) = mdel (fi_Key fi) (m_retired m)"
    "m_pending (addFileLocked now p fi m) = mdel (fi_Key fi) (m_pending m)"
    "m_recentAdds (addFileLocked now p fi m) = m_recentAdds (noteAddedLocked (fi_Key fi) now m)"
    "m_held (addFileLocked now p fi m) = m_held m"
    "m_sortedPartitions (addFileLocked now p fi m) =
       (if filesOf (m_files m) p = [] then insertPartition p (m_sortedPartitions m) else m_sortedPartitions m)"
  using assms by (simp_all add: addFileLocked_def Let_def)

lemma addFile_files_ok:
  assumes "files_ok m"
  shows "files_ok (addFileLocked now p fi m)"
proof (cases "mhas (m_byKey m) (fi_Key fi)")
  case False
  have F: "map_ok (m_files m)" "indexes (m_byKey m) (m_files m)" using assms by (auto simp: files_ok_def)
  have nk: "x \<in> set (filesOf (m_files m) q) \<Longrightarrow> fi_Key x \<noteq> fi_Key fi" for q x
    using False indexes_mhas [OF F(2)] by metis
  have A: "map_ok (mput p (filesOf (m_files m) p @ [fi]) (m_files m))"
    "mset (allFiles (mput p (filesOf (m_files m) p @ [fi]) (m_files m))) = add_mset fi (mset (allFiles (m_files m)))"
    by (rule addTo_map [OF F(1)]; use nk in blast)+
  have "length (allFiles (mput p (filesOf (m_files m) p @ [fi]) (m_files m))) = Suc (length (allFiles (m_files m)))"
    using arg_cong [OF A(2), of size] by simp
  moreover have "sum_list (map fi_Size (allFiles (mput p (filesOf (m_files m) p @ [fi]) (m_files m))))
      = fi_Size fi + sum_list (map fi_Size (allFiles (m_files m)))"
    using sizes_mset [of "allFiles (mput p (filesOf (m_files m) p @ [fi]) (m_files m))" "fi # allFiles (m_files m)" fi_Size] A(2)
    by simp
  ultimately show ?thesis
    using assms A(1) addTo_indexes [OF F(2) False, of p] by (simp add: files_ok_def addFile_frame [OF False])
qed (use assms in \<open>simp add: addFileLocked_def\<close>)

lemma addFile_guard_ok:
  assumes "guard_ok m"
  shows "guard_ok (addFileLocked now p fi m)"
proof (cases "mhas (m_byKey m) (fi_Key fi)")
  case False
  then show ?thesis using assms sorted_adds [of m "fi_Key fi" now]
    by (auto simp: guard_ok_def addFile_frame [OF False] go_map simp del: map_of_eq_Some_iff split: if_splits)
qed (use assms in \<open>simp add: addFileLocked_def\<close>)

section \<open>The partition index\<close>

interpretation partition_order: comparator entryBefore
  unfolding entryBefore_def by (rule comparator_key)

lemma entryOf_key: "entryOf p = Some e \<Longrightarrow> pe_key e = p"
  by (auto simp: entryOf_def)

lemma distinct_entries: "distinct ps \<Longrightarrow> distinct (List.map_filter entryOf ps)"
  by (induction ps) (auto simp: in_map_filter split: option.splits dest: entryOf_key)

lemma rebuildIndex_ok: "wfmap (m_files m) \<Longrightarrow> index_ok (rebuildIndex m)"
  by (simp add: index_ok_def rebuildIndex_def distinct_entries partition_order.sorted_sort_slice)

lemma rebuildIndex_frame [simp]:
  "m_files (rebuildIndex m) = m_files m" "m_byKey (rebuildIndex m) = m_byKey m"
  "m_totalFiles (rebuildIndex m) = m_totalFiles m" "m_totalBytes (rebuildIndex m) = m_totalBytes m"
  "m_retired (rebuildIndex m) = m_retired m" "m_pending (rebuildIndex m) = m_pending m"
  "m_recentAdds (rebuildIndex m) = m_recentAdds m" "m_held (rebuildIndex m) = m_held m"
  "m_tenantAggregates (rebuildIndex m) = m_tenantAggregates m" "m_legacyAggregate (rebuildIndex m) = m_legacyAggregate m"
  "m_templateSegments (rebuildIndex m) = m_templateSegments m" "m_prefixTemplate (rebuildIndex m) = m_prefixTemplate m"
  by (simp_all add: rebuildIndex_def)

lemma insertPartition_ok:
  assumes "sorted_wrt (\<lambda>a b. \<not> entryBefore b a) es" "distinct es" "entryOf p = Some e" "e \<notin> set es"
  shows "sorted_wrt (\<lambda>a b. \<not> entryBefore b a) (insertPartition p es)" "distinct (insertPartition p es)"
    "set (insertPartition p es) = insert e (set es)"
proof -
  let ?P = "\<lambda>x. \<not> pe_start x < pe_start e"
  let ?i = "sortSearch (length es) (\<lambda>j. ?P (es ! j))"
  have mono: "?P (es ! b)" if "a \<le> b" "b < length es" "?P (es ! a)" for a b
  proof (cases "a = b")
    case False
    then have "\<not> entryBefore (es ! b) (es ! a)" using assms(1) that by (auto simp: sorted_wrt_iff_nth_less)
    then show ?thesis using that(3) by (simp add: entryBefore_def)
  qed (use that in simp)
  have d: "drop ?i es = filter ?P es" by (rule drop_sortSearch(1)) (rule mono)
  have t: "take ?i es = filter (\<lambda>x. \<not> ?P x) es" by (rule drop_sortSearch(2)) (rule mono)
  have ins: "insertPartition p es = take ?i es @ e # drop ?i es"
    by (simp add: insertPartition_def assms(3) Let_def)
  show "set (insertPartition p es) = insert e (set es)" unfolding ins t d by auto
  show "distinct (insertPartition p es)" unfolding ins t d using assms(2,4) by auto
  have "sorted_wrt (\<lambda>a b. \<not> entryBefore b a) (take ?i es @ drop ?i es)" using assms(1) by simp
  then show "sorted_wrt (\<lambda>a b. \<not> entryBefore b a) (insertPartition p es)"
    unfolding ins sorted_wrt_append using t d by (auto simp: entryBefore_def)
qed

lemma entries_mput:
  "set (List.map_filter entryOf (mkeys (mput p l fs))) =
     (case entryOf p of None \<Rightarrow> set (List.map_filter entryOf (mkeys fs))
      | Some e \<Rightarrow> insert e (set (List.map_filter entryOf (mkeys fs))))"
proof -
  have "x \<in> set (List.map_filter entryOf (mkeys (mput p l fs))) \<longleftrightarrow> (\<exists>q \<in> insert p (set (mkeys fs)). entryOf q = Some x)" for x
    by (simp only: in_map_filter set_mkeys_mput)
  then show ?thesis by (auto simp: in_map_filter split: option.split)
qed

lemma addFile_index_ok:
  assumes "index_ok m" "files_ok m"
  shows "index_ok (addFileLocked now p fi m)"
proof (cases "mhas (m_byKey m) (fi_Key fi)")
  case False
  note F = addFile_frame [OF False]
  show ?thesis
  proof (cases "filesOf (m_files m) p = []")
    case True
    have "p \<notin> set (mkeys (m_files m))"
    proof
      assume "p \<in> set (mkeys (m_files m))"
      then obtain l where l: "(p, l) \<in> set (m_files m)" by auto
      then have "filesOf (m_files m) p = l" "l \<noteq> []"
        using assms(2) filesOf_in [of "m_files m"] by (auto simp: files_ok_def map_ok_def)
      with True show False by simp
    qed
    then have new: "e \<notin> set (m_sortedPartitions m)" if "entryOf p = Some e" for e
      using assms(1) that by (auto simp: index_ok_def in_map_filter dest!: entryOf_key)
    show ?thesis
    proof (cases "entryOf p")
      case None
      then show ?thesis using assms(1) True by (simp add: index_ok_def F insertPartition_def entries_mput)
    next
      case (Some e)
      note I = insertPartition_ok [OF _ _ Some new [OF Some]]
      show ?thesis using assms(1) True I by (simp add: index_ok_def F entries_mput Some)
    qed
  next
    case False
    then have "p \<in> set (mkeys (m_files m))" using filesOf_notin by blast
    then have "insert e (set (List.map_filter entryOf (mkeys (m_files m)))) = set (List.map_filter entryOf (mkeys (m_files m)))"
      if "entryOf p = Some e" for e using that by (auto simp: in_map_filter simp del: set_map)
    then show ?thesis using assms(1) False by (auto simp: index_ok_def F entries_mput split: option.split)
  qed
qed (use assms in \<open>simp add: addFileLocked_def\<close>)

section \<open>Removing a file\<close>

lemma removeFile_cases:
  "removeFileLocked p key m = (False, m) \<and> (\<forall>fi \<in> set (filesOf (m_files m) p). fi_Key fi \<noteq> key)
   \<or> (\<exists>fi as bs m'. removeFileLocked p key m = (True, m') \<and> filesOf (m_files m) p = as @ fi # bs \<and> fi_Key fi = key
      \<and> m_files m' = (if as @ bs = [] then mdel p (m_files m) else mput p (as @ bs) (m_files m))
      \<and> m_byKey m' = mdel key (m_byKey m)
      \<and> m_totalFiles m' = m_totalFiles m - 1 \<and> m_totalBytes m' = m_totalBytes m - fi_Size fi
      \<and> m_retired m' = m_retired m \<and> m_pending m' = m_pending m \<and> m_recentAdds m' = m_recentAdds m
      \<and> m_held m' = m_held m \<and> (wfmap (m_files m) \<longrightarrow> index_ok m'))"
proof (cases "find (\<lambda>fi. fi_Key fi = key) (filesOf (m_files m) p)")
  case None
  then have "removeFileLocked p key m = (False, m)" by (simp add: removeFileLocked_def)
  with None show ?thesis by (auto simp: find_None_iff)
next
  case (Some fi)
  then obtain i where i: "i < length (filesOf (m_files m) p)" "fi = filesOf (m_files m) p ! i" "fi_Key fi = key"
    "\<forall>j < i. fi_Key (filesOf (m_files m) p ! j) \<noteq> key"
    by (auto simp: find_Some_iff)
  let ?as = "take i (filesOf (m_files m) p)" and ?bs = "drop (Suc i) (filesOf (m_files m) p)"
  have split: "filesOf (m_files m) p = ?as @ fi # ?bs" using i(1,2) by (simp add: id_take_nth_drop)
  have "fi \<notin> set ?as" using i(3,4) by (auto simp: in_set_conv_nth)
  then have rem: "remove1 fi (filesOf (m_files m) p) = ?as @ ?bs"
    by (subst split) (simp add: remove1_append)
  have "\<exists>m'. removeFileLocked p key m = (True, m')
      \<and> m_files m' = (if ?as @ ?bs = [] then mdel p (m_files m) else mput p (?as @ ?bs) (m_files m))
      \<and> m_byKey m' = mdel key (m_byKey m)
      \<and> m_totalFiles m' = m_totalFiles m - 1 \<and> m_totalBytes m' = m_totalBytes m - fi_Size fi
      \<and> m_retired m' = m_retired m \<and> m_pending m' = m_pending m \<and> m_recentAdds m' = m_recentAdds m
      \<and> m_held m' = m_held m \<and> (wfmap (m_files m) \<longrightarrow> index_ok m')"
    unfolding removeFileLocked_def Some Let_def
    by (auto simp: rem intro!: rebuildIndex_ok distinct_update distinct_delete)
  with split i(3) show ?thesis by blast
qed

lemma removeFile_map:
  assumes "map_ok fs" "filesOf fs p = as @ fi # bs"
  defines "fs' \<equiv> (if as @ bs = [] then mdel p fs else mput p (as @ bs) fs)"
  shows "map_ok fs'" "add_mset fi (mset (allFiles fs')) = mset (allFiles fs)"
    "\<And>q. filesOf fs' q = (if q = p then as @ bs else filesOf fs q)"
proof -
  have w: "wfmap fs" and ne: "\<forall>(p, l) \<in> set fs. l \<noteq> []" and d: "distinct (map fi_Key (allFiles fs))"
    using assms(1) by (auto simp: map_ok_def)
  show f: "filesOf fs' q = (if q = p then as @ bs else filesOf fs q)" for q
    by (auto simp: fs'_def)
  show m: "add_mset fi (mset (allFiles fs')) = mset (allFiles fs)"
    using mset_mdel [OF w, of p] mset_mput [OF w, of p "as @ bs"] assms(2) by (auto simp: fs'_def)
  have w': "wfmap fs'" using w by (simp add: fs'_def wfmap_mput wfmap_mdel)
  have "distinct (map fi_Key (fi # allFiles fs'))"
    using distinct_keys_mset [of "fi # allFiles fs'" "allFiles fs"] d m by simp
  moreover have "l \<noteq> []" if "(q, l) \<in> set fs'" for q l
  proof -
    have "mget fs' q = Some l" using that w' by simp
    then have "q = p \<and> l = as @ bs \<and> as @ bs \<noteq> [] \<or> mget fs q = Some l"
      by (auto simp: fs'_def go_map simp del: map_of_eq_Some_iff split: if_splits)
    then show ?thesis using ne by (auto dest: map_of_SomeD)
  qed
  ultimately show "map_ok fs'" using w' by (auto simp: map_ok_def)
qed

lemma removeFile_ok:
  assumes "files_ok m" "removeFileLocked p key m = (removed, m')"
  shows "files_ok m'" "guard_ok m \<Longrightarrow> guard_ok m'" "index_ok m \<Longrightarrow> index_ok m'"
    "m_byKey m' = (if removed then mdel key (m_byKey m) else m_byKey m)"
    "m_retired m' = m_retired m" "m_pending m' = m_pending m" "m_held m' = m_held m"
    "mget (m_byKey m) key = Some p \<longleftrightarrow> removed" "m_recentAdds m' = m_recentAdds m"
proof -
  have F: "map_ok (m_files m)" "indexes (m_byKey m) (m_files m)" and w: "wfmap (m_files m)"
    using assms(1) by (auto simp: files_ok_def map_ok_def)
  note bk = indexesD [OF F(2), of key p]
  have "files_ok m' \<and> (guard_ok m \<longrightarrow> guard_ok m') \<and> (index_ok m \<longrightarrow> index_ok m')
    \<and> m_byKey m' = (if removed then mdel key (m_byKey m) else m_byKey m)
    \<and> m_retired m' = m_retired m \<and> m_pending m' = m_pending m \<and> m_held m' = m_held m
    \<and> (mget (m_byKey m) key = Some p \<longleftrightarrow> removed) \<and> m_recentAdds m' = m_recentAdds m"
    using removeFile_cases [of p key m]
  proof (elim disjE exE conjE)
    assume "removeFileLocked p key m = (False, m)" "\<forall>fi \<in> set (filesOf (m_files m) p). fi_Key fi \<noteq> key"
    then show ?thesis using assms bk by (auto simp del: map_of_eq_Some_iff)
  next
    fix fi as bs m1
    assume r: "removeFileLocked p key m = (True, m1)" "filesOf (m_files m) p = as @ fi # bs" "fi_Key fi = key"
      "m_files m1 = (if as @ bs = [] then mdel p (m_files m) else mput p (as @ bs) (m_files m))"
      "m_byKey m1 = mdel key (m_byKey m)" "m_totalFiles m1 = m_totalFiles m - 1"
      "m_totalBytes m1 = m_totalBytes m - fi_Size fi" "m_retired m1 = m_retired m" "m_pending m1 = m_pending m"
      "m_recentAdds m1 = m_recentAdds m" "m_held m1 = m_held m" "wfmap (m_files m) \<longrightarrow> index_ok m1"
    have m1: "m' = m1" "removed" using r(1) assms(2) by auto
    note M = removeFile_map [OF F(1) r(2), folded r(4)]
    have "distinct (map fi_Key (fi # allFiles (m_files m1)))"
      using distinct_keys_mset [of "fi # allFiles (m_files m1)" "allFiles (m_files m)"] F(1) M(2) by (simp add: map_ok_def)
    then have nk: "key \<notin> set (map fi_Key (allFiles (m_files m1)))" using r(3) by simp
    have gone: "fi_Key x \<noteq> key" if "x \<in> set (filesOf (m_files m1) q)" for x q
    proof -
      have "x \<in> set (allFiles (m_files m1))" using that in_allFiles M(1) by (auto simp: map_ok_def)
      then show ?thesis using nk by auto
    qed
    have old: "x \<in> set (filesOf (m_files m1) q) \<longleftrightarrow> x \<in> set (filesOf (m_files m) q) \<and> fi_Key x \<noteq> key" for x q
    proof (cases "q = p")
      case True
      then show ?thesis using gone [of x q] M(3) [of q] r(2,3) by auto
    next
      case False
      then show ?thesis using gone [of x q] M(3) [of q] by auto
    qed
    have ix: "indexes (m_byKey m1) (m_files m1)" unfolding indexes_def
    proof (intro conjI allI)
      show "wfmap (m_byKey m1)" using F(2) by (simp add: r(5) indexes_def wfmap_mdel)
      fix k q show "mget (m_byKey m1) k = Some q \<longleftrightarrow> (\<exists>x \<in> set (filesOf (m_files m1) q). fi_Key x = k)"
        using indexesD [OF F(2), of k q] old by (auto simp: r(5) go_map simp del: map_of_eq_Some_iff)
    qed
    have "length (allFiles (m_files m)) = Suc (length (allFiles (m_files m1)))"
      using arg_cong [OF M(2), of size] by simp
    moreover have "sum_list (map fi_Size (allFiles (m_files m))) = fi_Size fi + sum_list (map fi_Size (allFiles (m_files m1)))"
      using sizes_mset [of "allFiles (m_files m)" "fi # allFiles (m_files m1)" fi_Size] M(2) by simp
    ultimately have "files_ok m1" using assms(1) M(1) ix r(6,7) by (simp add: files_ok_def)
    moreover have "guard_ok m \<longrightarrow> guard_ok m1" by (auto simp: guard_ok_def r go_map simp del: map_of_eq_Some_iff)
    moreover have "mget (m_byKey m) key = Some p" using bk r(2,3) by auto
    ultimately show ?thesis using r w m1 by simp
  qed
  then show "files_ok m'" "guard_ok m \<Longrightarrow> guard_ok m'" "index_ok m \<Longrightarrow> index_ok m'"
    "m_byKey m' = (if removed then mdel key (m_byKey m) else m_byKey m)"
    "m_retired m' = m_retired m" "m_pending m' = m_pending m" "m_held m' = m_held m"
    "mget (m_byKey m) key = Some p \<longleftrightarrow> removed" "m_recentAdds m' = m_recentAdds m"
    by blast+
qed

section \<open>Retiring and publishing\<close>

lemma retire_frame [simp]:
  "m_files (retireLocked now rk m) = m_files m" "m_byKey (retireLocked now rk m) = m_byKey m"
  "m_totalFiles (retireLocked now rk m) = m_totalFiles m" "m_totalBytes (retireLocked now rk m) = m_totalBytes m"
  "m_sortedPartitions (retireLocked now rk m) = m_sortedPartitions m"
  "m_recentAdds (retireLocked now rk m) = m_recentAdds m" "m_held (retireLocked now rk m) = m_held m"
  "m_pending (retireLocked now rk m) = mdel (rk_Key rk) (m_pending m)"
  by (simp_all add: retireLocked_def Let_def)

lemma retire_retired:
  "mget (m_retired (retireLocked now rk m)) k =
     (if k = rk_Key rk
      then Some (rk\<lparr>rk_At := now,
        rk_Reclaim := rk_Reclaim rk \<or> (\<exists>cur. mget (m_retired m) k = Some cur \<and> rk_Reclaim cur),
        rk_By := (if rk_By rk = [] then (case mget (m_retired m) k of None \<Rightarrow> [] | Some cur \<Rightarrow> rk_By cur) else rk_By rk)\<rparr>)
      else mget (m_retired m) k)"
  by (cases rk) (auto simp: retireLocked_def Let_def go_map split: option.split)

lemma wf_retired: "wfmap (m_retired m) \<Longrightarrow> wfmap (m_retired (retireLocked now rk m))"
  by (simp add: retireLocked_def Let_def wfmap_mput)

lemma retire_ok:
  assumes "guard_ok m" "\<not> mhas (m_byKey m) (rk_Key rk)" "\<not> rk_Deleted rk"
  shows "guard_ok (retireLocked now rk m)"
  using assms unfolding guard_ok_def
  by (auto simp: mhas_def retire_retired go_map wf_retired wfmap_mdel simp del: map_of_eq_Some_iff split: if_splits)

lemma files_ok_frame: "m_files n = m_files m \<Longrightarrow> m_byKey n = m_byKey m \<Longrightarrow> m_totalFiles n = m_totalFiles m
    \<Longrightarrow> m_totalBytes n = m_totalBytes m \<Longrightarrow> files_ok n = files_ok m"
  by (simp add: files_ok_def)

lemma index_ok_frame: "m_files n = m_files m \<Longrightarrow> m_sortedPartitions n = m_sortedPartitions m \<Longrightarrow> index_ok n = index_ok m"
  by (simp add: index_ok_def)

lemma newRetired_sel [simp]:
  "rk_Key (newRetired k b r) = k" "rk_Deleted (newRetired k b r) = False" "rk_Reclaim (newRetired k b r) = r"
  "rk_By (newRetired k b r) = b"
  by (simp_all add: newRetired_def)

text \<open>A key taken out of its partition and retired: the step every publish and removal makes.\<close>

lemma removeRetire_ok:
  fixes now :: int and b p :: string and r :: bool
  assumes "man_ok m" "mget (m_byKey m) key = None \<or> mget (m_byKey m) key = Some p"
  defines "m' \<equiv> retireLocked now (newRetired key b r) (snd (removeFileLocked p key m))"
  shows "man_ok m'" "m_byKey m' = mdel key (m_byKey m)" "m_held m' = m_held m"
    "\<And>k. k \<noteq> key \<Longrightarrow> mget (m_retired m') k = mget (m_retired m) k" "mhas (m_retired m') key"
    "m_recentAdds m' = m_recentAdds m"
proof -
  obtain removed m1 where rm: "removeFileLocked p key m = (removed, m1)" by fastforce
  have ok: "files_ok m" "guard_ok m" "index_ok m" using assms(1) by (auto simp: man_ok_def)
  note R = removeFile_ok [OF ok(1) rm]
  have bk: "m_byKey m1 = mdel key (m_byKey m)"
  proof (cases removed)
    case False
    then have "mget (m_byKey m) key = None" using R(8) assms(2) by auto
    then show ?thesis using False by (simp add: R(4) delete_id map_of_eq_None_iff)
  qed (simp add: R(4))
  have m': "m' = retireLocked now (newRetired key b r) m1" by (simp add: m'_def rm)
  have "guard_ok m'" unfolding m' by (rule retire_ok) (simp_all add: R(2) [OF ok(2)] bk mhas_mdel)
  moreover have "files_ok m'" by (subst files_ok_frame [where m = m1]) (simp_all add: m' R(1))
  moreover have "index_ok m'" by (subst index_ok_frame [where m = m1]) (simp_all add: m' R(3) [OF ok(3)])
  ultimately show "man_ok m'" by (simp add: man_ok_def)
  show "m_byKey m' = mdel key (m_byKey m)" "m_held m' = m_held m" "m_recentAdds m' = m_recentAdds m"
    using bk R by (simp_all add: m')
  show "\<And>k. k \<noteq> key \<Longrightarrow> mget (m_retired m') k = mget (m_retired m) k" "mhas (m_retired m') key"
    by (simp_all add: m' retire_retired R(5) mhas_def)
qed

lemma addFile_ok: "man_ok m \<Longrightarrow> man_ok (addFileLocked now p fi m)"
  by (simp add: man_ok_def addFile_files_ok addFile_guard_ok addFile_index_ok)

lemma RemoveFile_ok:
  "man_ok m \<Longrightarrow> mget (m_byKey m) key = None \<or> mget (m_byKey m) key = Some p \<Longrightarrow> man_ok (RemoveFile now p key m)"
  unfolding RemoveFile_def by (rule removeRetire_ok(1))

lemma unregister_eq:
  "files_ok m \<Longrightarrow> \<exists>p. (mget (m_byKey m) key = None \<or> mget (m_byKey m) key = Some p)
     \<and> snd (unregister key m) = snd (removeFileLocked p key m)"
proof (cases "mget (m_byKey m) key")
  case None
  assume ok: "files_ok m"
  obtain removed m1 where rm: "removeFileLocked [] key m = (removed, m1)" by fastforce
  have "\<not> removed" using removeFile_ok(8) [OF ok rm] None by simp
  then have "m1 = m" using removeFile_cases [of "[]" key m] rm by auto
  then show ?thesis using None rm by (intro exI [of _ "[]"]) (simp add: unregister_def)
next
  case (Some p)
  then show ?thesis by (intro exI [of _ p]) (simp add: unregister_def)
qed

lemma Retire_ok: "man_ok m \<Longrightarrow> man_ok (snd (Retire now key b r m))"
proof -
  assume ok: "man_ok m"
  then obtain p where "mget (m_byKey m) key = None \<or> mget (m_byKey m) key = Some p"
    "snd (unregister key m) = snd (removeFileLocked p key m)"
    using unregister_eq [of m key] by (auto simp: man_ok_def)
  then show ?thesis using removeRetire_ok(1) [OF ok] by (simp add: Retire_def case_prod_beta)
qed

lemma AbandonPending_ok: "man_ok m \<Longrightarrow> man_ok (AbandonPending now key m)"
  using Retire_ok [of m now key "[]" True] by (simp add: Retire_def AbandonPending_def case_prod_beta)

lemma RemoveFileIfPresent_ok: "man_ok m \<Longrightarrow> man_ok (snd (RemoveFileIfPresent now p key m))"
proof -
  assume ok: "man_ok m"
  show ?thesis
  proof (cases "keyInPartitionLocked p key m \<and> key \<notin> set (m_held m)")
    case True
    obtain removed m1 where rm: "removeFileLocked p key m = (removed, m1)" by fastforce
    have "removed" using removeFile_ok(8) [OF _ rm] ok True by (simp add: man_ok_def keyInPartitionLocked_def)
    then show ?thesis
      using removeRetire_ok(1) [OF ok, of key p now "[]" True] True rm
      by (simp add: RemoveFileIfPresent_def keyInPartitionLocked_def)
  qed (use ok in \<open>auto simp: RemoveFileIfPresent_def\<close>)
qed

text \<open>Replacing files. The loop of \<open>ReplaceFiles\<close> takes out the sources one by one.\<close>

definition takeOut :: "int \<Rightarrow> string \<Rightarrow> string \<Rightarrow> string list \<Rightarrow> manifest \<Rightarrow> manifest" where
  "takeOut now p by' ks m =
     fold (\<lambda>k m. retireLocked now (newRetired k by' True) (snd (removeFileLocked p k m))) ks m"

lemma takeOut_ok:
  assumes "man_ok m" "\<forall>k \<in> set ks. mget (m_byKey m) k = Some p"
  shows "man_ok (takeOut now p b ks m)"
    "mget (m_byKey (takeOut now p b ks m)) k = (if k \<in> set ks then None else mget (m_byKey m) k)"
    "mhas (m_retired (takeOut now p b ks m)) k \<longleftrightarrow> k \<in> set ks \<or> mhas (m_retired m) k"
proof -
  have "man_ok (takeOut now p b ks m)
    \<and> mget (m_byKey (takeOut now p b ks m)) k = (if k \<in> set ks then None else mget (m_byKey m) k)
    \<and> (mhas (m_retired (takeOut now p b ks m)) k \<longleftrightarrow> k \<in> set ks \<or> mhas (m_retired m) k)"
    if "\<forall>k \<in> set ks. mget (m_byKey m) k = None \<or> mget (m_byKey m) k = Some p"
    using that assms(1)
  proof (induction ks arbitrary: m)
    case (Cons x ks)
    define m1 where "m1 = retireLocked now (newRetired x b True) (snd (removeFileLocked p x m))"
    have x: "mget (m_byKey m) x = None \<or> mget (m_byKey m) x = Some p" using Cons.prems(1) by simp
    note R = removeRetire_ok [where now = now and b = b and r = True, OF Cons.prems(2) x, folded m1_def]
    have "\<forall>k \<in> set ks. mget (m_byKey m1) k = None \<or> mget (m_byKey m1) k = Some p"
      using Cons.prems(1) by (auto simp: R(2) go_map simp del: map_of_eq_Some_iff)
    note IH = Cons.IH [OF this R(1)]
    have run: "takeOut now p b (x # ks) m = takeOut now p b ks m1" by (simp add: takeOut_def m1_def)
    show ?case unfolding run using IH R(4) [of k] R(5)
      by (auto simp: R(2) go_map mhas_def simp del: map_of_eq_Some_iff)
  qed (simp add: takeOut_def)
  then show "man_ok (takeOut now p b ks m)"
    "mget (m_byKey (takeOut now p b ks m)) k = (if k \<in> set ks then None else mget (m_byKey m) k)"
    "mhas (m_retired (takeOut now p b ks m)) k \<longleftrightarrow> k \<in> set ks \<or> mhas (m_retired m) k"
    using assms(2) by blast+
qed

lemma ReplaceFiles_eq:
  "ReplaceFiles now p ks fi m =
     (if (\<forall>k \<in> set ks. mget (m_byKey m) k = Some p \<and> k \<notin> set (m_held m)) \<and> freeForPublishLocked (fi_Key fi) ks m
      then (True, addFileLocked now p fi (takeOut now p (fi_Key fi) ks m)) else (False, m))"
  by (simp add: ReplaceFiles_def list_all_iff keyInPartitionLocked_def takeOut_def Let_def)

lemma ReplaceFile_eq: "ReplaceFile now p k fi m = ReplaceFiles now p [k] fi m"
  by (auto simp: ReplaceFiles_eq ReplaceFile_def keyInPartitionLocked_def takeOut_def Let_def)

lemma ReplaceFiles_ok: "man_ok m \<Longrightarrow> man_ok (snd (ReplaceFiles now p ks fi m))"
  by (auto simp: ReplaceFiles_eq intro!: addFile_ok takeOut_ok)

text \<open>A publish is all or nothing: every source leaves the manifest and is retired, the output is
  registered, and nothing else changes.\<close>

lemma ReplaceFiles_effect:
  assumes "man_ok m" "ReplaceFiles now p ks fi m = (True, m')"
  shows "mget (m_byKey m') k =
      (if k = fi_Key fi then Some p else if k \<in> set ks then None else mget (m_byKey m) k)"
    "k \<in> set ks \<Longrightarrow> k \<noteq> fi_Key fi \<Longrightarrow> mhas (m_retired m') k"
proof -
  have c: "\<forall>k \<in> set ks. mget (m_byKey m) k = Some p" "freeForPublishLocked (fi_Key fi) ks m"
    and m': "m' = addFileLocked now p fi (takeOut now p (fi_Key fi) ks m)"
    using assms(2) by (auto simp: ReplaceFiles_eq split: if_splits)
  note T = takeOut_ok [OF assms(1) c(1), of now "fi_Key fi"]
  have free: "\<not> mhas (m_byKey (takeOut now p (fi_Key fi) ks m)) (fi_Key fi)"
    using c(2) by (auto simp: mhas_def T(2) freeForPublishLocked_def)
  show "mget (m_byKey m') k = (if k = fi_Key fi then Some p else if k \<in> set ks then None else mget (m_byKey m) k)"
    unfolding m' by (simp add: addFile_frame [OF free] go_map T(2))
  show "k \<in> set ks \<Longrightarrow> k \<noteq> fi_Key fi \<Longrightarrow> mhas (m_retired m') k"
    unfolding m' using T(3) by (simp add: addFile_frame [OF free] go_map)
qed

end
