(* ===== verification/ManifestSafety.thy ===== *)
theory ManifestSafety
  imports ManifestInv
begin

text \<open>
  What the operations of the manifest and a refresh from a listing guarantee: the invariants of
  \<open>ManifestInv\<close> over every sequence of operations, exactly which keys a refresh adopts, which
  retired keys it forgets, and what the range queries return.
\<close>

section \<open>Operations that do not touch the tracked files\<close>

lemma man_ok_frame:
  assumes "man_ok m" "m_files n = m_files m" "m_byKey n = m_byKey m" "m_totalFiles n = m_totalFiles m"
    and "m_totalBytes n = m_totalBytes m" "m_sortedPartitions n = m_sortedPartitions m" "guard_ok n"
  shows "man_ok n"
  using assms by (simp add: man_ok_def files_ok_def index_ok_def)

lemma ClaimPending_ok: "man_ok m \<Longrightarrow> man_ok (snd (ClaimPending now key m))"
  unfolding ClaimPending_def
  by (simp, intro impI, rule man_ok_frame) (auto simp: man_ok_def guard_ok_def go_map simp del: map_of_eq_Some_iff)

lemma ReleasePending_ok: "man_ok m \<Longrightarrow> man_ok (ReleasePending key m)"
  unfolding ReleasePending_def
  by (rule man_ok_frame) (auto simp: man_ok_def guard_ok_def go_map simp del: map_of_eq_Some_iff)

lemma Hold_ok: "man_ok m \<Longrightarrow> man_ok (Hold key m)"
  unfolding Hold_def by (simp, intro impI, rule man_ok_frame) (auto simp: man_ok_def guard_ok_def)

lemma Release_ok: "man_ok m \<Longrightarrow> man_ok (Release key m)"
  unfolding Release_def by (rule man_ok_frame) (auto simp: man_ok_def guard_ok_def)

lemma Unretire_ok: "man_ok m \<Longrightarrow> man_ok (snd (Unretire key m))"
  unfolding Unretire_def
  by (simp, rule man_ok_frame) (auto simp: man_ok_def guard_ok_def go_map simp del: map_of_eq_Some_iff split: if_splits)

text \<open>A change of the retired map that only removes keys, or settles a key, keeps the guards.\<close>

lemma retired_shrink_ok:
  assumes "man_ok m" "wfmap rs"
    and "\<And>k rk. mget rs k = Some rk \<Longrightarrow> \<exists>rk0. mget (m_retired m) k = Some rk0
      \<and> (rk = rk0 \<or> rk = rk0\<lparr>rk_Reclaim := False, rk_Deleted := True\<rparr>)"
  shows "man_ok (m\<lparr>m_retired := rs\<rparr>)"
proof (rule man_ok_frame [OF assms(1)])
  have g: "guard_ok m" using assms(1) by (simp add: man_ok_def)
  have sub: "mhas rs k \<Longrightarrow> mhas (m_retired m) k" for k using assms(3) by (fastforce simp: mhas_def)
  have "rk_Key rk = k \<and> \<not> (rk_Reclaim rk \<and> rk_Deleted rk)" if "mget rs k = Some rk" for k rk
    using assms(3) [OF that] g by (auto simp: guard_ok_def simp del: map_of_eq_Some_iff)
  then show "guard_ok (m\<lparr>m_retired := rs\<rparr>)" using g sub assms(2) by (auto simp: guard_ok_def)
qed simp_all

lemma UnretireIfReplacedBy_ok: "man_ok m \<Longrightarrow> man_ok (snd (UnretireIfReplacedBy key r m))"
  unfolding UnretireIfReplacedBy_def
  by (auto split: option.split simp del: map_of_eq_Some_iff intro!: retired_shrink_ok)
    (auto simp: man_ok_def guard_ok_def go_map simp del: map_of_eq_Some_iff split: if_splits)

lemma ConfirmDeleted_ok: "man_ok m \<Longrightarrow> man_ok (ConfirmDeleted key m)"
  unfolding ConfirmDeleted_def
  by (auto split: option.split simp del: map_of_eq_Some_iff intro!: retired_shrink_ok)
    (auto simp: man_ok_def guard_ok_def go_map simp del: map_of_eq_Some_iff split: if_splits)

section \<open>Updates of one file\<close>

lemma map_updateFirst: "(\<And>fi. g (f fi) = g fi) \<Longrightarrow> map g (updateFirst key f l) = map g l"
  by (induction l) auto

lemma updateFirst_Nil [simp]: "updateFirst key f l = [] \<longleftrightarrow> l = []"
  by (cases l) auto

lemma updateFile_ok:
  assumes "man_ok m" "\<And>fi. fi_Key (f fi) = fi_Key fi" "\<And>fi. fi_Size (f fi) = fi_Size fi"
  shows "man_ok (updateFile key f m)"
proof (cases "mget (m_byKey m) key")
  case (Some p)
  let ?l = "filesOf (m_files m) p" and ?fs = "mput p (updateFirst key f (filesOf (m_files m) p)) (m_files m)"
  show ?thesis
  proof (cases "list_ex (\<lambda>fi. fi_Key fi = key) ?l")
    case True
    have F: "map_ok (m_files m)" "indexes (m_byKey m) (m_files m)" and w: "wfmap (m_files m)"
      and ne: "\<forall>(q, l) \<in> set (m_files m). l \<noteq> []"
      using assms(1) by (auto simp: man_ok_def files_ok_def map_ok_def)
    have nl: "?l \<noteq> []" using True by auto
    then have pin: "p \<in> set (mkeys (m_files m))" using filesOf_notin by blast
    have g: "image_mset g (mset (allFiles ?fs)) = image_mset g (mset (allFiles (m_files m)))"
      if "\<And>fi. g (f fi) = g fi" for g :: "fileInfo \<Rightarrow> 'a"
    proof -
      have "image_mset g (mset (allFiles ?fs) + mset ?l) = image_mset g (mset (allFiles (m_files m)) + mset (updateFirst key f ?l))"
        using mset_mput [OF w, of p "updateFirst key f ?l"] by simp
      moreover have "image_mset g (mset (updateFirst key f ?l)) = image_mset g (mset ?l)"
        using map_updateFirst [of g f key ?l] that by (metis mset_map)
      ultimately show ?thesis by simp
    qed
    have keys: "image_mset fi_Key (mset (allFiles ?fs)) = image_mset fi_Key (mset (allFiles (m_files m)))"
      by (rule g) (rule assms(2))
    have sizes: "image_mset fi_Size (mset (allFiles ?fs)) = image_mset fi_Size (mset (allFiles (m_files m)))"
      by (rule g) (rule assms(3))
    have "distinct (map fi_Key (allFiles ?fs))"
      using keys F(1) by (metis map_ok_def mset_eq_imp_distinct_iff mset_map)
    moreover have "\<forall>(q, l) \<in> set ?fs. l \<noteq> []"
    proof clarify
      fix q assume "(q, []) \<in> set ?fs"
      then have "mget ?fs q = Some []" using wfmap_mput [OF w] mget_in by metis
      then show False using ne w nl by (auto simp: go_map split: if_splits)
    qed
    ultimately have M: "map_ok ?fs" using w by (simp add: map_ok_def wfmap_mput)
    have "fi_Key ` set (filesOf ?fs q) = fi_Key ` set (filesOf (m_files m) q)" for q
      using map_updateFirst [of fi_Key f key ?l] assms(2) by (auto simp flip: set_map)
    then have I: "indexes (m_byKey m) ?fs" using F(2) unfolding indexes_def by (metis (no_types, opaque_lifting) image_iff)
    have "length (allFiles ?fs) = length (allFiles (m_files m))" using arg_cong [OF keys, of size] by simp
    moreover have "sum_list (map fi_Size (allFiles ?fs)) = sum_list (map fi_Size (allFiles (m_files m)))"
      using sizes by (metis mset_map sum_mset_sum_list)
    ultimately have "files_ok (m\<lparr>m_files := ?fs\<rparr>)" using assms(1) M I by (simp add: man_ok_def files_ok_def)
    moreover have "set (List.map_filter entryOf (mkeys ?fs)) = set (List.map_filter entryOf (mkeys (m_files m)))"
      using pin by (auto simp: entries_mput in_map_filter simp del: set_map split: option.split)
    then have "index_ok (m\<lparr>m_files := ?fs\<rparr>)" using assms(1) by (simp add: man_ok_def index_ok_def)
    moreover have "guard_ok (m\<lparr>m_files := ?fs\<rparr>)" using assms(1) by (simp add: man_ok_def guard_ok_def)
    ultimately show ?thesis using Some True by (simp add: updateFile_def man_ok_def)
  qed (use Some assms in \<open>simp add: updateFile_def\<close>)
qed (use assms in \<open>simp add: updateFile_def\<close>)

lemma enrich_frame [simp]:
  "fi_Key (enrich r lo hi fi) = fi_Key fi" "fi_Size (enrich r lo hi fi) = fi_Size fi"
  by (simp_all add: enrich_def Let_def)

lemma EnrichFileMetadata_ok: "man_ok m \<Longrightarrow> man_ok (EnrichFileMetadata key r lo hi m)"
proof -
  assume ok: "man_ok m"
  let ?m = "updateFile key (enrich r lo hi) m"
  have u: "man_ok ?m" by (rule updateFile_ok [OF ok]) simp_all
  have "man_ok (?m\<lparr>m_tenantAggregates := x\<rparr>)" for x
    by (rule man_ok_frame [OF u]) (use u in \<open>simp_all add: man_ok_def guard_ok_def\<close>)
  then show ?thesis using ok u unfolding EnrichFileMetadata_def by (auto simp: Let_def split: option.split)
qed

lemma file_updates_ok:
  assumes "man_ok m"
  shows "man_ok (SetFileBucket key b m)" "man_ok (UpdateFileColumnStats key st m)" "man_ok (MarkTraceIDHex key m)"
  unfolding SetFileBucket_def UpdateFileColumnStats_def MarkTraceIDHex_def
  by (rule updateFile_ok [OF assms]; simp)+

section \<open>Which keys a refresh installs\<close>

abbreviation fkeys :: "fileMap \<Rightarrow> string set" where
  "fkeys fs \<equiv> fi_Key ` set (allFiles fs)"

lemma listedKeys_eq: "listedKeys fs = map fi_Key (allFiles fs)"
  by (induction fs) (auto simp: listedKeys_def allFiles_def)

lemma set_listedKeys [simp]: "set (listedKeys fs) = fkeys fs"
  by (simp add: listedKeys_eq)

lemma fkeys_append: "wfmap fs \<Longrightarrow> fkeys (mput p (filesOf fs p @ [fi]) fs) = insert (fi_Key fi) (fkeys fs)"
proof -
  assume w: "wfmap fs"
  have "mset (allFiles (mput p (filesOf fs p @ [fi]) fs)) = mset (fi # allFiles fs)"
    using mset_mput [OF w, of p "filesOf fs p @ [fi]"] by simp
  then have "set (allFiles (mput p (filesOf fs p @ [fi]) fs)) = insert fi (set (allFiles fs))"
    by (metis mset_eq_setD list.simps(15))
  then show ?thesis by simp
qed

lemma allFiles_nonempty: "allFiles (filter (\<lambda>(p, fs). fs \<noteq> []) files) = allFiles files"
  by (induction files) (auto simp: allFiles_def)

lemma allFiles_filter:
  "allFiles (map (\<lambda>(p, fs). (p, filter (\<lambda>fi. Q (fi_Key fi)) fs)) files) = filter (\<lambda>fi. Q (fi_Key fi)) (allFiles files)"
  by (induction files) (auto simp: allFiles_def)

lemma fkeys_map_filter:
  "fkeys (map (\<lambda>(p, fs). (p, filter (\<lambda>fi. Q (fi_Key fi)) fs)) files) = {k \<in> fkeys files. Q k}"
  unfolding allFiles_filter by auto

lemma mkeys_values: "mkeys (map (\<lambda>(p, l). (p, g p l)) fs) = mkeys fs"
  by (induction fs) auto

lemma excludeListing_keys:
  "fkeys (excludeListing m files) = {k \<in> fkeys files. \<not> mhas (m_retired m) k \<and> \<not> mhas (m_pending m) k}"
  unfolding excludeListing_def allFiles_nonempty
  using fkeys_map_filter [of "\<lambda>k. \<not> mhas (m_retired m) k \<and> \<not> mhas (m_pending m) k" files] by simp

lemma excludeListing_wf: "wfmap files \<Longrightarrow> wfmap (excludeListing m files)"
  unfolding excludeListing_def by (rule wfmap_filter) (unfold mkeys_values)

text \<open>Files published while the listing ran are kept.\<close>

lemma keepRecent_step:
  assumes "indexes (m_byKey m) (m_files m)" "wfmap files"
  shows "wfmap (snd (keepRecent m ra (listed, files)))
    \<and> set (fst (keepRecent m ra (listed, files))) = insert (fst ra) (set listed)
    \<and> fkeys (snd (keepRecent m ra (listed, files))) =
       fkeys files \<union> {k. k = fst ra \<and> k \<notin> set listed \<and> mhas (m_byKey m) k}"
proof (cases "fst ra \<in> set listed")
  case False
  show ?thesis
  proof (cases "mget (m_byKey m) (fst ra)")
    case None
    then show ?thesis using False assms(2) by (auto simp: keepRecent_def mhas_def)
  next
    case (Some p)
    then have "\<exists>fi \<in> set (filesOf (m_files m) p). fi_Key fi = fst ra" using indexesD [OF assms(1)] by blast
    then obtain fi where fi: "find (\<lambda>fi. fi_Key fi = fst ra) (filesOf (m_files m) p) = Some fi"
      by (cases "find (\<lambda>fi. fi_Key fi = fst ra) (filesOf (m_files m) p)") (auto simp: find_None_iff)
    then have k: "fi_Key fi = fst ra" by (auto simp: find_Some_iff)
    show ?thesis using Some False fi assms(2) k fkeys_append [OF assms(2), of p fi]
      by (auto simp: keepRecent_def mhas_def wfmap_mput)
  qed
qed (use assms in \<open>auto simp: keepRecent_def\<close>)

lemma keepRecent_keys:
  assumes "indexes (m_byKey m) (m_files m)" "wfmap files"
  shows "wfmap (snd (fold (keepRecent m) ras (listed, files)))
    \<and> fkeys (snd (fold (keepRecent m) ras (listed, files))) =
       fkeys files \<union> {k. k \<in> fst ` set ras \<and> k \<notin> set listed \<and> mhas (m_byKey m) k}"
  using assms(2)
proof (induction ras arbitrary: listed files)
  case (Cons ra ras)
  obtain l f where s: "keepRecent m ra (listed, files) = (l, f)" by fastforce
  have K: "wfmap f" "set l = insert (fst ra) (set listed)"
    "fkeys f = fkeys files \<union> {k. k = fst ra \<and> k \<notin> set listed \<and> mhas (m_byKey m) k}"
    using keepRecent_step [OF assms(1) Cons.prems, of ra listed] s by auto
  show ?case using Cons.IH [OF K(1), of l] K s by auto
qed simp

lemma fkeys_mapped:
  assumes "\<And>p fi. fi_Key (g p fi) = fi_Key fi"
  shows "fkeys (map (\<lambda>(p, l). (p, map (g p) l)) fs) = fkeys fs"
proof (induction fs)
  case (Cons x fs)
  obtain p l where "x = (p, l)" by fastforce
  moreover have "fi_Key ` g p ` set l = fi_Key ` set l" by (simp add: image_image assms)
  ultimately show ?case using Cons by (simp add: allFiles_def image_Un)
qed simp

lemma mergeEntry_key [simp]: "fi_Key (mergeEntry a b) = fi_Key a"
  by (simp add: mergeEntry_def Let_def)

lemma mergeFile_key [simp]: "fi_Key (mergeFile olds fi) = fi_Key fi"
  by (auto simp: mergeFile_def find_Some_iff split: option.split)

lemma inferBounds_key [simp]: "fi_Key (inferBounds p fi) = fi_Key fi"
  by (simp add: inferBounds_def Let_def split: option.split)

lemma merge_keys:
  assumes "indexes (m_byKey m) (m_files m)" "wfmap files" "mergeRefreshedFilesLocked m files listStart = (fs, gone)"
  shows "wfmap fs"
    "fkeys fs = {k \<in> fkeys files. \<not> mhas (m_retired m) k \<and> \<not> mhas (m_pending m) k}
       \<union> {k. k \<in> fst ` set (recentAddsSinceLocked m listStart) \<and> k \<notin> fkeys files \<and> mhas (m_byKey m) k}"
    "gone = map fst (filter (\<lambda>(k, rk). k \<notin> fkeys files \<and> rk_At rk < listStart) (m_retired m))"
proof -
  let ?f = "snd (fold (keepRecent m) (recentAddsSinceLocked m listStart) (listedKeys files, excludeListing m files))"
  have K: "wfmap ?f" "fkeys ?f = {k \<in> fkeys files. \<not> mhas (m_retired m) k \<and> \<not> mhas (m_pending m) k}
       \<union> {k. k \<in> fst ` set (recentAddsSinceLocked m listStart) \<and> k \<notin> fkeys files \<and> mhas (m_byKey m) k}"
    using keepRecent_keys [OF assms(1) excludeListing_wf [OF assms(2), of m], of "recentAddsSinceLocked m listStart" "listedKeys files"]
    by (simp_all add: excludeListing_keys)
  have fs: "fs = map (\<lambda>(p, l). (p, map ((\<lambda>p fi. inferBounds p (mergeFile (filesOf (m_files m) p) fi)) p) l)) ?f"
    and g: "gone = map fst (filter (\<lambda>(k, rk). k \<notin> fkeys files \<and> rk_At rk < listStart) (m_retired m))"
    using assms(3) by (auto simp: mergeRefreshedFilesLocked_def refreshExclusionsLocked_def Let_def)
  show "wfmap fs" using K(1) unfolding fs mkeys_values .
  show "fkeys fs = {k \<in> fkeys files. \<not> mhas (m_retired m) k \<and> \<not> mhas (m_pending m) k}
       \<union> {k. k \<in> fst ` set (recentAddsSinceLocked m listStart) \<and> k \<notin> fkeys files \<and> mhas (m_byKey m) k}"
    unfolding fs K(2) [symmetric] by (rule fkeys_mapped) simp
  show "gone = map fst (filter (\<lambda>(k, rk). k \<notin> fkeys files \<and> rk_At rk < listStart) (m_retired m))" by (rule g)
qed

text \<open>The entries of the prefixes a partial listing skipped are carried over.\<close>

definition carry_ok :: "string list \<Rightarrow> string list \<times> fileMap \<Rightarrow> bool" where
  "carry_ok skipped st \<longleftrightarrow> wfmap (snd st) \<and> set (fst st) = {k \<in> fkeys (snd st). underSkipped k skipped}"

lemma carryOne_step:
  assumes "carry_ok skipped st"
  shows "carry_ok skipped (carryOne skipped p fi st)
    \<and> fkeys (snd (carryOne skipped p fi st)) = fkeys (snd st) \<union> {k. k = fi_Key fi \<and> underSkipped k skipped}"
proof -
  obtain h fs where st: "st = (h, fs)" by fastforce
  show ?thesis using assms fkeys_append [of fs p fi] by (auto simp: st carryOne_def carry_ok_def wfmap_mput)
qed

lemma carryList:
  assumes "carry_ok skipped st"
  shows "carry_ok skipped (fold (carryOne skipped p) l st)
    \<and> fkeys (snd (fold (carryOne skipped p) l st)) = fkeys (snd st) \<union> {k \<in> fi_Key ` set l. underSkipped k skipped}"
  using assms
proof (induction l arbitrary: st)
  case (Cons fi l)
  note S = carryOne_step [OF Cons.prems, of p fi]
  show ?case using Cons.IH [of "carryOne skipped p fi st"] S by auto
qed simp

lemma carryAll:
  assumes "carry_ok skipped st"
  shows "carry_ok skipped (fold (\<lambda>(p, l) st. fold (carryOne skipped p) l st) fs st)
    \<and> fkeys (snd (fold (\<lambda>(p, l) st. fold (carryOne skipped p) l st) fs st))
       = fkeys (snd st) \<union> {k \<in> fkeys fs. underSkipped k skipped}"
  using assms
proof (induction fs arbitrary: st)
  case (Cons x fs)
  obtain p l where x: "x = (p, l)" by fastforce
  note S = carryList [OF Cons.prems, of p l]
  show ?case using Cons.IH [of "fold (carryOne skipped p) l st"] S by (auto simp: x allFiles_def)
qed (simp add: allFiles_def)

lemma carrySkipped_keys:
  assumes "wfmap files"
  shows "wfmap (carrySkippedLocked m files skipped)"
    "fkeys (carrySkippedLocked m files skipped) = fkeys files \<union> {k \<in> fkeys (m_files m). underSkipped k skipped}"
proof -
  have "carry_ok skipped (filter (\<lambda>k. underSkipped k skipped) (listedKeys files), files)"
    using assms by (auto simp: carry_ok_def)
  note C = carryAll [OF this, of "m_files m"]
  show "wfmap (carrySkippedLocked m files skipped)"
    "fkeys (carrySkippedLocked m files skipped) = fkeys files \<union> {k \<in> fkeys (m_files m). underSkipped k skipped}"
    using C unfolding carrySkippedLocked_def carry_ok_def by auto
qed

text \<open>The dedupe pass leaves each key once and loses none.\<close>

lemma dedupeList_ok:
  assumes "dedupeList seen l = (seen', kept)"
  shows "set seen' = set seen \<union> fi_Key ` set l" "distinct (map fi_Key kept)" "set kept \<subseteq> set l"
    "fi_Key ` set kept = fi_Key ` set l - set seen"
proof -
  have "set seen' = set seen \<union> fi_Key ` set l \<and> distinct (map fi_Key kept) \<and> set kept \<subseteq> set l
    \<and> fi_Key ` set kept = fi_Key ` set l - set seen"
    using assms
  proof (induction seen l arbitrary: seen' kept rule: dedupeList.induct)
    case (2 seen fi fs)
    show ?case
    proof (cases "fi_Key fi \<in> set seen")
      case True
      then show ?thesis using "2.IH"(1) [OF True, of seen' kept] "2.prems" by auto
    next
      case False
      obtain s k where d: "dedupeList (fi_Key fi # seen) fs = (s, k)" by fastforce
      then have r: "seen' = s" "kept = fi # k" using "2.prems" False by simp_all
      note IH = "2.IH"(2) [OF False d]
      have "fi_Key fi \<notin> fi_Key ` set k" using IH by auto
      then show ?thesis using IH False by (auto simp: r)
    qed
  qed simp
  then show "set seen' = set seen \<union> fi_Key ` set l" "distinct (map fi_Key kept)" "set kept \<subseteq> set l"
    "fi_Key ` set kept = fi_Key ` set l - set seen" by blast+
qed

lemma mset_allFiles_over:
  assumes "wfmap fs" "distinct ps" "set (mkeys fs) \<subseteq> set ps"
  shows "mset (allFiles fs) = mset (concat (map (filesOf fs) ps))"
  using assms
proof (induction ps arbitrary: fs)
  case Nil
  then show ?case by (simp add: allFiles_def)
next
  case (Cons p ps)
  have "set (mkeys (mdel p fs)) \<subseteq> set ps" using Cons.prems(3) unfolding set_mkeys_mdel by auto
  then have "mset (allFiles (mdel p fs)) = mset (concat (map (filesOf (mdel p fs)) ps))"
    using Cons by (simp add: wfmap_mdel)
  moreover have "map (filesOf (mdel p fs)) ps = map (filesOf fs) ps" using Cons.prems(2) by auto
  ultimately show ?case using mset_mdel [OF Cons.prems(1), of p] by (simp add: ac_simps)
qed

lemma dedupeLoop_ok:
  fixes seen :: "string list"
  assumes "wfmap files" "distinct ps"
  defines "r \<equiv> dedupeLoop seen ps files"
  shows "wfmap r" "\<And>q. q \<notin> set ps \<Longrightarrow> mget r q = mget files q" "\<And>q. q \<in> set ps \<Longrightarrow> mget r q \<noteq> Some []"
    "distinct (map fi_Key (concat (map (filesOf r) ps)))"
    "fi_Key ` set (concat (map (filesOf r) ps)) = fi_Key ` set (concat (map (filesOf files) ps)) - set seen"
    "\<And>q. set (filesOf r q) \<subseteq> set (filesOf files q)"
proof -
  have "wfmap r \<and> (\<forall>q. q \<notin> set ps \<longrightarrow> mget r q = mget files q) \<and> (\<forall>q \<in> set ps. mget r q \<noteq> Some [])
    \<and> distinct (map fi_Key (concat (map (filesOf r) ps)))
    \<and> fi_Key ` set (concat (map (filesOf r) ps)) = fi_Key ` set (concat (map (filesOf files) ps)) - set seen
    \<and> (\<forall>q. set (filesOf r q) \<subseteq> set (filesOf files q))"
    using assms(1,2) unfolding r_def
  proof (induction ps arbitrary: seen files)
    case (Cons p ps)
    obtain seen' kept where d: "dedupeList seen (filesOf files p) = (seen', kept)" by fastforce
    note D = dedupeList_ok [OF d]
    define f1 where "f1 = (if kept = [] then mdel p files else mput p kept files)"
    have f1: "filesOf f1 q = (if q = p then kept else filesOf files q)" for q by (auto simp: f1_def)
    have g1: "mget f1 q = (if q = p then (if kept = [] then None else Some kept) else mget files q)" for q
      by (auto simp: f1_def go_map)
    have w1: "wfmap f1" using Cons.prems(1) by (simp add: f1_def wfmap_mput wfmap_mdel)
    let ?r = "dedupeLoop seen' ps f1"
    have run: "dedupeLoop seen (p # ps) files = ?r" by (simp add: d f1_def)
    have pn: "p \<notin> set ps" "distinct ps" using Cons.prems(2) by auto
    note IH = Cons.IH [OF w1 pn(2), of seen']
    have rp: "mget ?r p = (if kept = [] then None else Some kept)" using IH pn(1) g1 by auto
    then have fp: "filesOf ?r p = kept" by (simp add: filesOf_def)
    have same: "map (filesOf f1) ps = map (filesOf files) ps" using pn(1) f1 by auto
    have sub: "\<forall>q. set (filesOf ?r q) \<subseteq> set (filesOf files q)" using IH f1 D(3) by (metis (no_types, lifting) order_trans)
    let ?K = "\<lambda>fs qs. fi_Key ` set (concat (map (filesOf fs) qs))"
    have I: "wfmap ?r" "\<forall>q. q \<notin> set ps \<longrightarrow> mget ?r q = mget f1 q" "\<forall>q \<in> set ps. mget ?r q \<noteq> Some []"
      "distinct (map fi_Key (concat (map (filesOf ?r) ps)))" "?K ?r ps = ?K files ps - set seen'"
      using IH unfolding same by blast+
    have C: "map fi_Key (concat (map (filesOf ?r) (p # ps))) = map fi_Key kept @ map fi_Key (concat (map (filesOf ?r) ps))"
      by (simp add: fp)
    have C': "?K files (p # ps) = fi_Key ` set (filesOf files p) \<union> ?K files ps" by (simp add: image_Un)
    have "fi_Key ` set kept \<inter> ?K ?r ps = {}" unfolding I(5) D(4) D(1) by blast
    then have "distinct (map fi_Key (concat (map (filesOf ?r) (p # ps))))"
      unfolding C using D(2) I(4) by (simp only: distinct_append set_map)
    moreover have "?K ?r (p # ps) = ?K files (p # ps) - set seen"
    proof -
      have "?K ?r (p # ps) = fi_Key ` set kept \<union> ?K ?r ps" by (simp add: fp image_Un)
      then show ?thesis unfolding I(5) D(4) D(1) C' by blast
    qed
    moreover have "\<forall>q. q \<notin> set (p # ps) \<longrightarrow> mget ?r q = mget files q" using I(2) g1 by simp
    moreover have "\<forall>q \<in> set (p # ps). mget ?r q \<noteq> Some []" using I(3) rp by simp
    ultimately show ?case unfolding run using I(1) sub by blast
  qed simp
  then show "wfmap r" "\<And>q. q \<notin> set ps \<Longrightarrow> mget r q = mget files q" "\<And>q. q \<in> set ps \<Longrightarrow> mget r q \<noteq> Some []"
    "distinct (map fi_Key (concat (map (filesOf r) ps)))"
    "fi_Key ` set (concat (map (filesOf r) ps)) = fi_Key ` set (concat (map (filesOf files) ps)) - set seen"
    "\<And>q. set (filesOf r q) \<subseteq> set (filesOf files q)"
    by blast+
qed

lemma dedupe_ok:
  assumes "wfmap files"
  shows "map_ok (dedupeRefreshedFiles files)" "fkeys (dedupeRefreshedFiles files) = fkeys files"
    "\<And>q. set (filesOf (dedupeRefreshedFiles files) q) \<subseteq> set (filesOf files q)"
proof -
  let ?ps = "sort_slice (<) (mkeys files)" and ?r = "dedupeRefreshedFiles files"
  have ps: "distinct ?ps" "set ?ps = set (mkeys files)" using assms by simp_all
  have r: "?r = dedupeLoop [] ?ps files" by (simp add: dedupeRefreshedFiles_def)
  note D = dedupeLoop_ok [where seen = "[]", OF assms ps(1), folded r]
  have "mget ?r q = None" if "q \<notin> set ?ps" for q using D(2) [OF that] that ps(2) by (simp add: map_of_eq_None_iff)
  then have sub: "set (mkeys ?r) \<subseteq> set ?ps" by (metis map_of_eq_None_iff set_map subsetI)
  have over: "mset (allFiles ?r) = mset (concat (map (filesOf ?r) ?ps))"
    "mset (allFiles files) = mset (concat (map (filesOf files) ?ps))"
    by (rule mset_allFiles_over [OF D(1) ps(1) sub], rule mset_allFiles_over [OF assms ps(1)]) (simp add: ps(2))
  have "l \<noteq> []" if "(q, l) \<in> set ?r" for q l
  proof -
    have "mget ?r q = Some l" using that D(1) by simp
    moreover have "q \<in> set ?ps" using sub that by force
    ultimately show ?thesis using D(3) [of q] by auto
  qed
  then show "map_ok ?r" using D(1,4) distinct_keys_mset [OF over(1)] by (auto simp: map_ok_def)
  show "fkeys ?r = fkeys files" using D(5) mset_eq_setD [OF over(1)] mset_eq_setD [OF over(2)] by simp
  show "\<And>q. set (filesOf ?r q) \<subseteq> set (filesOf files q)" by (rule D(6))
qed

text \<open>Exactly the keys a refresh would install: what the listing has and the manifest neither retired
  nor is writing, what was published since the listing began, and what lies under a prefix the
  listing skipped.\<close>

definition recentKeys :: "manifest \<Rightarrow> int \<Rightarrow> string set" where
  "recentKeys m listStart = {k \<in> fst ` set (recentAddsSinceLocked m listStart). mhas (m_byKey m) k}"

lemma fkeys_tracked: "files_ok m \<Longrightarrow> k \<in> fkeys (m_files m) \<longleftrightarrow> mhas (m_byKey m) k"
proof -
  assume "files_ok m"
  then have w: "wfmap (m_files m)" and ix: "indexes (m_byKey m) (m_files m)" by (auto simp: files_ok_def map_ok_def)
  show ?thesis unfolding indexes_mhas [OF ix] image_iff using in_allFiles [OF w] by metis
qed

lemma keys_of_filter:
  "wfmap m \<Longrightarrow> set (map fst (filter (\<lambda>(k, v). Q k v) m)) = {k. \<exists>v. mget m k = Some v \<and> Q k v}"
  by force

lemma refreshed_keys:
  assumes "man_ok m" "wfmap files" "refreshedFiles m files listStart skipped = (fs, gone)"
  shows "map_ok fs"
    "fkeys fs = {k \<in> fkeys files. \<not> mhas (m_retired m) k \<and> \<not> mhas (m_pending m) k} \<union> recentKeys m listStart
       \<union> {k. mhas (m_byKey m) k \<and> underSkipped k skipped}"
    "set gone = {k. \<exists>rk. mget (m_retired m) k = Some rk \<and> k \<notin> fkeys files \<and> rk_At rk < listStart \<and> \<not> underSkipped k skipped}"
proof -
  have F: "files_ok m" "indexes (m_byKey m) (m_files m)" and G: "guard_ok m"
    using assms(1) by (auto simp: man_ok_def files_ok_def)
  obtain f1 g1 where mr: "mergeRefreshedFilesLocked m files listStart = (f1, g1)" by fastforce
  note M = merge_keys [OF F(2) assms(2) mr]
  have reg: "\<not> mhas (m_retired m) k \<and> \<not> mhas (m_pending m) k" if "mhas (m_byKey m) k" for k
    using G that by (simp add: guard_ok_def)
  have k1: "fkeys f1 = {k \<in> fkeys files. \<not> mhas (m_retired m) k \<and> \<not> mhas (m_pending m) k} \<union> recentKeys m listStart"
  proof -
    have "{k \<in> L. \<not> R k \<and> \<not> P k} \<union> {k. k \<in> A \<and> k \<notin> L \<and> H k} = {k \<in> L. \<not> R k \<and> \<not> P k} \<union> {k \<in> A. H k}"
      if "\<And>k. H k \<Longrightarrow> \<not> R k \<and> \<not> P k" for L A :: "string set" and R P H using that by blast
    then show ?thesis unfolding M(2) recentKeys_def using reg .
  qed
  have none: "\<not> underSkipped k []" for k by (simp add: underSkipped_def)
  have g: "set g1 = {k. \<exists>rk. mget (m_retired m) k = Some rk \<and> k \<notin> fkeys files \<and> rk_At rk < listStart}"
    unfolding M(3) by (rule keys_of_filter) (use G in \<open>simp add: guard_ok_def\<close>)
  note C = carrySkipped_keys [OF M(1), of m skipped]
  have tr: "{k \<in> fkeys (m_files m). underSkipped k skipped} = {k. mhas (m_byKey m) k \<and> underSkipped k skipped}"
    using fkeys_tracked [OF F(1)] by blast
  have r: "fs = dedupeRefreshedFiles (if skipped = [] then f1 else carrySkippedLocked m f1 skipped)"
    "gone = (if skipped = [] then g1 else filter (\<lambda>k. \<not> underSkipped k skipped) g1)"
    using assms(3) by (auto simp: refreshedFiles_def mr split: if_splits)
  have wf: "wfmap (if skipped = [] then f1 else carrySkippedLocked m f1 skipped)" using M(1) C(1) by simp
  show "map_ok fs" unfolding r(1) by (rule dedupe_ok(1) [OF wf])
  show "fkeys fs = {k \<in> fkeys files. \<not> mhas (m_retired m) k \<and> \<not> mhas (m_pending m) k} \<union> recentKeys m listStart
       \<union> {k. mhas (m_byKey m) k \<and> underSkipped k skipped}"
    unfolding r(1) dedupe_ok(2) [OF wf] using C(2) none by (cases "skipped = []") (simp_all add: k1 tr)
  show "set gone = {k. \<exists>rk. mget (m_retired m) k = Some rk \<and> k \<notin> fkeys files \<and> rk_At rk < listStart \<and> \<not> underSkipped k skipped}"
    unfolding r(2) using g none by (cases "skipped = []") auto
qed

section \<open>Installing a refresh\<close>

lemma mget_byKey_inner:
  "mget (fold (\<lambda>fi bk. mput (fi_Key fi) p bk) l bk) k = (if k \<in> fi_Key ` set l then Some p else mget bk k)"
  by (induction l arbitrary: bk) (auto simp: go_map)

lemma wf_byKey_inner: "wfmap bk \<Longrightarrow> wfmap (fold (\<lambda>fi bk. mput (fi_Key fi) p bk) l bk)"
  by (induction l arbitrary: bk) (auto simp: wfmap_mput)

lemma byKey_fold:
  assumes "distinct (map fi_Key (allFiles fs))" "wfmap bk"
  defines "r \<equiv> fold (\<lambda>(p, l) bk. fold (\<lambda>fi bk. mput (fi_Key fi) p bk) l bk) fs bk"
  shows "wfmap r"
    "mget r k = Some p \<longleftrightarrow> (\<exists>l. (p, l) \<in> set fs \<and> k \<in> fi_Key ` set l) \<or> k \<notin> fkeys fs \<and> mget bk k = Some p"
proof -
  have "wfmap r \<and> (mget r k = Some p \<longleftrightarrow> (\<exists>l. (p, l) \<in> set fs \<and> k \<in> fi_Key ` set l) \<or> k \<notin> fkeys fs \<and> mget bk k = Some p)"
    using assms(1,2) unfolding r_def
  proof (induction fs arbitrary: bk)
    case (Cons x fs)
    obtain q l where x: "x = (q, l)" by fastforce
    let ?b = "fold (\<lambda>fi bk. mput (fi_Key fi) q bk) l bk"
    have d: "distinct (map fi_Key (allFiles fs))" "fi_Key ` set l \<inter> fkeys fs = {}" and K: "fkeys (x # fs) = fi_Key ` set l \<union> fkeys fs"
      using Cons.prems(1) by (auto simp: allFiles_def x)
    note IH = Cons.IH [OF d(1) wf_byKey_inner [OF Cons.prems(2), of q l]]
    have one: "k \<in> fkeys fs" if "(p', l') \<in> set fs" "k \<in> fi_Key ` set l'" for p' l' using that by (force simp: allFiles_def)
    show ?case unfolding K using IH d(2) one by (auto simp: x mget_byKey_inner simp del: map_of_eq_Some_iff)
  qed (simp add: allFiles_def)
  then show "wfmap r" "mget r k = Some p \<longleftrightarrow> (\<exists>l. (p, l) \<in> set fs \<and> k \<in> fi_Key ` set l) \<or> k \<notin> fkeys fs \<and> mget bk k = Some p"
    by blast+
qed

lemma rebuildByKey_ok: "map_ok (m_files m) \<Longrightarrow> indexes (m_byKey (rebuildByKey m)) (m_files m)"
proof -
  assume ok: "map_ok (m_files m)"
  then have w: "wfmap (m_files m)" and d: "distinct (map fi_Key (allFiles (m_files m)))" by (auto simp: map_ok_def)
  have "(\<exists>l. (p, l) \<in> set (m_files m) \<and> k \<in> fi_Key ` set l) \<longleftrightarrow> (\<exists>fi \<in> set (filesOf (m_files m) p). fi_Key fi = k)" for k p
  proof
    assume "\<exists>l. (p, l) \<in> set (m_files m) \<and> k \<in> fi_Key ` set l"
    then show "\<exists>fi \<in> set (filesOf (m_files m) p). fi_Key fi = k" using filesOf_in [OF w] by fastforce
  next
    assume "\<exists>fi \<in> set (filesOf (m_files m) p). fi_Key fi = k"
    then show "\<exists>l. (p, l) \<in> set (m_files m) \<and> k \<in> fi_Key ` set l"
      by (cases "mget (m_files m) p") (auto simp: filesOf_def simp del: map_of_eq_Some_iff dest!: map_of_SomeD)
  qed
  then show ?thesis using byKey_fold [OF d, of "[]"] by (simp add: indexes_def rebuildByKey_def)
qed

lemma rebuildAggregates_frame [simp]:
  "m_files (rebuildTenantAggregates m) = m_files m" "m_byKey (rebuildTenantAggregates m) = m_byKey m"
  "m_retired (rebuildTenantAggregates m) = m_retired m" "m_pending (rebuildTenantAggregates m) = m_pending m"
  "m_recentAdds (rebuildTenantAggregates m) = m_recentAdds m" "m_held (rebuildTenantAggregates m) = m_held m"
  "m_lastComplete (rebuildTenantAggregates m) = m_lastComplete m"
proof -
  let ?g = "\<lambda>n. (m_files n, m_byKey n, m_retired n, m_pending n, m_recentAdds n, m_held n, m_lastComplete n)"
  have one: "?g (updateTenantAggregateOnAdd p fi n) = ?g n" for p fi n
    by (simp add: updateTenantAggregateOnAdd_def Let_def split: option.split)
  have inner: "?g (fold (updateTenantAggregateOnAdd p) l n) = ?g n" for p l n
    by (induction l arbitrary: n) (use one in auto)
  have "?g (fold (\<lambda>(p, l) n. fold (updateTenantAggregateOnAdd p) l n) fs n) = ?g n" for fs n
    by (induction fs arbitrary: n) (use inner in \<open>auto split: prod.split\<close>)
  from this [of "m_files m" "m\<lparr>m_tenantAggregates := [], m_legacyAggregate := None\<rparr>"]
  show "m_files (rebuildTenantAggregates m) = m_files m" "m_byKey (rebuildTenantAggregates m) = m_byKey m"
    "m_retired (rebuildTenantAggregates m) = m_retired m" "m_pending (rebuildTenantAggregates m) = m_pending m"
    "m_recentAdds (rebuildTenantAggregates m) = m_recentAdds m" "m_held (rebuildTenantAggregates m) = m_held m"
    "m_lastComplete (rebuildTenantAggregates m) = m_lastComplete m"
    by (simp_all add: rebuildTenantAggregates_def)
qed

lemma countFiles_eq: "countFiles fs = int (length (allFiles fs))"
  by (induction fs) (auto simp: countFiles_def allFiles_def)

lemma sumSizes_eq: "sumSizes fs = sum_list (map fi_Size (allFiles fs))"
  by (induction fs) (auto simp: sumSizes_def allFiles_def)

lemma install_frame [simp]:
  "m_files (installFiles fs ls sk now m) = fs" "m_retired (installFiles fs ls sk now m) = m_retired m"
  "m_pending (installFiles fs ls sk now m) = m_pending m" "m_recentAdds (installFiles fs ls sk now m) = m_recentAdds m"
  "m_held (installFiles fs ls sk now m) = m_held m" "m_byKey (installFiles fs ls sk now m) = m_byKey (rebuildByKey (m\<lparr>m_files := fs\<rparr>))"
  "m_totalFiles (installFiles fs ls sk now m) = countFiles fs" "m_totalBytes (installFiles fs ls sk now m) = sumSizes fs"
  by (simp_all add: installFiles_def Let_def rebuildByKey_def)

lemma install_files_ok:
  assumes "map_ok fs"
  shows "files_ok (installFiles fs ls sk now m)" "index_ok (installFiles fs ls sk now m)"
proof -
  have "indexes (m_byKey (rebuildByKey (m\<lparr>m_files := fs\<rparr>))) fs" using rebuildByKey_ok [of "m\<lparr>m_files := fs\<rparr>"] assms by simp
  then show "files_ok (installFiles fs ls sk now m)" using assms by (simp add: files_ok_def countFiles_eq sumSizes_eq)
  let ?m1 = "rebuildIndex (rebuildTenantAggregates (rebuildByKey (m\<lparr>m_files := fs\<rparr>)))"
  have "index_ok ?m1" using assms by (intro rebuildIndex_ok) (simp add: map_ok_def rebuildByKey_def)
  moreover have "m_files ?m1 = fs" by (simp add: rebuildByKey_def)
  ultimately show "index_ok (installFiles fs ls sk now m)" by (simp add: index_ok_def installFiles_def Let_def)
qed

section \<open>Pruning retired keys\<close>

interpretation evict_order: comparator "\<lambda>a b. evictBefore (snd a) (snd b)"
  by unfold_locales (auto simp: evictBefore_def split: if_splits)

abbreviation retainable :: "int \<Rightarrow> retiredKey \<Rightarrow> bool" where
  "retainable now rk \<equiv> rk_Reclaim rk \<or> \<not> now - rk_At rk > retiredKeyTTL"

lemma prune_cases:
  obtains (fits) "length (filter (\<lambda>(k, rk). retainable now rk) rs) \<le> cap"
      "pruneRetiredWith cap now rs = filter (\<lambda>(k, rk). retainable now rk) rs"
  | (over) out kept where "mset (out @ kept) = mset (filter (\<lambda>(k, rk). retainable now rk) rs)" "length kept = cap"
      "\<forall>e \<in> set out. \<forall>x \<in> set kept. \<not> evictBefore (snd x) (snd e)"
      "pruneRetiredWith cap now rs = mdels (map fst out) (filter (\<lambda>(k, rk). retainable now rk) rs)"
proof (cases "length (filter (\<lambda>(k, rk). retainable now rk) rs) \<le> cap")
  case True
  then show ?thesis using fits by (simp add: pruneRetiredWith_def)
next
  case False
  let ?l = "filter (\<lambda>(k, rk). retainable now rk) rs"
  let ?o = "sort_slice (\<lambda>a b. evictBefore (snd a) (snd b)) ?l" and ?n = "length ?l - cap"
  have s: "sorted_wrt (\<lambda>a b. \<not> evictBefore (snd b) (snd a)) (take ?n ?o @ drop ?n ?o)"
    using evict_order.sorted_sort_slice [of ?l] by simp
  show ?thesis
  proof (rule over [of "take ?n ?o" "drop ?n ?o"])
    show "mset (take ?n ?o @ drop ?n ?o) = mset ?l" by simp
    show "length (drop ?n ?o) = cap" using False by simp
    show "\<forall>e \<in> set (take ?n ?o). \<forall>x \<in> set (drop ?n ?o). \<not> evictBefore (snd x) (snd e)"
      using s unfolding sorted_wrt_append by blast
    show "pruneRetiredWith cap now rs = mdels (map fst (take ?n ?o)) ?l" using False by (simp add: pruneRetiredWith_def Let_def)
  qed
qed

lemma prune_wf: "wfmap rs \<Longrightarrow> wfmap (pruneRetiredWith cap now rs)"
  by (simp add: pruneRetiredWith_def Let_def wfmap_filter wfmap_mdels)

lemma prune_sub: "wfmap rs \<Longrightarrow> mget (pruneRetiredWith cap now rs) k = Some rk \<Longrightarrow> mget rs k = Some rk \<and> retainable now rk"
  by (cases rule: prune_cases [of now rs cap])
    (auto simp: go_map mget_filter [where P = "\<lambda>k rk. retainable now rk"] simp del: map_of_eq_Some_iff split: if_splits option.splits)

text \<open>An evicted key that was still retainable gave way to keys that are at least as expensive to
  forget.\<close>

lemma mdels_filter: "mdels ks m = filter (\<lambda>(k, v). k \<notin> set ks) m"
  unfolding mdels_def
proof (induction ks arbitrary: m)
  case (Cons k ks)
  then show ?case by (simp add: AList.delete_eq case_prod_beta conj_commute eq_commute [of k])
qed simp

lemma mset_mdels:
  assumes "wfmap l" "mset (out @ kept) = mset l"
  shows "mset (mdels (map fst out) l) = mset kept"
proof -
  have "mset (map fst (out @ kept)) = mset (mkeys l)" using arg_cong [OF assms(2), of "image_mset fst"] by simp
  then have "distinct (map fst out @ map fst kept)" using assms(1) mset_eq_imp_distinct_iff by fastforce
  then have d: "fst ` set out \<inter> fst ` set kept = {}" by simp
  have "mset (mdels (map fst out) l) = filter_mset (\<lambda>(k, v). k \<notin> fst ` set out) (mset out + mset kept)"
    using assms(2) by (simp add: mdels_filter)
  also have "\<dots> = mset (filter (\<lambda>(k, v). k \<notin> fst ` set out) out) + mset (filter (\<lambda>(k, v). k \<notin> fst ` set out) kept)"
    by simp
  also have "filter (\<lambda>(k, v). k \<notin> fst ` set out) out = []" by (force simp: filter_empty_conv)
  also have "filter (\<lambda>(k, v). k \<notin> fst ` set out) kept = kept" using d by (force simp: filter_id_conv)
  finally show ?thesis by simp
qed

lemma prune_evicts:
  assumes "wfmap rs" "mget rs k = Some e" "retainable now e" "mget (pruneRetiredWith cap now rs) k = None"
  shows "length (pruneRetiredWith cap now rs) = cap"
    "mget (pruneRetiredWith cap now rs) k' = Some x \<Longrightarrow> \<not> evictBefore x e"
proof -
  define l where "l = filter (\<lambda>(k, rk). retainable now rk) rs"
  have wl: "wfmap l" unfolding l_def using assms(1) by (rule wfmap_filter)
  have ml: "(k, e) \<in> set l" using assms(1-3) by (auto simp: l_def)
  have nk: "(k, e) \<notin> set (pruneRetiredWith cap now rs)"
    using assms(4) prune_wf [OF assms(1)] by (metis mget_in option.distinct(1))
  have "length (pruneRetiredWith cap now rs) = cap
    \<and> (mget (pruneRetiredWith cap now rs) k' = Some x \<longrightarrow> \<not> evictBefore x e)"
  proof (cases rule: prune_cases [of now rs cap, folded l_def, case_names fits over])
    case fits
    then show ?thesis using ml nk by simp
  next
    case (over out kept)
    note K = mset_mdels [OF wl over(1), folded over(4)]
    have sk: "set (pruneRetiredWith cap now rs) = set kept" using mset_eq_setD [OF K] .
    have "(k, e) \<in> set out" using ml nk mset_eq_setD [OF over(1)] by (auto simp: sk)
    moreover have "(k', x) \<in> set kept" if "mget (pruneRetiredWith cap now rs) k' = Some x"
      using map_of_SomeD [OF that] by (simp add: sk)
    ultimately show ?thesis using over(2,3) mset_eq_length [OF K] by fastforce
  qed
  then show "length (pruneRetiredWith cap now rs) = cap"
    "mget (pruneRetiredWith cap now rs) k' = Some x \<Longrightarrow> \<not> evictBefore x e" by blast+
qed

lemma recentAddsSince_eq:
  assumes "sorted (map snd (m_recentAdds m))"
  shows "recentAddsSinceLocked m t = filter (\<lambda>ra. \<not> snd ra < t) (m_recentAdds m)"
proof -
  have mono: "\<not> snd (m_recentAdds m ! b) < t" if "a \<le> b" "b < length (m_recentAdds m)" "\<not> snd (m_recentAdds m ! a) < t" for a b
  proof -
    have "snd (m_recentAdds m ! a) \<le> snd (m_recentAdds m ! b)" using sorted_nth_mono [OF assms that(1)] that(1,2) by simp
    then show ?thesis using that(3) by simp
  qed
  show ?thesis unfolding recentAddsSinceLocked_def by (rule drop_sortSearch(1)) (rule mono)
qed

section \<open>Applying a refresh\<close>

text \<open>A refresh keeps the invariants, whatever the verdict of its probe.\<close>

lemma applyLocked_ok:
  assumes "man_ok m" "wfmap files"
  shows "man_ok (snd (applyLocked verdict now files listStart skipped m))"
proof -
  obtain fs gone where r: "refreshedFiles m files listStart skipped = (fs, gone)" by fastforce
  note K = refreshed_keys [OF assms r]
  have G: "guard_ok m" using assms(1) by (simp add: man_ok_def)
  let ?m1 = "installFiles fs listStart skipped now m"
  have F: "files_ok ?m1" "index_ok ?m1" by (rule install_files_ok [OF K(1)])+
  have bk: "mhas (m_byKey (rebuildByKey (m\<lparr>m_files := fs\<rparr>))) k \<longleftrightarrow> k \<in> fkeys fs" for k
    using fkeys_tracked [OF F(1), of k] by simp
  have "\<not> mhas (m_retired m) k \<and> \<not> mhas (m_pending m) k" if "k \<in> fkeys fs" for k
    using that G unfolding K(2) recentKeys_def guard_ok_def by blast
  then have "guard_ok ?m1" using G unfolding guard_ok_def by (simp add: bk)
  then have ok1: "man_ok ?m1" using F by (simp add: man_ok_def)
  have "man_ok (?m1\<lparr>m_retired := mdels gone (m_retired m)\<rparr>)"
    by (rule retired_shrink_ok [OF ok1]) (use G in \<open>simp_all add: guard_ok_def go_map del: map_of_eq_Some_iff split: if_splits\<close>)
  then have "man_ok (?m1\<lparr>m_retired := pruneRetiredWith maxRetiredKeys now (mdels gone (m_retired m))\<rparr>)"
  proof (rule man_ok_frame)
    let ?n = "?m1\<lparr>m_retired := mdels gone (m_retired m)\<rparr>"
    have "man_ok (?n\<lparr>m_retired := pruneRetiredWith maxRetiredKeys now (mdels gone (m_retired m))\<rparr>)"
    proof (rule retired_shrink_ok [OF \<open>man_ok ?n\<close>])
      have w: "wfmap (mdels gone (m_retired m))" using G by (simp add: guard_ok_def wfmap_mdels)
      show "wfmap (pruneRetiredWith maxRetiredKeys now (mdels gone (m_retired m)))" by (rule prune_wf [OF w])
      show "\<exists>rk0. mget (m_retired ?n) k = Some rk0 \<and> (rk = rk0 \<or> rk = rk0\<lparr>rk_Reclaim := False, rk_Deleted := True\<rparr>)"
        if "mget (pruneRetiredWith maxRetiredKeys now (mdels gone (m_retired m))) k = Some rk" for k rk
        using prune_sub [OF w that] by (simp del: map_of_eq_Some_iff)
    qed
    then show "guard_ok (?m1\<lparr>m_retired := pruneRetiredWith maxRetiredKeys now (mdels gone (m_retired m))\<rparr>)"
      by (simp add: man_ok_def)
  qed simp_all
  then have "man_ok (afterAcceptedRefreshLocked gone listStart skipped now ?m1)"
  proof (rule man_ok_frame)
    have "sorted (map snd (recentAddsSinceLocked m listStart))"
      using G by (simp add: recentAddsSinceLocked_def guard_ok_def drop_map [symmetric] sorted_wrt_drop)
    moreover have "guard_ok (?m1\<lparr>m_retired := pruneRetiredWith maxRetiredKeys now (mdels gone (m_retired m))\<rparr>)"
      using \<open>man_ok (?m1\<lparr>m_retired := pruneRetiredWith maxRetiredKeys now (mdels gone (m_retired m))\<rparr>)\<close> by (simp add: man_ok_def)
    ultimately show "guard_ok (afterAcceptedRefreshLocked gone listStart skipped now ?m1)"
      unfolding afterAcceptedRefreshLocked_def pruneRetiredLocked_def guard_ok_def by (simp add: recentAddsSinceLocked_def)
  qed (simp_all add: afterAcceptedRefreshLocked_def pruneRetiredLocked_def)
  then show ?thesis using assms(1) by (simp add: applyLocked_def r)
qed

text \<open>A refresh is accepted or changes nothing; the cliff rule decides.\<close>

lemma applyLocked_verdict:
  assumes "refreshedFiles m files listStart skipped = (fs, gone)"
  shows "fst (applyLocked verdict now files listStart skipped m) \<longleftrightarrow>
      \<not> (m_totalFiles m > 0 \<and> countFiles fs < m_totalFiles m div 2 \<and> verdict \<noteq> shrinkConfirmed)"
    "\<not> fst (applyLocked verdict now files listStart skipped m) \<Longrightarrow> snd (applyLocked verdict now files listStart skipped m) = m"
  by (auto simp: applyLocked_def assms split: if_splits)

lemma applyLocked_accepted:
  assumes "applyLocked verdict now files listStart skipped m = (True, m')" "man_ok m" "wfmap files"
  shows "mhas (m_byKey m') k \<longleftrightarrow>
      k \<in> fkeys files \<and> \<not> mhas (m_retired m) k \<and> \<not> mhas (m_pending m) k
      \<or> k \<in> recentKeys m listStart \<or> mhas (m_byKey m) k \<and> underSkipped k skipped"
    and "m_retired m' = pruneRetiredWith maxRetiredKeys now
      (mdels (snd (refreshedFiles m files listStart skipped)) (m_retired m))"
    and "m_held m' = m_held m" "m_pending m' = m_pending m"
proof -
  obtain fs gone where r: "refreshedFiles m files listStart skipped = (fs, gone)" by fastforce
  note K = refreshed_keys [OF assms(2,3) r]
  let ?m1 = "installFiles fs listStart skipped now m"
  have m': "m' = afterAcceptedRefreshLocked gone listStart skipped now ?m1"
    using assms(1) by (auto simp: applyLocked_def r split: if_splits)
  have "files_ok ?m1" by (rule install_files_ok(1) [OF K(1)])
  then have "mhas (m_byKey ?m1) k \<longleftrightarrow> k \<in> fkeys fs" using fkeys_tracked [of ?m1 k] by simp
  moreover have "m_byKey m' = m_byKey ?m1" by (simp add: m' afterAcceptedRefreshLocked_def pruneRetiredLocked_def)
  ultimately show "mhas (m_byKey m') k \<longleftrightarrow>
      k \<in> fkeys files \<and> \<not> mhas (m_retired m) k \<and> \<not> mhas (m_pending m) k
      \<or> k \<in> recentKeys m listStart \<or> mhas (m_byKey m) k \<and> underSkipped k skipped"
    unfolding K(2) by auto
  show "m_retired m' = pruneRetiredWith maxRetiredKeys now
      (mdels (snd (refreshedFiles m files listStart skipped)) (m_retired m))"
    "m_held m' = m_held m" "m_pending m' = m_pending m"
    by (simp_all add: m' r afterAcceptedRefreshLocked_def pruneRetiredLocked_def)
qed

text \<open>A retired key is forgotten only for a reason: the listing began after it was retired and does not
  have it, its guard has timed out with no delete owed, or the cap evicted it, in which case
  everything kept is at least as expensive to forget.\<close>

lemma applyLocked_forgets:
  assumes "applyLocked verdict now files listStart skipped m = (True, m')" "man_ok m" "wfmap files"
    and "mget (m_retired m) k = Some rk" "\<not> mhas (m_retired m') k"
  shows "k \<notin> fkeys files \<and> rk_At rk < listStart \<and> \<not> underSkipped k skipped
    \<or> \<not> rk_Reclaim rk \<and> now - rk_At rk > retiredKeyTTL
    \<or> length (m_retired m') = maxRetiredKeys \<and> (\<forall>k' x. mget (m_retired m') k' = Some x \<longrightarrow> \<not> evictBefore x rk)"
proof -
  obtain fs gone where r: "refreshedFiles m files listStart skipped = (fs, gone)" by fastforce
  note K = refreshed_keys [OF assms(2,3) r]
  have m': "m_retired m' = pruneRetiredWith maxRetiredKeys now (mdels gone (m_retired m))"
    using applyLocked_accepted(2) [OF assms(1-3)] r by simp
  have w: "wfmap (mdels gone (m_retired m))" using assms(2) by (simp add: man_ok_def guard_ok_def wfmap_mdels)
  show ?thesis
  proof (cases "k \<in> set gone")
    case True
    then show ?thesis using assms(4) unfolding K(3) by auto
  next
    case False
    then have g: "mget (mdels gone (m_retired m)) k = Some rk" using assms(4) by (simp add: go_map)
    show ?thesis
    proof (cases "retainable now rk")
      case True
      note P = prune_evicts [OF w g True, where cap = maxRetiredKeys, folded m']
      show ?thesis using P assms(5) by (auto simp: mhas_def simp del: map_of_eq_Some_iff)
    qed simp
  qed
qed

text \<open>A file published at or after the start of a listing is recent for it.\<close>

lemma published_recent:
  assumes "man_ok m" "\<not> mhas (m_byKey m) (fi_Key fi)" "listStart \<le> now"
  shows "fi_Key fi \<in> recentKeys (addFileLocked now p fi m) listStart"
proof -
  let ?m = "addFileLocked now p fi m" and ?a = "m_recentAdds m"
  let ?at = "if ?a \<noteq> [] \<and> now < snd (last ?a) then snd (last ?a) else now"
  have ok: "man_ok ?m" by (rule addFile_ok [OF assms(1)])
  have "\<exists>n \<le> length ?a. m_recentAdds ?m = drop n (?a @ [(fi_Key fi, ?at)])"
    by (auto simp: addFile_frame(7) [OF assms(2)] noteAddedLocked_def Let_def maxRecentAdds_def
        intro: exI [of _ 0] exI [of _ "Suc (length ?a) - 50000"] simp del: drop_append)
  then have "(fi_Key fi, ?at) \<in> set (m_recentAdds ?m)" by auto
  moreover have "listStart \<le> ?at" using assms(3) by auto
  ultimately have "(fi_Key fi, ?at) \<in> set (recentAddsSinceLocked ?m listStart)"
    using recentAddsSince_eq [of ?m listStart] ok by (simp add: man_ok_def guard_ok_def not_less)
  moreover have "mhas (m_byKey ?m) (fi_Key fi)" by (simp add: addFile_frame(2) [OF assms(2)] go_map)
  ultimately show ?thesis unfolding recentKeys_def by force
qed

text \<open>A publish is not undone by a listing that began before it: the output stays and the sources do not
  come back, whether or not the listing has them.\<close>

lemma publish_survives_listing:
  assumes "man_ok m" "ReplaceFiles now p ks fi m = (True, m')" "fi_Key fi \<notin> set ks" "listStart \<le> now" "wfmap files"
    and "applyLocked verdict now' files listStart skipped m' = (True, m'')"
  shows "mhas (m_byKey m'') (fi_Key fi)" "\<forall>k \<in> set ks. \<not> mhas (m_byKey m'') k"
proof -
  have ok: "man_ok m'" using ReplaceFiles_ok [OF assms(1), of now p ks fi] assms(2) by simp
  have c: "\<forall>k \<in> set ks. mget (m_byKey m) k = Some p" "freeForPublishLocked (fi_Key fi) ks m"
    and m': "m' = addFileLocked now p fi (takeOut now p (fi_Key fi) ks m)"
    using assms(2) by (auto simp: ReplaceFiles_eq split: if_splits)
  note T = takeOut_ok [OF assms(1) c(1), of now "fi_Key fi"]
  have free: "\<not> mhas (m_byKey (takeOut now p (fi_Key fi) ks m)) (fi_Key fi)"
    using c(2) by (auto simp: mhas_def T(2) freeForPublishLocked_def)
  note A = applyLocked_accepted(1) [OF assms(6) ok assms(5)]
  show "mhas (m_byKey m'') (fi_Key fi)" using published_recent [OF T(1) free assms(4), of p] unfolding A m' by blast
  show "\<forall>k \<in> set ks. \<not> mhas (m_byKey m'') k"
  proof
    fix k assume k: "k \<in> set ks"
    note E = ReplaceFiles_effect [OF assms(1,2), of k]
    have "mhas (m_retired m') k" "\<not> mhas (m_byKey m') k" using E k assms(3) by (auto simp: mhas_def)
    then show "\<not> mhas (m_byKey m'') k" unfolding A recentKeys_def by simp
  qed
qed

lemma listingFiles_wf: "wfmap (listingFiles objects)"
proof -
  have "wfmap (fold (\<lambda>(key, size') files.
         if \<not> hasSuffix key ''.parquet'' then files
         else let p = extractPartition key
              in if p = [] then files else mput p (filesOf files p @ [listedFile key size']) files) objects fs)"
    if "wfmap fs" for fs :: fileMap
    using that by (induction objects arbitrary: fs) (auto simp: Let_def wfmap_mput)
  then show ?thesis by (simp add: listingFiles_def)
qed

section \<open>Reading\<close>

lemma GetFileByKey_iff:
  assumes "files_ok m"
  shows "GetFileByKey k m = Some fi \<longleftrightarrow> fi \<in> set (allFiles (m_files m)) \<and> fi_Key fi = k"
proof -
  have M: "map_ok (m_files m)" and I: "indexes (m_byKey m) (m_files m)" and w: "wfmap (m_files m)"
    using assms by (auto simp: files_ok_def map_ok_def)
  show ?thesis
  proof
    assume g: "GetFileByKey k m = Some fi"
    then obtain p where "find (\<lambda>fi. fi_Key fi = k) (filesOf (m_files m) p) = Some fi"
      by (auto simp: GetFileByKey_def split: option.splits)
    then have "fi \<in> set (filesOf (m_files m) p)" "fi_Key fi = k" by (auto simp: find_Some_iff)
    then show "fi \<in> set (allFiles (m_files m)) \<and> fi_Key fi = k" using in_allFiles [OF w] by blast
  next
    assume "fi \<in> set (allFiles (m_files m)) \<and> fi_Key fi = k"
    then obtain p where p: "fi \<in> set (filesOf (m_files m) p)" "fi_Key fi = k" using in_allFiles [OF w] by blast
    then have bk: "mget (m_byKey m) k = Some p" using indexesD [OF I] by blast
    obtain fi' where f: "find (\<lambda>fi. fi_Key fi = k) (filesOf (m_files m) p) = Some fi'"
      using p by (cases "find (\<lambda>fi. fi_Key fi = k) (filesOf (m_files m) p)") (auto simp: find_None_iff)
    then have "fi' \<in> set (filesOf (m_files m) p)" "fi_Key fi' = k" by (auto simp: find_Some_iff)
    then have "fi' = fi" using map_ok_unique [OF M _ p(1), of fi' p] p(2) by simp
    then show "GetFileByKey k m = Some fi" by (simp add: GetFileByKey_def bk f)
  qed
qed

text \<open>The partitions a range query walks are those whose hour overlaps the range.\<close>

lemma takeWhile_sorted:
  assumes "sorted_wrt R xs" "\<And>a b. R a b \<Longrightarrow> P b \<Longrightarrow> P a"
  shows "takeWhile P xs = filter P xs"
  using assms(1)
proof (induction xs)
  case (Cons x xs)
  have "filter P xs = []" if "\<not> P x" using Cons.prems assms(2) that by (auto simp: filter_empty_conv)
  then show ?case using Cons by auto
qed simp

lemma rangePartitions_set:
  assumes "index_ok m"
  shows "set (rangePartitions lo hi m) = {e. \<exists>p \<in> set (mkeys (m_files m)). entryOf p = Some e \<and> lo < pe_end e \<and> pe_start e \<le> hi}"
proof -
  let ?ps = "m_sortedPartitions m"
  have S: "sorted_wrt (\<lambda>a b. \<not> entryBefore b a) ?ps" and E: "set ?ps = set (List.map_filter entryOf (mkeys (m_files m)))"
    using assms by (auto simp: index_ok_def)
  have hr: "pe_end e = pe_start e + hour" if "e \<in> set ?ps" for e
    using that unfolding E in_map_filter by (auto simp: entryOf_def)
  have mono: "lo < pe_end (?ps ! b)" if "a \<le> b" "b < length ?ps" "lo < pe_end (?ps ! a)" for a b
  proof (cases "a = b")
    case False
    then have "\<not> entryBefore (?ps ! b) (?ps ! a)" using S that by (auto simp: sorted_wrt_iff_nth_less)
    then show ?thesis using that hr [of "?ps ! a"] hr [of "?ps ! b"] by (simp add: entryBefore_def)
  qed (use that in simp)
  have d: "drop (sortSearch (length ?ps) (\<lambda>i. pe_end (?ps ! i) > lo)) ?ps = filter (\<lambda>e. pe_end e > lo) ?ps"
    by (rule drop_sortSearch(1)) (rule mono)
  have "takeWhile (\<lambda>p. \<not> pe_start p > hi) (filter (\<lambda>e. pe_end e > lo) ?ps) = filter (\<lambda>p. \<not> pe_start p > hi) (filter (\<lambda>e. pe_end e > lo) ?ps)"
    by (rule takeWhile_sorted [where R = "\<lambda>a b. \<not> entryBefore b a"]) (use S in \<open>auto simp: entryBefore_def sorted_wrt_filter\<close>)
  then have "set (rangePartitions lo hi m) = {e \<in> set ?ps. lo < pe_end e \<and> pe_start e \<le> hi}"
    unfolding rangePartitions_def Let_def d by auto
  then show ?thesis unfolding E in_map_filter by auto
qed

lemma GetFilesForRange_set:
  assumes "man_ok m"
  shows "set (GetFilesForRange lo hi m) =
    {fi. \<exists>p t. fi \<in> set (filesOf (m_files m) p) \<and> parsePartitionTime p = Some t \<and> t \<le> hi \<and> lo < t + hour \<and> inFileRange lo hi fi}"
proof -
  have I: "index_ok m" using assms by (simp add: man_ok_def)
  have "fi \<in> set (GetFilesForRange lo hi m) \<longleftrightarrow>
      (\<exists>e \<in> set (rangePartitions lo hi m). fi \<in> set (filesOf (m_files m) (pe_key e)) \<and> inFileRange lo hi fi)" for fi
    by (auto simp: GetFilesForRange_def)
  also have "\<dots> fi \<longleftrightarrow> (\<exists>p t. fi \<in> set (filesOf (m_files m) p) \<and> parsePartitionTime p = Some t \<and> t \<le> hi \<and> lo < t + hour \<and> inFileRange lo hi fi)" for fi
  proof
    assume "\<exists>e \<in> set (rangePartitions lo hi m). fi \<in> set (filesOf (m_files m) (pe_key e)) \<and> inFileRange lo hi fi"
    then show "\<exists>p t. fi \<in> set (filesOf (m_files m) p) \<and> parsePartitionTime p = Some t \<and> t \<le> hi \<and> lo < t + hour \<and> inFileRange lo hi fi"
      unfolding rangePartitions_set [OF I] by (auto simp: entryOf_def)
  next
    assume "\<exists>p t. fi \<in> set (filesOf (m_files m) p) \<and> parsePartitionTime p = Some t \<and> t \<le> hi \<and> lo < t + hour \<and> inFileRange lo hi fi"
    then obtain p t where p: "fi \<in> set (filesOf (m_files m) p)" "parsePartitionTime p = Some t" "t \<le> hi" "lo < t + hour" "inFileRange lo hi fi"
      by blast
    then have "p \<in> set (mkeys (m_files m))" using filesOf_notin by (metis empty_iff list.set(1))
    then show "\<exists>e \<in> set (rangePartitions lo hi m). fi \<in> set (filesOf (m_files m) (pe_key e)) \<and> inFileRange lo hi fi"
      unfolding rangePartitions_set [OF I] using p
      by (intro bexI [of _ "\<lparr>pe_key = p, pe_start = t, pe_end = t + hour\<rparr>"]) (auto simp: entryOf_def simp del: set_map)
  qed
  finally show ?thesis by blast
qed

section \<open>Every sequence of operations\<close>

datatype man_op =
    OAdd int string fileInfo
  | OAddUnlessRetired int string fileInfo
  | ORemove int string string
  | ORemoveIfPresent int string string
  | OReplace int string "string list" fileInfo
  | OClaim int string
  | OReleasePending string
  | OAbandon int string
  | ORetire int string string bool
  | OUnretire string
  | OUnretireIf string string
  | OConfirm string
  | OHold string
  | ORelease string
  | OEnrich string int int int
  | OBucket string string
  | ORefresh shrinkVerdict int fileMap int "string list"

fun manStep :: "man_op \<Rightarrow> manifest \<Rightarrow> manifest" where
  "manStep (OAdd now p fi) m = AddFile now p fi m"
| "manStep (OAddUnlessRetired now p fi) m = snd (AddFileUnlessRetired now p fi m)"
| "manStep (ORemove now p key) m = RemoveFile now p key m"
| "manStep (ORemoveIfPresent now p key) m = snd (RemoveFileIfPresent now p key m)"
| "manStep (OReplace now p ks fi) m = snd (ReplaceFiles now p ks fi m)"
| "manStep (OClaim now key) m = snd (ClaimPending now key m)"
| "manStep (OReleasePending key) m = ReleasePending key m"
| "manStep (OAbandon now key) m = AbandonPending now key m"
| "manStep (ORetire now key by' reclaim) m = snd (Retire now key by' reclaim m)"
| "manStep (OUnretire key) m = snd (Unretire key m)"
| "manStep (OUnretireIf key r) m = snd (UnretireIfReplacedBy key r m)"
| "manStep (OConfirm key) m = ConfirmDeleted key m"
| "manStep (OHold key) m = Hold key m"
| "manStep (ORelease key) m = Release key m"
| "manStep (OEnrich key rows lo hi) m = EnrichFileMetadata key rows lo hi m"
| "manStep (OBucket key b) m = SetFileBucket key b m"
| "manStep (ORefresh verdict now files listStart skipped) m = snd (applyLocked verdict now files listStart skipped m)"

text \<open>What the callers establish: a removal names the partition of its key, and a listing is a map.\<close>

fun manPre :: "man_op \<Rightarrow> manifest \<Rightarrow> bool" where
  "manPre (ORemove now p key) m = (mget (m_byKey m) key = None \<or> mget (m_byKey m) key = Some p)"
| "manPre (ORefresh verdict now files listStart skipped) m = wfmap files"
| "manPre op m = True"

lemma manStep_ok: "man_ok m \<Longrightarrow> manPre op m \<Longrightarrow> man_ok (manStep op m)"
  by (cases op)
    (simp_all add: AddFile_def AddFileUnlessRetired_def addFile_ok RemoveFile_ok RemoveFileIfPresent_ok ReplaceFiles_ok
      ClaimPending_ok ReleasePending_ok AbandonPending_ok Retire_ok Unretire_ok UnretireIfReplacedBy_ok ConfirmDeleted_ok
      Hold_ok Release_ok EnrichFileMetadata_ok file_updates_ok applyLocked_ok)

interpretation manifest_machine: machine manPre manStep man_ok
  by unfold_locales (rule manStep_ok)

end
