(* ===== verification/ManifestProbe.thy ===== *)
theory ManifestProbe
  imports ManifestSafety
begin

text \<open>
  The probe of a listing that shrinks: what the verdict of \<open>probeShrink\<close> is evidence of, and with it
  the cliff rule of \<open>applyRefreshedFiles\<close>, the probe and the locked part together, with whatever
  other goroutines do to the manifest in between.
\<close>

section \<open>The sample\<close>

text \<open>The reservoir holds distinct elements of what it was offered, all of them up to its size.\<close>

lemma reservoir_sample:
  assumes "distinct xs"
  shows "fst (fold (reservoir pick) xs (0, [])) = length xs \<and>
    (let sample = snd (fold (reservoir pick) xs (0, []))
     in length sample = min cliffProbeSample (length xs) \<and> set sample \<subseteq> set xs \<and> distinct sample)"
  using assms
proof (induction xs rule: rev_induct)
  case (snoc x xs)
  obtain d s where r: "fold (reservoir pick) xs (0, []) = (d, s)" by fastforce
  have IH: "d = length xs" "length s = min cliffProbeSample (length xs)" "set s \<subseteq> set xs" "distinct s" and x: "x \<notin> set xs"
    using snoc r by simp_all
  have "distinct (s[i := x])" for i using IH x by (intro distinct_list_update) auto
  moreover have "set (s[i := x]) \<subseteq> insert x (set xs)" for i using set_update_subset_insert [of s i x] IH by blast
  moreover have e: "fold (reservoir pick) (xs @ [x]) (0, []) = (Suc d, if length s < cliffProbeSample then s @ [x]
      else if pick (Suc d) < cliffProbeSample then s[pick (Suc d) := x] else s)"
    by (simp only: fold_append r o_apply) (simp add: reservoir_def Let_def)
  ultimately show ?case unfolding e using IH x by auto
qed simp

lemma verdictOf_confirmed:
  "verdictOf rs v = shrinkConfirmed \<longleftrightarrow> v = shrinkConfirmed \<and> (\<forall>r \<in> set rs. r = Inr False)"
  by (induction rs v rule: verdictOf.induct) auto

text \<open>The keys of the manifest that a listing would drop.\<close>

definition droppedKeys :: "fileMap \<Rightarrow> int \<Rightarrow> string list \<Rightarrow> manifest \<Rightarrow> string set" where
  "droppedKeys files listStart skipped m =
     {k. mhas (m_byKey m) k \<and> k \<notin> set (probeKept m files listStart) \<and> \<not> underSkipped k skipped}"

lemma byKey_length:
  assumes "files_ok m"
  shows "m_totalFiles m = int (length (m_byKey m))"
proof -
  have B: "wfmap (m_byKey m)" "distinct (map fi_Key (allFiles (m_files m)))"
    using assms by (auto simp: files_ok_def indexes_def map_ok_def)
  have "set (mkeys (m_byKey m)) = set (map fi_Key (allFiles (m_files m)))"
    using fkeys_tracked [OF assms] mhas_keys [of "m_byKey m"] by auto
  then have "length (mkeys (m_byKey m)) = length (map fi_Key (allFiles (m_files m)))"
    using B by (metis distinct_card)
  then show ?thesis using assms by (simp add: files_ok_def)
qed

lemma probeShrink_confirmed:
  assumes "files_ok m" "probeShrink pick probe files listStart skipped m = shrinkConfirmed"
  obtains f sample bkt where "probe = Some f" "sample \<noteq> []" "distinct sample" "set sample \<subseteq> droppedKeys files listStart skipped m"
    "length sample = min cliffProbeSample (card (droppedKeys files listStart skipped m))"
    "\<forall>k \<in> set sample. f (bkt k) k = Inr False"
proof -
  let ?kept = "probeKept m files listStart" and ?u = "\<lambda>(k, p). skipped \<noteq> [] \<and> underSkipped k skipped"
  define rest where "rest = filter (\<lambda>(k, p). k \<notin> set ?kept) (m_byKey m)"
  define lost where "lost = filter (\<lambda>x. \<not> ?u x) rest"
  define s where "s = snd (fold (reservoir pick) lost (0, []))"
  let ?b = "\<lambda>k p. case find (\<lambda>fi. fi_Key fi = k) (filesOf (m_files m) p) of None \<Rightarrow> [] | Some fi \<Rightarrow> fi_Bucket fi"
  have w: "wfmap (m_byKey m)" using assms(1) by (simp add: files_ok_def indexes_def)
  have wl: "wfmap lost" unfolding lost_def rest_def by (intro wfmap_filter w)
  then have R: "length s = min cliffProbeSample (length lost)" "set s \<subseteq> set lost" "distinct s"
    using reservoir_sample [of lost pick] by (simp_all add: Let_def s_def distinct_map)
  have "\<not> underSkipped k []" for k by (simp add: underSkipped_def)
  then have L: "fst ` set lost = droppedKeys files listStart skipped m"
    unfolding droppedKeys_def mhas_keys by (cases "skipped = []") (force simp: lost_def rest_def)+
  have card: "card (droppedKeys files listStart skipped m) = length lost"
    unfolding L [symmetric] using wl distinct_card [of "mkeys lost"] by simp
  have P: "\<not> int (length ?kept + length (filter ?u rest)) \<ge> m_totalFiles m div 2"
    and V: "\<exists>f. probe = Some f \<and> verdictOf (map (\<lambda>(k, p). f (?b k p) k) s) shrinkConfirmed = shrinkConfirmed"
    using assms(2) by (auto simp: probeShrink_def Let_def case_prod_beta s_def lost_def rest_def
        split: if_splits option.splits)
  have "length (filter (\<lambda>(k, p). k \<in> set ?kept) (m_byKey m)) \<le> length ?kept"
  proof -
    let ?l = "filter (\<lambda>(k, p). k \<in> set ?kept) (m_byKey m)"
    have "wfmap ?l" "fst ` set ?l \<subseteq> set ?kept" using w by (auto intro: wfmap_filter)
    then have "length ?l \<le> card (set ?kept)" using distinct_card [of "mkeys ?l"] card_mono [of "set ?kept" "fst ` set ?l"] by simp
    then show ?thesis using card_length [of ?kept] by linarith
  qed
  moreover have "length (m_byKey m) = length (filter (\<lambda>(k, p). k \<in> set ?kept) (m_byKey m)) + length rest"
    unfolding rest_def using sum_length_filter_compl [of "\<lambda>x. fst x \<in> set ?kept" "m_byKey m"] by (simp add: case_prod_unfold)
  moreover have "length rest = length (filter ?u rest) + length lost"
    unfolding lost_def using sum_length_filter_compl [of ?u rest] by simp
  ultimately have ne: "length lost > 0" using P byKey_length [OF assms(1)] by linarith
  obtain f where f: "probe = Some f" "\<forall>(k, p) \<in> set s. f (?b k p) k = Inr False"
    using V by (force simp: verdictOf_confirmed)
  let ?k = "map fst s" and ?bkt = "\<lambda>k. ?b k (the (mget (m_byKey m) k))"
  show ?thesis
  proof (rule that [of f ?k ?bkt])
    show "?k \<noteq> []" using R(1) ne by (auto simp: cliffProbeSample_def min_def split: if_splits)
    show "distinct ?k" using R(2,3) wl by (auto simp: distinct_map intro: inj_on_subset)
    show "set ?k \<subseteq> droppedKeys files listStart skipped m" using R(2) L by auto
    show "length ?k = min cliffProbeSample (card (droppedKeys files listStart skipped m))" by (simp add: R(1) card)
    show "\<forall>k \<in> set ?k. f (?bkt k) k = Inr False"
    proof
      fix k assume "k \<in> set ?k"
      then obtain p where p: "(k, p) \<in> set s" by auto
      then have "(k, p) \<in> set (m_byKey m)" using R(2) by (auto simp: lost_def rest_def)
      then have "mget (m_byKey m) k = Some p" using w by simp
      then show "f (?bkt k) k = Inr False" using f(2) p by auto
    qed
  qed (use f in simp)
qed

end
