(* ===== verification/ManScenario.thy ===== *)
theory ManScenario
  imports ManifestProbe
begin

text \<open>
  An example manifest, for the concrete instances of the properties: two files of one hour are
  merged into a third while a listing that began before the merge is running.
\<close>

text \<open>The caps of the manifest are compared as integers when the examples are evaluated.\<close>

lemma noteAdded_code [code]:
  "noteAddedLocked key now m =
     (let adds = m_recentAdds m;
          at = (if adds \<noteq> [] \<and> now < snd (last adds) then snd (last adds) else now);
          adds' = adds @ [(key, at)]
      in m\<lparr>m_pending := mdel key (m_pending m), m_awaitingAdoption := mdel key (m_awaitingAdoption m),
           m_retired := mdel key (m_retired m),
           m_recentAdds := (if int (length adds') > 100000 then drop (length adds' - maxRecentAdds) adds' else adds')\<rparr>)"
  by (simp add: noteAddedLocked_def maxRecentAdds_def Let_def)

lemma pruneRetired_code [code]:
  "pruneRetiredLocked now m =
     (let live = filter (\<lambda>(k, rk). rk_Reclaim rk \<or> \<not> now - rk_At rk > retiredKeyTTL) (m_retired m)
      in if int (length live) > 100000 then m\<lparr>m_retired := pruneRetiredWith maxRetiredKeys now (m_retired m)\<rparr>
         else m\<lparr>m_retired := live\<rparr>)"
  by (simp add: pruneRetiredLocked_def pruneRetiredWith_def maxRetiredKeys_def Let_def)

definition exPart :: string where "exPart = ''dt=2024-01-01/hour=00''"

definition exA :: string where "exA = ''1/2/logs/dt=2024-01-01/hour=00/a.parquet''"
definition exB :: string where "exB = ''1/2/logs/dt=2024-01-01/hour=00/b.parquet''"
definition exAB :: string where "exAB = ''1/2/logs/dt=2024-01-01/hour=00/ab.parquet''"

definition exMan :: manifest where
  "exMan = AddFile 20 exPart (listedFile exB 5) (AddFile 10 exPart (listedFile exA 7) New)"

definition exStale :: "(string \<times> int) list" where "exStale = [(exA, 7), (exB, 5)]"

definition exMerged :: "bool \<times> manifest" where
  "exMerged = ReplaceFiles 40 exPart [exA, exB] (listedFile exAB 11) exMan"

definition exRefreshed :: "bool \<times> manifest" where
  "exRefreshed = applyLocked shrinkNotChecked 50 (listingFiles exStale) 30 [] (snd exMerged)"

lemma exMan_ok: "man_ok exMan"
  by (simp add: exMan_def AddFile_def addFile_ok man_ok_New)

lemmas exKeys = exA_def exB_def exAB_def

lemma ex_distinct [simp]: "exA \<noteq> exB" "exB \<noteq> exA" "exA \<noteq> exAB" "exAB \<noteq> exA" "exB \<noteq> exAB" "exAB \<noteq> exB"
  by (simp_all add: exKeys)

lemma listedFile_Key [simp]: "fi_Key (listedFile k n) = k"
  by (simp add: listedFile_def)

lemma exMan_byKey: "m_byKey exMan = [(exA, exPart), (exB, exPart)]" "m_held exMan = []"
proof -
  have a: "\<not> mhas (m_byKey New) (fi_Key (listedFile exA 7))" by (simp add: New_def mhas_def)
  have b: "\<not> mhas (m_byKey (addFileLocked 10 exPart (listedFile exA 7) New)) (fi_Key (listedFile exB 5))"
    unfolding addFile_frame(2) [OF a] by (simp add: mhas_def New_def)
  show "m_byKey exMan = [(exA, exPart), (exB, exPart)]" "m_held exMan = []"
    unfolding exMan_def AddFile_def addFile_frame [OF b] addFile_frame [OF a] by (simp_all add: New_def)
qed

lemma exMerged_run: "ReplaceFiles 40 exPart [exA, exB] (listedFile exAB 11) exMan = (True, snd exMerged)"
  by (simp add: exMerged_def ReplaceFiles_eq exMan_byKey freeForPublishLocked_def mhas_def)

lemma exMerged_ok: "man_ok (snd exMerged)"
  unfolding exMerged_def by (rule ReplaceFiles_ok [OF exMan_ok])

lemma exMerged_total: "m_totalFiles (snd exMerged) = 1"
proof -
  have "mget (m_byKey (snd exMerged)) k = (if k = exAB then Some exPart else None)" for k
    using ReplaceFiles_effect(1) [OF exMan_ok exMerged_run, of k] by (simp add: exMan_byKey split: if_splits)
  then have "set (mkeys (m_byKey (snd exMerged))) = {exAB}"
    unfolding set_eq_iff mhas_keys [symmetric] mhas_def by simp
  moreover have "wfmap (m_byKey (snd exMerged))" using exMerged_ok by (simp add: man_ok_def files_ok_def indexes_def)
  ultimately have "length (m_byKey (snd exMerged)) = 1" using distinct_card [of "mkeys (m_byKey (snd exMerged))"] by simp
  then show ?thesis using byKey_length exMerged_ok by (simp add: man_ok_def)
qed

lemma countFiles_nonneg [simp]: "\<not> countFiles fs < 0"
  by (simp add: countFiles_eq)

lemma exRefreshed_eq: "exRefreshed = (True, snd exRefreshed)"
  unfolding exRefreshed_def by (simp add: applyLocked_def exMerged_total case_prod_beta)

text \<open>A later listing, which began after the merge and does not have the sources any more.\<close>

definition exSettled :: "bool \<times> manifest" where
  "exSettled = applyLocked shrinkNotChecked 70 (listingFiles [(exAB, 11)]) 60 [] (snd exMerged)"

lemma exSettled_ok: "exSettled = (True, snd exSettled)" "\<not> mhas (m_retired (snd exSettled)) exA"
    "map_option rk_At (mget (m_retired (snd exMerged)) exA) = Some 40"
proof -
  have "fst exSettled" "\<not> mhas (m_retired (snd exSettled)) exA" "map_option rk_At (mget (m_retired (snd exMerged)) exA) = Some 40"
    by code_simp+
  then show "exSettled = (True, snd exSettled)" "\<not> mhas (m_retired (snd exSettled)) exA"
    "map_option rk_At (mget (m_retired (snd exMerged)) exA) = Some 40"
    by (simp_all add: prod_eq_iff)
qed

end
