(* ===== verification/Ownership.thy ===== *)
theory Ownership
  imports GoSort
begin

text \<open>
  Which pod compacts which partition: \<open>src/internal/compaction/ownership.go\<close>. The owner is the
  peer with the highest rendezvous weight.

  The hash is a parameter \<open>h\<close> (xxhash, or the one \<open>WithHashFunc\<close> sets), and so is the pod's
  identification in the peer list, \<open>resolve\<close> (\<open>selfaddr.Tracker.Resolve\<close>, which asks the
  network): \<open>Some self\<close> when exactly one member is this pod. \<open>Peers\<close>, \<open>Stabilizing\<close> and
  \<open>IsDraining\<close> are callbacks; their answers are fields of the resolver. The gauges the methods
  publish are not modelled.
\<close>

section \<open>The resolver\<close>

record resolver =
  or_Peers :: "string list option"
  or_Stabilizing :: "bool option"
  or_IsDraining :: "(string \<Rightarrow> bool) option"
  or_resolve :: "string list \<Rightarrow> string option"
  or_hash :: "string \<Rightarrow> 64 word"

definition hrwWeight :: "string \<Rightarrow> string \<Rightarrow> (string \<Rightarrow> 64 word) \<Rightarrow> 64 word" where
  "hrwWeight peer part h = h (peer @ [CHR 0x1F] @ part)"

record peerWeight =
  pw_peer :: string
  pw_weight :: "64 word"

definition heavier :: "peerWeight \<Rightarrow> peerWeight \<Rightarrow> bool" where
  "heavier a b = (if pw_weight a \<noteq> pw_weight b then pw_weight a > pw_weight b else pw_peer a < pw_peer b)"

definition rawPeers :: "resolver \<Rightarrow> string list" where
  "rawPeers r = (case or_Peers r of None \<Rightarrow> [] | Some ps \<Rightarrow> ps)"

definition filterDraining :: "resolver \<Rightarrow> string list \<Rightarrow> string list" where
  "filterDraining r ps = (case or_IsDraining r of None \<Rightarrow> ps | Some d \<Rightarrow> filter (\<lambda>p. \<not> d p) ps)"

definition effectivePeers :: "resolver \<Rightarrow> string list \<Rightarrow> string list" where
  "effectivePeers r raw = filterDraining r raw"

definition peersForOwnership :: "resolver \<Rightarrow> string list" where
  "peersForOwnership r = effectivePeers r (rawPeers r)"

text \<open>The peers, this pod's member, and whether the pod may own anything.\<close>

definition ringView :: "resolver \<Rightarrow> string list \<times> string \<times> bool" where
  "ringView r =
     (let raw = rawPeers r; peers = effectivePeers r raw
      in case or_resolve r raw of
           None \<Rightarrow> (peers, [], False)
         | Some self \<Rightarrow> (peers, self, self \<in> set peers))"

definition SelfMember :: "resolver \<Rightarrow> string \<times> bool" where
  "SelfMember r = (case ringView r of (peers, self, owns) \<Rightarrow> (self, owns))"

definition rankFromPeers :: "resolver \<Rightarrow> string \<Rightarrow> string list \<Rightarrow> string list" where
  "rankFromPeers r part peers =
     map pw_peer (sort_slice heavier (map (\<lambda>p. \<lparr>pw_peer = p, pw_weight = hrwWeight p part (or_hash r)\<rparr>) peers))"

definition RankedOwners :: "resolver \<Rightarrow> string \<Rightarrow> string list" where
  "RankedOwners r part =
     (let peers = peersForOwnership r in if peers = [] then [] else rankFromPeers r part peers)"

definition OwnsPartition :: "resolver \<Rightarrow> string \<Rightarrow> bool" where
  "OwnsPartition r part =
     (if or_Stabilizing r = Some True then False
      else case ringView r of
        (peers, self, owns) \<Rightarrow>
          if peers = [] \<or> \<not> owns then False
          else (case rankFromPeers r part peers of [] \<Rightarrow> False | o1 # os \<Rightarrow> o1 = self))"

definition OwnerOf :: "resolver \<Rightarrow> string \<Rightarrow> string" where
  "OwnerOf r part = (case RankedOwners r part of [] \<Rightarrow> [] | o1 # os \<Rightarrow> o1)"

definition SecondaryOwner :: "resolver \<Rightarrow> string \<Rightarrow> string" where
  "SecondaryOwner r part =
     (case RankedOwners r part of [] \<Rightarrow> [] | [o1] \<Rightarrow> o1 | o1 # o2 # os \<Rightarrow> o2)"

definition TertiaryOwner :: "resolver \<Rightarrow> string \<Rightarrow> string" where
  "TertiaryOwner r part =
     (case RankedOwners r part of [] \<Rightarrow> [] | [o1] \<Rightarrow> o1 | [o1, o2] \<Rightarrow> o2 | o1 # o2 # o3 # os \<Rightarrow> o3)"

definition IsStabilizing :: "resolver \<Rightarrow> bool" where
  "IsStabilizing r = (case or_Stabilizing r of None \<Rightarrow> False | Some b \<Rightarrow> b)"

section \<open>The ranking\<close>

lemma heavier_lex:
  "heavier = (\<lambda>a b. if - uint (pw_weight a) \<noteq> - uint (pw_weight b) then - uint (pw_weight a) < - uint (pw_weight b)
     else pw_peer a < pw_peer b)"
  by (intro ext) (simp add: heavier_def word_less_def word_uint_eq_iff)

interpretation weight_order: comparator heavier
  unfolding heavier_lex by (rule comparator_lex [OF comparator_key])

abbreviation weighed :: "resolver \<Rightarrow> string \<Rightarrow> string \<Rightarrow> peerWeight" where
  "weighed r part p \<equiv> \<lparr>pw_peer = p, pw_weight = hrwWeight p part (or_hash r)\<rparr>"

text \<open>On the peers of one partition the order separates any two, whatever the hash collides on.\<close>

lemma heavier_total:
  assumes "a \<in> set (map (weighed r part) ps)" "b \<in> set (map (weighed r part) ps)"
  shows "heavier a b \<or> a = b \<or> heavier b a"
proof -
  obtain p q where pq: "a = weighed r part p" "b = weighed r part q" using assms by auto
  show ?thesis
  proof (cases "pw_weight a = pw_weight b")
    case True
    then show ?thesis using less_linear [of p q] by (auto simp: heavier_def pq)
  next
    case False
    then show ?thesis using less_linear [of "pw_weight a" "pw_weight b"] by (auto simp: heavier_def)
  qed
qed

lemma set_rank [simp]: "set (rankFromPeers r part peers) = set peers"
  by (simp add: rankFromPeers_def image_image)

lemma length_rank [simp]: "length (rankFromPeers r part peers) = length peers"
  by (simp add: rankFromPeers_def)

lemma rank_Nil [simp]: "rankFromPeers r part peers = [] \<longleftrightarrow> peers = []"
  by (metis length_0_conv length_rank)

lemma rank_perm:
  assumes "mset ps = mset qs" "or_hash r = or_hash s"
  shows "rankFromPeers r part ps = rankFromPeers s part qs"
proof -
  have "mset (map (weighed r part) ps) = mset (map (weighed s part) qs)" using assms by simp
  from weight_order.sort_slice_perm [OF this heavier_total] show ?thesis by (simp add: rankFromPeers_def)
qed

text \<open>The ranking of a part of the peers is the ranking of all of them, restricted: a peer that joins or
  leaves changes the order of no other two.\<close>

lemma rank_filter: "rankFromPeers r part (filter P ps) = filter P (rankFromPeers r part ps)"
proof -
  let ?w = "weighed r part" and ?Q = "\<lambda>x. P (pw_peer x)"
  have f: "map ?w (filter P ps) = filter ?Q (map ?w ps)" by (simp add: filter_map o_def)
  have "sort_slice heavier (filter ?Q (map ?w ps)) = filter ?Q (sort_slice heavier (map ?w ps))"
  proof (rule weight_order.sorted_perm_eq)
    show "sorted_wrt (\<lambda>a b. \<not> heavier b a) (filter ?Q (sort_slice heavier (map ?w ps)))"
      by (rule sorted_wrt_filter) (rule weight_order.sorted_sort_slice)
    show "heavier a b \<or> a = b \<or> heavier b a" if "a \<in> set (sort_slice heavier (filter ?Q (map ?w ps)))"
      "b \<in> set (sort_slice heavier (filter ?Q (map ?w ps)))" for a b
      using that by (intro heavier_total [where r = r and part = part and ps = ps]) auto
  qed (simp_all add: weight_order.sorted_sort_slice)
  then show ?thesis unfolding rankFromPeers_def f by (simp add: filter_map o_def)
qed

lemma hd_rank_in: "peers \<noteq> [] \<Longrightarrow> hd (rankFromPeers r part peers) \<in> set peers"
  by (metis hd_in_set rank_Nil set_rank)

lemma Owns_iff:
  "OwnsPartition r part \<longleftrightarrow>
     or_Stabilizing r \<noteq> Some True \<and> peersForOwnership r \<noteq> []
     \<and> or_resolve r (rawPeers r) = Some (hd (rankFromPeers r part (peersForOwnership r)))"
proof -
  have "(case rankFromPeers r part ps of [] \<Rightarrow> False | o1 # os \<Rightarrow> o1 = x) \<longleftrightarrow> hd (rankFromPeers r part ps) = x"
    if "ps \<noteq> []" for ps x
    using that rank_Nil [of r part ps] by (cases "rankFromPeers r part ps") auto
  then show ?thesis using hd_rank_in [of "peersForOwnership r" r part]
    by (auto simp: OwnsPartition_def ringView_def Let_def peersForOwnership_def split: option.split)
qed

text \<open>Pods that see the same ring: the same peers, the same draining peers, the same hash.\<close>

definition same_ring :: "resolver \<Rightarrow> resolver \<Rightarrow> bool" where
  "same_ring r s \<longleftrightarrow> mset (peersForOwnership r) = mset (peersForOwnership s) \<and> or_hash r = or_hash s"

lemma one_owner:
  assumes "same_ring r s" "OwnsPartition r part" "OwnsPartition s part"
  shows "or_resolve r (rawPeers r) = or_resolve s (rawPeers s)"
proof -
  have "rankFromPeers r part (peersForOwnership r) = rankFromPeers s part (peersForOwnership s)"
    using assms(1) by (intro rank_perm) (simp_all add: same_ring_def)
  then show ?thesis using assms(2,3) by (simp add: Owns_iff)
qed

lemma some_owner:
  assumes "peersForOwnership r0 \<noteq> []"
    and "\<forall>x \<in> set (peersForOwnership r0). same_ring r0 (pod x) \<and> or_Stabilizing (pod x) \<noteq> Some True
      \<and> or_resolve (pod x) (rawPeers (pod x)) = Some x"
  shows "\<exists>!x. x \<in> set (peersForOwnership r0) \<and> OwnsPartition (pod x) part"
proof -
  let ?o = "hd (rankFromPeers r0 part (peersForOwnership r0))"
  have o: "?o \<in> set (peersForOwnership r0)" by (rule hd_rank_in [OF assms(1)])
  have same: "rankFromPeers (pod x) part (peersForOwnership (pod x)) = rankFromPeers r0 part (peersForOwnership r0)"
    "peersForOwnership (pod x) \<noteq> []" if "x \<in> set (peersForOwnership r0)" for x
    using assms that by (auto simp: same_ring_def intro!: rank_perm)
  have "OwnsPartition (pod x) part \<longleftrightarrow> x = ?o" if "x \<in> set (peersForOwnership r0)" for x
    using same [OF that] assms(2) that by (auto simp: Owns_iff)
  then show ?thesis using o by blast
qed

text \<open>A ring of three pods, for the concrete instances.\<close>

definition exPodOf :: "string \<Rightarrow> resolver" where
  "exPodOf x = \<lparr>or_Peers = Some [''a'', ''b'', ''c''], or_Stabilizing = None, or_IsDraining = None,
     or_resolve = (\<lambda>ps. if x \<in> set ps then Some x else None), or_hash = (\<lambda>s. of_nat (length s))\<rparr>"

lemma exPodOf_ring:
  "peersForOwnership (exPodOf x) = [''a'', ''b'', ''c'']" "rawPeers (exPodOf x) = [''a'', ''b'', ''c'']"
  "or_Stabilizing (exPodOf x) = None" "or_hash (exPodOf x) = or_hash (exPodOf y)"
  "x \<in> {''a'', ''b'', ''c''} \<Longrightarrow> or_resolve (exPodOf x) [''a'', ''b'', ''c''] = Some x"
  by (simp_all add: exPodOf_def peersForOwnership_def rawPeers_def effectivePeers_def filterDraining_def)

end
