(* ===== verification/Freeze.thy ===== *)
theory Freeze
  imports Manifest
begin

text \<open>
  The lifecycle freeze: \<open>src/internal/delete/storageclass.go\<close> and
  \<open>src/internal/compaction/lifecycle_freeze.go\<close>. Compaction stays away from objects that the
  lifecycle rules have moved, or are about to move, out of the classes that may be rewritten.

  A \<open>time.Duration\<close> is an integer in nanoseconds; the products and differences that can
  overflow are taken modulo \<open>2\<^sup>6\<^sup>4\<close>. A \<open>nil\<close> pointer is \<open>None\<close>. \<open>strings.ToUpper\<close> is modelled on
  ASCII, which is what the names of the storage classes are. Not modelled: the cost estimate and
  the class prediction (\<open>EstimateRewriteCost\<close>, \<open>PredictClassFromAge\<close> and its two wrappers), which
  compute with floating point numbers.
\<close>

section \<open>Storage classes\<close>

type_synonym storageClass = string

definition ClassStandard :: storageClass where "ClassStandard = ''STANDARD''"
definition ClassIntelligentTiering :: storageClass where "ClassIntelligentTiering = ''INTELLIGENT_TIERING''"
definition ClassGlacier :: storageClass where "ClassGlacier = ''GLACIER''"
definition ClassGlacierIR :: storageClass where "ClassGlacierIR = ''GLACIER_IR''"
definition ClassDeepArchive :: storageClass where "ClassDeepArchive = ''DEEP_ARCHIVE''"
definition ClassStandardIA :: storageClass where "ClassStandardIA = ''STANDARD_IA''"

definition upperByte :: "char \<Rightarrow> char" where
  "upperByte c = (if byteIn (CHR ''a'') (CHR ''z'') c then char_of (of_char c - 32 :: nat) else c)"

definition ParseStorageClass :: "string \<Rightarrow> storageClass" where
  "ParseStorageClass s = (if s = [] then ClassStandard else map upperByte s)"

definition CanRewrite :: "storageClass \<Rightarrow> bool" where
  "CanRewrite sc \<longleftrightarrow> sc = ClassStandard \<or> sc = ClassIntelligentTiering"

definition IsArchive :: "storageClass \<Rightarrow> bool" where
  "IsArchive sc \<longleftrightarrow> sc = ClassGlacier \<or> sc = ClassGlacierIR \<or> sc = ClassDeepArchive"

section \<open>Lifecycle rules\<close>

record lifecycleRule =
  lr_TransitionDays :: int
  lr_Class :: storageClass

record tenantLifecycleOverride =
  ov_AccountID :: nat
  ov_ProjectID :: nat
  ov_TransitionDays :: "int list"
  ov_Classes :: "storageClass list"

type_synonym tenantRules = "(nat, (nat, lifecycleRule list) gomap) gomap"

definition BuildTenantRules :: "tenantLifecycleOverride list \<Rightarrow> tenantRules" where
  "BuildTenantRules overrides =
     fold (\<lambda>ov out.
         if length (ov_TransitionDays ov) \<noteq> length (ov_Classes ov) then out
         else let rules = map2 (\<lambda>d c. \<lparr>lr_TransitionDays = d, lr_Class = c\<rparr>) (ov_TransitionDays ov) (ov_Classes ov);
                  byProject = (case mget out (ov_AccountID ov) of None \<Rightarrow> [] | Some b \<Rightarrow> b)
              in mput (ov_AccountID ov) (mput (ov_ProjectID ov) rules byProject) out)
       overrides []"

record detector =
  sd_rules :: "lifecycleRule list"
  sd_perTenant :: "(nat \<times> nat, lifecycleRule list) gomap"
  sd_cache :: "(string, storageClass) gomap"

definition NewStorageClassDetector :: "lifecycleRule list \<Rightarrow> detector" where
  "NewStorageClassDetector rules = \<lparr>sd_rules = rules, sd_perTenant = [], sd_cache = []\<rparr>"

definition SetTenantRules :: "tenantRules option \<Rightarrow> detector \<Rightarrow> detector" where
  "SetTenantRules perTenant d =
     (case perTenant of
        None \<Rightarrow> d
      | Some pt \<Rightarrow>
          d\<lparr>sd_perTenant :=
              fold (\<lambda>(acc, byProject) merged. fold (\<lambda>(proj, rules) merged. mput (acc, proj) rules merged) byProject merged)
                pt []\<rparr>)"

text \<open>\<open>strings.IndexByte(s, '/')\<close> with the two parts around the slash.\<close>

fun cutSlash :: "string \<Rightarrow> (string \<times> string) option" where
  "cutSlash [] = None"
| "cutSlash (c # cs) =
     (if c = CHR ''/'' then Some ([], cs)
      else map_option (\<lambda>(a, b). (c # a, b)) (cutSlash cs))"

text \<open>\<open>strconv.ParseUint(s, 10, 32)\<close>: decimal digits, at least one, and the value fits 32 bits.\<close>

definition parseUint32 :: "string \<Rightarrow> nat option" where
  "parseUint32 s =
     (if s \<noteq> [] \<and> list_all digit s \<and> digits s \<le> 2 ^ 32 - 1 then Some (nat (digits s)) else None)"

definition parseTenantFromKey :: "string \<Rightarrow> (nat \<times> nat) option" where
  "parseTenantFromKey key =
     (case cutSlash key of
        None \<Rightarrow> None
      | Some (a, rest) \<Rightarrow>
          (case cutSlash rest of
             None \<Rightarrow> None
           | Some (p, _) \<Rightarrow>
               (case parseUint32 a of
                  None \<Rightarrow> None
                | Some acc \<Rightarrow> (case parseUint32 p of None \<Rightarrow> None | Some proj \<Rightarrow> Some (acc, proj)))))"

definition HasTenantRules :: "detector \<Rightarrow> bool" where
  "HasTenantRules d \<longleftrightarrow> length (sd_perTenant d) > 0"

text \<open>The rule-list form; \<open>None\<close> is \<open>ok = false\<close>.\<close>

definition firstTransitionStep :: "lifecycleRule \<Rightarrow> int option \<Rightarrow> int option" where
  "firstTransitionStep r acc =
     (if CanRewrite (lr_Class r) then acc
      else case acc of
        None \<Rightarrow> Some (lr_TransitionDays r)
      | Some days \<Rightarrow> if lr_TransitionDays r < days then Some (lr_TransitionDays r) else acc)"

definition FirstNonRewritableTransition :: "lifecycleRule list \<Rightarrow> int option" where
  "FirstNonRewritableTransition rules = fold firstTransitionStep rules None"

definition FirstGlobalNonRewritableTransition :: "detector \<Rightarrow> int option" where
  "FirstGlobalNonRewritableTransition d = FirstNonRewritableTransition (sd_rules d)"

definition rulesForKey :: "detector \<Rightarrow> string \<Rightarrow> lifecycleRule list" where
  "rulesForKey d key =
     (case parseTenantFromKey key of
        None \<Rightarrow> sd_rules d
      | Some t \<Rightarrow> (case mget (sd_perTenant d) t of None \<Rightarrow> sd_rules d | Some tr \<Rightarrow> tr))"

definition FirstNonRewritableTransitionFor :: "detector \<Rightarrow> string \<Rightarrow> int option" where
  "FirstNonRewritableTransitionFor d key = FirstNonRewritableTransition (rulesForKey d key)"

definition SetCache :: "string \<Rightarrow> storageClass \<Rightarrow> detector \<Rightarrow> detector" where
  "SetCache key class d = d\<lparr>sd_cache := mput key class (sd_cache d)\<rparr>"

definition GetCached :: "detector \<Rightarrow> string \<Rightarrow> storageClass option" where
  "GetCached d key = mget (sd_cache d) key"

definition CachedNonRewritableKeys :: "detector \<Rightarrow> string list" where
  "CachedNonRewritableKeys d = map fst (filter (\<lambda>(key, class). \<not> CanRewrite class) (sd_cache d))"

section \<open>The freeze\<close>

definition frozenStorageClass :: string where "frozenStorageClass = ''storage_class''"
definition frozenAge :: string where "frozenAge = ''age''"
definition frozenSizeAge :: string where "frozenSizeAge = ''size_age''"

definition defaultSizeMergeMaxAge :: int where "defaultSizeMergeMaxAge = 7 * 24 * hour"
definition defaultFreezeMargin :: int where "defaultFreezeMargin = 48 * hour"

record lifecycleFreeze =
  lf_Detector :: "detector option"
  lf_ExtraRules :: "lifecycleRule list"
  lf_Margin :: int
  lf_SizeMergeMaxAge :: int

definition classFrozen :: "fileInfo \<Rightarrow> bool" where
  "classFrozen fi =
     (if fi_StorageClass fi = [] \<or> fi_StorageClass fi = ClassStandard \<or> fi_StorageClass fi = ClassIntelligentTiering
      then False else \<not> CanRewrite (ParseStorageClass (fi_StorageClass fi)))"

record freezeLimits =
  fl_hasRule :: bool
  fl_freezeAge :: int
  fl_sizeMaxAge :: int

definition frozenAt :: "freezeLimits \<Rightarrow> int \<Rightarrow> bool" where
  "frozenAt l age \<longleftrightarrow> fl_hasRule l \<and> age \<ge> fl_freezeAge l"

definition sizeMergesAt :: "freezeLimits \<Rightarrow> int \<Rightarrow> bool" where
  "sizeMergesAt l age \<longleftrightarrow> fl_hasRule l \<or> fl_sizeMaxAge l \<le> 0 \<or> age < fl_sizeMaxAge l"

text \<open>Go's division by two truncates towards zero; \<open>Time.Sub\<close> saturates.\<close>

definition half :: "int \<Rightarrow> int" where
  "half x = (if 0 \<le> x then x div 2 else - ((- x) div 2))"

definition timeSub :: "int \<Rightarrow> int \<Rightarrow> int" where
  "timeSub a b = max (- (2 ^ 63)) (min max_int64 (a - b))"

definition limitsFromTransition :: "lifecycleFreeze \<Rightarrow> int option \<Rightarrow> freezeLimits" where
  "limitsFromTransition f t =
     (case t of
        None \<Rightarrow>
          \<lparr>fl_hasRule = False, fl_freezeAge = 0,
           fl_sizeMaxAge = (if lf_SizeMergeMaxAge f = 0 then defaultSizeMergeMaxAge else lf_SizeMergeMaxAge f)\<rparr>
      | Some days \<Rightarrow>
          let transition = to_int64 (days * 24 * hour);
              margin0 = (if lf_Margin f \<le> 0 then defaultFreezeMargin else lf_Margin f);
              margin = (if margin0 > half transition then half transition else margin0)
          in \<lparr>fl_hasRule = True, fl_freezeAge = to_int64 (transition - margin), fl_sizeMaxAge = 0\<rparr>)"

text \<open>The earlier of two transitions, as both \<open>limits\<close> and \<open>view\<close> combine them.\<close>

definition earlier :: "int option \<Rightarrow> int option \<Rightarrow> int option" where
  "earlier t u =
     (case u of
        None \<Rightarrow> t
      | Some d \<Rightarrow> (case t of None \<Rightarrow> Some d | Some days \<Rightarrow> if d < days then Some d else t))"

definition limits :: "lifecycleFreeze \<Rightarrow> string \<Rightarrow> freezeLimits" where
  "limits f key =
     (let t = FirstNonRewritableTransition (lf_ExtraRules f)
      in limitsFromTransition f
           (case lf_Detector f of
              None \<Rightarrow> t
            | Some d \<Rightarrow> earlier t (FirstNonRewritableTransitionFor d key)))"

definition FreezeAge :: "lifecycleFreeze option \<Rightarrow> string \<Rightarrow> int \<times> bool" where
  "FreezeAge f key =
     (case f of None \<Rightarrow> (0, False) | Some f \<Rightarrow> (let l = limits f key in (fl_freezeAge l, fl_hasRule l)))"

section \<open>One scan's view of the freeze\<close>

record freezeView =
  fv_f :: lifecycleFreeze
  fv_global :: freezeLimits
  fv_perTenant :: bool
  fv_cache :: "(string, freezeLimits) gomap"
  fv_classes :: "string list"

definition freezeViewOf :: "lifecycleFreeze option \<Rightarrow> freezeView option" where
  "freezeViewOf f =
     (case f of
        None \<Rightarrow> None
      | Some f \<Rightarrow>
          let g = FirstNonRewritableTransition (lf_ExtraRules f)
          in (case lf_Detector f of
                None \<Rightarrow>
                  Some \<lparr>fv_f = f, fv_global = limitsFromTransition f g, fv_perTenant = False, fv_cache = [], fv_classes = []\<rparr>
              | Some d \<Rightarrow>
                  Some \<lparr>fv_f = f, fv_global = limitsFromTransition f (earlier g (FirstGlobalNonRewritableTransition d)),
                        fv_perTenant = HasTenantRules d, fv_cache = [], fv_classes = CachedNonRewritableKeys d\<rparr>))"

definition noLimits :: freezeLimits where
  "noLimits = \<lparr>fl_hasRule = False, fl_freezeAge = 0, fl_sizeMaxAge = 0\<rparr>"

definition limitsFor :: "string \<Rightarrow> freezeView option \<Rightarrow> freezeLimits \<times> freezeView option" where
  "limitsFor pre v =
     (case v of
        None \<Rightarrow> (noLimits, None)
      | Some w \<Rightarrow>
          if \<not> fv_perTenant w \<or> pre = [] then (fv_global w, v)
          else (case mget (fv_cache w) pre of
                  Some l \<Rightarrow> (l, v)
                | None \<Rightarrow>
                    let l = limits (fv_f w) pre
                    in (l, Some (w\<lparr>fv_cache := mput pre l (fv_cache w)\<rparr>))))"

definition viewClassFrozen :: "freezeView option \<Rightarrow> fileInfo \<Rightarrow> bool" where
  "viewClassFrozen v fi =
     (if classFrozen fi then True
      else case v of None \<Rightarrow> False | Some w \<Rightarrow> length (fv_classes w) > 0 \<and> fi_Key fi \<in> set (fv_classes w))"

definition frozen :: "lifecycleFreeze option \<Rightarrow> fileInfo \<Rightarrow> int \<Rightarrow> int \<Rightarrow> bool \<times> string" where
  "frozen f fi partitionTime now =
     (if classFrozen fi then (True, frozenStorageClass)
      else case f of
        None \<Rightarrow> (False, [])
      | Some f \<Rightarrow>
          if (case lf_Detector f of
                None \<Rightarrow> False
              | Some d \<Rightarrow> (case GetCached d (fi_Key fi) of None \<Rightarrow> False | Some class \<Rightarrow> \<not> CanRewrite class))
          then (True, frozenStorageClass)
          else if frozenAt (limits f (fi_Key fi)) (timeSub now partitionTime) then (True, frozenAge)
          else (False, []))"

section \<open>The first transition\<close>

lemma firstTransition_fold:
  "fold firstTransitionStep rules acc = earlier acc (fold firstTransitionStep rules None)"
proof (induction rules arbitrary: acc)
  case (Cons r rules)
  have "fold firstTransitionStep (r # rules) acc = earlier (firstTransitionStep r acc) (fold firstTransitionStep rules None)"
    by (simp only: fold_simps) (rule Cons.IH)
  also have "\<dots> = earlier acc (earlier (firstTransitionStep r None) (fold firstTransitionStep rules None))"
    by (auto simp: firstTransitionStep_def earlier_def split: option.splits)
  also have "\<dots> = earlier acc (fold firstTransitionStep (r # rules) None)"
    by (simp only: fold_simps) (simp only: Cons.IH [of "firstTransitionStep r None"])
  finally show ?case .
qed (simp add: earlier_def)

lemma first_append:
  "FirstNonRewritableTransition (rs @ rs') = earlier (FirstNonRewritableTransition rs) (FirstNonRewritableTransition rs')"
  unfolding FirstNonRewritableTransition_def fold_append o_apply by (rule firstTransition_fold)

lemma first_Cons:
  "FirstNonRewritableTransition (r # rs) =
     earlier (if CanRewrite (lr_Class r) then None else Some (lr_TransitionDays r)) (FirstNonRewritableTransition rs)"
  using first_append [of "[r]" rs] by (simp add: FirstNonRewritableTransition_def firstTransitionStep_def)

lemma first_Nil [simp]: "FirstNonRewritableTransition [] = None"
  by (simp add: FirstNonRewritableTransition_def)

definition transitionDays :: "lifecycleRule list \<Rightarrow> int set" where
  "transitionDays rules = lr_TransitionDays ` {r \<in> set rules. \<not> CanRewrite (lr_Class r)}"

lemma first_Min:
  "FirstNonRewritableTransition rules = (if transitionDays rules = {} then None else Some (Min (transitionDays rules)))"
proof (induction rules)
  case (Cons r rules)
  have "transitionDays (r # rules) =
      (if CanRewrite (lr_Class r) then transitionDays rules else insert (lr_TransitionDays r) (transitionDays rules))"
    by (auto simp: transitionDays_def)
  moreover have "finite (transitionDays rules)" by (simp add: transitionDays_def)
  ultimately show ?case using Cons by (auto simp: first_Cons earlier_def min_def simp del: Min_ge_iff Min_gr_iff)
qed (simp add: transitionDays_def)

lemma first_None: "FirstNonRewritableTransition rules = None \<longleftrightarrow> (\<forall>r \<in> set rules. CanRewrite (lr_Class r))"
  by (auto simp: first_Min transitionDays_def)

lemma first_Some:
  assumes "FirstNonRewritableTransition rules = Some d"
  shows "\<exists>r \<in> set rules. \<not> CanRewrite (lr_Class r) \<and> lr_TransitionDays r = d"
    "\<forall>r \<in> set rules. \<not> CanRewrite (lr_Class r) \<longrightarrow> d \<le> lr_TransitionDays r"
proof -
  have D: "transitionDays rules \<noteq> {}" "d = Min (transitionDays rules)" "finite (transitionDays rules)"
    using assms by (auto simp: first_Min transitionDays_def split: if_splits)
  show "\<exists>r \<in> set rules. \<not> CanRewrite (lr_Class r) \<and> lr_TransitionDays r = d"
    using Min_in [OF D(3,1)] unfolding D(2) by (auto simp: transitionDays_def)
  show "\<forall>r \<in> set rules. \<not> CanRewrite (lr_Class r) \<longrightarrow> d \<le> lr_TransitionDays r"
    using D by (auto simp: transitionDays_def)
qed

text \<open>The rules that apply to a key: the extra ones and its tenant's, or the global ones.\<close>

definition effectiveRules :: "lifecycleFreeze \<Rightarrow> string \<Rightarrow> lifecycleRule list" where
  "effectiveRules f key =
     lf_ExtraRules f @ (case lf_Detector f of None \<Rightarrow> [] | Some d \<Rightarrow> rulesForKey d key)"

lemma limits_eq: "limits f key = limitsFromTransition f (FirstNonRewritableTransition (effectiveRules f key))"
  by (cases "lf_Detector f")
    (simp_all add: limits_def effectiveRules_def Let_def first_append FirstNonRewritableTransitionFor_def)

section \<open>When the freeze begins\<close>

definition marginOf :: "lifecycleFreeze \<Rightarrow> int" where
  "marginOf f = (if lf_Margin f \<le> 0 then defaultFreezeMargin else lf_Margin f)"

definition dayNs :: int where "dayNs = 24 * hour"

lemma freezeAge_eq:
  assumes "0 \<le> days" "days \<le> 106751"
  shows "limitsFromTransition f (Some days) =
    \<lparr>fl_hasRule = True, fl_freezeAge = days * dayNs - min (marginOf f) (days * dayNs div 2), fl_sizeMaxAge = 0\<rparr>"
proof -
  let ?t = "days * dayNs"
  have t: "0 \<le> ?t" "?t < 2 ^ 63" using assms by (simp_all add: dayNs_def hour_def minute_def second_def)
  have m: "0 < marginOf f" by (simp add: marginOf_def defaultFreezeMargin_def hour_def minute_def second_def)
  have i: "to_int64 (days * 24 * hour) = ?t" using to_int64_id [of ?t] t by (simp add: dayNs_def mult.assoc)
  have h: "half ?t = ?t div 2" using t by (simp add: half_def)
  have "to_int64 (?t - min (marginOf f) (?t div 2)) = ?t - min (marginOf f) (?t div 2)"
    using t m by (intro to_int64_id) linarith+
  then show ?thesis unfolding limitsFromTransition_def Let_def option.case i h marginOf_def [symmetric]
    by (cases "marginOf f \<le> ?t div 2") (simp_all add: min_def)
qed

text \<open>The transition days a detector can be given: they fit a duration.\<close>

abbreviation days_ok :: "lifecycleRule list \<Rightarrow> bool" where
  "days_ok rules \<equiv> \<forall>r \<in> set rules. 0 \<le> lr_TransitionDays r \<and> lr_TransitionDays r \<le> 106751"

lemma freezeAge_first:
  assumes "days_ok (effectiveRules f key)" "r \<in> set (effectiveRules f key)" "\<not> CanRewrite (lr_Class r)"
  obtains d where "0 \<le> d" "d \<le> lr_TransitionDays r" "d \<le> 106751"
    "FirstNonRewritableTransition (effectiveRules f key) = Some d"
    "limits f key = \<lparr>fl_hasRule = True, fl_freezeAge = d * dayNs - min (marginOf f) (d * dayNs div 2), fl_sizeMaxAge = 0\<rparr>"
proof -
  obtain d where d: "FirstNonRewritableTransition (effectiveRules f key) = Some d"
    using assms(2,3) first_None [of "effectiveRules f key"] by (cases "FirstNonRewritableTransition (effectiveRules f key)") auto
  then have "d \<le> lr_TransitionDays r" "0 \<le> d" "d \<le> 106751" using assms first_Some [OF d] by auto
  then show ?thesis using d by (intro that [of d]) (simp_all add: limits_eq freezeAge_eq)
qed

lemma freezeAge_mono:
  fixes a b m :: int
  assumes "a \<le> b"
  shows "a - min m (a div 2) \<le> b - min m (b div 2)"
  using assms by (simp add: min_def) linarith

lemma dayNs_pos: "0 < dayNs"
  by (simp add: dayNs_def hour_def minute_def second_def)

lemma timeSub_ge: "x \<le> a - b \<Longrightarrow> x \<le> max_int64 \<Longrightarrow> x \<le> timeSub a b"
  by (auto simp: timeSub_def)

text \<open>An object is frozen before any of its rules can move it: by \<open>marginOf\<close>, or by half the transition when
  that is shorter.\<close>

lemma frozen_before_transition:
  assumes "days_ok (effectiveRules f (fi_Key fi))" "r \<in> set (effectiveRules f (fi_Key fi))" "\<not> CanRewrite (lr_Class r)"
    and "partitionTime \<le> created"
    and "created + lr_TransitionDays r * dayNs - min (marginOf f) (lr_TransitionDays r * dayNs div 2) \<le> now"
  shows "fst (frozen (Some f) fi partitionTime now)"
proof -
  obtain d where d: "0 \<le> d" "d \<le> lr_TransitionDays r" "d \<le> 106751"
    "limits f (fi_Key fi) = \<lparr>fl_hasRule = True, fl_freezeAge = d * dayNs - min (marginOf f) (d * dayNs div 2), fl_sizeMaxAge = 0\<rparr>"
    by (rule freezeAge_first [OF assms(1-3)])
  have "d * dayNs \<le> lr_TransitionDays r * dayNs" using d(2) dayNs_pos by simp
  from freezeAge_mono [OF this, of "marginOf f"]
  have "d * dayNs - min (marginOf f) (d * dayNs div 2) \<le> now - partitionTime" using assms(4,5) by linarith
  moreover have "d * dayNs - min (marginOf f) (d * dayNs div 2) \<le> max_int64"
    using d(1,3) by (auto simp: dayNs_def hour_def minute_def second_def max_int64_def marginOf_def defaultFreezeMargin_def min_def)
  ultimately have "frozenAt (limits f (fi_Key fi)) (timeSub now partitionTime)"
    using timeSub_ge by (simp add: frozenAt_def d(4))
  then show ?thesis by (simp add: frozen_def)
qed

text \<open>Nothing is frozen by age before half of the first transition has passed.\<close>

lemma frozen_not_early:
  assumes "days_ok (effectiveRules f (fi_Key fi))" "frozen (Some f) fi partitionTime now = (True, frozenAge)"
  obtains d where "FirstNonRewritableTransition (effectiveRules f (fi_Key fi)) = Some d"
    "d * dayNs - d * dayNs div 2 \<le> timeSub now partitionTime"
proof -
  have fa: "frozenAt (limits f (fi_Key fi)) (timeSub now partitionTime)"
    using assms(2) by (auto simp: frozen_def frozenStorageClass_def frozenAge_def split: if_splits)
  then obtain d where d: "FirstNonRewritableTransition (effectiveRules f (fi_Key fi)) = Some d"
    by (cases "FirstNonRewritableTransition (effectiveRules f (fi_Key fi))")
      (auto simp: limits_eq limitsFromTransition_def frozenAt_def)
  then have "0 \<le> d" "d \<le> 106751" using assms(1) first_Some [OF d] by auto
  then show ?thesis using fa d by (intro that [of d]) (auto simp: limits_eq frozenAt_def freezeAge_eq)
qed

section \<open>The view of a scan\<close>

text \<open>The cache of a view holds only what \<open>limits\<close> answers, so it changes no answer.\<close>

definition view_ok :: "freezeView option \<Rightarrow> bool" where
  "view_ok v = (case v of None \<Rightarrow> True
     | Some w \<Rightarrow> \<forall>pre l. mget (fv_cache w) pre = Some l \<longrightarrow> l = limits (fv_f w) pre)"

definition sameView :: "freezeView option \<Rightarrow> freezeView option \<Rightarrow> bool" where
  "sameView v v' = (case (v, v') of
      (None, None) \<Rightarrow> True
    | (Some w, Some w') \<Rightarrow> fv_f w' = fv_f w \<and> fv_global w' = fv_global w \<and> fv_perTenant w' = fv_perTenant w
        \<and> fv_classes w' = fv_classes w
    | _ \<Rightarrow> False)"

definition groupLimits :: "freezeView option \<Rightarrow> string \<Rightarrow> freezeLimits" where
  "groupLimits v pre =
     (case v of None \<Rightarrow> noLimits
      | Some w \<Rightarrow> if \<not> fv_perTenant w \<or> pre = [] then fv_global w else limits (fv_f w) pre)"

lemma view_ok_initial: "view_ok (freezeViewOf f)"
  by (auto simp: view_ok_def freezeViewOf_def Let_def split: option.splits)

lemma limitsFor_ok:
  assumes "view_ok v"
  shows "fst (limitsFor pre v) = groupLimits v pre" "view_ok (snd (limitsFor pre v))" "sameView v (snd (limitsFor pre v))"
  using assms
  by (auto simp: limitsFor_def groupLimits_def view_ok_def sameView_def Let_def go_map simp del: map_of_eq_Some_iff
      split: option.splits if_splits)

lemma sameView_eq:
  assumes "sameView v v'"
  shows "groupLimits v' pre = groupLimits v pre" "viewClassFrozen v' fi = viewClassFrozen v fi"
  using assms by (auto simp: sameView_def groupLimits_def viewClassFrozen_def split: option.splits)

lemma sameView_trans: "sameView u v \<Longrightarrow> sameView v w \<Longrightarrow> sameView u w"
  by (auto simp: sameView_def split: option.splits)

lemma sameView_refl [simp]: "sameView v v"
  by (simp add: sameView_def split: option.split)

end
