(* ===== verification/Planner.thy ===== *)
theory Planner
  imports Freeze
begin

text \<open>
  The compaction planner: \<open>src/internal/compaction/planner.go\<close>, \<open>policy.go\<close>, \<open>recompactionLevel\<close> of
  \<open>scheduler.go\<close> and the grouping of \<open>src/internal/manifest/compaction_candidates.go\<close>.

  \<open>planClock\<close> is the argument \<open>now\<close>; the fence log is the list of its keys, as it is when the planner is
  made. The callback \<open>seen\<close> is the list of its calls, which \<open>partition\<close> returns with the plans. A
  \<open>range\<close> over a map is a fold over its association list. Byte totals are unbounded integers.
  \<open>sortPlans\<close> takes \<open>debt\<close> as a parameter, since the code computes it in floating point.
\<close>

section \<open>Tenant groups\<close>

definition isUint32 :: "string \<Rightarrow> bool" where
  "isUint32 s =
     (if s = [] \<or> length s > 10 then False
      else list_all digit s \<and> fold (\<lambda>c n. n * 10 + (of_char c - 48)) s (0 :: 64 word) \<le> 2 ^ 32 - 1)"

definition CompactionGroupPrefix :: "string \<Rightarrow> string" where
  "CompactionGroupPrefix key =
     (case cutSlash key of
        None \<Rightarrow> []
      | Some (a, r1) \<Rightarrow>
          if a = [] then []
          else case cutSlash r1 of
            None \<Rightarrow> []
          | Some (p, r2) \<Rightarrow>
              if p = [] then []
              else case cutSlash r2 of
                None \<Rightarrow> []
              | Some (m, r3) \<Rightarrow>
                  if m = [] \<or> r3 = [] then []
                  else if \<not> isUint32 a \<or> \<not> isUint32 p then []
                  else a @ ''/'' @ p @ ''/'' @ m @ ''/'')"

definition MatureObjectBytes :: int where "MatureObjectBytes = 2 ^ 25"

type_synonym groupKey = "string \<times> string"

definition groupOf :: "fileInfo \<Rightarrow> groupKey" where
  "groupOf f = (CompactionGroupPrefix (fi_Key f), fi_Bucket f)"

record fragGroup =
  fg_top :: int
  fg_count :: int
  fg_bytes :: int

definition fragStep :: "fileInfo \<Rightarrow> (groupKey, fragGroup) gomap \<Rightarrow> (groupKey, fragGroup) gomap" where
  "fragStep f groups =
     (if fi_Size f \<ge> MatureObjectBytes then groups
      else let g = (case mget groups (groupOf f) of None \<Rightarrow> \<lparr>fg_top = -1, fg_count = 0, fg_bytes = 0\<rparr> | Some g \<Rightarrow> g);
               g' = (if fi_CompactionLevel f > fg_top g
                     then \<lparr>fg_top = fi_CompactionLevel f, fg_count = 1, fg_bytes = fi_Size f\<rparr>
                     else if fi_CompactionLevel f = fg_top g
                     then g\<lparr>fg_count := fg_count g + 1, fg_bytes := fg_bytes g + fi_Size f\<rparr> else g)
           in mput (groupOf f) g' groups)"

definition fragmentedGroups :: "fileInfo list \<Rightarrow> bool \<times> int" where
  "fragmentedGroups files =
     fold (\<lambda>(k, g) (fragmented, bytes).
         if fg_top g \<ge> 2 \<and> fg_count g \<ge> 2 then (True, bytes + fg_bytes g) else (fragmented, bytes))
       (fold fragStep files []) (False, 0)"

section \<open>The level policy\<close>

record levelPolicy =
  lp_MinFilesL0 :: int
  lp_MinFilesL1 :: int
  lp_MinAge :: int
  lp_DailyRollupAge :: int

definition NewLevelPolicy :: "int \<Rightarrow> int \<Rightarrow> int \<Rightarrow> levelPolicy" where
  "NewLevelPolicy minFilesL0 minFilesL1 minAge =
     \<lparr>lp_MinFilesL0 = minFilesL0, lp_MinFilesL1 = minFilesL1, lp_MinAge = minAge, lp_DailyRollupAge = 0\<rparr>"

definition rollupAge :: "levelPolicy \<Rightarrow> int" where
  "rollupAge p =
     (if lp_DailyRollupAge p > 0 \<and> lp_DailyRollupAge p < hour then hour else lp_DailyRollupAge p)"

definition countAtLevel :: "fileInfo list \<Rightarrow> int \<Rightarrow> int" where
  "countAtLevel files level = fold (\<lambda>f n. if fi_CompactionLevel f = level then n + 1 else n) files 0"

definition Eligible :: "levelPolicy \<Rightarrow> fileInfo list \<Rightarrow> int \<Rightarrow> int \<Rightarrow> int \<times> bool" where
  "Eligible p files partitionTime now =
     (let age = timeSub now partitionTime
      in if age < lp_MinAge p then (0, False)
         else if countAtLevel files 0 \<ge> lp_MinFilesL0 p then (0, True)
         else if countAtLevel files 1 \<ge> lp_MinFilesL1 p then (1, True)
         else if rollupAge p > 0 \<and> age \<ge> rollupAge p \<and> countAtLevel files 1 \<ge> 2 then (1, True)
         else (0, False))"

definition SelectFiles :: "fileInfo list \<Rightarrow> int \<Rightarrow> string \<Rightarrow> fileInfo list" where
  "SelectFiles files level schemaFP =
     filter (\<lambda>f. fi_CompactionLevel f = level \<and> fi_SchemaFingerprint f = schemaFP) files"

text \<open>The majority schema. \<open>pickBest\<close> is the loop over the counts, in whatever order the map yields them.\<close>

definition fpCounts :: "(fileInfo \<Rightarrow> bool) \<Rightarrow> fileInfo list \<Rightarrow> (string, nat) gomap" where
  "fpCounts keep files =
     fold (\<lambda>f counts.
         if keep f
         then mput (fi_SchemaFingerprint f)
                (Suc (case mget counts (fi_SchemaFingerprint f) of None \<Rightarrow> 0 | Some n \<Rightarrow> n)) counts
         else counts) files []"

definition pickBest :: "string \<Rightarrow> (string \<times> nat) \<Rightarrow> (string \<times> nat) \<Rightarrow> string \<times> nat" where
  "pickBest currentFP fc b =
     (case (fc, b) of ((fp, c), (best, bestCount)) \<Rightarrow>
        if c > bestCount then (fp, c)
        else if c = bestCount \<and> best \<noteq> currentFP \<and> (fp = currentFP \<or> fp < best) then (fp, bestCount)
        else b)"

definition majorityFingerprint :: "fileInfo list \<Rightarrow> string \<Rightarrow> (fileInfo \<Rightarrow> bool) \<Rightarrow> string" where
  "majorityFingerprint files currentFP keep = fst (fold (pickBest currentFP) (fpCounts keep files) ([], 0))"

definition MajoritySchemaFingerprint :: "fileInfo list \<Rightarrow> int \<Rightarrow> string" where
  "MajoritySchemaFingerprint files level = majorityFingerprint files [] (\<lambda>f. fi_CompactionLevel f = level)"

definition recompactionLevel :: "fileInfo list \<Rightarrow> string \<Rightarrow> int option" where
  "recompactionLevel files currentFP =
     (let maxLevel = fold (\<lambda>f m. if fi_CompactionLevel f > m then fi_CompactionLevel f else m) files 0;
          stale = list_ex (\<lambda>f. currentFP \<noteq> [] \<and> fi_SchemaFingerprint f \<noteq> currentFP) files
      in if stale then Some maxLevel
         else if maxLevel \<ge> 2 \<and> countAtLevel files maxLevel \<ge> 2 then Some maxLevel
         else None)"

section \<open>Planning one group\<close>

datatype reason = reasonL0Count | reasonL1Count | reasonRollup | reasonStale | reasonFragmented

definition nonMature :: "fileInfo list \<Rightarrow> fileInfo list" where
  "nonMature files = filter (\<lambda>f. fi_Size f < MatureObjectBytes) files"

text \<open>A plan is the source level, the files and the reason; \<open>None\<close> is \<open>ok = false\<close>.\<close>

definition planHint :: "fileInfo list \<Rightarrow> string \<Rightarrow> bool \<Rightarrow> (int \<times> fileInfo list \<times> reason) option" where
  "planHint files currentFP fragmentOK =
     (case recompactionLevel files currentFP of
        None \<Rightarrow> None
      | Some lvl \<Rightarrow>
          let sel = SelectFiles files lvl (MajoritySchemaFingerprint files lvl);
              stale = list_ex (\<lambda>f. currentFP \<noteq> [] \<and> fi_SchemaFingerprint f \<noteq> currentFP) sel
          in if stale then (if length sel \<ge> 2 then Some (lvl, sel, reasonStale) else None)
             else if \<not> fragmentOK then None
             else let small = nonMature sel
                  in if length small \<ge> 2 then Some (lvl, small, reasonFragmented) else None)"

definition rollupFiles :: "fileInfo list \<Rightarrow> string \<Rightarrow> fileInfo list" where
  "rollupFiles files currentFP =
     (let small = nonMature files; fp = majorityFingerprint small currentFP (\<lambda>f. True)
      in filter (\<lambda>f. fi_SchemaFingerprint f = fp) small)"

definition topLevel :: "fileInfo list \<Rightarrow> int" where
  "topLevel sel = fold (\<lambda>f top. if fi_CompactionLevel f > top then fi_CompactionLevel f else top) sel 0"

definition planGroup :: "levelPolicy \<Rightarrow> fileInfo list \<Rightarrow> int \<Rightarrow> int \<Rightarrow> string \<Rightarrow> bool \<Rightarrow> (int \<times> fileInfo list \<times> reason) option" where
  "planGroup p files pt now currentFP sizeOK =
     (let age = timeSub now pt;
          sel0 = SelectFiles files 0 (MajoritySchemaFingerprint files 0);
          sel1 = SelectFiles files 1 (MajoritySchemaFingerprint files 1);
          selR = rollupFiles files currentFP
      in if length files < 2 then None
         else if age < lp_MinAge p then None
         else if \<not> sizeOK then planHint files currentFP False
         else if countAtLevel files 0 \<ge> lp_MinFilesL0 p \<and> length sel0 \<ge> 2 then Some (0, sel0, reasonL0Count)
         else if countAtLevel files 1 \<ge> lp_MinFilesL1 p \<and> length sel1 \<ge> 2 then Some (1, sel1, reasonL1Count)
         else if rollupAge p > 0 \<and> age \<ge> rollupAge p \<and> length selR \<ge> 2 then Some (topLevel selR, selR, reasonRollup)
         else planHint files currentFP True)"

section \<open>Planning a partition\<close>

record mergePlan =
  mp_partition :: string
  mp_group :: string
  mp_tenant :: string
  mp_level :: int
  mp_files :: "fileInfo list"
  mp_reason :: reason
  mp_time :: int
  mp_bytes :: int

definition openPlan :: "mergePlan \<Rightarrow> bool" where
  "openPlan p \<longleftrightarrow> mp_reason p = reasonL0Count \<or> mp_reason p = reasonL1Count"

definition fenceKey :: "fileInfo \<Rightarrow> string" where
  "fenceKey f = fi_Bucket f @ [CHR 0x00] @ fi_Key f"

record planner =
  pl_policy :: levelPolicy
  pl_currentFP :: string
  pl_now :: int
  pl_held :: "string list"
  pl_fenceLog :: "string list"
  pl_freeze :: "freezeView option"

definition newPlanner ::
    "levelPolicy \<Rightarrow> string \<Rightarrow> int \<Rightarrow> string list \<Rightarrow> string list \<Rightarrow> lifecycleFreeze option \<Rightarrow> planner" where
  "newPlanner policy currentFP now held fenceLog freeze =
     \<lparr>pl_policy = policy, pl_currentFP = currentFP, pl_now = now, pl_held = held, pl_fenceLog = fenceLog,
      pl_freeze = freezeViewOf freeze\<rparr>"

definition heldOrFenced :: "planner \<Rightarrow> fileInfo \<Rightarrow> bool" where
  "heldOrFenced pl f \<longleftrightarrow> fi_Key f \<in> set (pl_held pl) \<or> fenceKey f \<in> set (pl_fenceLog pl)"

definition skip :: "planner \<Rightarrow> fileInfo \<Rightarrow> bool" where
  "skip pl f \<longleftrightarrow> heldOrFenced pl f \<or> viewClassFrozen (pl_freeze pl) f"

definition saw :: "string \<Rightarrow> int \<Rightarrow> (string \<times> int) list" where
  "saw reason n = (if n > 0 then [(reason, n)] else [])"

definition fairShareTenant :: "string \<Rightarrow> string" where
  "fairShareTenant pre =
     (if pre = [] then ''default''
      else case cutSlash pre of
        None \<Rightarrow> pre
      | Some (a, rest) \<Rightarrow> (case cutSlash rest of None \<Rightarrow> pre | Some (p, _) \<Rightarrow> a @ ''/'' @ p))"

text \<open>The first pass: how many files each group has, and how many a storage class keeps out.\<close>

definition countStep :: "planner \<Rightarrow> fileInfo \<Rightarrow> (groupKey, int) gomap \<times> int \<Rightarrow> (groupKey, int) gomap \<times> int" where
  "countStep pl f st =
     (case st of (counts, classFrozenN) \<Rightarrow>
        if heldOrFenced pl f then st
        else if viewClassFrozen (pl_freeze pl) f then (counts, classFrozenN + 1)
        else (mput (groupOf f) ((case mget counts (groupOf f) of None \<Rightarrow> 0 | Some n \<Rightarrow> n) + 1) counts, classFrozenN))"

text \<open>The decision per group: the groups that may plan a merge, with whether size merges are allowed.\<close>

definition decideGroup ::
    "int \<Rightarrow> groupKey \<times> int \<Rightarrow> freezeView option \<times> (groupKey, bool) gomap \<times> (string \<times> int) list
     \<Rightarrow> freezeView option \<times> (groupKey, bool) gomap \<times> (string \<times> int) list" where
  "decideGroup age c st =
     (case (c, st) of ((gk, n), (v, sizeOK, saws)) \<Rightarrow>
        (case limitsFor (fst gk) v of
           (lim, v') \<Rightarrow>
             if frozenAt lim age then (v', sizeOK, saws @ saw frozenAge n)
             else if n < 2 then (v', sizeOK, saws)
             else let ok = sizeMergesAt lim age
                  in (v', mput gk ok sizeOK, saws @ (if ok then [] else saw frozenSizeAge n))))"

text \<open>The second pass: the files of the groups that may plan a merge.\<close>

definition memberStep :: "planner \<Rightarrow> fileInfo \<Rightarrow> (groupKey, fileInfo list) gomap \<Rightarrow> (groupKey, fileInfo list) gomap" where
  "memberStep pl f members =
     (if skip pl f then members
      else case mget members (groupOf f) of
        None \<Rightarrow> members
      | Some fs \<Rightarrow> mput (groupOf f) (fs @ [f]) members)"

definition planOf :: "planner \<Rightarrow> string \<Rightarrow> int \<Rightarrow> (groupKey, bool) gomap \<Rightarrow> groupKey \<times> fileInfo list \<Rightarrow> mergePlan list" where
  "planOf pl part pt sizeOK g =
     (case g of (gk, grp) \<Rightarrow>
        (case planGroup (pl_policy pl) grp pt (pl_now pl) (pl_currentFP pl) (mget sizeOK gk = Some True) of
           None \<Rightarrow> []
         | Some (level, selected, rsn) \<Rightarrow>
             [\<lparr>mp_partition = part, mp_group = fst gk @ ''|'' @ snd gk, mp_tenant = fairShareTenant (fst gk),
               mp_level = level, mp_files = selected, mp_reason = rsn, mp_time = pt,
               mp_bytes = sum_list (map fi_Size selected)\<rparr>]))"

definition planMembers :: "planner \<Rightarrow> (groupKey, bool) gomap \<Rightarrow> fileInfo list \<Rightarrow> (groupKey, fileInfo list) gomap" where
  "planMembers pl sizeOK files = fold (memberStep pl) files (map (\<lambda>(gk, ok). (gk, [])) sizeOK)"

definition planPart :: "planner \<Rightarrow> string \<Rightarrow> fileInfo list \<Rightarrow> int \<Rightarrow> mergePlan list \<times> (string \<times> int) list \<times> planner" where
  "planPart pl part files pt =
     (let age = timeSub (pl_now pl) pt
      in case fold (countStep pl) files ([], 0) of
           (counts, classFrozenN) \<Rightarrow>
             (case fold (decideGroup age) counts (pl_freeze pl, [], saw frozenStorageClass classFrozenN) of
                (v, sizeOK, saws) \<Rightarrow>
                  let pl' = pl\<lparr>pl_freeze := v\<rparr>
                  in if sizeOK = [] then ([], saws, pl')
                     else (concat (map (planOf pl' part pt sizeOK) (planMembers pl' sizeOK files)), saws, pl')))"

definition planPartition ::
    "levelPolicy \<Rightarrow> string \<Rightarrow> fileInfo list \<Rightarrow> int \<Rightarrow> int \<Rightarrow> string \<Rightarrow> string list \<Rightarrow> lifecycleFreeze option \<Rightarrow> mergePlan list" where
  "planPartition p part files pt now currentFP fenceLog freeze =
     fst (planPart (newPlanner p currentFP now [] fenceLog freeze) part files pt)"

text \<open>Stable sorting by \<open>sort.SliceStable\<close>.\<close>

definition planLess :: "(mergePlan \<Rightarrow> 'd :: linorder) \<Rightarrow> mergePlan \<Rightarrow> mergePlan \<Rightarrow> bool" where
  "planLess debt a b =
     (if openPlan a \<noteq> openPlan b then openPlan a
      else if debt a \<noteq> debt b then debt a > debt b
      else if mp_time a \<noteq> mp_time b then mp_time a < mp_time b
      else if mp_partition a \<noteq> mp_partition b then mp_partition a < mp_partition b
      else if mp_group a \<noteq> mp_group b then mp_group a < mp_group b
      else mp_tenant a < mp_tenant b)"

definition sortPlans :: "(mergePlan \<Rightarrow> 'd :: linorder) \<Rightarrow> mergePlan list \<Rightarrow> mergePlan list" where
  "sortPlans debt plans = sort_slice (planLess debt) plans"

end
