(* ===== verification/Compactor.thy ===== *)
theory Compactor
  imports Planner ManifestRefresh TombKeys
begin

text \<open>
  The compactor: \<open>src/internal/compaction/compactor.go\<close>. It downloads the objects of one tenant group,
  merges their rows, claims an output key, uploads the merged object, publishes it in the manifest
  in place of its sources, and deletes the sources.

  The state is the manifest, the objects of the bucket by key, the fence log and the number of random ids drawn so far. \<open>'d\<close> is the type of an
  object's bytes and \<open>'r\<close> that of a row; the Parquet library (reading, writing, footer statistics),
  the forward fence, the derivation of severities, dedicated columns and label aggregates, the random ids
  and the failures of requests are the fields of \<open>cenv\<close>. An upload that reports an error may still have
  stored its object (\<open>ce_putLands\<close>); \<open>ce_now\<close> is the clock. Other goroutines act between the requests
  of a merge: \<open>ce_others\<close> is what they do to the state at each point of the program; the last four points are
  those of a scan and of the orphan sweep.

  Not modelled: metrics, log lines, the bloom rebuild and the bloom values of the result.
\<close>

section \<open>Output settings\<close>

text \<open>A schedule indexed by the output level, which saturates at its last entry: \<open>CompressionLevelForOutput\<close> and
  \<open>RowGroupSizeForOutput\<close> of \<open>src/internal/config/config.go\<close>.\<close>

definition slotForOutput :: "int list \<Rightarrow> int \<Rightarrow> int" where
  "slotForOutput slots outputLevel =
     (let l1 = (if outputLevel \<ge> int (length slots) then int (length slots) - 1 else outputLevel);
          l2 = (if l1 < 0 then 0 else l1)
      in slots ! nat l2)"

definition CompressionLevelForOutput :: "int list \<Rightarrow> int \<Rightarrow> int" where
  "CompressionLevelForOutput sched outputLevel = (if sched = [] then 0 else slotForOutput sched outputLevel)"

definition RowGroupSizeForOutput :: "int list \<Rightarrow> int \<Rightarrow> int" where
  "RowGroupSizeForOutput sched outputLevel = (if sched = [] then 0 else slotForOutput sched outputLevel)"

definition levelForOutput :: "int \<Rightarrow> int list \<Rightarrow> (string \<Rightarrow> int list) option \<Rightarrow> string \<Rightarrow> int \<Rightarrow> int" where
  "levelForOutput static sched tenantLookup tenantPrefix outputLevel =
     (let scheduled = CompressionLevelForOutput sched outputLevel;
          lvl = (if scheduled > 0 then scheduled else static)
      in case tenantLookup of
           None \<Rightarrow> lvl
         | Some look \<Rightarrow>
             (let perTenant = look tenantPrefix
              in if perTenant = [] then lvl
                 else if slotForOutput perTenant outputLevel > 0 then slotForOutput perTenant outputLevel
                 else lvl))"

section \<open>State and environment\<close>

record 'd cworld =
  cw_man :: manifest
  cw_objs :: "(string, 'd) gomap"
  cw_fence :: "string list"
  cw_draws :: nat

datatype mode = ModeLogs | ModeTraces | ModeOther string

datatype cpoint =
    AtDownload nat | AtClaim nat | AtUpload | AtPublish | AtAbandon | AtConfirm | AtDelete nat
  | AtReclaim nat | AtPlan nat | AtMerge nat | AtSweep nat nat

record ('d, 'r) cenv =
  ce_mode :: mode
  ce_prefix :: string
  ce_now :: "'d cworld \<Rightarrow> int"
  ce_ids :: "nat \<Rightarrow> string"
  ce_others :: "cpoint \<Rightarrow> 'd cworld \<Rightarrow> 'd cworld"
  ce_getFails :: "string \<Rightarrow> bool"
  ce_putFails :: "string \<Rightarrow> bool"
  ce_putLands :: "string \<Rightarrow> bool"
  ce_delFails :: "string \<Rightarrow> bool"
  ce_unknown :: "'d \<Rightarrow> bool"
  ce_rows :: "'d \<Rightarrow> 'r list option"
  ce_write :: "'r list \<Rightarrow> int \<Rightarrow> int \<Rightarrow> bool \<Rightarrow> 'd option"
  ce_traceShaped :: "'r \<Rightarrow> bool"
  ce_severityText :: "'r \<Rightarrow> string"
  ce_derivedSeverity :: "'r \<Rightarrow> string"
  ce_setSeverityText :: "string \<Rightarrow> 'r \<Rightarrow> 'r"
  ce_repromoteLog :: "'r \<Rightarrow> 'r"
  ce_healTrace :: "('r \<Rightarrow> 'r) option"
  ce_time :: "'r \<Rightarrow> int"
  ce_service :: "'r \<Rightarrow> string"
  ce_traceID :: "'r \<Rightarrow> string"
  ce_aggregates :: "'r list \<Rightarrow> (string, (string, int) gomap) gomap"
  ce_traceIDHex :: "'d list \<Rightarrow> 'r list \<Rightarrow> bool"
  ce_len :: "'d \<Rightarrow> int"
  ce_bloomBytes :: "'d \<Rightarrow> int"
  ce_columnBytes :: "'d \<Rightarrow> (string, int) gomap"
  ce_staticLevel :: int
  ce_levelSchedule :: "int list"
  ce_tenantLookup :: "(string \<Rightarrow> int list) option"
  ce_staticRowGroup :: int
  ce_rowGroupSchedule :: "int list"

datatype cerror =
    ENoFiles | EFingerprint string string | EDuplicate string | EDownload string | ENotFound string
  | EReadRows | EWrite | EMode string | ENoFreeKey | EUpload | EKeyTaken string | EAbandoned

section \<open>Grouping\<close>

record tenantFileGroup =
  tg_TenantPrefix :: string
  tg_Bucket :: string
  tg_Files :: "fileInfo list"

definition groupLess :: "groupKey \<Rightarrow> groupKey \<Rightarrow> bool" where
  "groupLess a b = (if fst a \<noteq> fst b then fst a < fst b else snd a < snd b)"

definition groupStep :: "fileInfo \<Rightarrow> (groupKey, fileInfo list) gomap \<Rightarrow> (groupKey, fileInfo list) gomap" where
  "groupStep f groups =
     mput (groupOf f) ((case mget groups (groupOf f) of None \<Rightarrow> [] | Some fs \<Rightarrow> fs) @ [f]) groups"

definition groupFilesByTenant :: "fileInfo list \<Rightarrow> tenantFileGroup list" where
  "groupFilesByTenant files =
     (let byKey = fold groupStep files []
      in map (\<lambda>k. \<lparr>tg_TenantPrefix = fst k, tg_Bucket = snd k,
                   tg_Files = (case mget byKey k of None \<Rightarrow> [] | Some fs \<Rightarrow> fs)\<rparr>)
           (sort_slice groupLess (mkeys byKey)))"

fun firstDuplicateKey :: "string list \<Rightarrow> fileInfo list \<Rightarrow> string" where
  "firstDuplicateKey seen [] = []"
| "firstDuplicateKey seen (f # fs) =
     (if fi_Key f \<in> set seen then fi_Key f else firstDuplicateKey (fi_Key f # seen) fs)"

definition labelStep :: "string \<times> string list \<Rightarrow> (string, string list) gomap \<Rightarrow> (string, string list) gomap" where
  "labelStep fv merged =
     (case fv of (fld, values) \<Rightarrow>
        mput fld (fold List.insert values (case mget merged fld of None \<Rightarrow> [] | Some s \<Rightarrow> s)) merged)"

definition mergeFileLabels :: "fileInfo list \<Rightarrow> (string, string list) gomap" where
  "mergeFileLabels files = fold (\<lambda>f. fold labelStep (fi_Labels f)) files []"

section \<open>Merging rows\<close>

definition logLess :: "('d, 'r) cenv \<Rightarrow> 'r \<Rightarrow> 'r \<Rightarrow> bool" where
  "logLess E a b =
     (if ce_time E a \<noteq> ce_time E b then ce_time E a < ce_time E b else ce_service E a < ce_service E b)"

definition traceLess :: "('d, 'r) cenv \<Rightarrow> 'r \<Rightarrow> 'r \<Rightarrow> bool" where
  "traceLess E a b =
     (if ce_time E a \<noteq> ce_time E b then ce_time E a < ce_time E b
      else if ce_service E a \<noteq> ce_service E b then ce_service E a < ce_service E b
      else ce_traceID E a < ce_traceID E b)"

fun readAll :: "('d, 'r) cenv \<Rightarrow> 'd list \<Rightarrow> 'r list option" where
  "readAll E [] = Some []"
| "readAll E (d # ds) =
     (case ce_rows E d of
        None \<Rightarrow> None
      | Some rows \<Rightarrow> (case readAll E ds of None \<Rightarrow> None | Some rest \<Rightarrow> Some (rows @ rest)))"

text \<open>The rows of a log file as they are rewritten: a missing severity text is derived from the severity number or the
  stream tags, then the dedicated columns are derived.\<close>

definition healLog :: "('d, 'r) cenv \<Rightarrow> 'r \<Rightarrow> 'r" where
  "healLog E r =
     ce_repromoteLog E
       (if ce_severityText E r \<noteq> [] then r
        else if ce_derivedSeverity E r \<noteq> [] then ce_setSeverityText E (ce_derivedSeverity E r) r else r)"

definition mergeLogFiles :: "('d, 'r) cenv \<Rightarrow> 'd list \<Rightarrow> 'r list option" where
  "mergeLogFiles E allData =
     map_option (\<lambda>merged. sort_slice (logLess E)
         (map (healLog E) (filter (\<lambda>r. \<not> ce_traceShaped E r) merged)))
       (readAll E allData)"

definition mergeTraceFiles :: "('d, 'r) cenv \<Rightarrow> 'd list \<Rightarrow> 'r list option" where
  "mergeTraceFiles E allData =
     map_option (\<lambda>merged. sort_slice (traceLess E)
         (case ce_healTrace E of None \<Rightarrow> merged | Some heal \<Rightarrow> map heal merged))
       (readAll E allData)"

definition timeBounds :: "('d, 'r) cenv \<Rightarrow> 'r list \<Rightarrow> int \<times> int" where
  "timeBounds E rows =
     (case rows of
        [] \<Rightarrow> (0, 0)
      | r # rs \<Rightarrow>
          fold (\<lambda>r (lo, hi). (if ce_time E r < lo then ce_time E r else lo, if ce_time E r > hi then ce_time E r else hi))
            rs (ce_time E r, ce_time E r))"

text \<open>The merged rows and the object written from them.\<close>

definition mergeData :: "('d, 'r) cenv \<Rightarrow> string \<Rightarrow> int \<Rightarrow> 'd list \<Rightarrow> cerror + ('r list \<times> bool \<times> 'd)" where
  "mergeData E tenantPrefix outputLevel allData =
     (let lvl = levelForOutput (ce_staticLevel E) (ce_levelSchedule E) (ce_tenantLookup E) tenantPrefix outputLevel;
          rg0 = RowGroupSizeForOutput (ce_rowGroupSchedule E) outputLevel;
          rg = (if rg0 > 0 then rg0 else ce_staticRowGroup E);
          write = (\<lambda>merged. let hex = ce_traceIDHex E allData merged
                    in case ce_write E merged rg lvl hex of None \<Rightarrow> Inl EWrite | Some d \<Rightarrow> Inr (merged, hex, d))
      in case ce_mode E of
           ModeLogs \<Rightarrow> (case mergeLogFiles E allData of None \<Rightarrow> Inl EReadRows | Some merged \<Rightarrow> write merged)
         | ModeTraces \<Rightarrow> (case mergeTraceFiles E allData of None \<Rightarrow> Inl EReadRows | Some merged \<Rightarrow> write merged)
         | ModeOther m \<Rightarrow> Inl (EMode m))"

section \<open>Compacting a group\<close>

definition onMan :: "(manifest \<Rightarrow> manifest) \<Rightarrow> 'd cworld \<Rightarrow> 'd cworld" where
  "onMan g w = w\<lparr>cw_man := g (cw_man w)\<rparr>"

text \<open>The download loop: the files kept, with their data, and the files fenced off.\<close>

fun downloadLoop ::
    "('d, 'r) cenv \<Rightarrow> nat \<Rightarrow> fileInfo list \<Rightarrow> (fileInfo \<times> 'd) list \<Rightarrow> string list \<Rightarrow> 'd cworld
     \<Rightarrow> (cerror + (fileInfo \<times> 'd) list \<times> string list) \<times> 'd cworld" where
  "downloadLoop E i [] kept fenced w = (Inr (kept, fenced), w)"
| "downloadLoop E i (f # fs) kept fenced w0 =
     (let w = ce_others E (AtDownload i) w0
      in if fenceKey f \<in> set (cw_fence w) then downloadLoop E (Suc i) fs kept (fenced @ [fi_Key f]) w
         else if ce_getFails E (fi_Key f) then (Inl (EDownload (fi_Key f)), w)
         else case mget (cw_objs w) (fi_Key f) of
           None \<Rightarrow> (Inl (ENotFound (fi_Key f)), w)
         | Some d \<Rightarrow>
             if ce_unknown E d
             then downloadLoop E (Suc i) fs kept (fenced @ [fi_Key f]) (w\<lparr>cw_fence := List.insert (fenceKey f) (cw_fence w)\<rparr>)
             else downloadLoop E (Suc i) fs (kept @ [(f, d)]) fenced w)"

definition maxOutputKeyAttempts :: nat where "maxOutputKeyAttempts = 5"

definition formatInt :: "int \<Rightarrow> string" where
  "formatInt n = (if n < 0 then ''-'' @ formatDec (nat (- n)) else formatDec (nat n))"

definition outputName :: "string \<Rightarrow> string \<Rightarrow> int \<Rightarrow> string \<Rightarrow> string" where
  "outputName pre part lvl rid = pre @ part @ ''/compacted-L'' @ formatInt lvl @ ''-'' @ rid @ ''.parquet''"

fun claimOutputKey :: "('d, 'r) cenv \<Rightarrow> nat \<Rightarrow> nat \<Rightarrow> string \<Rightarrow> string \<Rightarrow> int \<Rightarrow> 'd cworld \<Rightarrow> string option \<times> 'd cworld" where
  "claimOutputKey E 0 i pre part lvl w = (None, w)"
| "claimOutputKey E (Suc n) i pre part lvl w0 =
     (let w = ce_others E (AtClaim i) w0;
          key = outputName pre part lvl (ce_ids E (cw_draws w));
          w1 = w\<lparr>cw_draws := Suc (cw_draws w)\<rparr>
      in case ClaimPending (ce_now E w) key (cw_man w) of
           (True, m) \<Rightarrow> (Some key, w1\<lparr>cw_man := m\<rparr>)
         | (False, m) \<Rightarrow> claimOutputKey E n (Suc i) pre part lvl (w1\<lparr>cw_man := m\<rparr>))"

fun deleteLoop :: "('d, 'r) cenv \<Rightarrow> nat \<Rightarrow> fileInfo list \<Rightarrow> 'd cworld \<Rightarrow> 'd cworld" where
  "deleteLoop E i [] w = w"
| "deleteLoop E i (f # fs) w0 =
     (let w = ce_others E (AtDelete i) w0
      in if ce_delFails E (fi_Key f) then deleteLoop E (Suc i) fs w
         else deleteLoop E (Suc i) fs (onMan (ConfirmDeleted (fi_Key f)) (w\<lparr>cw_objs := mdel (fi_Key f) (cw_objs w)\<rparr>)))"

record groupResult =
  gr_InputKeys :: "string list"
  gr_OutputKey :: string
  gr_RowsMerged :: int
  gr_BytesRead :: int
  gr_BytesWritten :: int
  gr_Fenced :: "string list"

definition outputFile ::
    "('d, 'r) cenv \<Rightarrow> tenantFileGroup \<Rightarrow> fileInfo list \<Rightarrow> string \<Rightarrow> int \<Rightarrow> string \<Rightarrow> 'r list \<Rightarrow> bool \<Rightarrow> 'd \<Rightarrow> fileInfo" where
  "outputFile E g files fp outputLevel key merged hex d =
     \<lparr>fi_Key = key, fi_Bucket = tg_Bucket g, fi_Size = ce_len E d, fi_RowCount = int (length merged),
      fi_MinTimeNs = fst (timeBounds E merged), fi_MaxTimeNs = snd (timeBounds E merged), fi_BoundsInferred = False,
      fi_RawBytes = sum_list (map fi_RawBytes files), fi_BloomBytes = ce_bloomBytes E d, fi_SchemaFingerprint = fp,
      fi_CompactionLevel = outputLevel, fi_Labels = mergeFileLabels files, fi_ColumnStats = None,
      fi_LabelAggregates = ce_aggregates E merged, fi_ColumnBytes = ce_columnBytes E d, fi_StorageClass = [],
      fi_ClassCheckedAt = 0, fi_ClassSource = [], fi_CreatedAt = None, fi_TraceIDHex = hex\<rparr>"

text \<open>A publish that was refused: the output is abandoned, retired before it is deleted.\<close>

definition abandonOutput :: "('d, 'r) cenv \<Rightarrow> string \<Rightarrow> 'd cworld \<Rightarrow> (cerror + groupResult) \<times> 'd cworld" where
  "abandonOutput E key w0 =
     (let w = ce_others E AtAbandon w0
      in if HasKey key (cw_man w) then (Inl (EKeyTaken key), w)
         else let w1 = ce_others E AtConfirm (onMan (AbandonPending (ce_now E w) key) w)
              in if ce_delFails E key then (Inl EAbandoned, w1)
                 else (Inl EAbandoned, onMan (ConfirmDeleted key) (w1\<lparr>cw_objs := mdel key (cw_objs w1)\<rparr>)))"

definition publishOutput ::
    "('d, 'r) cenv \<Rightarrow> string \<Rightarrow> string list \<Rightarrow> fileInfo \<Rightarrow> fileInfo list \<Rightarrow> groupResult \<Rightarrow> 'd cworld
     \<Rightarrow> (cerror + groupResult) \<times> 'd cworld" where
  "publishOutput E part inputKeys fi files res w0 =
     (let w = ce_others E AtPublish w0
      in case ReplaceFiles (ce_now E w) part inputKeys fi (cw_man w) of
           (False, m) \<Rightarrow> abandonOutput E (fi_Key fi) (w\<lparr>cw_man := m\<rparr>)
         | (True, m) \<Rightarrow> (Inr res, deleteLoop E 0 files (w\<lparr>cw_man := m\<rparr>)))"

text \<open>The upload and what follows it; an upload that reports an error may or may not have stored the object.\<close>

definition storeOutput ::
    "('d, 'r) cenv \<Rightarrow> string \<Rightarrow> string list \<Rightarrow> fileInfo \<Rightarrow> fileInfo list \<Rightarrow> groupResult \<Rightarrow> 'd \<Rightarrow> 'd cworld
     \<Rightarrow> (cerror + groupResult) \<times> 'd cworld" where
  "storeOutput E part inputKeys fi files res d w2 =
     (let key = fi_Key fi; w3 = ce_others E AtUpload w2; w4 = w3\<lparr>cw_objs := mput key d (cw_objs w3)\<rparr>
      in if ce_putFails E key then (Inl EUpload, onMan (ReleasePending key) (if ce_putLands E key then w4 else w3))
         else publishOutput E part inputKeys fi files res w4)"

definition compactGroup ::
    "('d, 'r) cenv \<Rightarrow> string \<Rightarrow> tenantFileGroup \<Rightarrow> string \<Rightarrow> int \<Rightarrow> 'd cworld \<Rightarrow> (cerror + groupResult) \<times> 'd cworld" where
  "compactGroup E part g fp outputLevel w0 =
     (let dup = firstDuplicateKey [] (tg_Files g)
      in if dup \<noteq> [] then (Inl (EDuplicate dup), w0)
         else case downloadLoop E 0 (tg_Files g) [] [] w0 of
           (Inl e, w1) \<Rightarrow> (Inl e, w1)
         | (Inr (kept, fenced), w1) \<Rightarrow>
             if fenced \<noteq> [] \<and> length kept < 2
             then (Inr \<lparr>gr_InputKeys = [], gr_OutputKey = [], gr_RowsMerged = 0, gr_BytesRead = 0, gr_BytesWritten = 0,
                        gr_Fenced = fenced\<rparr>, w1)
             else let files = (if fenced \<noteq> [] then map fst kept else tg_Files g)
                  in case mergeData E (tg_TenantPrefix g) outputLevel (map snd kept) of
                    Inl e \<Rightarrow> (Inl e, w1)
                  | Inr (merged, hex, d) \<Rightarrow>
                      let pre = (if tg_TenantPrefix g = [] then ce_prefix E else tg_TenantPrefix g)
                      in case claimOutputKey E maxOutputKeyAttempts 0 pre part outputLevel w1 of
                        (None, w2) \<Rightarrow> (Inl ENoFreeKey, w2)
                      | (Some key, w2) \<Rightarrow>
                          storeOutput E part (map (fi_Key \<circ> fst) kept)
                            (outputFile E g files fp outputLevel key merged hex d) files
                            \<lparr>gr_InputKeys = map (fi_Key \<circ> fst) kept, gr_OutputKey = key, gr_RowsMerged = int (length merged),
                             gr_BytesRead = sum_list (map (ce_len E \<circ> snd) kept), gr_BytesWritten = ce_len E d,
                             gr_Fenced = fenced\<rparr> d w2)"

section \<open>Compacting a selection\<close>

record compactResult =
  cr_InputFiles :: "string list"
  cr_OutputFiles :: "string list"
  cr_RowsMerged :: int
  cr_BytesRead :: int
  cr_BytesWritten :: int
  cr_OutputLevel :: int
  cr_FencedFiles :: "string list"

definition addResult :: "groupResult \<Rightarrow> compactResult \<Rightarrow> compactResult" where
  "addResult g r =
     (let r1 = r\<lparr>cr_FencedFiles := cr_FencedFiles r @ gr_Fenced g\<rparr>
      in if gr_OutputKey g = [] then r1
         else r1\<lparr>cr_InputFiles := cr_InputFiles r1 @ gr_InputKeys g, cr_OutputFiles := cr_OutputFiles r1 @ [gr_OutputKey g],
                 cr_BytesRead := cr_BytesRead r1 + gr_BytesRead g, cr_BytesWritten := cr_BytesWritten r1 + gr_BytesWritten g,
                 cr_RowsMerged := cr_RowsMerged r1 + gr_RowsMerged g\<rparr>)"

fun compactGroups ::
    "('d, 'r) cenv \<Rightarrow> string \<Rightarrow> string \<Rightarrow> int \<Rightarrow> tenantFileGroup list \<Rightarrow> compactResult \<Rightarrow> 'd cworld
     \<Rightarrow> (cerror + compactResult) \<times> 'd cworld" where
  "compactGroups E part fp lvl [] r w = (Inr r, w)"
| "compactGroups E part fp lvl (g # gs) r w =
     (case compactGroup E part g fp lvl w of
        (Inl e, w1) \<Rightarrow> (Inl e, w1)
      | (Inr gr, w1) \<Rightarrow> compactGroups E part fp lvl gs (addResult gr r) w1)"

definition Compact ::
    "('d, 'r) cenv \<Rightarrow> string \<Rightarrow> fileInfo list \<Rightarrow> int \<Rightarrow> 'd cworld \<Rightarrow> (cerror + compactResult) \<times> 'd cworld" where
  "Compact E part files sourceLevel w =
     (case files of
        [] \<Rightarrow> (Inl ENoFiles, w)
      | f # fs \<Rightarrow>
          (case find (\<lambda>x. fi_SchemaFingerprint x \<noteq> fi_SchemaFingerprint f) fs of
             Some x \<Rightarrow> (Inl (EFingerprint (fi_SchemaFingerprint f) (fi_SchemaFingerprint x)), w)
           | None \<Rightarrow>
               compactGroups E part (fi_SchemaFingerprint f) (sourceLevel + 1) (groupFilesByTenant files)
                 \<lparr>cr_InputFiles = [], cr_OutputFiles = [], cr_RowsMerged = 0, cr_BytesRead = 0, cr_BytesWritten = 0,
                  cr_OutputLevel = sourceLevel + 1, cr_FencedFiles = []\<rparr> w))"

end
