(* ===== verification/CompactorProofs.thy ===== *)
theory CompactorProofs
  imports Compactor ManifestSafety
begin

text \<open>
  A merge neither loses nor duplicates a row that is served: every step of the compactor keeps the
  rows of the registered files, except the publish, which swaps the rows of the sources for the
  merged ones in one step.
\<close>

section \<open>Merging\<close>

definition allRows :: "('d, 'r) cenv \<Rightarrow> 'd \<Rightarrow> 'r multiset" where
  "allRows E d = (case ce_rows E d of None \<Rightarrow> {#} | Some rs \<Rightarrow> mset rs)"

text \<open>What a merge does to the rows themselves.\<close>

definition healed :: "('d, 'r) cenv \<Rightarrow> 'r multiset \<Rightarrow> 'r multiset" where
  "healed E rows =
     (case ce_mode E of
        ModeLogs \<Rightarrow> image_mset (healLog E) (filter_mset (\<lambda>r. \<not> ce_traceShaped E r) rows)
      | _ \<Rightarrow> (case ce_healTrace E of None \<Rightarrow> rows | Some heal \<Rightarrow> image_mset heal rows))"

lemma readAll_rows: "readAll E ds = Some rows \<Longrightarrow> mset rows = sum_list (map (allRows E) ds)"
  by (induction ds arbitrary: rows) (auto simp: allRows_def split: option.splits)

lemma merge_rows:
  "mergeLogFiles E ds = Some merged \<Longrightarrow> ce_mode E = ModeLogs \<Longrightarrow> mset merged = healed E (sum_list (map (allRows E) ds))"
  "mergeTraceFiles E ds = Some merged \<Longrightarrow> ce_mode E = ModeTraces \<Longrightarrow> mset merged = healed E (sum_list (map (allRows E) ds))"
  by (auto simp: mergeLogFiles_def healed_def readAll_rows mset_filter)
    (cases "ce_healTrace E"; auto simp: mergeTraceFiles_def healed_def readAll_rows)

lemma mergeData_rows:
  assumes "mergeData E pre lvl ds = Inr (merged, hex, d)"
  shows "mset merged = healed E (sum_list (map (allRows E) ds))" "\<exists>a b. ce_write E merged a b hex = Some d"
proof -
  show "mset merged = healed E (sum_list (map (allRows E) ds))"
    using assms by (auto simp: mergeData_def Let_def merge_rows split: mode.splits option.splits)
  show "\<exists>a b. ce_write E merged a b hex = Some d"
    using assms by (auto simp: mergeData_def Let_def split: mode.splits option.splits)
qed

text \<open>The merged rows are ordered by time.\<close>

lemma logLess_comparator: "comparator (logLess E)"
  unfolding logLess_def by (rule comparator_lex [OF comparator_key])

lemma traceLess_comparator: "comparator (traceLess E)"
  unfolding traceLess_def by (rule comparator_lex [OF comparator_lex [OF comparator_key]])

lemma mergeData_sorted:
  assumes "mergeData E pre lvl ds = Inr (merged, hex, d)"
  shows "sorted (map (ce_time E) merged)"
proof -
  have "sorted_wrt (\<lambda>a b. \<not> logLess E b a) merged \<or> sorted_wrt (\<lambda>a b. \<not> traceLess E b a) merged"
    using assms comparator.sorted_sort_slice [OF logLess_comparator] comparator.sorted_sort_slice [OF traceLess_comparator]
    by (auto simp: mergeData_def mergeLogFiles_def mergeTraceFiles_def Let_def split: mode.splits option.splits)
  then show ?thesis unfolding sorted_map
    by (elim disjE; elim sorted_wrt_mono_rel [rotated]) (auto simp: logLess_def traceLess_def split: if_splits)
qed

section \<open>Worlds\<close>

definition rowsAt :: "('d, 'r) cenv \<Rightarrow> 'd cworld \<Rightarrow> string \<Rightarrow> 'r multiset" where
  "rowsAt E w k = (case mget (cw_objs w) k of None \<Rightarrow> {#} | Some d \<Rightarrow> allRows E d)"

definition registered :: "'d cworld \<Rightarrow> string set" where
  "registered w = set (mkeys (m_byKey (cw_man w)))"

definition served :: "('d, 'r) cenv \<Rightarrow> 'd cworld \<Rightarrow> 'r multiset" where
  "served E w = (\<Sum>k \<in> registered w. rowsAt E w k)"

lemma registered_mhas: "k \<in> registered w \<longleftrightarrow> mhas (m_byKey (cw_man w)) k"
  by (simp add: registered_def mhas_keys)

lemma finite_registered [simp]: "finite (registered w)"
  by (simp add: registered_def)

text \<open>The consistency of a world: the manifest's own, every registered key has its object, and the objects of the
  sources are immutable.\<close>

definition world_ok :: "string set \<Rightarrow> (string \<Rightarrow> 'd) \<Rightarrow> 'd cworld \<Rightarrow> bool" where
  "world_ok S C w \<longleftrightarrow> man_ok (cw_man w) \<and> (\<forall>k \<in> registered w. mget (cw_objs w) k \<noteq> None)
     \<and> (\<forall>k \<in> S. \<forall>d. mget (cw_objs w) k = Some d \<longrightarrow> d = C k)"

text \<open>A key whose delete this process owes: it is retired, so no file is registered under it.\<close>

definition owed :: "'d cworld \<Rightarrow> string \<Rightarrow> bool" where
  "owed w k \<longleftrightarrow> (\<exists>rk. mget (m_retired (cw_man w)) k = Some rk \<and> rk_Reclaim rk)"

text \<open>What the merge relies on from the other goroutines: they keep the consistency, they leave the claim and the
  object of an output key alone, they register no file under such a key, and they do not forget
  an owed delete.\<close>

definition polite :: "('d, 'r) cenv \<Rightarrow> string set \<Rightarrow> string set \<Rightarrow> (string \<Rightarrow> 'd) \<Rightarrow> bool" where
  "polite E S K C \<longleftrightarrow> (\<forall>p w. world_ok S C w \<longrightarrow>
     world_ok S C (ce_others E p w)
     \<and> (\<forall>k \<in> K. mhas (m_pending (cw_man w)) k \<longrightarrow>
          mhas (m_pending (cw_man (ce_others E p w))) k \<and> mget (cw_objs (ce_others E p w)) k = mget (cw_objs w) k)
     \<and> (\<forall>k \<in> K. k \<notin> registered w \<longrightarrow> k \<notin> registered (ce_others E p w))
     \<and> (\<forall>k. owed w k \<longrightarrow> owed (ce_others E p w) k))"

text \<open>The steps that serve the same rows before and after, and the steps of the others.\<close>

inductive quiet :: "('d, 'r) cenv \<Rightarrow> 'd cworld \<Rightarrow> 'd cworld \<Rightarrow> bool" for E where
  quiet_refl: "quiet E w w"
| quiet_others: "quiet E w w' \<Longrightarrow> quiet E w (ce_others E p w')"
| quiet_own: "quiet E w w' \<Longrightarrow> served E w'' = served E w' \<Longrightarrow> quiet E w w''"

lemma quiet_trans: "quiet E v w \<Longrightarrow> quiet E u v \<Longrightarrow> quiet E u w"
  by (induction rule: quiet.induct) (auto intro: quiet.intros)

lemma quiet_step: "served E w' = served E w \<Longrightarrow> quiet E w w'"
  by (rule quiet_own [OF quiet_refl])

lemma quiet_by: "quiet E w (ce_others E p w)"
  by (rule quiet_others [OF quiet_refl])

section \<open>The steps\<close>

lemma served_cong:
  assumes "registered w' = registered w" "\<And>k. k \<in> registered w \<Longrightarrow> mget (cw_objs w') k = mget (cw_objs w) k"
  shows "served E w' = served E w"
  using assms by (simp add: served_def rowsAt_def)

text \<open>A key the world has not registered may be written or deleted.\<close>

lemma served_put: "key \<notin> registered w \<Longrightarrow> served E (w\<lparr>cw_objs := mput key d (cw_objs w)\<rparr>) = served E w"
  by (rule served_cong) (auto simp: registered_def go_map)

lemma served_del: "key \<notin> registered w \<Longrightarrow> served E (w\<lparr>cw_objs := mdel key (cw_objs w)\<rparr>) = served E w"
  by (rule served_cong) (auto simp: registered_def go_map)

lemma served_man: "m_byKey (g (cw_man w)) = m_byKey (cw_man w) \<Longrightarrow> served E (onMan g w) = served E w"
  by (rule served_cong) (auto simp: registered_def onMan_def)

lemma byKey_frame [simp]:
  "m_byKey (ConfirmDeleted key m) = m_byKey m" "m_byKey (ReleasePending key m) = m_byKey m"
  "m_byKey (snd (ClaimPending now key m)) = m_byKey m"
  by (simp_all add: ConfirmDeleted_def ReleasePending_def ClaimPending_def split: option.split)

lemma ok_registered: "world_ok S C w \<Longrightarrow> mhas (m_pending (cw_man w)) k \<Longrightarrow> k \<notin> registered w"
  by (auto simp: world_ok_def man_ok_def guard_ok_def registered_mhas)

lemma ok_man:
  assumes "world_ok S C w" "man_ok (g (cw_man w))" "m_byKey (g (cw_man w)) = m_byKey (cw_man w)"
  shows "world_ok S C (onMan g w)"
  using assms by (simp add: world_ok_def onMan_def registered_def)

lemma ok_del:
  assumes "world_ok S C w" "key \<notin> registered w"
  shows "world_ok S C (w\<lparr>cw_objs := mdel key (cw_objs w)\<rparr>)"
  using assms by (auto simp: world_ok_def registered_def go_map simp del: map_of_eq_Some_iff)

lemma ok_put:
  assumes "world_ok S C w" "key \<notin> S"
  shows "world_ok S C (w\<lparr>cw_objs := mput key d (cw_objs w)\<rparr>)"
  using assms by (auto simp: world_ok_def registered_def go_map simp del: map_of_eq_Some_iff)

lemma politeD:
  assumes "polite E S K C" "world_ok S C w"
  shows "world_ok S C (ce_others E p w)"
    "\<And>k. k \<in> K \<Longrightarrow> mhas (m_pending (cw_man w)) k \<Longrightarrow>
      mhas (m_pending (cw_man (ce_others E p w))) k \<and> mget (cw_objs (ce_others E p w)) k = mget (cw_objs w) k"
    "\<And>k. k \<in> K \<Longrightarrow> k \<notin> registered w \<Longrightarrow> k \<notin> registered (ce_others E p w)"
    "\<And>k. owed w k \<Longrightarrow> owed (ce_others E p w) k"
  using assms unfolding polite_def by blast+

lemma owed_unregistered: "world_ok S C w \<Longrightarrow> owed w k \<Longrightarrow> k \<notin> registered w"
  by (auto simp: world_ok_def man_ok_def guard_ok_def registered_mhas owed_def mhas_def)

text \<open>Deleting the object of an owed key, and recording it.\<close>

lemma settle_ok:
  assumes "world_ok S C w" "owed w key"
  defines "w' \<equiv> onMan (ConfirmDeleted key) (w\<lparr>cw_objs := mdel key (cw_objs w)\<rparr>)"
  shows "world_ok S C w'" "served E w' = served E w" "registered w' = registered w"
    "\<And>k. k \<noteq> key \<Longrightarrow> owed w k \<Longrightarrow> owed w' k"
proof -
  have un: "key \<notin> registered w" by (rule owed_unregistered [OF assms(1,2)])
  show "world_ok S C w'" unfolding w'_def
    using ok_del [OF assms(1) un] by (intro ok_man) (auto simp: world_ok_def intro: ConfirmDeleted_ok)
  show "served E w' = served E w" unfolding w'_def using served_del [OF un, of E] by (simp add: served_man)
  show "registered w' = registered w" by (simp add: w'_def registered_def onMan_def)
  show "\<And>k. k \<noteq> key \<Longrightarrow> owed w k \<Longrightarrow> owed w' k"
    by (auto simp: w'_def owed_def onMan_def ConfirmDeleted_def go_map simp del: map_of_eq_Some_iff split: option.split)
qed

lemma deleteLoop_quiet:
  assumes "polite E S K C" "world_ok S C w" "distinct (map fi_Key fs)" "\<forall>f \<in> set fs. owed w (fi_Key f)"
  shows "quiet E w (deleteLoop E i fs w) \<and> world_ok S C (deleteLoop E i fs w)"
  using assms(2-4)
proof (induction fs arbitrary: i w)
  case (Cons f fs)
  let ?w = "ce_others E (AtDelete i) w"
  note P = politeD [OF assms(1) Cons.prems(1), where p = "AtDelete i"]
  have ow: "owed ?w (fi_Key x)" if "x \<in> set (f # fs)" for x using P(4) Cons.prems(3) that by auto
  have d: "distinct (map fi_Key fs)" "\<And>x. x \<in> set fs \<Longrightarrow> fi_Key x \<noteq> fi_Key f" using Cons.prems(2) by (simp_all, metis image_eqI)
  show ?case
  proof (cases "ce_delFails E (fi_Key f)")
    case True
    have "quiet E ?w (deleteLoop E (Suc i) fs ?w) \<and> world_ok S C (deleteLoop E (Suc i) fs ?w)"
      using Cons.IH [OF P(1) d(1), of "Suc i"] ow by simp
    then show ?thesis using True by (auto simp: Let_def intro: quiet_trans quiet_by)
  next
    case False
    let ?w1 = "onMan (ConfirmDeleted (fi_Key f)) (?w\<lparr>cw_objs := mdel (fi_Key f) (cw_objs ?w)\<rparr>)"
    note T = settle_ok [OF P(1) ow [of f]]
    have "\<forall>x \<in> set fs. owed ?w1 (fi_Key x)" using T(4) d(2) ow by simp
    from Cons.IH [OF T(1) d(1) this, of "Suc i"]
    have "quiet E ?w1 (deleteLoop E (Suc i) fs ?w1) \<and> world_ok S C (deleteLoop E (Suc i) fs ?w1)" by simp
    moreover have "quiet E ?w ?w1" by (rule quiet_step) (rule T(2), simp)
    ultimately show ?thesis using False by (auto simp: Let_def intro: quiet_trans quiet_by)
  qed
qed (auto intro: quiet_refl)

text \<open>The downloads: what is kept is the content of the sources, in the order of the files.\<close>

definition downloaded ::
    "(string \<Rightarrow> 'd) \<Rightarrow> fileInfo list \<Rightarrow> (fileInfo \<times> 'd) list \<Rightarrow> string list \<Rightarrow> cerror + (fileInfo \<times> 'd) list \<times> string list \<Rightarrow> bool" where
  "downloaded C fs kept fenced r \<longleftrightarrow> (\<forall>kept' fenced'. r = Inr (kept', fenced') \<longrightarrow>
     (\<exists>new newf. kept' = kept @ new \<and> fenced' = fenced @ newf \<and> subseq (map fst new) fs
        \<and> (newf = [] \<longrightarrow> map fst new = fs) \<and> (\<forall>(f, d) \<in> set new. d = C (fi_Key f))))"

lemma downloaded_fenced: "downloaded C fs kept (fenced @ [k]) r \<Longrightarrow> downloaded C (f # fs) kept fenced r"
  unfolding downloaded_def
proof (intro allI impI)
  fix kept' fenced'
  assume a: "\<forall>kept' fenced'. r = Inr (kept', fenced') \<longrightarrow>
     (\<exists>new newf. kept' = kept @ new \<and> fenced' = (fenced @ [k]) @ newf \<and> subseq (map fst new) fs
        \<and> (newf = [] \<longrightarrow> map fst new = fs) \<and> (\<forall>(f, d) \<in> set new. d = C (fi_Key f)))" "r = Inr (kept', fenced')"
  then obtain new newf where n: "kept' = kept @ new" "fenced' = (fenced @ [k]) @ newf" "subseq (map fst new) fs"
    "\<forall>(f, d) \<in> set new. d = C (fi_Key f)" by blast
  show "\<exists>new newf. kept' = kept @ new \<and> fenced' = fenced @ newf \<and> subseq (map fst new) (f # fs)
      \<and> (newf = [] \<longrightarrow> map fst new = f # fs) \<and> (\<forall>(f, d) \<in> set new. d = C (fi_Key f))"
    by (rule exI [of _ new], rule exI [of _ "k # newf"]) (use n in \<open>simp add: list_emb_Cons\<close>)
qed

lemma downloaded_got: "downloaded C fs (kept @ [(f, C (fi_Key f))]) fenced r \<Longrightarrow> downloaded C (f # fs) kept fenced r"
  unfolding downloaded_def
proof (intro allI impI)
  fix kept' fenced'
  assume a: "\<forall>kept' fenced'. r = Inr (kept', fenced') \<longrightarrow>
     (\<exists>new newf. kept' = (kept @ [(f, C (fi_Key f))]) @ new \<and> fenced' = fenced @ newf \<and> subseq (map fst new) fs
        \<and> (newf = [] \<longrightarrow> map fst new = fs) \<and> (\<forall>(f, d) \<in> set new. d = C (fi_Key f)))" "r = Inr (kept', fenced')"
  then obtain new newf where n: "kept' = (kept @ [(f, C (fi_Key f))]) @ new" "fenced' = fenced @ newf" "subseq (map fst new) fs"
    "newf = [] \<longrightarrow> map fst new = fs" "\<forall>(f, d) \<in> set new. d = C (fi_Key f)" by blast
  show "\<exists>new newf. kept' = kept @ new \<and> fenced' = fenced @ newf \<and> subseq (map fst new) (f # fs)
      \<and> (newf = [] \<longrightarrow> map fst new = f # fs) \<and> (\<forall>(f, d) \<in> set new. d = C (fi_Key f))"
    by (rule exI [of _ "(f, C (fi_Key f)) # new"], rule exI [of _ newf]) (use n in simp)
qed

lemma downloadLoop_ok:
  assumes "polite E S K C" "world_ok S C w" "fi_Key ` set fs \<subseteq> S" "downloadLoop E i fs kept fenced w = (r, w')"
  shows "quiet E w w' \<and> world_ok S C w' \<and> downloaded C fs kept fenced r"
  using assms(2-4)
proof (induction fs arbitrary: i kept fenced w)
  case Nil
  then show ?case by (auto simp: downloaded_def intro: quiet_refl)
next
  case (Cons f fs)
  let ?w = "ce_others E (AtDownload i) w"
  have ok: "world_ok S C ?w" by (rule politeD(1) [OF assms(1) Cons.prems(1)])
  have S: "fi_Key ` set fs \<subseteq> S" "fi_Key f \<in> S" using Cons.prems(2) by auto
  let ?fw = "?w\<lparr>cw_fence := List.insert (fenceKey f) (cw_fence ?w)\<rparr>"
  have fw: "world_ok S C ?fw" "served E ?fw = served E ?w" using ok by (auto simp: world_ok_def served_def registered_def rowsAt_def)
  consider (fenced) "downloadLoop E (Suc i) fs kept (fenced @ [fi_Key f]) ?w = (r, w')"
    | (marked) "downloadLoop E (Suc i) fs kept (fenced @ [fi_Key f]) ?fw = (r, w')"
    | (failed) e where "r = Inl e" "w' = ?w"
    | (got) d where "mget (cw_objs ?w) (fi_Key f) = Some d" "downloadLoop E (Suc i) fs (kept @ [(f, d)]) fenced ?w = (r, w')"
    using Cons.prems(3) by (auto simp: Let_def split: if_splits option.splits)
  then show ?case
  proof cases
    case fenced
    from Cons.IH [OF ok S(1) this] show ?thesis using quiet_trans [OF _ quiet_by] downloaded_fenced by blast
  next
    case marked
    have "quiet E w ?fw" by (rule quiet_own [OF quiet_by fw(2)])
    with Cons.IH [OF fw(1) S(1) marked] show ?thesis using quiet_trans downloaded_fenced by blast
  next
    case failed
    then show ?thesis using ok by (auto simp: downloaded_def intro: quiet_by)
  next
    case got
    have "d = C (fi_Key f)" using ok S(2) got(1) by (auto simp: world_ok_def)
    then show ?thesis using Cons.IH [OF ok S(1) got(2)] quiet_trans [OF _ quiet_by] downloaded_got by blast
  qed
qed

lemma claim_ok:
  assumes "polite E S K C" "world_ok S C w" "\<forall>j. outputName pre part lvl (ce_ids E j) \<in> K"
    and "claimOutputKey E n i pre part lvl w = (r, w')"
  shows "quiet E w w' \<and> world_ok S C w' \<and> (\<forall>key. r = Some key \<longrightarrow> key \<in> K \<and> mhas (m_pending (cw_man w')) key)"
  using assms(2,4)
proof (induction n arbitrary: i w)
  case 0
  then show ?case by (auto intro: quiet_refl)
next
  case (Suc n)
  let ?w = "ce_others E (AtClaim i) w" and ?key = "outputName pre part lvl (ce_ids E (cw_draws (ce_others E (AtClaim i) w)))"
  obtain b m where c: "ClaimPending (ce_now E ?w) ?key (cw_man ?w) = (b, m)" by fastforce
  let ?v = "?w\<lparr>cw_draws := Suc (cw_draws ?w)\<rparr>"
  let ?w1 = "?v\<lparr>cw_man := m\<rparr>"
  have m: "m = snd (ClaimPending (ce_now E ?w) ?key (cw_man ?w))" using c by simp
  have w1: "?w1 = onMan (\<lambda>x. snd (ClaimPending (ce_now E ?w) ?key x)) ?v" by (simp add: onMan_def m)
  have okw: "world_ok S C ?v" using politeD(1) [OF assms(1) Suc.prems(1)] by (simp add: world_ok_def registered_def)
  have dr: "served E ?v = served E ?w" by (simp add: served_def registered_def rowsAt_def)
  have ok: "world_ok S C ?w1" unfolding w1 by (rule ok_man [OF okw]) (use okw in \<open>simp_all add: ClaimPending_ok world_ok_def\<close>)
  have q: "quiet E w ?w1" unfolding w1 by (rule quiet_own [OF quiet_by]) (simp add: served_man dr)
  show ?case
  proof (cases b)
    case True
    have "mhas (m_pending m) ?key" using c True by (auto simp: ClaimPending_def go_map split: if_splits)
    then show ?thesis using Suc.prems(2) c True ok q assms(3) by (auto simp: Let_def)
  next
    case False
    then have "claimOutputKey E n (Suc i) pre part lvl ?w1 = (r, w')" using Suc.prems(2) c by (simp add: Let_def)
    from Suc.IH [OF ok this] show ?thesis using q quiet_trans by blast
  qed
qed

lemma abandon_ok:
  assumes "polite E S K C" "world_ok S C w" "key \<in> K" "mhas (m_pending (cw_man w)) key" "abandonOutput E key w = (r, w')"
  shows "quiet E w w' \<and> world_ok S C w' \<and> (\<exists>e. r = Inl e)"
proof -
  let ?w = "ce_others E AtAbandon w"
  let ?a = "onMan (AbandonPending (ce_now E ?w) key) ?w"
  let ?w1 = "ce_others E AtConfirm ?a"
  let ?d = "?w1\<lparr>cw_objs := mdel key (cw_objs ?w1)\<rparr>"
  note P = politeD [OF assms(1,2), where p = AtAbandon]
  have un: "key \<notin> registered ?w" using ok_registered [OF P(1)] P(2) assms(3,4) by blast
  then have h: "\<not> HasKey key (cw_man ?w)" by (simp add: HasKey_def registered_mhas)
  have bk: "m_byKey (AbandonPending (ce_now E ?w) key (cw_man ?w)) = m_byKey (cw_man ?w)"
    using un by (simp add: AbandonPending_def unregister_def registered_mhas mhas_def)
  have oka: "world_ok S C ?a" using P(1) by (intro ok_man bk) (auto simp: world_ok_def intro: AbandonPending_ok)
  have ua: "key \<notin> registered ?a" using un by (simp add: registered_def onMan_def bk)
  note Q = politeD [OF assms(1) oka, where p = AtConfirm]
  have u1: "key \<notin> registered ?w1" using Q(3) ua assms(3) by blast
  have q1: "quiet E w ?w1" by (rule quiet_others, rule quiet_own [OF quiet_by]) (simp add: served_man bk)
  have okd: "world_ok S C (onMan (ConfirmDeleted key) ?d)"
    using ok_del [OF Q(1) u1] by (intro ok_man) (auto simp: world_ok_def intro: ConfirmDeleted_ok)
  have "served E (onMan (ConfirmDeleted key) ?d) = served E ?w1" using served_del [OF u1] by (simp add: served_man)
  from quiet_own [OF q1 this] show ?thesis
    using assms(5) h q1 okd Q(1) by (auto simp: abandonOutput_def Let_def split: if_splits)
qed

text \<open>The one step that changes what is served: the rows of the sources give way to the merged rows.\<close>

definition swapped :: "('d, 'r) cenv \<Rightarrow> string list \<Rightarrow> string \<Rightarrow> 'd cworld \<Rightarrow> 'd cworld \<Rightarrow> bool" where
  "swapped E inputs out w w' \<longleftrightarrow> distinct inputs \<and> set inputs \<subseteq> registered w \<and> out \<notin> registered w
     \<and> registered w' = registered w - set inputs \<union> {out}
     \<and> served E w' + (\<Sum>k \<in> set inputs. rowsAt E w k) = served E w + healed E (\<Sum>k \<in> set inputs. rowsAt E w k)"

lemma removeFile_retired: "m_retired (snd (removeFileLocked p x m)) = m_retired m"
  by (simp add: removeFileLocked_def Let_def split: option.split)

lemma takeOut_owes:
  "k \<in> set ks \<or> (\<exists>rk. mget (m_retired m) k = Some rk \<and> rk_Reclaim rk) \<Longrightarrow>
     \<exists>rk. mget (m_retired (takeOut now p b ks m)) k = Some rk \<and> rk_Reclaim rk"
proof (induction ks arbitrary: m)
  case (Cons x ks)
  let ?m = "retireLocked now (newRetired x b True) (snd (removeFileLocked p x m))"
  have "k \<in> set ks \<or> (\<exists>rk. mget (m_retired ?m) k = Some rk \<and> rk_Reclaim rk)"
    using Cons.prems by (cases "k = x") (auto simp: retire_retired newRetired_def removeFile_retired simp del: map_of_eq_Some_iff)
  from Cons.IH [OF this] show ?case by (simp add: takeOut_def)
qed (simp add: takeOut_def)

lemma publish_owes:
  assumes "man_ok m" "ReplaceFiles now p ks fi m = (True, m')" "k \<in> set ks" "k \<noteq> fi_Key fi"
  shows "\<exists>rk. mget (m_retired m') k = Some rk \<and> rk_Reclaim rk"
proof -
  have c: "\<forall>k \<in> set ks. mget (m_byKey m) k = Some p" "freeForPublishLocked (fi_Key fi) ks m"
    and m': "m' = addFileLocked now p fi (takeOut now p (fi_Key fi) ks m)"
    using assms(2) by (auto simp: ReplaceFiles_eq split: if_splits)
  have free: "\<not> mhas (m_byKey (takeOut now p (fi_Key fi) ks m)) (fi_Key fi)"
    using c(2) takeOut_ok(2) [OF assms(1) c(1), of now "fi_Key fi" "fi_Key fi"] by (auto simp: mhas_def freeForPublishLocked_def)
  show ?thesis using takeOut_owes [of k ks m now p "fi_Key fi"] assms(3,4) unfolding m'
    by (simp add: addFile_frame [OF free] go_map del: map_of_eq_Some_iff)
qed

lemma publish_swaps:
  assumes "world_ok S C w" "ReplaceFiles now part ks fi (cw_man w) = (True, m)" "distinct ks" "set ks \<subseteq> S"
    and "mhas (m_pending (cw_man w)) (fi_Key fi)" "mget (cw_objs w) (fi_Key fi) = Some d"
    and "allRows E d = healed E (sum_list (map (\<lambda>k. allRows E (C k)) ks))"
  shows "swapped E ks (fi_Key fi) w (w\<lparr>cw_man := m\<rparr>)" "fi_Key fi \<notin> set ks"
    "world_ok S C (w\<lparr>cw_man := m\<rparr>)"
proof -
  let ?o = "fi_Key fi" and ?w = "w\<lparr>cw_man := m\<rparr>"
  have ok: "man_ok (cw_man w)" using assms(1) by (simp add: world_ok_def)
  have un: "?o \<notin> registered w" by (rule ok_registered [OF assms(1,5)])
  have src: "\<forall>k \<in> set ks. mget (m_byKey (cw_man w)) k = Some part"
    using assms(2) by (auto simp: ReplaceFiles_eq simp del: map_of_eq_Some_iff split: if_splits)
  have ks: "set ks \<subseteq> registered w" using src by (auto simp: registered_mhas mhas_def)
  then show o: "?o \<notin> set ks" using un by blast
  have "k \<in> registered ?w \<longleftrightarrow> k \<in> registered w - set ks \<union> {?o}" for k
    using ReplaceFiles_effect(1) [OF ok assms(2), of k] un
    by (auto simp: registered_mhas mhas_def simp del: map_of_eq_Some_iff)
  then have reg: "registered ?w = registered w - set ks \<union> {?o}" by blast
  have at: "rowsAt E ?w = rowsAt E w" by (simp add: rowsAt_def fun_eq_iff)
  have "served E ?w = (\<Sum>k \<in> registered w - set ks. rowsAt E w k) + rowsAt E w ?o"
    unfolding served_def reg at using un by (subst sum.union_disjoint) (auto simp: finite_registered)
  moreover have "served E w = (\<Sum>k \<in> registered w - set ks. rowsAt E w k) + (\<Sum>k \<in> set ks. rowsAt E w k)"
    unfolding served_def by (rule sum.subset_diff [OF ks finite_registered])
  moreover have "rowsAt E w k = allRows E (C k)" if "k \<in> set ks" for k
  proof -
    have "mget (cw_objs w) k \<noteq> None" using assms(1) ks that by (auto simp: world_ok_def)
    then obtain x where x: "mget (cw_objs w) k = Some x" by blast
    then have "x = C k" using assms(1,4) that by (auto simp: world_ok_def)
    then show ?thesis using x by (simp add: rowsAt_def)
  qed
  then have "(\<Sum>k \<in> set ks. rowsAt E w k) = sum_list (map (\<lambda>k. allRows E (C k)) ks)"
    using assms(3) by (simp add: sum.distinct_set_conv_list)
  moreover have "rowsAt E w ?o = allRows E d" using assms(6) by (simp add: rowsAt_def)
  ultimately show "swapped E ks ?o w ?w" using assms(3,7) ks un reg by (simp add: swapped_def add.assoc add.commute)
  have "man_ok m" using ReplaceFiles_ok [OF ok, of now part ks fi] assms(2) by simp
  moreover have "\<forall>k \<in> registered ?w. mget (cw_objs ?w) k \<noteq> None"
    unfolding reg using assms(1,6) by (auto simp: world_ok_def)
  ultimately show "world_ok S C ?w" using assms(1) by (auto simp: world_ok_def)
qed

lemma claimed_name: "claimOutputKey E n i pre part lvl w = (Some key, w') \<Longrightarrow> key \<noteq> []"
proof (induction n arbitrary: i w)
  case (Suc n)
  then show ?case by (auto simp: Let_def outputName_def split: prod.splits bool.splits)
qed simp

lemma no_duplicates:
  "firstDuplicateKey seen fs = [] \<Longrightarrow> \<forall>f \<in> set fs. fi_Key f \<noteq> [] \<Longrightarrow>
     distinct (map fi_Key fs) \<and> fi_Key ` set fs \<inter> set seen = {}"
  by (induction seen fs rule: firstDuplicateKey.induct) (auto split: if_splits)

text \<open>The assumptions of a merge: the others are polite, the Parquet writer's output reads back as the rows written,
  and no output name is the key of a source.\<close>

definition outputPrefix :: "('d, 'r) cenv \<Rightarrow> string \<Rightarrow> string" where
  "outputPrefix E tenantPrefix = (if tenantPrefix = [] then ce_prefix E else tenantPrefix)"

definition merge_env :: "('d, 'r) cenv \<Rightarrow> string set \<Rightarrow> fileInfo list \<Rightarrow> string \<Rightarrow> int \<Rightarrow> string set \<Rightarrow> (string \<Rightarrow> 'd) \<Rightarrow> bool" where
  "merge_env E S files part lvl K C \<longleftrightarrow> polite E S K C
     \<and> (\<forall>rows a b h d. ce_write E rows a b h = Some d \<longrightarrow> ce_rows E d = Some rows)
     \<and> S \<inter> K = {} \<and> fi_Key ` set files \<subseteq> S
     \<and> (\<forall>f \<in> set files. fi_Key f \<noteq> [] \<and> (\<forall>j. outputName (outputPrefix E (fst (groupOf f))) part lvl (ce_ids E j) \<in> K))"

lemma publishOutput_ok:
  assumes P: "polite E S K C" and ok: "world_ok S C w" and pend: "mhas (m_pending (cw_man w)) (fi_Key fi)" "fi_Key fi \<in> K"
    and obj: "mget (cw_objs w) (fi_Key fi) = Some d" "allRows E d = healed E (sum_list (map (\<lambda>k. allRows E (C k)) ks))"
    and ks: "distinct ks" "set ks \<subseteq> S" "ks = map fi_Key files"
    and run: "publishOutput E part ks fi files res w = (r, w')"
  shows "world_ok S C w' \<and> (case r of Inl e \<Rightarrow> quiet E w w'
     | Inr x \<Rightarrow> x = res \<and> (\<exists>w1 w2. quiet E w w1 \<and> swapped E ks (fi_Key fi) w1 w2 \<and> quiet E w2 w'))"
proof -
  let ?w = "ce_others E AtPublish w"
  note A = politeD [OF P ok, where p = AtPublish]
  have pend': "mhas (m_pending (cw_man ?w)) (fi_Key fi)" "mget (cw_objs ?w) (fi_Key fi) = Some d"
    using A(2) pend obj(1) by auto
  obtain b m where R: "ReplaceFiles (ce_now E ?w) part ks fi (cw_man ?w) = (b, m)" by fastforce
  show ?thesis
  proof (cases b)
    case True
    have Rt: "ReplaceFiles (ce_now E ?w) part ks fi (cw_man ?w) = (True, m)" using R True by simp
    have files: "fi_Key ` set files \<subseteq> S" "set (map fi_Key files) = set ks" using ks by auto
    note W = publish_swaps [OF A(1) Rt ks(1,2) pend' obj(2)]
    have mo: "man_ok (cw_man ?w)" using A(1) by (simp add: world_ok_def)
    have "owed (?w\<lparr>cw_man := m\<rparr>) (fi_Key f)" if "f \<in> set files" for f
    proof -
      have k: "fi_Key f \<in> set ks" using files(2) that by auto
      then have "fi_Key f \<noteq> fi_Key fi" using W(2) by metis
      from publish_owes [OF mo Rt k this] show ?thesis by (simp add: owed_def del: map_of_eq_Some_iff)
    qed
    then have "\<forall>f \<in> set files. owed (?w\<lparr>cw_man := m\<rparr>) (fi_Key f)" by blast
    note Dl = deleteLoop_quiet [OF P W(3) ks(1) [unfolded ks(3)] this, of 0]
    have "r = Inr res" "w' = deleteLoop E 0 files (?w\<lparr>cw_man := m\<rparr>)" using run Rt by (auto simp: publishOutput_def Let_def)
    moreover have "\<exists>w1 w2. quiet E w w1 \<and> swapped E ks (fi_Key fi) w1 w2
        \<and> quiet E w2 (deleteLoop E 0 files (?w\<lparr>cw_man := m\<rparr>))"
      using W(1) Dl quiet_by [of E w AtPublish] by blast
    ultimately show ?thesis using Dl by simp
  next
    case False
    then have m: "?w\<lparr>cw_man := m\<rparr> = ?w" using R by (auto simp: ReplaceFiles_eq split: if_splits)
    have "abandonOutput E (fi_Key fi) ?w = (r, w')" using run R False m by (simp add: publishOutput_def Let_def)
    from abandon_ok [OF P A(1) pend(2) pend'(1) this] show ?thesis using quiet_trans [OF _ quiet_by] by auto
  qed
qed

lemma storeOutput_ok:
  assumes P: "polite E S K C" and ok: "world_ok S C w" and pend: "mhas (m_pending (cw_man w)) (fi_Key fi)" "fi_Key fi \<in> K"
    and disj: "S \<inter> K = {}"
    and d: "allRows E d = healed E (sum_list (map (\<lambda>k. allRows E (C k)) ks))"
    and ks: "distinct ks" "set ks \<subseteq> S" "ks = map fi_Key files"
    and run: "storeOutput E part ks fi files res d w = (r, w')"
  shows "world_ok S C w' \<and> (case r of Inl e \<Rightarrow> quiet E w w'
     | Inr x \<Rightarrow> x = res \<and> (\<exists>w1 w2. quiet E w w1 \<and> swapped E ks (fi_Key fi) w1 w2 \<and> quiet E w2 w'))"
proof -
  let ?w3 = "ce_others E AtUpload w"
  let ?w4 = "?w3\<lparr>cw_objs := mput (fi_Key fi) d (cw_objs ?w3)\<rparr>"
  let ?x = "if ce_putLands E (fi_Key fi) then ?w4 else ?w3"
  note U = politeD [OF P ok, where p = AtUpload]
  have p3: "mhas (m_pending (cw_man ?w3)) (fi_Key fi)" using U(2) pend by blast
  have ok4: "world_ok S C ?w4" by (rule ok_put [OF U(1)]) (use pend(2) disj in blast)
  have q4: "quiet E w ?w4" by (rule quiet_own [OF quiet_by served_put [OF ok_registered [OF U(1) p3]]])
  show ?thesis
  proof (cases "ce_putFails E (fi_Key fi)")
    case True
    have x: "world_ok S C ?x" "quiet E w ?x" using ok4 q4 U(1) by (simp_all add: quiet_by)
    have "world_ok S C (onMan (ReleasePending (fi_Key fi)) ?x)"
      by (rule ok_man [OF x(1) ReleasePending_ok]) (use x(1) in \<open>simp_all only: world_ok_def byKey_frame\<close>)
    moreover have "quiet E w (onMan (ReleasePending (fi_Key fi)) ?x)"
      by (rule quiet_own [OF x(2) served_man]) (rule byKey_frame)
    moreover have "r = Inl EUpload \<and> w' = onMan (ReleasePending (fi_Key fi)) ?x"
      using run True by (simp add: storeOutput_def Let_def)
    ultimately show ?thesis by (simp only: sum.case)
  next
    case False
    then have "publishOutput E part ks fi files res ?w4 = (r, w')" using run by (simp add: storeOutput_def Let_def)
    from publishOutput_ok [OF P ok4 _ pend(2) _ d ks this] have
      Pb: "world_ok S C w' \<and> (case r of Inl e \<Rightarrow> quiet E ?w4 w'
        | Inr x \<Rightarrow> x = res \<and> (\<exists>w1 w2. quiet E ?w4 w1 \<and> swapped E ks (fi_Key fi) w1 w2 \<and> quiet E w2 w'))"
      using p3 by (simp add: go_map)
    show ?thesis
    proof (cases r)
      case (Inl e)
      then show ?thesis using Pb quiet_trans [OF _ q4] by simp
    next
      case (Inr x)
      then show ?thesis using Pb quiet_trans [OF _ q4] by (simp only: sum.case) blast
    qed
  qed
qed

lemma compactGroup_safe:
  assumes env: "merge_env E S files part lvl K C" and ok: "world_ok S C w"
    and g: "set (tg_Files g) \<subseteq> set files" "\<exists>f \<in> set files. tg_TenantPrefix g = fst (groupOf f)"
    and run: "compactGroup E part g fp lvl w = (r, w')"
  shows "world_ok S C w' \<and>
    (case r of
       Inl e \<Rightarrow> quiet E w w'
     | Inr res \<Rightarrow>
         if gr_OutputKey res = [] then quiet E w w'
         else set (gr_InputKeys res) \<subseteq> fi_Key ` set (tg_Files g)
           \<and> (\<exists>w1 w2. quiet E w w1 \<and> swapped E (gr_InputKeys res) (gr_OutputKey res) w1 w2 \<and> quiet E w2 w'))"
proof -
  let ?G = "fi_Key ` set (tg_Files g)"
    and ?pre = "if tg_TenantPrefix g = [] then ce_prefix E else tg_TenantPrefix g"
  have P: "polite E S K C" and rt: "\<And>rows a b h d. ce_write E rows a b h = Some d \<Longrightarrow> ce_rows E d = Some rows"
    and disj: "S \<inter> K = {}" and FS: "fi_Key ` set files \<subseteq> S" and all: "\<And>f. f \<in> set files \<Longrightarrow> fi_Key f \<noteq> []"
      "\<And>f j. f \<in> set files \<Longrightarrow> outputName (outputPrefix E (fst (groupOf f))) part lvl (ce_ids E j) \<in> K"
    using env unfolding merge_env_def by simp_all
  have ne: "\<forall>f \<in> set (tg_Files g). fi_Key f \<noteq> []" using all(1) g(1) by blast
  have GS: "?G \<subseteq> S" using g(1) FS by blast
  have names: "\<forall>j. outputName ?pre part lvl (ce_ids E j) \<in> K"
    using all(2) g(2) unfolding outputPrefix_def by metis
  show ?thesis
  proof (cases "firstDuplicateKey [] (tg_Files g) = []")
    case False
    then show ?thesis using run ok by (auto simp: compactGroup_def intro: quiet_refl)
  next
    case nodup: True
    have dk: "distinct (map fi_Key (tg_Files g))" using no_duplicates [OF nodup ne] by simp
    obtain rd w1 where dl: "downloadLoop E 0 (tg_Files g) [] [] w = (rd, w1)" by fastforce
    note D = downloadLoop_ok [OF P ok GS dl]
    show ?thesis
    proof (cases rd)
      case (Inl e)
      then show ?thesis using run nodup dl D by (auto simp: compactGroup_def)
    next
      case (Inr kf)
      obtain kept fenced where kf: "kf = (kept, fenced)" by fastforce
      have K: "subseq (map fst kept) (tg_Files g)" "fenced = [] \<Longrightarrow> map fst kept = tg_Files g" "\<forall>(f, d) \<in> set kept. d = C (fi_Key f)"
        using D by (auto simp: downloaded_def Inr kf)
      let ?ks = "map (fi_Key \<circ> fst) kept" and ?files = "if fenced \<noteq> [] then map fst kept else tg_Files g"
      have files: "?files = map fst kept" using K(2) by auto
      have ksd: "distinct ?ks" using subseq_distinct [OF subseq_map [OF K(1), of fi_Key]] dk by simp
      have ksg: "set ?ks \<subseteq> ?G" using subseq_sub [OF K(1)] by auto
      then have kss: "set ?ks \<subseteq> S" using GS by blast
      have data: "map snd kept = map C ?ks" using K(3) by auto
      show ?thesis
      proof (cases "(fenced \<noteq> [] \<and> length kept < 2) \<or> (\<exists>e. mergeData E (tg_TenantPrefix g) lvl (map snd kept) = Inl e)")
        case True
        then show ?thesis using run nodup dl D Inr kf by (auto simp: compactGroup_def Let_def split: if_splits)
      next
        case False
        obtain merged hex d where md: "mergeData E (tg_TenantPrefix g) lvl (map snd kept) = Inr (merged, hex, d)"
          using False by (cases "mergeData E (tg_TenantPrefix g) lvl (map snd kept)") auto
        note M = mergeData_rows [OF md]
        have dr: "allRows E d = healed E (sum_list (map (\<lambda>k. allRows E (C k)) ?ks))"
          using M rt unfolding data by (auto simp: allRows_def o_def)
        obtain rc w2 where cl: "claimOutputKey E maxOutputKeyAttempts 0 ?pre part lvl w1 = (rc, w2)" by fastforce
        have okw1: "world_ok S C w1" and q1: "quiet E w w1" using D by auto
        note Cl = claim_ok [OF P okw1 names cl]
        have q2: "quiet E w w2" using quiet_trans Cl q1 by blast
        show ?thesis
        proof (cases rc)
          case None
          then show ?thesis using run nodup dl Inr kf False md cl Cl q2 by (auto simp: compactGroup_def Let_def)
        next
          case (Some key)
          let ?fi = "outputFile E g ?files fp lvl key merged hex d"
          let ?res = "\<lparr>gr_InputKeys = ?ks, gr_OutputKey = key, gr_RowsMerged = int (length merged),
            gr_BytesRead = sum_list (map (ce_len E \<circ> snd) kept), gr_BytesWritten = ce_len E d, gr_Fenced = fenced\<rparr>"
          have fk: "fi_Key ?fi = key" by (simp add: outputFile_def)
          have kn: "key \<noteq> []" using cl Some claimed_name by blast
          have key: "mhas (m_pending (cw_man w2)) (fi_Key ?fi)" "fi_Key ?fi \<in> K" using Cl Some fk by auto
          have "storeOutput E part ?ks ?fi ?files ?res d w2 = (r, w')"
            using run nodup dl Inr kf False md cl Some by (cases "fenced = []") (simp_all add: compactGroup_def Let_def)
          from storeOutput_ok [OF P _ key disj dr ksd kss _ this]
          have St: "world_ok S C w' \<and> (case r of Inl e \<Rightarrow> quiet E w2 w'
            | Inr x \<Rightarrow> x = ?res \<and> (\<exists>w1 w2'. quiet E w2 w1 \<and> swapped E ?ks key w1 w2' \<and> quiet E w2' w'))"
            using Cl files unfolding fk by simp
          show ?thesis
          proof (cases r)
            case (Inl e)
            then show ?thesis using St quiet_trans [OF _ q2] by simp
          next
            case (Inr x)
            then obtain v1 v2 where v: "quiet E w2 v1" "swapped E ?ks key v1 v2" "quiet E v2 w'" "x = ?res" using St by auto
            have "gr_InputKeys x = ?ks" "gr_OutputKey x = key" using v(4) by simp_all
            moreover have "quiet E w v1" by (rule quiet_trans [OF v(1) q2])
            ultimately show ?thesis using St Inr v(2,3) ksg kn by (simp only: sum.case if_False) blast
          qed
        qed
      qed
    qed
  qed
qed

section \<open>Compacting a selection\<close>

text \<open>A run of quiet steps and swaps; the index lists the swaps, sources first.\<close>

inductive merges :: "('d, 'r) cenv \<Rightarrow> (string list \<times> string) list \<Rightarrow> 'd cworld \<Rightarrow> 'd cworld \<Rightarrow> bool" for E where
  merges_none: "merges E [] w w"
| merges_quiet: "merges E ss w w1 \<Longrightarrow> quiet E w1 w2 \<Longrightarrow> merges E ss w w2"
| merges_swap: "merges E ss w w1 \<Longrightarrow> swapped E ks key w1 w2 \<Longrightarrow> merges E (ss @ [(ks, key)]) w w2"

lemma groupFold:
  "wfmap (fold groupStep fs []) \<and> (\<forall>k. mget (fold groupStep fs []) k =
     (if filter (\<lambda>f. groupOf f = k) fs = [] then None else Some (filter (\<lambda>f. groupOf f = k) fs)))"
proof (induction fs rule: rev_induct)
  case (snoc f fs)
  let ?m = "fold groupStep fs []"
  have IH: "mget ?m k = (if filter (\<lambda>f. groupOf f = k) fs = [] then None else Some (filter (\<lambda>f. groupOf f = k) fs))" for k
    using snoc by blast
  have "fold groupStep (fs @ [f]) [] = mput (groupOf f) (filter (\<lambda>x. groupOf x = groupOf f) fs @ [f]) ?m"
    unfolding fold_append comp_def fold.simps groupStep_def [of f] IH by simp
  then show ?case using snoc by (simp add: go_map wfmap_mput IH del: map_of_eq_Some_iff)
qed simp

lemma groups_of_files:
  assumes "g \<in> set (groupFilesByTenant files)"
  shows "set (tg_Files g) \<subseteq> set files \<and> (\<exists>f \<in> set files. tg_TenantPrefix g = fst (groupOf f))"
proof -
  let ?m = "fold groupStep files []"
  have "set (groupFilesByTenant files) = (\<lambda>k. \<lparr>tg_TenantPrefix = fst k, tg_Bucket = snd k,
      tg_Files = (case mget ?m k of None \<Rightarrow> [] | Some fs \<Rightarrow> fs)\<rparr>) ` set (mkeys ?m)"
    by (simp add: groupFilesByTenant_def Let_def)
  from assms [unfolded this] obtain k where k: "k \<in> set (mkeys ?m)" and g: "tg_TenantPrefix g = fst k"
      "tg_Files g = (case mget ?m k of None \<Rightarrow> [] | Some fs \<Rightarrow> fs)" by fastforce
  have "mget ?m k \<noteq> None" using k unfolding mhas_keys [symmetric] mhas_def .
  then have "filter (\<lambda>f. groupOf f = k) files \<noteq> []" "tg_Files g = filter (\<lambda>f. groupOf f = k) files"
    using groupFold [of files, THEN conjunct2, rule_format, of k] g(2) by (auto simp del: map_of_eq_Some_iff split: if_splits)
  then show ?thesis using g(1) by (auto simp: filter_empty_conv)
qed

text \<open>Files of one group form one group.\<close>

lemma singleton_list: "set xs = {x} \<Longrightarrow> distinct xs \<Longrightarrow> xs = [x]"
  by (cases xs; cases "tl xs") auto

lemma one_group:
  assumes "fs \<noteq> []" "\<forall>f \<in> set fs. groupOf f = gk"
  shows "groupFilesByTenant fs = [\<lparr>tg_TenantPrefix = fst gk, tg_Bucket = snd gk, tg_Files = fs\<rparr>]"
proof -
  let ?m = "fold groupStep fs []"
  have G: "wfmap ?m" "mget ?m k = (if k = gk then Some fs else None)" for k
  proof -
    have "filter (\<lambda>f. groupOf f = k) fs = (if k = gk then fs else [])" using assms(2) by (auto simp: filter_empty_conv)
    then show "wfmap ?m" "mget ?m k = (if k = gk then Some fs else None)"
      using groupFold [of fs, THEN conjunct1] groupFold [of fs, THEN conjunct2, rule_format, of k] assms(1) by (cases "k = gk"; simp)+
  qed
  have "set (mkeys ?m) = {gk}" unfolding set_eq_iff mhas_keys [symmetric] mhas_def G(2) by simp
  moreover have "distinct (mkeys ?m)" using G(1) by simp
  ultimately have "mkeys ?m = [gk]" by (rule singleton_list)
  moreover have "sort_slice groupLess [gk] = [gk]" using singleton_list [of "sort_slice groupLess [gk]" gk] by (simp add: distinct_sort_slice)
  ultimately show ?thesis unfolding groupFilesByTenant_def Let_def G(2) by simp
qed

definition fits :: "fileInfo list \<Rightarrow> compactResult \<Rightarrow> (string list \<times> string) list \<Rightarrow> (cerror + compactResult) \<Rightarrow> bool" where
  "fits files acc ss r \<longleftrightarrow> (\<forall>(ks, key) \<in> set ss. set ks \<subseteq> fi_Key ` set files)
     \<and> (\<forall>res. r = Inr res \<longrightarrow> cr_InputFiles res = cr_InputFiles acc @ concat (map fst ss)
          \<and> cr_OutputFiles res = cr_OutputFiles acc @ map snd ss)"

lemma fits_append:
  assumes "fits files acc ss (Inr acc')" "fits files acc' ts r"
  shows "fits files acc (ss @ ts) r"
proof -
  have "\<forall>p \<in> set (ss @ ts). case p of (ks, key) \<Rightarrow> set ks \<subseteq> fi_Key ` set files"
    using assms unfolding fits_def set_append by blast
  moreover have "cr_InputFiles res = cr_InputFiles acc @ concat (map fst (ss @ ts)) \<and> cr_OutputFiles res = cr_OutputFiles acc @ map snd (ss @ ts)"
    if "r = Inr res" for res
    using assms(1) [unfolded fits_def, THEN conjunct2, rule_format, OF refl]
      assms(2) [unfolded fits_def, THEN conjunct2, rule_format, OF that] by (simp only: map_append concat_append append_assoc)
  ultimately show ?thesis unfolding fits_def by blast
qed

lemma merges_append: "merges E ts v w \<Longrightarrow> merges E ss u v \<Longrightarrow> merges E (ss @ ts) u w"
proof (induction rule: merges.induct)
  case (merges_swap ts v w1 ks key w2)
  then show ?case using merges.merges_swap [of E "ss @ ts" u w1 ks key w2] by simp
qed (auto intro: merges.intros)

lemma compactGroup_merges:
  assumes "merge_env E S files part lvl K C" "world_ok S C w"
    and "set (tg_Files g) \<subseteq> set files" "\<exists>f \<in> set files. tg_TenantPrefix g = fst (groupOf f)"
    and run: "compactGroup E part g fp lvl w = (r, w')"
  shows "world_ok S C w' \<and> (\<exists>ss. merges E ss w w' \<and> fits files acc ss (map_sum id (\<lambda>gr. addResult gr acc) r))"
proof -
  note G = compactGroup_safe [OF assms]
  show ?thesis
  proof (cases "\<exists>res. r = Inr res \<and> gr_OutputKey res \<noteq> []")
    case True
    then obtain res where res: "r = Inr res" "gr_OutputKey res \<noteq> []" by blast
    obtain w1 w2 where v: "quiet E w w1" "swapped E (gr_InputKeys res) (gr_OutputKey res) w1 w2" "quiet E w2 w'"
      and ks: "set (gr_InputKeys res) \<subseteq> fi_Key ` set (tg_Files g)" using G res by auto
    have "merges E ([] @ [(gr_InputKeys res, gr_OutputKey res)]) w w'"
      using v merges.intros by metis
    moreover have "fits files acc ([] @ [(gr_InputKeys res, gr_OutputKey res)]) (map_sum id (\<lambda>gr. addResult gr acc) r)"
      using res ks assms(3) by (auto simp: fits_def addResult_def Let_def)
    ultimately show ?thesis using G by blast
  next
    case False
    then have "quiet E w w'" using G by (cases r) auto
    then have "merges E [] w w'" using merges.intros by metis
    moreover have "fits files acc [] (map_sum id (\<lambda>gr. addResult gr acc) r)"
      using False by (cases r) (auto simp: fits_def addResult_def Let_def)
    ultimately show ?thesis using G by blast
  qed
qed

lemma compactGroups_safe:
  assumes env: "merge_env E S files part lvl K C"
    and "world_ok S C w"
    and "\<forall>g \<in> set gs. set (tg_Files g) \<subseteq> set files \<and> (\<exists>f \<in> set files. tg_TenantPrefix g = fst (groupOf f))"
    and "compactGroups E part fp lvl gs acc w = (r, w')"
  shows "world_ok S C w' \<and> (\<exists>ss. merges E ss w w' \<and> fits files acc ss r)"
  using assms(2-)
proof (induction gs arbitrary: acc w)
  case Nil
  then have "fits files acc [] r" by (auto simp: fits_def)
  then show ?case using Nil merges_none by fastforce
next
  case (Cons g gs)
  obtain r1 w1 where c: "compactGroup E part g fp lvl w = (r1, w1)" by fastforce
  have g: "set (tg_Files g) \<subseteq> set files" "\<exists>f \<in> set files. tg_TenantPrefix g = fst (groupOf f)" using Cons.prems(2) by auto
  obtain ss where G: "world_ok S C w1" "merges E ss w w1"
      "fits files acc ss (map_sum id (\<lambda>gr. addResult gr acc) r1)"
    using compactGroup_merges [OF env Cons.prems(1) g c] by blast
  show ?case
  proof (cases r1)
    case (Inl e)
    then have "r = Inl e" "w' = w1" using Cons.prems(3) c by auto
    then show ?thesis using G by (auto simp: fits_def)
  next
    case (Inr gr)
    then have "compactGroups E part fp lvl gs (addResult gr acc) w1 = (r, w')" using Cons.prems(3) c by simp
    moreover have "\<forall>g \<in> set gs. set (tg_Files g) \<subseteq> set files \<and> (\<exists>f \<in> set files. tg_TenantPrefix g = fst (groupOf f))"
      using Cons.prems(2) by simp
    ultimately obtain ts where T: "world_ok S C w'" "merges E ts w1 w'"
      "fits files (addResult gr acc) ts r" using Cons.IH [OF G(1)] by blast
    have "fits files acc (ss @ ts) r" by (rule fits_append [OF _ T(3)]) (use G(3) Inr in simp)
    then show ?thesis using T(1) merges_append [OF T(2) G(2)] by blast
  qed
qed

lemma Compact_safe:
  assumes "merge_env E S files part (lvl + 1) K C" "world_ok S C w" "Compact E part files lvl w = (r, w')"
  shows "world_ok S C w' \<and> (\<exists>ss. merges E ss w w'
     \<and> (\<forall>(ks, key) \<in> set ss. set ks \<subseteq> fi_Key ` set files)
     \<and> (\<forall>res. r = Inr res \<longrightarrow> cr_InputFiles res = concat (map fst ss) \<and> cr_OutputFiles res = map snd ss))"
proof (cases "\<exists>e. r = Inl e \<and> w' = w")
  case True
  then show ?thesis using assms(2) merges_none [of E w] by (intro conjI exI [of _ "[]"]) auto
next
  case False
  let ?acc = "\<lparr>cr_InputFiles = [], cr_OutputFiles = [], cr_RowsMerged = 0, cr_BytesRead = 0, cr_BytesWritten = 0,
                  cr_OutputLevel = lvl + 1, cr_FencedFiles = []\<rparr>"
  obtain fp where "compactGroups E part fp (lvl + 1) (groupFilesByTenant files) ?acc w = (r, w')"
    using assms(3) False by (auto simp: Compact_def split: list.splits option.splits)
  from compactGroups_safe [OF assms(1,2) _ this] groups_of_files show ?thesis by (auto simp: fits_def)
qed

end
