(* ===== verification/CompactScenario.thy ===== *)
theory CompactScenario
  imports CompactorProofs ManScenario
begin

text \<open>
  An example merge, for the concrete instances of the properties: the two files of the example manifest hold
  three rows, which are plain numbers here, and are merged into one.
\<close>

text \<open>The first argument: uploads report an error. The second: they store the object all the same.\<close>

definition exEnv :: "bool \<Rightarrow> bool \<Rightarrow> (int list, int) cenv" where
  "exEnv putFails putLands =
     \<lparr>ce_mode = ModeLogs, ce_prefix = ''logs/'', ce_now = (\<lambda>_. 40), ce_ids = (\<lambda>_. ''5eed''), ce_others = (\<lambda>_ w. w),
      ce_getFails = (\<lambda>_. False), ce_putFails = (\<lambda>_. putFails), ce_putLands = (\<lambda>_. putLands), ce_delFails = (\<lambda>_. False),
      ce_unknown = (\<lambda>_. False), ce_rows = Some, ce_write = (\<lambda>rows _ _ _. Some rows), ce_traceShaped = (\<lambda>_. False),
      ce_severityText = (\<lambda>_. ''INFO''), ce_derivedSeverity = (\<lambda>_. []), ce_setSeverityText = (\<lambda>_ r. r), ce_repromoteLog = (\<lambda>r. r), ce_healTrace = None, ce_time = (\<lambda>r. r), ce_service = (\<lambda>_. []), ce_traceID = (\<lambda>_. []),
      ce_aggregates = (\<lambda>_. []), ce_traceIDHex = (\<lambda>_ _. False), ce_len = (\<lambda>d. int (length d)), ce_bloomBytes = (\<lambda>_. 0),
      ce_columnBytes = (\<lambda>_. []), ce_staticLevel = 3, ce_levelSchedule = [], ce_tenantLookup = None,
      ce_staticRowGroup = 1000, ce_rowGroupSchedule = []\<rparr>"

definition exFiles :: "fileInfo list" where "exFiles = [listedFile exA 7, listedFile exB 5]"

definition exContent :: "string \<Rightarrow> int list" where "exContent k = (if k = exA then [3, 1] else [2])"

definition exCWorld :: "int list cworld" where
  "exCWorld = \<lparr>cw_man = exMan, cw_objs = [(exA, [3, 1]), (exB, [2])], cw_fence = [], cw_draws = 0\<rparr>"

definition exOut :: string where "exOut = outputName ''1/2/logs/'' exPart 1 ''5eed''"

definition exRun :: "bool \<Rightarrow> bool \<Rightarrow> (cerror + compactResult) \<times> int list cworld" where
  "exRun a b = Compact (exEnv a b) exPart exFiles 0 exCWorld"

lemma exOut_new: "exOut \<noteq> exA" "exOut \<noteq> exB"
  by code_simp+

lemma exFiles_prefix: "f \<in> set exFiles \<Longrightarrow> fst (groupOf f) = ''1/2/logs/'' \<and> fi_Key f \<in> {exA, exB} \<and> fi_Key f \<noteq> []"
proof -
  have "fst (groupOf (listedFile exA 7)) = ''1/2/logs/''" "fst (groupOf (listedFile exB 5)) = ''1/2/logs/''" by code_simp+
  then show "f \<in> set exFiles \<Longrightarrow> fst (groupOf f) = ''1/2/logs/'' \<and> fi_Key f \<in> {exA, exB} \<and> fi_Key f \<noteq> []"
    by (auto simp: exFiles_def exKeys)
qed

lemma ex_merge_env: "merge_env (exEnv a b) {exA, exB} exFiles exPart 1 {exOut} exContent"
  using exFiles_prefix exOut_new by (fastforce simp: merge_env_def polite_def outputPrefix_def exEnv_def exOut_def)

lemma exCWorld_registered: "registered exCWorld = {exA, exB}"
  by (simp add: registered_def exCWorld_def exMan_byKey)

lemma ex_world_ok: "world_ok {exA, exB} exContent exCWorld"
  using exMan_ok unfolding world_ok_def exCWorld_registered by (simp add: exCWorld_def exContent_def exFiles_def)

lemma exRun_ok: "map_sum id (\<lambda>r. (cr_InputFiles r, cr_OutputFiles r)) (fst (exRun False False)) = Inr ([exA, exB], [exOut])"
  by code_simp

lemma exRun_failed:
  "fst (exRun True True) = Inl EUpload" "mkeys (m_byKey (cw_man (snd (exRun True True)))) = [exA, exB]"
  "cw_objs (snd (exRun True True)) = [(exA, [3, 1]), (exB, [2]), (exOut, [1, 2, 3])]"
  by code_simp+

text \<open>An upload that reports an error but has stored its object: the claim is released, the next refresh adopts the object,
  and every row is served twice.\<close>

definition exAdopted :: "int list cworld" where
  "exAdopted = onMan (\<lambda>m. snd (applyLocked shrinkNotChecked 60 (listingFiles [(exA, 7), (exB, 5), (exOut, 12)]) 50 [] m))
     (snd (exRun True True))"

lemma exAdopted_registered: "mkeys (m_byKey (cw_man exAdopted)) = [exA, exB, exOut]"
  by code_simp

end
