(* ===== verification/PlannerProofs.thy ===== *)
theory PlannerProofs
  imports Planner
begin

text \<open>
  What the planner guarantees: the tenant groups, the majority schema, the plan of one group, and the
  plans of a partition, which are those of a reference that plans each group on its own.
\<close>

section \<open>Tenant groups and tenant keys\<close>

lemma cutSlash_Some: "cutSlash s = Some (a, r) \<longleftrightarrow> s = a @ CHR ''/'' # r \<and> CHR ''/'' \<notin> set a"
proof (induction s arbitrary: a)
  case (Cons c s)
  note IH = Cons.IH
  show ?case
  proof (cases a)
    case (Cons x xs)
    then show ?thesis using IH [of xs] by auto
  qed auto
qed simp

lemma cutSlash_append: "CHR ''/'' \<notin> set a \<Longrightarrow> cutSlash (a @ CHR ''/'' # r) = Some (a, r)"
  by (simp add: cutSlash_Some)

lemma digit_val: "digit c \<Longrightarrow> (0 :: int) \<le> of_char c - 48 \<and> (of_char c - 48 :: int) \<le> 9"
proof -
  assume "digit c"
  then have "48 \<le> (of_char c :: nat)" "(of_char c :: nat) \<le> 57" by (simp_all add: digit_def byteIn_def less_eq_char_def)
  then have "int 48 \<le> int (of_char c)" "int (of_char c) \<le> int 57" by (simp_all only: of_nat_le_iff)
  moreover have "int (of_char c) = of_char c" by (rule of_nat_of_char)
  ultimately show ?thesis by linarith
qed

lemma digits_snoc: "digits (s @ [c]) = digits s * 10 + (of_char c - 48)"
  by (simp add: digits_def)

lemma digits_bound: "list_all digit s \<Longrightarrow> 0 \<le> digits s \<and> digits s < 10 ^ length s"
proof (induction s rule: rev_induct)
  case (snoc c s)
  then show ?case using digit_val [of c] by (auto simp: digits_snoc)
qed (simp add: digits_def)

lemma word_of_int_of_char: "word_of_int (of_char c) = (of_char c :: 64 word)"
  using of_int_of_char [of c, where 'a = "64 word"] by simp

text \<open>Ten digits fit an unsigned 64-bit integer, so the loop of \<open>isUint32\<close> computes the value.\<close>

lemma word_digits:
  assumes "list_all digit s" "length s \<le> 10"
  shows "uint (fold (\<lambda>c n. n * 10 + (of_char c - 48)) s (0 :: 64 word)) = digits s"
  using assms
proof (induction s rule: rev_induct)
  case (snoc c s)
  let ?n = "fold (\<lambda>c n. n * 10 + (of_char c - 48)) s (0 :: 64 word)"
  have IH: "uint ?n = digits s" using snoc by simp
  have e: "fold (\<lambda>c n. n * 10 + (of_char c - 48)) (s @ [c]) (0 :: 64 word) = word_of_int (digits s * 10 + (of_char c - 48))"
    by (simp add: IH [symmetric] word_of_int_of_char)
  have "0 \<le> digits (s @ [c])" "digits (s @ [c]) < 10 ^ length (s @ [c])" using digits_bound [of "s @ [c]"] snoc.prems by auto
  moreover have "(10 :: int) ^ length (s @ [c]) \<le> 10 ^ 10" using snoc.prems(2) by (intro power_increasing) auto
  ultimately show ?case unfolding e digits_snoc [symmetric] by (simp add: uint_word_of_int)
qed (simp add: digits_def)

lemma isUint32_iff: "isUint32 s \<longleftrightarrow> length s \<le> 10 \<and> parseUint32 s \<noteq> None"
  using word_digits [of s] by (auto simp: isUint32_def parseUint32_def word_le_def)

text \<open>The group prefix of a key names the tenant that \<open>parseTenantFromKey\<close> reads from the key.\<close>

lemma group_prefix_tenant:
  assumes "CompactionGroupPrefix key \<noteq> []"
  shows "parseTenantFromKey (CompactionGroupPrefix key) = parseTenantFromKey key" "parseTenantFromKey key \<noteq> None"
proof -
  obtain a r1 p r2 m r3 where k: "cutSlash key = Some (a, r1)" "cutSlash r1 = Some (p, r2)" "cutSlash r2 = Some (m, r3)"
    "isUint32 a" "isUint32 p" "CompactionGroupPrefix key = a @ CHR ''/'' # p @ CHR ''/'' # m @ ''/''"
    using assms by (auto simp: CompactionGroupPrefix_def split: option.splits prod.splits if_splits)
  have "CHR ''/'' \<notin> set a" "CHR ''/'' \<notin> set p" using k(1,2) by (auto simp: cutSlash_Some)
  then have "cutSlash (CompactionGroupPrefix key) = Some (a, p @ CHR ''/'' # m @ ''/'')"
    "cutSlash (p @ CHR ''/'' # m @ ''/'') = Some (p, m @ ''/'')"
    using k(6) by (simp_all add: cutSlash_append)
  moreover obtain x y where "parseUint32 a = Some x" "parseUint32 p = Some y" using k(4,5) isUint32_iff by auto
  ultimately show "parseTenantFromKey (CompactionGroupPrefix key) = parseTenantFromKey key" "parseTenantFromKey key \<noteq> None"
    by (simp_all add: parseTenantFromKey_def k(1,2))
qed

lemma group_limits:
  assumes "CompactionGroupPrefix key \<noteq> []"
  shows "limits f (CompactionGroupPrefix key) = limits f key"
  using group_prefix_tenant(1) [OF assms]
  by (cases "lf_Detector f") (simp_all add: limits_eq effectiveRules_def rulesForKey_def)

text \<open>The planner's view of a file agrees with the check before a merge, when the key has a tenant group or no
  tenant has rules of its own.\<close>

lemma view_agrees:
  assumes "CompactionGroupPrefix (fi_Key fi) \<noteq> [] \<or> (\<forall>d. lf_Detector f = Some d \<longrightarrow> sd_perTenant d = [])"
    and "\<forall>d. lf_Detector f = Some d \<longrightarrow> wfmap (sd_cache d)"
    and "sameView (freezeViewOf (Some f)) v"
  shows "viewClassFrozen v fi \<or> frozenAt (groupLimits v (CompactionGroupPrefix (fi_Key fi))) (timeSub now pt)
    \<longleftrightarrow> fst (frozen (Some f) fi pt now)"
proof (cases "lf_Detector f")
  case None
  then have "groupLimits v (CompactionGroupPrefix (fi_Key fi)) = limits f (fi_Key fi)"
    unfolding sameView_eq [OF assms(3)]
    by (simp add: groupLimits_def freezeViewOf_def Let_def limits_def)
  moreover have "viewClassFrozen v fi \<longleftrightarrow> classFrozen fi"
    unfolding sameView_eq [OF assms(3)] using None by (simp add: freezeViewOf_def viewClassFrozen_def Let_def)
  ultimately show ?thesis using None by (simp add: frozen_def)
next
  case (Some d)
  have "groupLimits v (CompactionGroupPrefix (fi_Key fi)) = limits f (fi_Key fi)"
  proof (cases "sd_perTenant d = []")
    case True
    then have "rulesForKey d key = sd_rules d" for key by (simp add: rulesForKey_def split: option.split)
    then show ?thesis unfolding sameView_eq [OF assms(3)] using Some True
      by (simp add: groupLimits_def freezeViewOf_def Let_def HasTenantRules_def limits_def
          FirstGlobalNonRewritableTransition_def FirstNonRewritableTransitionFor_def)
  next
    case False
    then have "CompactionGroupPrefix (fi_Key fi) \<noteq> []" using assms(1) Some by auto
    from group_limits [OF this] this show ?thesis
      unfolding sameView_eq [OF assms(3)] using Some False
      by (simp add: groupLimits_def freezeViewOf_def Let_def HasTenantRules_def)
  qed
  moreover have "fi_Key fi \<in> set (CachedNonRewritableKeys d) \<longleftrightarrow>
      (\<exists>class. GetCached d (fi_Key fi) = Some class \<and> \<not> CanRewrite class)"
    using assms(2) Some by (force simp: CachedNonRewritableKeys_def GetCached_def)
  then have "viewClassFrozen v fi \<longleftrightarrow> classFrozen fi \<or> (\<exists>class. GetCached d (fi_Key fi) = Some class \<and> \<not> CanRewrite class)"
    unfolding sameView_eq [OF assms(3)] using Some by (auto simp: freezeViewOf_def viewClassFrozen_def Let_def)
  ultimately show ?thesis using Some by (auto simp: frozen_def split: option.splits)
qed

section \<open>The majority schema\<close>

definition fpCount :: "(fileInfo \<Rightarrow> bool) \<Rightarrow> fileInfo list \<Rightarrow> string \<Rightarrow> nat" where
  "fpCount keep files fp = length (filter (\<lambda>f. keep f \<and> fi_SchemaFingerprint f = fp) files)"

lemma fpCounts_ok:
  "wfmap (fpCounts keep files)"
  "mget (fpCounts keep files) fp = (if fpCount keep files fp = 0 then None else Some (fpCount keep files fp))"
proof -
  have "wfmap (fpCounts keep files) \<and>
    mget (fpCounts keep files) fp = (if fpCount keep files fp = 0 then None else Some (fpCount keep files fp))"
  proof (induction files arbitrary: fp rule: rev_induct)
    case (snoc f files)
    have "fpCounts keep (files @ [f]) = (if keep f
        then mput (fi_SchemaFingerprint f) (Suc (case mget (fpCounts keep files) (fi_SchemaFingerprint f) of None \<Rightarrow> 0 | Some n \<Rightarrow> n))
               (fpCounts keep files)
        else fpCounts keep files)"
      by (simp add: fpCounts_def)
    moreover note snoc.IH [of fp] snoc.IH [of "fi_SchemaFingerprint f"]
    ultimately show ?case by (auto simp: fpCount_def go_map wfmap_mput simp del: map_of_eq_Some_iff)
  qed (simp add: fpCounts_def fpCount_def)
  then show "wfmap (fpCounts keep files)"
    "mget (fpCounts keep files) fp = (if fpCount keep files fp = 0 then None else Some (fpCount keep files fp))"
    by blast+
qed

text \<open>The order the loop maximises: the count, then the current schema, then the smaller fingerprint.\<close>

definition better :: "string \<Rightarrow> string \<times> nat \<Rightarrow> string \<times> nat \<Rightarrow> bool" where
  "better cur a b \<longleftrightarrow> snd b < snd a \<or> snd a = snd b \<and> fst b \<noteq> cur \<and> (fst a = cur \<or> fst a < fst b)"

lemma pickBest_eq: "pickBest cur fc b = (if better cur fc b then fc else b)"
  by (auto simp: pickBest_def better_def split: prod.splits)

lemma better_trans: "better cur a b \<Longrightarrow> better cur b c \<Longrightarrow> better cur a c"
  unfolding better_def by (metis order_less_trans)

lemma better_total: "better cur a b \<or> a = b \<or> better cur b a"
  unfolding better_def by (metis linorder_neqE prod.collapse)

lemma better_irrefl: "\<not> better cur a a"
  by (auto simp: better_def)

lemma fold_pickBest:
  "fold (pickBest cur) cs b \<in> insert b (set cs) \<and> (\<forall>x \<in> insert b (set cs). \<not> better cur x (fold (pickBest cur) cs b))"
proof (induction cs arbitrary: b)
  case (Cons c cs)
  let ?b = "pickBest cur c b" and ?r = "fold (pickBest cur) cs (pickBest cur c b)"
  have IH: "?r \<in> insert ?b (set cs)" "\<And>x. x \<in> insert ?b (set cs) \<Longrightarrow> \<not> better cur x ?r" using Cons.IH [of ?b] by blast+
  have b: "?b \<in> {b, c}" by (simp add: pickBest_eq)
  have "\<not> better cur x ?r" if "x \<in> {b, c}" for x
  proof
    assume x: "better cur x ?r"
    then have "x \<noteq> ?b" using IH(2) by blast
    then have "better cur ?b x" using that better_total [of cur b c] by (auto simp: pickBest_eq split: if_splits)
    then show False using better_trans [OF _ x] IH(2) [of ?b] by blast
  qed
  then show ?case using IH b by auto
qed (simp add: better_irrefl)

text \<open>The majority: no schema has more files, and among those with as many it is the current one or else the
  least. At most one fingerprint satisfies this, so the choice does not depend on any order.\<close>

definition isMajority :: "string \<Rightarrow> (fileInfo \<Rightarrow> bool) \<Rightarrow> fileInfo list \<Rightarrow> string \<Rightarrow> bool" where
  "isMajority cur keep files best \<longleftrightarrow> 0 < fpCount keep files best
     \<and> (\<forall>fp. fpCount keep files fp < fpCount keep files best
          \<or> fpCount keep files fp = fpCount keep files best \<and> (best = cur \<or> fp \<noteq> cur \<and> best \<le> fp) \<or> fp = best)"

lemma isMajority_unique: "isMajority cur keep files a \<Longrightarrow> isMajority cur keep files b \<Longrightarrow> a = b"
  unfolding isMajority_def by (metis order_antisym less_asym less_irrefl)

lemma majority_any_order:
  assumes "set cs = set (fpCounts keep files)" "\<exists>f \<in> set files. keep f"
  shows "isMajority cur keep files (fst (fold (pickBest cur) cs ([], 0)))"
proof -
  obtain best n where r: "fold (pickBest cur) cs ([], 0) = (best, n)" by fastforce
  note F = fold_pickBest [of cur cs "([], 0)", unfolded r assms(1)]
  have mem: "(fp, c) \<in> set (fpCounts keep files) \<longleftrightarrow> c = fpCount keep files fp \<and> 0 < c" for fp c
    using mget_in [OF fpCounts_ok(1), of fp c keep files] fpCounts_ok(2) [of keep files fp] by auto
  obtain f where f: "f \<in> set files" "keep f" using assms(2) by blast
  let ?fp = "fi_SchemaFingerprint f"
  have "0 < fpCount keep files ?fp" using f by (auto simp: fpCount_def filter_empty_conv)
  then have "(?fp, fpCount keep files ?fp) \<in> set (fpCounts keep files)" by (simp add: mem)
  then have "\<not> better cur (?fp, fpCount keep files ?fp) (best, n)" using F by blast
  then have "0 < n" using \<open>0 < fpCount keep files ?fp\<close> by (auto simp: better_def)
  then have b: "n = fpCount keep files best" "0 < fpCount keep files best" using F mem [of best n] by auto
  have "fpCount keep files fp < n \<or> fpCount keep files fp = n \<and> (best = cur \<or> fp \<noteq> cur \<and> best \<le> fp) \<or> fp = best" for fp
  proof (cases "fpCount keep files fp = 0")
    case False
    then have "(fp, fpCount keep files fp) \<in> set (fpCounts keep files)" by (simp add: mem)
    then have "\<not> better cur (fp, fpCount keep files fp) (best, n)" using F by blast
    then show ?thesis by (auto simp: better_def not_less)
  qed (use \<open>0 < n\<close> in simp)
  then show ?thesis using b r by (simp add: isMajority_def)
qed

lemma majority_ok: "\<exists>f \<in> set files. keep f \<Longrightarrow> isMajority cur keep files (majorityFingerprint files cur keep)"
  unfolding majorityFingerprint_def by (rule majority_any_order [OF refl])

lemma majority_perm:
  assumes "mset files = mset files'"
  shows "majorityFingerprint files cur keep = majorityFingerprint files' cur keep"
proof (cases "\<exists>f \<in> set files. keep f")
  case True
  have "fpCount keep files fp = fpCount keep files' fp" for fp
    unfolding fpCount_def using arg_cong [OF assms, of "\<lambda>M. size (filter_mset (\<lambda>f. keep f \<and> fi_SchemaFingerprint f = fp) M)"]
    by (simp flip: mset_filter)
  then have "isMajority cur keep files' = isMajority cur keep files" by (simp add: isMajority_def fun_eq_iff)
  moreover have "\<exists>f \<in> set files'. keep f" using True mset_eq_setD [OF assms] by simp
  ultimately show ?thesis
    using isMajority_unique [OF majority_ok [OF True]] majority_ok [of files' keep cur] by simp
next
  case False
  then have "fpCounts keep files = []" "fpCounts keep files' = []"
    using mset_eq_setD [OF assms] by (auto simp: fpCounts_def intro!: fold_invariant [where P = "\<lambda>m. m = []" and Q = "\<lambda>f. \<not> keep f"])
  then show ?thesis by (simp add: majorityFingerprint_def)
qed

section \<open>The plan of a group\<close>

lemma topLevel_bound: "f \<in> set sel \<Longrightarrow> fi_CompactionLevel f \<le> topLevel sel"
proof -
  have "(\<forall>f \<in> set sel. fi_CompactionLevel f \<le> fold (\<lambda>f top. if fi_CompactionLevel f > top then fi_CompactionLevel f else top) sel n)
    \<and> n \<le> fold (\<lambda>f top. if fi_CompactionLevel f > top then fi_CompactionLevel f else top) sel n" for n
    by (induction sel arbitrary: n) (auto, (meson order_trans linorder_not_le less_imp_le)+)
  then show "f \<in> set sel \<Longrightarrow> fi_CompactionLevel f \<le> topLevel sel" by (simp add: topLevel_def)
qed

text \<open>What every plan of a group satisfies: at least two files, all of one schema, none mature unless the level
  thresholds or a stale schema ask for it, at one level unless it is a rollup.\<close>

definition plan_ok :: "levelPolicy \<Rightarrow> fileInfo list \<Rightarrow> int \<Rightarrow> string \<Rightarrow> bool \<Rightarrow> int \<times> fileInfo list \<times> reason \<Rightarrow> bool" where
  "plan_ok p files age cur sizeOK plan \<longleftrightarrow> (case plan of (lvl, sel, rsn) \<Rightarrow>
     2 \<le> length sel \<and> subseq sel files \<and> lp_MinAge p \<le> age
     \<and> (\<exists>fp. \<forall>f \<in> set sel. fi_SchemaFingerprint f = fp \<and> (rsn = reasonStale \<longrightarrow> fp \<noteq> cur))
     \<and> (\<forall>f \<in> set sel. fi_CompactionLevel f \<le> lvl \<and> (rsn \<noteq> reasonRollup \<longrightarrow> fi_CompactionLevel f = lvl))
     \<and> (rsn = reasonRollup \<or> rsn = reasonFragmented \<longrightarrow> (\<forall>f \<in> set sel. fi_Size f < MatureObjectBytes))
     \<and> (rsn = reasonRollup \<longrightarrow> 0 < rollupAge p \<and> rollupAge p \<le> age)
     \<and> (\<not> sizeOK \<longrightarrow> rsn = reasonStale))"

lemma subseq_filters: "subseq (SelectFiles files l fp) files" "subseq (nonMature files) files" "subseq (rollupFiles files cur) files"
  by (auto simp: SelectFiles_def nonMature_def rollupFiles_def Let_def intro: subseq_filter_left
      subseq_order.order_trans [OF subseq_filter_left subseq_filter_left])

lemma planHint_ok:
  assumes "planHint files cur fragOK = Some plan" "lp_MinAge p \<le> age" "sizeOK \<longleftrightarrow> fragOK"
  shows "plan_ok p files age cur sizeOK plan"
proof -
  obtain lvl where l: "recompactionLevel files cur = Some lvl" using assms(1) by (auto simp: planHint_def split: option.splits)
  let ?sel = "SelectFiles files lvl (MajoritySchemaFingerprint files lvl)"
  have sel: "\<forall>f \<in> set ?sel. fi_CompactionLevel f = lvl \<and> fi_SchemaFingerprint f = MajoritySchemaFingerprint files lvl"
    by (simp add: SelectFiles_def)
  show ?thesis
  proof (cases "list_ex (\<lambda>f. cur \<noteq> [] \<and> fi_SchemaFingerprint f \<noteq> cur) ?sel")
    case True
    then have "plan = (lvl, ?sel, reasonStale)" "2 \<le> length ?sel" using assms(1) l by (auto simp: planHint_def Let_def split: if_splits)
    moreover have "MajoritySchemaFingerprint files lvl \<noteq> cur" using True sel by (auto simp: list_ex_iff)
    ultimately show ?thesis using sel assms(2) subseq_filters(1) by (auto simp: plan_ok_def)
  next
    case False
    then have r: "plan = (lvl, nonMature ?sel, reasonFragmented)" "2 \<le> length (nonMature ?sel)" "fragOK"
      using assms(1) l by (auto simp: planHint_def Let_def split: if_splits)
    moreover have "subseq (nonMature ?sel) files" using subseq_order.order_trans [OF subseq_filters(2) subseq_filters(1)] .
    ultimately show ?thesis using sel assms(2,3) by (auto simp: plan_ok_def nonMature_def)
  qed
qed

lemma guarded: "(if a then None else if b then None else r) = Some w \<Longrightarrow> \<not> a \<and> \<not> b \<and> r = Some w"
  by (simp split: if_split_asm)

lemma first_choice:
  assumes "(if \<not> c then h1 else if d then Some x else if e then Some y else if g then Some z else h2) = Some w"
  shows "\<not> c \<and> h1 = Some w \<or> c \<and> d \<and> w = x \<or> c \<and> e \<and> w = y \<or> c \<and> g \<and> w = z \<or> c \<and> h2 = Some w"
  using assms by (simp split: if_split_asm)

lemma planGroup_ok:
  assumes "planGroup p files pt now cur sizeOK = Some plan"
  shows "plan_ok p files (timeSub now pt) cur sizeOK plan"
proof -
  let ?age = "timeSub now pt"
  note G = guarded [OF assms [unfolded planGroup_def Let_def]]
  then have age: "lp_MinAge p \<le> ?age" by (simp only: not_less)
  from first_choice [OF G [THEN conjunct2, THEN conjunct2]] show ?thesis
  proof (elim disjE conjE)
    assume "\<not> sizeOK" "planHint files cur False = Some plan"
    then show ?thesis using planHint_ok [OF _ age, of files cur False plan sizeOK] by simp
  next
    assume "plan = (0, SelectFiles files 0 (MajoritySchemaFingerprint files 0), reasonL0Count)"
      "length (SelectFiles files 0 (MajoritySchemaFingerprint files 0)) \<ge> 2" "sizeOK"
    then show ?thesis using age subseq_filters(1) by (auto simp: plan_ok_def SelectFiles_def)
  next
    assume "plan = (1, SelectFiles files 1 (MajoritySchemaFingerprint files 1), reasonL1Count)"
      "length (SelectFiles files 1 (MajoritySchemaFingerprint files 1)) \<ge> 2" "sizeOK"
    then show ?thesis using age subseq_filters(1) by (auto simp: plan_ok_def SelectFiles_def)
  next
    assume 4: "plan = (topLevel (rollupFiles files cur), rollupFiles files cur, reasonRollup)" "length (rollupFiles files cur) \<ge> 2"
      "sizeOK" "rollupAge p > 0" "?age \<ge> rollupAge p"
    have "\<forall>f \<in> set (rollupFiles files cur). fi_SchemaFingerprint f = majorityFingerprint (nonMature files) cur (\<lambda>f. True)
        \<and> fi_Size f < MatureObjectBytes"
      by (simp add: rollupFiles_def nonMature_def Let_def)
    then show ?thesis using 4 age subseq_filters(3) topLevel_bound by (auto simp: plan_ok_def)
  next
    assume "sizeOK" "planHint files cur True = Some plan"
    then show ?thesis using planHint_ok [OF _ age, of files cur True plan sizeOK] by simp
  qed
qed

section \<open>The plans of a partition\<close>

text \<open>The files of a group that are not kept out.\<close>

definition groupFiles :: "planner \<Rightarrow> fileInfo list \<Rightarrow> groupKey \<Rightarrow> fileInfo list" where
  "groupFiles pl files gk = filter (\<lambda>f. \<not> skip pl f \<and> groupOf f = gk) files"

lemma counts_ok:
  "wfmap (fst (fold (countStep pl) files ([], 0)))"
  "mget (fst (fold (countStep pl) files ([], 0))) gk =
     (if groupFiles pl files gk = [] then None else Some (int (length (groupFiles pl files gk))))"
proof -
  have "wfmap (fst (fold (countStep pl) files ([], 0))) \<and>
    mget (fst (fold (countStep pl) files ([], 0))) gk =
     (if groupFiles pl files gk = [] then None else Some (int (length (groupFiles pl files gk))))"
  proof (induction files arbitrary: gk rule: rev_induct)
    case (snoc f files)
    obtain counts n where c: "fold (countStep pl) files ([], 0) = (counts, n)" by fastforce
    have "fst (fold (countStep pl) (files @ [f]) ([], 0)) = (if skip pl f then counts
        else mput (groupOf f) ((case mget counts (groupOf f) of None \<Rightarrow> 0 | Some n \<Rightarrow> n) + 1) counts)"
      by (simp add: c countStep_def skip_def)
    moreover note snoc.IH [of gk] snoc.IH [of "groupOf f"]
    ultimately show ?case by (auto simp: c groupFiles_def go_map wfmap_mput simp del: map_of_eq_Some_iff)
  qed (simp add: groupFiles_def)
  then show "wfmap (fst (fold (countStep pl) files ([], 0)))"
    "mget (fst (fold (countStep pl) files ([], 0))) gk =
     (if groupFiles pl files gk = [] then None else Some (int (length (groupFiles pl files gk))))" by blast+
qed

lemma decide_ok:
  assumes "fold (decideGroup age) counts (v, ok, saws) = (v', ok', saws')" "view_ok v" "wfmap ok" "wfmap counts"
  shows "view_ok v'" "sameView v v'" "wfmap ok'"
    "mget ok' gk = (case mget counts gk of None \<Rightarrow> mget ok gk
       | Some n \<Rightarrow> if \<not> frozenAt (groupLimits v (fst gk)) age \<and> 2 \<le> n
                 then Some (sizeMergesAt (groupLimits v (fst gk)) age) else mget ok gk)"
proof -
  have "view_ok v' \<and> sameView v v' \<and> wfmap ok' \<and>
    mget ok' gk = (case mget counts gk of None \<Rightarrow> mget ok gk
       | Some n \<Rightarrow> if \<not> frozenAt (groupLimits v (fst gk)) age \<and> 2 \<le> n
                 then Some (sizeMergesAt (groupLimits v (fst gk)) age) else mget ok gk)"
    using assms
  proof (induction counts arbitrary: v ok saws)
    case (Cons c counts)
    obtain g n where c: "c = (g, n)" by fastforce
    obtain v1 ok1 saws1 where d: "decideGroup age c (v, ok, saws) = (v1, ok1, saws1)" using prod_cases3 by blast
    note L = limitsFor_ok [OF Cons.prems(2), of "fst g"]
    have v1: "v1 = snd (limitsFor (fst g) v)"
      and ok1: "ok1 = (if \<not> frozenAt (groupLimits v (fst g)) age \<and> 2 \<le> n
        then mput g (sizeMergesAt (groupLimits v (fst g)) age) ok else ok)"
      using d L(1) by (auto simp: decideGroup_def c Let_def split: prod.splits if_splits)
    have "fold (decideGroup age) counts (v1, ok1, saws1) = (v', ok', saws')" using Cons.prems(1) d by simp
    moreover have sv: "view_ok v1" "sameView v v1" using L v1 by simp_all
    have gl: "groupLimits v1 (fst gk) = groupLimits v (fst gk)" by (rule sameView_eq(1) [OF sv(2)])
    moreover note sv
    moreover have "wfmap ok1" unfolding ok1 using Cons.prems(3) by (simp add: wfmap_mput)
    ultimately have IH: "view_ok v' \<and> sameView v1 v' \<and> wfmap ok' \<and>
      mget ok' gk = (case mget counts gk of None \<Rightarrow> mget ok1 gk
       | Some n \<Rightarrow> if \<not> frozenAt (groupLimits v (fst gk)) age \<and> 2 \<le> n
                 then Some (sizeMergesAt (groupLimits v (fst gk)) age) else mget ok1 gk)"
      using Cons.IH [of v1 ok1 saws1] Cons.prems(4) unfolding gl by simp
    have "mget counts g = None" using Cons.prems(4) c by (simp add: map_of_eq_None_iff)
    then show ?case using IH sameView_trans [OF \<open>sameView v v1\<close>]
      by (auto simp: c ok1 go_map simp del: map_of_eq_Some_iff split: option.splits if_splits)
  qed simp
  then show "view_ok v'" "sameView v v'" "wfmap ok'"
    "mget ok' gk = (case mget counts gk of None \<Rightarrow> mget ok gk
       | Some n \<Rightarrow> if \<not> frozenAt (groupLimits v (fst gk)) age \<and> 2 \<le> n
                 then Some (sizeMergesAt (groupLimits v (fst gk)) age) else mget ok gk)" by blast+
qed

lemma members_ok:
  assumes "wfmap sizeOK"
  shows "wfmap (planMembers pl sizeOK files)"
    "mget (planMembers pl sizeOK files) gk = map_option (\<lambda>ok. groupFiles pl files gk) (mget sizeOK gk)"
proof -
  have init: "wfmap (map (\<lambda>(gk, ok). (gk, [] :: fileInfo list)) sizeOK)" using assms by (simp add: o_def case_prod_unfold)
  have get: "mget (map (\<lambda>(gk, ok). (gk, [] :: fileInfo list)) sizeOK) gk = map_option (\<lambda>ok. []) (mget sizeOK gk)" for gk
    by (induction sizeOK) auto
  have "wfmap (planMembers pl sizeOK files) \<and>
    mget (planMembers pl sizeOK files) gk = map_option (\<lambda>ok. groupFiles pl files gk) (mget sizeOK gk)"
  proof (induction files arbitrary: gk rule: rev_induct)
    case (snoc f files)
    let ?m = "planMembers pl sizeOK files"
    have "planMembers pl sizeOK (files @ [f]) = memberStep pl f ?m" by (simp add: planMembers_def)
    then show ?case using snoc.IH [of gk] snoc.IH [of "groupOf f"]
      by (auto simp: memberStep_def groupFiles_def go_map wfmap_mput simp del: map_of_eq_Some_iff split: option.splits)
  qed (use init get in \<open>simp add: planMembers_def groupFiles_def\<close>)
  then show "wfmap (planMembers pl sizeOK files)"
    "mget (planMembers pl sizeOK files) gk = map_option (\<lambda>ok. groupFiles pl files gk) (mget sizeOK gk)" by blast+
qed

text \<open>The reference: plan every group on its own, unless its tenant's data is frozen.\<close>

definition refPlans :: "planner \<Rightarrow> string \<Rightarrow> fileInfo list \<Rightarrow> int \<Rightarrow> mergePlan set" where
  "refPlans pl part files pt =
     {\<lparr>mp_partition = part, mp_group = pre @ ''|'' @ bucket, mp_tenant = fairShareTenant pre, mp_level = level,
       mp_files = selected, mp_reason = rsn, mp_time = pt, mp_bytes = sum_list (map fi_Size selected)\<rparr>
      | pre bucket level selected rsn.
        \<not> frozenAt (groupLimits (pl_freeze pl) pre) (timeSub (pl_now pl) pt)
        \<and> planGroup (pl_policy pl) (groupFiles pl files (pre, bucket)) pt (pl_now pl) (pl_currentFP pl)
            (sizeMergesAt (groupLimits (pl_freeze pl) pre) (timeSub (pl_now pl) pt)) = Some (level, selected, rsn)}"

lemma refPlans_planned:
  assumes "q \<in> refPlans pl part files pt"
  shows "\<exists>gk ok. plan_ok (pl_policy pl) (groupFiles pl files gk) (timeSub (pl_now pl) pt) (pl_currentFP pl) ok
      (mp_level q, mp_files q, mp_reason q)
    \<and> \<not> frozenAt (groupLimits (pl_freeze pl) (fst gk)) (timeSub (pl_now pl) pt) \<and> mp_partition q = part \<and> mp_time q = pt
    \<and> (ok \<longleftrightarrow> sizeMergesAt (groupLimits (pl_freeze pl) (fst gk)) (timeSub (pl_now pl) pt))
    \<and> mp_tenant q = fairShareTenant (fst gk)"
proof -
  obtain pre bucket level sel rsn where
    q: "q = \<lparr>mp_partition = part, mp_group = pre @ ''|'' @ bucket, mp_tenant = fairShareTenant pre, mp_level = level,
       mp_files = sel, mp_reason = rsn, mp_time = pt, mp_bytes = sum_list (map fi_Size sel)\<rparr>"
    and fz: "\<not> frozenAt (groupLimits (pl_freeze pl) pre) (timeSub (pl_now pl) pt)"
    and g: "planGroup (pl_policy pl) (groupFiles pl files (pre, bucket)) pt (pl_now pl) (pl_currentFP pl)
        (sizeMergesAt (groupLimits (pl_freeze pl) pre) (timeSub (pl_now pl) pt)) = Some (level, sel, rsn)"
    using assms unfolding refPlans_def by auto
  show ?thesis
    by (rule exI [of _ "(pre, bucket)"], rule exI [of _ "sizeMergesAt (groupLimits (pl_freeze pl) pre) (timeSub (pl_now pl) pt)"])
      (use fz planGroup_ok [OF g] in \<open>simp add: q\<close>)
qed

lemma planGroup_length:
  assumes "planGroup p files pt now cur ok = Some x"
  shows "2 \<le> length files"
  using guarded [OF assms [unfolded planGroup_def Let_def]] by linarith

lemma skip_cong: "sameView (pl_freeze pl) v \<Longrightarrow> skip (pl\<lparr>pl_freeze := v\<rparr>) = skip pl"
  by (auto simp: fun_eq_iff skip_def heldOrFenced_def sameView_eq)

lemma members_Nil: "planMembers pl [] files = []"
  unfolding planMembers_def by (induction files) (simp_all add: memberStep_def)

lemma concat_keys:
  assumes "distinct (map fst xs)" "\<And>x. x \<in> set xs \<Longrightarrow> F x = [] \<or> (\<exists>y. F x = [y] \<and> P (fst x) y)"
  shows "\<exists>ks. distinct ks \<and> set ks \<subseteq> fst ` set xs \<and> list_all2 P ks (concat (map F xs))"
  using assms
proof (induction xs)
  case (Cons x xs)
  then obtain ks where ks: "distinct ks" "set ks \<subseteq> fst ` set xs" "list_all2 P ks (concat (map F xs))" by auto
  show ?case
  proof (cases "F x = []")
    case True
    then show ?thesis using ks by auto
  next
    case False
    then obtain y where "F x = [y]" "P (fst x) y" using Cons.prems(2) [of x] by auto
    then show ?thesis using ks Cons.prems(1) by (intro exI [of _ "fst x # ks"]) auto
  qed
qed simp

lemma planPart_exact:
  assumes "view_ok (pl_freeze pl)" "planPart pl part files pt = (plans, saws, pl')"
  shows "set plans = refPlans pl part files pt"
    "view_ok (pl_freeze pl')" "sameView (pl_freeze pl) (pl_freeze pl')" "pl' = pl\<lparr>pl_freeze := pl_freeze pl'\<rparr>"
    "\<exists>gks. distinct gks \<and> list_all2 (\<lambda>gk p. \<forall>f \<in> set (mp_files p). groupOf f = gk) gks plans"
proof -
  let ?age = "timeSub (pl_now pl) pt" and ?v = "pl_freeze pl"
  obtain counts n where c: "fold (countStep pl) files ([], 0) = (counts, n)" by fastforce
  obtain v' sizeOK saws' where d: "fold (decideGroup ?age) counts (?v, [], saw frozenStorageClass n) = (v', sizeOK, saws')"
    using prod_cases3 by blast
  note C = counts_ok [of pl files, unfolded c, simplified]
  note D = decide_ok [OF d assms(1) _ C(1), simplified]
  define pl1 where "pl1 = pl\<lparr>pl_freeze := v'\<rparr>"
  have gf: "groupFiles pl1 files gk = groupFiles pl files gk" for gk
    using skip_cong [OF D(2)] by (simp add: groupFiles_def pl1_def)
  note M = members_ok [OF D(3), of pl1 files, unfolded gf]
  have r: "plans = concat (map (planOf pl1 part pt sizeOK) (planMembers pl1 sizeOK files))" "pl' = pl1"
    using assms(2) unfolding planPart_def c d Let_def prod.case pl1_def [symmetric]
    by (auto simp: members_Nil split: if_split_asm)
  show "view_ok (pl_freeze pl')" "sameView (pl_freeze pl) (pl_freeze pl')" "pl' = pl\<lparr>pl_freeze := pl_freeze pl'\<rparr>"
    using D(1,2) by (simp_all add: r(2) pl1_def)
  have ok: "mget sizeOK gk = (if \<not> frozenAt (groupLimits ?v (fst gk)) ?age \<and> 2 \<le> length (groupFiles pl files gk)
      then Some (sizeMergesAt (groupLimits ?v (fst gk)) ?age) else None)" for gk
    using D(4) [of gk] by (auto simp: C(2) split: if_split_asm)
  have mem: "(gk, fs) \<in> set (planMembers pl1 sizeOK files) \<longleftrightarrow>
      fs = groupFiles pl files gk \<and> \<not> frozenAt (groupLimits ?v (fst gk)) ?age \<and> 2 \<le> length fs" for gk fs
    using mget_in [OF M(1), of gk fs] M(2) [of gk] by (auto simp: ok split: if_split_asm)
  have one: "planOf pl1 part pt sizeOK (gk, groupFiles pl files gk) =
      (case planGroup (pl_policy pl) (groupFiles pl files gk) pt (pl_now pl) (pl_currentFP pl)
              (sizeMergesAt (groupLimits ?v (fst gk)) ?age) of
         None \<Rightarrow> []
       | Some (level, selected, rsn) \<Rightarrow>
           [\<lparr>mp_partition = part, mp_group = fst gk @ ''|'' @ snd gk, mp_tenant = fairShareTenant (fst gk), mp_level = level,
             mp_files = selected, mp_reason = rsn, mp_time = pt, mp_bytes = sum_list (map fi_Size selected)\<rparr>])"
    if "\<not> frozenAt (groupLimits ?v (fst gk)) ?age" "2 \<le> length (groupFiles pl files gk)" for gk
    using that by (simp add: planOf_def ok pl1_def)
  have "p \<in> set plans \<longleftrightarrow> p \<in> refPlans pl part files pt" for p
  proof
    assume "p \<in> set plans"
    then obtain gk fs where g: "(gk, fs) \<in> set (planMembers pl1 sizeOK files)" "p \<in> set (planOf pl1 part pt sizeOK (gk, fs))"
      by (auto simp: r(1))
    obtain pre b where gk: "gk = (pre, b)" by fastforce
    have x: "\<not> frozenAt (groupLimits ?v pre) ?age" "2 \<le> length (groupFiles pl files (pre, b))" "fs = groupFiles pl files (pre, b)"
      using g(1) unfolding mem gk by auto
    obtain lvl sel rsn where y: "planGroup (pl_policy pl) (groupFiles pl files (pre, b)) pt (pl_now pl) (pl_currentFP pl)
        (sizeMergesAt (groupLimits ?v pre) ?age) = Some (lvl, sel, rsn)"
      "p = \<lparr>mp_partition = part, mp_group = pre @ ''|'' @ b, mp_tenant = fairShareTenant pre, mp_level = lvl,
             mp_files = sel, mp_reason = rsn, mp_time = pt, mp_bytes = sum_list (map fi_Size sel)\<rparr>"
      using g(2) one [of "(pre, b)"] x by (auto simp: gk split: option.splits)
    show "p \<in> refPlans pl part files pt" unfolding refPlans_def mem_Collect_eq using x(1) y by blast
  next
    assume "p \<in> refPlans pl part files pt"
    then obtain pre b lvl sel rsn where g: "\<not> frozenAt (groupLimits ?v pre) ?age"
      "planGroup (pl_policy pl) (groupFiles pl files (pre, b)) pt (pl_now pl) (pl_currentFP pl)
            (sizeMergesAt (groupLimits ?v pre) ?age) = Some (lvl, sel, rsn)"
      "p = \<lparr>mp_partition = part, mp_group = pre @ ''|'' @ b, mp_tenant = fairShareTenant pre, mp_level = lvl,
             mp_files = sel, mp_reason = rsn, mp_time = pt, mp_bytes = sum_list (map fi_Size sel)\<rparr>"
      by (auto simp: refPlans_def)
    have "2 \<le> length (groupFiles pl files (pre, b))" by (rule planGroup_length [OF g(2)])
    then have "((pre, b), groupFiles pl files (pre, b)) \<in> set (planMembers pl1 sizeOK files)"
      "p \<in> set (planOf pl1 part pt sizeOK ((pre, b), groupFiles pl files (pre, b)))"
      using g one [of "(pre, b)"] by (simp_all add: mem)
    then show "p \<in> set plans" unfolding r(1) by force
  qed
  then show "set plans = refPlans pl part files pt" by blast
  have "planOf pl1 part pt sizeOK x = [] \<or> (\<exists>p. planOf pl1 part pt sizeOK x = [p] \<and> (\<forall>f \<in> set (mp_files p). groupOf f = fst x))"
    if "x \<in> set (planMembers pl1 sizeOK files)" for x
  proof (cases x)
    case (Pair gk fs)
    then have x: "fs = groupFiles pl files gk" "\<not> frozenAt (groupLimits ?v (fst gk)) ?age" "2 \<le> length (groupFiles pl files gk)"
      using that mem [of gk fs] by auto
    show ?thesis
    proof (cases "planGroup (pl_policy pl) fs pt (pl_now pl) (pl_currentFP pl) (sizeMergesAt (groupLimits ?v (fst gk)) ?age)")
      case None
      then show ?thesis using one [OF x(2,3)] by (simp add: Pair x(1))
    next
      case (Some y)
      obtain lvl sel rsn where y: "y = (lvl, sel, rsn)" using prod_cases3 by blast
      have "set sel \<subseteq> set fs" using planGroup_ok [OF Some] by (auto simp: plan_ok_def y dest: subseq_sub)
      then have "\<forall>f \<in> set sel. groupOf f = gk" by (auto simp: x(1) groupFiles_def)
      then show ?thesis using one [OF x(2,3)] Some by (simp add: Pair x(1) y)
    qed
  qed
  from concat_keys [where F = "planOf pl1 part pt sizeOK" and P = "\<lambda>gk p. \<forall>f \<in> set (mp_files p). groupOf f = gk", OF M(1) this]
  show "\<exists>gks. distinct gks \<and> list_all2 (\<lambda>gk p. \<forall>f \<in> set (mp_files p). groupOf f = gk) gks plans"
    unfolding r(1) by blast
qed

end
