(* ===== verification/Scheduling.thy ===== *)
theory Scheduling
  imports Planner
begin

text \<open>
  Which of the planned merges a scan runs: the failure backoff of
  \<open>src/internal/compaction/backoff.go\<close>, the fair share between tenants of \<open>fair_share.go\<close>, and the
  window of ring changes of \<open>scheduler.go\<close>.

  Each operation runs under its mutex and is one function. The rounds of \<open>PickCandidates\<close> are an
  unbounded loop: a \<open>partial_function\<close>, whose result is \<open>Some\<close> exactly when the loop ends.
\<close>

section \<open>Backoff\<close>

definition maxPlanBackoff :: int where "maxPlanBackoff = hour"

record backoffState =
  bs_failures :: nat
  bs_until :: int

type_synonym planBackoff = "(string, backoffState) gomap"

definition backoffKey :: "mergePlan \<Rightarrow> string" where
  "backoffKey p = mp_partition p @ ''|'' @ mp_group p"

definition waiting :: "int \<Rightarrow> planBackoff \<Rightarrow> mergePlan \<Rightarrow> bool" where
  "waiting now b p = (case mget b (backoffKey p) of None \<Rightarrow> False | Some st \<Rightarrow> now < bs_until st)"

definition backoffFilter :: "mergePlan list \<Rightarrow> int \<Rightarrow> planBackoff \<Rightarrow> mergePlan list \<times> planBackoff" where
  "backoffFilter plans now b =
     (if b = [] then (plans, b)
      else (filter (\<lambda>p. \<not> waiting now b p) plans, filter (\<lambda>(k, st). k \<in> set (map backoffKey plans)) b))"

fun doubleWait :: "nat \<Rightarrow> int \<Rightarrow> int" where
  "doubleWait 0 wait = wait"
| "doubleWait (Suc n) wait = (if wait < maxPlanBackoff then doubleWait n (wait * 2) else wait)"

definition backoffFailed :: "mergePlan \<Rightarrow> int \<Rightarrow> int \<Rightarrow> planBackoff \<Rightarrow> planBackoff" where
  "backoffFailed p now interval b =
     (let k = backoffKey p;
          failures = Suc (case mget b k of None \<Rightarrow> 0 | Some st \<Rightarrow> bs_failures st);
          wait0 = (if interval \<le> 0 then minute else interval);
          wait1 = doubleWait (failures - 1) wait0;
          wait = (if wait1 > maxPlanBackoff then maxPlanBackoff else wait1)
      in mput k \<lparr>bs_failures = failures, bs_until = now + wait\<rparr> b)"

definition backoffSucceeded :: "mergePlan \<Rightarrow> planBackoff \<Rightarrow> planBackoff" where
  "backoffSucceeded p b = mdel (backoffKey p) b"

section \<open>Fair share\<close>

record fairShare =
  fs_cursor :: nat
  fs_perTenant :: int

definition NewFairShareScheduler :: "int \<Rightarrow> fairShare" where
  "NewFairShareScheduler n = \<lparr>fs_cursor = 0, fs_perTenant = (if n \<le> 0 then 1 else n)\<rparr>"

definition indexDt :: "string \<Rightarrow> nat option" where
  "indexDt s = find (\<lambda>i. hasPrefix (drop i s) ''/dt='') [0..<Suc (length s)]"

definition extractTenant :: "string \<Rightarrow> string" where
  "extractTenant part =
     (case indexDt part of
        None \<Rightarrow>
          if hasPrefix part ''dt='' then ''default''
          else (case cutSlash part of None \<Rightarrow> ''default'' | Some (a, _) \<Rightarrow> a)
      | Some idx \<Rightarrow>
          let tenantPrefix = take idx part
          in if tenantPrefix = [] then ''default''
             else case splitN 3 tenantPrefix of
               [] \<Rightarrow> ''default'' | [a] \<Rightarrow> a | a # b # _ \<Rightarrow> a @ ''/'' @ b)"

definition tenantOf :: "mergePlan \<Rightarrow> string" where
  "tenantOf c = (if mp_tenant c = [] then extractTenant (mp_partition c) else mp_tenant c)"

type_synonym buckets = "(string, mergePlan list) gomap"

definition bucketOf :: "buckets \<Rightarrow> string \<Rightarrow> mergePlan list" where
  "bucketOf bt t = (case mget bt t of None \<Rightarrow> [] | Some b \<Rightarrow> b)"

definition groupCandidatesByTenant :: "mergePlan list \<Rightarrow> buckets" where
  "groupCandidatesByTenant candidates =
     fold (\<lambda>c out. mput (tenantOf c) (bucketOf out (tenantOf c) @ [c]) out) candidates []"

text \<open>One step of the insertion sort: the new name moves down past the greater ones. The prefix that is
  already sorted is held in reverse.\<close>

fun bubbleIn :: "string \<Rightarrow> string list \<Rightarrow> string list" where
  "bubbleIn t [] = [t]"
| "bubbleIn t (y # ys) = (if y > t then y # bubbleIn t ys else t # y # ys)"

definition sortedTenantList :: "buckets \<Rightarrow> string list" where
  "sortedTenantList bt = rev (fold bubbleIn (mkeys bt) [])"

text \<open>One round across the tenants: the buckets left, the slots left, what was picked, and whether every bucket
  the round touched is drained.\<close>

fun pickRound :: "int \<Rightarrow> string list \<Rightarrow> buckets \<Rightarrow> nat \<Rightarrow> mergePlan list \<Rightarrow> bool \<Rightarrow> buckets \<times> nat \<times> mergePlan list \<times> bool" where
  "pickRound k [] bt slots picked drained = (bt, slots, picked, drained)"
| "pickRound k (t # ts) bt slots picked drained =
     (if slots = 0 then (bt, slots, picked, drained)
      else let bucket = bucketOf bt t
           in if bucket = [] then pickRound k ts bt slots picked drained
              else let take1 = (if k > int (length bucket) then length bucket else nat k);
                       n = (if take1 > slots then slots else take1)
                   in pickRound k ts (mput t (drop n bucket) bt) (slots - n) (picked @ take n bucket)
                        (drained \<and> drop n bucket = []))"

partial_function (option) pickRounds :: "int \<Rightarrow> string list \<Rightarrow> buckets \<Rightarrow> nat \<Rightarrow> mergePlan list \<Rightarrow> mergePlan list option" where
  "pickRounds k ts bt slots picked =
     (if slots = 0 then Some picked
      else case pickRound k ts bt slots picked True of
        (bt', slots', picked', drained) \<Rightarrow>
          if drained then Some picked' else pickRounds k ts bt' slots' picked')"

declare pickRounds.simps [code]

definition rotation :: "nat \<Rightarrow> 'a list \<Rightarrow> 'a list" where
  "rotation cursor xs = map (\<lambda>i. xs ! ((cursor + i) mod length xs)) [0..<length xs]"

definition PickCandidates :: "mergePlan list \<Rightarrow> int \<Rightarrow> fairShare \<Rightarrow> (mergePlan list \<times> fairShare) option" where
  "PickCandidates candidates maxConcurrent f =
     (if candidates = [] \<or> maxConcurrent \<le> 0 then Some ([], f)
      else let byTenant = groupCandidatesByTenant candidates;
               tenants = sortedTenantList byTenant
           in if tenants = [] then Some ([], f)
              else let cursor = fs_cursor f mod length tenants;
                       f' = f\<lparr>fs_cursor := (fs_cursor f + 1) mod length tenants\<rparr>
                   in map_option (\<lambda>picked. (picked, f'))
                        (pickRounds (fs_perTenant f) (rotation cursor tenants) byTenant (nat maxConcurrent) []))"

definition Advance :: "int \<Rightarrow> fairShare \<Rightarrow> fairShare" where
  "Advance n f = (if n \<le> 0 then f else f\<lparr>fs_cursor := fs_cursor f + nat n\<rparr>)"

definition tenantsWithWork :: "mergePlan list \<Rightarrow> nat" where
  "tenantsWithWork plans = length (remdups (map mp_tenant plans))"

section \<open>Ring changes\<close>

definition pruneRingEventsLocked :: "int \<Rightarrow> int list \<Rightarrow> int list" where
  "pruneRingEventsLocked now events = dropWhile (\<lambda>e. \<not> e > now - 5 * minute) events"

definition recordRingChange :: "int \<Rightarrow> int list \<Rightarrow> int list" where
  "recordRingChange now events = pruneRingEventsLocked now events @ [now]"

definition recentRingChanges :: "int \<Rightarrow> int list \<Rightarrow> nat \<times> int list" where
  "recentRingChanges now events = (let es = pruneRingEventsLocked now events in (length es, es))"

end
