(* ===== verification/SchedulingProofs.thy ===== *)
theory SchedulingProofs
  imports Scheduling
begin

text \<open>
  The backoff is exponential with a cap of an hour; the fair share ends, picks as many plans as it
  may, favours no tenant by more than one allowance, and serves every tenant first in turn; the
  window of ring changes counts the last five minutes.
\<close>

section \<open>Backoff\<close>

lemma doubleWait_cap:
  assumes "0 < w"
  shows "min (doubleWait n w) maxPlanBackoff = min (w * 2 ^ n) maxPlanBackoff"
  using assms
proof (induction n arbitrary: w)
  case (Suc n)
  show ?case
  proof (cases "w < maxPlanBackoff")
    case True
    then show ?thesis using Suc.IH [of "w * 2"] Suc.prems by (simp add: mult.assoc)
  next
    case False
    have "(1 :: int) \<le> 2 ^ Suc n" by (rule one_le_power) simp
    then have "w * 1 \<le> w * 2 ^ Suc n" using Suc.prems by (intro mult_left_mono) simp_all
    then have "maxPlanBackoff \<le> w * 2 ^ Suc n" "maxPlanBackoff \<le> w" using False by linarith+
    then show ?thesis using False by (simp add: min_absorb2 del: power_Suc)
  qed
qed simp

definition failuresOf :: "planBackoff \<Rightarrow> string \<Rightarrow> nat" where
  "failuresOf b k = (case mget b k of None \<Rightarrow> 0 | Some st \<Rightarrow> bs_failures st)"

text \<open>The n-th consecutive failure makes the plan wait the interval doubled n - 1 times, an hour at most.\<close>

lemma backoffFailed_wait:
  defines "w interval \<equiv> if interval \<le> (0 :: int) then minute else interval"
  shows "mget (backoffFailed p now interval b) k =
    (if k = backoffKey p
     then Some \<lparr>bs_failures = Suc (failuresOf b k), bs_until = now + min (w interval * 2 ^ failuresOf b k) maxPlanBackoff\<rparr>
     else mget b k)"
proof -
  have "0 < w interval" by (simp add: w_def minute_def second_def)
  from doubleWait_cap [OF this, of "failuresOf b (backoffKey p)"]
  show ?thesis by (auto simp: backoffFailed_def Let_def go_map failuresOf_def w_def min_def split: if_splits)
qed

lemma backoffFilter_eq:
  "fst (backoffFilter plans now b) = filter (\<lambda>p. \<not> waiting now b p) plans"
  by (simp add: backoffFilter_def waiting_def)

lemma backoffFilter_state:
  assumes "wfmap b"
  shows "mget (snd (backoffFilter plans now b)) k = (if k \<in> backoffKey ` set plans then mget b k else None)"
  using assms mget_filter_key [of "\<lambda>k. k \<in> set (map backoffKey plans)" b k] by (simp add: backoffFilter_def)

section \<open>Grouping and ordering the tenants\<close>

lemma bucketOf_mput [simp]: "bucketOf (mput t b bt) u = (if u = t then b else bucketOf bt u)"
  by (simp add: bucketOf_def go_map)

lemma group_ok:
  "wfmap (groupCandidatesByTenant cs)"
  "bucketOf (groupCandidatesByTenant cs) t = filter (\<lambda>c. tenantOf c = t) cs"
  "set (mkeys (groupCandidatesByTenant cs)) = tenantOf ` set cs"
proof -
  have "wfmap (groupCandidatesByTenant cs) \<and> bucketOf (groupCandidatesByTenant cs) t = filter (\<lambda>c. tenantOf c = t) cs
    \<and> set (mkeys (groupCandidatesByTenant cs)) = tenantOf ` set cs"
  proof (induction cs arbitrary: t rule: rev_induct)
    case (snoc c cs)
    have e: "groupCandidatesByTenant (cs @ [c]) = mput (tenantOf c) (bucketOf (groupCandidatesByTenant cs) (tenantOf c) @ [c])
        (groupCandidatesByTenant cs)"
      by (simp add: groupCandidatesByTenant_def)
    show ?case using snoc.IH [of t] snoc.IH [of "tenantOf c"] by (simp add: e wfmap_mput dom_update)
  qed (simp add: groupCandidatesByTenant_def bucketOf_def)
  then show "wfmap (groupCandidatesByTenant cs)" "bucketOf (groupCandidatesByTenant cs) t = filter (\<lambda>c. tenantOf c = t) cs"
    "set (mkeys (groupCandidatesByTenant cs)) = tenantOf ` set cs" by blast+
qed

lemma bubbleIn_ok: "mset (bubbleIn t ys) = add_mset t (mset ys)" "sorted_wrt (\<ge>) ys \<Longrightarrow> sorted_wrt (\<ge>) (bubbleIn t ys)"
proof -
  show m: "mset (bubbleIn t ys) = add_mset t (mset ys)" for ys by (induction ys) auto
  have s: "set (bubbleIn t ys) = insert t (set ys)" for ys using m [of ys] by (metis set_mset_add_mset_insert set_mset_mset)
  show "sorted_wrt (\<ge>) ys \<Longrightarrow> sorted_wrt (\<ge>) (bubbleIn t ys)"
    by (induction ys) (auto simp: s)
qed

lemma sortedTenantList_eq: "sortedTenantList bt = sort (mkeys bt)"
proof -
  have "mset (fold bubbleIn ks acc) = mset ks + mset acc \<and> (sorted_wrt (\<ge>) acc \<longrightarrow> sorted_wrt (\<ge>) (fold bubbleIn ks acc))"
    for ks acc by (induction ks arbitrary: acc) (auto simp: bubbleIn_ok)
  from this [of "mkeys bt" "[]"] show ?thesis
    unfolding sortedTenantList_def
    by (intro properties_for_sort [symmetric]) (auto simp: sorted_wrt_rev)
qed

lemma rotation_ok:
  assumes "distinct xs"
  shows "distinct (rotation n xs)" "set (rotation n xs) = set xs" "xs \<noteq> [] \<Longrightarrow> hd (rotation n xs) = xs ! (n mod length xs)"
proof -
  have "rotation n xs = rotate n xs"
    by (rule nth_equalityI) (simp_all add: rotation_def nth_rotate)
  then show "distinct (rotation n xs)" "set (rotation n xs) = set xs" using assms by simp_all
  show "xs \<noteq> [] \<Longrightarrow> hd (rotation n xs) = xs ! (n mod length xs)" by (simp add: rotation_def hd_map upt_conv_Cons)
qed

section \<open>Rounds\<close>

definition cnt :: "mergePlan list \<Rightarrow> string \<Rightarrow> nat" where
  "cnt picked t = length (filter (\<lambda>c. tenantOf c = t) picked)"

definition tenanted :: "buckets \<Rightarrow> bool" where
  "tenanted bt \<longleftrightarrow> (\<forall>t. \<forall>c \<in> set (bucketOf bt t). tenantOf c = t)"

text \<open>One step of a round moves the front of a bucket to the picked plans.\<close>

definition taken :: "int \<Rightarrow> nat \<Rightarrow> mergePlan list \<Rightarrow> nat" where
  "taken k slots bucket = min slots (min (nat k) (length bucket))"

lemma pickRound_step:
  assumes "0 < slots" "bucketOf bt t \<noteq> []"
  shows "pickRound k (t # ts) bt slots picked drained =
    (let n = taken k slots (bucketOf bt t)
     in pickRound k ts (mput t (drop n (bucketOf bt t)) bt) (slots - n) (picked @ take n (bucketOf bt t))
          (drained \<and> drop n (bucketOf bt t) = []))"
proof -
  have "(let take1 = (if k > int (length (bucketOf bt t)) then length (bucketOf bt t) else nat k)
         in if take1 > slots then slots else take1) = taken k slots (bucketOf bt t)"
    by (auto simp: taken_def Let_def min_def)
  then show ?thesis using assms by (simp only: pickRound.simps Let_def if_False) simp
qed

lemma filter_tenanted: "tenanted bt \<Longrightarrow> filter (\<lambda>c. tenantOf c = u) (take n (bucketOf bt t)) = (if u = t then take n (bucketOf bt t) else [])"
  unfolding tenanted_def by (auto simp: filter_empty_conv filter_id_conv dest!: in_set_takeD)

lemma tenanted_drop: "tenanted bt \<Longrightarrow> tenanted (mput t (drop n (bucketOf bt t)) bt)"
  unfolding tenanted_def by (auto dest: in_set_dropD)

lemma pickRound_ok:
  assumes "pickRound k ts bt slots picked drained = (bt', slots', picked', drained')" "1 \<le> k" "distinct ts" "tenanted bt"
  shows "tenanted bt' \<and> prefix picked picked' \<and> slots' + length picked' = slots + length picked
    \<and> (drained' \<longrightarrow> drained) \<and> (\<not> drained' \<longrightarrow> \<not> drained \<or> slots' < slots)
    \<and> (\<forall>t. filter (\<lambda>c. tenantOf c = t) picked' @ bucketOf bt' t = filter (\<lambda>c. tenantOf c = t) picked @ bucketOf bt t)
    \<and> (\<forall>t. t \<notin> set ts \<longrightarrow> bucketOf bt' t = bucketOf bt t)
    \<and> (\<forall>t. cnt picked' t \<le> cnt picked t + nat k)
    \<and> (0 < slots' \<longrightarrow> (\<forall>t \<in> set ts. bucketOf bt' t = [] \<or> \<not> drained' \<and> cnt picked' t = cnt picked t + nat k))"
  using assms
proof (induction ts arbitrary: bt slots picked drained)
  case (Cons t ts)
  let ?b = "bucketOf bt t" and ?n = "taken k slots (bucketOf bt t)"
  consider (full) "slots = 0" | (empty) "0 < slots" "?b = []" | (take) "0 < slots" "?b \<noteq> []" by blast
  then show ?case
  proof cases
    case full
    then show ?thesis using Cons.prems by simp
  next
    case empty
    then have "pickRound k ts bt slots picked drained = (bt', slots', picked', drained')" using Cons.prems(1) by simp
    from Cons.IH [OF this Cons.prems(2)] show ?thesis using Cons.prems(3,4) empty by auto
  next
    case take
    let ?bt = "mput t (drop ?n ?b) bt" and ?p = "picked @ take ?n ?b"
    have r: "pickRound k ts ?bt (slots - ?n) ?p (drained \<and> drop ?n ?b = []) = (bt', slots', picked', drained')"
      using Cons.prems(1) pickRound_step [OF take, of k ts picked drained] by (simp add: Let_def)
    have t: "t \<notin> set ts" "distinct ts" using Cons.prems(3) by auto
    note IH = Cons.IH [OF r Cons.prems(2) t(2) tenanted_drop [OF Cons.prems(4)]]
    have n: "0 < ?n" "?n \<le> slots" "?n \<le> length ?b" "?n \<le> nat k" using take Cons.prems(2) by (auto simp: taken_def)
    have I: "tenanted bt'" "prefix ?p picked'" "slots' + length picked' = slots - ?n + length ?p"
      "drained' \<Longrightarrow> drained \<and> drop ?n ?b = []"
      "\<And>u. filter (\<lambda>c. tenantOf c = u) picked' @ bucketOf bt' u = filter (\<lambda>c. tenantOf c = u) ?p @ bucketOf ?bt u"
      "\<And>u. u \<notin> set ts \<Longrightarrow> bucketOf bt' u = bucketOf ?bt u" "\<And>u. cnt picked' u \<le> cnt ?p u + nat k"
      "\<And>u. 0 < slots' \<Longrightarrow> u \<in> set ts \<Longrightarrow> bucketOf bt' u = [] \<or> \<not> drained' \<and> cnt picked' u = cnt ?p u + nat k"
      using IH by blast+
    have len: "length ?p \<le> length picked'" "length ?p = length picked + ?n" using prefix_length_le [OF I(2)] n(3) by auto
    have less: "slots' < slots" using I(3) len n by linarith
    have c: "cnt ?p u = cnt picked u + (if u = t then ?n else 0)" for u
      using filter_tenanted [OF Cons.prems(4), of u ?n t] n(3) by (simp add: cnt_def)
    have f: "filter (\<lambda>c. tenantOf c = u) ?p @ bucketOf ?bt u = filter (\<lambda>c. tenantOf c = u) picked @ bucketOf bt u" for u
      using filter_tenanted [OF Cons.prems(4), of u ?n t] by simp
    have bt: "bucketOf bt' t = drop ?n ?b" using I(6) [OF t(1)] by simp
    have ct: "cnt picked' t = cnt picked t + ?n" using I(5) [of t] bt c [of t] by (simp add: cnt_def)
    have kn: "?n = nat k" if "0 < slots'" "drop ?n ?b \<noteq> []"
    proof -
      have "?n < slots" using that(1) I(3) len n by linarith
      then show ?thesis using that(2) by (auto simp: taken_def min_def split: if_splits)
    qed
    have "cnt picked' u \<le> cnt picked u + nat k" for u using I(7) [of u] c [of u] ct n(4) by (cases "u = t") auto
    moreover have "bucketOf bt' u = [] \<or> \<not> drained' \<and> cnt picked' u = cnt picked u + nat k"
      if "0 < slots'" "u \<in> set (t # ts)" for u
    proof (cases "u = t")
      case True
      show ?thesis
      proof (cases "drop ?n ?b = []")
        case False
        then show ?thesis using True I(4) kn [OF that(1)] ct by auto
      qed (use True bt in simp)
    next
      case False
      then show ?thesis using I(8) [OF that(1), of u] that(2) c [of u] by auto
    qed
    moreover have "prefix picked picked'" using I(2) by (rule append_prefixD)
    moreover have "bucketOf bt' u = bucketOf bt u" if "u \<notin> set (t # ts)" for u using I(6) [of u] that by simp
    moreover have "filter (\<lambda>c. tenantOf c = u) picked' @ bucketOf bt' u = filter (\<lambda>c. tenantOf c = u) picked @ bucketOf bt u" for u
      using I(5) [of u] f [of u] by simp
    moreover have "slots' + length picked' = slots + length picked" using I(3) len n by linarith
    ultimately show ?thesis using I(1,4) less by blast
  qed
qed simp

text \<open>The rounds end: each one either leaves nothing or uses a slot.\<close>

definition level :: "int \<Rightarrow> buckets \<Rightarrow> mergePlan list \<Rightarrow> nat \<Rightarrow> bool" where
  "level k bt picked r \<longleftrightarrow> (\<forall>t. cnt picked t \<le> nat k * r \<and> (bucketOf bt t \<noteq> [] \<longrightarrow> nat k * r \<le> cnt picked t))"

definition fairly :: "int \<Rightarrow> buckets \<Rightarrow> mergePlan list \<Rightarrow> bool" where
  "fairly k bt picked \<longleftrightarrow> (\<forall>t u. bucketOf bt u \<noteq> [] \<longrightarrow> cnt picked t \<le> cnt picked u + nat k)"

lemma pickRounds_ok:
  assumes "1 \<le> k" "distinct ts" "tenanted bt" "\<forall>t. bucketOf bt t \<noteq> [] \<longrightarrow> t \<in> set ts" "level k bt picked r"
  shows "\<exists>picked' rest. pickRounds k ts bt slots picked = Some picked' \<and> prefix picked picked'
    \<and> (\<forall>t. filter (\<lambda>c. tenantOf c = t) picked' @ bucketOf rest t = filter (\<lambda>c. tenantOf c = t) picked @ bucketOf bt t)
    \<and> length picked' \<le> length picked + slots
    \<and> (length picked' = length picked + slots \<or> (\<forall>t. bucketOf rest t = [])) \<and> fairly k rest picked'"
  using assms
proof (induction slots arbitrary: bt picked r rule: less_induct)
  case (less slots)
  have fair0: "fairly k bt picked" using less.prems(5) by (auto simp: level_def fairly_def intro: le_trans trans_le_add1)
  show ?case
  proof (cases "slots = 0")
    case True
    then show ?thesis using fair0 by (auto simp: pickRounds.simps intro!: exI [of _ bt])
  next
    case False
    obtain bt' slots' picked' d where R: "pickRound k ts bt slots picked True = (bt', slots', picked', d)" by (metis prod_cases4)
    note P = pickRound_ok [OF R less.prems(1-3)]
    have lv: "cnt picked t \<le> nat k * r" "bucketOf bt t \<noteq> [] \<Longrightarrow> nat k * r \<le> cnt picked t" for t
      using less.prems(5) by (auto simp: level_def)
    have F: "filter (\<lambda>c. tenantOf c = t) picked' @ bucketOf bt' t = filter (\<lambda>c. tenantOf c = t) picked @ bucketOf bt t" for t
      using P by blast
    have pre: "prefix picked picked'" using P by blast
    have mono: "cnt picked t \<le> cnt picked' t" for t
      using pre by (auto simp: prefix_def cnt_def)
    have sub: "bucketOf bt' t \<noteq> [] \<Longrightarrow> bucketOf bt t \<noteq> []" for t
    proof
      assume b: "bucketOf bt' t \<noteq> []" "bucketOf bt t = []"
      have "length (filter (\<lambda>c. tenantOf c = t) picked') + length (bucketOf bt' t) = length (filter (\<lambda>c. tenantOf c = t) picked)"
        using arg_cong [OF F [of t], of length] b(2) by simp
      moreover have "length (bucketOf bt' t) \<noteq> 0" using b(1) by simp
      ultimately show False using mono [of t] unfolding cnt_def by linarith
    qed
    have up: "cnt picked' t \<le> nat k * Suc r" for t using P lv(1) [of t] by (simp add: add.commute) (meson add_mono le_trans order_refl)
    have fair: "fairly k bt' picked'"
    proof (unfold fairly_def, intro allI impI)
      fix t u assume "bucketOf bt' u \<noteq> []"
      then have "nat k * r \<le> cnt picked' u" using lv(2) sub mono le_trans by blast
      then show "cnt picked' t \<le> cnt picked' u + nat k" using up [of t] by simp
    qed
    show ?thesis
    proof (cases d)
      case True
      have "pickRounds k ts bt slots picked = Some picked'" using R True False by (simp add: pickRounds.simps)
      moreover have "length picked' = length picked + slots \<or> (\<forall>t. bucketOf bt' t = [])"
      proof (cases "slots' = 0")
        case False
        then have "\<forall>t \<in> set ts. bucketOf bt' t = []" using P True by blast
        then show ?thesis using sub less.prems(4) by blast
      qed (use P in simp)
      moreover have "length picked' \<le> length picked + slots" using P by linarith
      ultimately show ?thesis using pre F fair by (intro exI [of _ picked'] exI [of _ bt']) simp
    next
      case nd: False
      have "slots' < slots" using P nd by blast
      have run: "pickRounds k ts bt slots picked = pickRounds k ts bt' slots' picked'" using R nd False by (simp add: pickRounds.simps)
      show ?thesis
      proof (cases "slots' = 0")
        case True
        have "pickRounds k ts bt slots picked = Some picked'" unfolding run by (simp add: True pickRounds.simps)
        then show ?thesis using P True pre F fair by (intro exI [of _ picked'] exI [of _ bt']) simp
      next
        case False
        have "level k bt' picked' (Suc r)"
        proof (unfold level_def, intro allI conjI impI)
          show "cnt picked' t \<le> nat k * Suc r" for t by (rule up)
          fix t assume b: "bucketOf bt' t \<noteq> []"
          then have "t \<in> set ts" using sub less.prems(4) by blast
          then have "cnt picked' t = cnt picked t + nat k" using P False b by blast
          then show "nat k * Suc r \<le> cnt picked' t" using lv(2) [OF sub [OF b]] by simp
        qed
        moreover have "\<forall>t. bucketOf bt' t \<noteq> [] \<longrightarrow> t \<in> set ts" using sub less.prems(4) by blast
        moreover have "tenanted bt'" using P by blast
        ultimately obtain p2 rest where I: "pickRounds k ts bt' slots' picked' = Some p2" "prefix picked' p2"
          "\<forall>t. filter (\<lambda>c. tenantOf c = t) p2 @ bucketOf rest t = filter (\<lambda>c. tenantOf c = t) picked' @ bucketOf bt' t"
          "length p2 \<le> length picked' + slots'" "length p2 = length picked' + slots' \<or> (\<forall>t. bucketOf rest t = [])" "fairly k rest p2"
          using less.IH [OF \<open>slots' < slots\<close> less.prems(1,2)] by blast
        have "slots' + length picked' = slots + length picked" using P by blast
        then show ?thesis unfolding run using I F prefix_order.trans [OF pre I(2)]
          by (intro exI [of _ p2] exI [of _ rest]) (auto simp: add.commute)
      qed
    qed
  qed
qed

section \<open>Picking\<close>

lemma pickRound_prefix: "pickRound k ts bt slots picked d = (bt', slots', picked', d') \<Longrightarrow> prefix picked picked'"
proof (induction k ts bt slots picked d rule: pickRound.induct)
  case (2 k t ts bt slots picked d)
  show ?case
  proof (cases "0 < slots \<and> bucketOf bt t \<noteq> []")
    case True
    then show ?thesis using 2 by (auto simp: Let_def intro: append_prefixD split: if_splits)
  next
    case False
    then show ?thesis using 2 by (auto simp: Let_def split: if_splits)
  qed
qed simp

lemma pickRounds_prefix:
  assumes "pickRounds k ts bt slots picked = Some p"
  shows "prefix picked p"
proof (rule pickRounds.raw_induct [where P = "\<lambda>k ts bt slots picked p. prefix picked p", OF _ assms])
  fix rounds k ts bt slots picked p
  assume IH: "\<And>k ts bt slots picked p. rounds k ts bt slots picked = Some p \<Longrightarrow> prefix picked p"
    and run: "(if slots = 0 then Some picked
      else case pickRound k ts bt slots picked True of
        (bt', slots', picked', drained) \<Rightarrow> if drained then Some picked' else rounds k ts bt' slots' picked') = Some p"
  obtain bt' slots' picked' d where R: "pickRound k ts bt slots picked True = (bt', slots', picked', d)" by (metis prod_cases4)
  show "prefix picked p"
    using run pickRound_prefix [OF R] IH [of k ts bt' slots' picked' p]
    by (auto simp: R split: if_splits intro: prefix_order.trans)
qed

lemma pickRounds_first:
  assumes "pickRounds k (t # ts) bt slots [] = Some p" "1 \<le> k" "0 < slots" "bucketOf bt t \<noteq> []" "tenanted bt"
  shows "p \<noteq> [] \<and> tenantOf (hd p) = t"
proof -
  let ?b = "bucketOf bt t" and ?n = "taken k slots (bucketOf bt t)"
  obtain bt' slots' picked' d where R: "pickRound k (t # ts) bt slots [] True = (bt', slots', picked', d)" by (metis prod_cases4)
  have n: "0 < ?n" using assms(2-4) by (simp add: taken_def)
  have "prefix (take ?n ?b) picked'"
    using R unfolding pickRound_step [OF assms(3,4)] Let_def by (auto dest: pickRound_prefix)
  moreover have "pickRounds k (t # ts) bt slots [] = (if d then Some picked' else pickRounds k (t # ts) bt' slots' picked')"
    using assms(3) by (subst pickRounds.simps) (simp add: R del: pickRound.simps)
  then have "prefix picked' p" using assms(1) by (metis option.inject pickRounds_prefix prefix_order.refl)
  ultimately obtain zs where "p = take ?n ?b @ zs" by (meson prefixE prefix_order.trans)
  moreover have "take ?n ?b = hd ?b # tl (take ?n ?b)" using n assms(4) by (cases ?b) (auto simp: gr0_conv_Suc)
  moreover have "tenantOf (hd ?b) = t" using assms(4,5) by (simp add: tenanted_def)
  ultimately show ?thesis by (metis append_Cons list.distinct(1) list.sel(1))
qed

lemma count_of_filter: "count (mset xs) x = count (mset (filter (\<lambda>c. g c = g x) xs)) x"
  by (induction xs) auto

lemma prefix_filters_subset:
  assumes "\<And>t. prefix (filter (\<lambda>c. g c = t) xs) (filter (\<lambda>c. g c = t) ys)"
  shows "mset xs \<subseteq># mset ys"
proof (rule mset_subset_eqI)
  fix x
  obtain zs where "filter (\<lambda>c. g c = g x) ys = filter (\<lambda>c. g c = g x) xs @ zs" using assms [of "g x"] by (auto simp: prefix_def)
  then show "count (mset xs) x \<le> count (mset ys) x"
    unfolding count_of_filter [where xs = xs and g = g] count_of_filter [where xs = ys and g = g] by simp
qed

lemma tenants_ok:
  "sortedTenantList (groupCandidatesByTenant cs) = sorted_list_of_set (tenantOf ` set cs)"
proof -
  have "sort (mkeys (groupCandidatesByTenant cs)) = sorted_list_of_set (set (mkeys (groupCandidatesByTenant cs)))"
    by (metis group_ok(1) distinct_remdups_id sorted_list_of_set_sort_remdups)
  then show ?thesis by (simp only: sortedTenantList_eq group_ok(3))
qed

text \<open>What a pick returns: it ends; it takes as many plans as it may; each tenant's plans in their order; a tenant
  with plans left over is at most one allowance behind any other; the tenant under the cursor is
  served first, and the cursor moves on.\<close>

lemma PickCandidates_ok:
  assumes "1 \<le> fs_perTenant f"
  obtains picked f' where "PickCandidates cs m f = Some (picked, f')"
    "length picked = min (nat m) (length cs)" "mset picked \<subseteq># mset cs"
    "\<And>t. prefix (filter (\<lambda>c. tenantOf c = t) picked) (filter (\<lambda>c. tenantOf c = t) cs)"
    "\<And>t u. cnt picked u < cnt cs u \<Longrightarrow> cnt picked t \<le> cnt picked u + nat (fs_perTenant f)"
    "fs_perTenant f' = fs_perTenant f"
    "cs \<noteq> [] \<Longrightarrow> 0 < m \<Longrightarrow>
      (let ts = sorted_list_of_set (tenantOf ` set cs)
       in picked \<noteq> [] \<and> tenantOf (hd picked) = ts ! (fs_cursor f mod length ts) \<and> fs_cursor f' = (fs_cursor f + 1) mod length ts)"
proof (cases "cs = [] \<or> m \<le> 0")
  case True
  then have "PickCandidates cs m f = Some ([], f)" by (simp add: PickCandidates_def)
  then show ?thesis by (rule that) (use True in \<open>auto simp: cnt_def\<close>)
next
  case False
  let ?bt = "groupCandidatesByTenant cs" and ?ts = "sorted_list_of_set (tenantOf ` set cs)" and ?k = "fs_perTenant f"
  let ?c = "fs_cursor f mod length ?ts"
  let ?f = "f\<lparr>fs_cursor := (fs_cursor f + 1) mod length ?ts\<rparr>"
  have ts: "?ts \<noteq> []" "distinct ?ts" "set ?ts = tenantOf ` set cs" using False by auto
  note ro = rotation_ok [OF ts(2), of ?c]
  have bt: "tenanted ?bt" "\<forall>t. bucketOf ?bt t \<noteq> [] \<longrightarrow> t \<in> set (rotation ?c ?ts)" "level ?k ?bt [] 0"
    by (auto simp: tenanted_def level_def cnt_def group_ok rotation_ok(2) [OF ts(2)] filter_empty_conv)
  obtain picked rest where P: "pickRounds ?k (rotation ?c ?ts) ?bt (nat m) [] = Some picked"
    "\<forall>t. filter (\<lambda>c. tenantOf c = t) picked @ bucketOf rest t = filter (\<lambda>c. tenantOf c = t) cs"
    "length picked \<le> nat m" "length picked = nat m \<or> (\<forall>t. bucketOf rest t = [])" "fairly ?k rest picked"
    using pickRounds_ok [OF assms ro(1) bt, of "nat m"] by (auto simp: group_ok)
  have pre: "prefix (filter (\<lambda>c. tenantOf c = t) picked) (filter (\<lambda>c. tenantOf c = t) cs)" for t
    using P(2) by (metis prefixI)
  note sub = prefix_filters_subset [OF pre]
  have "rotation ?c ?ts \<noteq> []" using ro(2) ts by auto
  then obtain ts' where r1: "rotation ?c ?ts = (?ts ! ?c) # ts'" using ro(3) [OF ts(1)] by (cases "rotation ?c ?ts") auto
  have "0 < length ?ts" using ts(1) unfolding length_greater_0_conv .
  then have "?ts ! ?c \<in> set ?ts" by (intro nth_mem mod_less_divisor)
  then have b0: "bucketOf ?bt (?ts ! ?c) \<noteq> []" by (auto simp: group_ok filter_empty_conv ts(3) simp del: set_sorted_list_of_set)
  show ?thesis
  proof (rule that [of picked ?f])
    show "PickCandidates cs m f = Some (picked, ?f)"
      using False ts(1) P(1) by (simp add: PickCandidates_def Let_def tenants_ok)
    show "mset picked \<subseteq># mset cs" by (rule sub)
    show "length picked = min (nat m) (length cs)"
    proof (cases "length picked = nat m")
      case True
      then show ?thesis using size_mset_mono [OF sub] by simp
    next
      case False
      then have "\<forall>t. filter (\<lambda>c. tenantOf c = t) picked = filter (\<lambda>c. tenantOf c = t) cs" using P(2,4) by simp
      then have "mset cs \<subseteq># mset picked" by (intro prefix_filters_subset [where g = tenantOf]) simp
      then have "length picked = length cs" using sub by (metis size_mset subset_mset.order_antisym)
      then show ?thesis using P(3) by simp
    qed
    show "prefix (filter (\<lambda>c. tenantOf c = t) picked) (filter (\<lambda>c. tenantOf c = t) cs)" for t by (rule pre)
    show "cnt picked t \<le> cnt picked u + nat ?k" if "cnt picked u < cnt cs u" for t u
    proof -
      have "bucketOf rest u \<noteq> []" using that arg_cong [OF spec [OF P(2), of u], of length] by (auto simp: cnt_def)
      then show ?thesis using P(5) by (simp add: fairly_def)
    qed
    show "let ts = ?ts in picked \<noteq> [] \<and> tenantOf (hd picked) = ts ! (fs_cursor f mod length ts)
        \<and> fs_cursor ?f = (fs_cursor f + 1) mod length ts" if "0 < m"
      using pickRounds_first [OF P(1) [unfolded r1] assms _ b0 bt(1)] that by simp
  qed simp
qed

section \<open>No tenant is starved\<close>

fun runPicks :: "mergePlan list list \<Rightarrow> int \<Rightarrow> fairShare \<Rightarrow> mergePlan list list option" where
  "runPicks [] m f = Some []"
| "runPicks (cs # css) m f =
     (case PickCandidates cs m f of
        None \<Rightarrow> None
      | Some (picked, f') \<Rightarrow> map_option ((#) picked) (runPicks css m f'))"

lemma runPicks_turns:
  assumes "1 \<le> fs_perTenant f" "0 < m" "T \<noteq> {}" "\<forall>cs \<in> set css. tenantOf ` set cs = T"
  defines "ts \<equiv> sorted_list_of_set T"
  obtains res where "runPicks css m f = Some res" "length res = length css"
    "\<And>i. i < length css \<Longrightarrow> res ! i \<noteq> [] \<and> tenantOf (hd (res ! i)) = ts ! ((fs_cursor f + i) mod length ts)"
proof -
  have "\<exists>res. runPicks css m f = Some res \<and> length res = length css \<and>
    (\<forall>i < length css. res ! i \<noteq> [] \<and> tenantOf (hd (res ! i)) = ts ! ((fs_cursor f + i) mod length ts))"
    using assms(1,4)
  proof (induction css arbitrary: f)
    case (Cons cs css)
    have cs: "tenantOf ` set cs = T" "cs \<noteq> []" using Cons.prems(2) assms(3) by auto
    obtain picked f' where P: "PickCandidates cs m f = Some (picked, f')" "fs_perTenant f' = fs_perTenant f"
      "picked \<noteq> [] \<and> tenantOf (hd picked) = ts ! (fs_cursor f mod length ts) \<and> fs_cursor f' = (fs_cursor f + 1) mod length ts"
      using PickCandidates_ok [OF Cons.prems(1), of cs m] cs assms(2) by (metis ts_def)
    obtain res where R: "runPicks css m f' = Some res" "length res = length css"
      "\<forall>i < length css. res ! i \<noteq> [] \<and> tenantOf (hd (res ! i)) = ts ! ((fs_cursor f' + i) mod length ts)"
      using Cons.IH [of f'] Cons.prems P(2) by auto
    have "(picked # res) ! i \<noteq> [] \<and> tenantOf (hd ((picked # res) ! i)) = ts ! ((fs_cursor f + i) mod length ts)"
      if "i < length (cs # css)" for i
    proof (cases i)
      case 0
      then show ?thesis using P(3) by simp
    next
      case (Suc j)
      then have "res ! j \<noteq> [] \<and> tenantOf (hd (res ! j)) = ts ! ((fs_cursor f' + j) mod length ts)" using R(3) that by simp
      moreover have "(fs_cursor f' + j) mod length ts = (fs_cursor f + i) mod length ts" using P(3) Suc by (simp add: mod_simps)
      ultimately show ?thesis using Suc by simp
    qed
    then show ?case using P(1) R(1,2) by (intro exI [of _ "picked # res"]) simp
  qed simp
  then show ?thesis using that by blast
qed

lemma some_turn:
  fixes c j n :: nat
  assumes "j < n"
  shows "\<exists>i < n. (c + i) mod n = j"
proof -
  let ?i = "(j + (n - c mod n)) mod n"
  have "(c + ?i) mod n = (c mod n + (j + (n - c mod n))) mod n" by (simp add: mod_simps)
  also have "c mod n < n" using assms by simp
  then have "c mod n + (j + (n - c mod n)) = j + n" by linarith
  finally show ?thesis using assms by (intro exI [of _ ?i]) simp
qed

lemma every_tenant_first:
  assumes "1 \<le> fs_perTenant f" "0 < m" "\<forall>cs \<in> set css. tenantOf ` set cs = T" "length css = card T" "t \<in> T" "finite T"
  obtains res picked where "runPicks css m f = Some res" "picked \<in> set res" "picked \<noteq> []" "tenantOf (hd picked) = t"
proof -
  let ?ts = "sorted_list_of_set T"
  have T: "T \<noteq> {}" "length ?ts = card T" "set ?ts = T" using assms(5,6) by auto
  obtain res where R: "runPicks css m f = Some res" "length res = length css"
    "\<And>i. i < length css \<Longrightarrow> res ! i \<noteq> [] \<and> tenantOf (hd (res ! i)) = ?ts ! ((fs_cursor f + i) mod length ?ts)"
    using runPicks_turns [OF assms(1,2) T(1) assms(3)] by blast
  obtain j where j: "j < card T" "?ts ! j = t" using assms(5) T by (metis in_set_conv_nth)
  obtain i where i: "i < card T" "(fs_cursor f + i) mod card T = j" using some_turn [OF j(1)] by blast
  have i': "i < length css" using i(1) assms(4) by simp
  show ?thesis
    by (rule that [OF R(1), of "res ! i"]) (use R(2) R(3) [OF i'] i' i(2) j(2) T(2) in auto)
qed

section \<open>Ring changes\<close>

lemma ring_window:
  assumes "sorted events" "\<forall>e \<in> set events. e \<le> now"
  shows "sorted (recordRingChange now events)"
    "fst (recentRingChanges now events) = length (filter (\<lambda>e. now - 5 * minute < e) events)"
proof -
  have d: "dropWhile (\<lambda>e. \<not> e > now - 5 * minute) events = filter (\<lambda>e. now - 5 * minute < e) events"
    using assms(1)
  proof (induction events)
    case (Cons e es)
    then show ?case by (auto intro!: filter_True [symmetric])
  qed simp
  have "sorted (filter (\<lambda>e. now - 5 * minute < e) events)" using assms(1) by (rule sorted_wrt_filter)
  then show "sorted (recordRingChange now events)"
    using assms(2) by (simp add: recordRingChange_def pruneRingEventsLocked_def d sorted_append)
  show "fst (recentRingChanges now events) = length (filter (\<lambda>e. now - 5 * minute < e) events)"
    by (simp add: recentRingChanges_def pruneRingEventsLocked_def d Let_def)
qed

end
