(* ===== verification/Segments.thy ===== *)
theory Segments
  imports Freeze TombKeys
begin

text \<open>
  The guard of the insert buffer's segments: \<open>src/internal/manifest/segments.go\<close>. An object that was drained from a
  buffer segment names the segment in its key. While the segment is live its rows are served from
  the buffer, so its objects may not be merged into an object without the name.

  Times are nanoseconds since the epoch. \<open>None\<close> for \<open>SegmentNonceTime\<close> is the zero time; the guard
  \<open>None\<close> is the \<open>nil\<close> pointer.
\<close>

definition SegmentNonceLen :: nat where "SegmentNonceLen = 16"

definition SegmentMarkerDir :: string where "SegmentMarkerDir = ''_segments/''"

definition isLowerHex :: "string \<Rightarrow> bool" where
  "isLowerHex s = list_all (\<lambda>c. byteIn (CHR ''0'') (CHR ''9'') c \<or> byteIn (CHR ''a'') (CHR ''f'') c) s"

text \<open>The part of a key after its last slash.\<close>

definition baseName :: "string \<Rightarrow> string" where
  "baseName key = rev (takeWhile (\<lambda>c. c \<noteq> CHR ''/'') (rev key))"

definition SegmentNonceOfKey :: "string \<Rightarrow> string" where
  "SegmentNonceOfKey key =
     (let base = baseName key
      in if length base < SegmentNonceLen + 2 \<or> base ! SegmentNonceLen \<noteq> CHR ''-'' then []
         else let nonce = take SegmentNonceLen base in if \<not> isLowerHex nonce then [] else nonce)"

definition SegmentNonceTime :: "string \<Rightarrow> int option" where
  "SegmentNonceTime nonce =
     (if length nonce \<noteq> SegmentNonceLen \<or> \<not> isLowerHex nonce then None
      else map_option (\<lambda>sec. uint sec * second) (parseHexDigits (take 8 nonce) 0))"

definition SegmentMarkerKey :: "string \<Rightarrow> string \<Rightarrow> string" where
  "SegmentMarkerKey pre nonce = pre @ SegmentMarkerDir @ nonce"

definition SegmentReleaseAfter :: int where "SegmentReleaseAfter = 7 * 24 * hour"

record segmentGuard =
  sg_Markers :: "(string, int) gomap"
  sg_Listed :: bool
  sg_Protect :: int

definition Released :: "segmentGuard option \<Rightarrow> string \<Rightarrow> int \<Rightarrow> bool" where
  "Released g key now =
     (let nonce = SegmentNonceOfKey key
      in if nonce = [] then True
         else if (case SegmentNonceTime nonce of None \<Rightarrow> False | Some t \<Rightarrow> timeSub now t \<ge> SegmentReleaseAfter) then True
         else case g of
           None \<Rightarrow> False
         | Some g \<Rightarrow>
             if \<not> sg_Listed g then False
             else (case mget (sg_Markers g) nonce of None \<Rightarrow> False | Some committed \<Rightarrow> timeSub now committed \<ge> sg_Protect g))"

text \<open>Up to the first file that is not released the files are kept as they are.\<close>

definition ReleasedFiles :: "segmentGuard option \<Rightarrow> fileInfo list \<Rightarrow> int \<Rightarrow> fileInfo list" where
  "ReleasedFiles g files now =
     (let rel = (\<lambda>f. Released g (fi_Key f) now)
      in case dropWhile rel files of
           [] \<Rightarrow> files
         | f # rest \<Rightarrow> takeWhile rel files @ filter rel rest)"

section \<open>What is released\<close>

lemma ReleasedFiles_filter: "ReleasedFiles g files now = filter (\<lambda>f. Released g (fi_Key f) now) files"
proof -
  have "(case dropWhile P xs of [] \<Rightarrow> xs | x # rest \<Rightarrow> takeWhile P xs @ filter P rest) = filter P xs"
    for P and xs :: "fileInfo list"
  proof (cases "dropWhile P xs")
    case (Cons x rest)
    have "\<not> P x" using hd_dropWhile [of P xs] Cons by simp
    moreover have "filter P xs = filter P (takeWhile P xs @ x # rest)" using takeWhile_dropWhile_id [of P xs] Cons by simp
    moreover have "filter P (takeWhile P xs) = takeWhile P xs" by (rule filter_True) (blast dest: set_takeWhileD)
    ultimately show ?thesis using Cons by simp
  next
    case Nil
    then have "filter P xs = xs" by (intro filter_True) (simp add: dropWhile_eq_Nil_conv)
    then show ?thesis using Nil by (simp only: list.case)
  qed
  then show ?thesis by (simp add: ReleasedFiles_def Let_def)
qed

text \<open>A nonce always carries a time.\<close>

lemma lowerHex_val: "byteIn (CHR ''0'') (CHR ''9'') c \<or> byteIn (CHR ''a'') (CHR ''f'') c \<Longrightarrow> lowerHexVal c \<noteq> None"
  by (auto simp: lowerHexVal_def byteIn_def less_eq_char_def)

lemma parseHexDigits_ok: "isLowerHex s \<Longrightarrow> \<exists>n. parseHexDigits s ns = Some n"
proof (induction s arbitrary: ns)
  case (Cons c s)
  then show ?case using lowerHex_val [of c] by (auto simp: isLowerHex_def split: option.split)
qed simp

lemma nonce_time:
  assumes "SegmentNonceOfKey key \<noteq> []"
  shows "\<exists>t. SegmentNonceTime (SegmentNonceOfKey key) = Some t"
proof -
  have n: "length (SegmentNonceOfKey key) = SegmentNonceLen" "isLowerHex (SegmentNonceOfKey key)"
    using assms by (auto simp: SegmentNonceOfKey_def Let_def SegmentNonceLen_def split: if_splits)
  then have "isLowerHex (take 8 (SegmentNonceOfKey key))" by (auto simp: isLowerHex_def list_all_iff dest: in_set_takeD)
  then show ?thesis using n parseHexDigits_ok [of "take 8 (SegmentNonceOfKey key)" 0] by (auto simp: SegmentNonceTime_def)
qed

text \<open>The objects of a segment that is not known to be committed, or whose grace has not passed, are kept for a week.\<close>

lemma live_segment_kept:
  assumes "SegmentNonceOfKey key \<noteq> []" "SegmentNonceTime (SegmentNonceOfKey key) = Some t" "timeSub now t < SegmentReleaseAfter"
    and "\<forall>g'. g = Some g' \<longrightarrow> sg_Listed g' \<longrightarrow>
      (\<forall>c. mget (sg_Markers g') (SegmentNonceOfKey key) = Some c \<longrightarrow> timeSub now c < sg_Protect g')"
  shows "\<not> Released g key now"
  using assms by (auto simp: Released_def Let_def simp del: map_of_eq_Some_iff split: option.splits)

lemma timeSub_mono: "now \<le> now' \<Longrightarrow> timeSub now t \<le> timeSub now' t"
  by (auto simp: timeSub_def)

lemma Released_iff:
  "Released g key now \<longleftrightarrow> SegmentNonceOfKey key = []
     \<or> (\<exists>t. SegmentNonceTime (SegmentNonceOfKey key) = Some t \<and> SegmentReleaseAfter \<le> timeSub now t)
     \<or> (\<exists>g' c. g = Some g' \<and> sg_Listed g' \<and> mget (sg_Markers g') (SegmentNonceOfKey key) = Some c \<and> sg_Protect g' \<le> timeSub now c)"
  by (auto simp: Released_def Let_def simp del: map_of_eq_Some_iff split: option.splits)

lemma Released_mono: "now \<le> now' \<Longrightarrow> Released g key now \<Longrightarrow> Released g key now'"
  unfolding Released_iff using timeSub_mono [of now now'] by (metis order_trans)

end
