(* ===== verification/Scan.thy ===== *)
theory Scan
  imports Compactor Scheduling Ownership Segments
begin

text \<open>
  One scan of the compaction scheduler and the forced compaction of a partition:
  \<open>src/internal/compaction/scheduler.go\<close>. A scan reclaims retired objects, makes a plan for every tenant group of the
  partitions this pod owns, leaves out what recently failed, orders the plans, shares the merge slots
  between the tenants and runs the merges one by one.

  The state is the world of the compactor with the backoff, the fair-share cursor and the window of
  ring changes. What the environment decides is in \<open>scanEnv\<close>: the clocks, the drain flag and the
  elapsed time before each merge, the listing of the segment markers and whether the context is done
  while an object is reclaimed; other goroutines act through \<open>ce_others\<close> at the points \<open>AtReclaim\<close>,
  \<open>AtPlan\<close> and \<open>AtMerge\<close>. The pool is set, the ring is the same throughout a scan and \<open>MaxConcurrent\<close> is not negative. The scan also returns the merges it started, each with its plan and the
  files it ran on, which the code only logs. The result is \<open>None\<close> when the fair share does not
  end. Not modelled: gauges, log lines, the wait group of \<open>Drain\<close> and the callback after a merge.
\<close>

section \<open>Settings\<close>

record schedulerConfig =
  sc_Interval :: int
  sc_MaxConcurrent :: int
  sc_RingChangeRateLimit :: int
  sc_ScanBudget :: int

definition NewScheduler :: "schedulerConfig \<Rightarrow> schedulerConfig" where
  "NewScheduler cfg =
     (let interval = (if sc_Interval cfg = 0 then 5 * minute else sc_Interval cfg)
      in \<lparr>sc_Interval = interval,
          sc_MaxConcurrent = (if sc_MaxConcurrent cfg = 0 then 1 else sc_MaxConcurrent cfg),
          sc_RingChangeRateLimit =
            (if sc_RingChangeRateLimit cfg < 0 then 0 else if sc_RingChangeRateLimit cfg = 0 then 6
             else sc_RingChangeRateLimit cfg),
          sc_ScanBudget = (if sc_ScanBudget cfg = 0 then interval else sc_ScanBudget cfg)\<rparr>)"

record ('d, 'r, 'x) scanEnv =
  se_c :: "('d, 'r) cenv"
  se_cfg :: schedulerConfig
  se_ownership :: resolver
  se_policy :: levelPolicy
  se_freeze :: "lifecycleFreeze option"
  se_currentFP :: string
  se_debt :: "mergePlan \<Rightarrow> 'x"
  se_planNow :: int
  se_ringNow :: int
  se_mergeNow :: "nat \<Rightarrow> int"
  se_attemptNow :: "nat \<Rightarrow> int"
  se_elapsed :: "nat \<Rightarrow> int"
  se_draining :: "nat \<Rightarrow> bool"
  se_cancelled :: "string \<Rightarrow> bool"
  se_lister :: bool
  se_listMarkers :: "'d cworld \<Rightarrow> (string, int) gomap option"
  se_protect :: int

record 'd sched =
  sd_w :: "'d cworld"
  sd_backoff :: planBackoff
  sd_fair :: "fairShare option"
  sd_ring :: "int list"

section \<open>Reclaiming\<close>

definition maxReclaimPerScan :: nat where "maxReclaimPerScan = 1000"

text \<open>The delete of a retired object landed: the record is settled if the key was not retired again since.\<close>

definition settleRetired :: "retiredKey \<Rightarrow> manifest \<Rightarrow> manifest" where
  "settleRetired rk m =
     (case mget (m_retired m) (rk_Key rk) of
        None \<Rightarrow> m
      | Some cur \<Rightarrow>
          if rk_At cur = rk_At rk
          then m\<lparr>m_retired := mput (rk_Key rk) (cur\<lparr>rk_Reclaim := False, rk_Deleted := True\<rparr>) (m_retired m)\<rparr>
          else m)"

fun reclaimRun :: "('d, 'r) cenv \<Rightarrow> (string \<Rightarrow> bool) \<Rightarrow> nat \<Rightarrow> retiredKey list \<Rightarrow> nat \<Rightarrow> 'd cworld \<Rightarrow> 'd cworld" where
  "reclaimRun E cancelled i [] tried w = w"
| "reclaimRun E cancelled i (rk # rks) tried w =
     (if tried \<ge> maxReclaimPerScan then w
      else if \<not> rk_Reclaim rk \<or> cancelled (rk_Key rk) \<or> HasKey (rk_Key rk) (cw_man w)
      then reclaimRun E cancelled (Suc i) rks tried w
      else let w1 = ce_others E (AtReclaim i) w
           in if ce_delFails E (rk_Key rk) then reclaimRun E cancelled (Suc i) rks (Suc tried) w1
              else reclaimRun E cancelled (Suc i) rks (Suc tried)
                     (onMan (settleRetired rk) (w1\<lparr>cw_objs := mdel (rk_Key rk) (cw_objs w1)\<rparr>)))"

definition reclaim :: "('d, 'r) cenv \<Rightarrow> (string \<Rightarrow> bool) \<Rightarrow> 'd cworld \<Rightarrow> 'd cworld" where
  "reclaim E cancelled w = reclaimRun E cancelled 0 (RetiredKeys (cw_man w)) 0 w"

section \<open>The segment markers\<close>

definition maxMarkerDeletesPerScan :: nat where "maxMarkerDeletesPerScan = 1000"

definition markerStep ::
    "('d, 'r) cenv \<Rightarrow> int \<Rightarrow> string \<times> int \<Rightarrow> (string, int) gomap \<times> nat \<times> 'd cworld \<Rightarrow> (string, int) gomap \<times> nat \<times> 'd cworld" where
  "markerStep E now km st =
     (case (km, st) of ((key, mod'), (markers, deleted, w)) \<Rightarrow>
        let nonce = drop (length (ce_prefix E @ SegmentMarkerDir)) key
        in if timeSub now mod' \<ge> SegmentReleaseAfter + 24 * hour \<and> deleted < maxMarkerDeletesPerScan
           then if ce_delFails E key then st else (markers, Suc deleted, w\<lparr>cw_objs := mdel key (cw_objs w)\<rparr>)
           else (mput nonce mod' markers, deleted, w))"

definition segmentGuardOf :: "('d, 'r, 'x) scanEnv \<Rightarrow> int \<Rightarrow> 'd cworld \<Rightarrow> segmentGuard \<times> 'd cworld" where
  "segmentGuardOf X now w =
     (let none = \<lparr>sg_Markers = [], sg_Listed = False, sg_Protect = se_protect X\<rparr>
      in if \<not> se_lister X then (none, w)
         else case se_listMarkers X w of
           None \<Rightarrow> (none, w)
         | Some listed \<Rightarrow>
             (case fold (markerStep (se_c X) now) listed ([], 0, w) of
                (markers, deleted, w') \<Rightarrow> (\<lparr>sg_Markers = markers, sg_Listed = True, sg_Protect = se_protect X\<rparr>, w')))"

section \<open>Planning every partition\<close>

text \<open>\<open>RangePartitions\<close> reads the names of the partitions first and holds the lock for one partition at a time.\<close>

fun planAll ::
    "('d, 'r, 'x) scanEnv \<Rightarrow> segmentGuard \<Rightarrow> nat \<Rightarrow> string list \<Rightarrow> planner \<Rightarrow> 'd cworld \<Rightarrow> mergePlan list \<times> planner \<times> 'd cworld" where
  "planAll X g i [] pl w = ([], pl, w)"
| "planAll X g i (part # parts) pl w0 =
     (let w = ce_others (se_c X) (AtPlan i) w0; files = filesOf (m_files (cw_man w)) part
      in if files = [] \<or> \<not> OwnsPartition (se_ownership X) part then planAll X g (Suc i) parts pl w
         else case parsePartitionTime part of
           None \<Rightarrow> planAll X g (Suc i) parts pl w
         | Some pt \<Rightarrow>
             (case planPart pl part (ReleasedFiles (Some g) files (se_planNow X)) pt of
                (plans, saws, pl1) \<Rightarrow>
                  (case planAll X g (Suc i) parts pl1 w of (rest, pl2, w2) \<Rightarrow> (plans @ rest, pl2, w2))))"

section \<open>Before each merge\<close>

definition withoutHeld :: "'d cworld \<Rightarrow> fileInfo list \<Rightarrow> fileInfo list" where
  "withoutHeld w files = filter (\<lambda>fi. \<not> (IsHeld (fi_Key fi) (cw_man w) \<or> fenceKey fi \<in> set (cw_fence w))) files"

definition stillLive :: "'d cworld \<Rightarrow> string \<Rightarrow> fileInfo list \<Rightarrow> fileInfo list" where
  "stillLive w part planned =
     (let live = fold (\<lambda>f. mput (fi_Key f) f) (withoutHeld w (filesOf (m_files (cw_man w)) part)) []
      in concat (map (\<lambda>f. case mget live (fi_Key f) of
             None \<Rightarrow> []
           | Some current \<Rightarrow> if fi_Bucket current = fi_Bucket f then [current] else []) planned))"

text \<open>The zero time, which a partition name that does not parse is given.\<close>

definition zeroTime :: int where "zeroTime = - 62135596800 * second"

definition compactableNow :: "'d cworld \<Rightarrow> string \<Rightarrow> fileInfo list \<Rightarrow> lifecycleFreeze option \<Rightarrow> int \<Rightarrow> fileInfo list" where
  "compactableNow w part planned freeze now =
     (let pt = (case parsePartitionTime part of None \<Rightarrow> zeroTime | Some t \<Rightarrow> t)
      in filter (\<lambda>f. \<not> fst (frozen freeze f pt now)) (stillLive w part planned))"

definition runMerge ::
    "('d, 'r, 'x) scanEnv \<Rightarrow> nat \<Rightarrow> string \<Rightarrow> fileInfo list \<Rightarrow> int \<Rightarrow> 'd cworld \<Rightarrow> (cerror + compactResult) \<times> 'd cworld" where
  "runMerge X i part selected level w =
     Compact (se_c X) part selected level (onMan (MarkAttempt part (se_attemptNow X i)) w)"

section \<open>The merges of a scan\<close>

type_synonym merge_log = "(mergePlan \<times> fileInfo list) list"

fun mergeLoop ::
    "('d, 'r, 'x) scanEnv \<Rightarrow> nat \<Rightarrow> mergePlan list \<Rightarrow> string list \<Rightarrow> nat \<Rightarrow> merge_log \<Rightarrow> 'd sched \<Rightarrow> nat \<times> merge_log \<times> 'd sched" where
  "mergeLoop X i [] tenants n log st = (n, log, st)"
| "mergeLoop X i (c # cs) tenants n log st =
     (if se_draining X (Suc i) then (n, log, st)
      else if i > 0 \<and> sc_ScanBudget (se_cfg X) > 0 \<and> se_elapsed X i \<ge> sc_ScanBudget (se_cfg X)
      then (n, log, st\<lparr>sd_fair := (if length tenants > 1 then map_option (Advance (int (length tenants) - 1)) (sd_fair st) else sd_fair st)\<rparr>)
      else let w = ce_others (se_c X) (AtMerge i) (sd_w st);
               tenants' = List.insert (mp_tenant c) tenants;
               selected = compactableNow w (mp_partition c) (mp_files c) (se_freeze X) (se_mergeNow X i)
           in if length selected < 2 then mergeLoop X (Suc i) cs tenants' n log (st\<lparr>sd_w := w\<rparr>)
              else case runMerge X i (mp_partition c) selected (mp_level c) w of
                (Inl e, w') \<Rightarrow>
                  mergeLoop X (Suc i) cs tenants' n (log @ [(c, selected)])
                    (st\<lparr>sd_w := w', sd_backoff := backoffFailed c (se_planNow X) (sc_Interval (se_cfg X)) (sd_backoff st)\<rparr>)
              | (Inr r, w') \<Rightarrow>
                  if cr_OutputFiles r = [] then mergeLoop X (Suc i) cs tenants' n (log @ [(c, selected)]) (st\<lparr>sd_w := w'\<rparr>)
                  else mergeLoop X (Suc i) cs tenants' (Suc n) (log @ [(c, selected)])
                         (st\<lparr>sd_w := w', sd_backoff := backoffSucceeded c (sd_backoff st)\<rparr>))"

section \<open>The scan\<close>

text \<open>The plans of a scan: every owned partition, the backoff, the order.\<close>

definition scanPlans :: "('d, 'r, 'x :: linorder) scanEnv \<Rightarrow> 'd sched \<Rightarrow> mergePlan list \<times> 'd sched" where
  "scanPlans X st =
     (case segmentGuardOf X (se_planNow X) (sd_w st) of
        (g, w1) \<Rightarrow>
          let pl = newPlanner (se_policy X) (se_currentFP X) (se_planNow X) (HeldKeys (cw_man w1)) (cw_fence w1) (se_freeze X)
          in case planAll X g 0 (mkeys (m_files (cw_man w1))) pl w1 of
               (candidates, pl', w2) \<Rightarrow>
                 (case backoffFilter candidates (se_planNow X) (sd_backoff st) of
                    (plans, b) \<Rightarrow> (sortPlans (se_debt X) plans, st\<lparr>sd_w := w2, sd_backoff := b\<rparr>)))"

definition scanPick :: "('d, 'r, 'x) scanEnv \<Rightarrow> mergePlan list \<Rightarrow> 'd sched \<Rightarrow> (mergePlan list \<times> 'd sched) option" where
  "scanPick X candidates st =
     (let budget = sc_MaxConcurrent (se_cfg X) * int (tenantsWithWork candidates)
      in case sd_fair st of
           Some f \<Rightarrow> map_option (\<lambda>(picked, f'). (picked, st\<lparr>sd_fair := Some f'\<rparr>)) (PickCandidates candidates budget f)
         | None \<Rightarrow> Some (if int (length candidates) > budget then take (nat budget) candidates else candidates, st))"

definition Scan :: "('d, 'r, 'x :: linorder) scanEnv \<Rightarrow> 'd sched \<Rightarrow> (nat \<times> merge_log \<times> 'd sched) option" where
  "Scan X st =
     (if se_draining X 0 then Some (0, [], st)
      else let st1 = st\<lparr>sd_w := reclaim (se_c X) (se_cancelled X) (sd_w st)\<rparr>
           in if IsStabilizing (se_ownership X) then Some (0, [], st1)
              else let limited = sc_RingChangeRateLimit (se_cfg X) > 0;
                       recent = recentRingChanges (se_ringNow X) (sd_ring st1);
                       st2 = (if limited then st1\<lparr>sd_ring := snd recent\<rparr> else st1)
                   in if limited \<and> int (fst recent) > sc_RingChangeRateLimit (se_cfg X) then Some (0, [], st2)
                      else case scanPlans X st2 of
                        (candidates, st3) \<Rightarrow>
                          (case scanPick X candidates st3 of
                             None \<Rightarrow> None
                           | Some (picked, st4) \<Rightarrow> Some (mergeLoop X 0 picked [] 0 [] st4)))"

section \<open>Forced compaction\<close>

datatype forceError = FDraining | FEmpty | FMerge cerror | FFenced "string list" | FTooFew

definition forceLevel :: "fileInfo list \<Rightarrow> string \<Rightarrow> int \<Rightarrow> int" where
  "forceLevel live currentFP level =
     (if level \<le> 0 then (case recompactionLevel live currentFP of Some l \<Rightarrow> l | None \<Rightarrow> topLevel live) else level)"

definition addForced :: "compactResult \<Rightarrow> compactResult \<Rightarrow> compactResult" where
  "addForced r res =
     (let res1 = res\<lparr>cr_FencedFiles := cr_FencedFiles res @ cr_FencedFiles r\<rparr>
      in if cr_OutputFiles r = [] then res1
         else res1\<lparr>cr_InputFiles := cr_InputFiles res1 @ cr_InputFiles r, cr_OutputFiles := cr_OutputFiles res1 @ cr_OutputFiles r,
                   cr_RowsMerged := cr_RowsMerged res1 + cr_RowsMerged r, cr_BytesRead := cr_BytesRead res1 + cr_BytesRead r,
                   cr_BytesWritten := cr_BytesWritten res1 + cr_BytesWritten r, cr_OutputLevel := cr_OutputLevel r\<rparr>)"

fun forceLoop ::
    "('d, 'r, 'x) scanEnv \<Rightarrow> string \<Rightarrow> int \<Rightarrow> nat \<Rightarrow> tenantFileGroup list \<Rightarrow> compactResult \<Rightarrow> cerror option \<Rightarrow> 'd cworld
     \<Rightarrow> compactResult \<times> cerror option \<times> 'd cworld" where
  "forceLoop X part level i [] res firstErr w = (res, firstErr, w)"
| "forceLoop X part level i (g # gs) res firstErr w0 =
     (let pt = (case parsePartitionTime part of None \<Rightarrow> zeroTime | Some t \<Rightarrow> t);
          live = filter (\<lambda>f. \<not> fst (frozen (se_freeze X) f pt (se_planNow X))) (tg_Files g);
          lvl = forceLevel live (se_currentFP X) level;
          w = ce_others (se_c X) (AtMerge i) w0;
          selected = compactableNow w part (SelectFiles live lvl (MajoritySchemaFingerprint live lvl)) (se_freeze X) (se_mergeNow X i)
      in if length selected < 2 then forceLoop X part level (Suc i) gs res firstErr w
         else case runMerge X i part selected lvl w of
           (Inl e, w') \<Rightarrow> forceLoop X part level (Suc i) gs res (case firstErr of None \<Rightarrow> Some e | Some e0 \<Rightarrow> Some e0) w'
         | (Inr r, w') \<Rightarrow> forceLoop X part level (Suc i) gs (addForced r res) firstErr w')"

text \<open>The result and the error: a partial success has both. A merge that was counted always has an output.\<close>

definition ForceCompactPartition ::
    "('d, 'r, 'x) scanEnv \<Rightarrow> string \<Rightarrow> int \<Rightarrow> 'd cworld \<Rightarrow> compactResult option \<times> forceError option \<times> 'd cworld" where
  "ForceCompactPartition X part level w =
     (if se_draining X 0 then (None, Some FDraining, w)
      else case segmentGuardOf X (se_planNow X) w of
        (g, w1) \<Rightarrow>
          let files = ReleasedFiles (Some g) (withoutHeld w1 (filesOf (m_files (cw_man w1)) part)) (se_planNow X)
          in if files = [] then (None, Some FEmpty, w1)
             else case forceLoop X part level 0 (groupFilesByTenant files)
                 \<lparr>cr_InputFiles = [], cr_OutputFiles = [], cr_RowsMerged = 0, cr_BytesRead = 0, cr_BytesWritten = 0,
                  cr_OutputLevel = 0, cr_FencedFiles = []\<rparr> None w1 of
               (res, firstErr, w2) \<Rightarrow>
                 if cr_OutputFiles res = []
                 then (None, Some (case firstErr of
                         Some e \<Rightarrow> FMerge e
                       | None \<Rightarrow> if cr_FencedFiles res \<noteq> [] then FFenced (cr_FencedFiles res) else FTooFew), w2)
                 else (Some res, map_option FMerge firstErr, w2))"

end
