(* ===== verification/ScanProofs.thy ===== *)
theory ScanProofs
  imports Scan CompactorProofs PlannerProofs SchedulingProofs
begin

text \<open>
  A scan neither loses nor duplicates a row that is served, and it only merges what it may: the facts of the reclaim,
  the planning and the merges, put together.
\<close>

text \<open>The assumptions of a scan. \<open>K\<close> holds the output names that can be drawn, the keys of the segment markers and
  the empty key.\<close>

definition scan_env :: "('d, 'r, 'x) scanEnv \<Rightarrow> string set \<Rightarrow> (string \<Rightarrow> 'd) \<Rightarrow> bool" where
  "scan_env X K C \<longleftrightarrow> polite (se_c X) (- K) K C
     \<and> (\<forall>rows a b h d. ce_write (se_c X) rows a b h = Some d \<longrightarrow> ce_rows (se_c X) d = Some rows)
     \<and> [] \<in> K \<and> (\<forall>pre part lvl j. outputName pre part lvl (ce_ids (se_c X) j) \<in> K)
     \<and> (\<forall>w listed. se_listMarkers X w = Some listed \<longrightarrow> set (mkeys listed) \<subseteq> K)"

definition clean :: "string set \<Rightarrow> (string \<Rightarrow> 'd) \<Rightarrow> 'd cworld \<Rightarrow> bool" where
  "clean K C w \<longleftrightarrow> world_ok (- K) C w \<and> registered w \<inter> K = {}"

lemma merge_env_of:
  assumes "scan_env X K C" "fi_Key ` set files \<inter> K = {}"
  shows "merge_env (se_c X) (- K) files part lvl K C"
proof -
  have "fi_Key f \<noteq> []" if "f \<in> set files" for f
  proof
    assume "fi_Key f = []"
    then have "[] \<in> fi_Key ` set files" using that by (metis imageI)
    then show False using assms unfolding scan_env_def by blast
  qed
  then show ?thesis using assms by (auto simp: merge_env_def scan_env_def)
qed

lemma clean_others:
  assumes "scan_env X K C" "clean K C w"
  shows "clean K C (ce_others (se_c X) p w)"
proof -
  have P: "polite (se_c X) (- K) K C" "world_ok (- K) C w" using assms by (simp_all add: scan_env_def clean_def)
  show ?thesis using politeD(1,3) [OF P, where p = p] assms(2) unfolding clean_def by blast
qed

section \<open>The reclaim\<close>

lemma settleRetired_eq:
  "settleRetired rk m = m \<or> settleRetired rk m = ConfirmDeleted (rk_Key rk) m"
  by (auto simp: settleRetired_def ConfirmDeleted_def split: option.split)

lemma settled_ok:
  assumes "world_ok S C w" "owed w (rk_Key rk)"
  defines "w' \<equiv> onMan (settleRetired rk) (w\<lparr>cw_objs := mdel (rk_Key rk) (cw_objs w)\<rparr>)"
  shows "world_ok S C w'" "served E w' = served E w" "registered w' = registered w"
    "\<And>k. k \<noteq> rk_Key rk \<Longrightarrow> owed w k \<Longrightarrow> owed w' k"
proof -
  let ?d = "w\<lparr>cw_objs := mdel (rk_Key rk) (cw_objs w)\<rparr>"
  have un: "rk_Key rk \<notin> registered w" by (rule owed_unregistered [OF assms(1,2)])
  have e: "w' = ?d \<or> w' = onMan (ConfirmDeleted (rk_Key rk)) ?d"
    using settleRetired_eq [of rk "cw_man w"] by (auto simp: w'_def onMan_def)
  note T = settle_ok [OF assms(1,2)]
  show "world_ok S C w'" using e T(1) ok_del [OF assms(1) un] by metis
  show "served E w' = served E w" using e T(2) served_del [OF un] by metis
  show "registered w' = registered w" using e T(3) by (auto simp: registered_def)
  show "\<And>k. k \<noteq> rk_Key rk \<Longrightarrow> owed w k \<Longrightarrow> owed w' k"
    using e T(4) by (auto simp: owed_def simp del: map_of_eq_Some_iff)
qed

lemma choice4: "r = (if a then x else if \<not> b \<or> c then y else if e then z else v) \<Longrightarrow> r = x \<or> r = y \<or> r = z \<or> r = v \<and> b"
  by auto

lemma reclaimRun_ok:
  assumes "scan_env X K C" "clean K C w" "distinct (map rk_Key rks)" "\<forall>rk \<in> set rks. rk_Reclaim rk \<longrightarrow> owed w (rk_Key rk)"
  shows "quiet (se_c X) w (reclaimRun (se_c X) cancelled i rks tried w) \<and> clean K C (reclaimRun (se_c X) cancelled i rks tried w)"
  using assms(2-4)
proof (induction rks arbitrary: i tried w)
  case (Cons rk rks)
  let ?E = "se_c X"
  let ?w = "ce_others ?E (AtReclaim i) w"
  have d: "distinct (map rk_Key rks)" "\<And>x. x \<in> set rks \<Longrightarrow> rk_Key x \<noteq> rk_Key rk" using Cons.prems(2) by (simp_all, metis image_eqI)
  have ow: "\<forall>x \<in> set rks. rk_Reclaim x \<longrightarrow> owed w (rk_Key x)" using Cons.prems(3) by simp
  have P: "polite ?E (- K) K C" "world_ok (- K) C w" using assms(1) Cons.prems(1) by (simp_all add: scan_env_def clean_def)
  have ow': "owed ?w k" if "owed w k" for k using politeD(4) [OF P] that by blast
  have cl: "clean K C ?w" by (rule clean_others [OF assms(1) Cons.prems(1)])
  consider (stop) "reclaimRun ?E cancelled i (rk # rks) tried w = w"
    | (skipped) "reclaimRun ?E cancelled i (rk # rks) tried w = reclaimRun ?E cancelled (Suc i) rks tried w"
    | (failed) "reclaimRun ?E cancelled i (rk # rks) tried w = reclaimRun ?E cancelled (Suc i) rks (Suc tried) ?w"
    | (gone) "reclaimRun ?E cancelled i (rk # rks) tried w = reclaimRun ?E cancelled (Suc i) rks (Suc tried)
        (onMan (settleRetired rk) (?w\<lparr>cw_objs := mdel (rk_Key rk) (cw_objs ?w)\<rparr>))" "rk_Reclaim rk"
    using choice4 [OF reclaimRun.simps(2) [of ?E cancelled i rk rks tried w, unfolded Let_def]] by blast
  then show ?case
  proof cases
    case stop
    then show ?thesis using Cons.prems(1) quiet_refl by simp
  next
    case skipped
    show ?thesis unfolding skipped by (rule Cons.IH [OF Cons.prems(1) d(1) ow])
  next
    case failed
    have "\<forall>x \<in> set rks. rk_Reclaim x \<longrightarrow> owed ?w (rk_Key x)" using ow ow' by blast
    from Cons.IH [OF cl d(1) this] show ?thesis unfolding failed using quiet_trans [OF _ quiet_by] by blast
  next
    case gone
    let ?v = "onMan (settleRetired rk) (?w\<lparr>cw_objs := mdel (rk_Key rk) (cw_objs ?w)\<rparr>)"
    have o: "owed ?w (rk_Key rk)" using ow' gone(2) Cons.prems(3) by simp
    have wo: "world_ok (- K) C ?w" using cl by (simp add: clean_def)
    note T = settled_ok [OF wo o]
    have "clean K C ?v" using T(1,3) cl by (simp add: clean_def)
    moreover have "\<forall>x \<in> set rks. rk_Reclaim x \<longrightarrow> owed ?v (rk_Key x)" using T(4) d(2) ow ow' by blast
    ultimately show ?thesis unfolding gone(1) using Cons.IH [of ?v "Suc i" "Suc tried"] d(1)
        quiet_trans [OF _ quiet_own [OF quiet_by T(2)]] by blast
  qed
qed (simp add: quiet_refl)

lemma reclaim_ok:
  assumes "scan_env X K C" "clean K C w"
  shows "quiet (se_c X) w (reclaim (se_c X) cancelled w)" "clean K C (reclaim (se_c X) cancelled w)"
proof -
  let ?m = "cw_man w"
  have g: "wfmap (m_retired ?m)" "\<And>k rk. mget (m_retired ?m) k = Some rk \<Longrightarrow> rk_Key rk = k"
    using assms(2) by (auto simp: clean_def world_ok_def man_ok_def guard_ok_def simp del: map_of_eq_Some_iff)
  have k: "map rk_Key (map snd (m_retired ?m)) = mkeys (m_retired ?m)" using g by force
  have "mset (map rk_Key (RetiredKeys ?m)) = mset (mkeys (m_retired ?m))"
    unfolding k [symmetric] mset_map RetiredKeys_def mset_sort_slice by simp
  then have "distinct (map rk_Key (RetiredKeys ?m))" using g(1) mset_eq_imp_distinct_iff by metis
  moreover have "\<forall>rk \<in> set (RetiredKeys ?m). rk_Reclaim rk \<longrightarrow> owed w (rk_Key rk)"
    using g by (auto simp: RetiredKeys_def owed_def)
  ultimately show "quiet (se_c X) w (reclaim (se_c X) cancelled w)" "clean K C (reclaim (se_c X) cancelled w)"
    unfolding reclaim_def using reclaimRun_ok [OF assms] by blast+
qed

section \<open>The markers\<close>

lemma markerFold_ok:
  assumes "clean K C w" "set (mkeys listed) \<subseteq> K" "fold (markerStep E now) listed (ms, n, w) = (ms', n', w')"
  shows "served E w' = served E w \<and> clean K C w'"
  using assms
proof (induction listed arbitrary: ms n w)
  case (Cons km listed)
  obtain key md where km: "km = (key, md)" by fastforce
  obtain ms1 n1 w1 where s: "markerStep E now km (ms, n, w) = (ms1, n1, w1)" by (metis prod_cases3)
  have "key \<notin> registered w" using Cons.prems(1,2) km by (auto simp: clean_def)
  note D = served_del [OF this, of E] ok_del [OF _ this]
  have w1: "w1 = w \<or> w1 = w\<lparr>cw_objs := mdel key (cw_objs w)\<rparr>" using s by (auto simp: markerStep_def km Let_def split: if_splits)
  then have "served E w1 = served E w" using D(1) by metis
  moreover have "registered w1 = registered w" using w1 by (auto simp: registered_def)
  then have "clean K C w1" using w1 Cons.prems(1) D(2) unfolding clean_def by metis
  ultimately show ?case using Cons.IH [of w1 ms1 n1] Cons.prems(2,3) s by (simp add: km)
qed simp

lemma segmentGuard_ok:
  assumes "scan_env X K C" "clean K C w" "segmentGuardOf X now w = (g, w')"
  shows "quiet (se_c X) w w'" "clean K C w'"
proof -
  have "served (se_c X) w' = served (se_c X) w \<and> clean K C w'"
  proof (cases "w' = w")
    case False
    then obtain listed ms n where l: "se_listMarkers X w = Some listed"
      "fold (markerStep (se_c X) now) listed ([], 0, w) = (ms, n, w')"
      using assms(3) by (auto simp: segmentGuardOf_def Let_def split: if_splits option.splits prod.splits)
    have "set (mkeys listed) \<subseteq> K" using assms(1) l(1) by (auto simp: scan_env_def)
    from markerFold_ok [OF assms(2) this l(2)] show ?thesis .
  qed (use assms(2) in simp)
  then show "quiet (se_c X) w w'" "clean K C w'" using quiet_step by auto
qed

section \<open>Planning\<close>

lemma planPart_files:
  assumes "view_ok (pl_freeze pl)" "planPart pl part files pt = (plans, saws, pl')" "q \<in> set plans"
  shows "mp_partition q = part" "mp_time q = pt" "2 \<le> length (mp_files q)"
    "\<And>x. x \<in> set (mp_files q) \<Longrightarrow> x \<in> set files \<and> \<not> heldOrFenced pl x"
proof -
  have "q \<in> refPlans pl part files pt" using planPart_exact(1) [OF assms(1,2)] assms(3) by blast
  then obtain gk ok where o: "plan_ok (pl_policy pl) (groupFiles pl files gk) (timeSub (pl_now pl) pt) (pl_currentFP pl) ok
      (mp_level q, mp_files q, mp_reason q)" "mp_partition q = part" "mp_time q = pt"
    using refPlans_planned by blast
  then show "mp_partition q = part" "mp_time q = pt" "2 \<le> length (mp_files q)" by (auto simp: plan_ok_def)
  have "subseq (mp_files q) (groupFiles pl files gk)" using o(1) by (simp add: plan_ok_def)
  then show "\<And>x. x \<in> set (mp_files q) \<Longrightarrow> x \<in> set files \<and> \<not> heldOrFenced pl x"
    using subseq_sub by (fastforce simp: groupFiles_def skip_def)
qed

lemma tracked_registered: "world_ok S C w \<Longrightarrow> f \<in> set (filesOf (m_files (cw_man w)) part) \<Longrightarrow> fi_Key f \<in> registered w"
  by (auto simp: world_ok_def man_ok_def files_ok_def indexes_def registered_mhas mhas_def)

text \<open>What a plan of a scan is made of.\<close>

definition plannable :: "('d, 'r, 'x) scanEnv \<Rightarrow> segmentGuard \<Rightarrow> string list \<Rightarrow> string list \<Rightarrow> string set \<Rightarrow> mergePlan \<Rightarrow> bool" where
  "plannable X g held log K q \<longleftrightarrow> OwnsPartition (se_ownership X) (mp_partition q)
     \<and> parsePartitionTime (mp_partition q) = Some (mp_time q) \<and> 2 \<le> length (mp_files q)
     \<and> (\<forall>f \<in> set (mp_files q). fi_Key f \<notin> K \<and> fi_Key f \<notin> set held \<and> fenceKey f \<notin> set log
          \<and> Released (Some g) (fi_Key f) (se_planNow X))"

lemma planAll_ok:
  assumes "scan_env X K C" "clean K C w" "view_ok (pl_freeze pl)" "planAll X g i parts pl w = (plans, pl', w')"
  shows "quiet (se_c X) w w' \<and> clean K C w' \<and> (\<forall>q \<in> set plans. plannable X g (pl_held pl) (pl_fenceLog pl) K q)"
  using assms(2-4)
proof (induction parts arbitrary: i pl w plans pl' w')
  case (Cons part parts)
  let ?w = "ce_others (se_c X) (AtPlan i) w"
  let ?files = "filesOf (m_files (cw_man ?w)) part"
  have cl: "clean K C ?w" by (rule clean_others [OF assms(1) Cons.prems(1)])
  have q: "quiet (se_c X) w ?w" by (rule quiet_by)
  show ?case
  proof (cases "?files = [] \<or> \<not> OwnsPartition (se_ownership X) part \<or> parsePartitionTime part = None")
    case True
    then have "planAll X g (Suc i) parts pl ?w = (plans, pl', w')" using Cons.prems(3) by (auto simp: Let_def split: if_splits)
    from Cons.IH [OF cl Cons.prems(2) this] show ?thesis using quiet_trans [OF _ q] by blast
  next
    case False
    then obtain pt where pt: "parsePartitionTime part = Some pt" by blast
    obtain ps saws pl1 where pp: "planPart pl part (ReleasedFiles (Some g) ?files (se_planNow X)) pt = (ps, saws, pl1)" by (metis prod_cases3)
    obtain rest pl2 w2 where rs: "planAll X g (Suc i) parts pl1 ?w = (rest, pl2, w2)" by (metis prod_cases3)
    have e: "plans = ps @ rest" "w' = w2" using Cons.prems(3) False pt pp rs by (auto simp: Let_def)
    note L = planPart_exact(2,4) [OF Cons.prems(2) pp]
    have h: "pl_held pl1 = pl_held pl" "pl_fenceLog pl1 = pl_fenceLog pl" by (subst L(2), simp)+
    note R = Cons.IH [OF cl L(1) rs, unfolded h]
    have "plannable X g (pl_held pl) (pl_fenceLog pl) K q" if "q \<in> set ps" for q
    proof -
      note F = planPart_files [OF Cons.prems(2) pp that]
      have "fi_Key f \<notin> K \<and> fi_Key f \<notin> set (pl_held pl) \<and> fenceKey f \<notin> set (pl_fenceLog pl) \<and> Released (Some g) (fi_Key f) (se_planNow X)"
        if "f \<in> set (mp_files q)" for f
      proof -
        have f: "f \<in> set ?files" "Released (Some g) (fi_Key f) (se_planNow X)" "\<not> heldOrFenced pl f"
          using F(4) [OF that] by (auto simp: ReleasedFiles_filter)
        then have "fi_Key f \<in> registered ?w" using tracked_registered cl by (auto simp: clean_def)
        then show ?thesis using f(2,3) cl by (auto simp: clean_def heldOrFenced_def)
      qed
      then show ?thesis using F(1-3) pt False by (simp add: plannable_def)
    qed
    then show ?thesis using R e quiet_trans [OF _ q] by auto
  qed
qed (simp add: quiet_refl)

section \<open>The merges\<close>

lemma live_map: "mget (fold (\<lambda>f. mput (fi_Key f) f) fs []) k = Some x \<Longrightarrow> x \<in> set fs \<and> fi_Key x = k"
  by (induction fs rule: rev_induct) (auto simp: go_map simp del: map_of_eq_Some_iff split: if_splits)

lemma compactable_ok:
  assumes "x \<in> set (compactableNow w part planned freeze now)"
  shows "fi_Key x \<in> fi_Key ` set planned" "x \<in> set (filesOf (m_files (cw_man w)) part)" "\<not> IsHeld (fi_Key x) (cw_man w)"
    "fenceKey x \<notin> set (cw_fence w)"
    "\<not> fst (frozen freeze x (case parsePartitionTime part of None \<Rightarrow> zeroTime | Some t \<Rightarrow> t) now)"
proof -
  have x: "x \<in> set (stillLive w part planned)"
    and fz: "\<not> fst (frozen freeze x (case parsePartitionTime part of None \<Rightarrow> zeroTime | Some t \<Rightarrow> t) now)"
    using assms by (auto simp: compactableNow_def Let_def)
  then obtain f where f: "f \<in> set planned"
    "mget (fold (\<lambda>f. mput (fi_Key f) f) (withoutHeld w (filesOf (m_files (cw_man w)) part)) []) (fi_Key f) = Some x"
    by (auto simp: stillLive_def Let_def simp del: map_of_eq_Some_iff split: option.splits if_splits)
  note L = live_map [OF f(2)]
  show "fi_Key x \<in> fi_Key ` set planned" using L f(1) by (metis imageI)
  show "x \<in> set (filesOf (m_files (cw_man w)) part)" "\<not> IsHeld (fi_Key x) (cw_man w)" "fenceKey x \<notin> set (cw_fence w)"
    using L by (auto simp: withoutHeld_def)
  show "\<not> fst (frozen freeze x (case parsePartitionTime part of None \<Rightarrow> zeroTime | Some t \<Rightarrow> t) now)" by (rule fz)
qed

lemma quiet_merges: "quiet E v w \<Longrightarrow> merges E [] v w"
  using merges.intros by metis

lemma runMerge_ok:
  assumes "scan_env X K C" "world_ok (- K) C w" "fi_Key ` set sel \<inter> K = {}" "runMerge X i part sel lvl w = (r, w')"
  shows "world_ok (- K) C w' \<and> (\<exists>ss. merges (se_c X) ss w w' \<and> (\<forall>(ks, key) \<in> set ss. set ks \<subseteq> fi_Key ` set sel))"
proof -
  let ?v = "onMan (MarkAttempt part (se_attemptNow X i)) w"
  have mk: "m_byKey (MarkAttempt part t m) = m_byKey m" "man_ok (MarkAttempt part t m) = man_ok m" for t m
    by (simp_all add: MarkAttempt_def man_ok_def files_ok_def guard_ok_def index_ok_def)
  have ok: "world_ok (- K) C ?v" by (rule ok_man [OF assms(2)]) (use assms(2) in \<open>simp_all add: mk world_ok_def\<close>)
  have q: "quiet (se_c X) w ?v" by (rule quiet_step) (simp add: served_man mk)
  from Compact_safe [OF merge_env_of [OF assms(1,3)] ok assms(4) [unfolded runMerge_def]]
  obtain ss where ss: "world_ok (- K) C w'" "merges (se_c X) ss ?v w'" "\<forall>(ks, key) \<in> set ss. set ks \<subseteq> fi_Key ` set sel" by blast
  from merges_append [OF ss(2) quiet_merges [OF q]] show ?thesis using ss(1,3) by auto
qed

text \<open>What a started merge runs on.\<close>

definition started_ok :: "('d, 'r, 'x) scanEnv \<Rightarrow> mergePlan list \<Rightarrow> mergePlan \<times> fileInfo list \<Rightarrow> bool" where
  "started_ok X cs e \<longleftrightarrow> (case e of (c, sel) \<Rightarrow> c \<in> set cs \<and> 2 \<le> length sel \<and> fi_Key ` set sel \<subseteq> fi_Key ` set (mp_files c)
     \<and> (\<exists>i (w :: 'd cworld). \<not> se_draining X (Suc i) \<and> set sel \<subseteq> set (filesOf (m_files (cw_man w)) (mp_partition c))
          \<and> (\<forall>f \<in> set sel. \<not> IsHeld (fi_Key f) (cw_man w) \<and> fenceKey f \<notin> set (cw_fence w)
               \<and> \<not> fst (frozen (se_freeze X) f
                    (case parsePartitionTime (mp_partition c) of None \<Rightarrow> zeroTime | Some t \<Rightarrow> t) (se_mergeNow X i)))))"

lemma started_mono: "started_ok X cs e \<Longrightarrow> set cs \<subseteq> set cs' \<Longrightarrow> started_ok X cs' e"
  unfolding started_ok_def by (cases e) auto

definition loop_ok :: "('d, 'r, 'x) scanEnv \<Rightarrow> string set \<Rightarrow> (string \<Rightarrow> 'd) \<Rightarrow> mergePlan list \<Rightarrow> nat \<Rightarrow> merge_log \<Rightarrow> 'd sched
    \<Rightarrow> nat \<times> merge_log \<times> 'd sched \<Rightarrow> bool" where
  "loop_ok X K C cs n log st res \<longleftrightarrow> (case res of (n', log', st') \<Rightarrow>
     world_ok (- K) C (sd_w st') \<and> (\<exists>new ss. log' = log @ new \<and> length new \<le> length cs \<and> n' \<le> n + length new
       \<and> merges (se_c X) ss (sd_w st) (sd_w st') \<and> (\<forall>e \<in> set new. started_ok X cs e)
       \<and> (\<forall>(ks, key) \<in> set ss. \<exists>(c, sel) \<in> set new. set ks \<subseteq> fi_Key ` set sel)))"

text \<open>One step of the loop: the rest of the loop runs after a merge that was started, or after none.\<close>

lemma loop_step:
  assumes "loop_ok X K C cs n1 (log @ new) st1 res" "merges (se_c X) ss (sd_w st) (sd_w st1)" "n1 \<le> n + length new" "length new \<le> 1"
    and "\<forall>e \<in> set new. started_ok X (c # cs) e" "\<forall>(ks, key) \<in> set ss. \<exists>(c, sel) \<in> set new. set ks \<subseteq> fi_Key ` set sel"
  shows "loop_ok X K C (c # cs) n log st res"
proof -
  obtain n' log' st' where res: "res = (n', log', st')" by (metis prod_cases3)
  obtain new' ss' where L: "world_ok (- K) C (sd_w st')" "log' = (log @ new) @ new'" "length new' \<le> length cs" "n' \<le> n1 + length new'"
    "merges (se_c X) ss' (sd_w st1) (sd_w st')" "\<forall>e \<in> set new'. started_ok X cs e"
    "\<forall>(ks, key) \<in> set ss'. \<exists>(c, sel) \<in> set new'. set ks \<subseteq> fi_Key ` set sel"
    using assms(1) unfolding loop_ok_def res by blast
  have "merges (se_c X) (ss @ ss') (sd_w st) (sd_w st')" by (rule merges_append [OF L(5) assms(2)])
  moreover have "\<forall>e \<in> set (new @ new'). started_ok X (c # cs) e" using assms(5) L(6) started_mono [of X cs _ "c # cs"] by auto
  moreover have "\<forall>(ks, key) \<in> set (ss @ ss'). \<exists>(c, sel) \<in> set (new @ new'). set ks \<subseteq> fi_Key ` set sel"
    using assms(6) L(7) by (simp only: set_append) blast
  ultimately show ?thesis using L(1-4) assms(3,4) unfolding loop_ok_def res
    by (intro case_prodI conjI exI [of _ "new @ new'"] exI [of _ "ss @ ss'"]) auto
qed

lemma next_merge:
  assumes "\<not> (se_draining X (Suc i) \<or> i > 0 \<and> sc_ScanBudget (se_cfg X) > 0 \<and> se_elapsed X i \<ge> sc_ScanBudget (se_cfg X))"
    and "\<not> length (compactableNow (ce_others (se_c X) (AtMerge i) (sd_w st)) (mp_partition c) (mp_files c) (se_freeze X) (se_mergeNow X i)) < 2"
    and "runMerge X i (mp_partition c) (compactableNow (ce_others (se_c X) (AtMerge i) (sd_w st)) (mp_partition c) (mp_files c)
          (se_freeze X) (se_mergeNow X i)) (mp_level c) (ce_others (se_c X) (AtMerge i) (sd_w st)) = (r, w')"
  shows "\<exists>n1 st1. mergeLoop X i (c # cs) tenants n log st = mergeLoop X (Suc i) cs (List.insert (mp_tenant c) tenants) n1
      (log @ [(c, compactableNow (ce_others (se_c X) (AtMerge i) (sd_w st)) (mp_partition c) (mp_files c) (se_freeze X) (se_mergeNow X i))]) st1
    \<and> sd_w st1 = w' \<and> n1 \<le> Suc n"
proof -
  let ?sel = "compactableNow (ce_others (se_c X) (AtMerge i) (sd_w st)) (mp_partition c) (mp_files c) (se_freeze X) (se_mergeNow X i)"
  have na: "\<not> se_draining X (Suc i)" and nb: "\<not> (i > 0 \<and> sc_ScanBudget (se_cfg X) > 0 \<and> se_elapsed X i \<ge> sc_ScanBudget (se_cfg X))"
    using assms(1) by blast+
  note e = mergeLoop.simps(2) [of X i c cs tenants n log st, unfolded Let_def if_not_P [OF na] if_not_P [OF nb] if_not_P [OF assms(2)] assms(3)]
  show ?thesis
  proof (cases r)
    case (Inl err)
    show ?thesis unfolding e Inl prod.case sum.case
      by (rule exI [of _ n], rule exI [of _ "st\<lparr>sd_w := w', sd_backoff := backoffFailed c (se_planNow X) (sc_Interval (se_cfg X)) (sd_backoff st)\<rparr>"]) simp
  next
    case (Inr res)
    show ?thesis
    proof (cases "cr_OutputFiles res = []")
      case True
      show ?thesis unfolding e Inr prod.case sum.case if_P [OF True] by (rule exI [of _ n], rule exI [of _ "st\<lparr>sd_w := w'\<rparr>"]) simp
    next
      case False
      show ?thesis unfolding e Inr prod.case sum.case if_not_P [OF False]
        by (rule exI [of _ "Suc n"], rule exI [of _ "st\<lparr>sd_w := w', sd_backoff := backoffSucceeded c (sd_backoff st)\<rparr>"]) simp
    qed
  qed
qed

lemma mergeLoop_ok:
  assumes "scan_env X K C" "world_ok (- K) C (sd_w st)" "\<forall>c \<in> set cs. fi_Key ` set (mp_files c) \<inter> K = {}"
  shows "loop_ok X K C cs n log st (mergeLoop X i cs tenants n log st)"
  using assms(2,3)
proof (induction cs arbitrary: i tenants n log st)
  case Nil
  then show ?case by (auto simp: loop_ok_def intro: merges_none)
next
  case (Cons c cs)
  let ?w = "ce_others (se_c X) (AtMerge i) (sd_w st)"
  let ?sel = "compactableNow ?w (mp_partition c) (mp_files c) (se_freeze X) (se_mergeNow X i)"
  let ?ts = "List.insert (mp_tenant c) tenants"
  have P: "polite (se_c X) (- K) K C" using assms(1) by (simp add: scan_env_def)
  have ok: "world_ok (- K) C ?w" by (rule politeD(1) [OF P Cons.prems(1)])
  have qm: "merges (se_c X) [] (sd_w st) ?w" by (rule quiet_merges [OF quiet_by])
  have K: "\<forall>c \<in> set cs. fi_Key ` set (mp_files c) \<inter> K = {}" "fi_Key ` set (mp_files c) \<inter> K = {}" using Cons.prems(2) by auto
  have sub: "fi_Key ` set ?sel \<subseteq> fi_Key ` set (mp_files c)" using compactable_ok(1) by blast
  show ?case
  proof (cases "se_draining X (Suc i) \<or> i > 0 \<and> sc_ScanBudget (se_cfg X) > 0 \<and> se_elapsed X i \<ge> sc_ScanBudget (se_cfg X)")
    case True
    have "\<exists>st'. mergeLoop X i (c # cs) tenants n log st = (n, log, st') \<and> sd_w st' = sd_w st" using True by auto
    then show ?thesis using Cons.prems(1) merges_none by (fastforce simp: loop_ok_def)
  next
    case go: False
    show ?thesis
    proof (cases "length ?sel < 2")
      case True
      let ?st = "st\<lparr>sd_w := ?w\<rparr>"
      have e: "mergeLoop X i (c # cs) tenants n log st = mergeLoop X (Suc i) cs ?ts n log ?st" using go True by (auto simp: Let_def)
      have "loop_ok X K C cs n (log @ []) ?st (mergeLoop X (Suc i) cs ?ts n log ?st)"
        unfolding append_Nil2 by (rule Cons.IH) (use ok K in simp_all)
      then show ?thesis unfolding e by (rule loop_step [where ss = "[]"]) (use qm in simp_all)
    next
      case False
      obtain r w' where run: "runMerge X i (mp_partition c) ?sel (mp_level c) ?w = (r, w')" by fastforce
      have "fi_Key ` set ?sel \<inter> K = {}" using sub K(2) by blast
      from runMerge_ok [OF assms(1) ok this run] obtain ss where
        M: "world_ok (- K) C w'" "merges (se_c X) ss ?w w'" "\<forall>(ks, key) \<in> set ss. set ks \<subseteq> fi_Key ` set ?sel" by blast
      have "set ?sel \<subseteq> set (filesOf (m_files (cw_man ?w)) (mp_partition c))" using compactable_ok(2) by blast
      moreover have "\<forall>f \<in> set ?sel. \<not> IsHeld (fi_Key f) (cw_man ?w) \<and> fenceKey f \<notin> set (cw_fence ?w)
          \<and> \<not> fst (frozen (se_freeze X) f (case parsePartitionTime (mp_partition c) of None \<Rightarrow> zeroTime | Some t \<Rightarrow> t) (se_mergeNow X i))"
        using compactable_ok(3-5) by blast
      moreover have "\<not> se_draining X (Suc i)" "2 \<le> length ?sel" using go False by auto
      ultimately have st: "started_ok X (c # cs) (c, ?sel)" unfolding started_ok_def prod.case using sub by (meson list.set_intros(1))
      obtain n1 st1 where nx: "mergeLoop X i (c # cs) tenants n log st = mergeLoop X (Suc i) cs ?ts n1 (log @ [(c, ?sel)]) st1"
        "sd_w st1 = w'" "n1 \<le> Suc n" using next_merge [OF go False run] by metis
      have "loop_ok X K C cs n1 (log @ [(c, ?sel)]) st1 (mergeLoop X (Suc i) cs ?ts n1 (log @ [(c, ?sel)]) st1)"
        by (rule Cons.IH) (use M(1) nx(2) K in simp_all)
      moreover have "merges (se_c X) ss (sd_w st) (sd_w st1)" using merges_append [OF M(2) qm] nx(2) by simp
      ultimately show ?thesis unfolding nx(1) by (rule loop_step) (use nx(3) st M(3) in auto)
    qed
  qed
qed

section \<open>The scan\<close>

text \<open>A plan of a scan: the segment guard is the one of the world in which the planning begins.\<close>

definition scannable :: "('d, 'r, 'x) scanEnv \<Rightarrow> 'd cworld \<Rightarrow> string set \<Rightarrow> mergePlan \<Rightarrow> bool" where
  "scannable X w K q \<longleftrightarrow> (\<exists>held log. plannable X (fst (segmentGuardOf X (se_planNow X) w)) held log K q)"

lemma scanPlans_ok:
  assumes "scan_env X K C" "clean K C (sd_w st)" "scanPlans X st = (plans, st')"
  shows "quiet (se_c X) (sd_w st) (sd_w st')" "clean K C (sd_w st')" "\<forall>q \<in> set plans. scannable X (sd_w st) K q \<and> \<not> waiting (se_planNow X) (sd_backoff st) q"
    "sd_fair st' = sd_fair st"
proof -
  obtain g w1 where g: "segmentGuardOf X (se_planNow X) (sd_w st) = (g, w1)" by fastforce
  let ?pl = "newPlanner (se_policy X) (se_currentFP X) (se_planNow X) (HeldKeys (cw_man w1)) (cw_fence w1) (se_freeze X)"
  obtain cands pl' w2 where p: "planAll X g 0 (mkeys (m_files (cw_man w1))) ?pl w1 = (cands, pl', w2)" by (metis prod_cases3)
  obtain ps b where b: "backoffFilter cands (se_planNow X) (sd_backoff st) = (ps, b)" by fastforce
  have e: "plans = sortPlans (se_debt X) ps" "st' = st\<lparr>sd_w := w2, sd_backoff := b\<rparr>"
    using assms(3) g p b by (auto simp: scanPlans_def Let_def)
  note G = segmentGuard_ok [OF assms(1,2) g]
  have v: "view_ok (pl_freeze ?pl)" by (simp add: newPlanner_def view_ok_initial)
  note P = planAll_ok [OF assms(1) G(2) v p]
  have f: "ps = filter (\<lambda>q. \<not> waiting (se_planNow X) (sd_backoff st) q) cands" using backoffFilter_eq [of cands "se_planNow X" "sd_backoff st"] b by simp
  show "quiet (se_c X) (sd_w st) (sd_w st')" using quiet_trans [OF _ G(1)] P e(2) by simp
  show "clean K C (sd_w st')" "sd_fair st' = sd_fair st" using P e(2) by simp_all
  show "\<forall>q \<in> set plans. scannable X (sd_w st) K q \<and> \<not> waiting (se_planNow X) (sd_backoff st) q"
    unfolding e(1) sortPlans_def set_sort_slice f using P g by (auto simp: scannable_def)
qed

lemma scanPick_ok:
  assumes "\<forall>f. sd_fair st = Some f \<longrightarrow> 1 \<le> fs_perTenant f"
  obtains picked st' where "scanPick X cands st = Some (picked, st')" "set picked \<subseteq> set cands" "sd_w st' = sd_w st"
    "length picked \<le> nat (sc_MaxConcurrent (se_cfg X) * int (tenantsWithWork cands))"
proof (cases "sd_fair st")
  case None
  then show ?thesis
    by (intro that [of "if int (length cands) > sc_MaxConcurrent (se_cfg X) * int (tenantsWithWork cands)
          then take (nat (sc_MaxConcurrent (se_cfg X) * int (tenantsWithWork cands))) cands else cands" st])
      (auto simp: scanPick_def Let_def dest: in_set_takeD)
next
  case (Some f)
  let ?b = "sc_MaxConcurrent (se_cfg X) * int (tenantsWithWork cands)"
  have "1 \<le> fs_perTenant f" using assms Some by blast
  then obtain picked f' where p: "PickCandidates cands ?b f = Some (picked, f')" "length picked = min (nat ?b) (length cands)"
    "mset picked \<subseteq># mset cands" by (rule PickCandidates_ok) blast
  have "set picked \<subseteq> set cands" using set_mset_mono [OF p(3)] by simp
  then show ?thesis by (intro that [of picked "st\<lparr>sd_fair := Some f'\<rparr>"]) (use p(1,2) Some in \<open>simp_all add: scanPick_def\<close>)
qed

text \<open>The result of a scan: the rows that are served change only by publishes of merges that were started.\<close>

lemma Scan_safe:
  assumes "scan_env X K C" "clean K C (sd_w st)" "\<forall>f. sd_fair st = Some f \<longrightarrow> 1 \<le> fs_perTenant f"
  obtains n log st' ss cs where "Scan X st = Some (n, log, st')" "world_ok (- K) C (sd_w st')" "n \<le> length log"
    "merges (se_c X) ss (sd_w st) (sd_w st')" "\<forall>(ks, key) \<in> set ss. \<exists>(c, sel) \<in> set log. set ks \<subseteq> fi_Key ` set sel"
    "\<forall>e \<in> set log. started_ok X cs e" "\<forall>c \<in> set cs. scannable X (reclaim (se_c X) (se_cancelled X) (sd_w st)) K c \<and> \<not> waiting (se_planNow X) (sd_backoff st) c"
    "log \<noteq> [] \<Longrightarrow> \<not> se_draining X 0 \<and> \<not> IsStabilizing (se_ownership X)"
proof -
  note found = that
  let ?w1 = "reclaim (se_c X) (se_cancelled X) (sd_w st)"
  let ?st1 = "st\<lparr>sd_w := ?w1\<rparr>"
  let ?rc = "recentRingChanges (se_ringNow X) (sd_ring ?st1)" and ?lim = "sc_RingChangeRateLimit (se_cfg X)"
  let ?st2 = "if ?lim > 0 then ?st1\<lparr>sd_ring := snd ?rc\<rparr> else ?st1"
  note R = reclaim_ok [OF assms(1,2), of "se_cancelled X"]
  have w2: "sd_w ?st2 = ?w1" "sd_fair ?st2 = sd_fair st" "sd_backoff ?st2 = sd_backoff st" by simp_all
  have base: "world_ok (- K) C (sd_w st)" "world_ok (- K) C ?w1" using assms(2) R(2) by (simp_all add: clean_def)
  have early: thesis if "Scan X st = Some (0, [], s')" "sd_w s' = sd_w st \<or> sd_w s' = ?w1" for s'
    by (rule found [of 0 "[]" s' "[]" "[]"]) (use that base quiet_merges [OF R(1)] merges_none [of "se_c X" "sd_w st"] in auto)
  consider (drain) "se_draining X 0" | (stab) "\<not> se_draining X 0" "IsStabilizing (se_ownership X)"
    | (thrash) "\<not> se_draining X 0" "\<not> IsStabilizing (se_ownership X)" "?lim > 0 \<and> int (fst ?rc) > ?lim"
    | (go) "\<not> se_draining X 0" "\<not> IsStabilizing (se_ownership X)" "\<not> (?lim > 0 \<and> int (fst ?rc) > ?lim)" by blast
  then show thesis
  proof cases
    case drain
    then show thesis by (intro early [of st]) (simp_all add: Scan_def)
  next
    case stab
    then show thesis by (intro early [of ?st1]) (simp_all add: Scan_def Let_def)
  next
    case thrash
    then show thesis by (intro early [of ?st2]) (simp_all add: Scan_def Let_def)
  next
    case go
    obtain plans st3 where p: "scanPlans X ?st2 = (plans, st3)" by fastforce
    have c2: "clean K C (sd_w ?st2)" using R(2) unfolding w2 .
    note P = scanPlans_ok [OF assms(1) c2 p, unfolded w2]
    have fa: "\<forall>f. sd_fair st3 = Some f \<longrightarrow> 1 \<le> fs_perTenant f" using P(4) assms(3) by simp
    obtain picked st4 where k: "scanPick X plans st3 = Some (picked, st4)" "set picked \<subseteq> set plans" "sd_w st4 = sd_w st3"
      by (rule scanPick_ok [OF fa])
    obtain n log st' where m: "mergeLoop X 0 picked [] 0 [] st4 = (n, log, st')" by (metis prod_cases3)
    have s: "Scan X st = Some (n, log, st')"
      unfolding Scan_def Let_def if_not_P [OF go(1)] if_not_P [OF go(2)] if_not_P [OF go(3)] p prod.case k(1) option.case m ..
    have "fi_Key ` set (mp_files c) \<inter> K = {}" if "c \<in> set picked" for c
      using P(3) k(2) that by (auto simp: scannable_def plannable_def)
    moreover have "world_ok (- K) C (sd_w st4)" using P(2) k(3) by (simp add: clean_def)
    ultimately have "loop_ok X K C picked 0 [] st4 (n, log, st')" using mergeLoop_ok [OF assms(1), of st4 picked 0 "[]" 0 "[]"] m by simp
    then obtain ss where L: "world_ok (- K) C (sd_w st')" "n \<le> length log" "merges (se_c X) ss (sd_w st4) (sd_w st')"
      "\<forall>e \<in> set log. started_ok X picked e" "\<forall>(ks, key) \<in> set ss. \<exists>(c, sel) \<in> set log. set ks \<subseteq> fi_Key ` set sel"
      by (auto simp: loop_ok_def)
    have q: "quiet (se_c X) (sd_w st) (sd_w st4)" unfolding k(3) by (rule quiet_trans [OF P(1) R(1)])
    have "merges (se_c X) ([] @ ss) (sd_w st) (sd_w st')" by (rule merges_append [OF L(3) quiet_merges [OF q]])
    then show thesis by (intro found [OF s L(1,2) _ L(5,4)]) (use P(3) k(2) go in auto)
  qed
qed

section \<open>Forced compaction\<close>

lemma forceLoop_ok:
  assumes "scan_env X K C" "world_ok (- K) C w" "\<forall>g \<in> set gs. fi_Key ` set (tg_Files g) \<inter> K = {}"
    and "forceLoop X part lv i gs res err w = (res', err', w')"
  shows "world_ok (- K) C w' \<and> (\<exists>ss. merges (se_c X) ss w w')"
  using assms(2-4)
proof (induction gs arbitrary: i res err w)
  case Nil
  then show ?case using merges_none by force
next
  case (Cons g gs)
  let ?w = "ce_others (se_c X) (AtMerge i) w"
  let ?live = "filter (\<lambda>f. \<not> fst (frozen (se_freeze X) f (case parsePartitionTime part of None \<Rightarrow> zeroTime | Some t \<Rightarrow> t) (se_planNow X))) (tg_Files g)"
  let ?lvl = "forceLevel ?live (se_currentFP X) lv"
  let ?pre = "SelectFiles ?live ?lvl (MajoritySchemaFingerprint ?live ?lvl)"
  let ?sel = "compactableNow ?w part ?pre (se_freeze X) (se_mergeNow X i)"
  have P: "polite (se_c X) (- K) K C" using assms(1) by (simp add: scan_env_def)
  have ok: "world_ok (- K) C ?w" by (rule politeD(1) [OF P Cons.prems(1)])
  have qm: "merges (se_c X) [] w ?w" by (rule quiet_merges [OF quiet_by])
  have gs: "\<forall>g \<in> set gs. fi_Key ` set (tg_Files g) \<inter> K = {}" using Cons.prems(2) by simp
  have "set ?pre \<subseteq> set (tg_Files g)" by (auto simp: SelectFiles_def)
  then have K: "fi_Key ` set ?sel \<inter> K = {}" using compactable_ok(1) Cons.prems(2) by fastforce
  obtain r v where run: "runMerge X i part ?sel ?lvl ?w = (r, v)" by fastforce
  obtain ss where M: "world_ok (- K) C v" "merges (se_c X) ss ?w v" using runMerge_ok [OF assms(1) ok K run] by blast
  note F = forceLoop.simps(2) [of X part lv i g gs res err w, unfolded Let_def run]
  consider (few) "forceLoop X part lv (Suc i) gs res err ?w = (res', err', w')"
    | (ran) res1 err1 where "forceLoop X part lv (Suc i) gs res1 err1 v = (res', err', w')"
    using Cons.prems(3) unfolding F by (cases "length ?sel < 2"; cases r) auto
  then show ?case
  proof cases
    case few
    from Cons.IH [OF ok gs this] show ?thesis using merges_append [OF _ qm] by blast
  next
    case ran
    from Cons.IH [OF M(1) gs this] show ?thesis using merges_append [OF _ merges_append [OF M(2) qm]] by blast
  qed
qed

lemma Force_safe:
  assumes "scan_env X K C" "clean K C w" "ForceCompactPartition X part lv w = (res, err, w')"
  shows "world_ok (- K) C w' \<and> (\<exists>ss. merges (se_c X) ss w w')"
proof (cases "se_draining X 0")
  case True
  then show ?thesis using assms merges_none by (force simp: ForceCompactPartition_def clean_def)
next
  case False
  obtain g w1 where g: "segmentGuardOf X (se_planNow X) w = (g, w1)" by fastforce
  note G = segmentGuard_ok [OF assms(1,2) g]
  let ?files = "ReleasedFiles (Some g) (withoutHeld w1 (filesOf (m_files (cw_man w1)) part)) (se_planNow X)"
  let ?r0 = "\<lparr>cr_InputFiles = [], cr_OutputFiles = [], cr_RowsMerged = 0, cr_BytesRead = 0, cr_BytesWritten = 0,
    cr_OutputLevel = 0, cr_FencedFiles = []\<rparr>"
  have ok: "world_ok (- K) C w1" using G(2) by (simp add: clean_def)
  obtain r' e' w2 where l: "forceLoop X part lv 0 (groupFilesByTenant ?files) ?r0 None w1 = (r', e', w2)" by (metis prod_cases3)
  have "fi_Key f \<notin> K" if "f \<in> set ?files" for f
    using tracked_registered [OF ok, of f part] G(2) that by (auto simp: ReleasedFiles_filter withoutHeld_def clean_def)
  then have "\<forall>g \<in> set (groupFilesByTenant ?files). fi_Key ` set (tg_Files g) \<inter> K = {}" using groups_of_files by blast
  from forceLoop_ok [OF assms(1) ok this l] obtain ss where L: "world_ok (- K) C w2" "merges (se_c X) ss w1 w2" by blast
  have "w' = w1 \<or> w' = w2" using assms(3) False g l by (auto simp: ForceCompactPartition_def Let_def split: if_splits)
  then show ?thesis using ok L quiet_merges [OF G(1)] merges_append [OF L(2) quiet_merges [OF G(1)]] by auto
qed

end
