(* ===== verification/CompactionProps.thy ===== *)
theory CompactionProps
  imports CompactScenario PlannerProofs SchedulingProofs ScanProofs
begin

text \<open>
  The properties of the compaction pipeline: the lifecycle freeze, the planner, the fair share between tenants, the
  failure backoff and the merge itself.
\<close>

section \<open>Examples\<close>

text \<open>Objects move to Glacier after thirty days.\<close>

definition exFreeze :: lifecycleFreeze where
  "exFreeze = \<lparr>lf_Detector = None, lf_ExtraRules = [\<lparr>lr_TransitionDays = 30, lr_Class = ClassGlacier\<rparr>], lf_Margin = 0, lf_SizeMergeMaxAge = 0\<rparr>"

definition exPolicy :: levelPolicy where "exPolicy = NewLevelPolicy 2 2 0"

lemma exFreeze_rules: "effectiveRules exFreeze k = [\<lparr>lr_TransitionDays = 30, lr_Class = ClassGlacier\<rparr>]"
  by (simp add: effectiveRules_def exFreeze_def)


definition exPlan :: mergePlan where
  "exPlan = \<lparr>mp_partition = exPart, mp_group = ''1/2/logs/|'', mp_tenant = ''1/2'', mp_level = 0, mp_files = exFiles,
     mp_reason = reasonL0Count, mp_time = 0, mp_bytes = 12\<rparr>"


text \<open>A scan of the pod that owns the partition, an hour after the partition began.\<close>

definition exScan :: "(int list, int, int) scanEnv" where
  "exScan = \<lparr>se_c = exEnv False False,
     se_cfg = NewScheduler \<lparr>sc_Interval = 0, sc_MaxConcurrent = 0, sc_RingChangeRateLimit = 0, sc_ScanBudget = 0\<rparr>,
     se_ownership = exPodOf ''a'', se_policy = exPolicy, se_freeze = Some exFreeze, se_currentFP = [], se_debt = (\<lambda>_. 0),
     se_planNow = 1704067200 * second + hour, se_ringNow = 0, se_mergeNow = (\<lambda>_. 1704067200 * second + hour),
     se_attemptNow = (\<lambda>_. 0), se_elapsed = (\<lambda>_. 0), se_draining = (\<lambda>_. False), se_cancelled = (\<lambda>_. False),
     se_lister = False, se_listMarkers = (\<lambda>_. None), se_protect = 0\<rparr>"

definition exSched :: "int list sched" where
  "exSched = \<lparr>sd_w = exCWorld, sd_backoff = [], sd_fair = Some (NewFairShareScheduler 1), sd_ring = []\<rparr>"

definition exNames :: "string set" where
  "exNames = insert [] {k. \<exists>pre part lvl. k = outputName pre part lvl ''5eed''}"

lemma exNames_fresh: "exA \<notin> exNames" "exB \<notin> exNames"
proof -
  have "drop (length k - 12) k = ''5eed.parquet''" if "k \<in> exNames" "k \<noteq> []" for k
  proof -
    from that obtain pre part lvl where "k = outputName pre part lvl ''5eed''" by (auto simp: exNames_def)
    moreover define pfx where "pfx = pre @ part @ ''/compacted-L'' @ formatInt lvl @ ''-''"
    ultimately have "k = pfx @ ''5eed.parquet''" by (simp add: outputName_def)
    then show ?thesis by simp
  qed
  moreover have "drop (length exA - 12) exA \<noteq> ''5eed.parquet''" "drop (length exB - 12) exB \<noteq> ''5eed.parquet''" by code_simp+
  moreover have "exA \<noteq> []" "exB \<noteq> []" by (simp_all add: exKeys)
  ultimately show "exA \<notin> exNames" "exB \<notin> exNames" by blast+
qed

lemma exScan_env: "scan_env exScan exNames exContent"
  by (auto simp: scan_env_def polite_def exScan_def exEnv_def exNames_def)

lemma exSched_clean: "clean exNames exContent (sd_w exSched)"
proof -
  have m: "man_ok exMan" by (rule exMan_ok)
  have "d = exContent k" if "mget (cw_objs exCWorld) k = Some d" for k d
    using that by (auto simp: exCWorld_def exContent_def split: if_splits)
  moreover have "\<forall>k \<in> registered exCWorld. mget (cw_objs exCWorld) k \<noteq> None"
    unfolding exCWorld_registered by (simp add: exCWorld_def)
  ultimately show ?thesis using m exNames_fresh
    by (auto simp: clean_def world_ok_def exSched_def exCWorld_registered exCWorld_def [THEN arg_cong, of cw_man] simp del: map_of_eq_Some_iff)
qed

lemma exScan_runs: "map_option (\<lambda>(n, log, st). (n, map snd log, mkeys (cw_objs (sd_w st)))) (Scan exScan exSched) = Some (1, [exFiles], [exOut])"
  by code_simp

section \<open>What a plan is\<close>

text \<open>Every plan of a partition comes from one tenant group whose files may be merged.\<close>

lemma planPartition_eq:
  "set (planPartition p part files pt now cur log f) = refPlans (newPlanner p cur now [] log f) part files pt"
  "\<exists>gks. distinct gks \<and> list_all2 (\<lambda>gk p. \<forall>x \<in> set (mp_files p). groupOf x = gk) gks (planPartition p part files pt now cur log f)"
proof -
  let ?pl = "newPlanner p cur now [] log f"
  have v: "view_ok (pl_freeze ?pl)" by (simp add: newPlanner_def view_ok_initial)
  obtain plans saws pl' where r: "planPart ?pl part files pt = (plans, saws, pl')" by (metis prod_cases3)
  have e: "planPartition p part files pt now cur log f = plans" by (simp add: planPartition_def r)
  show "set (planPartition p part files pt now cur log f) = refPlans ?pl part files pt"
    unfolding e by (rule planPart_exact(1) [OF v r])
  show "\<exists>gks. distinct gks \<and> list_all2 (\<lambda>gk p. \<forall>x \<in> set (mp_files p). groupOf x = gk) gks (planPartition p part files pt now cur log f)"
    unfolding e by (rule planPart_exact(5) [OF v r])
qed

lemma planned:
  assumes "q \<in> set (planPartition p part files pt now cur log f)"
  obtains gk ok where "plan_ok p (groupFiles (newPlanner p cur now [] log f) files gk) (timeSub now pt) cur ok (mp_level q, mp_files q, mp_reason q)"
    "\<not> frozenAt (groupLimits (freezeViewOf f) (fst gk)) (timeSub now pt)" "mp_partition q = part" "mp_time q = pt"
    "ok \<longleftrightarrow> sizeMergesAt (groupLimits (freezeViewOf f) (fst gk)) (timeSub now pt)"
    "mp_tenant q = fairShareTenant (fst gk)"
proof -
  let ?pl = "newPlanner p cur now [] log f"
  have e: "pl_policy ?pl = p" "pl_now ?pl = now" "pl_currentFP ?pl = cur" "pl_freeze ?pl = freezeViewOf f"
    by (simp_all add: newPlanner_def)
  have "q \<in> refPlans ?pl part files pt" using assms planPartition_eq(1) by blast
  from refPlans_planned [OF this, unfolded e] show ?thesis using that by blast
qed

lemma plan_shape:
  assumes "q \<in> set (planPartition p part files pt now cur log f)"
  shows "2 \<le> length (mp_files q)" "subseq (mp_files q) files"
    "\<forall>x \<in> set (mp_files q). \<forall>y \<in> set (mp_files q). groupOf x = groupOf y \<and> fi_SchemaFingerprint x = fi_SchemaFingerprint y"
proof -
  obtain gk ok where o: "plan_ok p (groupFiles (newPlanner p cur now [] log f) files gk) (timeSub now pt) cur ok (mp_level q, mp_files q, mp_reason q)"
    by (rule planned [OF assms])
  have s: "subseq (mp_files q) (groupFiles (newPlanner p cur now [] log f) files gk)" using o by (simp add: plan_ok_def)
  then show "subseq (mp_files q) files" unfolding groupFiles_def by (rule subseq_order.order_trans) (rule subseq_filter_left)
  have "groupOf x = gk" if "x \<in> set (mp_files q)" for x using subseq_sub [OF s] that by (auto simp: groupFiles_def)
  then show "2 \<le> length (mp_files q)"
    "\<forall>x \<in> set (mp_files q). \<forall>y \<in> set (mp_files q). groupOf x = groupOf y \<and> fi_SchemaFingerprint x = fi_SchemaFingerprint y"
    using o by (auto simp: plan_ok_def)
qed


section \<open>The lifecycle freeze\<close>

text \<open>No object is rewritten once a lifecycle rule can have moved it. Whatever rules apply to an object, global,
  per tenant or extra, the object is frozen from the configured margin before the first transition on,
  or from half the transition when that is shorter.\<close>

theorem frozen_ahead_of_lifecycle:
  assumes "days_ok (effectiveRules f (fi_Key fi))" "r \<in> set (effectiveRules f (fi_Key fi))" "\<not> CanRewrite (lr_Class r)"
    and "partitionTime \<le> created"
    and "created + lr_TransitionDays r * dayNs - min (marginOf f) (lr_TransitionDays r * dayNs div 2) \<le> now"
  shows "fst (frozen (Some f) fi partitionTime now)"
  by (rule frozen_before_transition [OF assms])



section \<open>The planner\<close>

text \<open>C32: The planner's two passes compute the reference. The plans of a partition are exactly those that planning each
  tenant group separately gives, over the files that are neither held, fenced nor class-frozen, for
  the groups that are not frozen by age; there is at most one plan per group, so no file is in two plans.\<close>

theorem planner_exact:
  "set (planPartition p part files pt now cur log f) = refPlans (newPlanner p cur now [] log f) part files pt
   \<and> (\<exists>gks. distinct gks \<and> list_all2 (\<lambda>gk q. groupOf ` set (mp_files q) \<subseteq> {gk}) gks
         (planPartition p part files pt now cur log f))"
  using planPartition_eq by (simp add: image_subset_iff)

text \<open>Every plan is worth running and safe to run. It has at least two files, all of one tenant group and of one
  schema, in the order of the partition; none has a higher level than the plan, and all
  have its level unless it is a daily rollup; a rollup or a defragmentation takes only files
  below the mature size; a plan made for a stale schema takes only stale files; and where
  the freeze stops size-based merges, only such plans are made.\<close>

lemma plan_worth_running:
  assumes "q \<in> set (planPartition p part files pt now cur log f)"
  shows "2 \<le> length (mp_files q) \<and> subseq (mp_files q) files \<and> lp_MinAge p \<le> timeSub now pt
    \<and> (\<forall>x \<in> set (mp_files q). \<forall>y \<in> set (mp_files q). groupOf x = groupOf y \<and> fi_SchemaFingerprint x = fi_SchemaFingerprint y)
    \<and> (\<forall>x \<in> set (mp_files q). fi_CompactionLevel x \<le> mp_level q
         \<and> (mp_reason q \<noteq> reasonRollup \<longrightarrow> fi_CompactionLevel x = mp_level q)
         \<and> (mp_reason q \<in> {reasonRollup, reasonFragmented} \<longrightarrow> fi_Size x < MatureObjectBytes)
         \<and> (mp_reason q = reasonStale \<longrightarrow> fi_SchemaFingerprint x \<noteq> cur)
         \<and> (\<not> sizeMergesAt (groupLimits (freezeViewOf f) (CompactionGroupPrefix (fi_Key x))) (timeSub now pt) \<longrightarrow> mp_reason q = reasonStale))"
proof -
  obtain gk ok where o: "plan_ok p (groupFiles (newPlanner p cur now [] log f) files gk) (timeSub now pt) cur ok (mp_level q, mp_files q, mp_reason q)"
    "ok \<longleftrightarrow> sizeMergesAt (groupLimits (freezeViewOf f) (fst gk)) (timeSub now pt)" by (rule planned [OF assms])
  have "subseq (mp_files q) (groupFiles (newPlanner p cur now [] log f) files gk)" using o(1) by (simp add: plan_ok_def)
  then have "CompactionGroupPrefix (fi_Key x) = fst gk" if "x \<in> set (mp_files q)" for x
    using subseq_sub that by (fastforce simp: groupFiles_def groupOf_def)
  then have "\<forall>x \<in> set (mp_files q). \<not> sizeMergesAt (groupLimits (freezeViewOf f) (CompactionGroupPrefix (fi_Key x))) (timeSub now pt)
      \<longrightarrow> mp_reason q = reasonStale" using o by (auto simp: plan_ok_def)
  moreover have "\<forall>x \<in> set (mp_files q). fi_CompactionLevel x \<le> mp_level q
      \<and> (mp_reason q \<noteq> reasonRollup \<longrightarrow> fi_CompactionLevel x = mp_level q)
      \<and> (mp_reason q \<in> {reasonRollup, reasonFragmented} \<longrightarrow> fi_Size x < MatureObjectBytes)
      \<and> (mp_reason q = reasonStale \<longrightarrow> fi_SchemaFingerprint x \<noteq> cur)" "lp_MinAge p \<le> timeSub now pt"
    using o(1) by (auto simp: plan_ok_def)
  ultimately show ?thesis using plan_shape [OF assms] by blast
qed


section \<open>Choosing among the plans\<close>

text \<open>C34: The fair share always ends, uses every slot and is fair. Picking among any candidates returns; it fills the
  free slots as far as there are candidates and picks no candidate twice; each tenant's plans are
  picked in their order; and a tenant that still has unpicked plans is never behind another
  tenant by more than the per-tenant quota.\<close>

theorem fair_share_picks:
  assumes "1 \<le> fs_perTenant f"
  shows "\<exists>picked f'. PickCandidates cs m f = Some (picked, f') \<and> fs_perTenant f' = fs_perTenant f
    \<and> length picked = min (nat m) (length cs) \<and> mset picked \<subseteq># mset cs
    \<and> (\<forall>t. prefix (filter (\<lambda>c. tenantOf c = t) picked) (filter (\<lambda>c. tenantOf c = t) cs))
    \<and> (\<forall>t u. cnt picked u < cnt cs u \<longrightarrow> cnt picked t \<le> cnt picked u + nat (fs_perTenant f))"
  by (rule PickCandidates_ok [OF assms, of cs m]) blast

theorem fair_share_picks_witness:
  "\<exists>picked f'. PickCandidates [exPlan, exPlan] 1 (NewFairShareScheduler 0) = Some (picked, f') \<and> length picked = 1"
proof -
  have "1 \<le> fs_perTenant (NewFairShareScheduler 0)" by (simp add: NewFairShareScheduler_def)
  from fair_share_picks [OF this, of "[exPlan, exPlan]" 1] show ?thesis by auto
qed

text \<open>C35: No tenant starves. While the same tenants have work, then in any n consecutive picks, n being their number,
  each of these tenants is served first once, however many plans the others have.\<close>

theorem every_tenant_gets_a_turn:
  assumes "1 \<le> fs_perTenant f" "0 < m" "\<forall>cs \<in> set css. tenantOf ` set cs = T" "length css = card T" "finite T" "t \<in> T"
  shows "\<exists>res. runPicks css m f = Some res \<and> (\<exists>picked \<in> set res. picked \<noteq> [] \<and> tenantOf (hd picked) = t)"
  by (rule every_tenant_first [OF assms(1-4,6,5)]) blast

theorem every_tenant_gets_a_turn_witness:
  "\<exists>res. runPicks [[exPlan, exPlan\<lparr>mp_tenant := ''3/4''\<rparr>], [exPlan, exPlan\<lparr>mp_tenant := ''3/4''\<rparr>]] 1 (NewFairShareScheduler 1) = Some res
     \<and> (\<exists>picked \<in> set res. picked \<noteq> [] \<and> tenantOf (hd picked) = ''3/4'')"
  by (rule every_tenant_gets_a_turn [where T = "{''1/2'', ''3/4''}"])
    (simp_all add: NewFairShareScheduler_def tenantOf_def exPlan_def insert_commute)

text \<open>Failed merges back off and never block for more than an hour. A failure makes its partition and group wait
  the scan interval (a minute when none is set) doubled once per failure since the last
  success, and an hour at most; it affects no other plan, and a success clears it.\<close>

lemma backoff_bounded:
  "waiting t (backoffFailed p now interval b) q =
     (if backoffKey q = backoffKey p
      then t < now + min ((if interval \<le> 0 then minute else interval) * 2 ^ failuresOf b (backoffKey p)) hour
      else waiting t b q)
   \<and> failuresOf (backoffFailed p now interval b) (backoffKey p) = Suc (failuresOf b (backoffKey p))
   \<and> failuresOf (backoffSucceeded p b) (backoffKey p) = 0 \<and> \<not> waiting t (backoffSucceeded p b) p
   \<and> fst (backoffFilter qs t b) = filter (\<lambda>x. \<not> waiting t b x) qs"
  using backoffFilter_eq [of qs t b]
  by (auto simp: waiting_def failuresOf_def backoffFailed_wait [unfolded failuresOf_def] backoffSucceeded_def go_map maxPlanBackoff_def)

section \<open>The merge\<close>

text \<open>C37: A merge neither loses nor duplicates rows. Compact is run on any files of a consistent world, with any
  failures of downloads, uploads and deletes, and with other goroutines acting between any two
  of its requests. Then every step leaves the rows that are served as they are, up to what the
  others do, except the publishes, each of which replaces exactly the rows of its sources by those
  rows healed, in one step; the reported inputs and outputs are those of the publishes.
  The others are assumed to keep the world consistent, not to touch a claimed output
  and not to register a claimed output or a merged source; the Parquet writer's objects are assumed
  to read back as the rows written.\<close>

theorem merge_keeps_rows:
  assumes "merge_env E S files part (lvl + 1) K C" "world_ok S C w" "Compact E part files lvl w = (r, w')"
  shows "world_ok S C w' \<and> (\<exists>ss. merges E ss w w'
     \<and> (\<forall>(ks, key) \<in> set ss. set ks \<subseteq> fi_Key ` set files)
     \<and> (\<forall>res. r = Inr res \<longrightarrow> cr_InputFiles res = concat (map fst ss) \<and> cr_OutputFiles res = map snd ss))"
  by (rule Compact_safe [OF assms])

theorem merge_keeps_rows_witness:
  "\<exists>ss. merges (exEnv False False) ss exCWorld (snd (exRun False False)) \<and> map snd ss = [exOut] \<and> concat (map fst ss) = [exA, exB]"
proof -
  obtain r w' where run: "exRun False False = (r, w')" by fastforce
  then obtain res where "r = Inr res" "cr_InputFiles res = [exA, exB]" "cr_OutputFiles res = [exOut]"
    using exRun_ok by (cases r) auto
  then show ?thesis
    using merge_keeps_rows [where lvl = 0, simplified, OF ex_merge_env ex_world_ok run [unfolded exRun_def]] run by auto
qed

text \<open>The compactor runs a plan as it was made. The files of a plan form one tenant group and pass the
  schema check, so the compactor merges exactly these files into one output, one level up.\<close>

lemma plan_runs_as_one_merge:
  assumes "q \<in> set (planPartition p part files pt now cur log f)"
  shows "\<exists>g fp. tg_Files g = mp_files q \<and> groupFilesByTenant (mp_files q) = [g] \<and> fp = fi_SchemaFingerprint (hd (mp_files q))
    \<and> Compact E part (mp_files q) (mp_level q) w =
        (case compactGroup E part g fp (mp_level q + 1) w of
           (Inl e, w1) \<Rightarrow> (Inl e, w1)
         | (Inr gr, w1) \<Rightarrow>
             (Inr (addResult gr \<lparr>cr_InputFiles = [], cr_OutputFiles = [], cr_RowsMerged = 0, cr_BytesRead = 0,
                cr_BytesWritten = 0, cr_OutputLevel = mp_level q + 1, cr_FencedFiles = []\<rparr>), w1))"
proof -
  have P: "2 \<le> length (mp_files q)" "\<And>x y. x \<in> set (mp_files q) \<Longrightarrow> y \<in> set (mp_files q) \<Longrightarrow>
      groupOf x = groupOf y \<and> fi_SchemaFingerprint x = fi_SchemaFingerprint y"
    using plan_shape [OF assms] by blast+
  then obtain x xs where xs: "mp_files q = x # xs" by (cases "mp_files q") auto
  have same: "groupOf y = groupOf x \<and> fi_SchemaFingerprint y = fi_SchemaFingerprint x" if "y \<in> set (x # xs)" for y
    using P(2) [of y x] that xs by simp
  obtain g where g: "groupFilesByTenant (mp_files q) = [g]" "tg_Files g = mp_files q"
    using one_group [of "mp_files q" "groupOf x"] same unfolding xs by (metis list.distinct(1) tenantFileGroup.select_convs(3))
  have "find (\<lambda>y. fi_SchemaFingerprint y \<noteq> fi_SchemaFingerprint x) xs = None"
    unfolding find_None_iff using same by (meson list.set_intros(2))
  then have c: "Compact E part (mp_files q) (mp_level q) w = compactGroups E part (fi_SchemaFingerprint x) (mp_level q + 1) [g]
      \<lparr>cr_InputFiles = [], cr_OutputFiles = [], cr_RowsMerged = 0, cr_BytesRead = 0,
       cr_BytesWritten = 0, cr_OutputLevel = mp_level q + 1, cr_FencedFiles = []\<rparr> w"
    unfolding Compact_def g(1) by (simp add: xs)
  show ?thesis unfolding c compactGroups.simps using g xs by (intro exI [of _ g] exI [of _ "fi_SchemaFingerprint x"]) simp
qed


section \<open>The scan\<close>

text \<open>C40: A scan ends, keeps every row and merges only what it may. Whatever requests fail and whatever the other
  goroutines do between its steps, a scan returns; the rows that are served change only by
  publishes of merges it started; each of these merges takes two or more files of one plan, in
  a partition this pod owns, that is not in backoff; no file is frozen by the lifecycle at the time of
  its merge, and none belongs to a buffer segment that may still be live; no merge starts after the
  drain began or while the ring is stabilizing.\<close>

theorem scan_safe:
  assumes "scan_env X K C" "clean K C (sd_w st)" "\<forall>f. sd_fair st = Some f \<longrightarrow> 1 \<le> fs_perTenant f"
  shows "\<exists>n log st' ss. Scan X st = Some (n, log, st') \<and> world_ok (- K) C (sd_w st') \<and> n \<le> length log
    \<and> merges (se_c X) ss (sd_w st) (sd_w st')
    \<and> (\<forall>(ks, key) \<in> set ss. \<exists>(c, sel) \<in> set log. set ks \<subseteq> fi_Key ` set sel)
    \<and> (\<forall>(c, sel) \<in> set log. 2 \<le> length sel \<and> fi_Key ` set sel \<subseteq> fi_Key ` set (mp_files c)
         \<and> OwnsPartition (se_ownership X) (mp_partition c) \<and> \<not> waiting (se_planNow X) (sd_backoff st) c
         \<and> (\<exists>i. \<not> se_draining X (Suc i) \<and> (\<forall>f \<in> set sel. \<not> fst (frozen (se_freeze X) f (mp_time c) (se_mergeNow X i))))
         \<and> (\<forall>f \<in> set sel. Released (Some (fst (segmentGuardOf X (se_planNow X) (reclaim (se_c X) (se_cancelled X) (sd_w st)))))
              (fi_Key f) (se_planNow X)))
    \<and> (se_draining X 0 \<or> IsStabilizing (se_ownership X) \<longrightarrow> log = [])"
proof -
  let ?g = "fst (segmentGuardOf X (se_planNow X) (reclaim (se_c X) (se_cancelled X) (sd_w st)))"
  obtain n log st' ss cs where S: "Scan X st = Some (n, log, st')" "world_ok (- K) C (sd_w st')" "n \<le> length log"
    "merges (se_c X) ss (sd_w st) (sd_w st')" "\<forall>(ks, key) \<in> set ss. \<exists>(c, sel) \<in> set log. set ks \<subseteq> fi_Key ` set sel"
    and L: "\<forall>e \<in> set log. started_ok X cs e"
    and P: "\<forall>c \<in> set cs. scannable X (reclaim (se_c X) (se_cancelled X) (sd_w st)) K c \<and> \<not> waiting (se_planNow X) (sd_backoff st) c"
    and D: "log \<noteq> [] \<Longrightarrow> \<not> se_draining X 0 \<and> \<not> IsStabilizing (se_ownership X)"
    by (rule Scan_safe [OF assms]) blast
  have "2 \<le> length sel \<and> fi_Key ` set sel \<subseteq> fi_Key ` set (mp_files c)
      \<and> OwnsPartition (se_ownership X) (mp_partition c) \<and> \<not> waiting (se_planNow X) (sd_backoff st) c
      \<and> (\<exists>i. \<not> se_draining X (Suc i) \<and> (\<forall>f \<in> set sel. \<not> fst (frozen (se_freeze X) f (mp_time c) (se_mergeNow X i))))
      \<and> (\<forall>f \<in> set sel. Released (Some ?g) (fi_Key f) (se_planNow X))" if "(c, sel) \<in> set log" for c sel
  proof -
    have c: "started_ok X cs (c, sel)" using L that by blast
    then have "c \<in> set cs" by (simp add: started_ok_def)
    then obtain held flog where p: "plannable X ?g held flog K c" and w: "\<not> waiting (se_planNow X) (sd_backoff st) c"
      using P by (auto simp: scannable_def)
    have pt: "parsePartitionTime (mp_partition c) = Some (mp_time c)" and own: "OwnsPartition (se_ownership X) (mp_partition c)"
      and rel: "\<And>f. f \<in> set (mp_files c) \<Longrightarrow> Released (Some ?g) (fi_Key f) (se_planNow X)" using p by (simp_all add: plannable_def)
    have len: "2 \<le> length sel" and sub: "fi_Key ` set sel \<subseteq> fi_Key ` set (mp_files c)"
      and thaw: "\<exists>i. \<not> se_draining X (Suc i) \<and> (\<forall>f \<in> set sel. \<not> fst (frozen (se_freeze X) f (mp_time c) (se_mergeNow X i)))"
      using c by (auto simp: started_ok_def pt)
    have "Released (Some ?g) (fi_Key f) (se_planNow X)" if "f \<in> set sel" for f
    proof -
      from that sub obtain f' where "f' \<in> set (mp_files c)" "fi_Key f = fi_Key f'" by blast
      then show ?thesis using rel by simp
    qed
    then show ?thesis using len sub own w thaw by blast
  qed
  then have all: "\<forall>(c, sel) \<in> set log. 2 \<le> length sel \<and> fi_Key ` set sel \<subseteq> fi_Key ` set (mp_files c)
      \<and> OwnsPartition (se_ownership X) (mp_partition c) \<and> \<not> waiting (se_planNow X) (sd_backoff st) c
      \<and> (\<exists>i. \<not> se_draining X (Suc i) \<and> (\<forall>f \<in> set sel. \<not> fst (frozen (se_freeze X) f (mp_time c) (se_mergeNow X i))))
      \<and> (\<forall>f \<in> set sel. Released (Some ?g) (fi_Key f) (se_planNow X))" by (intro ballI case_prodI2) simp
  have quiet: "se_draining X 0 \<or> IsStabilizing (se_ownership X) \<longrightarrow> log = []" using D by blast
  from S all quiet show ?thesis by (intro exI [of _ n] exI [of _ log] exI [of _ st'] exI [of _ ss] conjI)
qed

theorem scan_safe_witness:
  "\<exists>log st' ss. Scan exScan exSched = Some (1, log, st') \<and> merges (exEnv False False) ss exCWorld (sd_w st')
     \<and> map snd log = [exFiles] \<and> mkeys (cw_objs (sd_w st')) = [exOut]"
proof -
  have e: "se_c exScan = exEnv False False" "sd_w exSched = exCWorld" by (simp_all add: exScan_def exSched_def)
  have "\<forall>f. sd_fair exSched = Some f \<longrightarrow> 1 \<le> fs_perTenant f" by (simp add: exSched_def NewFairShareScheduler_def)
  from scan_safe [OF exScan_env exSched_clean this] obtain n log st' ss where
    s: "Scan exScan exSched = Some (n, log, st')" "merges (exEnv False False) ss exCWorld (sd_w st')" unfolding e by blast
  from exScan_runs [unfolded s(1)] have "n = 1" and l: "map snd log = [exFiles]" "mkeys (cw_objs (sd_w st')) = [exOut]" by simp_all
  then have "Scan exScan exSched = Some (1, log, st')" using s(1) by simp
  then show ?thesis using s(2) l by (intro exI [of _ log] exI [of _ st'] exI [of _ ss] conjI)
qed

end
