(* ===== verification/Bloom.thy ===== *)
theory Bloom
  imports Prelude
begin

unbundle bit_operations_syntax

text \<open>
  The file-level bloom index: \<open>src/internal/bloomindex/\<close> (\<open>bloomindex.go\<close>, \<open>partitioned.go\<close>,
  \<open>file_bloom.go\<close>, \<open>tiering.go\<close>). A filter is a byte array with the number of hash functions; the index
  maps a file key to a filter per column, and a query leaves out the files whose filters exclude a value.

  \<^item> Bytes are \<open>8 word\<close>, the hashes 64- and 32-bit words with Go's wrap-around. An index past the end
    of a filter's bytes panics in Go; the operations on a filter return \<open>None\<close> there.
  \<^item> The size of a filter comes from logarithms in floating point (\<open>optimalBits\<close>,
    \<open>optimalHashes\<close>); \<open>sizing\<close> gives the two results for a number of items at the configured rate.
  \<^item> Filters and column maps are values. The code shares them by pointer when one index is merged into
    another (\<open>MergeFrom\<close>); every caller drops the other index. The downgrades
    OR into a filter of the index they read, so they return that index too.
\<close>

type_synonym bytes = "8 word list"

definition bytesOf :: "string \<Rightarrow> bytes" where
  "bytesOf s = map of_char s"

section \<open>Hashing\<close>

text \<open>FNV-1a with 64 bits, as \<open>hash/fnv\<close> computes it.\<close>

definition fnvHash :: "string \<Rightarrow> 64 word" where
  "fnvHash s = fold (\<lambda>b h. (h XOR ucast b) * 0x100000001b3) (bytesOf s) 0xcbf29ce484222325"

definition bloomHash :: "64 word \<Rightarrow> 32 word \<Rightarrow> 32 word \<Rightarrow> 32 word" where
  "bloomHash h i m = (if m = 0 then 0 else (ucast h + i * ucast (drop_bit 32 h)) mod m)"

section \<open>A filter\<close>

record bloomFilter =
  bf_bits :: bytes
  bf_numHash :: "8 word"

record sizing =
  sz_bits :: "nat \<Rightarrow> nat"
  sz_hashes :: "nat \<Rightarrow> nat \<Rightarrow> nat"

definition maxFilterItems :: nat where "maxFilterItems = 10000000"

definition NewFilter :: "sizing \<Rightarrow> nat \<Rightarrow> bloomFilter" where
  "NewFilter S n0 =
     (let n1 = (if n0 = 0 then 1 else n0); n = (if n1 > maxFilterItems then maxFilterItems else n1);
          m = sz_bits S n; k = sz_hashes S m n
      in \<lparr>bf_bits = replicate ((m + 7) div 8) 0, bf_numHash = word_of_nat k\<rparr>)"

text \<open>The bit positions of a value, one per hash function.\<close>

definition bitPositions :: "bloomFilter \<Rightarrow> string \<Rightarrow> nat list" where
  "bitPositions f v =
     map (\<lambda>i. unat (bloomHash (fnvHash v) (word_of_nat i) (word_of_nat (length (bf_bits f) * 8)))) [0..<unat (bf_numHash f)]"

fun setBits :: "nat list \<Rightarrow> bytes \<Rightarrow> bytes option" where
  "setBits [] bs = Some bs"
| "setBits (p # ps) bs =
     (if p div 8 \<ge> length bs then None else setBits ps (bs[p div 8 := bs ! (p div 8) OR push_bit (p mod 8) 1]))"

definition filterAdd :: "string \<Rightarrow> bloomFilter \<Rightarrow> bloomFilter option" where
  "filterAdd v f = map_option (\<lambda>bs. f\<lparr>bf_bits := bs\<rparr>) (setBits (bitPositions f v) (bf_bits f))"

fun testBits :: "nat list \<Rightarrow> bytes \<Rightarrow> bool option" where
  "testBits [] bs = Some True"
| "testBits (p # ps) bs =
     (if p div 8 \<ge> length bs then None
      else if bs ! (p div 8) AND push_bit (p mod 8) 1 = 0 then Some False else testBits ps bs)"

definition filterMayContain :: "string \<Rightarrow> bloomFilter \<Rightarrow> bool option" where
  "filterMayContain v f = testBits (bitPositions f v) (bf_bits f)"

text \<open>The OR of the common prefix; \<open>zip\<close> ends with the shorter filter.\<close>

definition filterMergeFrom :: "bloomFilter \<Rightarrow> bloomFilter \<Rightarrow> bloomFilter" where
  "filterMergeFrom other f =
     f\<lparr>bf_bits := map (\<lambda>(a, b). a OR b) (zip (bf_bits f) (bf_bits other)) @ drop (length (bf_bits other)) (bf_bits f)\<rparr>"

definition filterSize :: "bloomFilter \<Rightarrow> nat" where
  "filterSize f = length (bf_bits f) + 1"

section \<open>The index\<close>

type_synonym bloomIndex = "(string, (string, bloomFilter) gomap) gomap"

definition columnsOf :: "bloomIndex \<Rightarrow> string \<Rightarrow> (string, bloomFilter) gomap" where
  "columnsOf idx key = (case mget idx key of None \<Rightarrow> [] | Some cols \<Rightarrow> cols)"

definition indexAdd :: "string \<Rightarrow> string \<Rightarrow> bloomFilter \<Rightarrow> bloomIndex \<Rightarrow> bloomIndex" where
  "indexAdd key column f idx = mput key (mput column f (columnsOf idx key)) idx"

definition AddColumns :: "string \<Rightarrow> (string, bloomFilter) gomap \<Rightarrow> bloomIndex \<Rightarrow> bloomIndex" where
  "AddColumns key columns idx =
     (if columns = [] then idx else mput key (fold (\<lambda>(col, f). mput col f) columns (columnsOf idx key)) idx)"

fun MayContain :: "bloomIndex \<Rightarrow> string list \<Rightarrow> string \<Rightarrow> string \<Rightarrow> string list option" where
  "MayContain idx [] column v = Some []"
| "MayContain idx (key # keys) column v =
     (case mget idx key of
        None \<Rightarrow> map_option ((#) key) (MayContain idx keys column v)
      | Some cols \<Rightarrow>
          (case mget cols column of
             None \<Rightarrow> map_option ((#) key) (MayContain idx keys column v)
           | Some f \<Rightarrow>
               (case filterMayContain v f of
                  None \<Rightarrow> None
                | Some hit \<Rightarrow> map_option (if hit then (#) key else (\<lambda>ks. ks)) (MayContain idx keys column v))))"

type_synonym columnCheck = "string \<times> string"

fun keepsAll :: "(string, bloomFilter) gomap \<Rightarrow> columnCheck list \<Rightarrow> bool option" where
  "keepsAll cols [] = Some True"
| "keepsAll cols ((column, v) # checks) =
     (case mget cols column of
        None \<Rightarrow> keepsAll cols checks
      | Some f \<Rightarrow>
          (case filterMayContain v f of
             None \<Rightarrow> None
           | Some hit \<Rightarrow> if hit then keepsAll cols checks else Some False))"

fun mayContainAllLoop :: "bloomIndex \<Rightarrow> string list \<Rightarrow> columnCheck list \<Rightarrow> string list option" where
  "mayContainAllLoop idx [] checks = Some []"
| "mayContainAllLoop idx (key # keys) checks =
     (case mget idx key of
        None \<Rightarrow> map_option ((#) key) (mayContainAllLoop idx keys checks)
      | Some cols \<Rightarrow>
          (case keepsAll cols checks of
             None \<Rightarrow> None
           | Some keep \<Rightarrow> map_option (if keep then (#) key else (\<lambda>ks. ks)) (mayContainAllLoop idx keys checks)))"

definition MayContainAll :: "bloomIndex \<Rightarrow> string list \<Rightarrow> columnCheck list \<Rightarrow> string list option" where
  "MayContainAll idx keys checks = (if checks = [] then Some keys else mayContainAllLoop idx keys checks)"

definition indexHas :: "bloomIndex \<Rightarrow> string \<Rightarrow> bool" where
  "indexHas idx key = mhas idx key"

definition indexLen :: "bloomIndex \<Rightarrow> nat" where
  "indexLen idx = length idx"

definition BytesByColumn :: "bloomIndex \<Rightarrow> (string, int) gomap" where
  "BytesByColumn idx =
     fold (\<lambda>(key, cols) out. fold (\<lambda>(col, f) out.
         mput col ((case mget out col of None \<Rightarrow> 0 | Some n \<Rightarrow> n) + int (filterSize f)) out) cols out) idx []"

definition RemoveKeys :: "string list \<Rightarrow> bloomIndex \<Rightarrow> bloomIndex" where
  "RemoveKeys keys idx = fold mdel keys idx"

definition indexMergeFrom :: "bloomIndex \<Rightarrow> bloomIndex \<Rightarrow> bloomIndex" where
  "indexMergeFrom other idx =
     fold (\<lambda>(k, cols) idx.
         case mget idx k of
           None \<Rightarrow> mput k cols idx
         | Some existing \<Rightarrow> mput k (fold (\<lambda>(col, f). mput col f) cols existing) idx) other idx"

section \<open>Building\<close>

definition maxBloomCardinality :: nat where "maxBloomCardinality = 50000"

definition ShouldSkipBloom :: "nat \<Rightarrow> bool" where
  "ShouldSkipBloom distinctCount \<longleftrightarrow> distinctCount > maxBloomCardinality"

fun addAll :: "string list \<Rightarrow> bloomFilter \<Rightarrow> bloomFilter option" where
  "addAll [] f = Some f"
| "addAll (v # vs) f = (case filterAdd v f of None \<Rightarrow> None | Some f' \<Rightarrow> addAll vs f')"

fun BuildFileColumns :: "sizing \<Rightarrow> (string, string list) gomap \<Rightarrow> (string, bloomFilter) gomap option" where
  "BuildFileColumns S [] = Some []"
| "BuildFileColumns S ((col, vals) # cvs) =
     (if ShouldSkipBloom (length vals) then BuildFileColumns S cvs
      else case addAll vals (NewFilter S (length vals)) of
        None \<Rightarrow> None
      | Some f \<Rightarrow> map_option (mput col f) (BuildFileColumns S cvs))"

datatype granularity = GranularityHour | GranularityDay

record partitionedIndex =
  pi_partitions :: "(string, bloomIndex) gomap"
  pi_dirty :: "string list"
  pi_granularity :: granularity
  pi_sizing :: sizing

definition NewPartitionedIndex :: "granularity \<Rightarrow> sizing \<Rightarrow> partitionedIndex" where
  "NewPartitionedIndex g S = \<lparr>pi_partitions = [], pi_dirty = [], pi_granularity = g, pi_sizing = S\<rparr>"

definition partAddFile :: "string \<Rightarrow> string \<Rightarrow> (string, string list) gomap \<Rightarrow> partitionedIndex \<Rightarrow> partitionedIndex option" where
  "partAddFile part key columnValues p =
     (let idx = (case mget (pi_partitions p) part of None \<Rightarrow> [] | Some i \<Rightarrow> i)
      in case BuildFileColumns (pi_sizing p) columnValues of
           None \<Rightarrow> None
         | Some cols \<Rightarrow>
             Some (if cols = [] then p\<lparr>pi_partitions := mput part idx (pi_partitions p)\<rparr>
                   else p\<lparr>pi_partitions := mput part (AddColumns key cols idx) (pi_partitions p),
                          pi_dirty := List.insert part (pi_dirty p)\<rparr>))"

definition GetPartition :: "string \<Rightarrow> partitionedIndex \<Rightarrow> bloomIndex option" where
  "GetPartition part p = mget (pi_partitions p) part"

definition SetPartition :: "string \<Rightarrow> bloomIndex \<Rightarrow> partitionedIndex \<Rightarrow> partitionedIndex" where
  "SetPartition part idx p =
     p\<lparr>pi_partitions := mput part idx (pi_partitions p), pi_dirty := List.insert part (pi_dirty p)\<rparr>"

definition ClearDirty :: "string \<Rightarrow> partitionedIndex \<Rightarrow> partitionedIndex" where
  "ClearDirty part p = p\<lparr>pi_dirty := removeAll part (pi_dirty p)\<rparr>"

definition RemovePartition :: "string \<Rightarrow> partitionedIndex \<Rightarrow> partitionedIndex" where
  "RemovePartition part p =
     p\<lparr>pi_partitions := mdel part (pi_partitions p), pi_dirty := removeAll part (pi_dirty p)\<rparr>"

text \<open>The single-file index of a \<open>.bloom\<close> object uses a placeholder key.\<close>

definition NewFileBloomIndex :: "sizing \<Rightarrow> (string, string list) gomap \<Rightarrow> bloomIndex option" where
  "NewFileBloomIndex S columnValues =
     map_option (\<lambda>cols. if cols = [] then [] else AddColumns ''_'' cols []) (BuildFileColumns S columnValues)"

definition FileBloomMayContain :: "bloomIndex \<Rightarrow> string \<Rightarrow> string \<Rightarrow> bool option" where
  "FileBloomMayContain idx column v = map_option (\<lambda>r. r \<noteq> []) (MayContain idx [''_''] column v)"

definition FileBloomMayContainAll :: "bloomIndex \<Rightarrow> columnCheck list \<Rightarrow> bool option" where
  "FileBloomMayContainAll idx checks = map_option (\<lambda>r. r \<noteq> []) (MayContainAll idx [''_''] checks)"

end
