(* ===== verification/Pruning.thy ===== *)
theory Pruning
  imports ManifestSafety Bloom
begin

text \<open>
  How a query leaves out files before it reads them: the label extraction of \<open>src/internal/schema/labels.go\<close>, the
  push-down checks of \<open>filter_pushdown.go\<close> and \<open>prewhere.go\<close>, the label, statistics and bloom filters of
  \<open>storage_query.go\<close> (all under \<open>src/internal/storage/parquets3/\<close>), the bloom facet of
  \<open>src/internal/pmeta/facet_bloom.go\<close> and the metadata enrichment of \<open>src/internal/manifest/metadata_sidecar.go\<close>.

  \<^item> What a query asks for comes from a LogsQL parser outside the repository; the model starts at its result, the record
    \<open>prunable\<close>: the push-down checks, whether the query has an OR, its branches, and the
    values per bloom column, for files that attest hexadecimal trace ids and for the others.
  \<^item> \<open>Labels == nil\<close> is the empty map; the writers never store an empty map (every file has its
    account and project in it).
  \<^item> A lookup in a bloom index can panic on a filter without bytes; \<open>LPanic\<close> says so.
\<close>

section \<open>Labels of a file\<close>

definition MaxLabelAggregateValues :: nat where "MaxLabelAggregateValues = 100"

definition addLabelValue :: "string \<Rightarrow> string \<Rightarrow> (string, string list) gomap \<Rightarrow> (string, string list) gomap" where
  "addLabelValue fld v sets =
     (if v = [] then sets
      else let s = (case mget sets fld of None \<Rightarrow> [] | Some s \<Rightarrow> s)
           in mput fld (if length s < MaxLabelAggregateValues then List.insert v s else s) sets)"

text \<open>\<open>cols\<close> is \<open>LogLabelColumns\<close> or \<open>TraceLabelColumns\<close>; \<open>account\<close> and \<open>project\<close> are the formatted ids of a row.\<close>

definition ExtractLabels ::
    "(string \<times> ('r \<Rightarrow> string)) list \<Rightarrow> ('r \<Rightarrow> string) \<Rightarrow> ('r \<Rightarrow> string) \<Rightarrow> 'r list \<Rightarrow> (string, string list) gomap" where
  "ExtractLabels cols account project rows =
     (if rows = [] then []
      else addLabelValue ''project_id'' (project (hd rows)) (addLabelValue ''account_id'' (account (hd rows))
             (fold (\<lambda>r. fold (\<lambda>(name, get). addLabelValue name (get r)) cols) rows [])))"

section \<open>Push-down checks\<close>

datatype pushDownOp = PushDownExact | PushDownGreaterThan | PushDownLessThan | PushDownPrefix

datatype fieldType = TypeString | TypeTimestampNano | TypeInt32 | TypeInt64 | TypeFloat64 | TypeBool

record pushDownCheck =
  pd_Column :: string
  pd_Op :: pushDownOp
  pd_Value :: string
  pd_FieldType :: fieldType

definition valueMatchesCheck :: "string \<Rightarrow> pushDownCheck \<Rightarrow> bool" where
  "valueMatchesCheck s check =
     (case pd_Op check of
        PushDownExact \<Rightarrow> s = pd_Value check
      | PushDownPrefix \<Rightarrow> hasPrefix s (pd_Value check)
      | PushDownGreaterThan \<Rightarrow> s > pd_Value check
      | PushDownLessThan \<Rightarrow> s < pd_Value check)"

definition fileLabelsMatch :: "string list \<Rightarrow> pushDownCheck \<Rightarrow> bool" where
  "fileLabelsMatch vs check = list_ex (\<lambda>v. valueMatchesCheck v check) vs"

text \<open>The successor of a prefix: the last byte below 255 raised by one, what follows it cut off.\<close>

fun successorRev :: "string \<Rightarrow> string" where
  "successorRev [] = []"
| "successorRev (c # cs) = (if (of_char c :: nat) < 255 then char_of (of_char c + 1 :: nat) # cs else successorRev cs)"

definition prefixSuccessor :: "string \<Rightarrow> string" where
  "prefixSuccessor p = rev (successorRev (rev p))"

definition checkMatchesStats :: "pushDownCheck \<Rightarrow> string \<Rightarrow> string \<Rightarrow> bool" where
  "checkMatchesStats check rgMin rgMax =
     (case pd_Op check of
        PushDownExact \<Rightarrow> pd_Value check \<ge> rgMin \<and> pd_Value check \<le> rgMax
      | PushDownGreaterThan \<Rightarrow> rgMax > pd_Value check
      | PushDownLessThan \<Rightarrow> rgMin < pd_Value check
      | PushDownPrefix \<Rightarrow>
          (if pd_Value check > rgMax then False
           else let successor = prefixSuccessor (pd_Value check)
                in if successor \<noteq> [] \<and> successor \<le> rgMin then False else True))"

text \<open>\<open>parse\<close> is \<open>strconv.ParseInt\<close> in base ten with 64 bits.\<close>

definition checkMatchesStatsNumeric :: "(string \<Rightarrow> int option) \<Rightarrow> pushDownCheck \<Rightarrow> int \<Rightarrow> int \<Rightarrow> bool" where
  "checkMatchesStatsNumeric parse check rgMin rgMax =
     (case parse (pd_Value check) of
        None \<Rightarrow> True
      | Some v \<Rightarrow>
          (case pd_Op check of
             PushDownExact \<Rightarrow> v \<ge> rgMin \<and> v \<le> rgMax
           | PushDownGreaterThan \<Rightarrow> rgMax > v
           | PushDownLessThan \<Rightarrow> rgMin < v
           | PushDownPrefix \<Rightarrow> True))"

text \<open>The bounds of a row group from the bounds of its pages.\<close>

definition pageBounds :: "('a :: linorder \<times> 'a) list \<Rightarrow> 'a \<times> 'a" where
  "pageBounds pages =
     fold (\<lambda>(pmin, pmax) (lo, hi). (if pmin < lo then pmin else lo, if pmax > hi then pmax else hi)) (tl pages) (hd pages)"

text \<open>A row group as the filter sees it: the bounds of the pages of a column and its dictionary, each absent when the column, the index
  or the dictionary cannot be read. \<open>vInt\<close> (\<open>valueToInt64\<close>) and \<open>vStr\<close> (\<open>valueToString\<close>) read a bound as a
  number and as text, \<open>vText\<close> (\<open>parquetValueToString\<close>) reads a value.\<close>

record 'v rowGroup =
  rg_pages :: "string \<Rightarrow> ('v \<times> 'v) list option"
  rg_dict :: "string \<Rightarrow> 'v list option"

definition isNumeric :: "fieldType \<Rightarrow> bool" where
  "isNumeric t \<longleftrightarrow> t = TypeInt32 \<or> t = TypeInt64 \<or> t = TypeTimestampNano"

definition statsKeep :: "(string \<Rightarrow> int option) \<Rightarrow> ('v \<Rightarrow> int) \<Rightarrow> ('v \<Rightarrow> string) \<Rightarrow> 'v rowGroup \<Rightarrow> pushDownCheck \<Rightarrow> bool" where
  "statsKeep parse vInt vStr rg check =
     (case rg_pages rg (pd_Column check) of
        None \<Rightarrow> True
      | Some [] \<Rightarrow> True
      | Some (pg # pgs) \<Rightarrow>
          if isNumeric (pd_FieldType check)
          then (case pageBounds (map (\<lambda>(lo, hi). (vInt lo, vInt hi)) (pg # pgs)) of (lo, hi) \<Rightarrow> checkMatchesStatsNumeric parse check lo hi)
          else (case pageBounds (map (\<lambda>(lo, hi). (vStr lo, vStr hi)) (pg # pgs)) of (lo, hi) \<Rightarrow> checkMatchesStats check lo hi))"

definition dictionaryContainsMatch :: "('v \<Rightarrow> string) \<Rightarrow> 'v list option \<Rightarrow> pushDownCheck \<Rightarrow> bool" where
  "dictionaryContainsMatch vText dict check =
     (case dict of
        None \<Rightarrow> True
      | Some vs \<Rightarrow>
          if length vs > 10000 then True
          else list_ex (\<lambda>v. (pd_Op check = PushDownExact \<or> pd_Op check = PushDownPrefix) \<and> valueMatchesCheck (vText v) check) vs)"

definition rowGroupMatchesFilter ::
    "(string \<Rightarrow> int option) \<Rightarrow> ('v \<Rightarrow> int) \<Rightarrow> ('v \<Rightarrow> string) \<Rightarrow> ('v \<Rightarrow> string) \<Rightarrow> 'v rowGroup \<Rightarrow> pushDownCheck list \<Rightarrow> bool" where
  "rowGroupMatchesFilter parse vInt vStr vText rg checks =
     (list_all (statsKeep parse vInt vStr rg) checks
      \<and> list_all (\<lambda>check. if pd_Op check \<noteq> PushDownExact \<and> pd_Op check \<noteq> PushDownPrefix then True
            else dictionaryContainsMatch vText (rg_dict rg (pd_Column check)) check) checks)"

text \<open>The rows of a row group that every readable filter column keeps; \<open>None\<close> when nothing is filtered.\<close>

definition prewhereFilter :: "('v \<Rightarrow> string) \<Rightarrow> (string \<Rightarrow> 'v list option) \<Rightarrow> nat \<Rightarrow> pushDownCheck list \<Rightarrow> bool list option" where
  "prewhereFilter vText column numRows checks =
     (let readable = filter (\<lambda>check. column (pd_Column check) \<noteq> None) checks;
          bitmap = fold (\<lambda>check bm. case column (pd_Column check) of
              None \<Rightarrow> bm
            | Some vs \<Rightarrow> map (\<lambda>i. bm ! i \<and> (i < length vs \<longrightarrow> valueMatchesCheck (vText (vs ! i)) check)) [0..<numRows])
            readable (replicate numRows True)
      in if numRows = 0 \<or> checks = [] \<or> readable = [] then None
         else if list_all (\<lambda>b. b) bitmap then None else Some bitmap)"

section \<open>Filtering by labels and statistics\<close>

definition filterByLabelIndex :: "manifest \<Rightarrow> fileInfo list \<Rightarrow> pushDownCheck list \<Rightarrow> fileInfo list option" where
  "filterByLabelIndex m files checks =
     (let keysOf = (\<lambda>check. GetFileKeysByLabel m (pd_Column check) (pd_Value check))
      in if list_ex (\<lambda>check. pd_Op check \<noteq> PushDownExact \<or> keysOf check = []) checks \<or> checks = [] then None
         else let candidates = fold (\<lambda>check cand. filter (\<lambda>k. k \<in> set (keysOf check)) cand) (tl checks) (keysOf (hd checks));
                  result = filter (\<lambda>fi. fi_Key fi \<in> set candidates \<or> fi_Labels fi = []) files
              in if result = [] then None else Some result)"

definition labelsOf :: "fileInfo \<Rightarrow> string \<Rightarrow> string list" where
  "labelsOf fi column = (case mget (fi_Labels fi) column of None \<Rightarrow> [] | Some vs \<Rightarrow> vs)"

definition skippedByStats :: "pushDownCheck list \<Rightarrow> fileInfo \<Rightarrow> bool" where
  "skippedByStats checks fi \<longleftrightarrow> list_ex (\<lambda>check. pd_Op check = PushDownExact \<and> \<not> ColumnStatsContains fi (pd_Column check) (pd_Value check)) checks"

definition skippedByLabels :: "pushDownCheck list \<Rightarrow> fileInfo \<Rightarrow> bool" where
  "skippedByLabels checks fi \<longleftrightarrow> fi_Labels fi \<noteq> []
     \<and> list_ex (\<lambda>check. let vs = labelsOf fi (pd_Column check)
          in \<not> (vs = [] \<or> length vs \<ge> maxLabelsPerField) \<and> \<not> fileLabelsMatch vs check) checks"

definition filterFilesByLabels :: "manifest \<Rightarrow> fileInfo list \<Rightarrow> pushDownCheck list \<Rightarrow> fileInfo list" where
  "filterFilesByLabels m files checks =
     (if checks = [] then files
      else case filterByLabelIndex m files checks of
        Some result \<Rightarrow> result
      | None \<Rightarrow> filter (\<lambda>fi. \<not> skippedByLabels checks fi) (filter (\<lambda>fi. \<not> skippedByStats checks fi) files))"

section \<open>Column statistics of a file\<close>

text \<open>The pages of a column over the row groups; a row group whose column index cannot be read is \<open>None\<close>, a page with a
  null bound has \<open>None\<close>. The statistics are kept for a fixed list of columns.\<close>

definition statsColumns :: "string list" where
  "statsColumns = [''service.name'', ''severity_text'', ''level'', ''status_code'', ''service_name'', ''trace_id'', ''span.name'']"

definition pageStep :: "(string \<times> string) option \<Rightarrow> string \<times> string \<Rightarrow> string \<times> string" where
  "pageStep pg g =
     (case pg of
        None \<Rightarrow> g
      | Some (pageMin, pageMax) \<Rightarrow>
          if pageMin = [] \<or> length pageMin > 256 then g
          else (if fst g = [] \<or> pageMin < fst g then pageMin else fst g, if snd g = [] \<or> pageMax > snd g then pageMax else snd g))"

type_synonym columnPages = "(string \<times> string) option list option list"

definition globalBounds :: "columnPages \<Rightarrow> string \<times> string" where
  "globalBounds rgs = fold (\<lambda>rg g. case rg of None \<Rightarrow> g | Some pgs \<Rightarrow> fold pageStep pgs g) rgs ([], [])"

definition updateColumnStats :: "(string \<Rightarrow> columnPages option) \<Rightarrow> string \<Rightarrow> manifest \<Rightarrow> manifest" where
  "updateColumnStats column fileKey m =
     (let stats = List.map_filter (\<lambda>col. case column col of
              None \<Rightarrow> None
            | Some rgs \<Rightarrow> (case globalBounds rgs of (lo, hi) \<Rightarrow> if lo = [] then None else Some (col, \<lparr>cm_Min = lo, cm_Max = hi\<rparr>))) statsColumns
      in if stats = [] then m else UpdateFileColumnStats fileKey (Some stats) m)"

section \<open>Metadata from outside the listing\<close>

record fileMeta =
  fm_RowCount :: int
  fm_MinTimeNs :: int
  fm_MaxTimeNs :: int
  fm_RawBytes :: int
  fm_SchemaFingerprint :: string
  fm_Labels :: "(string, string list) gomap"
  fm_TraceIDHex :: bool

definition FileInfoToMeta :: "fileInfo \<Rightarrow> fileMeta" where
  "FileInfoToMeta fi =
     \<lparr>fm_RowCount = fi_RowCount fi, fm_MinTimeNs = (if fi_BoundsInferred fi then 0 else fi_MinTimeNs fi),
      fm_MaxTimeNs = (if fi_BoundsInferred fi then 0 else fi_MaxTimeNs fi), fm_RawBytes = fi_RawBytes fi,
      fm_SchemaFingerprint = fi_SchemaFingerprint fi, fm_Labels = fi_Labels fi, fm_TraceIDHex = fi_TraceIDHex fi\<rparr>"

definition metaBounds :: "fileMeta \<Rightarrow> fileInfo \<Rightarrow> fileInfo" where
  "metaBounds fm fi =
     (if fi_BoundsInferred fi
      then (if fm_MinTimeNs fm > 0 \<and> fm_MaxTimeNs fm \<ge> fm_MinTimeNs fm \<and> \<not> hourShaped (fi_Key fi) (fm_MinTimeNs fm) (fm_MaxTimeNs fm)
            then fi\<lparr>fi_MinTimeNs := fm_MinTimeNs fm, fi_MaxTimeNs := fm_MaxTimeNs fm, fi_BoundsInferred := False\<rparr> else fi)
      else let fi1 = (if fi_MinTimeNs fi = 0 \<and> fm_MinTimeNs fm > 0 then fi\<lparr>fi_MinTimeNs := fm_MinTimeNs fm\<rparr> else fi)
           in if fi_MaxTimeNs fi1 = 0 \<and> fm_MaxTimeNs fm > 0 then fi1\<lparr>fi_MaxTimeNs := fm_MaxTimeNs fm\<rparr> else fi1)"

definition ApplyTo :: "fileMeta \<Rightarrow> fileInfo \<Rightarrow> fileInfo" where
  "ApplyTo fm fi0 =
     (let fi1 = (if fi_RowCount fi0 = 0 \<and> fm_RowCount fm > 0 then fi0\<lparr>fi_RowCount := fm_RowCount fm\<rparr> else fi0);
          fi2 = metaBounds fm fi1;
          fi3 = (if fi_RawBytes fi2 = 0 \<and> fm_RawBytes fm > 0 then fi2\<lparr>fi_RawBytes := fm_RawBytes fm\<rparr> else fi2);
          fi4 = (if fi_SchemaFingerprint fi3 = [] \<and> fm_SchemaFingerprint fm \<noteq> [] then fi3\<lparr>fi_SchemaFingerprint := fm_SchemaFingerprint fm\<rparr> else fi3);
          fi5 = (if fi_Labels fi4 = [] \<and> fm_Labels fm \<noteq> [] then fi4\<lparr>fi_Labels := fm_Labels fm\<rparr> else fi4)
      in if \<not> fi_TraceIDHex fi5 \<and> fm_TraceIDHex fm then fi5\<lparr>fi_TraceIDHex := True\<rparr> else fi5)"

text \<open>The provider is a function of the partition and the key.\<close>

definition enrichPartition :: "(string \<Rightarrow> string \<Rightarrow> fileMeta option) \<Rightarrow> string \<Rightarrow> fileInfo list \<Rightarrow> nat \<times> fileInfo list" where
  "enrichPartition prov part fs =
     (let covered = (\<lambda>fi. case prov part (fi_Key fi) of None \<Rightarrow> None | Some fm \<Rightarrow> if fm_RowCount fm > 0 then Some fm else None)
      in (length (filter (\<lambda>fi. covered fi \<noteq> None) fs), map (\<lambda>fi. case covered fi of None \<Rightarrow> fi | Some fm \<Rightarrow> ApplyTo fm fi) fs))"

definition EnrichFromProvider :: "(string \<Rightarrow> string \<Rightarrow> fileMeta option) \<Rightarrow> manifest \<Rightarrow> nat \<times> string list \<times> manifest" where
  "EnrichFromProvider prov m =
     (let parts = map (\<lambda>(p, fs). (p, enrichPartition prov p fs)) (m_files m);
          files = map (\<lambda>(p, n, fs). (p, fs)) parts
      in (sum_list (map (\<lambda>(p, n, fs). n) parts),
          map fst (filter (\<lambda>(p, fs). list_ex (\<lambda>fi. fi_RowCount fi = 0) fs) files),
          m\<lparr>m_files := files\<rparr>))"

text \<open>The sidecars that were read, by partition: every entry a sidecar has is applied.\<close>

definition LoadSidecarsForPartitions :: "(string, (string, fileMeta) gomap) gomap \<Rightarrow> manifest \<Rightarrow> nat \<times> manifest" where
  "LoadSidecarsForPartitions sidecars m =
     fold (\<lambda>(part, sc) (n, m).
         let fs = filesOf (m_files m) part
         in if list_ex (\<lambda>fi. mhas sc (fi_Key fi)) fs
            then (n + length (filter (\<lambda>fi. mhas sc (fi_Key fi)) fs),
                  m\<lparr>m_files := mput part (map (\<lambda>fi. case mget sc (fi_Key fi) of None \<Rightarrow> fi | Some fm \<Rightarrow> ApplyTo fm fi) fs) (m_files m)\<rparr>)
            else (n, m)) sidecars (0, m)"

section \<open>Bloom lookups\<close>

datatype 'a look = LPanic | LMiss | LOk 'a

fun bindL :: "'a look \<Rightarrow> ('a \<Rightarrow> 'b look) \<Rightarrow> 'b look" where
  "bindL LPanic f = LPanic"
| "bindL LMiss f = LMiss"
| "bindL (LOk x) f = f x"

definition lookOf :: "'a option \<Rightarrow> 'a look" where
  "lookOf r = (case r of None \<Rightarrow> LPanic | Some x \<Rightarrow> LOk x)"

text \<open>The bloom facets of the catalog by partition; a facet without files counts as missing.\<close>

type_synonym catalog = "(string, bloomIndex) gomap"

definition BloomMayContain :: "catalog \<Rightarrow> string \<Rightarrow> string list \<Rightarrow> string \<Rightarrow> string \<Rightarrow> string list look" where
  "BloomMayContain cat part keys column v =
     (case mget cat part of
        None \<Rightarrow> LMiss
      | Some idx \<Rightarrow> if indexLen idx = 0 then LMiss else lookOf (MayContain idx keys column v))"

type_synonym columnValues = "string \<times> string list"

text \<open>The keys some value of a column may be in.\<close>

fun anyValue :: "(string \<Rightarrow> string list look) \<Rightarrow> string list \<Rightarrow> string list look" where
  "anyValue lk [] = LOk []"
| "anyValue lk (v # vs) = bindL (lk v) (\<lambda>ks. bindL (anyValue lk vs) (\<lambda>rest. LOk (List.union ks rest)))"

text \<open>The intersection over the columns; \<open>None\<close> is Go's nil map before the first column, and the loop ends when nothing is left.\<close>

fun intersectColumns :: "(string \<Rightarrow> string \<Rightarrow> string list look) \<Rightarrow> columnValues list \<Rightarrow> string list option \<Rightarrow> string list look" where
  "intersectColumns lk [] acc = LOk (case acc of None \<Rightarrow> [] | Some ks \<Rightarrow> ks)"
| "intersectColumns lk ((column, vs) # cvs) acc =
     bindL (anyValue (lk column) vs) (\<lambda>colMatch.
       let acc' = (case acc of None \<Rightarrow> colMatch | Some ks \<Rightarrow> filter (\<lambda>k. k \<in> set colMatch) ks)
       in if acc' = [] then LOk [] else intersectColumns lk cvs (Some acc'))"

definition facetBloomColumnIntersect :: "catalog \<Rightarrow> string \<Rightarrow> string list \<Rightarrow> columnValues list \<Rightarrow> string list look" where
  "facetBloomColumnIntersect cat part keys cvs = intersectColumns (\<lambda>column v. BloomMayContain cat part keys column v) cvs None"

text \<open>The bloom sources of a pod: the catalog if there is one, and what the legacy cache returns for a partition
  (\<open>None\<close> for an error or no index).\<close>

record bloomSources =
  bs_catalog :: "catalog option"
  bs_legacy :: "string \<Rightarrow> bloomIndex option"

definition bloomColumnIntersect :: "bloomSources \<Rightarrow> string \<Rightarrow> string list \<Rightarrow> columnValues list \<Rightarrow> string list look" where
  "bloomColumnIntersect B part keys cvs =
     (let legacy = (case bs_legacy B part of
            None \<Rightarrow> LMiss
          | Some idx \<Rightarrow> intersectColumns (\<lambda>column v. lookOf (MayContainAll idx keys [(column, v)])) cvs None)
      in case bs_catalog B of
           None \<Rightarrow> legacy
         | Some cat \<Rightarrow> (case facetBloomColumnIntersect cat part keys cvs of LMiss \<Rightarrow> legacy | r \<Rightarrow> r))"

text \<open>OR branches: each branch narrows the keys check by check, the branches are united.\<close>

fun narrow :: "(string list \<Rightarrow> string \<Rightarrow> string \<Rightarrow> string list look) \<Rightarrow> string list \<Rightarrow> columnCheck list \<Rightarrow> string list look" where
  "narrow lk keys [] = LOk keys"
| "narrow lk keys ((column, v) # checks) =
     bindL (lk keys column v) (\<lambda>sub. if sub = [] then LOk [] else narrow lk sub checks)"

fun uniteBranches :: "(columnCheck list \<Rightarrow> string list look) \<Rightarrow> columnCheck list list \<Rightarrow> string list look" where
  "uniteBranches f [] = LOk []"
| "uniteBranches f (b # bs) = bindL (f b) (\<lambda>ks. bindL (uniteBranches f bs) (\<lambda>rest. LOk (List.union ks rest)))"

definition facetBloomUnionMatch :: "catalog \<Rightarrow> string \<Rightarrow> string list \<Rightarrow> columnCheck list list \<Rightarrow> string list look" where
  "facetBloomUnionMatch cat part keys branches = uniteBranches (narrow (BloomMayContain cat part) keys) branches"

definition bloomUnionMatch :: "bloomSources \<Rightarrow> string \<Rightarrow> string list \<Rightarrow> columnCheck list list \<Rightarrow> string list look" where
  "bloomUnionMatch B part keys branches =
     (let legacy = (case bs_legacy B part of
            None \<Rightarrow> LMiss
          | Some idx \<Rightarrow> uniteBranches (\<lambda>checks. lookOf (MayContainAll idx keys checks)) branches)
      in case bs_catalog B of
           None \<Rightarrow> legacy
         | Some cat \<Rightarrow> (case facetBloomUnionMatch cat part keys branches of LMiss \<Rightarrow> legacy | r \<Rightarrow> r))"

section \<open>Filtering files by bloom\<close>

text \<open>\<open>path.Dir\<close> of a clean key, and the partition it names.\<close>

definition dirOf :: "string \<Rightarrow> string" where
  "dirOf key =
     (if CHR ''/'' \<notin> set key then ''.''
      else let cut = length key - length (takeWhile (\<lambda>c. c \<noteq> CHR ''/'') (rev key)) - 1
           in if cut = 0 then ''/'' else take cut key)"

definition ExtractTenantPartition :: "string \<Rightarrow> string" where
  "ExtractTenantPartition key = (let dir = dirOf key in if sublist ''dt='' dir then dir else [])"

definition byPartition :: "fileInfo list \<Rightarrow> (string, fileInfo list) gomap" where
  "byPartition files =
     fold (\<lambda>fi g. let p = ExtractTenantPartition (fi_Key fi)
        in mput p ((case mget g p of None \<Rightarrow> [] | Some fs \<Rightarrow> fs) @ [fi]) g) files []"

fun keepMatched :: "(string \<Rightarrow> string list \<Rightarrow> string list look) \<Rightarrow> (string, fileInfo list) gomap \<Rightarrow> fileInfo list option" where
  "keepMatched f [] = Some []"
| "keepMatched f ((p, fs) # rest) =
     (case f p (map fi_Key fs) of
        LPanic \<Rightarrow> None
      | LMiss \<Rightarrow> map_option ((@) fs) (keepMatched f rest)
      | LOk ks \<Rightarrow> map_option ((@) (filter (\<lambda>fi. fi_Key fi \<in> set ks) fs)) (keepMatched f rest))"

text \<open>What the parser made of a query. A branch lists fields with their values; \<open>pr_columns attested\<close> are the values per bloom column.\<close>

record prunable =
  pr_checks :: "pushDownCheck list"
  pr_hasOr :: bool
  pr_branches :: "(string \<times> string) list list"
  pr_resolve :: "string \<Rightarrow> string"
  pr_columns :: "bool \<Rightarrow> columnValues list"
  pr_hexPhrases :: bool

text \<open>The branches with their bloom columns; \<open>None\<close> when one of them cannot be evaluated.\<close>

definition branchChecks :: "prunable \<Rightarrow> columnCheck list list option" where
  "branchChecks q =
     (if list_ex (\<lambda>b. b = [] \<or> list_ex (\<lambda>(fld, v). pr_resolve q fld = []) b) (pr_branches q) then None
      else Some (map (map (\<lambda>(fld, v). (pr_resolve q fld, v))) (pr_branches q)))"

definition bloomFilterFilesByOrBranches :: "bloomSources \<Rightarrow> prunable \<Rightarrow> fileInfo list \<Rightarrow> fileInfo list option" where
  "bloomFilterFilesByOrBranches B q files =
     (if pr_branches q = [] then Some files
      else case branchChecks q of
        None \<Rightarrow> Some files
      | Some bcs \<Rightarrow> keepMatched (\<lambda>p keys. bloomUnionMatch B p keys bcs) (byPartition files))"

definition bloomFilterFilesWith :: "bloomSources \<Rightarrow> prunable \<Rightarrow> bool \<Rightarrow> fileInfo list \<Rightarrow> fileInfo list option" where
  "bloomFilterFilesWith B q attested files =
     (if files = [] then Some files
      else if pr_hasOr q then bloomFilterFilesByOrBranches B q files
      else if pr_columns q attested = [] then Some files
      else keepMatched (\<lambda>p keys. bloomColumnIntersect B p keys (pr_columns q attested)) (byPartition files))"

definition bloomFilterFiles :: "bloomSources option \<Rightarrow> prunable \<Rightarrow> fileInfo list \<Rightarrow> fileInfo list option" where
  "bloomFilterFiles src q files =
     (case src of
        None \<Rightarrow> Some files
      | Some B \<Rightarrow>
          if files = [] \<or> \<not> pr_hexPhrases q then bloomFilterFilesWith B q False files
          else case bloomFilterFilesWith B q True (filter fi_TraceIDHex files) of
            None \<Rightarrow> None
          | Some out \<Rightarrow> map_option ((@) out) (bloomFilterFilesWith B q False (filter (\<lambda>fi. \<not> fi_TraceIDHex fi) files)))"

definition preFilterFiles :: "manifest \<Rightarrow> bloomSources option \<Rightarrow> prunable \<Rightarrow> fileInfo list \<Rightarrow> fileInfo list option" where
  "preFilterFiles m src q files =
     (let files1 = filterFilesByLabels m files (pr_checks q)
      in if files1 = [] then Some [] else bloomFilterFiles src q files1)"

end
