(* ===== verification/BloomProofs.thy ===== *)
theory BloomProofs
  imports Bloom
begin

unbundle bit_operations_syntax

text \<open>
  A bloom filter has no false negatives, and neither has an index built from the values of the files:
  \<open>filter_ok\<close> is the invariant of a filter (at least one byte), under which no operation panics, and
  \<open>holds f v\<close> says that every bit of a value is set. \<open>sound idx F\<close> says that an index excludes no value a file
  has, where \<open>F\<close> tells which values the files have; every way the code makes an index keeps it.
\<close>

section \<open>Bits of a byte array\<close>

definition bitAt :: "bytes \<Rightarrow> nat \<Rightarrow> bool" where
  "bitAt bs p \<longleftrightarrow> p div 8 < length bs \<and> bit (bs ! (p div 8)) (p mod 8)"

definition filter_ok :: "bloomFilter \<Rightarrow> bool" where
  "filter_ok f \<longleftrightarrow> bf_bits f \<noteq> []"

definition holds :: "bloomFilter \<Rightarrow> string \<Rightarrow> bool" where
  "holds f v \<longleftrightarrow> (\<forall>p \<in> set (bitPositions f v). bitAt (bf_bits f) p)"

text \<open>The shape of a filter: what the positions of a value depend on.\<close>

definition shape :: "bloomFilter \<Rightarrow> nat \<times> 8 word" where
  "shape f = (length (bf_bits f), bf_numHash f)"

lemma positions_shape: "shape f = shape g \<Longrightarrow> bitPositions f v = bitPositions g v"
  by (simp add: shape_def bitPositions_def)

lemma position_bound:
  assumes "filter_ok f" "p \<in> set (bitPositions f v)"
  shows "p div 8 < length (bf_bits f)"
proof -
  let ?l = "length (bf_bits f)"
  let ?m = "word_of_nat (?l * 8) :: 32 word"
  obtain i where p: "p = unat (bloomHash (fnvHash v) (word_of_nat i) ?m)" using assms(2) by (auto simp: bitPositions_def)
  have l: "0 < ?l" using assms(1) by (simp add: filter_ok_def)
  show ?thesis
  proof (cases "?m = 0")
    case True
    then show ?thesis using p l by (simp add: bloomHash_def)
  next
    case False
    have "unat (x mod ?m) < unat ?m" for x :: "32 word"
      using False by (simp add: unat_mod unat_gt_0)
    moreover have "unat ?m \<le> ?l * 8" unfolding unat_of_nat by (rule mod_less_eq_dividend)
    ultimately have "p < ?l * 8" unfolding p bloomHash_def if_not_P [OF False] by (rule less_le_trans)
    then show ?thesis by (simp add: less_mult_imp_div_less)
  qed
qed

section \<open>Adding and testing\<close>

lemma setBits_ok:
  assumes "\<forall>p \<in> set ps. p div 8 < length bs"
  shows "\<exists>bs'. setBits ps bs = Some bs' \<and> length bs' = length bs \<and> (\<forall>q. bitAt bs' q \<longleftrightarrow> q \<in> set ps \<or> bitAt bs q)"
  using assms
proof (induction ps arbitrary: bs)
  case (Cons p ps)
  let ?bs = "bs[p div 8 := bs ! (p div 8) OR push_bit (p mod 8) 1]"
  have p: "p div 8 < length bs" using Cons.prems by simp
  obtain bs' where s: "setBits ps ?bs = Some bs'" "length bs' = length ?bs" "\<forall>q. bitAt bs' q \<longleftrightarrow> q \<in> set ps \<or> bitAt ?bs q"
    using Cons.IH [of ?bs] Cons.prems by auto
  have "bitAt ?bs q \<longleftrightarrow> q = p \<or> bitAt bs q" for q
  proof (cases "q div 8 = p div 8")
    case True
    then have "q mod 8 = p mod 8 \<longleftrightarrow> q = p" by (metis div_mult_mod_eq)
    moreover have "bit (push_bit (p mod 8) 1 :: 8 word) (q mod 8) \<longleftrightarrow> q mod 8 = p mod 8"
      by (auto simp: bit_simps)
    ultimately show ?thesis using True p by (auto simp: bitAt_def bit_simps)
  next
    case False
    then show ?thesis by (auto simp: bitAt_def)
  qed
  then show ?case using s p by auto
qed simp

lemma testBits_eq:
  assumes "\<forall>p \<in> set ps. p div 8 < length bs"
  shows "testBits ps bs = Some (\<forall>p \<in> set ps. bitAt bs p)"
  using assms by (induction ps) (auto simp: and_exp_eq_0_iff_not_bit bitAt_def)

lemma filterAdd_ok:
  assumes "filter_ok f"
  shows "\<exists>f'. filterAdd v f = Some f' \<and> shape f' = shape f \<and> holds f' v \<and> (\<forall>u. holds f u \<longrightarrow> holds f' u)"
proof -
  obtain bs' where b: "setBits (bitPositions f v) (bf_bits f) = Some bs'" "length bs' = length (bf_bits f)"
    "\<forall>q. bitAt bs' q \<longleftrightarrow> q \<in> set (bitPositions f v) \<or> bitAt (bf_bits f) q"
    using setBits_ok [of "bitPositions f v" "bf_bits f"] position_bound [OF assms] by blast
  let ?f = "f\<lparr>bf_bits := bs'\<rparr>"
  have s: "shape ?f = shape f" using b(2) by (simp add: shape_def)
  then have "bitPositions ?f u = bitPositions f u" for u by (rule positions_shape)
  then have "holds ?f v" "holds f u \<Longrightarrow> holds ?f u" for u using b(3) by (auto simp: holds_def)
  then show ?thesis using b(1) s by (auto simp: filterAdd_def)
qed

lemma filterMayContain_eq: "filter_ok f \<Longrightarrow> filterMayContain v f = Some (holds f v)"
  unfolding filterMayContain_def holds_def by (rule testBits_eq) (blast intro: position_bound)

lemma filter_ok_shape: "shape f = shape g \<Longrightarrow> filter_ok f \<longleftrightarrow> filter_ok g"
  unfolding shape_def filter_ok_def prod.inject by (metis length_0_conv)

lemma addAll_ok:
  assumes "filter_ok f"
  shows "\<exists>f'. addAll vs f = Some f' \<and> shape f' = shape f \<and> (\<forall>u. u \<in> set vs \<or> holds f u \<longrightarrow> holds f' u)"
  using assms
proof (induction vs arbitrary: f)
  case (Cons v vs)
  obtain f' where f: "filterAdd v f = Some f'" "shape f' = shape f" "holds f' v" "\<forall>u. holds f u \<longrightarrow> holds f' u"
    using filterAdd_ok [OF Cons.prems] by blast
  then obtain g where "addAll vs f' = Some g" "shape g = shape f'" "\<forall>u. u \<in> set vs \<or> holds f' u \<longrightarrow> holds g u"
    using Cons.IH [of f'] Cons.prems filter_ok_shape by blast
  then show ?case using f by auto
qed simp

text \<open>Filters of one shape can be merged: the result holds what either held.\<close>

lemma bitAt_merge:
  assumes "length as = length bs"
  shows "bitAt (map (\<lambda>(a, b). a OR b) (zip as bs)) p \<longleftrightarrow> bitAt as p \<or> bitAt bs p"
  using assms by (auto simp: bitAt_def bit_simps)

lemma filterMerge_ok:
  assumes "shape f = shape g"
  shows "shape (filterMergeFrom g f) = shape f" "holds f v \<or> holds g v \<Longrightarrow> holds (filterMergeFrom g f) v"
proof -
  have l: "length (bf_bits f) = length (bf_bits g)" using assms by (simp add: shape_def)
  then show s: "shape (filterMergeFrom g f) = shape f" by (simp add: shape_def filterMergeFrom_def)
  have p: "bitPositions (filterMergeFrom g f) v = bitPositions f v" "bitPositions g v = bitPositions f v"
    using positions_shape [OF s] positions_shape [OF assms] by simp_all
  have "bitAt (bf_bits (filterMergeFrom g f)) q \<longleftrightarrow> bitAt (bf_bits f) q \<or> bitAt (bf_bits g) q" for q
    using bitAt_merge [OF l] l by (simp add: filterMergeFrom_def)
  then show "holds f v \<or> holds g v \<Longrightarrow> holds (filterMergeFrom g f) v" by (auto simp: holds_def p)
qed

section \<open>The new filter\<close>

definition sizing_ok :: "sizing \<Rightarrow> bool" where
  "sizing_ok S \<longleftrightarrow> (\<forall>n. 1 \<le> n \<longrightarrow> 1 \<le> sz_bits S n)"

lemma NewFilter_ok:
  assumes "sizing_ok S"
  shows "filter_ok (NewFilter S n)"
proof -
  have "1 \<le> sz_bits S k" if "1 \<le> k" for k using assms that by (simp add: sizing_ok_def)
  then have "0 < (sz_bits S k + 7) div 8" if "1 \<le> k" for k using that by (simp add: div_greater_zero_iff)
  then show ?thesis by (simp add: filter_ok_def NewFilter_def Let_def maxFilterItems_def)
qed

lemma built_filter:
  assumes "sizing_ok S"
  shows "\<exists>f. addAll vs (NewFilter S n) = Some f \<and> filter_ok f \<and> (\<forall>v \<in> set vs. holds f v)"
  using addAll_ok [OF NewFilter_ok [OF assms]] filter_ok_shape NewFilter_ok [OF assms] by blast

section \<open>What an index excludes\<close>

definition bloom_ok :: "bloomIndex \<Rightarrow> bool" where
  "bloom_ok idx \<longleftrightarrow> wfmap idx \<and> (\<forall>key cols. mget idx key = Some cols \<longrightarrow> wfmap cols \<and> (\<forall>col f. mget cols col = Some f \<longrightarrow> filter_ok f))"

definition excludes :: "bloomIndex \<Rightarrow> string \<Rightarrow> string \<Rightarrow> string \<Rightarrow> bool" where
  "excludes idx key col v \<longleftrightarrow> (\<exists>f. mget (columnsOf idx key) col = Some f \<and> \<not> holds f v)"

lemma bloom_okD: "bloom_ok idx \<Longrightarrow> mget idx key = Some cols \<Longrightarrow> mget cols col = Some f \<Longrightarrow> filter_ok f"
  by (simp add: bloom_ok_def)

lemma MayContain_eq:
  assumes "bloom_ok idx"
  shows "MayContain idx keys col v = Some (filter (\<lambda>key. \<not> excludes idx key col v) keys)"
proof (induction keys)
  case (Cons key keys)
  then show ?case
    using filterMayContain_eq [OF bloom_okD [OF assms]]
    by (auto simp: excludes_def columnsOf_def split: option.splits)
qed simp

lemma keepsAll_eq:
  assumes "\<forall>col f. mget cols col = Some f \<longrightarrow> filter_ok f"
  shows "keepsAll cols checks = Some (\<forall>(col, v) \<in> set checks. \<forall>f. mget cols col = Some f \<longrightarrow> holds f v)"
proof (induction checks)
  case (Cons c checks)
  then show ?case using assms filterMayContain_eq by (cases c) (auto split: option.splits)
qed simp

lemma MayContainAll_eq:
  assumes "bloom_ok idx"
  shows "MayContainAll idx keys checks = Some (filter (\<lambda>key. \<forall>(col, v) \<in> set checks. \<not> excludes idx key col v) keys)"
proof -
  have "mayContainAllLoop idx keys checks = Some (filter (\<lambda>key. \<forall>(col, v) \<in> set checks. \<not> excludes idx key col v) keys)"
  proof (induction keys)
    case (Cons key keys)
    show ?case
    proof (cases "mget idx key")
      case None
      then show ?thesis using Cons by (simp add: excludes_def columnsOf_def)
    next
      case (Some cols)
      have "keepsAll cols checks = Some (\<forall>(col, v) \<in> set checks. \<not> excludes idx key col v)"
        using keepsAll_eq bloom_okD [OF assms Some] Some by (simp add: excludes_def columnsOf_def)
      then show ?thesis using Cons Some by simp
    qed
  qed simp
  then show ?thesis by (simp add: MayContainAll_def)
qed

section \<open>Operations on an index\<close>

lemma mget_fold_mput:
  assumes "wfmap new"
  shows "mget (fold (\<lambda>(col, f). mput col f) new old) c = (case mget new c of Some f \<Rightarrow> Some f | None \<Rightarrow> mget old c)"
  using assms
proof (induction new arbitrary: old)
  case (Cons e new)
  obtain col f where e: "e = (col, f)" by (cases e)
  have "mget new col = None" using Cons.prems e by (simp add: map_of_eq_None_iff)
  then show ?case using Cons.IH [of "mput col f old"] Cons.prems e by (auto simp: go_map split: option.splits)
qed simp

lemma wfmap_fold_mput: "wfmap old \<Longrightarrow> wfmap (fold (\<lambda>(col, f). mput col f) new old)"
  by (induction new arbitrary: old) (auto intro: wfmap_mput)

lemma columnsOf_mput: "columnsOf (mput key cols idx) key' = (if key' = key then cols else columnsOf idx key')"
  by (simp add: columnsOf_def go_map)

lemma columnsOf_wf: "bloom_ok idx \<Longrightarrow> wfmap (columnsOf idx key)"
  by (auto simp: columnsOf_def bloom_ok_def split: option.splits)

lemma columnsOf_filter_ok: "bloom_ok idx \<Longrightarrow> mget (columnsOf idx key) col = Some f \<Longrightarrow> filter_ok f"
  by (auto simp: columnsOf_def split: option.splits dest: bloom_okD)

definition columns_ok :: "(string, bloomFilter) gomap \<Rightarrow> bool" where
  "columns_ok cols \<longleftrightarrow> wfmap cols \<and> (\<forall>col f. mget cols col = Some f \<longrightarrow> filter_ok f)"

lemma bloom_ok_mput: "bloom_ok idx \<Longrightarrow> columns_ok cols \<Longrightarrow> bloom_ok (mput key cols idx)"
  by (auto simp: bloom_ok_def columns_ok_def go_map split: if_splits)

lemma columns_ok_of: "bloom_ok idx \<Longrightarrow> columns_ok (columnsOf idx key)"
  by (simp add: columns_ok_def columnsOf_wf columnsOf_filter_ok)

lemma columns_ok_fold:
  assumes "columns_ok old" "columns_ok new"
  shows "columns_ok (fold (\<lambda>(col, f). mput col f) new old)"
proof -
  have "wfmap new" "wfmap old" using assms by (simp_all add: columns_ok_def)
  then show ?thesis using assms
    by (auto simp: columns_ok_def mget_fold_mput wfmap_fold_mput simp del: map_of_eq_Some_iff split: option.splits)
qed

definition sound :: "bloomIndex \<Rightarrow> (string \<Rightarrow> string \<Rightarrow> string \<Rightarrow> bool) \<Rightarrow> bool" where
  "sound idx F \<longleftrightarrow> bloom_ok idx \<and> (\<forall>key col v. F key col v \<longrightarrow> \<not> excludes idx key col v)"

text \<open>Columns that hold what a file has.\<close>

definition cols_sound :: "(string, bloomFilter) gomap \<Rightarrow> (string \<Rightarrow> string \<Rightarrow> bool) \<Rightarrow> bool" where
  "cols_sound cols G \<longleftrightarrow> columns_ok cols \<and> (\<forall>col f v. mget cols col = Some f \<longrightarrow> G col v \<longrightarrow> holds f v)"

lemma sound_iff: "sound idx F \<longleftrightarrow> wfmap idx \<and> (\<forall>key cols. mget idx key = Some cols \<longrightarrow> cols_sound cols (F key))"
  unfolding sound_def bloom_ok_def cols_sound_def columns_ok_def excludes_def columnsOf_def
  by (auto simp del: map_of_eq_Some_iff split: option.splits)

lemma sound_columnsOf: "sound idx F \<Longrightarrow> cols_sound (columnsOf idx key) (F key)"
  by (auto simp: sound_iff columnsOf_def cols_sound_def columns_ok_def split: option.splits)

lemma sound_mput: "sound idx F \<Longrightarrow> cols_sound cols (F key) \<Longrightarrow> sound (mput key cols idx) F"
  by (auto simp: sound_iff go_map split: if_splits)

lemma cols_sound_fold:
  assumes "cols_sound old G" "cols_sound new G"
  shows "cols_sound (fold (\<lambda>(col, f). mput col f) new old) G"
proof -
  have "wfmap new" "columns_ok old" "columns_ok new" using assms by (simp_all add: cols_sound_def columns_ok_def)
  then show ?thesis using assms columns_ok_fold
    by (auto simp: cols_sound_def mget_fold_mput simp del: map_of_eq_Some_iff split: option.splits)
qed

lemma sound_Nil: "sound [] F"
  by (simp add: sound_iff)

lemma sound_AddColumns: "sound idx F \<Longrightarrow> cols_sound cols (F key) \<Longrightarrow> sound (AddColumns key cols idx) F"
  by (auto simp: AddColumns_def intro!: sound_mput cols_sound_fold sound_columnsOf)

lemma sound_mdel: "sound idx F \<Longrightarrow> sound (mdel key idx) F"
  unfolding sound_iff by (simp add: mget_mdel wfmap_mdel)

lemma sound_RemoveKeys: "sound idx F \<Longrightarrow> sound (RemoveKeys keys idx) F"
  unfolding RemoveKeys_def by (induction keys arbitrary: idx) (simp_all add: sound_mdel)

lemma sound_MergeFrom:
  assumes "sound idx F" "sound other F"
  shows "sound (indexMergeFrom other idx) F"
proof -
  have "\<forall>(k, cols) \<in> set other. cols_sound cols (F k)" using assms(2) by (auto simp: sound_iff mget_in [symmetric])
  then show ?thesis using assms(1) unfolding indexMergeFrom_def
  proof (induction other arbitrary: idx)
    case (Cons e other)
    obtain k cols where e: "e = (k, cols)" by (cases e)
    then have c: "cols_sound cols (F k)" using Cons.prems(1) by simp
    let ?i = "case mget idx k of None \<Rightarrow> mput k cols idx | Some ex \<Rightarrow> mput k (fold (\<lambda>(col, f). mput col f) cols ex) idx"
    have "sound ?i F"
      using c Cons.prems(2) by (auto simp: sound_iff [of idx] intro!: sound_mput cols_sound_fold split: option.splits)
    then show ?case using Cons.IH [of ?i] Cons.prems(1) e by (simp split: option.splits)
  qed simp
qed

section \<open>Building the columns of a file\<close>

text \<open>The values the writer hands over for a file: for each of its columns, every value the file has there.\<close>

definition lists_values :: "(string, string list) gomap \<Rightarrow> (string \<Rightarrow> string \<Rightarrow> bool) \<Rightarrow> bool" where
  "lists_values cvs G \<longleftrightarrow> wfmap cvs \<and> (\<forall>(col, vals) \<in> set cvs. \<forall>v. G col v \<longrightarrow> v \<in> set vals)"

lemma BuildFileColumns_ok:
  assumes "sizing_ok S" "lists_values cvs G"
  shows "\<exists>cols. BuildFileColumns S cvs = Some cols \<and> cols_sound cols G \<and> set (mkeys cols) \<subseteq> set (mkeys cvs)"
  using assms(2)
proof (induction cvs)
  case (Cons e cvs)
  obtain col vals where e: "e = (col, vals)" by (cases e)
  have "lists_values cvs G" using Cons.prems by (auto simp: lists_values_def)
  then obtain cols where c: "BuildFileColumns S cvs = Some cols" "cols_sound cols G" "set (mkeys cols) \<subseteq> set (mkeys cvs)"
    using Cons.IH by blast
  obtain f where f: "addAll vals (NewFilter S (length vals)) = Some f" "filter_ok f" "\<forall>v \<in> set vals. holds f v"
    using built_filter [OF assms(1)] by blast
  have "cols_sound (mput col f cols) G"
    using c(2) f(2, 3) Cons.prems e by (auto simp: cols_sound_def columns_ok_def go_map lists_values_def split: if_splits)
  moreover have "set (mkeys (mput col f cols)) \<subseteq> set (mkeys (e # cvs))" unfolding set_mkeys_mput using c(3) e by auto
  moreover have "set (mkeys cols) \<subseteq> set (mkeys (e # cvs))" using c(3) by auto
  ultimately show ?case using c(1, 2) f(1) e by (auto simp del: map_of_eq_Some_iff)
qed (simp add: cols_sound_def columns_ok_def)

end
