(* ===== verification/PruningProofs.thy ===== *)
theory PruningProofs
  imports Pruning BloomProofs
begin

text \<open>
  Pruning is conservative: what a filter leaves out has no match. The locale \<open>pruner\<close> is the contract every filter over a list of files
  keeps (it never drops a file that matches and adds none); chains of such filters keep it too. The label extraction
  lists every value below the cap, and every operation of the manifest keeps the label index complete except the enrichment.
\<close>

section \<open>The range of a prefix\<close>

lemma char_succ: "(of_char c :: nat) < 255 \<Longrightarrow> c < x \<longleftrightarrow> char_of (of_char c + 1 :: nat) \<le> x"
  by (simp add: less_char_def less_eq_char_def Suc_le_eq)

definition isMax :: "char \<Rightarrow> bool" where
  "isMax c \<longleftrightarrow> (of_char c :: nat) \<ge> 255"

lemma isMax_ge: "isMax c \<Longrightarrow> x \<le> c"
proof -
  have "of_char x \<le> (255 :: nat)" using nat_of_char_less_256 [of x] by linarith
  then show "isMax c \<Longrightarrow> x \<le> c" by (simp add: isMax_def less_eq_char_def)
qed

lemma successor_shape:
  "list_all isMax p \<and> prefixSuccessor p = []
   \<or> (\<exists>q c r. p = q @ c # r \<and> \<not> isMax c \<and> list_all isMax r \<and> prefixSuccessor p = q @ [char_of (of_char c + 1 :: nat)])"
proof (induction p rule: rev_induct)
  case (snoc c p)
  show ?case
  proof (cases "isMax c")
    case True
    then have "prefixSuccessor (p @ [c]) = prefixSuccessor p" by (simp add: prefixSuccessor_def isMax_def)
    then show ?thesis using snoc.IH True by (elim disjE exE conjE) auto
  next
    case False
    then have "prefixSuccessor (p @ [c]) = p @ [char_of (of_char c + 1 :: nat)]" by (simp add: prefixSuccessor_def isMax_def)
    then show ?thesis using False by (intro disjI2 exI [of _ p] exI [of _ c] exI [of _ "[]"]) simp
  qed
qed (simp add: prefixSuccessor_def)

lemma max_prefix: "list_all isMax p \<Longrightarrow> p \<le> v \<Longrightarrow> prefix p (v :: string)"
proof (induction p arbitrary: v)
  case (Cons c p)
  have "\<not> c < x" for x using Cons.prems isMax_ge [of c x] by (simp add: not_less)
  then show ?case using Cons by (cases v) auto
qed simp

lemma prefix_le: "prefix p v \<Longrightarrow> p \<le> (v :: string)"
  using append_le_cancel [of p "[]"] by (auto elim!: prefixE)

lemma prefix_range: "hasPrefix v p \<longleftrightarrow> p \<le> v \<and> (prefixSuccessor p \<noteq> [] \<longrightarrow> v < prefixSuccessor p)"
proof -
  consider (max) "list_all isMax p" "prefixSuccessor p = []"
    | (cut) q c r where "p = q @ c # r" "\<not> isMax c" "list_all isMax r" "prefixSuccessor p = q @ [char_of (of_char c + 1 :: nat)]"
    using successor_shape by blast
  then show ?thesis
  proof cases
    case max
    then show ?thesis using max_prefix [of p v] prefix_le [of p v] by (auto simp: hasPrefix_iff)
  next
    case cut
    have c: "c < x \<longleftrightarrow> char_of (of_char c + 1 :: nat) \<le> x" for x using cut(2) by (intro char_succ) (simp add: isMax_def)
    have "prefix (q @ c # r) v \<longleftrightarrow> q @ c # r \<le> v \<and> v < q @ [char_of (of_char c + 1 :: nat)]" for q v
    proof (induction q arbitrary: v)
      case Nil
      show ?case
      proof (cases v)
        case (Cons x v')
        have "c < char_of (of_char c + 1 :: nat)" using c by blast
        moreover have "x < char_of (of_char c + 1 :: nat) \<longleftrightarrow> \<not> c < x" using c [of x] by (simp add: not_le)
        ultimately show ?thesis using Cons max_prefix [OF cut(3), of v'] prefix_le [of r v'] by (auto simp: not_less)
      qed simp
    next
      case (Cons y q)
      show ?case
      proof (cases v)
        case (Cons x v')
        then show ?thesis using Cons.IH [of v'] by (auto dest: less_asym)
      qed simp
    qed
    then show ?thesis using cut by (auto simp: hasPrefix_iff)
  qed
qed

section \<open>Row-group statistics\<close>

lemma stats_sound:
  assumes "lo \<le> v" "v \<le> hi" "valueMatchesCheck v check"
  shows "checkMatchesStats check lo hi"
proof (cases "pd_Op check")
  case PushDownPrefix
  then have p: "pd_Value check \<le> v" "prefixSuccessor (pd_Value check) \<noteq> [] \<Longrightarrow> v < prefixSuccessor (pd_Value check)"
    using assms(3) prefix_range [of v "pd_Value check"] by (auto simp: valueMatchesCheck_def)
  have "\<not> (prefixSuccessor (pd_Value check) \<noteq> [] \<and> prefixSuccessor (pd_Value check) \<le> lo)"
    using p(2) assms(1) by (meson leD le_less_trans)
  moreover have "\<not> pd_Value check > hi" using p(1) assms(2) by (meson leD le_less_trans)
  ultimately show ?thesis using PushDownPrefix by (simp add: checkMatchesStats_def Let_def)
qed (use assms in \<open>auto simp: checkMatchesStats_def valueMatchesCheck_def\<close>)

text \<open>And nothing finer can be said from the bounds: some value between them matches.\<close>

lemma stats_exact:
  assumes "lo \<le> hi"
  shows "checkMatchesStats check lo hi \<longleftrightarrow> (\<exists>v. lo \<le> v \<and> v \<le> hi \<and> valueMatchesCheck v check)"
proof
  assume k: "checkMatchesStats check lo hi"
  show "\<exists>v. lo \<le> v \<and> v \<le> hi \<and> valueMatchesCheck v check"
  proof (cases "pd_Op check")
    case PushDownPrefix
    let ?p = "pd_Value check"
    have p: "?p \<le> hi" "prefixSuccessor ?p \<noteq> [] \<Longrightarrow> lo < prefixSuccessor ?p"
      using k PushDownPrefix by (auto simp: checkMatchesStats_def Let_def not_le split: if_splits)
    have "hasPrefix ?p ?p" by (simp add: hasPrefix_iff)
    then have "prefixSuccessor ?p \<noteq> [] \<Longrightarrow> ?p < prefixSuccessor ?p" using prefix_range by blast
    then have "hasPrefix (max lo ?p) ?p" using p(2) unfolding prefix_range by (auto simp: max_def)
    then show ?thesis using p(1) assms PushDownPrefix by (intro exI [of _ "max lo ?p"]) (simp add: valueMatchesCheck_def)
  qed (use k assms in \<open>auto simp: checkMatchesStats_def valueMatchesCheck_def\<close>)
qed (use stats_sound in blast)

text \<open>What a check asks of a number.\<close>

definition numberMatches :: "(string \<Rightarrow> int option) \<Rightarrow> int \<Rightarrow> pushDownCheck \<Rightarrow> bool" where
  "numberMatches parse n check =
     (case parse (pd_Value check) of
        None \<Rightarrow> True
      | Some v \<Rightarrow> (case pd_Op check of PushDownExact \<Rightarrow> n = v | PushDownGreaterThan \<Rightarrow> n > v | PushDownLessThan \<Rightarrow> n < v | PushDownPrefix \<Rightarrow> True))"

lemma stats_numeric_sound:
  "lo \<le> n \<Longrightarrow> n \<le> hi \<Longrightarrow> numberMatches parse n check \<Longrightarrow> checkMatchesStatsNumeric parse check lo hi"
  by (auto simp: checkMatchesStatsNumeric_def numberMatches_def split: option.splits pushDownOp.splits)

lemma pageBounds_cover:
  assumes "pg \<in> set pages"
  shows "fst (pageBounds pages) \<le> fst pg \<and> snd pg \<le> snd (pageBounds pages)"
proof -
  have "fst (fold (\<lambda>(pmin, pmax) (lo, hi). (if pmin < lo then pmin else lo, if pmax > hi then pmax else hi)) ps g) \<le> fst x
      \<and> snd x \<le> snd (fold (\<lambda>(pmin, pmax) (lo, hi). (if pmin < lo then pmin else lo, if pmax > hi then pmax else hi)) ps g)"
    if "x \<in> insert g (set ps)" for x g :: "'a \<times> 'a" and ps
    using that
  proof (induction ps arbitrary: g x)
    case (Cons p ps)
    let ?g = "case p of (pmin, pmax) \<Rightarrow> (case g of (lo, hi) \<Rightarrow> (if pmin < lo then pmin else lo, if pmax > hi then pmax else hi))"
    have g: "fst ?g \<le> fst p" "snd p \<le> snd ?g" "fst ?g \<le> fst g" "snd g \<le> snd ?g" by (auto split: prod.splits)
    note ih = Cons.IH [of _ ?g]
    consider "x = p" | "x = g" | "x \<in> set ps" using Cons.prems by auto
    then show ?case
    proof cases
      case 1
      then show ?thesis using ih [of ?g] g(1, 2) by (auto split: prod.splits intro: order_trans)
    next
      case 2
      then show ?thesis using ih [of ?g] g(3, 4) by (auto split: prod.splits intro: order_trans)
    next
      case 3
      then show ?thesis using ih [of x] by (auto split: prod.splits)
    qed
  qed simp
  then show ?thesis using assms by (cases pages) (auto simp: pageBounds_def)
qed

text \<open>The values of one row in the columns of a row group: each is within the bounds of a page and in the dictionary.\<close>

definition row_in :: "('v \<Rightarrow> int) \<Rightarrow> ('v \<Rightarrow> string) \<Rightarrow> ('v \<Rightarrow> string) \<Rightarrow> 'v rowGroup \<Rightarrow> (string \<Rightarrow> 'v) \<Rightarrow> bool" where
  "row_in vInt vStr vText rg row \<longleftrightarrow>
     (\<forall>col pgs. rg_pages rg col = Some pgs \<longrightarrow> pgs \<noteq> [] \<longrightarrow>
        (\<exists>(lo, hi) \<in> set pgs. vInt lo \<le> vInt (row col) \<and> vInt (row col) \<le> vInt hi \<and> vStr lo \<le> vText (row col) \<and> vText (row col) \<le> vStr hi))
     \<and> (\<forall>col vs. rg_dict rg col = Some vs \<longrightarrow> row col \<in> set vs)"

definition row_matches :: "(string \<Rightarrow> int option) \<Rightarrow> ('v \<Rightarrow> int) \<Rightarrow> ('v \<Rightarrow> string) \<Rightarrow> (string \<Rightarrow> 'v) \<Rightarrow> pushDownCheck \<Rightarrow> bool" where
  "row_matches parse vInt vText row check \<longleftrightarrow>
     (if isNumeric (pd_FieldType check) then numberMatches parse (vInt (row (pd_Column check))) check
        \<and> (pd_Op check \<in> {PushDownExact, PushDownPrefix} \<longrightarrow> valueMatchesCheck (vText (row (pd_Column check))) check)
      else valueMatchesCheck (vText (row (pd_Column check))) check)"

lemma statsKeep_sound:
  assumes "row_in vInt vStr vText rg row" "row_matches parse vInt vText row check"
  shows "statsKeep parse vInt vStr rg check"
proof (cases "rg_pages rg (pd_Column check)")
  case (Some pgs)
  show ?thesis
  proof (cases pgs)
    case (Cons pg pgs')
    have bound: "\<exists>(lo, hi) \<in> set pgs. vInt lo \<le> vInt (row (pd_Column check)) \<and> vInt (row (pd_Column check)) \<le> vInt hi
        \<and> vStr lo \<le> vText (row (pd_Column check)) \<and> vText (row (pd_Column check)) \<le> vStr hi"
      using assms(1) [unfolded row_in_def, THEN conjunct1, rule_format, OF Some] Cons by simp
    obtain lo hi where p: "(lo, hi) \<in> set pgs" "vInt lo \<le> vInt (row (pd_Column check))" "vInt (row (pd_Column check)) \<le> vInt hi"
      "vStr lo \<le> vText (row (pd_Column check))" "vText (row (pd_Column check)) \<le> vStr hi"
      using bound by auto
    let ?i = "pageBounds (map (\<lambda>(lo, hi). (vInt lo, vInt hi)) pgs)" and ?t = "pageBounds (map (\<lambda>(lo, hi). (vStr lo, vStr hi)) pgs)"
    have "fst ?i \<le> vInt lo \<and> vInt hi \<le> snd ?i" using pageBounds_cover [of "(vInt lo, vInt hi)"] p(1) by force
    then have i: "fst ?i \<le> vInt (row (pd_Column check))" "vInt (row (pd_Column check)) \<le> snd ?i" using p(2, 3) by linarith+
    have "fst ?t \<le> vStr lo \<and> vStr hi \<le> snd ?t" using pageBounds_cover [of "(vStr lo, vStr hi)"] p(1) by force
    then have t: "fst ?t \<le> vText (row (pd_Column check))" "vText (row (pd_Column check)) \<le> snd ?t" using p(4, 5) by (meson order_trans)+
    have "statsKeep parse vInt vStr rg check =
        (if isNumeric (pd_FieldType check) then checkMatchesStatsNumeric parse check (fst ?i) (snd ?i) else checkMatchesStats check (fst ?t) (snd ?t))"
      unfolding statsKeep_def Some Cons option.case list.case by (simp only: case_prod_beta')
    then show ?thesis using assms(2) stats_numeric_sound [OF i] stats_sound [OF t] by (simp only: row_matches_def split: if_splits) blast+
  qed (simp add: statsKeep_def Some)
qed (simp add: statsKeep_def)

lemma rowGroup_sound:
  assumes "row_in vInt vStr vText rg row" "\<forall>check \<in> set checks. row_matches parse vInt vText row check"
  shows "rowGroupMatchesFilter parse vInt vStr vText rg checks"
proof -
  have "dictionaryContainsMatch vText (rg_dict rg (pd_Column check)) check"
    if "check \<in> set checks" "pd_Op check = PushDownExact \<or> pd_Op check = PushDownPrefix" for check
  proof -
    have "valueMatchesCheck (vText (row (pd_Column check))) check" using assms(2) that by (auto simp: row_matches_def split: if_splits)
    then show ?thesis using assms(1) that(2) by (auto simp: row_in_def dictionaryContainsMatch_def list_ex_iff split: option.splits)
  qed
  moreover have "\<forall>check \<in> set checks. statsKeep parse vInt vStr rg check" using statsKeep_sound [OF assms(1)] assms(2) by blast
  ultimately show ?thesis by (auto simp: rowGroupMatchesFilter_def list_all_iff)
qed

section \<open>The labels of a file\<close>

definition labelList :: "(string, string list) gomap \<Rightarrow> string \<Rightarrow> string list" where
  "labelList sets fld = (case mget sets fld of None \<Rightarrow> [] | Some s \<Rightarrow> s)"

text \<open>A list either holds what it should or is at the cap.\<close>

definition lists_label :: "string \<Rightarrow> string \<Rightarrow> (string, string list) gomap \<Rightarrow> bool" where
  "lists_label fld v sets \<longleftrightarrow> v = [] \<or> v \<in> set (labelList sets fld) \<or> length (labelList sets fld) \<ge> MaxLabelAggregateValues"

lemma labelList_add:
  "labelList (addLabelValue fld v sets) fld' =
     (if fld' = fld \<and> v \<noteq> [] \<and> length (labelList sets fld) < MaxLabelAggregateValues then List.insert v (labelList sets fld) else labelList sets fld')"
  by (auto simp: labelList_def addLabelValue_def Let_def go_map)

lemma insert_length: "length xs \<le> length (List.insert x xs)"
  by (simp add: List.insert_def)

lemma lists_add: "lists_label fld v sets \<Longrightarrow> lists_label fld v (addLabelValue fld' v' sets)"
  using insert_length [of "labelList sets fld" v'] by (auto simp: lists_label_def labelList_add)

lemma lists_new: "lists_label fld v (addLabelValue fld v sets)"
  by (auto simp: lists_label_def labelList_add)

definition capped :: "(string, string list) gomap \<Rightarrow> bool" where
  "capped sets \<longleftrightarrow> wfmap sets \<and> (\<forall>fld. length (labelList sets fld) \<le> MaxLabelAggregateValues)"

lemma capped_add:
  assumes "capped sets"
  shows "capped (addLabelValue fld v sets)"
proof -
  have "length (labelList (addLabelValue fld v sets) fld') \<le> MaxLabelAggregateValues" for fld'
  proof -
    have "length (List.insert v xs) \<le> Suc (length xs)" for xs by (simp add: List.insert_def)
    from this [of "labelList sets fld"] show ?thesis using assms by (auto simp: labelList_add capped_def)
  qed
  moreover have "wfmap (addLabelValue fld v sets)" using assms wfmap_mput [of sets] by (simp add: addLabelValue_def Let_def capped_def)
  ultimately show ?thesis by (simp add: capped_def)
qed

text \<open>One pass over the label columns of a row, and over the rows.\<close>

lemma row_lists:
  "(\<forall>(name, get) \<in> set cols. lists_label name (get r) (fold (\<lambda>(name, get). addLabelValue name (get r)) cols sets))
   \<and> (\<forall>fld v. lists_label fld v sets \<longrightarrow> lists_label fld v (fold (\<lambda>(name, get). addLabelValue name (get r)) cols sets))
   \<and> (capped sets \<longrightarrow> capped (fold (\<lambda>(name, get). addLabelValue name (get r)) cols sets))"
proof (induction cols arbitrary: sets)
  case (Cons c cols)
  obtain name get where c: "c = (name, get)" by (cases c)
  show ?case using Cons.IH [of "addLabelValue name (get r) sets"] lists_new lists_add capped_add c by auto
qed simp

lemma rows_list:
  "(\<forall>r \<in> set rows. \<forall>(name, get) \<in> set cols. lists_label name (get r) (fold (\<lambda>r. fold (\<lambda>(name, get). addLabelValue name (get r)) cols) rows sets))
   \<and> (\<forall>fld v. lists_label fld v sets \<longrightarrow> lists_label fld v (fold (\<lambda>r. fold (\<lambda>(name, get). addLabelValue name (get r)) cols) rows sets))
   \<and> (capped sets \<longrightarrow> capped (fold (\<lambda>r. fold (\<lambda>(name, get). addLabelValue name (get r)) cols) rows sets))"
proof (induction rows arbitrary: sets)
  case (Cons r rows)
  note r = row_lists [of cols r sets] and ih = Cons.IH [of "fold (\<lambda>(name, get). addLabelValue name (get r)) cols sets"]
  show ?case using r ih by (auto simp del: fold_simps simp: fold_simps(2))
qed simp

lemma ExtractLabels_complete:
  assumes "r \<in> set rows" "(name, get) \<in> set cols" "get r \<noteq> []" "length (labelList (ExtractLabels cols account project rows) name) < MaxLabelAggregateValues"
  shows "get r \<in> set (labelList (ExtractLabels cols account project rows) name)"
proof -
  have "lists_label name (get r) (fold (\<lambda>r. fold (\<lambda>(name, get). addLabelValue name (get r)) cols) rows [])"
    using rows_list [of rows cols "[]"] assms(1, 2) by fastforce
  then have "lists_label name (get r) (ExtractLabels cols account project rows)"
    using assms(1) by (auto simp: ExtractLabels_def intro: lists_add)
  then show ?thesis using assms(3, 4) by (simp add: lists_label_def)
qed

lemma ExtractLabels_capped: "capped (ExtractLabels cols account project rows)"
proof -
  have "capped []" by (simp add: capped_def labelList_def)
  then show ?thesis using rows_list [of rows cols "[]"] by (auto simp: ExtractLabels_def intro!: capped_add)
qed

section \<open>The label index is complete\<close>

definition indexKeys :: "labelIndex \<Rightarrow> string \<Rightarrow> string \<Rightarrow> string list" where
  "indexKeys ix fld v = (case mget ix fld of None \<Rightarrow> [] | Some fm \<Rightarrow> (case mget fm v of None \<Rightarrow> [] | Some ks \<Rightarrow> ks))"

text \<open>A file with a label that is not at the cap is found under each of its values.\<close>

definition indexed :: "labelIndex \<Rightarrow> fileInfo \<Rightarrow> bool" where
  "indexed ix fi \<longleftrightarrow> (\<forall>(fld, vs) \<in> set (fi_Labels fi). length vs < maxLabelsPerField \<longrightarrow> (\<forall>v \<in> set vs. fi_Key fi \<in> set (indexKeys ix fld v)))"

definition labels_indexed :: "manifest \<Rightarrow> bool" where
  "labels_indexed m \<longleftrightarrow> (\<forall>p fi. fi \<in> set (filesOf (m_files m) p) \<longrightarrow> parsePartitionTime p \<noteq> None \<longrightarrow> indexed (m_labelIndex m) fi)"

definition grows :: "labelIndex \<Rightarrow> labelIndex \<Rightarrow> bool" where
  "grows ix ix' \<longleftrightarrow> (\<forall>fld v. set (indexKeys ix fld v) \<subseteq> set (indexKeys ix' fld v))"

lemma grows_trans: "grows a b \<Longrightarrow> grows b c \<Longrightarrow> grows a c"
  unfolding grows_def by (meson subset_trans)

lemma grows_refl: "grows a a"
  by (simp add: grows_def)

lemma growsD: "grows a b \<Longrightarrow> k \<in> set (indexKeys a fld v) \<Longrightarrow> k \<in> set (indexKeys b fld v)"
  unfolding grows_def by (meson subsetD)

text \<open>What every step of a fold leaves behind stays, because the index only grows.\<close>

lemma fold_grows:
  assumes "\<And>x ix. x \<in> set xs \<Longrightarrow> grows ix (f x ix)"
  shows "grows ix (fold f xs ix)"
  using assms
proof (induction xs arbitrary: ix)
  case (Cons x xs)
  then show ?case using grows_trans [of ix "f x ix"] by simp
qed (simp add: grows_refl)

lemma fold_leaves:
  assumes g: "\<And>x ix. grows ix (f x ix)" and l: "\<And>x ix. P x (f x ix)" and k: "\<And>x a b. P x a \<Longrightarrow> grows a b \<Longrightarrow> P x b"
  shows "x \<in> set xs \<Longrightarrow> P x (fold f xs ix)"
proof (induction xs arbitrary: ix)
  case (Cons y xs)
  have "P x (fold f xs (f x ix))" by (rule k [OF l fold_grows]) (rule g)
  then show ?case using Cons by auto
qed simp

lemma indexed_grows: "indexed ix fi \<Longrightarrow> grows ix ix' \<Longrightarrow> indexed ix' fi"
  by (fastforce simp: indexed_def grows_def)

definition addValues :: "string \<Rightarrow> string list \<Rightarrow> (string, string list) gomap \<Rightarrow> (string, string list) gomap" where
  "addValues key vs fm = fold (\<lambda>v fm. mput v (List.insert key (case mget fm v of None \<Rightarrow> [] | Some ks \<Rightarrow> ks)) fm) vs fm"

lemma addValues_keys:
  "set (case mget (addValues key vs fm) v of None \<Rightarrow> [] | Some ks \<Rightarrow> ks)
   = set (case mget fm v of None \<Rightarrow> [] | Some ks \<Rightarrow> ks) \<union> (if v \<in> set vs then {key} else {})"
proof (induction vs arbitrary: fm)
  case (Cons u vs)
  show ?case using Cons.IH [of "mput u (List.insert key (case mget fm u of None \<Rightarrow> [] | Some ks \<Rightarrow> ks)) fm"]
    by (auto simp: addValues_def go_map split: if_splits)
qed (simp add: addValues_def)

lemma indexStep_keys:
  "set (indexKeys (mput fld (addValues key vs (case mget ix fld of None \<Rightarrow> [] | Some fm \<Rightarrow> fm)) ix) fld' v)
   = set (indexKeys ix fld' v) \<union> (if fld' = fld \<and> v \<in> set vs then {key} else {})"
proof (cases "fld' = fld")
  case True
  then show ?thesis using addValues_keys [of key vs "case mget ix fld of None \<Rightarrow> [] | Some fm \<Rightarrow> fm" v]
    by (auto simp: indexKeys_def go_map split: option.splits)
qed (simp add: indexKeys_def go_map)

definition indexStep :: "string \<Rightarrow> string \<times> string list \<Rightarrow> labelIndex \<Rightarrow> labelIndex" where
  "indexStep key l ix = (if length (snd l) \<ge> maxLabelsPerField then ix
     else mput (fst l) (addValues key (snd l) (case mget ix (fst l) of None \<Rightarrow> [] | Some fm \<Rightarrow> fm)) ix)"

lemma indexFileLabels_steps: "indexFileLabels fi ix = fold (indexStep (fi_Key fi)) (fi_Labels fi) ix"
  unfolding indexFileLabels_def indexStep_def addValues_def by (intro fold_cong refl) (auto simp: Let_def)

lemma indexStep_grows: "grows ix (indexStep key l ix)"
  using indexStep_keys [of "fst l" key "snd l" ix] by (simp add: grows_def indexStep_def)

lemma indexStep_leaves: "length (snd l) < maxLabelsPerField \<longrightarrow> (\<forall>v \<in> set (snd l). key \<in> set (indexKeys (indexStep key l ix) (fst l) v))"
  using indexStep_keys [of "fst l" key "snd l" ix] by (simp add: indexStep_def)

lemma indexFileLabels_grows: "grows ix (indexFileLabels fi ix)"
  unfolding indexFileLabels_steps by (intro fold_grows indexStep_grows)

lemma indexFileLabels_ok: "indexed (indexFileLabels fi ix) fi"
proof -
  let ?P = "\<lambda>l ix. length (snd l) < maxLabelsPerField \<longrightarrow> (\<forall>v \<in> set (snd l). fi_Key fi \<in> set (indexKeys ix (fst l) v))"
  have "?P l (indexFileLabels fi ix)" if "l \<in> set (fi_Labels fi)" for l
    unfolding indexFileLabels_steps
    by (rule fold_leaves [of "indexStep (fi_Key fi)" ?P, OF indexStep_grows indexStep_leaves _ that]) (blast intro: growsD)
  then show ?thesis by (fastforce simp: indexed_def)
qed

definition partStep :: "string \<times> fileInfo list \<Rightarrow> labelIndex \<Rightarrow> labelIndex" where
  "partStep x ix = (if parsePartitionTime (fst x) = None then ix else fold indexFileLabels (snd x) ix)"

lemma partStep_grows: "grows ix (partStep x ix)"
  by (simp add: partStep_def grows_refl fold_grows indexFileLabels_grows)

lemma partStep_leaves: "parsePartitionTime (fst x) \<noteq> None \<longrightarrow> (\<forall>fi \<in> set (snd x). indexed (partStep x ix) fi)"
  using fold_leaves [of indexFileLabels "\<lambda>fi ix. indexed ix fi", OF indexFileLabels_grows indexFileLabels_ok indexed_grows]
  by (simp add: partStep_def)

lemma rebuildIndex_labels: "labels_indexed (rebuildIndex m)"
proof -
  let ?P = "\<lambda>x ix. parsePartitionTime (fst x) \<noteq> None \<longrightarrow> (\<forall>fi \<in> set (snd x). indexed ix fi)"
  have ix: "m_labelIndex (rebuildIndex m) = fold partStep (m_files m) []"
    unfolding rebuildIndex_def by (simp add: partStep_def [abs_def] case_prod_beta')
  have "?P x (m_labelIndex (rebuildIndex m))" if "x \<in> set (m_files m)" for x
    unfolding ix by (rule fold_leaves [of partStep ?P, OF partStep_grows partStep_leaves _ that]) (blast intro: indexed_grows)
  moreover have "m_files (rebuildIndex m) = m_files m" by (simp add: rebuildIndex_def)
  moreover have "\<exists>l. (p, l) \<in> set (m_files m) \<and> fi \<in> set l" if "fi \<in> set (filesOf (m_files m) p)" for p fi
    using that by (cases "mget (m_files m) p") (auto simp: filesOf_def dest: map_of_SomeD)
  ultimately show ?thesis unfolding labels_indexed_def by (metis fst_conv snd_conv)
qed

lemma labels_indexed_frame:
  "m_files n = m_files m \<Longrightarrow> m_labelIndex n = m_labelIndex m \<Longrightarrow> labels_indexed n = labels_indexed m"
  by (simp add: labels_indexed_def)

lemma label_frames [simp]:
  "m_labelIndex (retireLocked now rk m) = m_labelIndex m" "m_labelIndex (noteAddedLocked k now m) = m_labelIndex m"
  "m_labelIndex (widenTimes p m) = m_labelIndex m" "m_labelIndex (updateTenantAggregateOnAdd p fi m) = m_labelIndex m"
  "m_labelIndex (updateFile k f m) = m_labelIndex m"
  by (simp_all add: retireLocked_def noteAddedLocked_def widenTimes_def updateTenantAggregateOnAdd_def updateFile_def Let_def
      split: option.split)

lemma addFile_labels: "labels_indexed m \<Longrightarrow> labels_indexed (addFileLocked now p fi m)"
proof (cases "mhas (m_byKey m) (fi_Key fi)")
  case False
  assume ok: "labels_indexed m"
  have ix: "m_labelIndex (addFileLocked now p fi m) = indexFileLabels fi (m_labelIndex m)"
    using False by (simp add: addFileLocked_def Let_def)
  show ?thesis unfolding labels_indexed_def ix addFile_frame(1) [OF False]
    using ok indexFileLabels_ok indexed_grows [OF _ indexFileLabels_grows [of "m_labelIndex m" fi]]
    by (auto simp: labels_indexed_def)
qed (simp add: addFileLocked_def)

lemma removeFile_labels: "labels_indexed m \<Longrightarrow> labels_indexed (snd (removeFileLocked p k m))"
  by (auto simp: removeFileLocked_def Let_def rebuildIndex_labels split: option.split)

lemma retire_labels: "labels_indexed m \<Longrightarrow> labels_indexed (retireLocked now rk m)"
  by (subst labels_indexed_frame [where m = m]) simp_all

lemma unregister_labels: "labels_indexed m \<Longrightarrow> labels_indexed (snd (unregister k m))"
  by (simp add: unregister_def removeFile_labels split: option.split)

lemma takeOut_labels: "labels_indexed m \<Longrightarrow> labels_indexed (takeOut now p b ks m)"
  unfolding takeOut_def by (induction ks arbitrary: m) (simp_all add: retire_labels removeFile_labels)

lemma updateFirst_labels:
  assumes "\<And>fi. fi_Labels (f fi) = fi_Labels fi" "\<And>fi. fi_Key (f fi) = fi_Key fi" "x \<in> set (updateFirst key f l)"
  shows "\<exists>y \<in> set l. fi_Labels x = fi_Labels y \<and> fi_Key x = fi_Key y"
  using assms(3) by (induction l) (auto simp: assms(1, 2) split: if_splits)

lemma indexed_cong: "fi_Labels x = fi_Labels y \<Longrightarrow> fi_Key x = fi_Key y \<Longrightarrow> indexed ix x = indexed ix y"
  by (simp add: indexed_def)

lemma updateFile_labels:
  assumes "labels_indexed m" "\<And>fi. fi_Labels (f fi) = fi_Labels fi" "\<And>fi. fi_Key (f fi) = fi_Key fi"
  shows "labels_indexed (updateFile key f m)"
proof -
  have "indexed (m_labelIndex m) x" if x: "x \<in> set (updateFirst key f (filesOf (m_files m) p))" "parsePartitionTime p \<noteq> None" for p x
  proof -
    obtain y where "y \<in> set (filesOf (m_files m) p)" "fi_Labels x = fi_Labels y" "fi_Key x = fi_Key y"
      using updateFirst_labels [of f, OF assms(2, 3) x(1)] by blast
    then show ?thesis using assms(1) x(2) indexed_cong by (metis labels_indexed_def)
  qed
  then show ?thesis using assms(1) by (auto simp: labels_indexed_def updateFile_def split: option.split)
qed

lemma enrich_labels [simp]: "fi_Labels (enrich r lo hi fi) = fi_Labels fi"
  by (simp add: enrich_def Let_def)

lemma Enrich_labels: "labels_indexed m \<Longrightarrow> labels_indexed (EnrichFileMetadata key r lo hi m)"
proof -
  assume ok: "labels_indexed m"
  have u: "labels_indexed (updateFile key (enrich r lo hi) m)" by (rule updateFile_labels [OF ok]) simp_all
  then have "labels_indexed (updateFile key (enrich r lo hi) m\<lparr>m_tenantAggregates := x\<rparr>)" for x by (simp add: labels_indexed_def)
  then show ?thesis using ok u unfolding EnrichFileMetadata_def by (auto simp: Let_def split: option.split)
qed

lemma applyLocked_labels: "labels_indexed m \<Longrightarrow> labels_indexed (snd (applyLocked v now files ls sk m))"
proof -
  assume ok: "labels_indexed m"
  have "labels_indexed (installFiles fs ls sk now m)" for fs
  proof -
    let ?m1 = "rebuildIndex (rebuildTenantAggregates (rebuildByKey (m\<lparr>m_files := fs\<rparr>)))"
    have "labels_indexed ?m1" by (rule rebuildIndex_labels)
    moreover have "m_files ?m1 = fs" by (simp add: rebuildByKey_def)
    ultimately show ?thesis by (simp add: labels_indexed_def) (simp add: installFiles_def Let_def)
  qed
  then have "labels_indexed (afterAcceptedRefreshLocked gone ls sk now (installFiles fs ls sk now m))" for fs gone
    by (subst labels_indexed_frame [where m = "installFiles fs ls sk now m"]) (simp_all add: afterAcceptedRefreshLocked_def pruneRetiredLocked_def Let_def)
  then show ?thesis using ok by (simp add: applyLocked_def case_prod_beta)
qed

lemma manStep_labels: "labels_indexed m \<Longrightarrow> labels_indexed (manStep op m)"
proof (cases op)
  case (OReplace now p ks fi)
  then show "labels_indexed m \<Longrightarrow> ?thesis" by (simp add: ReplaceFiles_eq addFile_labels takeOut_labels)
next
  case (OEnrich key r lo hi)
  then show "labels_indexed m \<Longrightarrow> ?thesis" by (simp add: Enrich_labels)
next
  case (OBucket key b)
  then show "labels_indexed m \<Longrightarrow> ?thesis" by (simp add: SetFileBucket_def updateFile_labels)
next
  case (ORefresh v now files ls sk)
  then show "labels_indexed m \<Longrightarrow> ?thesis" by (simp add: applyLocked_labels)
next
  case (OConfirm key)
  then show "labels_indexed m \<Longrightarrow> ?thesis" by (auto simp: ConfirmDeleted_def labels_indexed_def split: option.split)
next
  case (OUnretireIf key r)
  then show "labels_indexed m \<Longrightarrow> ?thesis" by (auto simp: UnretireIfReplacedBy_def labels_indexed_def split: option.split)
next
  case (OClaim now key)
  then show "labels_indexed m \<Longrightarrow> ?thesis" by (simp add: ClaimPending_def labels_indexed_def)
next
  case (OReleasePending key)
  then show "labels_indexed m \<Longrightarrow> ?thesis" by (simp add: ReleasePending_def labels_indexed_def)
next
  case (OUnretire key)
  then show "labels_indexed m \<Longrightarrow> ?thesis" by (simp add: Unretire_def labels_indexed_def)
next
  case (OHold key)
  then show "labels_indexed m \<Longrightarrow> ?thesis" by (simp add: Hold_def labels_indexed_def)
next
  case (ORelease key)
  then show "labels_indexed m \<Longrightarrow> ?thesis" by (simp add: Release_def labels_indexed_def)
qed (simp_all add: AddFile_def AddFileUnlessRetired_def addFile_labels RemoveFile_def RemoveFileIfPresent_def case_prod_beta
  retire_labels removeFile_labels AbandonPending_def Retire_def unregister_labels)

interpretation label_machine: machine "\<lambda>_ _. True" manStep labels_indexed
  by unfold_locales (rule manStep_labels)

section \<open>The contract of a filter over files\<close>

text \<open>\<open>run\<close> answers \<open>None\<close> when a lookup panics; \<open>hit\<close> is what a file must satisfy to be safe from the filter.\<close>

locale pruner =
  fixes run :: "fileInfo list \<Rightarrow> fileInfo list option" and hit :: "fileInfo \<Rightarrow> bool"
  assumes keeps: "run files = Some out \<Longrightarrow> fi \<in> set files \<Longrightarrow> hit fi \<Longrightarrow> fi \<in> set out"
    and adds_none: "run files = Some out \<Longrightarrow> set out \<subseteq> set files"
begin

lemma prunes_only_misses: "run files = Some out \<Longrightarrow> set files - set out \<subseteq> {fi. \<not> hit fi}"
  using keeps by blast

lemma hits_unchanged: "run files = Some out \<Longrightarrow> {fi \<in> set out. hit fi} = {fi \<in> set files. hit fi}"
  using keeps adds_none by blast

end

locale pruner_chain = fst_pruner: pruner f h + snd_pruner: pruner g k for f h g k

sublocale pruner_chain \<subseteq> both: pruner "\<lambda>files. Option.bind (f files) g" "\<lambda>fi. h fi \<and> k fi"
proof
  fix files out fi
  assume b: "Option.bind (f files) g = Some out"
  then obtain mid where m: "f files = Some mid" "g mid = Some out" by (cases "f files") auto
  show "fi \<in> set files \<Longrightarrow> h fi \<and> k fi \<Longrightarrow> fi \<in> set out"
    using fst_pruner.keeps [OF m(1)] snd_pruner.keeps [OF m(2)] by blast
  show "set out \<subseteq> set files" using fst_pruner.adds_none [OF m(1)] snd_pruner.adds_none [OF m(2)] by blast
qed

section \<open>Labels and statistics\<close>

text \<open>The rows of a file, each a function from columns to values. A checked column can be decided by the labels of a file when they list
  every value, and is left alone when they list nothing or are at the cap and the index knows no file with the value.\<close>

type_synonym row = "string \<Rightarrow> string"

definition label_usable :: "manifest \<Rightarrow> row list \<Rightarrow> fileInfo \<Rightarrow> pushDownCheck \<Rightarrow> bool" where
  "label_usable m rows fi c \<longleftrightarrow>
     (let col = pd_Column c; vs = labelsOf fi col
      in fi_Labels fi = []
         \<or> length vs < maxLabelsPerField \<and> (\<forall>r \<in> set rows. r col \<noteq> [] \<longrightarrow> r col \<in> set vs)
         \<or> (vs = [] \<or> maxLabelsPerField \<le> length vs) \<and> GetFileKeysByLabel m col (pd_Value c) = [])"

definition stats_true :: "row list \<Rightarrow> fileInfo \<Rightarrow> bool" where
  "stats_true rows fi \<longleftrightarrow> (\<forall>col. \<forall>r \<in> set rows. r col \<noteq> [] \<longrightarrow> ColumnStatsContains fi col (r col))"

definition passes :: "pushDownCheck list \<Rightarrow> row \<Rightarrow> bool" where
  "passes checks r \<longleftrightarrow> (\<forall>c \<in> set checks. r (pd_Column c) \<noteq> [] \<and> valueMatchesCheck (r (pd_Column c)) c)"

definition label_hit :: "manifest \<Rightarrow> (string \<Rightarrow> row list) \<Rightarrow> pushDownCheck list \<Rightarrow> fileInfo \<Rightarrow> bool" where
  "label_hit m R checks fi \<longleftrightarrow> indexed (m_labelIndex m) fi \<and> stats_true (R (fi_Key fi)) fi
     \<and> (\<forall>c \<in> set checks. label_usable m (R (fi_Key fi)) fi c) \<and> (\<exists>r \<in> set (R (fi_Key fi)). passes checks r)"

lemma keysByLabel: "GetFileKeysByLabel m = indexKeys (m_labelIndex m)"
  by (intro ext) (simp add: GetFileKeysByLabel_def indexKeys_def)

lemma labelsOf_in: "v \<in> set (labelsOf fi col) \<Longrightarrow> (col, labelsOf fi col) \<in> set (fi_Labels fi)"
  by (cases "mget (fi_Labels fi) col") (auto simp: labelsOf_def dest: map_of_SomeD)

lemma fast_path_keeps:
  assumes hit: "label_hit m R checks fi" "fi_Labels fi \<noteq> []" and c: "c \<in> set checks" "pd_Op c = PushDownExact"
    and known: "GetFileKeysByLabel m (pd_Column c) (pd_Value c) \<noteq> []"
  shows "fi_Key fi \<in> set (GetFileKeysByLabel m (pd_Column c) (pd_Value c))"
proof -
  obtain r where r: "r \<in> set (R (fi_Key fi))" "passes checks r" using hit(1) by (auto simp: label_hit_def)
  have v: "r (pd_Column c) = pd_Value c" "r (pd_Column c) \<noteq> []" using r(2) c by (auto simp: passes_def valueMatchesCheck_def)
  have u: "label_usable m (R (fi_Key fi)) fi c" using hit(1) c(1) by (simp add: label_hit_def)
  then have "length (labelsOf fi (pd_Column c)) < maxLabelsPerField" "pd_Value c \<in> set (labelsOf fi (pd_Column c))"
    using hit(2) known r(1) v by (auto simp: label_usable_def Let_def)
  moreover from this(2) have "(pd_Column c, labelsOf fi (pd_Column c)) \<in> set (fi_Labels fi)" by (rule labelsOf_in)
  moreover have "indexed (m_labelIndex m) fi" using hit(1) by (simp add: label_hit_def)
  ultimately show ?thesis by (fastforce simp: indexed_def keysByLabel)
qed

lemma candidates_eq:
  "set (fold (\<lambda>c cand. filter (\<lambda>k. k \<in> set (keysOf c)) cand) cs ks) = {k \<in> set ks. \<forall>c \<in> set cs. k \<in> set (keysOf c)}"
  by (induction cs arbitrary: ks) auto

lemma filterByLabelIndex_keeps:
  assumes "filterByLabelIndex m files checks = Some out" "label_hit m R checks fi" "fi \<in> set files"
  shows "fi \<in> set out"
proof -
  let ?keys = "\<lambda>c. GetFileKeysByLabel m (pd_Column c) (pd_Value c)"
  have ex: "\<forall>c \<in> set checks. pd_Op c = PushDownExact \<and> ?keys c \<noteq> []" and ne: "checks \<noteq> []"
    and out: "out = filter (\<lambda>fi. fi_Key fi \<in> set (fold (\<lambda>c cand. filter (\<lambda>k. k \<in> set (?keys c)) cand) (tl checks) (?keys (hd checks))) \<or> fi_Labels fi = []) files"
    using assms(1) by (auto simp: filterByLabelIndex_def Let_def list_ex_iff split: if_splits)
  have "\<forall>c \<in> set checks. fi_Key fi \<in> set (?keys c)" if "fi_Labels fi \<noteq> []"
    using fast_path_keeps [OF assms(2) that] ex by blast
  then show ?thesis using assms(3) ne by (cases checks) (auto simp: out candidates_eq)
qed

lemma slow_path_keeps:
  assumes "label_hit m R checks fi"
  shows "\<not> skippedByStats checks fi" "\<not> skippedByLabels checks fi"
proof -
  obtain r where r: "r \<in> set (R (fi_Key fi))" "passes checks r" using assms by (auto simp: label_hit_def)
  have "ColumnStatsContains fi (pd_Column c) (pd_Value c)" if c: "c \<in> set checks" "pd_Op c = PushDownExact" for c
  proof -
    have "r (pd_Column c) = pd_Value c" "r (pd_Column c) \<noteq> []" using r(2) c by (auto simp: passes_def valueMatchesCheck_def)
    then show ?thesis using assms r(1) by (metis label_hit_def stats_true_def)
  qed
  then show "\<not> skippedByStats checks fi" by (auto simp: skippedByStats_def list_ex_iff)
  have "fileLabelsMatch (labelsOf fi (pd_Column c)) c"
    if c: "c \<in> set checks" "labelsOf fi (pd_Column c) \<noteq> []" "length (labelsOf fi (pd_Column c)) < maxLabelsPerField" "fi_Labels fi \<noteq> []" for c
  proof -
    have "label_usable m (R (fi_Key fi)) fi c" using assms c(1) by (simp add: label_hit_def)
    then have "r (pd_Column c) \<in> set (labelsOf fi (pd_Column c))" "valueMatchesCheck (r (pd_Column c)) c"
      using r c by (auto simp: label_usable_def Let_def passes_def)
    then show ?thesis by (auto simp: fileLabelsMatch_def list_ex_iff)
  qed
  then show "\<not> skippedByLabels checks fi" by (auto simp: skippedByLabels_def list_ex_iff Let_def not_le)
qed

interpretation labels: pruner "\<lambda>files. Some (filterFilesByLabels m files checks)" "label_hit m R checks" for m R checks
proof
  fix files out fi
  assume o: "Some (filterFilesByLabels m files checks) = Some out"
  show "fi \<in> set files \<Longrightarrow> label_hit m R checks fi \<Longrightarrow> fi \<in> set out"
    using o slow_path_keeps [of m R checks fi] filterByLabelIndex_keeps [of m files checks out R fi]
    by (auto simp: filterFilesByLabels_def split: if_splits option.splits)
  show "set out \<subseteq> set files"
    using o by (auto simp: filterFilesByLabels_def filterByLabelIndex_def Let_def split: if_splits option.splits)
qed

section \<open>Bloom lookups keep what they may not drop\<close>

text \<open>The answer of a lookup over the keys \<open>K\<close>: it does not panic, returns keys it was asked about and keeps those that satisfy \<open>P\<close>.\<close>

definition lookup_ok :: "string list look \<Rightarrow> string set \<Rightarrow> (string \<Rightarrow> bool) \<Rightarrow> bool" where
  "lookup_ok r K P \<longleftrightarrow> r \<noteq> LPanic \<and> (\<forall>ks. r = LOk ks \<longrightarrow> set ks \<subseteq> K \<and> (\<forall>k \<in> K. P k \<longrightarrow> k \<in> set ks))"

lemma lookup_ok_LMiss [simp]: "lookup_ok LMiss K P"
  by (simp add: lookup_ok_def)

lemma lookup_ok_LOk [simp]: "lookup_ok (LOk ks) K P \<longleftrightarrow> set ks \<subseteq> K \<and> (\<forall>k \<in> K. P k \<longrightarrow> k \<in> set ks)"
  by (simp add: lookup_ok_def)

lemma lookup_ok_bind:
  assumes "lookup_ok r K P" "\<And>ks. set ks \<subseteq> K \<Longrightarrow> (\<forall>k \<in> K. P k \<longrightarrow> k \<in> set ks) \<Longrightarrow> lookup_ok (f ks) K' Q"
  shows "lookup_ok (bindL r f) K' Q"
  using assms by (cases r) (auto simp: lookup_ok_def)

lemma lookup_ok_widen:
  assumes "lookup_ok r K' P" "K' \<subseteq> K" "\<And>k. k \<in> K \<Longrightarrow> Q k \<Longrightarrow> k \<in> K' \<and> P k"
  shows "lookup_ok r K Q"
  unfolding lookup_ok_def
proof (intro conjI allI impI)
  show "r \<noteq> LPanic" using assms(1) by (simp add: lookup_ok_def)
  fix ks assume "r = LOk ks"
  then have "set ks \<subseteq> K'" "\<forall>k \<in> K'. P k \<longrightarrow> k \<in> set ks" using assms(1) by simp_all
  then show "set ks \<subseteq> K" "\<forall>k \<in> K. Q k \<longrightarrow> k \<in> set ks" using assms(2, 3) by (blast, blast)
qed

lemma lookup_ok_empty: "(\<And>k. k \<in> K \<Longrightarrow> \<not> Q k) \<Longrightarrow> lookup_ok (LOk []) K Q"
  by simp

lemma lookup_ok_anyValue:
  assumes "\<And>v. lookup_ok (lk v) K (P v)"
  shows "lookup_ok (anyValue lk vs) K (\<lambda>k. \<exists>v \<in> set vs. P v k)"
proof (induction vs)
  case (Cons v vs)
  show ?case unfolding anyValue.simps by (rule lookup_ok_bind [OF assms [of v]], rule lookup_ok_bind [OF Cons.IH]) auto
qed simp

lemma lookup_ok_intersect:
  assumes lk: "\<And>col v. lookup_ok (lk col v) K (P col v)" and "set ks \<subseteq> K"
  shows "lookup_ok (intersectColumns lk cvs (Some ks)) (set ks) (\<lambda>k. \<forall>(col, vs) \<in> set cvs. \<exists>v \<in> set vs. P col v k)"
  using assms(2)
proof (induction cvs arbitrary: ks)
  case (Cons cv cvs)
  obtain col vs where cv: "cv = (col, vs)" by (cases cv)
  have "lookup_ok (let acc' = filter (\<lambda>k. k \<in> set m) ks in if acc' = [] then LOk [] else intersectColumns lk cvs (Some acc')) (set ks)
      (\<lambda>k. \<forall>(col, vs) \<in> set (cv # cvs). \<exists>v \<in> set vs. P col v k)"
    if m: "set m \<subseteq> K" "\<forall>k \<in> K. (\<exists>v \<in> set vs. P col v k) \<longrightarrow> k \<in> set m" for m
  proof -
    let ?acc = "filter (\<lambda>k. k \<in> set m) ks"
    have in_acc: "k \<in> set ?acc" if "k \<in> set ks" "\<forall>(col, vs) \<in> set (cv # cvs). \<exists>v \<in> set vs. P col v k" for k
      using that m(2) Cons.prems cv by auto
    have "lookup_ok (intersectColumns lk cvs (Some ?acc)) (set ?acc) (\<lambda>k. \<forall>(col, vs) \<in> set cvs. \<exists>v \<in> set vs. P col v k)"
      using Cons.IH [of ?acc] Cons.prems by auto
    then have "lookup_ok (intersectColumns lk cvs (Some ?acc)) (set ks) (\<lambda>k. \<forall>(col, vs) \<in> set (cv # cvs). \<exists>v \<in> set vs. P col v k)"
      by (rule lookup_ok_widen) (simp, use in_acc in \<open>simp del: set_filter\<close>)
    moreover have "lookup_ok (LOk []) (set ks) (\<lambda>k. \<forall>(col, vs) \<in> set (cv # cvs). \<exists>v \<in> set vs. P col v k)" if "?acc = []"
    proof (rule lookup_ok_empty, rule notI)
      fix k assume "k \<in> set ks" "\<forall>(col, vs) \<in> set (cv # cvs). \<exists>v \<in> set vs. P col v k"
      then have "k \<in> set ?acc" by (rule in_acc)
      then show False using that by simp
    qed
    ultimately show ?thesis unfolding Let_def by (simp split: if_split)
  qed
  then show ?case unfolding cv intersectColumns.simps option.case by (intro lookup_ok_bind [OF lookup_ok_anyValue [of "lk col", OF lk]]) (auto simp: cv)
qed simp

lemma lookup_ok_intersect_all:
  assumes lk: "\<And>col v. lookup_ok (lk col v) K (P col v)" and "cvs \<noteq> []"
  shows "lookup_ok (intersectColumns lk cvs None) K (\<lambda>k. \<forall>(col, vs) \<in> set cvs. \<exists>v \<in> set vs. P col v k)"
proof -
  obtain col vs cvs' where cvs: "cvs = (col, vs) # cvs'" using assms(2) by (cases cvs) auto
  have "lookup_ok (if m = [] then LOk [] else intersectColumns lk cvs' (Some m)) K (\<lambda>k. \<forall>(col, vs) \<in> set cvs. \<exists>v \<in> set vs. P col v k)"
    if m: "set m \<subseteq> K" "\<forall>k \<in> K. (\<exists>v \<in> set vs. P col v k) \<longrightarrow> k \<in> set m" for m
  proof (cases "m = []")
    case True
    then show ?thesis using m(2) cvs by auto
  next
    case False
    have "lookup_ok (intersectColumns lk cvs' (Some m)) K (\<lambda>k. \<forall>(col, vs) \<in> set cvs. \<exists>v \<in> set vs. P col v k)"
      by (rule lookup_ok_widen [OF lookup_ok_intersect [of lk K P m cvs', OF lk m(1)] m(1)]) (use m(2) cvs in auto)
    then show ?thesis using False by simp
  qed
  then show ?thesis unfolding cvs intersectColumns.simps option.case Let_def by (intro lookup_ok_bind [OF lookup_ok_anyValue [of "lk col", OF lk]]) (auto simp: cvs)
qed

lemma lookup_ok_narrow:
  assumes "\<And>keys col v. lookup_ok (lk keys col v) (set keys) (P col v)"
  shows "lookup_ok (narrow lk keys checks) (set keys) (\<lambda>k. \<forall>(col, v) \<in> set checks. P col v k)"
proof (induction checks arbitrary: keys)
  case (Cons c checks)
  obtain col v where c: "c = (col, v)" by (cases c)
  have "lookup_ok (if sub = [] then LOk [] else narrow lk sub checks) (set keys) (\<lambda>k. \<forall>(col, v) \<in> set (c # checks). P col v k)"
    if sub: "set sub \<subseteq> set keys" "\<forall>k \<in> set keys. P col v k \<longrightarrow> k \<in> set sub" for sub
  proof (cases "sub = []")
    case True
    then show ?thesis using sub(2) c by auto
  next
    case False
    have "lookup_ok (narrow lk sub checks) (set keys) (\<lambda>k. \<forall>(col, v) \<in> set (c # checks). P col v k)"
      by (rule lookup_ok_widen [OF Cons.IH [of sub] sub(1)]) (use sub(2) c in auto)
    then show ?thesis using False by simp
  qed
  then show ?case unfolding c narrow.simps by (intro lookup_ok_bind [OF assms]) (auto simp: c)
qed simp

lemma lookup_ok_unite:
  assumes "\<And>b. b \<in> set bs \<Longrightarrow> lookup_ok (f b) K (Q b)"
  shows "lookup_ok (uniteBranches f bs) K (\<lambda>k. \<exists>b \<in> set bs. Q b k)"
  using assms
proof (induction bs)
  case (Cons b bs)
  have "lookup_ok (uniteBranches f bs) K (\<lambda>k. \<exists>b \<in> set bs. Q b k)" using Cons by simp
  then show ?case unfolding uniteBranches.simps by (intro lookup_ok_bind [OF Cons.prems [of b]] lookup_ok_bind [of _ _ "\<lambda>k. \<exists>b \<in> set bs. Q b k"]) auto
qed simp

section \<open>The bloom sources\<close>

text \<open>\<open>F key col v\<close>: the file with that key has the value in the column. The sources are sound when no index excludes such a value.\<close>

definition sources_sound :: "bloomSources \<Rightarrow> (string \<Rightarrow> string \<Rightarrow> string \<Rightarrow> bool) \<Rightarrow> bool" where
  "sources_sound B F \<longleftrightarrow>
     (\<forall>cat p idx. bs_catalog B = Some cat \<longrightarrow> mget cat p = Some idx \<longrightarrow> sound idx F) \<and> (\<forall>p idx. bs_legacy B p = Some idx \<longrightarrow> sound idx F)"

lemma lookup_ok_MayContain: "sound idx F \<Longrightarrow> lookup_ok (lookOf (MayContain idx keys col v)) (set keys) (\<lambda>k. F k col v)"
  by (auto simp: sound_def MayContain_eq lookOf_def)

lemma lookup_ok_MayContainAll:
  "sound idx F \<Longrightarrow> lookup_ok (lookOf (MayContainAll idx keys checks)) (set keys) (\<lambda>k. \<forall>(col, v) \<in> set checks. F k col v)"
  unfolding sound_def by (clarsimp simp: MayContainAll_eq lookOf_def) blast

lemma lookup_ok_facet:
  assumes "sources_sound B F" "bs_catalog B = Some cat"
  shows "lookup_ok (BloomMayContain cat p keys col v) (set keys) (\<lambda>k. F k col v)"
proof (cases "mget cat p")
  case (Some idx)
  then have "sound idx F" using assms by (simp add: sources_sound_def)
  then show ?thesis using Some lookup_ok_MayContain by (simp add: BloomMayContain_def)
qed (simp add: BloomMayContain_def)

lemma lookup_ok_first: "lookup_ok r K P \<Longrightarrow> lookup_ok s K P \<Longrightarrow> lookup_ok (case r of LMiss \<Rightarrow> s | x \<Rightarrow> x) K P"
  by (cases r) (simp_all add: lookup_ok_def)

lemma lookup_ok_columns:
  assumes S: "sources_sound B F" and "cvs \<noteq> []"
  shows "lookup_ok (bloomColumnIntersect B p keys cvs) (set keys) (\<lambda>k. \<forall>(col, vs) \<in> set cvs. \<exists>v \<in> set vs. F k col v)"
proof -
  let ?leg = "case bs_legacy B p of None \<Rightarrow> LMiss | Some idx \<Rightarrow> intersectColumns (\<lambda>column v. lookOf (MayContainAll idx keys [(column, v)])) cvs None"
  have leg: "lookup_ok ?leg (set keys) (\<lambda>k. \<forall>(col, vs) \<in> set cvs. \<exists>v \<in> set vs. F k col v)"
  proof (cases "bs_legacy B p")
    case (Some idx)
    then have "sound idx F" using S by (simp add: sources_sound_def)
    then have "lookup_ok (lookOf (MayContainAll idx keys [(col, v)])) (set keys) (\<lambda>k. F k col v)" for col v
      using lookup_ok_MayContainAll [of idx F keys "[(col, v)]"] by simp
    then show ?thesis unfolding Some option.case by (rule lookup_ok_intersect_all [OF _ assms(2)])
  qed simp
  show ?thesis
  proof (cases "bs_catalog B")
    case (Some cat)
    have "lookup_ok (facetBloomColumnIntersect cat p keys cvs) (set keys) (\<lambda>k. \<forall>(col, vs) \<in> set cvs. \<exists>v \<in> set vs. F k col v)"
      unfolding facetBloomColumnIntersect_def by (rule lookup_ok_intersect_all [OF lookup_ok_facet [OF S Some] assms(2)])
    then show ?thesis using lookup_ok_first [OF _ leg] Some by (simp add: bloomColumnIntersect_def)
  qed (use leg in \<open>simp add: bloomColumnIntersect_def\<close>)
qed

lemma lookup_ok_branches:
  assumes S: "sources_sound B F"
  shows "lookup_ok (bloomUnionMatch B p keys bs) (set keys) (\<lambda>k. \<exists>b \<in> set bs. \<forall>(col, v) \<in> set b. F k col v)"
proof -
  let ?leg = "case bs_legacy B p of None \<Rightarrow> LMiss | Some idx \<Rightarrow> uniteBranches (\<lambda>checks. lookOf (MayContainAll idx keys checks)) bs"
  have leg: "lookup_ok ?leg (set keys) (\<lambda>k. \<exists>b \<in> set bs. \<forall>(col, v) \<in> set b. F k col v)"
  proof (cases "bs_legacy B p")
    case (Some idx)
    then have "sound idx F" using S by (simp add: sources_sound_def)
    then show ?thesis unfolding Some option.case by (intro lookup_ok_unite lookup_ok_MayContainAll)
  qed simp
  show ?thesis
  proof (cases "bs_catalog B")
    case (Some cat)
    have "lookup_ok (facetBloomUnionMatch cat p keys bs) (set keys) (\<lambda>k. \<exists>b \<in> set bs. \<forall>(col, v) \<in> set b. F k col v)"
      unfolding facetBloomUnionMatch_def by (rule lookup_ok_unite, rule lookup_ok_narrow [of "BloomMayContain cat p", OF lookup_ok_facet [OF S Some]])
    then show ?thesis using lookup_ok_first [OF _ leg] Some by (simp add: bloomUnionMatch_def)
  qed (use leg in \<open>simp add: bloomUnionMatch_def\<close>)
qed

section \<open>Filtering by partition\<close>

lemma keepMatched_ok:
  assumes "\<And>p keys. lookup_ok (f p keys) (set keys) P"
  shows "\<exists>out. keepMatched f g = Some out \<and> set out \<subseteq> set (concat (map snd g))
    \<and> (\<forall>fi \<in> set (concat (map snd g)). P (fi_Key fi) \<longrightarrow> fi \<in> set out)"
proof (induction g)
  case (Cons x g)
  obtain p fs where x: "x = (p, fs)" by (cases x)
  obtain out where o: "keepMatched f g = Some out" "set out \<subseteq> set (concat (map snd g))"
    "\<forall>fi \<in> set (concat (map snd g)). P (fi_Key fi) \<longrightarrow> fi \<in> set out" using Cons.IH by blast
  have "lookup_ok (f p (map fi_Key fs)) (set (map fi_Key fs)) P" by (rule assms)
  then show ?case using o x by (cases "f p (map fi_Key fs)") (auto simp: lookup_ok_def)
qed simp

lemma mput_files:
  fixes g :: fileMap
  shows "wfmap g \<Longrightarrow> set (concat (map snd (mput p ((case mget g p of None \<Rightarrow> [] | Some fs \<Rightarrow> fs) @ [fi]) g))) = insert fi (set (concat (map snd g)))"
proof -
  assume w: "wfmap g"
  have "filesOf g p = (case mget g p of None \<Rightarrow> [] | Some fs \<Rightarrow> fs)" by (simp add: filesOf_def)
  then have "mset (allFiles (mput p (filesOf g p @ [fi]) g)) + mset (filesOf g p) = add_mset fi (mset (allFiles g)) + mset (filesOf g p)"
    using mset_mput [OF w, of p "filesOf g p @ [fi]"] by simp
  then have "mset (allFiles (mput p (filesOf g p @ [fi]) g)) = mset (fi # allFiles g)" by simp
  from mset_eq_setD [OF this] show ?thesis by (simp add: allFiles_def filesOf_def)
qed

lemma byPartition_files: "set (concat (map snd (byPartition files))) = set files"
proof -
  define step where "step = (\<lambda>(fi :: fileInfo) g. let p = ExtractTenantPartition (fi_Key fi)
        in mput p ((case mget g p of None \<Rightarrow> [] | Some fs \<Rightarrow> fs) @ [fi]) g)"
  have "wfmap g \<Longrightarrow> set (concat (map snd (fold step fs g))) = set fs \<union> set (concat (map snd g))" for fs and g :: fileMap
  proof (induction fs arbitrary: g)
    case (Cons fi fs)
    have "wfmap (step fi g)" using Cons.prems unfolding step_def Let_def by (intro wfmap_mput)
    moreover have "set (concat (map snd (step fi g))) = insert fi (set (concat (map snd g)))"
      unfolding step_def Let_def by (rule mput_files [OF Cons.prems])
    ultimately show ?case using Cons.IH [of "step fi g"] by simp
  qed simp
  from this [of "[]" files] show ?thesis by (simp add: byPartition_def step_def)
qed

text \<open>What the bloom filters ask of a file: some branch, or some value of every column; the columns depend on whether the file attests
  hexadecimal trace ids.\<close>

definition bloom_asks :: "prunable \<Rightarrow> (string \<Rightarrow> string \<Rightarrow> bool) \<Rightarrow> bool \<Rightarrow> bool" where
  "bloom_asks q G attested \<longleftrightarrow>
     (if pr_hasOr q then \<exists>b \<in> set (pr_branches q). \<forall>(fld, v) \<in> set b. G (pr_resolve q fld) v
      else \<forall>(col, vs) \<in> set (pr_columns q attested). \<exists>v \<in> set vs. G col v)"

lemma branches_ok:
  assumes "sources_sound B F"
  shows "\<exists>out. bloomFilterFilesByOrBranches B q files = Some out \<and> set out \<subseteq> set files
    \<and> (\<forall>fi \<in> set files. (\<exists>b \<in> set (pr_branches q). \<forall>(fld, v) \<in> set b. F (fi_Key fi) (pr_resolve q fld) v) \<longrightarrow> fi \<in> set out)"
proof -
  define bcs where "bcs = map (map (\<lambda>(fld, v). (pr_resolve q fld, v))) (pr_branches q)"
  have eq: "(\<exists>b \<in> set bcs. \<forall>(col, v) \<in> set b. F k col v) \<longleftrightarrow> (\<exists>b \<in> set (pr_branches q). \<forall>(fld, v) \<in> set b. F k (pr_resolve q fld) v)" for k
    unfolding bcs_def by (simp add: case_prod_beta')
  have "\<exists>out. keepMatched (\<lambda>p keys. bloomUnionMatch B p keys bcs) (byPartition files) = Some out \<and> set out \<subseteq> set files
      \<and> (\<forall>fi \<in> set files. (\<exists>b \<in> set bcs. \<forall>(col, v) \<in> set b. F (fi_Key fi) col v) \<longrightarrow> fi \<in> set out)"
    using keepMatched_ok [OF lookup_ok_branches [OF assms], where g = "byPartition files"] unfolding byPartition_files .
  then show ?thesis unfolding eq by (auto simp: bloomFilterFilesByOrBranches_def branchChecks_def bcs_def [symmetric] split: option.splits)
qed

lemma bloomWith_ok:
  assumes "sources_sound B F"
  shows "\<exists>out. bloomFilterFilesWith B q attested files = Some out \<and> set out \<subseteq> set files
    \<and> (\<forall>fi \<in> set files. bloom_asks q (F (fi_Key fi)) attested \<longrightarrow> fi \<in> set out)"
proof -
  have "\<exists>out. keepMatched (\<lambda>p keys. bloomColumnIntersect B p keys (pr_columns q attested)) (byPartition files) = Some out \<and> set out \<subseteq> set files
      \<and> (\<forall>fi \<in> set files. (\<forall>(col, vs) \<in> set (pr_columns q attested). \<exists>v \<in> set vs. F (fi_Key fi) col v) \<longrightarrow> fi \<in> set out)"
    if "pr_columns q attested \<noteq> []"
    using keepMatched_ok [OF lookup_ok_columns [OF assms that], where g = "byPartition files"] unfolding byPartition_files .
  then show ?thesis using branches_ok [OF assms, of q files] by (auto simp: bloomFilterFilesWith_def bloom_asks_def)
qed

lemma bloomFilterFiles_ok:
  assumes "\<And>B. src = Some B \<Longrightarrow> sources_sound B F"
  shows "\<exists>out. bloomFilterFiles src q files = Some out \<and> set out \<subseteq> set files
    \<and> (\<forall>fi \<in> set files. bloom_asks q (F (fi_Key fi)) (pr_hexPhrases q \<and> fi_TraceIDHex fi) \<longrightarrow> fi \<in> set out)"
proof (cases src)
  case (Some B)
  have S: "sources_sound B F" by (rule assms [OF Some])
  obtain all where a: "bloomFilterFilesWith B q False files = Some all" "set all \<subseteq> set files"
    "\<forall>fi \<in> set files. bloom_asks q (F (fi_Key fi)) False \<longrightarrow> fi \<in> set all"
    using bloomWith_ok [OF S, of q False files] by blast
  obtain hex where h: "bloomFilterFilesWith B q True (filter fi_TraceIDHex files) = Some hex" "set hex \<subseteq> set (filter fi_TraceIDHex files)"
    "\<forall>fi \<in> set (filter fi_TraceIDHex files). bloom_asks q (F (fi_Key fi)) True \<longrightarrow> fi \<in> set hex"
    using bloomWith_ok [OF S, of q True "filter fi_TraceIDHex files"] by blast
  obtain rest where r: "bloomFilterFilesWith B q False (filter (\<lambda>fi. \<not> fi_TraceIDHex fi) files) = Some rest"
    "set rest \<subseteq> set (filter (\<lambda>fi. \<not> fi_TraceIDHex fi) files)"
    "\<forall>fi \<in> set (filter (\<lambda>fi. \<not> fi_TraceIDHex fi) files). bloom_asks q (F (fi_Key fi)) False \<longrightarrow> fi \<in> set rest"
    using bloomWith_ok [OF S, of q False "filter (\<lambda>fi. \<not> fi_TraceIDHex fi) files"] by blast
  show ?thesis
  proof (cases "files = [] \<or> \<not> pr_hexPhrases q")
    case True
    then have "bloomFilterFiles src q files = Some all" using Some a(1) by (simp add: bloomFilterFiles_def)
    then show ?thesis using a(2, 3) True by auto
  next
    case False
    then have run: "bloomFilterFiles src q files = Some (hex @ rest)" using Some h(1) r(1) by (simp add: bloomFilterFiles_def)
    have "fi \<in> set (hex @ rest)" if "fi \<in> set files" "bloom_asks q (F (fi_Key fi)) (pr_hexPhrases q \<and> fi_TraceIDHex fi)" for fi
      using that False h(3) r(3) by (cases "fi_TraceIDHex fi") auto
    then show ?thesis using run h(2) r(2) by auto
  qed
qed (simp add: bloomFilterFiles_def)

definition bloom_hit :: "bloomSources option \<Rightarrow> (string \<Rightarrow> string \<Rightarrow> string \<Rightarrow> bool) \<Rightarrow> prunable \<Rightarrow> fileInfo \<Rightarrow> bool" where
  "bloom_hit src F q fi \<longleftrightarrow> (\<forall>B. src = Some B \<longrightarrow> sources_sound B F) \<and> bloom_asks q (F (fi_Key fi)) (pr_hexPhrases q \<and> fi_TraceIDHex fi)"

lemma sources_sound_mono: "sources_sound B F \<Longrightarrow> (\<And>k c v. G k c v \<Longrightarrow> F k c v) \<Longrightarrow> sources_sound B G"
  unfolding sources_sound_def sound_def by blast

text \<open>Whatever the indexes hold, a filter returns files it was given.\<close>

lemma keepMatched_sub: "keepMatched f g = Some out \<Longrightarrow> set out \<subseteq> set (concat (map snd g))"
  by (induction f g arbitrary: out rule: keepMatched.induct) (fastforce split: look.splits)+

lemma bloomWith_sub: "bloomFilterFilesWith B q attested files = Some out \<Longrightarrow> set out \<subseteq> set files"
  using keepMatched_sub [of _ "byPartition files" out]
  unfolding bloomFilterFilesWith_def bloomFilterFilesByOrBranches_def byPartition_files
  by (auto split: if_splits option.splits)

lemma bloomFilterFiles_sub: "bloomFilterFiles src q files = Some out \<Longrightarrow> set out \<subseteq> set files"
  unfolding bloomFilterFiles_def using bloomWith_sub by (fastforce split: if_splits option.splits)

interpretation blooms: pruner "bloomFilterFiles src q" "bloom_hit src F q" for src q F
proof
  fix files out fi
  assume o: "bloomFilterFiles src q files = Some out"
  show "fi \<in> set files \<Longrightarrow> bloom_hit src F q fi \<Longrightarrow> fi \<in> set out"
    using bloomFilterFiles_ok [of src F q files] o by (auto simp: bloom_hit_def)
  show "set out \<subseteq> set files" by (rule bloomFilterFiles_sub [OF o])
qed

interpretation prefilter: pruner_chain "\<lambda>files. Some (filterFilesByLabels m files (pr_checks q))" "label_hit m R (pr_checks q)"
  "bloomFilterFiles src q" "bloom_hit src F q" for m R q src F ..

lemma preFilterFiles_chain: "preFilterFiles m src q files = Option.bind (Some (filterFilesByLabels m files (pr_checks q))) (bloomFilterFiles src q)"
  by (simp add: preFilterFiles_def bloomFilterFiles_def bloomFilterFilesWith_def Let_def split: option.split)

end
