(* ===== verification/BloomCodec.thy ===== *)
theory BloomCodec
  imports BloomProofs
begin

text \<open>
  The byte format of the bloom index: \<open>Marshal\<close> and \<open>Unmarshal\<close> of \<open>src/internal/bloomindex/bloomindex.go\<close>.
  The decoder keeps a position in the data; the model hands on the rest of the data from that position,
  and every early return of the code is an \<open>Inl\<close>. The locale \<open>codec\<close> is the contract of one field of the
  format: what is written is read back with the rest of the input untouched, and a decision once
  made does not depend on the bytes after it. It gives that encodings are unambiguous and that truncated data
  is refused, and it is interpreted on the whole index.
\<close>

section \<open>Little-endian integers\<close>

definition appendUint16 :: "16 word \<Rightarrow> bytes" where
  "appendUint16 w = [ucast w, ucast (drop_bit 8 w)]"

definition appendUint32 :: "32 word \<Rightarrow> bytes" where
  "appendUint32 w = [ucast w, ucast (drop_bit 8 w), ucast (drop_bit 16 w), ucast (drop_bit 24 w)]"

definition uint16 :: "bytes \<Rightarrow> 16 word" where
  "uint16 bs = ucast (bs ! 0) OR push_bit 8 (ucast (bs ! 1))"

definition uint32 :: "bytes \<Rightarrow> 32 word" where
  "uint32 bs = ucast (bs ! 0) OR push_bit 8 (ucast (bs ! 1)) OR push_bit 16 (ucast (bs ! 2)) OR push_bit 24 (ucast (bs ! 3))"

definition stringOf :: "bytes \<Rightarrow> string" where
  "stringOf bs = map (\<lambda>b. char_of (unat b)) bs"

section \<open>Writing\<close>

definition filterMarshal :: "bloomFilter \<Rightarrow> bytes" where
  "filterMarshal f = bf_numHash f # bf_bits f"

definition marshalColumn :: "string \<times> bloomFilter \<Rightarrow> bytes" where
  "marshalColumn cf =
     (case cf of (col, f) \<Rightarrow>
        word_of_nat (length col) # bytesOf col @ appendUint32 (word_of_nat (length (filterMarshal f))) @ filterMarshal f)"

definition marshalEntry :: "string \<times> (string, bloomFilter) gomap \<Rightarrow> bytes" where
  "marshalEntry e =
     (case e of (key, cols) \<Rightarrow>
        appendUint16 (word_of_nat (length key)) @ bytesOf key @ appendUint16 (word_of_nat (length cols))
        @ concat (map marshalColumn cols))"

definition indexVersion :: "8 word" where "indexVersion = 2"

definition Marshal :: "bloomIndex \<Rightarrow> bytes" where
  "Marshal idx = indexVersion # appendUint32 (word_of_nat (length idx)) @ concat (map marshalEntry idx)"

section \<open>Reading\<close>

datatype bloomError =
    BFilterShort
  | BShort
  | BVersion
  | BTooMany nat
  | BCount nat nat
  | BTruncated
  | BTruncatedKey
  | BTruncatedCount
  | BTruncatedName
  | BTruncatedNameData
  | BTruncatedFilterLen
  | BFilterLen

fun bindE :: "'e + 'a \<Rightarrow> ('a \<Rightarrow> 'e + 'b) \<Rightarrow> 'e + 'b" where
  "bindE (Inl e) f = Inl e"
| "bindE (Inr x) f = f x"

definition UnmarshalFilter :: "bytes \<Rightarrow> bloomError + bloomFilter" where
  "UnmarshalFilter data =
     (if length data < 2 then Inl BFilterShort else Inr \<lparr>bf_bits = tl data, bf_numHash = hd data\<rparr>)"

definition maxIndexEntries :: nat where "maxIndexEntries = 1000000"

definition minEntrySizeV1 :: nat where "minEntrySizeV1 = 2 + 4 + 2"

definition minEntrySizeV2 :: nat where "minEntrySizeV2 = 2 + 2"

definition minColSizeV2 :: nat where "minColSizeV2 = 1 + 4 + 2"

definition checkCount :: "nat \<Rightarrow> nat \<Rightarrow> nat \<Rightarrow> bloomError + unit" where
  "checkCount cnt remaining minSize =
     (if cnt > remaining div minSize then Inl (BCount cnt (remaining div minSize)) else Inr ())"

text \<open>The steps of the decoders: a fixed number of bytes, or a length-prefixed part, from the front of the rest.\<close>

definition takeBytes :: "bloomError \<Rightarrow> nat \<Rightarrow> bytes \<Rightarrow> bloomError + (bytes \<times> bytes)" where
  "takeBytes e n rest = (if n > length rest then Inl e else Inr (take n rest, drop n rest))"

definition takeFilter :: "bytes \<Rightarrow> bloomError + (bloomFilter \<times> bytes)" where
  "takeFilter rest =
     bindE (takeBytes BTruncatedFilterLen 4 rest) (\<lambda>(l, rest).
     bindE (takeBytes BFilterLen (unat (uint32 l)) rest) (\<lambda>(d, rest).
     bindE (UnmarshalFilter d) (\<lambda>f. Inr (f, rest))))"

definition takeKey :: "bytes \<Rightarrow> bloomError + (string \<times> bytes)" where
  "takeKey rest =
     bindE (takeBytes BTruncated 2 rest) (\<lambda>(l, rest).
     bindE (takeBytes BTruncatedKey (unat (uint16 l)) rest) (\<lambda>(k, rest). Inr (stringOf k, rest)))"

definition takeColumn :: "bytes \<Rightarrow> bloomError + ((string \<times> bloomFilter) \<times> bytes)" where
  "takeColumn rest =
     bindE (takeBytes BTruncatedName 1 rest) (\<lambda>(l, rest).
     bindE (takeBytes BTruncatedNameData (unat (hd l)) rest) (\<lambda>(name, rest).
     bindE (takeFilter rest) (\<lambda>(f, rest). Inr ((stringOf name, f), rest))))"

text \<open>A counted loop, each round of which enters its item in the map that is built.\<close>

fun takeMany :: "(bytes \<Rightarrow> bloomError + ((string \<times> 'v) \<times> bytes)) \<Rightarrow> nat \<Rightarrow> bytes \<Rightarrow> (string, 'v) gomap
    \<Rightarrow> bloomError + ((string, 'v) gomap \<times> bytes)" where
  "takeMany item 0 rest m = Inr (m, rest)"
| "takeMany item (Suc n) rest m = bindE (item rest) (\<lambda>((k, v), rest). takeMany item n rest (mput k v m))"

definition takeEntryV1 :: "bytes \<Rightarrow> bloomError + ((string \<times> (string, bloomFilter) gomap) \<times> bytes)" where
  "takeEntryV1 rest =
     bindE (takeKey rest) (\<lambda>(key, rest).
     bindE (takeFilter rest) (\<lambda>(f, rest). Inr ((key, [(''trace_id'', f)]), rest)))"

definition takeEntryV2 :: "bytes \<Rightarrow> bloomError + ((string \<times> (string, bloomFilter) gomap) \<times> bytes)" where
  "takeEntryV2 rest =
     bindE (takeKey rest) (\<lambda>(key, rest).
     bindE (takeBytes BTruncatedCount 2 rest) (\<lambda>(c, rest).
     bindE (checkCount (unat (uint16 c)) (length rest) minColSizeV2) (\<lambda>_.
     bindE (takeMany takeColumn (unat (uint16 c)) rest []) (\<lambda>(cols, rest). Inr ((key, cols), rest)))))"

definition unmarshalEntries :: "nat \<Rightarrow> (bytes \<Rightarrow> bloomError + ((string \<times> (string, bloomFilter) gomap) \<times> bytes)) \<Rightarrow> bytes
    \<Rightarrow> bloomError + (bloomIndex \<times> bytes)" where
  "unmarshalEntries minSize item data =
     (let cnt = unat (uint32 (take 4 (drop 1 data)))
      in if cnt > maxIndexEntries then Inl (BTooMany cnt)
         else bindE (checkCount cnt (length data - 5) minSize) (\<lambda>_. takeMany item cnt (drop 5 data) []))"

definition unmarshalV1 :: "bytes \<Rightarrow> bloomError + (bloomIndex \<times> bytes)" where
  "unmarshalV1 data = unmarshalEntries minEntrySizeV1 takeEntryV1 data"

definition unmarshalV2 :: "bytes \<Rightarrow> bloomError + (bloomIndex \<times> bytes)" where
  "unmarshalV2 data = unmarshalEntries minEntrySizeV2 takeEntryV2 data"

text \<open>The decoders ignore what follows the last entry; \<open>unmarshalRest\<close> still returns it.\<close>

definition unmarshalRest :: "bytes \<Rightarrow> bloomError + (bloomIndex \<times> bytes)" where
  "unmarshalRest data =
     (if length data < 5 then Inl BShort
      else if hd data = 1 then unmarshalV1 data
      else if hd data = 2 then unmarshalV2 data
      else Inl BVersion)"

definition Unmarshal :: "bytes \<Rightarrow> bloomError + bloomIndex" where
  "Unmarshal data = bindE (unmarshalRest data) (\<lambda>(idx, rest). Inr idx)"

section \<open>The contract of a field\<close>

locale codec =
  fixes fits :: "'v \<Rightarrow> bool"
    and enc :: "'v \<Rightarrow> 'b list"
    and dec :: "'b list \<Rightarrow> 'e + ('v \<times> 'b list)"
  assumes dec_enc: "fits v \<Longrightarrow> dec (enc v @ rest) = Inr (v, rest)"
    and dec_extend: "dec bs = Inr (v, rest) \<Longrightarrow> dec (bs @ ext) = Inr (v, rest @ ext)"
begin

lemma enc_inject: "fits v \<Longrightarrow> fits u \<Longrightarrow> enc v @ xs = enc u @ ys \<Longrightarrow> v = u \<and> xs = ys"
  by (metis dec_enc prod.inject sum.inject(2))

lemma truncated:
  assumes "fits v" "n < length (enc v)"
  shows "\<exists>e. dec (take n (enc v)) = Inl e"
proof (rule ccontr)
  assume "\<nexists>e. dec (take n (enc v)) = Inl e"
  then obtain u rest where "dec (take n (enc v)) = Inr (u, rest)" by (metis sum.exhaust surj_pair)
  then have "dec (enc v) = Inr (u, rest @ drop n (enc v))" using dec_extend [of _ u rest "drop n (enc v)"] append_take_drop_id by metis
  moreover have "dec (enc v) = Inr (v, [])" using dec_enc [OF assms(1), of "[]"] by simp
  ultimately show False using assms(2) by simp
qed

end

section \<open>Integers are read back\<close>

lemma uint16_append: "uint16 (appendUint16 w) = w"
  by (rule bit_word_eqI) (auto simp: uint16_def appendUint16_def bit_simps)

lemma uint32_append: "uint32 (appendUint32 w) = w"
proof (rule bit_word_eqI)
  show "bit (uint32 (appendUint32 w)) n \<longleftrightarrow> bit w n" if "n < LENGTH(32)" for n
    using that by (cases "n < 8"; cases "n < 16"; cases "n < 24") (auto simp: uint32_def appendUint32_def bit_simps nth_Cons')
qed

lemma length_append_uint [simp]: "length (appendUint16 w) = 2" "length (appendUint32 w') = 4"
  by (simp_all add: appendUint16_def appendUint32_def)

lemma stringOf_bytesOf: "stringOf (bytesOf s) = s"
proof -
  have "unat (of_char c :: 8 word) = of_char c" for c
  proof -
    have "of_char c = (word_of_nat (of_char c) :: 8 word)" by (rule of_nat_of_char [symmetric])
    then show ?thesis by (simp add: unat_of_nat)
  qed
  then show ?thesis by (simp add: stringOf_def bytesOf_def comp_def)
qed

lemma length_bytesOf [simp]: "length (bytesOf s) = length s"
  by (simp add: bytesOf_def)

section \<open>Each step of the decoder\<close>

text \<open>A step reads \<open>w\<close> as \<open>v\<close>.\<close>

definition reads :: "(bytes \<Rightarrow> bloomError + ('v \<times> bytes)) \<Rightarrow> bytes \<Rightarrow> 'v \<Rightarrow> bool" where
  "reads r w v \<longleftrightarrow> (\<forall>rest. r (w @ rest) = Inr (v, rest))"

definition stable :: "(bytes \<Rightarrow> bloomError + ('v \<times> bytes)) \<Rightarrow> bool" where
  "stable r \<longleftrightarrow> (\<forall>bs v rest ext. r bs = Inr (v, rest) \<longrightarrow> r (bs @ ext) = Inr (v, rest @ ext))"

lemma bindE_Inr: "bindE m f = Inr y \<longleftrightarrow> (\<exists>x. m = Inr x \<and> f x = Inr y)"
  by (cases m) simp_all

lemma reads_takeBytes: "length w = n \<Longrightarrow> reads (takeBytes e n) w w"
  by (simp add: reads_def takeBytes_def)

lemma stable_takeBytes: "stable (takeBytes e n)"
  by (auto simp: stable_def takeBytes_def)

lemma stable_bind:
  assumes "stable r" "\<And>v. stable (f v)"
  shows "stable (\<lambda>bs. bindE (r bs) (\<lambda>(v, rest). f v rest))"
  unfolding stable_def bindE_Inr using assms unfolding stable_def by fastforce

lemma stable_check:
  assumes "stable r"
  shows "stable (\<lambda>bs. bindE (checkCount n (length bs) k) (\<lambda>_. r bs))"
proof -
  have "checkCount n (length (bs @ ext)) k = Inr ()" if "checkCount n (length bs) k = Inr ()" for bs ext :: bytes
  proof -
    have "length bs div k \<le> length (bs @ ext) div k" by (rule div_le_mono) simp
    then show ?thesis using that by (auto simp: checkCount_def split: if_splits)
  qed
  then show ?thesis using assms unfolding stable_def bindE_Inr by auto
qed

lemma stable_return: "stable (\<lambda>rest. Inr (v, rest))"
  by (simp add: stable_def)

lemma stable_decoded: "stable (\<lambda>rest. bindE (UnmarshalFilter d) (\<lambda>f. Inr (f, rest)))"
  by (auto simp: stable_def bindE_Inr)

lemma stable_takeFilter: "stable takeFilter"
  unfolding takeFilter_def by (intro stable_bind stable_takeBytes stable_decoded)

lemma stable_takeKey: "stable takeKey"
  unfolding takeKey_def by (intro stable_bind stable_takeBytes stable_return)

lemma stable_takeColumn: "stable takeColumn"
  unfolding takeColumn_def by (intro stable_bind stable_takeBytes stable_takeFilter stable_return)

lemma stable_takeMany:
  assumes "stable item"
  shows "stable (\<lambda>rest. takeMany item n rest m)"
proof (induction n arbitrary: m)
  case (Suc n)
  have "stable (\<lambda>rest. bindE (item rest) (\<lambda>(kv, rest). takeMany item n rest (mput (fst kv) (snd kv) m)))"
    by (rule stable_bind [OF assms]) (rule Suc)
  then show ?case by (simp add: case_prod_beta')
qed (simp add: stable_return)

lemma stable_takeEntry: "stable takeEntryV1" "stable takeEntryV2"
  unfolding takeEntryV1_def takeEntryV2_def
  by (intro stable_bind stable_takeKey stable_takeFilter stable_takeBytes stable_check stable_takeMany stable_takeColumn stable_return)+

section \<open>Each part is read back\<close>

definition filter_fits :: "bloomFilter \<Rightarrow> bool" where
  "filter_fits f \<longleftrightarrow> filter_ok f \<and> length (bf_bits f) + 1 < 2 ^ 32"

definition columns_fit :: "(string, bloomFilter) gomap \<Rightarrow> bool" where
  "columns_fit cols \<longleftrightarrow> wfmap cols \<and> length cols < 2 ^ 16 \<and> (\<forall>(col, f) \<in> set cols. length col < 2 ^ 8 \<and> filter_fits f)"

definition index_fits :: "bloomIndex \<Rightarrow> bool" where
  "index_fits idx \<longleftrightarrow> wfmap idx \<and> length idx \<le> maxIndexEntries \<and> (\<forall>(key, cols) \<in> set idx. length key < 2 ^ 16 \<and> columns_fit cols)"

lemma readsD: "reads r w v \<Longrightarrow> r (w @ rest) = Inr (v, rest)"
  by (simp add: reads_def)

lemma takeBytes_append: "length w = n \<Longrightarrow> takeBytes e n (w @ rest) = Inr (w, rest)"
  by (rule readsD [OF reads_takeBytes])

lemma reads_filter:
  assumes "filter_fits f"
  shows "reads takeFilter (appendUint32 (word_of_nat (length (filterMarshal f))) @ filterMarshal f) f"
proof -
  have "unat (uint32 (appendUint32 (word_of_nat (length (filterMarshal f))))) = length (filterMarshal f)"
    using assms by (simp add: uint32_append unat_of_nat filter_fits_def filterMarshal_def del: of_nat_Suc)
  moreover have "UnmarshalFilter (filterMarshal f) = Inr f"
    using assms by (cases "bf_bits f") (auto simp: UnmarshalFilter_def filterMarshal_def filter_fits_def filter_ok_def)
  ultimately show ?thesis
    by (simp add: reads_def takeFilter_def takeBytes_append)
qed

lemma reads_key:
  assumes "length key < 2 ^ 16"
  shows "reads takeKey (appendUint16 (word_of_nat (length key)) @ bytesOf key) key"
proof -
  have "unat (uint16 (appendUint16 (word_of_nat (length key)))) = length key"
    using assms by (simp add: uint16_append unat_of_nat)
  then show ?thesis by (simp add: reads_def takeKey_def takeBytes_append stringOf_bytesOf)
qed

lemma reads_column:
  assumes "length col < 2 ^ 8" "filter_fits f"
  shows "reads takeColumn (marshalColumn (col, f)) (col, f)"
proof -
  have l: "unat (word_of_nat (length col) :: 8 word) = length col" using assms(1) by (simp add: unat_of_nat)
  have "takeBytes e 1 (x # rest) = Inr ([x], rest)" for e x rest by (simp add: takeBytes_def)
  then show ?thesis using readsD [OF reads_filter [OF assms(2)]] l
    by (simp add: reads_def takeColumn_def marshalColumn_def takeBytes_append stringOf_bytesOf)
qed

lemma takeMany_reads:
  assumes "\<forall>e \<in> set es. reads item (w e) e"
  shows "takeMany item (length es) (concat (map w es) @ rest) m = Inr (fold (\<lambda>(k, v). mput k v) es m, rest)"
  using assms
proof (induction es arbitrary: m)
  case (Cons e es)
  obtain k v where e: "e = (k, v)" by (cases e)
  have "item (w e @ concat (map w es) @ rest) = Inr (e, concat (map w es) @ rest)" using Cons.prems by (simp add: reads_def)
  then show ?case using Cons e by simp
qed simp

lemma fold_mput_append: "wfmap (m @ es) \<Longrightarrow> fold (\<lambda>(k, v). mput k v) es m = m @ es"
proof (induction es arbitrary: m)
  case (Cons e es)
  obtain k v where e: "e = (k, v)" by (cases e)
  have "mput k v m = m @ [(k, v)]" if "k \<notin> set (mkeys m)" using that by (induction m) auto
  then show ?case using Cons.IH [of "m @ [(k, v)]"] Cons.prems e by simp
qed simp

lemma concat_length: "\<forall>e \<in> set es. n \<le> length (w e) \<Longrightarrow> n * length es \<le> length (concat (map w es))"
  by (induction es) auto

lemma count_fits: "n * k \<le> l \<Longrightarrow> 0 < n \<Longrightarrow> checkCount k l n = Inr ()"
  using less_eq_div_iff_mult_less_eq [of n k l] by (simp add: checkCount_def mult.commute not_less)

lemma column_length: "filter_fits f \<Longrightarrow> minColSizeV2 \<le> length (marshalColumn (col, f))"
  by (cases "bf_bits f") (simp_all add: marshalColumn_def minColSizeV2_def filterMarshal_def filter_fits_def filter_ok_def)

lemma reads_entry:
  assumes "length key < 2 ^ 16" "columns_fit cols"
  shows "reads takeEntryV2 (marshalEntry (key, cols)) (key, cols)"
proof -
  have c: "unat (uint16 (appendUint16 (word_of_nat (length cols)))) = length cols"
    using assms(2) by (simp add: uint16_append unat_of_nat columns_fit_def)
  have "\<forall>e \<in> set cols. minColSizeV2 \<le> length (marshalColumn e)" using assms(2) column_length by (auto simp: columns_fit_def)
  then have "minColSizeV2 * length cols \<le> length (concat (map marshalColumn cols) @ rest)" for rest
    using concat_length [of cols minColSizeV2 marshalColumn] by (simp add: trans_le_add1)
  then have k: "checkCount (length cols) (length (concat (map marshalColumn cols) @ rest)) minColSizeV2 = Inr ()" for rest
    by (rule count_fits) (simp add: minColSizeV2_def)
  have "\<forall>e \<in> set cols. reads takeColumn (marshalColumn e) e" using assms(2) reads_column by (auto simp: columns_fit_def)
  then have "takeMany takeColumn (length cols) (concat (map marshalColumn cols) @ rest) [] = Inr (cols, rest)" for rest
    using takeMany_reads [of cols takeColumn marshalColumn rest "[]"] fold_mput_append [of "[]" cols] assms(2) by (simp add: columns_fit_def)
  then show ?thesis
    using readsD [OF reads_key [OF assms(1)]] c k
    by (simp add: reads_def takeEntryV2_def marshalEntry_def takeBytes_append del: length_append)
qed

section \<open>The whole index\<close>

lemma entry_length: "minEntrySizeV2 \<le> length (marshalEntry e)"
  by (cases e) (simp add: marshalEntry_def minEntrySizeV2_def)

lemma unmarshalRest_Marshal:
  assumes "index_fits idx"
  shows "unmarshalRest (Marshal idx @ rest) = Inr (idx, rest)"
proof -
  let ?es = "concat (map marshalEntry idx) @ rest"
  let ?n = "appendUint32 (word_of_nat (length idx))"
  have d: "take 4 (drop 1 (Marshal idx @ rest)) = ?n" "drop 5 (Marshal idx @ rest) = ?es" "hd (Marshal idx @ rest) = 2"
    "length (Marshal idx @ rest) = 5 + length ?es"
    by (simp_all add: Marshal_def indexVersion_def)
  have c: "unat (uint32 ?n) = length idx"
    using assms by (simp add: uint32_append unat_of_nat index_fits_def maxIndexEntries_def)
  have "minEntrySizeV2 * length idx \<le> length ?es"
    using concat_length [of idx minEntrySizeV2 marshalEntry] entry_length by (simp add: trans_le_add1)
  then have k: "checkCount (length idx) (length ?es) minEntrySizeV2 = Inr ()"
    by (rule count_fits) (simp add: minEntrySizeV2_def)
  have "\<forall>e \<in> set idx. reads takeEntryV2 (marshalEntry e) e" using assms reads_entry by (auto simp: index_fits_def)
  then have "takeMany takeEntryV2 (length idx) ?es [] = Inr (idx, rest)"
    using takeMany_reads [of idx takeEntryV2 marshalEntry rest "[]"] fold_mput_append [of "[]" idx] assms by (simp add: index_fits_def)
  then have "unmarshalV2 (Marshal idx @ rest) = Inr (idx, rest)"
    using assms unfolding unmarshalV2_def unmarshalEntries_def d Let_def c by (simp add: k index_fits_def del: length_append)
  then show ?thesis unfolding unmarshalRest_def d by simp
qed

lemma unmarshalEntries_extend:
  assumes "stable item" "5 \<le> length bs" "unmarshalEntries k item bs = Inr (v, rest)"
  shows "unmarshalEntries k item (bs @ ext) = Inr (v, rest @ ext)"
proof -
  let ?n = "unat (uint32 (take 4 (drop 1 bs)))"
  have e: "take 4 (drop 1 (bs @ ext)) = take 4 (drop 1 bs)" "drop 5 (bs @ ext) = drop 5 bs @ ext"
    "length (bs @ ext) - 5 = length (drop 5 bs @ ext)" "length bs - 5 = length (drop 5 bs)"
    using assms(2) by simp_all
  have s: "stable (\<lambda>bs. bindE (checkCount ?n (length bs) k) (\<lambda>_. takeMany item ?n bs []))"
    by (rule stable_check [OF stable_takeMany [OF assms(1)]])
  show ?thesis
    using assms(3) s [unfolded stable_def, rule_format, of "drop 5 bs" v rest ext]
    unfolding unmarshalEntries_def e Let_def by (simp split: if_splits)
qed

lemma unmarshalRest_extend:
  assumes "unmarshalRest bs = Inr (v, rest)"
  shows "unmarshalRest (bs @ ext) = Inr (v, rest @ ext)"
proof -
  have l: "5 \<le> length bs" using assms by (simp add: unmarshalRest_def split: if_splits)
  then have h: "hd (bs @ ext) = hd bs" by (cases bs) simp_all
  from assms consider "hd bs = 1" "unmarshalV1 bs = Inr (v, rest)" | "hd bs = 2" "unmarshalV2 bs = Inr (v, rest)"
    by (auto simp: unmarshalRest_def split: if_splits)
  then show ?thesis
  proof cases
    case 1
    then show ?thesis using unmarshalEntries_extend [OF stable_takeEntry(1) l] l h by (simp add: unmarshalRest_def unmarshalV1_def)
  next
    case 2
    then show ?thesis using unmarshalEntries_extend [OF stable_takeEntry(2) l] l h by (simp add: unmarshalRest_def unmarshalV2_def)
  qed
qed

interpretation ix: codec index_fits Marshal unmarshalRest
  by unfold_locales (fact unmarshalRest_Marshal, fact unmarshalRest_extend)

section \<open>What a decoded index is like\<close>

lemma takeFilter_ok: "takeFilter bs = Inr (f, rest) \<Longrightarrow> filter_ok f"
proof -
  have "filter_ok f" if "UnmarshalFilter d = Inr f" for d
  proof -
    have "2 \<le> length d" "f = \<lparr>bf_bits = tl d, bf_numHash = hd d\<rparr>" using that by (auto simp: UnmarshalFilter_def split: if_splits)
    then show ?thesis by (cases d) (auto simp: filter_ok_def)
  qed
  then show "takeFilter bs = Inr (f, rest) \<Longrightarrow> filter_ok f" by (auto simp: takeFilter_def bindE_Inr)
qed

text \<open>A loop whose items all have a property builds a map with that property, no longer than its count.\<close>

lemma takeMany_ok:
  assumes "\<forall>bs k v rest. item bs = Inr ((k, v), rest) \<longrightarrow> P v" "wfmap m" "\<forall>(k, v) \<in> set m. P v" "takeMany item n bs m = Inr (m', rest)"
  shows "wfmap m' \<and> length m' \<le> length m + n \<and> (\<forall>(k, v) \<in> set m'. P v)"
  using assms(2-4)
proof (induction n arbitrary: bs m)
  case (Suc n)
  from Suc.prems(3) obtain k v bs' where i: "item bs = Inr ((k, v), bs')" and r: "takeMany item n bs' (mput k v m) = Inr (m', rest)"
    by (auto simp: bindE_Inr)
  have "length (mput k v m) \<le> length m + 1" by (induction m) auto
  moreover have "\<forall>(k, v) \<in> set (mput k v m). P v"
  proof -
    have "set (mput k v m) \<subseteq> insert (k, v) (set m)" by (induction m) auto
    moreover have "P v" using assms(1) i by blast
    ultimately show ?thesis using Suc.prems(2) by auto
  qed
  ultimately show ?case using Suc.IH [OF wfmap_mput [OF Suc.prems(1)] _ r] by auto
qed auto

lemma takeEntry_ok: "takeEntryV1 bs = Inr ((k, cols), rest) \<or> takeEntryV2 bs = Inr ((k, cols), rest) \<Longrightarrow> columns_ok cols"
proof (elim disjE)
  show "takeEntryV1 bs = Inr ((k, cols), rest) \<Longrightarrow> columns_ok cols"
    by (auto simp: takeEntryV1_def bindE_Inr columns_ok_def dest: takeFilter_ok split: if_splits)
  assume "takeEntryV2 bs = Inr ((k, cols), rest)"
  then obtain n bs' where t: "takeMany takeColumn n bs' [] = Inr (cols, rest)" by (auto simp: takeEntryV2_def bindE_Inr)
  have "\<forall>xs c f ys. takeColumn xs = Inr ((c, f), ys) \<longrightarrow> filter_ok f" by (auto simp: takeColumn_def bindE_Inr dest: takeFilter_ok)
  from takeMany_ok [OF this _ _ t] show "columns_ok cols" by (auto simp: columns_ok_def dest: map_of_SomeD)
qed

lemma unmarshalEntries_ok:
  assumes "\<forall>bs k v rest. item bs = Inr ((k, v), rest) \<longrightarrow> columns_ok v" "unmarshalEntries s item bs = Inr (idx, rest)"
  shows "bloom_ok idx \<and> length idx \<le> min maxIndexEntries ((length bs - 5) div s)"
proof -
  let ?n = "unat (uint32 (take 4 (drop 1 bs)))"
  have n: "?n \<le> maxIndexEntries" "?n \<le> (length bs - 5) div s" and t: "takeMany item ?n (drop 5 bs) [] = Inr (idx, rest)"
    using assms(2) by (auto simp: unmarshalEntries_def Let_def bindE_Inr checkCount_def split: if_splits)
  have "wfmap idx \<and> length idx \<le> ?n \<and> (\<forall>(k, v) \<in> set idx. columns_ok v)"
    using takeMany_ok [OF assms(1) _ _ t] by simp
  then show ?thesis using n by (auto simp: bloom_ok_def columns_ok_def dest: map_of_SomeD)
qed

lemma Unmarshal_ok:
  assumes "Unmarshal bs = Inr idx"
  shows "bloom_ok idx \<and> length idx \<le> maxIndexEntries \<and> 4 * length idx \<le> length bs - 5"
proof -
  have v1: "\<forall>bs k v rest. takeEntryV1 bs = Inr ((k, v), rest) \<longrightarrow> columns_ok v" using takeEntry_ok by blast
  have v2: "\<forall>bs k v rest. takeEntryV2 bs = Inr ((k, v), rest) \<longrightarrow> columns_ok v" using takeEntry_ok by blast
  obtain rest where "unmarshalRest bs = Inr (idx, rest)" using assms by (auto simp: Unmarshal_def bindE_Inr)
  then consider "unmarshalV1 bs = Inr (idx, rest)" | "unmarshalV2 bs = Inr (idx, rest)"
    by (auto simp: unmarshalRest_def split: if_splits)
  then have "bloom_ok idx \<and> length idx \<le> maxIndexEntries \<and> length idx \<le> (length bs - 5) div 4"
  proof cases
    case 1
    then have "bloom_ok idx \<and> length idx \<le> min maxIndexEntries ((length bs - 5) div 8)"
      using unmarshalEntries_ok [OF v1, of 8 bs idx rest] by (simp add: unmarshalV1_def minEntrySizeV1_def)
    moreover have "(length bs - 5) div 8 \<le> (length bs - 5) div 4" by (rule div_le_mono2) simp_all
    ultimately show ?thesis by simp
  next
    case 2
    then show ?thesis
      using unmarshalEntries_ok [OF v2, of 4 bs idx rest] by (simp add: unmarshalV2_def minEntrySizeV2_def)
  qed
  then show ?thesis by (simp add: less_eq_div_iff_mult_less_eq mult.commute)
qed

lemma Unmarshal_Marshal: "index_fits idx \<Longrightarrow> Unmarshal (Marshal idx) = Inr idx"
  using ix.dec_enc [of idx "[]"] by (simp add: Unmarshal_def)

lemma Unmarshal_truncated: "index_fits idx \<Longrightarrow> n < length (Marshal idx) \<Longrightarrow> \<exists>e. Unmarshal (take n (Marshal idx)) = Inl e"
  using ix.truncated by (fastforce simp: Unmarshal_def)

end
