(* ===== verification/BloomTier.thy ===== *)
theory BloomTier
  imports BloomCodec Freeze TombKeys
begin

text \<open>
  The age tiers of the bloom metadata and their cache: \<open>src/internal/bloomindex/tiering.go\<close>,
  \<open>cache.go\<close> and \<open>metadata_compactor.go\<close>. With age an index goes from filters per row group to filters per file,
  to one summary per partition, to nothing. The loader of the cache, the upload of a downgraded
  index and the clock are parameters; SHA-256 is a function of the bytes, \<open>sum256\<close>.
\<close>

section \<open>Tiers\<close>

datatype tier = TierHot | TierWarm | TierCold | TierArchive

record tierConfig =
  tc_Tier1MaxAge :: int
  tc_Tier2MaxAge :: int
  tc_Tier3MaxAge :: int

definition DefaultTierConfig :: tierConfig where
  "DefaultTierConfig = \<lparr>tc_Tier1MaxAge = 7 * 24 * hour, tc_Tier2MaxAge = 30 * 24 * hour, tc_Tier3MaxAge = 90 * 24 * hour\<rparr>"

datatype tierError = Tier1NotBelowTier2 | Tier2NotBelowTier3

definition tierValidate :: "tierConfig \<Rightarrow> tierError option" where
  "tierValidate c =
     (if tc_Tier1MaxAge c \<ge> tc_Tier2MaxAge c then Some Tier1NotBelowTier2
      else if tc_Tier2MaxAge c \<ge> tc_Tier3MaxAge c then Some Tier2NotBelowTier3 else None)"

record tierOverride =
  to_Tier1MaxAge :: "int option"
  to_Tier2MaxAge :: "int option"
  to_Tier3MaxAge :: "int option"

definition ApplyOverride :: "tierOverride \<Rightarrow> tierConfig \<Rightarrow> tierConfig" where
  "ApplyOverride ov c =
     \<lparr>tc_Tier1MaxAge = (case to_Tier1MaxAge ov of None \<Rightarrow> tc_Tier1MaxAge c | Some a \<Rightarrow> a),
      tc_Tier2MaxAge = (case to_Tier2MaxAge ov of None \<Rightarrow> tc_Tier2MaxAge c | Some a \<Rightarrow> a),
      tc_Tier3MaxAge = (case to_Tier3MaxAge ov of None \<Rightarrow> tc_Tier3MaxAge c | Some a \<Rightarrow> a)\<rparr>"

definition TierForAge :: "int \<Rightarrow> tierConfig \<Rightarrow> tier" where
  "TierForAge age cfg =
     (if age < tc_Tier1MaxAge cfg then TierHot
      else if age < tc_Tier2MaxAge cfg then TierWarm
      else if age < tc_Tier3MaxAge cfg then TierCold else TierArchive)"

section \<open>Row-group keys\<close>

definition PerRGKey :: "string \<Rightarrow> nat \<Rightarrow> string" where
  "PerRGKey fileKey rg = fileKey @ ''#'' @ formatDec rg"

text \<open>\<open>strconv.Atoi\<close>: an optional sign, at least one digit, a value of 64 bits.\<close>

definition atoi :: "string \<Rightarrow> int option" where
  "atoi s =
     (let (neg, d) = (case s of c # cs \<Rightarrow> if c = CHR ''-'' then (True, cs) else if c = CHR ''+'' then (False, cs) else (False, s) | [] \<Rightarrow> (False, []))
      in if d = [] \<or> \<not> list_all digit d then None
         else let n = (if neg then - digits d else digits d)
              in if - (2 ^ 63) \<le> n \<and> n < 2 ^ 63 then Some n else None)"

definition ParseRGKey :: "string \<Rightarrow> (string \<times> int) option" where
  "ParseRGKey key =
     (if CHR ''#'' \<notin> set key then None
      else let after = rev (takeWhile (\<lambda>c. c \<noteq> CHR ''#'') (rev key))
           in map_option (\<lambda>rg. (take (length key - length after - 1) key, rg)) (atoi after))"

section \<open>Downgrades\<close>

text \<open>The filters of one column of one target, each with the key it comes from, in iteration order.\<close>

type_synonym filterGroups = "(string, (string, (string \<times> bloomFilter) list) gomap) gomap"

definition addFilter :: "string \<Rightarrow> string \<Rightarrow> string \<Rightarrow> bloomFilter \<Rightarrow> filterGroups \<Rightarrow> filterGroups" where
  "addFilter target key col f gs =
     (let cols = (case mget gs target of None \<Rightarrow> [] | Some c \<Rightarrow> c);
          fs = (case mget cols col of None \<Rightarrow> [] | Some l \<Rightarrow> l)
      in mput target (mput col (fs @ [(key, f)]) cols) gs)"

definition groupFilters :: "(string \<Rightarrow> string) \<Rightarrow> bloomIndex \<Rightarrow> filterGroups" where
  "groupFilters targetOf idx = fold (\<lambda>(key, cols). fold (\<lambda>(col, f). addFilter (targetOf key) key col f) cols) idx []"

text \<open>The union is made in the first filter of the group, which still belongs to the index it was read from.\<close>

definition unionOf :: "(string \<times> bloomFilter) list \<Rightarrow> bloomFilter" where
  "unionOf fs = fold (\<lambda>(key, f) u. filterMergeFrom f u) (tl fs) (snd (hd fs))"

definition mergeGroups :: "filterGroups \<Rightarrow> bloomIndex \<times> bloomIndex \<Rightarrow> bloomIndex \<times> bloomIndex" where
  "mergeGroups gs st =
     fold (\<lambda>(target, cols). fold (\<lambda>(col, fs) (merged, idx).
         (indexAdd target col (unionOf fs) merged, indexAdd (fst (hd fs)) col (unionOf fs) idx)) cols) gs st"

definition fileOf :: "string \<Rightarrow> string" where
  "fileOf key = (case ParseRGKey key of None \<Rightarrow> key | Some (fileKey, rg) \<Rightarrow> fileKey)"

definition DowngradeToPerFile :: "bloomIndex \<Rightarrow> bloomIndex \<times> bloomIndex" where
  "DowngradeToPerFile idx = mergeGroups (groupFilters fileOf idx) ([], idx)"

definition SummaryKey :: string where "SummaryKey = ''summary''"

definition DowngradeToSummary :: "bloomIndex \<Rightarrow> bloomIndex \<times> bloomIndex" where
  "DowngradeToSummary idx = mergeGroups (groupFilters (\<lambda>key. SummaryKey) idx) ([], idx)"

definition UnionLabels :: "(string, string list) gomap list \<Rightarrow> (string, string list) gomap" where
  "UnionLabels hourly =
     fold (fold (\<lambda>(col, vals) result. fold (\<lambda>v result.
         let old = (case mget result col of None \<Rightarrow> [] | Some vs \<Rightarrow> vs)
         in if v \<in> set old then result else mput col (old @ [v]) result) vals result)) hourly []"

section \<open>Checksums\<close>

definition checksumSize :: nat where "checksumSize = 32"

datatype checksumError = CShort | CMismatch | CDecode bloomError

definition MarshalWithChecksum :: "(bytes \<Rightarrow> bytes) \<Rightarrow> bloomIndex \<Rightarrow> bytes" where
  "MarshalWithChecksum sum256 idx = (let data = Marshal idx in data @ sum256 data)"

definition UnmarshalWithChecksum :: "(bytes \<Rightarrow> bytes) \<Rightarrow> bytes \<Rightarrow> checksumError + bloomIndex" where
  "UnmarshalWithChecksum sum256 data =
     (if length data < checksumSize + 5 then Inl CShort
      else let payload = take (length data - checksumSize) data; stored = drop (length data - checksumSize) data
           in if stored \<noteq> sum256 payload then Inl CMismatch
              else case Unmarshal payload of Inl e \<Rightarrow> Inl (CDecode e) | Inr idx \<Rightarrow> Inr idx)"

section \<open>The cache\<close>

record cacheEntry =
  ce_idx :: bloomIndex
  ce_size :: nat
  ce_lastUsed :: int

record bloomCache =
  bc_entries :: "(string, cacheEntry) gomap"
  bc_maxSize :: int

definition currentSizeLocked :: "(string, cacheEntry) gomap \<Rightarrow> nat" where
  "currentSizeLocked es = sum_list (map (\<lambda>(k, e). ce_size e) es)"

definition oldestKey :: "(string, cacheEntry) gomap \<Rightarrow> string" where
  "oldestKey es = fst (fold (\<lambda>(k, e) (ok, ot). if ce_lastUsed e < ot then (k, ce_lastUsed e) else (ok, ot)) (tl es)
       (fst (hd es), ce_lastUsed (snd (hd es))))"

lemma oldestKey_in: "es \<noteq> [] \<Longrightarrow> oldestKey es \<in> set (mkeys es)"
proof -
  have "fst (fold (\<lambda>(k, e) (ok, ot). if ce_lastUsed e < ot then (k, ce_lastUsed e) else (ok, ot)) es (k0, t0)) \<in> insert k0 (set (mkeys es))"
    for es :: "(string, cacheEntry) gomap" and k0 t0
    by (induction es arbitrary: k0 t0) (auto, blast+)
  then show "es \<noteq> [] \<Longrightarrow> oldestKey es \<in> set (mkeys es)" by (cases es) (auto simp: oldestKey_def)
qed

lemma length_mdel: "k \<in> set (mkeys m) \<Longrightarrow> length (mdel k m) < length m"
proof (induction m)
  case (Cons e m)
  have "length (mdel k m) \<le> length m" by (induction m) auto
  then show ?case using Cons by (cases e) auto
qed simp

function evictLocked :: "nat \<Rightarrow> int \<Rightarrow> (string, cacheEntry) gomap \<Rightarrow> (string, cacheEntry) gomap" where
  "evictLocked needed maxSize es =
     (if int (currentSizeLocked es + needed) > maxSize \<and> es \<noteq> [] then evictLocked needed maxSize (mdel (oldestKey es) es) else es)"
  by auto
termination
proof (relation "measure (\<lambda>(needed, maxSize, es). length es)", goal_cases)
  case (2 needed maxSize es)
  then show ?case using length_mdel [OF oldestKey_in, of es] by simp
qed simp

declare evictLocked.simps [simp del]

definition cachePut :: "int \<Rightarrow> string \<Rightarrow> bloomIndex \<Rightarrow> bloomCache \<Rightarrow> bloomCache" where
  "cachePut now part idx c =
     (let size = length (Marshal idx)
      in c\<lparr>bc_entries := mput part \<lparr>ce_idx = idx, ce_size = size, ce_lastUsed = now\<rparr> (evictLocked size (bc_maxSize c) (bc_entries c))\<rparr>)"

type_synonym 'e loader = "string \<Rightarrow> 'e + bloomIndex option"

definition cacheGet :: "'e loader option \<Rightarrow> int \<Rightarrow> string \<Rightarrow> bloomCache \<Rightarrow> ('e + bloomIndex option) \<times> bloomCache" where
  "cacheGet loader now part c =
     (case mget (bc_entries c) part of
        Some e \<Rightarrow> (Inr (Some (ce_idx e)), c\<lparr>bc_entries := mput part (e\<lparr>ce_lastUsed := now\<rparr>) (bc_entries c)\<rparr>)
      | None \<Rightarrow>
          (case loader of
             None \<Rightarrow> (Inr None, c)
           | Some load \<Rightarrow>
               (case load part of
                  Inl e \<Rightarrow> (Inl e, c)
                | Inr None \<Rightarrow> (Inr None, c)
                | Inr (Some idx) \<Rightarrow> (Inr (Some idx), cachePut now part idx c))))"

definition cacheInvalidate :: "string \<Rightarrow> bloomCache \<Rightarrow> bloomCache" where
  "cacheInvalidate part c = c\<lparr>bc_entries := mdel part (bc_entries c)\<rparr>"

text \<open>\<open>done i\<close> is whether the context is done before the i-th partition.\<close>

fun cacheWarm :: "'e loader option \<Rightarrow> (nat \<Rightarrow> int) \<Rightarrow> (nat \<Rightarrow> 'e option) \<Rightarrow> nat \<Rightarrow> string list \<Rightarrow> bloomCache \<Rightarrow> 'e option \<times> bloomCache" where
  "cacheWarm loader now ctxErr i [] c = (None, c)"
| "cacheWarm loader now ctxErr i (p # ps) c =
     (case ctxErr i of
        Some e \<Rightarrow> (Some e, c)
      | None \<Rightarrow>
          (case cacheGet loader (now i) p c of
             (Inl e, c') \<Rightarrow> (Some e, c')
           | (Inr r, c') \<Rightarrow> cacheWarm loader now ctxErr (Suc i) ps c'))"

section \<open>Moving a partition to its tier\<close>

definition hasPerRGEntries :: "bloomIndex \<Rightarrow> bool" where
  "hasPerRGEntries idx \<longleftrightarrow> list_ex (\<lambda>(key, cols). ParseRGKey key \<noteq> None) idx"

type_synonym 'e persist = "string \<Rightarrow> bytes \<Rightarrow> 'e option"

definition persistAndKeep :: "'e persist option \<Rightarrow> int \<Rightarrow> string \<Rightarrow> bloomIndex \<Rightarrow> bloomCache \<Rightarrow> 'e option \<times> bloomCache" where
  "persistAndKeep persistFn now part merged c =
     (let c' = cachePut now part merged c
      in case persistFn of None \<Rightarrow> (None, c') | Some up \<Rightarrow> (up part (Marshal merged), c'))"

text \<open>The downgrade ORs into filters of the cached index before that entry is replaced; \<open>setCached\<close> is that effect.\<close>

definition setCached :: "string \<Rightarrow> bloomIndex \<Rightarrow> bloomCache \<Rightarrow> bloomCache" where
  "setCached part idx c =
     (case mget (bc_entries c) part of None \<Rightarrow> c | Some e \<Rightarrow> c\<lparr>bc_entries := mput part (e\<lparr>ce_idx := idx\<rparr>) (bc_entries c)\<rparr>)"

definition downgradeToPerFile :: "'e persist option \<Rightarrow> int \<Rightarrow> string \<Rightarrow> bloomIndex \<Rightarrow> bloomCache \<Rightarrow> 'e option \<times> bloomCache" where
  "downgradeToPerFile persistFn now part idx c =
     (if \<not> hasPerRGEntries idx then (None, c)
      else case DowngradeToPerFile idx of (merged, idx') \<Rightarrow> persistAndKeep persistFn now part merged (setCached part idx' c))"

definition downgradeToSummary :: "'e persist option \<Rightarrow> int \<Rightarrow> string \<Rightarrow> bloomIndex \<Rightarrow> bloomCache \<Rightarrow> 'e option \<times> bloomCache" where
  "downgradeToSummary persistFn now part idx c =
     (if indexLen idx \<le> 1 then (None, c)
      else case DowngradeToSummary idx of (summary, idx') \<Rightarrow> persistAndKeep persistFn now part summary (setCached part idx' c))"

definition CompactPartition ::
    "tierConfig \<Rightarrow> 'e loader option \<Rightarrow> 'e persist option \<Rightarrow> int \<Rightarrow> int \<Rightarrow> string \<Rightarrow> int \<Rightarrow> bloomCache \<Rightarrow> 'e option \<times> bloomCache" where
  "CompactPartition cfg loader persistFn getNow putNow part age c =
     (case cacheGet loader getNow part c of
        (Inl e, c1) \<Rightarrow> (Some e, c1)
      | (Inr None, c1) \<Rightarrow> (None, c1)
      | (Inr (Some idx), c1) \<Rightarrow>
          (case TierForAge age cfg of
             TierWarm \<Rightarrow> downgradeToPerFile persistFn putNow part idx c1
           | TierCold \<Rightarrow> downgradeToSummary persistFn putNow part idx c1
           | TierArchive \<Rightarrow> (None, cacheInvalidate part c1)
           | TierHot \<Rightarrow> (None, c1)))"

end
