(* ===== verification/BloomTierProofs.thy ===== *)
theory BloomTierProofs
  imports BloomTier
begin

text \<open>
  The bloom cache stays within its budget and evicts the least recently used entry; a downgrade of filters of
  one shape loses no value.
\<close>

section \<open>Eviction\<close>

lemma oldestKey_least:
  assumes "es \<noteq> []" "wfmap es"
  shows "\<exists>e. mget es (oldestKey es) = Some e \<and> (\<forall>(k, e') \<in> set es. ce_lastUsed e \<le> ce_lastUsed e')"
proof -
  let ?step = "\<lambda>(k, e) (ok, ot). if ce_lastUsed e < ot then (k, ce_lastUsed e) else (ok, ot)"
  have step: "\<exists>e. (k, e) \<in> insert (k0, e0) (set es) \<and> t = ce_lastUsed e \<and> (\<forall>(k, e') \<in> insert (k0, e0) (set es). t \<le> ce_lastUsed e')"
    if "fold ?step es (k0, ce_lastUsed e0) = (k, t)" for es :: "(string, cacheEntry) gomap" and k0 e0 k t
    using that
  proof (induction es arbitrary: k0 e0)
    case (Cons x es)
    obtain k1 e1 where x: "x = (k1, e1)" by (cases x)
    show ?case
    proof (cases "ce_lastUsed e1 < ce_lastUsed e0")
      case True
      then show ?thesis using Cons.IH [of k1 e1] Cons.prems x by fastforce
    next
      case False
      then show ?thesis using Cons.IH [of k0 e0] Cons.prems x by fastforce
    qed
  qed auto
  obtain k0 e0 es' where es: "es = (k0, e0) # es'" using assms(1) by (cases es) auto
  obtain k t where r: "fold ?step es' (k0, ce_lastUsed e0) = (k, t)" by fastforce
  then have k: "oldestKey es = k" by (simp add: oldestKey_def es)
  obtain e where "(k, e) \<in> set es" "t = ce_lastUsed e" "\<forall>(k, e') \<in> set es. t \<le> ce_lastUsed e'"
    using step [OF r] es by auto
  then show ?thesis using k assms(2) by (auto simp: mget_in [symmetric])
qed

text \<open>What an eviction keeps and what it takes out.\<close>

definition evicted :: "(string, cacheEntry) gomap \<Rightarrow> (string, cacheEntry) gomap \<Rightarrow> bool" where
  "evicted es es' \<longleftrightarrow> wfmap es' \<and> set es' \<subseteq> set es
     \<and> (\<forall>x \<in> set es - set es'. \<forall>y \<in> set es'. ce_lastUsed (snd x) \<le> ce_lastUsed (snd y))"

lemma evicted_insert:
  assumes "evicted es' r" "set es = insert (k, e) (set es')" "\<forall>y \<in> set es'. ce_lastUsed e \<le> ce_lastUsed (snd y)"
  shows "evicted es r"
proof -
  have r: "wfmap r" "set r \<subseteq> set es'" "\<forall>x \<in> set es' - set r. \<forall>y \<in> set r. ce_lastUsed (snd x) \<le> ce_lastUsed (snd y)"
    using assms(1) by (simp_all add: evicted_def)
  have "ce_lastUsed (snd x) \<le> ce_lastUsed (snd y)" if "x \<in> set es - set r" "y \<in> set r" for x y
  proof (cases "x = (k, e)")
    case True
    then show ?thesis using assms(3) r(2) that(2) by auto
  next
    case False
    then show ?thesis using r(3) that assms(2) by blast
  qed
  then show ?thesis using r(1, 2) assms(2) by (auto simp: evicted_def)
qed

lemma set_mdel: "set (mdel k m) = {(k', v) \<in> set m. k' \<noteq> k}"
  by (induction m) auto

lemma evictLocked_ok:
  assumes "wfmap es"
  shows "evicted es (evictLocked needed maxSize es)
    \<and> (int (currentSizeLocked (evictLocked needed maxSize es) + needed) \<le> maxSize \<or> evictLocked needed maxSize es = [])"
  using assms
proof (induction needed maxSize es rule: evictLocked.induct)
  case (1 needed maxSize es)
  show ?case
  proof (cases "int (currentSizeLocked es + needed) > maxSize \<and> es \<noteq> []")
    case True
    let ?es = "mdel (oldestKey es) es"
    obtain e where e: "mget es (oldestKey es) = Some e" "\<forall>(k, e') \<in> set es. ce_lastUsed e \<le> ce_lastUsed e'"
      using oldestKey_least True "1.prems" by blast
    have "(oldestKey es, e) \<in> set es" using e(1) by (rule map_of_SomeD)
    moreover have "v = e" if "(oldestKey es, v) \<in> set es" for v using that e(1) mget_in [OF "1.prems"] by (metis option.inject)
    ultimately have s: "set es = insert (oldestKey es, e) (set ?es)" unfolding set_mdel by blast
    have ih: "evicted ?es (evictLocked needed maxSize ?es)" using "1.IH" [OF True wfmap_mdel [OF "1.prems"]] by blast
    have "\<forall>y \<in> set ?es. ce_lastUsed e \<le> ce_lastUsed (snd y)" using e(2) s by (metis (mono_tags, lifting) case_prod_beta' insertCI)
    then have "evicted es (evictLocked needed maxSize ?es)" by (rule evicted_insert [OF ih s])
    then show ?thesis using "1.IH" [OF True wfmap_mdel [OF "1.prems"]] True by (simp add: evictLocked.simps [of needed maxSize es])
  next
    case False
    then show ?thesis using "1.prems" by (auto simp: evictLocked.simps [of needed maxSize es] evicted_def)
  qed
qed

section \<open>The budget\<close>

definition cache_ok :: "bloomCache \<Rightarrow> bool" where
  "cache_ok c \<longleftrightarrow> wfmap (bc_entries c) \<and> (int (currentSizeLocked (bc_entries c)) \<le> bc_maxSize c \<or> length (bc_entries c) \<le> 1)"

lemma size_mput: "currentSizeLocked (mput k e es) \<le> currentSizeLocked es + ce_size e"
  by (induction es) (auto simp: currentSizeLocked_def)

lemma size_mput_same: "mget es k = Some e \<Longrightarrow> ce_size e' = ce_size e \<Longrightarrow> currentSizeLocked (mput k e' es) = currentSizeLocked es"
  by (induction es) (auto simp: currentSizeLocked_def split: if_splits)

lemma length_mput_same: "mget es k = Some e \<Longrightarrow> length (mput k e' es) = length es"
  by (induction es) (auto split: if_splits)

lemma size_mdel: "currentSizeLocked (mdel k es) \<le> currentSizeLocked es"
  by (induction es) (auto simp: currentSizeLocked_def)

lemma length_mdel_le: "length (mdel k es) \<le> length es"
  by (induction es) auto

lemma cachePut_ok:
  assumes "cache_ok c"
  shows "cache_ok (cachePut now part idx c) \<and> mget (bc_entries (cachePut now part idx c)) part = Some \<lparr>ce_idx = idx, ce_size = length (Marshal idx), ce_lastUsed = now\<rparr>"
proof -
  let ?n = "length (Marshal idx)" and ?es = "evictLocked (length (Marshal idx)) (bc_maxSize c) (bc_entries c)"
  have v: "wfmap ?es" "int (currentSizeLocked ?es + ?n) \<le> bc_maxSize c \<or> ?es = []"
    using evictLocked_ok [of "bc_entries c"] assms by (auto simp: cache_ok_def evicted_def)
  have "currentSizeLocked (mput part e ?es) \<le> currentSizeLocked ?es + ce_size e" for e by (rule size_mput)
  from this [of "\<lparr>ce_idx = idx, ce_size = ?n, ce_lastUsed = now\<rparr>"] show ?thesis
    using v wfmap_mput [OF v(1)] by (auto simp: cachePut_def Let_def cache_ok_def go_map)
qed

lemma cache_ok_touch:
  assumes "cache_ok c" "mget (bc_entries c) part = Some e" "ce_size e' = ce_size e"
  shows "cache_ok (c\<lparr>bc_entries := mput part e' (bc_entries c)\<rparr>)"
  using assms(1) unfolding cache_ok_def
  by (simp add: size_mput_same [OF assms(2, 3)] length_mput_same [OF assms(2)] wfmap_mput)

lemma cacheGet_ok: "cache_ok c \<Longrightarrow> cache_ok (snd (cacheGet loader now part c))"
  unfolding cacheGet_def by (auto simp: cachePut_ok intro: cache_ok_touch split: option.splits sum.splits)

lemma cacheInvalidate_ok: "cache_ok c \<Longrightarrow> cache_ok (cacheInvalidate part c)"
  using size_mdel [of part "bc_entries c"] length_mdel_le [of part "bc_entries c"] wfmap_mdel [of "bc_entries c" part]
  by (auto simp: cache_ok_def cacheInvalidate_def)

lemma setCached_ok: "cache_ok c \<Longrightarrow> cache_ok (setCached part idx c)"
  unfolding setCached_def by (auto intro: cache_ok_touch split: option.splits)

lemma persistAndKeep_ok: "cache_ok c \<Longrightarrow> cache_ok (snd (persistAndKeep persistFn now part merged c))"
  by (auto simp: persistAndKeep_def Let_def cachePut_ok split: option.splits)

lemma CompactPartition_ok:
  assumes "cache_ok c"
  shows "cache_ok (snd (CompactPartition cfg loader persistFn g p part age c))"
proof -
  obtain r c1 where r: "cacheGet loader g part c = (r, c1)" by (cases "cacheGet loader g part c")
  then have "cache_ok c1" using cacheGet_ok [OF assms, of loader g part] by simp
  then show ?thesis
    by (auto simp: CompactPartition_def r downgradeToPerFile_def downgradeToSummary_def persistAndKeep_ok setCached_ok cacheInvalidate_ok
        split: sum.splits option.splits tier.splits prod.splits)
qed

section \<open>The union of a group\<close>

definition uniform :: "(string \<times> bloomFilter) list \<Rightarrow> bool" where
  "uniform fs \<longleftrightarrow> (\<forall>x \<in> set fs. \<forall>y \<in> set fs. shape (snd x) = shape (snd y))"

lemma fold_merge_ok:
  assumes "\<forall>x \<in> set fs. shape (snd x) = shape u"
  shows "shape (fold (\<lambda>(key, f) u. filterMergeFrom f u) fs u) = shape u
    \<and> (holds u v \<or> (\<exists>x \<in> set fs. holds (snd x) v) \<longrightarrow> holds (fold (\<lambda>(key, f) u. filterMergeFrom f u) fs u) v)"
  using assms
proof (induction fs arbitrary: u)
  case (Cons x fs)
  obtain k f where x: "x = (k, f)" by (cases x)
  have s: "shape u = shape f" using Cons.prems x by simp
  have "shape (filterMergeFrom f u) = shape u" by (rule filterMerge_ok(1) [OF s])
  moreover have "holds u v \<or> holds f v \<Longrightarrow> holds (filterMergeFrom f u) v" by (rule filterMerge_ok(2) [OF s])
  ultimately show ?case using Cons.IH [of "filterMergeFrom f u"] Cons.prems x by auto
qed simp

lemma unionOf_ok:
  assumes "uniform fs" "(k, f) \<in> set fs"
  shows "shape (unionOf fs) = shape f" "holds f v \<Longrightarrow> holds (unionOf fs) v"
proof -
  obtain k0 f0 fs' where fs: "fs = (k0, f0) # fs'" using assms(2) by (cases fs) auto
  have "shape (snd x) = shape f0" if "x \<in> set fs" for x
    using assms(1) that fs unfolding uniform_def by (metis list.set_intros(1) snd_conv)
  then have a: "\<forall>x \<in> set fs'. shape (snd x) = shape f0" "shape f = shape f0" using assms(2) fs by fastforce+
  note m = fold_merge_ok [OF a(1), of v]
  show "shape (unionOf fs) = shape f" using m a(2) by (simp add: unionOf_def fs)
  assume "holds f v"
  then have "holds f0 v \<or> (\<exists>x \<in> set fs'. holds (snd x) v)" using assms(2) fs by force
  then show "holds (unionOf fs) v" using m by (simp add: unionOf_def fs)
qed

section \<open>Grouping\<close>

definition groupAt :: "filterGroups \<Rightarrow> string \<Rightarrow> string \<Rightarrow> (string \<times> bloomFilter) list" where
  "groupAt gs t c = (case mget gs t of None \<Rightarrow> [] | Some cols \<Rightarrow> (case mget cols c of None \<Rightarrow> [] | Some fs \<Rightarrow> fs))"

definition groups_ok :: "filterGroups \<Rightarrow> bool" where
  "groups_ok gs \<longleftrightarrow> wfmap gs \<and> (\<forall>(t, cols) \<in> set gs. wfmap cols \<and> (\<forall>(c, fs) \<in> set cols. fs \<noteq> []))"

lemma groupAt_addFilter:
  "groupAt (addFilter t k c f gs) t' c' = (if t' = t \<and> c' = c then groupAt gs t c @ [(k, f)] else groupAt gs t' c')"
  by (auto simp: groupAt_def addFilter_def Let_def go_map split: option.splits)

lemma set_mput: "wfmap m \<Longrightarrow> set (mput k v m) = insert (k, v) {(k', v') \<in> set m. k' \<noteq> k}"
  by (induction m) force+

lemma groups_ok_add: "groups_ok gs \<Longrightarrow> groups_ok (addFilter t k c f gs)"
proof -
  assume ok: "groups_ok gs"
  let ?cols = "case mget gs t of None \<Rightarrow> [] | Some cs \<Rightarrow> cs"
  have "wfmap ?cols" "\<forall>(c, fs) \<in> set ?cols. fs \<noteq> []" using ok by (auto simp: groups_ok_def split: option.splits dest: map_of_SomeD)
  then have "wfmap (mput c (fs @ [x]) ?cols)" "\<forall>(c, fs) \<in> set (mput c (fs @ [x]) ?cols). fs \<noteq> []" for fs x
    by (auto simp: set_mput wfmap_mput)
  then show ?thesis using ok by (auto simp: groups_ok_def addFilter_def Let_def set_mput wfmap_mput)
qed

lemma groupCols_ok:
  assumes "groups_ok gs"
  shows "groups_ok (fold (\<lambda>(col, f). addFilter t k col f) cols gs)
    \<and> set (groupAt (fold (\<lambda>(col, f). addFilter t k col f) cols gs) t' c)
      = set (groupAt gs t' c) \<union> {(k', f). k' = k \<and> t' = t \<and> (c, f) \<in> set cols}"
  using assms
proof (induction cols arbitrary: gs)
  case (Cons x cols)
  obtain col f where x: "x = (col, f)" by (cases x)
  show ?case using Cons.IH [OF groups_ok_add [OF Cons.prems], of t k col f] x by (auto simp: groupAt_addFilter)
qed simp

lemma groupFilters_ok:
  "groups_ok (groupFilters T idx)
   \<and> set (groupAt (groupFilters T idx) t c) = {(k, f). \<exists>cols. (k, cols) \<in> set idx \<and> T k = t \<and> (c, f) \<in> set cols}"
proof -
  have fld: "groups_ok (fold (\<lambda>(key, cols). fold (\<lambda>(col, f). addFilter (T key) key col f) cols) idx gs)
    \<and> set (groupAt (fold (\<lambda>(key, cols). fold (\<lambda>(col, f). addFilter (T key) key col f) cols) idx gs) t c)
      = set (groupAt gs t c) \<union> {(k, f). \<exists>cols. (k, cols) \<in> set idx \<and> T k = t \<and> (c, f) \<in> set cols}" if "groups_ok gs" for gs
    using that
  proof (induction idx arbitrary: gs)
    case (Cons x idx)
    obtain key cols where x: "x = (key, cols)" by (cases x)
    note g = groupCols_ok [OF Cons.prems, of "T key" key cols t c]
    show ?case using Cons.IH [OF conjunct1 [OF g]] conjunct2 [OF g] x by auto
  qed simp
  have "groups_ok []" "groupAt [] t c = []" by (simp_all add: groups_ok_def groupAt_def)
  then show ?thesis using fld [of "[]"] unfolding groupFilters_def by simp
qed

section \<open>Merging the groups\<close>

lemma indexAdd_at: "mget (columnsOf (indexAdd key col f idx) key') c = (if key' = key \<and> c = col then Some f else mget (columnsOf idx key') c)"
  by (simp add: indexAdd_def columnsOf_mput go_map)

lemma mergeCols_at:
  assumes "wfmap cols"
  shows "mget (columnsOf (fst (fold (\<lambda>(col, fs) (merged, idx).
        (indexAdd t col (unionOf fs) merged, indexAdd (fst (hd fs)) col (unionOf fs) idx)) cols st)) t') c
    = (case if t' = t then mget cols c else None of None \<Rightarrow> mget (columnsOf (fst st) t') c | Some fs \<Rightarrow> Some (unionOf fs))"
  using assms
proof (induction cols arbitrary: st)
  case (Cons x cols)
  obtain col fs where x: "x = (col, fs)" by (cases x)
  obtain m i where st: "st = (m, i)" by (cases st)
  have "mget cols col = None" using Cons.prems x by (simp add: map_of_eq_None_iff)
  then show ?case using Cons.IH Cons.prems x st by (auto simp: indexAdd_at split: option.splits)
qed simp

lemma merged_at:
  assumes "groups_ok gs"
  shows "mget (columnsOf (fst (mergeGroups gs st)) t) c
    = (if groupAt gs t c = [] then mget (columnsOf (fst st) t) c else Some (unionOf (groupAt gs t c)))"
  using assms
proof (induction gs arbitrary: st)
  case (Cons x gs)
  obtain t1 cols where x: "x = (t1, cols)" by (cases x)
  let ?st = "fold (\<lambda>(col, fs) (merged, idx). (indexAdd t1 col (unionOf fs) merged, indexAdd (fst (hd fs)) col (unionOf fs) idx)) cols st"
  have ok: "groups_ok gs" "wfmap cols" "\<forall>(c, fs) \<in> set cols. fs \<noteq> []" "t1 \<notin> set (mkeys gs)" using Cons.prems x by (auto simp: groups_ok_def)
  have m: "mergeGroups (x # gs) st = mergeGroups gs ?st" by (simp add: mergeGroups_def x)
  have "mget gs t1 = None" using ok(4) by (simp add: map_of_eq_None_iff)
  then have n: "groupAt gs t1 c = []" by (simp add: groupAt_def)
  have g: "groupAt (x # gs) t c = (if t = t1 then (case mget cols c of None \<Rightarrow> [] | Some fs \<Rightarrow> fs) else groupAt gs t c)"
    by (simp add: groupAt_def x)
  have "fs \<noteq> []" if "mget cols c = Some fs" for fs using ok(3) map_of_SomeD [OF that] by auto
  then show ?case unfolding m Cons.IH [OF ok(1)] g mergeCols_at [OF ok(2)] using n
    by (auto simp del: map_of_eq_Some_iff split: option.splits)
qed (simp add: mergeGroups_def groupAt_def)

lemma filter_ok_merge: "filter_ok (filterMergeFrom g f) \<longleftrightarrow> filter_ok f"
proof -
  have "length (bf_bits (filterMergeFrom g f)) = length (bf_bits f)" by (simp add: filterMergeFrom_def)
  then show ?thesis unfolding filter_ok_def by (metis length_0_conv)
qed

lemma filter_ok_union: "filter_ok (snd (hd fs)) \<Longrightarrow> filter_ok (unionOf fs)"
proof -
  have "filter_ok (fold (\<lambda>(key, f) u. filterMergeFrom f u) xs u)" if "filter_ok u" for xs and u :: bloomFilter
    using that by (induction xs arbitrary: u) (auto simp: filter_ok_merge)
  then show "filter_ok (snd (hd fs)) \<Longrightarrow> filter_ok (unionOf fs)" by (simp add: unionOf_def)
qed

lemma bloom_ok_add: "bloom_ok idx \<Longrightarrow> filter_ok f \<Longrightarrow> bloom_ok (indexAdd key col f idx)"
proof -
  assume "bloom_ok idx" "filter_ok f"
  then have "columns_ok (mput col f (columnsOf idx key))"
    using columns_ok_of [of idx key] by (auto simp: columns_ok_def go_map wfmap_mput split: if_splits)
  then show ?thesis using \<open>bloom_ok idx\<close> by (simp add: indexAdd_def bloom_ok_mput)
qed

text \<open>Every filter of every group is a filter of the index.\<close>

definition from_index :: "bloomIndex \<Rightarrow> filterGroups \<Rightarrow> bool" where
  "from_index idx gs \<longleftrightarrow> (\<forall>(t, cols) \<in> set gs. \<forall>(c, fs) \<in> set cols. filter_ok (snd (hd fs)))"

lemma merged_ok:
  assumes "from_index idx gs" "bloom_ok (fst st)" "bloom_ok (snd st)"
  shows "bloom_ok (fst (mergeGroups gs st)) \<and> bloom_ok (snd (mergeGroups gs st))"
proof -
  let ?one = "\<lambda>t. \<lambda>(col, fs) (merged, idx). (indexAdd t col (unionOf fs) merged, indexAdd (fst (hd fs)) col (unionOf fs) idx)"
  have cols: "bloom_ok (fst (fold (?one t) cols st)) \<and> bloom_ok (snd (fold (?one t) cols st))"
    if "\<forall>(c, fs) \<in> set cols. filter_ok (snd (hd fs))" "bloom_ok (fst st)" "bloom_ok (snd st)" for t cols st
    using that
  proof (induction cols arbitrary: st)
    case (Cons x cols)
    obtain c fs where x: "x = (c, fs)" by (cases x)
    obtain m i where st: "st = (m, i)" by (cases st)
    have "filter_ok (unionOf fs)" using Cons.prems(1) x filter_ok_union by auto
    then show ?case using Cons.IH [of "?one t x st"] Cons.prems x st by (auto simp: bloom_ok_add)
  qed simp
  show ?thesis using assms unfolding mergeGroups_def
  proof (induction gs arbitrary: st)
    case (Cons x gs)
    obtain t colz where x: "x = (t, colz)" by (cases x)
    have "\<forall>(c, fs) \<in> set colz. filter_ok (snd (hd fs))" using Cons.prems(1) x by (auto simp: from_index_def)
    from cols [OF this Cons.prems(2, 3)] show ?case
      using Cons.IH [of "fold (?one t) colz st"] Cons.prems(1) x by (auto simp: from_index_def)
  qed simp
qed

lemma from_groupFilters:
  assumes "bloom_ok idx"
  shows "from_index idx (groupFilters T idx)"
proof -
  note g = groupFilters_ok [of T idx]
  have "filter_ok (snd (hd fs))" if e: "(t, cols) \<in> set (groupFilters T idx)" "(c, fs) \<in> set cols" for t cols c fs
  proof -
    have ok: "wfmap (groupFilters T idx)" "wfmap cols" "fs \<noteq> []" using e conjunct1 [OF g] by (auto simp: groups_ok_def)
    have "mget (groupFilters T idx) t = Some cols" by (rule iffD1 [OF mget_in [OF ok(1)] e(1)])
    moreover have "mget cols c = Some fs" by (rule iffD1 [OF mget_in [OF ok(2)] e(2)])
    ultimately have "groupAt (groupFilters T idx) t c = fs" by (simp add: groupAt_def)
    then have "hd fs \<in> {(k, f). \<exists>cols. (k, cols) \<in> set idx \<and> T k = t \<and> (c, f) \<in> set cols}" using g [of t c] hd_in_set [OF ok(3)] by simp
    then obtain k f cs where h: "hd fs = (k, f)" "(k, cs) \<in> set idx" "(c, f) \<in> set cs" by auto
    have w: "wfmap idx" using assms by (simp add: bloom_ok_def)
    have i: "mget idx k = Some cs" by (rule iffD1 [OF mget_in [OF w] h(2)])
    then have w': "wfmap cs" using assms by (simp add: bloom_ok_def)
    have "mget cs c = Some f" by (rule iffD1 [OF mget_in [OF w'] h(3)])
    then show ?thesis using bloom_okD [OF assms i] h(1) by simp
  qed
  then show ?thesis by (auto simp: from_index_def)
qed

section \<open>A downgrade of uniform filters loses nothing\<close>

text \<open>The filters a downgrade merges have one shape.\<close>

definition mergeable :: "(string \<Rightarrow> string) \<Rightarrow> bloomIndex \<Rightarrow> bool" where
  "mergeable T idx \<longleftrightarrow> (\<forall>t c. uniform (groupAt (groupFilters T idx) t c))"

lemma downgrade_sound:
  assumes "sound idx F" "mergeable T idx" "F key col v" "mget (columnsOf idx key) col \<noteq> None"
  shows "\<not> excludes (fst (mergeGroups (groupFilters T idx) ([], i))) (T key) col v"
proof -
  let ?g = "groupAt (groupFilters T idx) (T key) col"
  note g = groupFilters_ok [of T idx "T key" col]
  obtain f where f: "mget (columnsOf idx key) col = Some f" using assms(4) by auto
  then obtain cols where c: "mget idx key = Some cols" "mget cols col = Some f" by (auto simp: columnsOf_def split: option.splits)
  have "holds f v" using assms(1, 3) f by (auto simp: sound_def excludes_def)
  moreover have i: "(key, f) \<in> set ?g" using g c by (auto dest: map_of_SomeD)
  moreover have "uniform ?g" using assms(2) by (simp add: mergeable_def)
  ultimately have "holds (unionOf ?g) v" using unionOf_ok(2) by blast
  moreover have "?g \<noteq> []" using i by auto
  ultimately show ?thesis using merged_at [OF conjunct1 [OF g], of "([], i)" "T key" col] by (simp add: excludes_def)
qed

end
