(* ===== verification/BloomProps.thy ===== *)
theory BloomProps
  imports BloomTierProofs
begin

text \<open>The properties of the bloom index, with the examples their witnesses evaluate.\<close>

section \<open>Examples\<close>

text \<open>The sizes of a filter at a rate of one percent: ten bits and seven hash functions per item.\<close>

definition exSizing :: sizing where
  "exSizing = \<lparr>sz_bits = (\<lambda>n. 10 * n), sz_hashes = (\<lambda>m n. 7)\<rparr>"

definition exColumns :: "(string, string list) gomap" where
  "exColumns = [(''trace_id'', [''a1'']), (''service.name'', [''api'', ''web''])]"

definition exIndex :: bloomIndex where
  "exIndex = AddColumns ''logs/f1'' (case BuildFileColumns exSizing exColumns of None \<Rightarrow> [] | Some cols \<Rightarrow> cols) []"



lemma newRG: "NewFilter exSizing 1 = \<lparr>bf_bits = [0, 0], bf_numHash = 7\<rparr>" "NewFilter exSizing 2 = \<lparr>bf_bits = [0, 0, 0], bf_numHash = 7\<rparr>"
  by (simp_all add: NewFilter_def exSizing_def maxFilterItems_def numeral_2_eq_2 numeral_3_eq_3)

lemma exAdds:
  "addAll [''a1''] \<lparr>bf_bits = [0, 0], bf_numHash = 7\<rparr> = Some \<lparr>bf_bits = [170, 84], bf_numHash = 7\<rparr>"
  "addAll [''b1'', ''b2''] \<lparr>bf_bits = [0, 0, 0], bf_numHash = 7\<rparr> = Some \<lparr>bf_bits = [155, 173, 86], bf_numHash = 7\<rparr>"
  "addAll [''api'', ''web''] \<lparr>bf_bits = [0, 0, 0], bf_numHash = 7\<rparr> = Some \<lparr>bf_bits = [191, 84, 160], bf_numHash = 7\<rparr>"
  by (code_simp, code_simp, code_simp)

lemma exSizing_ok: "sizing_ok exSizing"
  by (simp add: sizing_ok_def exSizing_def)

lemma exBuilt:
  "BuildFileColumns exSizing exColumns =
     Some [(''service.name'', \<lparr>bf_bits = [191, 84, 160], bf_numHash = 7\<rparr>), (''trace_id'', \<lparr>bf_bits = [170, 84], bf_numHash = 7\<rparr>)]"
  using newRG exAdds by (simp add: exColumns_def ShouldSkipBloom_def maxBloomCardinality_def numeral_2_eq_2)

lemma exIndex_eq:
  "exIndex = [(''logs/f1'', [(''service.name'', \<lparr>bf_bits = [191, 84, 160], bf_numHash = 7\<rparr>), (''trace_id'', \<lparr>bf_bits = [170, 84], bf_numHash = 7\<rparr>)])]"
  by (simp add: exIndex_def exBuilt AddColumns_def columnsOf_def)

lemma exIndex_fits: "index_fits exIndex"
  by (simp add: exIndex_eq index_fits_def columns_fit_def filter_fits_def filter_ok_def maxIndexEntries_def)


section \<open>Pruning\<close>

text \<open>The indexes the code makes, where \<open>F key col v\<close> says that the file with that key has the value in the column:
  empty ones, the columns of a file added (the writer hands over every value of each column it lists),
  one merged into another, keys removed, and what is read back from the stored bytes.\<close>

inductive built :: "sizing \<Rightarrow> (string \<Rightarrow> string \<Rightarrow> string \<Rightarrow> bool) \<Rightarrow> bloomIndex \<Rightarrow> bool" for S F where
  built_new: "built S F []"
| built_file: "built S F idx \<Longrightarrow> lists_values cvs (F key) \<Longrightarrow> BuildFileColumns S cvs = Some cols \<Longrightarrow> built S F (AddColumns key cols idx)"
| built_merge: "built S F idx \<Longrightarrow> built S F other \<Longrightarrow> built S F (indexMergeFrom other idx)"
| built_remove: "built S F idx \<Longrightarrow> built S F (RemoveKeys keys idx)"
| built_stored: "built S F idx \<Longrightarrow> index_fits idx \<Longrightarrow> Unmarshal (Marshal idx) = Inr idx' \<Longrightarrow> built S F idx'"

lemma built_sound:
  assumes "sizing_ok S" "built S F idx"
  shows "sound idx F"
  using assms(2)
proof (induction rule: built.induct)
  case (built_file idx cvs key cols)
  then show ?case using BuildFileColumns_ok [OF assms(1) built_file.hyps(2)] by (auto intro: sound_AddColumns)
next
  case (built_stored idx idx')
  then show ?case using Unmarshal_Marshal by simp
qed (auto intro: sound_Nil sound_MergeFrom sound_RemoveKeys)

text \<open>C7: The bloom index never hides a match. However the index was made, a query that asks for values all of which a
  file has keeps that file; the lookup does not panic and returns keys it was asked about, in their order.\<close>

theorem bloom_prunes_no_match:
  assumes "sizing_ok S" "built S F idx" "key \<in> set keys" "\<forall>(col, v) \<in> set checks. F key col v"
  shows "\<exists>r. MayContainAll idx keys checks = Some r \<and> key \<in> set r \<and> subseq r keys"
proof -
  have "sound idx F" by (rule built_sound [OF assms(1, 2)])
  then have "bloom_ok idx" and "\<forall>(col, v) \<in> set checks. \<not> excludes idx key col v" using assms(4) by (auto simp: sound_def)
  then show ?thesis using assms(3) by (simp add: MayContainAll_eq subseq_filter_left)
qed

definition exHas :: "string \<Rightarrow> string \<Rightarrow> string \<Rightarrow> bool" where
  "exHas key col v \<longleftrightarrow> key = ''logs/f1'' \<and> (col, v) \<in> {(''trace_id'', ''a1''), (''service.name'', ''api''), (''service.name'', ''web'')}"

lemma exIndex_built: "built exSizing exHas exIndex"
proof -
  have "lists_values exColumns (exHas ''logs/f1'')" by (auto simp: lists_values_def exColumns_def exHas_def)
  then have "built exSizing exHas (AddColumns ''logs/f1'' (the (BuildFileColumns exSizing exColumns)) [])"
    by (rule built_file [OF built_new]) (simp add: exBuilt)
  then show ?thesis by (simp add: exIndex_def exBuilt)
qed

theorem bloom_prunes_no_match_witness:
  "\<exists>r. MayContainAll exIndex [''logs/f1'', ''logs/f2''] [(''service.name'', ''web''), (''trace_id'', ''a1'')] = Some r \<and> ''logs/f1'' \<in> set r"
  using bloom_prunes_no_match [OF exSizing_ok exIndex_built, of "''logs/f1''" "[''logs/f1'', ''logs/f2'']" "[(''service.name'', ''web''), (''trace_id'', ''a1'')]"]
  by (auto simp: exHas_def)

section \<open>The stored form\<close>

text \<open>C12: The stored index is read back exactly, and no cut-off copy of it is accepted. For keys below 64 KiB, column names below 256 bytes, at most
  65535 columns per file, a million files and filters of one byte to 4 GiB, the bytes decode to the same index, and every proper prefix of them is refused with an error.\<close>

theorem bloom_index_roundtrip:
  assumes "index_fits idx"
  shows "Unmarshal (Marshal idx) = Inr idx \<and> (\<forall>n < length (Marshal idx). \<exists>e. Unmarshal (take n (Marshal idx)) = Inl e)"
  using Unmarshal_Marshal [OF assms] Unmarshal_truncated [OF assms] by blast

theorem bloom_index_roundtrip_witness:
  "Unmarshal (Marshal exIndex) = Inr exIndex \<and> length (Marshal exIndex) = 53 \<and> (\<exists>e. Unmarshal (take 52 (Marshal exIndex)) = Inl e)"
proof -
  have "length (Marshal exIndex) = 53" by (simp add: exIndex_eq Marshal_def marshalEntry_def marshalColumn_def filterMarshal_def)
  then show ?thesis using bloom_index_roundtrip [OF exIndex_fits] by simp
qed

text \<open>C29: Decoding untrusted bytes is safe. Whatever the bytes, in either format version, an accepted index has at most a
  million files and no more than a fourth of the bytes after the header, so its size is bounded by the input before a map is made;
  every lookup in it returns without a panic.\<close>

theorem decoded_index_safe:
  assumes "Unmarshal bs = Inr idx"
  shows "length idx \<le> 1000000 \<and> 4 * length idx \<le> length bs - 5 \<and> (\<exists>r. MayContainAll idx keys checks = Some r \<and> subseq r keys)"
  using Unmarshal_ok [OF assms] by (auto simp: maxIndexEntries_def MayContainAll_eq)

definition exV1 :: bytes where
  "exV1 = [1, 1, 0, 0, 0, 2, 0, 102, 49, 3, 0, 0, 0, 7, 170, 84]"

lemma exV1_decodes: "Unmarshal exV1 = Inr [(''f1'', [(''trace_id'', \<lparr>bf_bits = [170, 84], bf_numHash = 7\<rparr>)])]"
proof -
  have "unat (uint32 (take 4 (drop 1 exV1))) = 1" "length exV1 = 16" "hd exV1 = 1" by code_simp+
  moreover have "takeMany takeEntryV1 1 (drop 5 exV1) [] = Inr ([(''f1'', [(''trace_id'', \<lparr>bf_bits = [170, 84], bf_numHash = 7\<rparr>)])], [])"
    by code_simp
  ultimately show ?thesis
    by (simp add: Unmarshal_def unmarshalRest_def unmarshalV1_def unmarshalEntries_def maxIndexEntries_def checkCount_def minEntrySizeV1_def)
qed

theorem decoded_index_safe_witness:
  "4 * length [(''f1'', [(''trace_id'', \<lparr>bf_bits = [170, 84], bf_numHash = 7\<rparr>)])] \<le> length exV1 - 5"
  using decoded_index_safe [OF exV1_decodes, of "[]" "[]"] by blast

section \<open>The cache\<close>

datatype 'e cacheOp =
    CGet "'e loader option" int string
  | CPut int string bloomIndex
  | CInvalidate string
  | CCompact tierConfig "'e loader option" "'e persist option" int int string int

primrec cacheStep :: "'e cacheOp \<Rightarrow> bloomCache \<Rightarrow> bloomCache" where
  "cacheStep (CGet loader now part) c = snd (cacheGet loader now part c)"
| "cacheStep (CPut now part idx) c = cachePut now part idx c"
| "cacheStep (CInvalidate part) c = cacheInvalidate part c"
| "cacheStep (CCompact cfg loader persistFn g p part age) c = snd (CompactPartition cfg loader persistFn g p part age c)"

interpretation cache_machine: machine "\<lambda>op c. True" cacheStep cache_ok
proof unfold_locales
  show "cache_ok (cacheStep op c)" if "cache_ok c" for op :: "'a cacheOp" and c
    using that by (cases op) (simp_all add: cacheGet_ok cachePut_ok cacheInvalidate_ok CompactPartition_ok)
qed

lemma runs_all: "runs_ok (\<lambda>op s. True) step ops s"
  by (induction ops arbitrary: s) simp_all

text \<open>The bloom cache stays within its budget and evicts the least recently used. After any sequence of lookups, stores, invalidations and tier
  changes the cached indexes take no more than the budget, unless a single index alone exceeds it; an eviction ends, and everything it
  takes out was used no later than anything it keeps.\<close>

theorem bloom_cache_bounded:
  assumes "c = fold cacheStep ops \<lparr>bc_entries = [], bc_maxSize = m\<rparr>"
  shows "(int (currentSizeLocked (bc_entries c)) \<le> bc_maxSize c \<or> length (bc_entries c) \<le> 1)
    \<and> evicted (bc_entries c) (evictLocked needed (bc_maxSize c) (bc_entries c))"
proof -
  have "cache_ok \<lparr>bc_entries = [], bc_maxSize = m\<rparr>" by (simp add: cache_ok_def)
  then have "cache_ok c" unfolding assms by (rule cache_machine.run_inv [OF _ runs_all])
  then show ?thesis using evictLocked_ok by (auto simp: cache_ok_def)
qed

definition exCacheOps :: "unit cacheOp list" where
  "exCacheOps = [CPut 1 ''p1'' exIndex, CPut 2 ''p2'' exIndex, CGet None 3 ''p1'', CPut 4 ''p3'' exIndex]"

lemma exCache_run: "mkeys (bc_entries (fold cacheStep exCacheOps \<lparr>bc_entries = [], bc_maxSize = 130\<rparr>)) = [''p1'', ''p3'']"
  unfolding exCacheOps_def exIndex_eq by code_simp

section \<open>Downgrades\<close>


end
