(* ===== verification/PruningProps.thy ===== *)
theory PruningProps
  imports PruningProofs BloomProps ManScenario
begin

text \<open>The properties of pruning, with the examples their witnesses evaluate.\<close>

section \<open>Files\<close>

text \<open>\<open>R\<close> gives the rows of a file by its key; every bloom index a lookup can meet was built from the values of the files.\<close>

definition hasValue :: "(string \<Rightarrow> row list) \<Rightarrow> string \<Rightarrow> string \<Rightarrow> string \<Rightarrow> bool" where
  "hasValue R key col v \<longleftrightarrow> (\<exists>r \<in> set (R key). r col = v)"

definition sources_built :: "sizing \<Rightarrow> (string \<Rightarrow> row list) \<Rightarrow> bloomSources option \<Rightarrow> bool" where
  "sources_built S R src \<longleftrightarrow> (\<forall>B. src = Some B \<longrightarrow>
     (\<forall>cat p idx. bs_catalog B = Some cat \<longrightarrow> mget cat p = Some idx \<longrightarrow> built S (hasValue R) idx)
     \<and> (\<forall>p idx. bs_legacy B p = Some idx \<longrightarrow> built S (hasValue R) idx))"

lemma sources_built_sound: "sizing_ok S \<Longrightarrow> sources_built S R (Some B) \<Longrightarrow> sources_sound B (hasValue R)"
  unfolding sources_built_def sources_sound_def using built_sound by blast

lemma label_runs: "labels_indexed (fold manStep ops New)"
proof -
  have "labels_indexed New" by (simp add: labels_indexed_def New_def filesOf_def)
  moreover have "runs_ok (\<lambda>_ _. True) manStep ops New" by (rule runs_all)
  ultimately show ?thesis by (rule label_machine.run_inv)
qed

text \<open>C10: Leaving out files loses no answer. The manifest is one that any sequence of publishes, removals, claims, retirements, per-file enrichments
  and refreshes makes, and the bloom indexes were built from the files. A file of the query's list with a row that passes every push-down check and has the
  values the bloom columns (or one OR branch) ask for is kept, whichever of the label index, the
  labels, the column statistics, the catalog and the legacy bloom cache decide; the filter does not panic and adds
  no file. What is asked of the file's own metadata: its statistics cover its values, and the labels of a checked column are complete, or
  absent or at the cap with no file in the index for the value.\<close>

theorem prefilter_keeps_matches:
  assumes m: "m = fold manStep ops New" and S: "sizing_ok S" "sources_built S R src"
    and fi: "fi \<in> set (filesOf (m_files m) p)" "parsePartitionTime p \<noteq> None" "fi \<in> set files"
    and true: "stats_true (R (fi_Key fi)) fi" "\<forall>c \<in> set (pr_checks q). label_usable m (R (fi_Key fi)) fi c"
    and r: "r \<in> set (R (fi_Key fi))" "passes (pr_checks q) r" "bloom_asks q (\<lambda>col v. r col = v) (pr_hexPhrases q \<and> fi_TraceIDHex fi)"
  shows "\<exists>out. preFilterFiles m src q files = Some out \<and> fi \<in> set out \<and> set out \<subseteq> set files"
proof -
  have S': "sources_sound B (hasValue R)" if "src = Some B" for B using sources_built_sound [OF S(1)] S(2) that by simp
  have "indexed (m_labelIndex m) fi" using label_runs [of ops] fi(1, 2) unfolding m [symmetric] labels_indexed_def by blast
  then have l: "label_hit m R (pr_checks q) fi" using true r(1, 2) by (auto simp: label_hit_def)
  have "bloom_asks q (hasValue R (fi_Key fi)) (pr_hexPhrases q \<and> fi_TraceIDHex fi)"
    using r(1, 3) unfolding bloom_asks_def hasValue_def by (fastforce split: if_splits)
  then have b: "bloom_hit src (hasValue R) q fi" using S' by (simp add: bloom_hit_def)
  obtain out where o: "preFilterFiles m src q files = Some out"
    using bloomFilterFiles_ok [of src, OF S'] unfolding preFilterFiles_chain by force
  then show ?thesis using prefilter.both.keeps [OF _ fi(3) conjI [OF l b]] prefilter.both.adds_none
    unfolding preFilterFiles_chain by blast
qed

section \<open>Examples\<close>

definition exLabelled :: "string \<Rightarrow> (string, string list) gomap \<Rightarrow> fileInfo" where
  "exLabelled key ls = (listedFile key 5)\<lparr>fi_RowCount := 1, fi_Labels := ls\<rparr>"

definition exApi :: "(string, string list) gomap" where "exApi = [(''service.name'', [''api''])]"

definition exOps :: "man_op list" where
  "exOps = [OAdd 10 exPart (exLabelled exA exApi), OAdd 20 exPart (listedFile exB 5)]"

definition exTracked :: manifest where "exTracked = fold manStep exOps New"

definition exCheck :: pushDownCheck where
  "exCheck = \<lparr>pd_Column = ''service.name'', pd_Op = PushDownExact, pd_Value = ''api'', pd_FieldType = TypeString\<rparr>"

definition exQuery :: prunable where
  "exQuery = \<lparr>pr_checks = [exCheck], pr_hasOr = False, pr_branches = [], pr_resolve = (\<lambda>fld. fld),
     pr_columns = (\<lambda>_. [(''service.name'', [''api''])]), pr_hexPhrases = False\<rparr>"

definition exRow :: row where "exRow col = (if col = ''service.name'' then ''api'' else [])"

definition exBloomFor :: "string \<Rightarrow> bloomIndex" where
  "exBloomFor key = AddColumns key (the (BuildFileColumns exSizing [(''service.name'', [''api''])])) []"

definition exSources :: bloomSources where
  "exSources = \<lparr>bs_catalog = Some [(dirOf exA, exBloomFor exA)], bs_legacy = (\<lambda>_. None)\<rparr>"

lemma exTracked_files: "m_files exTracked = [(exPart, [exLabelled exA exApi, listedFile exB 5])]"
  by code_simp

lemma exTracked_keys: "GetFileKeysByLabel exTracked ''service.name'' ''api'' = [exA]"
  by code_simp

lemma exPart_time: "parsePartitionTime exPart \<noteq> None"
  by code_simp

definition exRows :: "string \<Rightarrow> row list" where "exRows key = (if key = exA then [exRow] else [])"

lemma exBloomFor_built: "built exSizing (hasValue exRows) (exBloomFor exA)"
proof -
  have l: "lists_values [(''service.name'', [''api''])] (hasValue exRows exA)"
    by (simp add: lists_values_def hasValue_def exRows_def exRow_def)
  then obtain cols where "BuildFileColumns exSizing [(''service.name'', [''api''])] = Some cols"
    using BuildFileColumns_ok [OF exSizing_ok] by blast
  then show ?thesis unfolding exBloomFor_def using built_file [where key = exA and F = "hasValue exRows", OF built_new l] by simp
qed

theorem prefilter_keeps_matches_witness:
  "\<exists>out. preFilterFiles exTracked (Some exSources) exQuery [exLabelled exA exApi, listedFile exB 5] = Some out \<and> exLabelled exA exApi \<in> set out"
proof -
  have k: "fi_Key (exLabelled exA exApi) = exA" "fi_Labels (exLabelled exA exApi) = exApi" by (simp_all add: exLabelled_def)
  have src: "sources_built exSizing exRows (Some exSources)"
    using exBloomFor_built by (simp add: sources_built_def exSources_def del: map_of_eq_Some_iff)
  have f: "exLabelled exA exApi \<in> set (filesOf (m_files exTracked) exPart)" by (simp add: exTracked_files filesOf_def)
  have st: "stats_true (exRows (fi_Key (exLabelled exA exApi))) (exLabelled exA exApi)"
    by (simp add: stats_true_def ColumnStatsContains_def exLabelled_def listedFile_def)
  have lb: "\<forall>c \<in> set (pr_checks exQuery). label_usable exTracked (exRows (fi_Key (exLabelled exA exApi))) (exLabelled exA exApi) c"
  proof -
    have "labelsOf (exLabelled exA exApi) ''service.name'' = [''api'']" unfolding labelsOf_def k by (simp add: exApi_def)
    then show ?thesis unfolding k by (simp add: exQuery_def exCheck_def label_usable_def maxLabelsPerField_def exRows_def exRow_def Let_def)
  qed
  have r: "exRow \<in> set (exRows (fi_Key (exLabelled exA exApi)))" "passes (pr_checks exQuery) exRow"
    "bloom_asks exQuery (\<lambda>col v. exRow col = v) (pr_hexPhrases exQuery \<and> fi_TraceIDHex (exLabelled exA exApi))"
    unfolding k by (simp_all add: exRows_def passes_def exQuery_def exCheck_def exRow_def valueMatchesCheck_def bloom_asks_def)
  have "exLabelled exA exApi \<in> set [exLabelled exA exApi, listedFile exB 5]" by simp
  from prefilter_keeps_matches [OF exTracked_def exSizing_ok src f exPart_time this st lb r] show ?thesis by blast
qed

section \<open>Metadata that hides matches\<close>









section \<open>Row groups\<close>




end
