(* ===== verification/Sweep.thy ===== *)
theory Sweep
  imports Scan
begin

text \<open>
  The orphan sweep: \<open>src/internal/compaction/orphan_sweep.go\<close>. Tier A takes over the merges of a partition that nobody attempted for a while; Tier B
  deletes objects that the manifest holds an old retirement record for.

  The state is the world of the compactor. Other goroutines act at the points \<open>AtSweep i j\<close>, where \<open>i\<close> numbers the partition or object and
  \<open>j\<close> the place where the code takes no lock, and inside the merges. \<open>sw_clock i j\<close> are the readings of the clock, \<open>sw_stopped\<close> tells
  whether the sweep was stopped before a partition or date. The list and head requests are functions of the world. Not modelled:
  the two tickers, metrics, log lines and the callbacks after a steal.
\<close>

section \<open>Settings\<close>

record sweepConfig =
  sw_Interval :: int
  sw_TierAStalenessMultiplier :: int
  sw_TierBInterval :: int
  sw_OrphanTTL :: int
  sw_NeverDeletePrefixes :: "string list"
  sw_RowGroupSize :: int
  sw_CompressionLevel :: int

definition defaultNeverDeletePrefixes :: "string list" where
  "defaultNeverDeletePrefixes = [''_meta/'', ''_tombstones/'', ''_compaction_lock'']"

definition NewOrphanSweep :: "sweepConfig \<Rightarrow> sweepConfig" where
  "NewOrphanSweep cfg =
     cfg\<lparr>sw_TierAStalenessMultiplier := (if sw_TierAStalenessMultiplier cfg \<le> 0 then 3 else sw_TierAStalenessMultiplier cfg),
         sw_TierBInterval := (if sw_TierBInterval cfg \<le> 0 then hour else sw_TierBInterval cfg),
         sw_OrphanTTL := (if sw_OrphanTTL cfg \<le> 0 then 2 * hour else sw_OrphanTTL cfg),
         sw_NeverDeletePrefixes := (if sw_NeverDeletePrefixes cfg = [] then defaultNeverDeletePrefixes else sw_NeverDeletePrefixes cfg)\<rparr>"

record ('d, 'r, 'x) sweepEnv =
  sw_scan :: "('d, 'r, 'x) scanEnv"
  sw_cfg :: sweepConfig
  sw_guarded :: bool
  sw_clock :: "nat \<Rightarrow> nat \<Rightarrow> int"
  sw_stopped :: "nat \<Rightarrow> bool"
  sw_list :: "'d cworld \<Rightarrow> string list option"
  sw_head :: "string \<Rightarrow> 'd cworld \<Rightarrow> int option"

section \<open>Tier A\<close>

text \<open>The compactor of a steal has the sweep's own output settings and no schedule.\<close>

definition stealEnv :: "sweepConfig \<Rightarrow> ('d, 'r) cenv \<Rightarrow> ('d, 'r) cenv" where
  "stealEnv cfg E =
     E\<lparr>ce_staticLevel := sw_CompressionLevel cfg, ce_levelSchedule := [], ce_tenantLookup := None,
       ce_staticRowGroup := sw_RowGroupSize cfg, ce_rowGroupSchedule := []\<rparr>"

definition sweepC :: "('d, 'r, 'x) sweepEnv \<Rightarrow> ('d, 'r) cenv" where
  "sweepC X = stealEnv (sw_cfg X) (se_c (sw_scan X))"

fun stealLoop ::
    "('d, 'r, 'x) sweepEnv \<Rightarrow> string \<Rightarrow> nat \<Rightarrow> mergePlan list \<Rightarrow> string list \<Rightarrow> string list \<Rightarrow> 'd cworld \<Rightarrow> string list \<times> string list \<times> 'd cworld" where
  "stealLoop X part j [] removed outputs w = (removed, outputs, w)"
| "stealLoop X part j (plan # plans) removed outputs w0 =
     (let w = ce_others (sweepC X) (AtMerge j) w0;
          selected = compactableNow w part (mp_files plan) (se_freeze (sw_scan X)) (se_mergeNow (sw_scan X) j)
      in if length selected < 2 then stealLoop X part (Suc j) plans removed outputs w
         else case Compact (sweepC X) part selected (mp_level plan) w of
           (Inl e, w') \<Rightarrow> stealLoop X part (Suc j) plans removed outputs w'
         | (Inr r, w') \<Rightarrow> stealLoop X part (Suc j) plans (removed @ cr_InputFiles r) (outputs @ cr_OutputFiles r) w')"

definition stale :: "('d, 'r, 'x) sweepEnv \<Rightarrow> nat \<Rightarrow> int option \<Rightarrow> bool" where
  "stale X i lastAttempt =
     (case lastAttempt of
        None \<Rightarrow> True
      | Some t \<Rightarrow> \<not> timeSub (sw_clock X i 0) t < to_int64 (sw_TierAStalenessMultiplier (sw_cfg X) * sw_Interval (sw_cfg X)))"

text \<open>The guard of the buffer segments is read at the first stale partition with files; \<open>None\<close> stands for a guard not yet read,
  \<open>Some None\<close> for the missing guard of a sweep without one.\<close>

definition loadGuard ::
    "('d, 'r, 'x) sweepEnv \<Rightarrow> nat \<Rightarrow> segmentGuard option option \<Rightarrow> 'd cworld \<Rightarrow> segmentGuard option \<times> 'd cworld" where
  "loadGuard X i guard w =
     (case guard of
        Some g \<Rightarrow> (g, w)
      | None \<Rightarrow>
          if sw_guarded X then (case segmentGuardOf (sw_scan X) (sw_clock X i 1) w of (g, w') \<Rightarrow> (Some g, w')) else (None, w))"

datatype steal = Skip | Steal string "mergePlan list"

text \<open>Whether this pod takes a partition over, and from whom.\<close>

definition stealDecision :: "('d, 'r, 'x) sweepEnv \<Rightarrow> nat \<Rightarrow> string \<Rightarrow> fileInfo list \<Rightarrow> 'd cworld \<Rightarrow> steal" where
  "stealDecision X i part files w =
     (case parsePartitionTime part of
        None \<Rightarrow> Skip
      | Some pt \<Rightarrow>
          let plans = planPartition (se_policy (sw_scan X)) part files pt (sw_clock X i 3) [] (cw_fence w) (se_freeze (sw_scan X));
              ranked = RankedOwners (se_ownership (sw_scan X)) part
          in if plans = [] \<or> length ranked < 2 then Skip
             else case SelfMember (se_ownership (sw_scan X)) of
               (self, ok) \<Rightarrow> if \<not> ok \<or> ranked ! 1 \<noteq> self then Skip else Steal (hd ranked) plans)"

fun tierALoop ::
    "('d, 'r, 'x) sweepEnv \<Rightarrow> nat \<Rightarrow> (string, int option) gomap \<Rightarrow> segmentGuard option option \<Rightarrow> (string \<times> string) list \<Rightarrow> 'd cworld
     \<Rightarrow> (string \<times> string) list \<times> 'd cworld" where
  "tierALoop X i [] guard stolen w = (stolen, w)"
| "tierALoop X i ((part, lastAttempt) # rest) guard stolen w0 =
     (if sw_stopped X i then (stolen, w0)
      else if \<not> stale X i lastAttempt then tierALoop X (Suc i) rest guard stolen w0
      else let w = ce_others (sweepC X) (AtSweep i 0) w0; files = withoutHeld w (filesOf (m_files (cw_man w)) part)
           in if files = [] then tierALoop X (Suc i) rest guard stolen w
              else case loadGuard X i guard w of
                (g, w1) \<Rightarrow>
                  let released = ReleasedFiles g files (sw_clock X i 2)
                  in if released = [] then tierALoop X (Suc i) rest (Some g) stolen w1
                     else case stealDecision X i part released w1 of
                       Skip \<Rightarrow> tierALoop X (Suc i) rest (Some g) stolen w1
                     | Steal primary plans \<Rightarrow>
                         (case stealLoop X part 0 plans [] [] (onMan (MarkAttempt part (sw_clock X i 4)) w1) of
                            (removed, outputs, w2) \<Rightarrow>
                              tierALoop X (Suc i) rest (Some g) (if outputs = [] then stolen else stolen @ [(part, primary)]) w2))"

text \<open>The stolen partitions with their primaries; the code returns how many there are.\<close>

definition RunTierA :: "('d, 'r, 'x) sweepEnv \<Rightarrow> 'd cworld \<Rightarrow> (string \<times> string) list \<times> 'd cworld" where
  "RunTierA X w =
     (if IsStabilizing (se_ownership (sw_scan X)) then ([], w)
      else tierALoop X 0 (AttemptsView (cw_man w)) None [] w)"

section \<open>Tier B\<close>

text \<open>\<open>strings.Index\<close>.\<close>

fun strIndex :: "string \<Rightarrow> string \<Rightarrow> nat option" where
  "strIndex [] t = (if t = [] then Some 0 else None)"
| "strIndex (c # cs) t = (if hasPrefix (c # cs) t then Some 0 else map_option Suc (strIndex cs t))"

definition datePrefixOf :: "string \<Rightarrow> string \<Rightarrow> string" where
  "datePrefixOf key basePrefix =
     (case (case strIndex key ''/dt='' of Some i \<Rightarrow> Some (Suc i) | None \<Rightarrow> if hasPrefix key ''dt='' then Some 0 else None) of
        None \<Rightarrow> basePrefix
      | Some idx \<Rightarrow> (case strIndex (drop idx key) ''/'' of None \<Rightarrow> basePrefix | Some e \<Rightarrow> take (idx + e + 1) key))"

definition groupByDatePrefix :: "string list \<Rightarrow> string \<Rightarrow> (string, string list) gomap" where
  "groupByDatePrefix keys basePrefix =
     fold (\<lambda>k out. let dp = datePrefixOf k basePrefix
        in mput dp ((case mget out dp of None \<Rightarrow> [] | Some ks \<Rightarrow> ks) @ [k]) out) keys []"

definition isProtected :: "sweepConfig \<Rightarrow> string \<Rightarrow> bool" where
  "isProtected cfg key = (if \<not> hasSuffix key ''.parquet'' then True else list_ex (containsStr key) (sw_NeverDeletePrefixes cfg))"

definition LookupRetired :: "string \<Rightarrow> manifest \<Rightarrow> retiredKey option" where
  "LookupRetired key m = mget (m_retired m) key"

definition IsPending :: "string \<Rightarrow> manifest \<Rightarrow> bool" where
  "IsPending key m = mhas (m_pending m) key"

text \<open>The checks on one object, in the order of the code; the record found at first is the evidence of the delete.\<close>

definition tierBEvidence :: "('d, 'r, 'x) sweepEnv \<Rightarrow> nat \<Rightarrow> string \<Rightarrow> 'd cworld \<Rightarrow> retiredKey option \<times> 'd cworld" where
  "tierBEvidence X i key w0 =
     (let w = ce_others (sweepC X) (AtSweep i 0) w0
      in case LookupRetired key (cw_man w) of
           None \<Rightarrow> (None, w)
         | Some rk \<Rightarrow>
             if rk_Deleted rk \<or> timeSub (sw_clock X i 0) (rk_At rk) < sw_OrphanTTL (sw_cfg X) then (None, w)
             else let w1 = ce_others (sweepC X) (AtSweep i 1) w
                  in if IsPending key (cw_man w1) \<or> IsHeld key (cw_man w1) then (None, w1)
                     else let w2 = ce_others (sweepC X) (AtSweep i 2) w1
                          in case sw_head X key w2 of
                               None \<Rightarrow> (None, w2)
                             | Some mtime \<Rightarrow> if timeSub (sw_clock X i 1) mtime < sw_OrphanTTL (sw_cfg X) then (None, w2) else (Some rk, w2))"

text \<open>The second reading before the delete request, and the delete; \<open>True\<close> when the object was deleted.\<close>

definition tierBDelete :: "('d, 'r, 'x) sweepEnv \<Rightarrow> nat \<Rightarrow> string \<Rightarrow> retiredKey \<Rightarrow> 'd cworld \<Rightarrow> bool \<times> 'd cworld" where
  "tierBDelete X i key rk w0 =
     (let w = ce_others (sweepC X) (AtSweep i 3) w0
      in if HasKey key (cw_man w) then (False, w)
         else let w1 = ce_others (sweepC X) (AtSweep i 4) w
              in case LookupRetired key (cw_man w1) of
                   None \<Rightarrow> (False, w1)
                 | Some cur \<Rightarrow>
                     if rk_At cur \<noteq> rk_At rk then (False, w1)
                     else let w2 = ce_others (sweepC X) (AtSweep i 5) w1
                          in if ce_delFails (sweepC X) key then (False, w2)
                             else (True, onMan (ConfirmDeleted key) (w2\<lparr>cw_objs := mdel key (cw_objs w2)\<rparr>)))"

text \<open>The objects under one date; the keys deleted are returned with the record that was the evidence.\<close>

fun tierBKeys ::
    "('d, 'r, 'x) sweepEnv \<Rightarrow> string list \<Rightarrow> nat \<Rightarrow> string list \<Rightarrow> (string \<times> retiredKey) list \<Rightarrow> 'd cworld \<Rightarrow> nat \<times> (string \<times> retiredKey) list \<times> 'd cworld" where
  "tierBKeys X manifestKeys i [] deleted w = (i, deleted, w)"
| "tierBKeys X manifestKeys i (key # keys) deleted w =
     (if key \<in> set manifestKeys \<or> isProtected (sw_cfg X) key then tierBKeys X manifestKeys (Suc i) keys deleted w
      else case tierBEvidence X i key w of
        (None, w1) \<Rightarrow> tierBKeys X manifestKeys (Suc i) keys deleted w1
      | (Some rk, w1) \<Rightarrow>
          (case tierBDelete X i key rk w1 of
             (False, w2) \<Rightarrow> tierBKeys X manifestKeys (Suc i) keys deleted w2
           | (True, w2) \<Rightarrow> tierBKeys X manifestKeys (Suc i) keys (deleted @ [(key, rk)]) w2))"

definition sweepsPrefix :: "resolver \<Rightarrow> string list \<Rightarrow> nat \<Rightarrow> string \<Rightarrow> bool" where
  "sweepsPrefix r peers selfIdx datePrefix \<longleftrightarrow> unat (or_hash r datePrefix mod word_of_nat (length peers)) = selfIdx"

fun tierBLoop ::
    "('d, 'r, 'x) sweepEnv \<Rightarrow> string list \<Rightarrow> nat \<Rightarrow> nat \<Rightarrow> nat \<Rightarrow> (string, string list) gomap \<Rightarrow> (string \<times> retiredKey) list \<Rightarrow> 'd cworld
     \<Rightarrow> (string \<times> retiredKey) list \<times> 'd cworld" where
  "tierBLoop X peers selfIdx d i [] deleted w = (deleted, w)"
| "tierBLoop X peers selfIdx d i ((datePrefix, keys) # rest) deleted w =
     (if sw_stopped X d then (deleted, w)
      else if \<not> sweepsPrefix (se_ownership (sw_scan X)) peers selfIdx datePrefix then tierBLoop X peers selfIdx (Suc d) i rest deleted w
      else case tierBKeys X (KeysUnderPrefix datePrefix (cw_man w)) i keys deleted w of
        (i', deleted', w') \<Rightarrow> tierBLoop X peers selfIdx (Suc d) i' rest deleted' w')"

text \<open>The position of this pod among the peers.\<close>

fun positionOf :: "string \<Rightarrow> string list \<Rightarrow> nat option" where
  "positionOf self [] = None"
| "positionOf self (p # ps) = (if p = self then Some 0 else map_option Suc (positionOf self ps))"

definition RunTierB :: "('d, 'r, 'x) sweepEnv \<Rightarrow> 'd cworld \<Rightarrow> (string \<times> retiredKey) list option \<times> 'd cworld" where
  "RunTierB X w =
     (let r = se_ownership (sw_scan X); peers = peersForOwnership r
      in if IsStabilizing r \<or> peers = [] then (Some [], w)
         else case (case SelfMember r of (self, ok) \<Rightarrow> if ok then positionOf self peers else None) of
           None \<Rightarrow> (Some [], w)
         | Some selfIdx \<Rightarrow>
             (case sw_list X w of
                None \<Rightarrow> (None, w)
              | Some keys \<Rightarrow>
                  (case tierBLoop X peers selfIdx 0 0 (groupByDatePrefix keys (ce_prefix (sweepC X))) [] w of
                     (deleted, w') \<Rightarrow> (Some deleted, w'))))"

end
