(* ===== verification/SweepProofs.thy ===== *)
theory SweepProofs
  imports Sweep ScanProofs
begin

text \<open>
  The orphan sweep is safe: a steal of Tier A is a merge like that of a scan, and Tier B deletes only objects with an old retirement record
  that no file is registered under. The locale \<open>merge_frame\<close> is what a merge leaves alone: whatever its steps keep, a whole
  run of the compactor keeps.
\<close>

section \<open>What a merge leaves alone\<close>

locale merge_frame =
  fixes E :: "('d, 'r) cenv" and part :: string and J :: "'d cworld \<Rightarrow> bool"
  assumes J_others: "J w \<Longrightarrow> J (ce_others E p w)"
    and J_files: "J w \<Longrightarrow> m_files (cw_man v) = m_files (cw_man w) \<Longrightarrow> J v"
    and J_abandon: "J w \<Longrightarrow> J (onMan (AbandonPending now key) w)"
    and J_publish: "J w \<Longrightarrow> ReplaceFiles now part ks fi (cw_man w) = (True, m) \<Longrightarrow> J (w\<lparr>cw_man := m\<rparr>)"
begin

lemma J_objs: "J w \<Longrightarrow> J (w\<lparr>cw_objs := x\<rparr>)" by (erule J_files) simp_all

lemma J_fence: "J w \<Longrightarrow> J (w\<lparr>cw_fence := x\<rparr>)" by (erule J_files) simp_all

lemma J_confirm: "J w \<Longrightarrow> J (onMan (ConfirmDeleted key) w)"
  by (erule J_files) (simp_all add: onMan_def ConfirmDeleted_def split: option.split)

lemma J_release: "J w \<Longrightarrow> J (onMan (ReleasePending key) w)"
  by (erule J_files) (simp_all add: onMan_def ReleasePending_def)

lemma J_mark: "J w \<Longrightarrow> J (onMan (MarkAttempt p t) w)"
  by (erule J_files) (simp_all add: onMan_def MarkAttempt_def)

lemma download_frame: "J w \<Longrightarrow> J (snd (downloadLoop E i fs kept fenced w))"
  by (induction fs arbitrary: i kept fenced w) (simp_all add: Let_def J_others J_fence split: option.split)

lemma claim_frame: "J w \<Longrightarrow> J (snd (claimOutputKey E n i pre part' lvl w))"
proof (induction n arbitrary: i w)
  case (Suc n)
  let ?w = "ce_others E (AtClaim i) w"
  let ?key = "outputName pre part' lvl (ce_ids E (cw_draws ?w))"
  obtain ok m where c: "ClaimPending (ce_now E ?w) ?key (cw_man ?w) = (ok, m)" by fastforce
  then have "m_files m = m_files (cw_man ?w)" by (auto simp: ClaimPending_def split: if_splits)
  then have "J (?w\<lparr>cw_draws := Suc (cw_draws ?w), cw_man := m\<rparr>)" by (intro J_files [OF J_others [OF Suc.prems, of "AtClaim i"]]) simp
  then show ?case using Suc.IH c by (cases ok) (simp_all add: Let_def)
qed simp

lemma delete_frame: "J w \<Longrightarrow> J (deleteLoop E i fs w)"
  by (induction fs arbitrary: i w) (simp_all add: Let_def J_others J_confirm J_objs)

lemma publish_frame: "J w \<Longrightarrow> J (snd (publishOutput E part ks fi files res w))"
proof -
  assume "J w"
  then have w: "J (ce_others E AtPublish w)" by (rule J_others)
  let ?w = "ce_others E AtPublish w"
  obtain ok m where r: "ReplaceFiles (ce_now E ?w) part ks fi (cw_man ?w) = (ok, m)" by fastforce
  show ?thesis
  proof (cases ok)
    case ok: True
    have "J (?w\<lparr>cw_man := m\<rparr>)" using J_publish [OF w] r ok by simp
    then show ?thesis using r ok by (simp add: publishOutput_def Let_def delete_frame)
  next
    case False
    then have "m = cw_man ?w" using r by (auto simp: ReplaceFiles_eq split: if_splits)
    then show ?thesis using r False w by (simp add: publishOutput_def abandonOutput_def Let_def J_others J_abandon J_confirm J_objs)
  qed
qed

lemma store_frame: "J w \<Longrightarrow> J (snd (storeOutput E part ks fi files res d w))"
  by (simp add: storeOutput_def Let_def J_others J_objs J_release publish_frame)

lemma group_frame: "J w \<Longrightarrow> J (snd (compactGroup E part g fp lvl w))"
proof -
  assume w: "J w"
  obtain r1 w1 where d: "downloadLoop E 0 (tg_Files g) [] [] w = (r1, w1)" by fastforce
  have w1: "J w1" using download_frame [OF w, of 0 "tg_Files g" "[]" "[]"] d by simp
  have c: "J (snd (claimOutputKey E n i pre part lvl w1))" for n i pre by (rule claim_frame [OF w1])
  show ?thesis
  proof (cases r1)
    case (Inr kf)
    obtain kept fenced where kf: "kf = (kept, fenced)" by fastforce
    show ?thesis using w w1 c store_frame unfolding compactGroup_def Let_def d Inr kf
      by (auto split: sum.splits prod.splits option.splits) (metis snd_conv)+
  qed (use w w1 in \<open>simp add: compactGroup_def Let_def d\<close>)
qed

lemma groups_frame: "J w \<Longrightarrow> J (snd (compactGroups E part fp lvl gs acc w))"
proof (induction gs arbitrary: acc w)
  case (Cons g gs)
  obtain r1 w1 where g: "compactGroup E part g fp lvl w = (r1, w1)" by fastforce
  then have "J w1" using group_frame [OF Cons.prems, of g fp lvl] by simp
  then show ?case using Cons.IH g by (cases r1) simp_all
qed simp

lemma Compact_frame: "J w \<Longrightarrow> J (snd (Compact E part files lvl w))"
  by (simp add: Compact_def groups_frame split: list.split option.split)

end

section \<open>A merge touches one partition\<close>

definition none_in :: "string set \<Rightarrow> string \<Rightarrow> 'd cworld \<Rightarrow> bool" where
  "none_in K q w \<longleftrightarrow> (\<forall>f \<in> set (filesOf (m_files (cw_man w)) q). fi_Key f \<notin> K)"

text \<open>The other goroutines put no output name of this pod into a partition that has none.\<close>

definition still :: "('d, 'r) cenv \<Rightarrow> string set \<Rightarrow> bool" where
  "still E K \<longleftrightarrow> (\<forall>p w q. none_in K q w \<longrightarrow> none_in K q (ce_others E p w))"

lemma removeFile_files: "set (filesOf (m_files (snd (removeFileLocked p k m))) q) \<subseteq> set (filesOf (m_files m) q)"
  using removeFile_cases [of p k m] by (auto split: if_splits)

lemma removeFile_elsewhere: "q \<noteq> p \<Longrightarrow> filesOf (m_files (snd (removeFileLocked p k m))) q = filesOf (m_files m) q"
  using removeFile_cases [of p k m] by (auto split: if_splits)

lemma takeOut_elsewhere: "q \<noteq> p \<Longrightarrow> filesOf (m_files (takeOut now p b ks m)) q = filesOf (m_files m) q"
  unfolding takeOut_def by (induction ks arbitrary: m) (simp_all add: removeFile_elsewhere)

lemma addFile_elsewhere: "q \<noteq> p \<Longrightarrow> filesOf (m_files (addFileLocked now p fi m)) q = filesOf (m_files m) q"
  by (cases "mhas (m_byKey m) (fi_Key fi)") (simp add: addFileLocked_def, simp add: addFile_frame)

lemma publish_elsewhere: "ReplaceFiles now p ks fi m = (True, m') \<Longrightarrow> q \<noteq> p \<Longrightarrow> filesOf (m_files m') q = filesOf (m_files m) q"
  by (auto simp: ReplaceFiles_eq addFile_elsewhere takeOut_elsewhere split: if_splits)

lemma abandon_files: "set (filesOf (m_files (AbandonPending now key m)) q) \<subseteq> set (filesOf (m_files m) q)"
  using removeFile_files by (auto simp: AbandonPending_def unregister_def split: option.splits)

interpretation apart: merge_frame E part "\<lambda>w. still E K \<and> q \<noteq> part \<longrightarrow> none_in K q w" for E part K q
proof
  show "still E K \<and> q \<noteq> part \<longrightarrow> none_in K q (ce_others E p w)" if "still E K \<and> q \<noteq> part \<longrightarrow> none_in K q w" for p w
    using that by (auto simp: still_def)
  show "still E K \<and> q \<noteq> part \<longrightarrow> none_in K q v"
    if "still E K \<and> q \<noteq> part \<longrightarrow> none_in K q w" "m_files (cw_man v) = m_files (cw_man w)" for v w
    using that by (simp add: none_in_def)
  show "still E K \<and> q \<noteq> part \<longrightarrow> none_in K q (onMan (AbandonPending now key) w)" if "still E K \<and> q \<noteq> part \<longrightarrow> none_in K q w" for now key w
    using that abandon_files by (fastforce simp: none_in_def onMan_def)
  show "still E K \<and> q \<noteq> part \<longrightarrow> none_in K q (w\<lparr>cw_man := m\<rparr>)"
    if "still E K \<and> q \<noteq> part \<longrightarrow> none_in K q w" "ReplaceFiles now part ks fi (cw_man w) = (True, m)" for w now ks fi m
    using that publish_elsewhere by (auto simp: none_in_def)
qed

lemma Compact_apart: "still E K \<Longrightarrow> q \<noteq> part \<Longrightarrow> none_in K q w \<Longrightarrow> none_in K q (snd (Compact E part files lvl w))"
  using apart.Compact_frame [of E K q part w] by blast

section \<open>A steal\<close>

text \<open>The environment of the steals is that of a scan.\<close>

definition stealScan :: "('d, 'r, 'x) sweepEnv \<Rightarrow> ('d, 'r, 'x) scanEnv" where
  "stealScan X = (sw_scan X)\<lparr>se_c := sweepC X\<rparr>"

lemma stealScan_env: "scan_env (sw_scan X) K C \<Longrightarrow> scan_env (stealScan X) K C"
  by (simp add: scan_env_def stealScan_def sweepC_def stealEnv_def polite_def)

lemma stealScan_sel [simp]: "se_c (stealScan X) = sweepC X" "se_ownership (stealScan X) = se_ownership (sw_scan X)"
  "se_freeze (stealScan X) = se_freeze (sw_scan X)"
  by (simp_all add: stealScan_def)

lemma stealScan_guard: "segmentGuardOf (stealScan X) now w = segmentGuardOf (sw_scan X) now w"
proof -
  have "ce_delFails (sweepC X) = ce_delFails (se_c (sw_scan X))" "ce_prefix (sweepC X) = ce_prefix (se_c (sw_scan X))"
    by (simp_all add: sweepC_def stealEnv_def)
  then have "markerStep (sweepC X) now = markerStep (se_c (sw_scan X)) now" by (intro ext) (simp only: markerStep_def)
  moreover have "se_listMarkers (stealScan X) = se_listMarkers (sw_scan X)" "se_protect (stealScan X) = se_protect (sw_scan X)"
    "se_lister (stealScan X) = se_lister (sw_scan X)" by (simp_all add: stealScan_def)
  ultimately show ?thesis by (simp only: segmentGuardOf_def stealScan_sel)
qed

lemma stealLoop_ok:
  assumes "scan_env (stealScan X) K C" "world_ok (- K) C w" "\<forall>q \<in> set plans. fi_Key ` set (mp_files q) \<inter> K = {}"
    and "stealLoop X part j plans rem outs w = (rem', outs', w')"
  shows "world_ok (- K) C w' \<and> (\<exists>ss. merges (sweepC X) ss w w')
    \<and> (\<forall>q. still (sweepC X) K \<longrightarrow> q \<noteq> part \<longrightarrow> none_in K q w \<longrightarrow> none_in K q w')"
  using assms(2-4)
proof (induction plans arbitrary: j rem outs w)
  case Nil
  then show ?case using merges_none by force
next
  case (Cons plan plans)
  let ?w = "ce_others (sweepC X) (AtMerge j) w"
  let ?sel = "compactableNow ?w part (mp_files plan) (se_freeze (sw_scan X)) (se_mergeNow (sw_scan X) j)"
  have P: "polite (sweepC X) (- K) K C" using assms(1) by (simp add: scan_env_def)
  have ok: "world_ok (- K) C ?w" by (rule politeD(1) [OF P Cons.prems(1)])
  have qm: "merges (sweepC X) [] w ?w" by (rule quiet_merges [OF quiet_by])
  have ap: "none_in K q w \<Longrightarrow> still (sweepC X) K \<Longrightarrow> none_in K q ?w" for q by (simp add: still_def)
  have pl: "\<forall>q \<in> set plans. fi_Key ` set (mp_files q) \<inter> K = {}" using Cons.prems(2) by simp
  have sel: "fi_Key ` set ?sel \<inter> K = {}" using compactable_ok(1) Cons.prems(2) by fastforce
  obtain r v where run: "Compact (sweepC X) part ?sel (mp_level plan) ?w = (r, v)" by fastforce
  obtain ss where M: "world_ok (- K) C v" "merges (sweepC X) ss ?w v"
    using Compact_safe [OF merge_env_of [OF assms(1) sel, unfolded stealScan_sel] ok run] by blast
  have av: "none_in K q ?w \<Longrightarrow> still (sweepC X) K \<Longrightarrow> q \<noteq> part \<Longrightarrow> none_in K q v" for q
    using Compact_apart [of "sweepC X" K q part ?w ?sel "mp_level plan"] run by simp
  note F = stealLoop.simps(2) [of X part j plan plans rem outs w, unfolded Let_def run]
  consider (few) "stealLoop X part (Suc j) plans rem outs ?w = (rem', outs', w')"
    | (ran) rem1 outs1 where "stealLoop X part (Suc j) plans rem1 outs1 v = (rem', outs', w')"
    using Cons.prems(3) unfolding F by (cases "length ?sel < 2"; cases r) auto
  then show ?case
  proof cases
    case few
    from Cons.IH [OF ok pl this] show ?thesis using merges_append [OF _ qm] ap by blast
  next
    case ran
    from Cons.IH [OF M(1) pl this] show ?thesis using merges_append [OF _ merges_append [OF M(2) qm]] ap av by blast
  qed
qed

section \<open>Tier A\<close>

text \<open>Why a partition was taken over: nobody on this pod attempted it recently, and this pod ranks second for it.\<close>

definition stolen_ok :: "('d, 'r, 'x) sweepEnv \<Rightarrow> (string, int option) gomap \<Rightarrow> string \<times> string \<Rightarrow> bool" where
  "stolen_ok X attempts s \<longleftrightarrow> (\<exists>i last self others. (fst s, last) \<in> set attempts \<and> stale X i last
     \<and> RankedOwners (se_ownership (sw_scan X)) (fst s) = snd s # self # others
     \<and> SelfMember (se_ownership (sw_scan X)) = (self, True))"

lemma stolen_mono: "stolen_ok X as s \<Longrightarrow> set as \<subseteq> set bs \<Longrightarrow> stolen_ok X bs s"
  unfolding stolen_ok_def by blast

lemma stealDecision_ok:
  assumes "stealDecision X i part files w = Steal primary plans"
  shows "\<exists>self others. RankedOwners (se_ownership (sw_scan X)) part = primary # self # others
      \<and> SelfMember (se_ownership (sw_scan X)) = (self, True)"
    "q \<in> set plans \<Longrightarrow> set (mp_files q) \<subseteq> set files"
proof -
  let ?r = "RankedOwners (se_ownership (sw_scan X)) part"
  obtain pt where pt: "parsePartitionTime part = Some pt" using assms by (auto simp: stealDecision_def split: option.splits)
  let ?plans = "planPartition (se_policy (sw_scan X)) part files pt (sw_clock X i 3) [] (cw_fence w) (se_freeze (sw_scan X))"
  have d: "\<not> length ?r < 2" "plans = ?plans" "primary = hd ?r" "SelfMember (se_ownership (sw_scan X)) = (?r ! 1, True)"
    using assms by (auto simp: stealDecision_def pt Let_def split: if_splits prod.splits)
  then obtain a b c where "?r = a # b # c" by (cases ?r; cases "tl ?r") auto
  then show "\<exists>self others. ?r = primary # self # others \<and> SelfMember (se_ownership (sw_scan X)) = (self, True)" using d by simp
  let ?pl = "newPlanner (se_policy (sw_scan X)) [] (sw_clock X i 3) [] (cw_fence w) (se_freeze (sw_scan X))"
  obtain ps saws pl' where p: "planPart ?pl part files pt = (ps, saws, pl')" by (metis prod_cases3)
  have "view_ok (pl_freeze ?pl)" by (simp add: newPlanner_def view_ok_initial)
  then show "q \<in> set plans \<Longrightarrow> set (mp_files q) \<subseteq> set files"
    using planPart_files(4) [OF _ p] d(2) p by (auto simp: planPartition_def)
qed

lemma loadGuard_ok:
  assumes "scan_env (stealScan X) K C" "world_ok (- K) C w" "guard = None \<longrightarrow> clean K C w" "loadGuard X i guard w = (g, w')"
  shows "quiet (sweepC X) w w'" "world_ok (- K) C w'" "none_in K q w \<Longrightarrow> none_in K q w'"
proof -
  have same: "quiet (sweepC X) w w" by (rule quiet_refl)
  have "m_files (cw_man w') = m_files (cw_man w)" if "segmentGuardOf (sw_scan X) now w = (y, w')" for now y
  proof -
    have "m_files (cw_man (snd (snd (fold (markerStep E now) listed (ms, n, v))))) = m_files (cw_man v)" for E listed ms n and v :: "'a cworld"
    proof (induction listed arbitrary: ms n v)
      case (Cons km listed)
      obtain ms1 n1 v1 where s: "markerStep E now km (ms, n, v) = (ms1, n1, v1)" by (metis prod_cases3)
      then have "m_files (cw_man v1) = m_files (cw_man v)" by (auto simp: markerStep_def Let_def split: prod.splits if_splits)
      then show ?case using Cons.IH [of ms1 n1 v1] s by simp
    qed simp
    from this [of "se_c (sw_scan X)" _ "[]" 0 w] show ?thesis
      using that by (auto simp: segmentGuardOf_def Let_def split: if_splits option.splits prod.splits) (metis snd_conv)
  qed
  moreover have "quiet (sweepC X) w w' \<and> world_ok (- K) C w'" if c: "clean K C w" "segmentGuardOf (sw_scan X) now w = (y, w')" for now y
    using segmentGuard_ok [OF assms(1) c(1) c(2) [folded stealScan_guard]] by (simp add: clean_def)
  ultimately show "quiet (sweepC X) w w'" "world_ok (- K) C w'" "none_in K q w \<Longrightarrow> none_in K q w'"
    using assms(2-4) same by (auto simp: loadGuard_def none_in_def split: option.splits if_splits prod.splits)
qed

lemma mark_ok:
  "world_ok S C w \<Longrightarrow> world_ok S C (onMan (MarkAttempt part t) w)" "quiet E w (onMan (MarkAttempt part t) w)"
  "none_in K q w \<Longrightarrow> none_in K q (onMan (MarkAttempt part t) w)"
proof -
  have mk: "m_byKey (MarkAttempt part t m) = m_byKey m" "man_ok (MarkAttempt part t m) = man_ok m" for m
    by (simp_all add: MarkAttempt_def man_ok_def files_ok_def guard_ok_def index_ok_def)
  show "world_ok S C w \<Longrightarrow> world_ok S C (onMan (MarkAttempt part t) w)" by (rule ok_man) (simp_all add: mk world_ok_def)
  show "quiet E w (onMan (MarkAttempt part t) w)" by (rule quiet_step) (simp add: served_man mk)
  show "none_in K q w \<Longrightarrow> none_in K q (onMan (MarkAttempt part t) w)" by (simp add: none_in_def onMan_def MarkAttempt_def)
qed

text \<open>One partition of the loop: what a step leads to.\<close>

lemma tierA_step:
  assumes env: "scan_env (sw_scan X) K C" "still (sweepC X) K"
    and w: "world_ok (- K) C w" "guard = None \<Longrightarrow> clean K C w" "none_in K part w"
    and run: "tierALoop X i ((part, la) # rest) guard stolen w = res"
  obtains "res = (stolen, w)"
  | guard' w' new ss where "res = tierALoop X (Suc i) rest guard' (stolen @ new) w'" "world_ok (- K) C w'" "guard' = None \<Longrightarrow> clean K C w'"
      "merges (sweepC X) ss w w'" "\<And>q. q \<noteq> part \<Longrightarrow> none_in K q w \<Longrightarrow> none_in K q w'"
      "\<forall>s \<in> set new. stolen_ok X [(part, la)] s"
proof -
  note found = that
  have E: "scan_env (stealScan X) K C" by (rule stealScan_env [OF env(1)])
  have P: "polite (sweepC X) (- K) K C" using E by (simp add: scan_env_def)
  show thesis
  proof (cases "sw_stopped X i \<or> \<not> stale X i la")
    case True
    then have "res = (if sw_stopped X i then (stolen, w) else tierALoop X (Suc i) rest guard (stolen @ []) w)"
      unfolding run [symmetric] tierALoop.simps(2) by (cases "sw_stopped X i") simp_all
    then consider "res = (stolen, w)" | "res = tierALoop X (Suc i) rest guard (stolen @ []) w" by (auto split: if_splits)
    then show thesis
    proof cases
      case 1
      then show thesis by (rule found(1))
    next
      case 2
      then show thesis by (rule found(2) [OF _ w(1, 2) merges_none]) simp_all
    qed
  next
    case False
    let ?w = "ce_others (sweepC X) (AtSweep i 0) w"
    let ?files = "withoutHeld ?w (filesOf (m_files (cw_man ?w)) part)"
    have ok: "world_ok (- K) C ?w" by (rule politeD(1) [OF P w(1)])
    have cl: "guard = None \<Longrightarrow> clean K C ?w" using clean_others [OF E, of w "AtSweep i 0"] w(2) by simp
    have ap: "none_in K q w \<Longrightarrow> none_in K q ?w" for q using env(2) by (simp add: still_def)
    have m0: "merges (sweepC X) [] w ?w" by (rule quiet_merges [OF quiet_by])
    obtain g w1 where g: "loadGuard X i guard ?w = (g, w1)" by fastforce
    have cl': "guard = None \<longrightarrow> clean K C ?w" using cl by simp
    note G = loadGuard_ok [OF E ok cl' g]
    let ?rel = "ReleasedFiles g ?files (sw_clock X i 2)"
    have m1: "merges (sweepC X) [] w w1" using merges_append [OF quiet_merges [OF G(1)] m0] by simp
    note L = tierALoop.simps(2) [of X i part la rest guard stolen w, unfolded Let_def g prod.case run]
    have step: thesis if "res = tierALoop X (Suc i) rest (Some g) stolen w1"
      using that(1) by (intro found(2) [of "Some g" "[]" w1 "[]"]) (use G m1 ap in auto)
    show thesis
    proof (cases "?files = []")
      case True
      then have "res = tierALoop X (Suc i) rest guard (stolen @ []) ?w" using L False by simp
      then show thesis by (rule found(2) [OF _ ok cl m0 ap]) simp_all
    next
      case f: False
      show thesis
      proof (cases "?rel = []")
        case True
        then show thesis using step L False f by simp
      next
        case r: False
        show thesis
        proof (cases "stealDecision X i part ?rel w1")
          case Skip
          then show thesis using step L False f r by simp
        next
          case (Steal primary plans)
          let ?v = "onMan (MarkAttempt part (sw_clock X i 4)) w1"
          obtain rem outs w2 where s: "stealLoop X part 0 plans [] [] ?v = (rem, outs, w2)" by (metis prod_cases3)
          have "\<forall>f \<in> set ?rel. fi_Key f \<notin> K" using ap [OF w(3)] by (auto simp: ReleasedFiles_filter withoutHeld_def none_in_def)
          then have pl: "\<forall>q \<in> set plans. fi_Key ` set (mp_files q) \<inter> K = {}" using stealDecision_ok(2) [OF Steal] by blast
          have st: "world_ok (- K) C w2 \<and> (\<exists>ss. merges (sweepC X) ss ?v w2)
              \<and> (\<forall>q. still (sweepC X) K \<longrightarrow> q \<noteq> part \<longrightarrow> none_in K q ?v \<longrightarrow> none_in K q w2)"
            by (rule stealLoop_ok [OF E mark_ok(1) [OF G(2)] pl s])
          then obtain ss where S: "world_ok (- K) C w2" "merges (sweepC X) ss ?v w2"
            "\<And>q. q \<noteq> part \<Longrightarrow> none_in K q ?v \<Longrightarrow> none_in K q w2" using env(2) by blast
          have mm: "merges (sweepC X) ss w w2"
            using merges_append [OF S(2) merges_append [OF quiet_merges [OF mark_ok(2)] m1]] by simp
          let ?new = "if outs = [] then [] else [(part, primary)]"
          have res: "res = tierALoop X (Suc i) rest (Some g) (stolen @ ?new) w2" using L False f r Steal s by simp
          obtain self others where "RankedOwners (se_ownership (sw_scan X)) part = primary # self # others"
            "SelfMember (se_ownership (sw_scan X)) = (self, True)" using stealDecision_ok(1) [OF Steal] by blast
          then have "\<forall>s \<in> set ?new. stolen_ok X [(part, la)] s" using False by (auto simp: stolen_ok_def)
          moreover have "none_in K q w2" if "q \<noteq> part" "none_in K q w" for q
            by (rule S(3) [OF that(1) mark_ok(3) [OF G(3) [OF ap [OF that(2)]]]])
          ultimately show thesis by (intro found(2) [OF res S(1) _ mm]) simp_all
        qed
      qed
    qed
  qed
qed

lemma tierALoop_ok:
  assumes env: "scan_env (sw_scan X) K C" "still (sweepC X) K"
    and "world_ok (- K) C w" "guard = None \<Longrightarrow> clean K C w" "distinct (map fst rest)" "\<forall>x \<in> set rest. none_in K (fst x) w"
    and "tierALoop X i rest guard stolen w = (stolen', w')"
  shows "world_ok (- K) C w' \<and> (\<exists>ss. merges (sweepC X) ss w w') \<and> (\<exists>new. stolen' = stolen @ new \<and> (\<forall>s \<in> set new. stolen_ok X rest s))"
  using assms(3-)
proof (induction rest arbitrary: i guard stolen w)
  case Nil
  then show ?case using merges_none by force
next
  case (Cons x rest)
  obtain part la where x: "x = (part, la)" by (cases x)
  have n: "none_in K part w" using Cons.prems(4) x by simp
  show ?case
  proof (rule tierA_step [OF env Cons.prems(1, 2) n Cons.prems(5) [unfolded x]])
    assume "(stolen', w') = (stolen, w)"
    then show ?thesis using Cons.prems(1) merges_none by force
  next
    fix guard' v new ss
    assume 2: "(stolen', w') = tierALoop X (Suc i) rest guard' (stolen @ new) v" "world_ok (- K) C v" "guard' = None \<Longrightarrow> clean K C v"
      "merges (sweepC X) ss w v" "\<And>q. q \<noteq> part \<Longrightarrow> none_in K q w \<Longrightarrow> none_in K q v" "\<forall>s \<in> set new. stolen_ok X [(part, la)] s"
    have "none_in K (fst y) v" if y: "y \<in> set rest" for y
    proof -
      have "fst y \<noteq> part" using Cons.prems(3) x y by (metis distinct.simps(2) fst_conv image_eqI list.map(2) list.set_map)
      moreover have "none_in K (fst y) w" using Cons.prems(4) y by simp
      ultimately show ?thesis by (rule 2(5))
    qed
    then have n: "\<forall>y \<in> set rest. none_in K (fst y) v" by blast
    have d: "distinct (map fst rest)" using Cons.prems(3) by simp
    from Cons.IH [OF 2(2, 3) d n 2(1) [symmetric]] obtain ss' new' where S: "world_ok (- K) C w'" "merges (sweepC X) ss' v w'" "stolen' = (stolen @ new) @ new'"
        "\<forall>s \<in> set new'. stolen_ok X rest s" by blast
    have "stolen_ok X (x # rest) s" if "s \<in> set (new @ new')" for s
      using that 2(6) S(4) stolen_mono [of X "[(part, la)]" s "x # rest"] stolen_mono [of X rest s "x # rest"] x by auto
    then show ?thesis using S(1, 3) merges_append [OF S(2) 2(4)] by (metis append_assoc)
  qed
qed

lemma RunTierA_safe:
  assumes "scan_env (sw_scan X) K C" "still (sweepC X) K" "clean K C w" "RunTierA X w = (stolen, w')"
  shows "world_ok (- K) C w'" "\<exists>ss. merges (sweepC X) ss w w'" "\<forall>s \<in> set stolen. stolen_ok X (AttemptsView (cw_man w)) s"
    "stolen \<noteq> [] \<Longrightarrow> \<not> IsStabilizing (se_ownership (sw_scan X))"
proof -
  have ok: "world_ok (- K) C w" using assms(3) by (simp add: clean_def)
  have d: "map fst (AttemptsView (cw_man w)) = mkeys (m_files (cw_man w))" by (simp add: AttemptsView_def case_prod_beta')
  then have "distinct (map fst (AttemptsView (cw_man w)))" using ok by (simp add: world_ok_def man_ok_def files_ok_def map_ok_def)
  moreover have "none_in K q w" for q using assms(3) tracked_registered [OF ok] by (auto simp: none_in_def clean_def)
  ultimately have "world_ok (- K) C w' \<and> (\<exists>ss. merges (sweepC X) ss w w') \<and> (\<forall>s \<in> set stolen. stolen_ok X (AttemptsView (cw_man w)) s)"
    using tierALoop_ok [OF assms(1, 2) ok, of None "AttemptsView (cw_man w)" 0 "[]" stolen w'] assms(3, 4) ok merges_none
    by (fastforce simp: RunTierA_def split: if_splits)
  then show "world_ok (- K) C w'" "\<exists>ss. merges (sweepC X) ss w w'" "\<forall>s \<in> set stolen. stolen_ok X (AttemptsView (cw_man w)) s" by blast+
  show "stolen \<noteq> [] \<Longrightarrow> \<not> IsStabilizing (se_ownership (sw_scan X))" using assms(4) by (auto simp: RunTierA_def)
qed

section \<open>Tier B\<close>

text \<open>Between the last check of a key and its delete nobody registers a file under the retired key again.\<close>

definition patient :: "('d, 'r, 'x) sweepEnv \<Rightarrow> string set \<Rightarrow> (string \<Rightarrow> 'd) \<Rightarrow> bool" where
  "patient X S C \<longleftrightarrow> (\<forall>i w k. world_ok S C w \<longrightarrow> mhas (m_retired (cw_man w)) k \<longrightarrow> k \<notin> registered (ce_others (sweepC X) (AtSweep i 5) w))"

definition swept_ok :: "('d, 'r, 'x) sweepEnv \<Rightarrow> string \<times> retiredKey \<Rightarrow> bool" where
  "swept_ok X e \<longleftrightarrow> (case e of (key, rk) \<Rightarrow> \<not> isProtected (sw_cfg X) key \<and> rk_Key rk = key \<and> \<not> rk_Deleted rk
     \<and> (\<exists>i. sw_OrphanTTL (sw_cfg X) \<le> timeSub (sw_clock X i 0) (rk_At rk)))"

lemma retired_key: "world_ok S C w \<Longrightarrow> LookupRetired key (cw_man w) = Some rk \<Longrightarrow> rk_Key rk = key"
  by (auto simp: LookupRetired_def world_ok_def man_ok_def guard_ok_def simp del: map_of_eq_Some_iff)

text \<open>Where the checks can end, and what holds there.\<close>

lemma evidence_cases:
  assumes "tierBEvidence X i key w0 = (r, w')"
  defines "w \<equiv> ce_others (sweepC X) (AtSweep i 0) w0"
  defines "w1 \<equiv> ce_others (sweepC X) (AtSweep i 1) w"
  shows "w' \<in> {w, w1, ce_others (sweepC X) (AtSweep i 2) w1}"
    "r = Some rk \<Longrightarrow> LookupRetired key (cw_man w) = Some rk \<and> \<not> rk_Deleted rk \<and> sw_OrphanTTL (sw_cfg X) \<le> timeSub (sw_clock X i 0) (rk_At rk)"
  using assms(1) unfolding w_def w1_def by (auto simp: tierBEvidence_def Let_def not_less split: option.splits if_splits)

lemma others3_ok:
  assumes "polite E S K C" "world_ok S C w0" "w \<in> {ce_others E a w0, ce_others E b (ce_others E a w0), ce_others E c (ce_others E b (ce_others E a w0))}"
  shows "quiet E w0 w \<and> world_ok S C w"
proof -
  have 1: "world_ok S C (ce_others E a w0)" by (rule politeD(1) [OF assms(1, 2)])
  have 2: "world_ok S C (ce_others E b (ce_others E a w0))" by (rule politeD(1) [OF assms(1) 1])
  have 3: "world_ok S C (ce_others E c (ce_others E b (ce_others E a w0)))" by (rule politeD(1) [OF assms(1) 2])
  show ?thesis using assms(3) 1 2 3 quiet_refl quiet_others by (auto intro: quiet.intros)
qed

lemma evidence_ok:
  assumes "polite (sweepC X) S K C" "world_ok S C w" "\<not> isProtected (sw_cfg X) key" "tierBEvidence X i key w = (r, w')"
  shows "quiet (sweepC X) w w' \<and> world_ok S C w' \<and> (\<forall>rk. r = Some rk \<longrightarrow> swept_ok X (key, rk))"
proof -
  note E = evidence_cases [OF assms(4)]
  have "swept_ok X (key, rk)" if "r = Some rk" for rk
    using E(2) [OF that] retired_key [OF politeD(1) [OF assms(1, 2), of "AtSweep i 0"], of key rk] assms(3) by (auto simp: swept_ok_def)
  then show ?thesis using others3_ok [OF assms(1, 2) E(1)] by blast
qed

lemma delete_ok:
  assumes "polite (sweepC X) S K C" "patient X S C" "world_ok S C w" "tierBDelete X i key rk w = (ok, w')"
  shows "quiet (sweepC X) w w' \<and> world_ok S C w'"
proof -
  let ?w1 = "ce_others (sweepC X) (AtSweep i 3) w"
  let ?w2 = "ce_others (sweepC X) (AtSweep i 4) ?w1"
  let ?w3 = "ce_others (sweepC X) (AtSweep i 5) ?w2"
  let ?d = "?w3\<lparr>cw_objs := mdel key (cw_objs ?w3)\<rparr>"
  have seen: "quiet (sweepC X) w v \<and> world_ok S C v" if "v \<in> {?w1, ?w2, ?w3}" for v by (rule others3_ok [OF assms(1, 3) that])
  show ?thesis
  proof (cases "w' \<in> {?w1, ?w2, ?w3}")
    case False
    then have w': "w' = onMan (ConfirmDeleted key) ?d" and ret: "mhas (m_retired (cw_man ?w2)) key"
      using assms(4) by (auto simp: tierBDelete_def Let_def LookupRetired_def mhas_def split: option.splits if_splits)
    have un: "key \<notin> registered ?w3" using assms(2) ret seen [of ?w2] by (simp add: patient_def)
    have ok: "world_ok S C ?d" by (rule ok_del [OF _ un]) (use seen in blast)
    then have "world_ok S C w'" unfolding w' by (rule ok_man) (use ok in \<open>simp_all add: world_ok_def ConfirmDeleted_ok\<close>)
    moreover have "served (sweepC X) w' = served (sweepC X) ?w3"
      unfolding w' by (simp add: served_man served_del [OF un])
    ultimately show ?thesis using seen [of ?w3] quiet_own by blast
  qed (rule seen)
qed

lemma tierBKeys_ok:
  assumes "polite (sweepC X) S K C" "patient X S C" "world_ok S C w" "tierBKeys X mk i keys deleted w = (i', deleted', w')"
  shows "quiet (sweepC X) w w' \<and> world_ok S C w'
    \<and> (\<exists>new. deleted' = deleted @ new \<and> (\<forall>e \<in> set new. swept_ok X e \<and> fst e \<in> set keys \<and> fst e \<notin> set mk))"
  using assms(3-)
proof (induction keys arbitrary: i deleted w)
  case Nil
  then show ?case by (auto intro: quiet_refl)
next
  case (Cons key keys)
  have step: ?case if h: "quiet (sweepC X) w v" "world_ok S C v" "tierBKeys X mk (Suc i) keys (deleted @ fresh) v = (i', deleted', w')"
    "\<forall>e \<in> set fresh. swept_ok X e \<and> fst e = key \<and> key \<notin> set mk" for v fresh
  proof -
    obtain new where "quiet (sweepC X) v w'" "world_ok S C w'" "deleted' = (deleted @ fresh) @ new"
      "\<forall>e \<in> set new. swept_ok X e \<and> fst e \<in> set keys \<and> fst e \<notin> set mk" using Cons.IH [OF h(2, 3)] by blast
    then show ?thesis using quiet_trans [of "sweepC X" v w' w] h(1, 4) by (intro conjI exI [of _ "fresh @ new"]) auto
  qed
  obtain r w1 where e: "tierBEvidence X i key w = (r, w1)" by fastforce
  show ?case
  proof (cases "key \<in> set mk \<or> isProtected (sw_cfg X) key")
    case True
    then show ?thesis using Cons.prems by (intro step [OF quiet_refl, of "[]"]) simp_all
  next
    case False
    note E = evidence_ok [OF assms(1) Cons.prems(1) _ e]
    show ?thesis
    proof (cases r)
      case None
      then show ?thesis using E False e Cons.prems(2) by (intro step [of w1 "[]"]) auto
    next
      case (Some rk)
      obtain ok w2 where d: "tierBDelete X i key rk w1 = (ok, w2)" by fastforce
      have D: "quiet (sweepC X) w1 w2 \<and> world_ok S C w2" using delete_ok [OF assms(1, 2) _ d] E False by blast
      have q: "quiet (sweepC X) w w2" using D E False quiet_trans by blast
      show ?thesis
        using Cons.prems(2) False e Some d D E by (intro step [OF q, of "if ok then [(key, rk)] else []"]) (auto split: bool.splits)
    qed
  qed
qed

lemma groupByDatePrefix_in:
  "k \<in> set ks \<Longrightarrow> (dp, ks) \<in> set (groupByDatePrefix keys base) \<Longrightarrow> k \<in> set keys \<and> datePrefixOf k base = dp"
proof -
  define step where "step = (\<lambda>k out. let dp = datePrefixOf k base in mput dp ((case mget out dp of None \<Rightarrow> [] | Some ks \<Rightarrow> ks) @ [k]) out)"
  have "wfmap (fold step keys []) \<and> (\<forall>dp ks. mget (fold step keys []) dp = Some ks \<longrightarrow> (\<forall>k \<in> set ks. k \<in> set keys \<and> datePrefixOf k base = dp))"
  proof (induction keys rule: rev_induct)
    case (snoc k keys)
    let ?m = "fold step keys []"
    have m: "wfmap ?m" "\<And>dp ks x. mget ?m dp = Some ks \<Longrightarrow> x \<in> set ks \<Longrightarrow> x \<in> set keys \<and> datePrefixOf x base = dp"
      using snoc.IH by blast+
    have "fold step (keys @ [k]) [] = step k ?m" by simp
    moreover have "wfmap (step k ?m)" using m(1) by (auto simp: step_def Let_def)
    moreover have "x \<in> set (keys @ [k]) \<and> datePrefixOf x base = dp" if "mget (step k ?m) dp = Some ks" "x \<in> set ks" for dp ks x
    proof (cases "dp = datePrefixOf k base")
      case True
      then have "ks = (case mget ?m dp of None \<Rightarrow> [] | Some ks \<Rightarrow> ks) @ [k]" using that(1) by (simp add: step_def Let_def go_map)
      then show ?thesis using that(2) True m(2) [of dp _ x] by (cases "mget ?m dp") auto
    next
      case False
      then have "mget ?m dp = Some ks" using that(1) by (simp add: step_def Let_def go_map)
      from m(2) [OF this that(2)] show ?thesis by simp
    qed
    ultimately show ?case by simp
  qed simp
  then have g: "wfmap (groupByDatePrefix keys base)" "\<And>dp ks k. mget (groupByDatePrefix keys base) dp = Some ks \<Longrightarrow> k \<in> set ks \<Longrightarrow> k \<in> set keys \<and> datePrefixOf k base = dp"
    unfolding groupByDatePrefix_def step_def by blast+
  show "k \<in> set ks \<Longrightarrow> (dp, ks) \<in> set (groupByDatePrefix keys base) \<Longrightarrow> k \<in> set keys \<and> datePrefixOf k base = dp"
  proof -
    assume k: "k \<in> set ks" and "(dp, ks) \<in> set (groupByDatePrefix keys base)"
    then have "mget (groupByDatePrefix keys base) dp = Some ks" using g(1) by simp
    from g(2) [OF this k] show ?thesis .
  qed
qed

definition swept_here :: "('d, 'r, 'x) sweepEnv \<Rightarrow> string list \<Rightarrow> nat \<Rightarrow> (string, string list) gomap \<Rightarrow> string \<times> retiredKey \<Rightarrow> bool" where
  "swept_here X peers selfIdx groups e \<longleftrightarrow> swept_ok X e
     \<and> (\<exists>(dp, ks) \<in> set groups. fst e \<in> set ks \<and> sweepsPrefix (se_ownership (sw_scan X)) peers selfIdx dp)"

lemma tierBLoop_ok:
  assumes "polite (sweepC X) S K C" "patient X S C" "world_ok S C w" "tierBLoop X peers si d i groups deleted w = (deleted', w')"
  shows "quiet (sweepC X) w w' \<and> world_ok S C w' \<and> (\<exists>new. deleted' = deleted @ new \<and> (\<forall>e \<in> set new. swept_here X peers si groups e))"
  using assms(3-)
proof (induction groups arbitrary: d i deleted w)
  case Nil
  then show ?case by (auto intro: quiet_refl)
next
  case (Cons x groups)
  obtain dp keys where x: "x = (dp, keys)" by (cases x)
  have mono: "swept_here X peers si groups e \<Longrightarrow> swept_here X peers si (x # groups) e" for e by (auto simp: swept_here_def)
  consider (stop) "sw_stopped X d" | (other) "\<not> sw_stopped X d" "\<not> sweepsPrefix (se_ownership (sw_scan X)) peers si dp"
    | (mine) "\<not> sw_stopped X d" "sweepsPrefix (se_ownership (sw_scan X)) peers si dp" by blast
  then show ?case
  proof cases
    case stop
    then show ?thesis using Cons.prems x by (auto intro: quiet_refl)
  next
    case other
    then have "tierBLoop X peers si (Suc d) i groups deleted w = (deleted', w')" using Cons.prems(2) x by simp
    from Cons.IH [OF Cons.prems(1) this] show ?thesis using mono by blast
  next
    case mine
    obtain i1 del1 w1 where k: "tierBKeys X (KeysUnderPrefix dp (cw_man w)) i keys deleted w = (i1, del1, w1)" by (metis prod_cases3)
    obtain new1 where K: "quiet (sweepC X) w w1" "world_ok S C w1" "del1 = deleted @ new1"
      "\<forall>e \<in> set new1. swept_ok X e \<and> fst e \<in> set keys \<and> fst e \<notin> set (KeysUnderPrefix dp (cw_man w))"
      using tierBKeys_ok [OF assms(1, 2) Cons.prems(1) k] by blast
    have "tierBLoop X peers si (Suc d) i1 groups del1 w1 = (deleted', w')" using Cons.prems(2) x mine k by simp
    from Cons.IH [OF K(2) this] obtain new2 where L: "quiet (sweepC X) w1 w'" "world_ok S C w'" "deleted' = del1 @ new2"
      "\<forall>e \<in> set new2. swept_here X peers si groups e" by blast
    have "\<forall>e \<in> set (new1 @ new2). swept_here X peers si (x # groups) e" using K(4) L(4) mono mine x by (auto simp: swept_here_def)
    then show ?thesis using quiet_trans [OF L(1) K(1)] L(2, 3) K(3) by auto
  qed
qed

lemma RunTierB_safe:
  assumes "polite (sweepC X) S K C" "patient X S C" "world_ok S C w" "RunTierB X w = (r, w')"
  shows "quiet (sweepC X) w w' \<and> world_ok S C w'
    \<and> (\<forall>deleted e. r = Some deleted \<longrightarrow> e \<in> set deleted \<longrightarrow> swept_ok X e \<and> \<not> IsStabilizing (se_ownership (sw_scan X))
        \<and> (\<exists>keys self si. sw_list X w = Some keys \<and> fst e \<in> set keys \<and> SelfMember (se_ownership (sw_scan X)) = (self, True)
             \<and> positionOf self (peersForOwnership (se_ownership (sw_scan X))) = Some si
             \<and> sweepsPrefix (se_ownership (sw_scan X)) (peersForOwnership (se_ownership (sw_scan X))) si (datePrefixOf (fst e) (ce_prefix (sweepC X)))))"
proof -
  let ?o = "se_ownership (sw_scan X)" and ?base = "ce_prefix (sweepC X)"
  have none: ?thesis if "r = Some [] \<or> r = None" "w' = w" using that assms(3) quiet_refl by auto
  show ?thesis
  proof (cases "(r = Some [] \<or> r = None) \<and> w' = w")
    case False
    obtain self ok where sm: "SelfMember ?o = (self, ok)" by fastforce
    obtain si keys deleted where b: "\<not> IsStabilizing ?o" "ok" "positionOf self (peersForOwnership ?o) = Some si" "sw_list X w = Some keys"
      "tierBLoop X (peersForOwnership ?o) si 0 0 (groupByDatePrefix keys ?base) [] w = (deleted, w')" "r = Some deleted"
      using assms(4) False sm by (auto simp: RunTierB_def Let_def split: if_splits option.splits prod.splits)
    have L: "quiet (sweepC X) w w'" "world_ok S C w'" "\<forall>e \<in> set deleted. swept_here X (peersForOwnership ?o) si (groupByDatePrefix keys ?base) e"
      using tierBLoop_ok [OF assms(1-3) b(5)] by auto
    have "fst e \<in> set keys \<and> sweepsPrefix ?o (peersForOwnership ?o) si (datePrefixOf (fst e) ?base)" if "e \<in> set deleted" for e
    proof -
      have "swept_here X (peersForOwnership ?o) si (groupByDatePrefix keys ?base) e" using L(3) that by blast
      then obtain dp ks where "(dp, ks) \<in> set (groupByDatePrefix keys ?base)" "fst e \<in> set ks" "sweepsPrefix ?o (peersForOwnership ?o) si dp"
        by (auto simp: swept_here_def)
      then show ?thesis using groupByDatePrefix_in by metis
    qed
    then show ?thesis using L b sm by (auto simp: swept_here_def)
  qed (use none in blast)
qed

lemma positionOf_nth: "positionOf self peers = Some i \<Longrightarrow> i < length peers \<and> peers ! i = self"
  by (induction peers arbitrary: i) (auto split: if_splits)

text \<open>Pods that see the same peers divide the dates among them.\<close>

lemma one_sweeper:
  assumes "or_hash r = or_hash r'" "positionOf a peers = Some i" "positionOf b peers = Some j" "sweepsPrefix r peers i dp" "sweepsPrefix r' peers j dp"
  shows "a = b"
proof -
  have "i = j" using assms(1, 4, 5) by (simp add: sweepsPrefix_def)
  then show ?thesis using positionOf_nth [OF assms(2)] positionOf_nth [OF assms(3)] by simp
qed

end
