(* ===== verification/SweepProps.thy ===== *)
theory SweepProps
  imports SweepProofs CompactionProps
begin

text \<open>The properties of the orphan sweep, with the examples their witnesses evaluate.\<close>

section \<open>Tier A\<close>

text \<open>C33: Stealing merges is as safe as a scan. A Tier A run, with requests failing and other goroutines acting between all of its
  steps, changes the served rows only by publishes of merges; it steals nothing while the ring is
  stabilizing, and every stolen partition is one that this pod ranks second for and whose last attempt is unknown to this pod or
  older than the threshold.\<close>

theorem tier_a_steals_safely:
  assumes "scan_env (sw_scan X) K C" "still (sweepC X) K" "clean K C w"
  shows "\<exists>stolen w' ss. RunTierA X w = (stolen, w') \<and> world_ok (- K) C w' \<and> merges (sweepC X) ss w w'
    \<and> (IsStabilizing (se_ownership (sw_scan X)) \<longrightarrow> stolen = [])
    \<and> (\<forall>(part, primary) \<in> set stolen. \<exists>self others i lastAttempt. (part, lastAttempt) \<in> set (AttemptsView (cw_man w)) \<and> stale X i lastAttempt
         \<and> RankedOwners (se_ownership (sw_scan X)) part = primary # self # others
         \<and> SelfMember (se_ownership (sw_scan X)) = (self, True))"
proof -
  obtain stolen w' where r: "RunTierA X w = (stolen, w')" by fastforce
  note A = RunTierA_safe [OF assms r]
  obtain ss where "merges (sweepC X) ss w w'" using A(2) by blast
  moreover have "\<forall>(part, primary) \<in> set stolen. \<exists>self others i lastAttempt. (part, lastAttempt) \<in> set (AttemptsView (cw_man w))
      \<and> stale X i lastAttempt \<and> RankedOwners (se_ownership (sw_scan X)) part = primary # self # others
      \<and> SelfMember (se_ownership (sw_scan X)) = (self, True)"
  proof clarify
    fix part primary assume "(part, primary) \<in> set stolen"
    then have "stolen_ok X (AttemptsView (cw_man w)) (part, primary)" using A(3) by blast
    then obtain i la self others where "(part, la) \<in> set (AttemptsView (cw_man w))" "stale X i la"
      "RankedOwners (se_ownership (sw_scan X)) part = primary # self # others" "SelfMember (se_ownership (sw_scan X)) = (self, True)"
      unfolding stolen_ok_def fst_conv snd_conv by blast
    then show "\<exists>self others i lastAttempt. (part, lastAttempt) \<in> set (AttemptsView (cw_man w)) \<and> stale X i lastAttempt
        \<and> RankedOwners (se_ownership (sw_scan X)) part = primary # self # others
        \<and> SelfMember (se_ownership (sw_scan X)) = (self, True)" by (intro exI conjI)
  qed
  ultimately show ?thesis using r A(1, 4) by (intro exI [of _ stolen] exI [of _ w'] exI [of _ ss] conjI) auto
qed

definition exSweepConfig :: sweepConfig where
  "exSweepConfig = NewOrphanSweep \<lparr>sw_Interval = 5 * minute, sw_TierAStalenessMultiplier = 0, sw_TierBInterval = 0, sw_OrphanTTL = 0,
     sw_NeverDeletePrefixes = [], sw_RowGroupSize = 1000, sw_CompressionLevel = 3\<rparr>"

definition exSweepOf :: "string \<Rightarrow> (int list, int, int) sweepEnv" where
  "exSweepOf x = \<lparr>sw_scan = exScan\<lparr>se_ownership := exPodOf x\<rparr>, sw_cfg = exSweepConfig, sw_guarded = True,
     sw_clock = (\<lambda>_ _. 1704067200 * second + hour), sw_stopped = (\<lambda>_. False), sw_list = (\<lambda>w. Some (mkeys (cw_objs w))),
     sw_head = (\<lambda>_ _. Some 0)\<rparr>"

lemma exSweep_others: "ce_others (sweepC (exSweepOf x)) p w = w"
  by (simp add: sweepC_def stealEnv_def exSweepOf_def exScan_def exEnv_def)

lemma exSweep_steals: "(case RunTierA (exSweepOf ''b'') exCWorld of (stolen, w') \<Rightarrow> (stolen, mkeys (cw_objs w'))) = ([(exPart, ''a'')], [exOut])"
  by code_simp

theorem tier_a_steals_safely_witness:
  "\<exists>w' ss. RunTierA (exSweepOf ''b'') exCWorld = ([(exPart, ''a'')], w') \<and> mkeys (cw_objs w') = [exOut]
     \<and> merges (sweepC (exSweepOf ''b'')) ss exCWorld w'"
proof -
  have e: "scan_env (sw_scan (exSweepOf ''b'')) exNames exContent"
    using exScan_env by (simp add: scan_env_def exSweepOf_def)
  have s: "still (sweepC (exSweepOf ''b'')) exNames" by (simp add: still_def exSweep_others)
  have c: "clean exNames exContent exCWorld" using exSched_clean by (simp add: exSched_def)
  obtain stolen w' ss where "RunTierA (exSweepOf ''b'') exCWorld = (stolen, w')" "merges (sweepC (exSweepOf ''b'')) ss exCWorld w'"
    using tier_a_steals_safely [OF e s c] by blast
  then show ?thesis using exSweep_steals by auto
qed

section \<open>Tier B\<close>

text \<open>C19: The sweep deletes only what was let go of. Whatever the listing says and whatever other goroutines do in between, every object that
  Tier B deletes is a Parquet object of the listing without a protected segment in its key, with a retirement record for this key that
  is at least the time-to-live old and whose delete has not landed; the ring is stable and the hash of the object's date
  chooses this pod among the peers. As long as nobody registers a file under a retired key between the last check and the
  delete, no row that is served is lost.\<close>

theorem tier_b_deletes_dead:
  assumes "polite (sweepC X) S K C" "patient X S C" "world_ok S C w"
  shows "\<exists>r w'. RunTierB X w = (r, w') \<and> quiet (sweepC X) w w' \<and> world_ok S C w'
    \<and> (\<forall>deleted key rk. r = Some deleted \<longrightarrow> (key, rk) \<in> set deleted \<longrightarrow>
        hasSuffix key ''.parquet'' \<and> (\<forall>p \<in> set (sw_NeverDeletePrefixes (sw_cfg X)). \<not> containsStr key p)
        \<and> (\<exists>keys. sw_list X w = Some keys \<and> key \<in> set keys) \<and> rk_Key rk = key \<and> \<not> rk_Deleted rk
        \<and> (\<exists>i. sw_OrphanTTL (sw_cfg X) \<le> timeSub (sw_clock X i 0) (rk_At rk))
        \<and> \<not> IsStabilizing (se_ownership (sw_scan X))
        \<and> (\<exists>self si. SelfMember (se_ownership (sw_scan X)) = (self, True)
             \<and> positionOf self (peersForOwnership (se_ownership (sw_scan X))) = Some si
             \<and> sweepsPrefix (se_ownership (sw_scan X)) (peersForOwnership (se_ownership (sw_scan X))) si (datePrefixOf key (ce_prefix (sweepC X)))))"
proof -
  obtain r w' where r: "RunTierB X w = (r, w')" by fastforce
  have p: "\<not> isProtected (sw_cfg X) key \<longleftrightarrow> hasSuffix key ''.parquet'' \<and> (\<forall>p \<in> set (sw_NeverDeletePrefixes (sw_cfg X)). \<not> containsStr key p)" for key
    by (simp add: isProtected_def list_ex_iff)
  note B = RunTierB_safe [OF assms r]
  show ?thesis
  proof (intro exI [of _ r] exI [of _ w'] conjI allI impI)
    fix deleted key rk
    assume d: "r = Some deleted" "(key, rk) \<in> set deleted"
    note D = B [THEN conjunct2, THEN conjunct2, rule_format, OF d]
    show "hasSuffix key ''.parquet''" "\<forall>p \<in> set (sw_NeverDeletePrefixes (sw_cfg X)). \<not> containsStr key p"
      "rk_Key rk = key" "\<not> rk_Deleted rk" "\<exists>i. sw_OrphanTTL (sw_cfg X) \<le> timeSub (sw_clock X i 0) (rk_At rk)"
      using D p [of key] by (auto simp: swept_ok_def)
    show "\<not> IsStabilizing (se_ownership (sw_scan X))" "\<exists>keys. sw_list X w = Some keys \<and> key \<in> set keys" using D by auto
    show "\<exists>self si. SelfMember (se_ownership (sw_scan X)) = (self, True)
             \<and> positionOf self (peersForOwnership (se_ownership (sw_scan X))) = Some si
             \<and> sweepsPrefix (se_ownership (sw_scan X)) (peersForOwnership (se_ownership (sw_scan X))) si (datePrefixOf key (ce_prefix (sweepC X)))"
      using D by auto
  qed (use r B in auto)
qed

text \<open>The world after the merge of the example manifest, with the sources not yet deleted.\<close>

definition exLeftover :: "int list cworld" where
  "exLeftover = \<lparr>cw_man = snd exMerged, cw_objs = [(exA, [3, 1]), (exAB, [1, 2, 3])], cw_fence = [], cw_draws = 0\<rparr>"

lemma exSweep_deletes: "map_option (map fst) (fst (RunTierB (exSweepOf ''c'') exLeftover)) = Some [exA]"
  by code_simp

lemma exLeftover_registered: "registered exLeftover = {exAB}"
proof -
  have "mkeys (m_byKey (cw_man exLeftover)) = [exAB]" by code_simp
  then show ?thesis by (simp add: registered_def)
qed

theorem tier_b_deletes_dead_witness:
  "\<exists>rk w'. RunTierB (exSweepOf ''c'') exLeftover = (Some [(exA, rk)], w') \<and> quiet (sweepC (exSweepOf ''c'')) exLeftover w' \<and> rk_Key rk = exA"
proof -
  have p: "polite (sweepC (exSweepOf ''c'')) {} {} exContent" by (simp add: polite_def exSweep_others)
  have ok: "world_ok {} exContent exLeftover"
    using exMerged_ok unfolding world_ok_def exLeftover_registered by (simp add: exLeftover_def)
  have "patient (exSweepOf ''c'') {} exContent"
    unfolding patient_def exSweep_others by (auto simp: world_ok_def man_ok_def guard_ok_def registered_mhas)
  note T = tier_b_deletes_dead [OF p this ok]
  obtain r w' where R: "RunTierB (exSweepOf ''c'') exLeftover = (r, w')" by fastforce
  then obtain rk where rk: "r = Some [(exA, rk)]" using exSweep_deletes by auto
  have "quiet (sweepC (exSweepOf ''c'')) exLeftover w' \<and> rk_Key rk = exA" using T unfolding R rk prod.inject by (elim exE conjE) (erule allE [of _ "[(exA, rk)]"], simp)
  then show ?thesis using R rk by auto
qed

end
