(* ===== verification/ManifestTenants.thy ===== *)
theory ManifestTenants
  imports ManifestSafety
begin

text \<open>
  The totals per tenant (\<open>tenantAggregates\<close>, \<open>legacyAggregate\<close> of \<open>src/internal/manifest/manifest.go\<close>): in every reachable manifest they
  count, for each tenant and partition, exactly the tracked files whose keys name the tenant, which is what makes the reads of one tenant
  (\<open>GetFilesForRangeTenant\<close>, \<open>GetFilesForRangeUntenanted\<close>) complete.
\<close>

section \<open>What the totals count\<close>

text \<open>The files of a list that belong to a tenant; \<open>None\<close> is the tenant of the keys without tenant segments.\<close>

definition ownedBy :: "(string \<Rightarrow> (string \<times> string) option) \<Rightarrow> (string \<times> string) option \<Rightarrow> fileInfo list \<Rightarrow> int" where
  "ownedBy T tk fs = int (length (filter (\<lambda>fi. T (fi_Key fi) = tk) fs))"

definition aggOf :: "manifest \<Rightarrow> (string \<times> string) option \<Rightarrow> tenantAccum option" where
  "aggOf m tk = (case tk of Some k \<Rightarrow> mget (m_tenantAggregates m) k | None \<Rightarrow> m_legacyAggregate m)"

definition aggFiles :: "manifest \<Rightarrow> (string \<times> string) option \<Rightarrow> int" where
  "aggFiles m tk = (case aggOf m tk of None \<Rightarrow> 0 | Some a \<Rightarrow> ta_files a)"

definition aggCount :: "manifest \<Rightarrow> (string \<times> string) option \<Rightarrow> string \<Rightarrow> int" where
  "aggCount m tk p = (case aggOf m tk of None \<Rightarrow> 0 | Some a \<Rightarrow> partCount a p)"

definition agg_ok :: "manifest \<Rightarrow> bool" where
  "agg_ok m \<longleftrightarrow> (\<forall>tk. aggFiles m tk = ownedBy (tenantKeyFromFileKey m) tk (allFiles (m_files m))
     \<and> (\<forall>p. aggCount m tk p = ownedBy (tenantKeyFromFileKey m) tk (filesOf (m_files m) p)))"

lemma agg_ok_New: "agg_ok New"
  by (simp add: agg_ok_def aggFiles_def aggCount_def aggOf_def ownedBy_def New_def allFiles_def filesOf_def split: option.split)

lemma ownedBy_simps [simp]:
  "ownedBy T tk [] = 0" "ownedBy T tk (as @ bs) = ownedBy T tk as + ownedBy T tk bs"
  "ownedBy T tk (fi # fs) = (if T (fi_Key fi) = tk then 1 else 0) + ownedBy T tk fs" "0 \<le> ownedBy T tk fs"
  by (simp_all add: ownedBy_def)

lemma ownedBy_mset: "mset fs = mset gs \<Longrightarrow> ownedBy T tk fs = ownedBy T tk gs"
  unfolding ownedBy_def by (metis mset_filter size_mset)

lemma ownedBy_keys: "map fi_Key fs = map fi_Key gs \<Longrightarrow> ownedBy T tk fs = ownedBy T tk gs"
proof -
  have "ownedBy T tk xs = int (length (filter (\<lambda>k. T k = tk) (map fi_Key xs)))" for xs
    by (simp add: ownedBy_def filter_map comp_def)
  then show "map fi_Key fs = map fi_Key gs \<Longrightarrow> ?thesis" by metis
qed

lemma ownedBy_pos: "0 < ownedBy T tk fs \<longleftrightarrow> (\<exists>fi \<in> set fs. T (fi_Key fi) = tk)"
  by (auto simp: ownedBy_def filter_empty_conv)

lemma ownedBy_part: "wfmap fs \<Longrightarrow> ownedBy T tk (filesOf fs p) \<le> ownedBy T tk (allFiles fs)"
proof (induction fs)
  case (Cons x fs)
  obtain q l where x: "x = (q, l)" by (cases x)
  have IH: "ownedBy T tk (filesOf fs p) \<le> ownedBy T tk (allFiles fs)" using Cons by simp
  show ?case
  proof (cases "q = p")
    case False
    then have "filesOf (x # fs) p = filesOf fs p" by (simp add: x filesOf_def)
    then show ?thesis using IH by (simp add: x allFiles_def add_increasing)
  qed (simp add: x filesOf_def allFiles_def)
qed (simp add: filesOf_def)

section \<open>The operations on one total\<close>

lemma widen_frame [simp]: "ta_files (widen p a) = ta_files a" "ta_partitions (widen p a) = ta_partitions a"
  by (simp_all add: widen_def Let_def split: option.split)

lemma partCount_widen [simp]: "partCount (widen p a) q = partCount a q"
  by (simp add: partCount_def)

lemma accumAdd_counts:
  "ta_files (accumAdd p fi a) = ta_files a + 1"
  "partCount (accumAdd p fi a) q = partCount a q + (if q = p then 1 else 0)"
  by (simp_all add: accumAdd_def partCount_def go_map)

lemma recompute_frame [simp]:
  "ta_files (recomputeTenantTimeBounds a) = ta_files a" "ta_partitions (recomputeTenantTimeBounds a) = ta_partitions a"
proof -
  have "ta_files (fold (\<lambda>(p, n) a. widen p a) ps b) = ta_files b \<and> ta_partitions (fold (\<lambda>(p, n) a. widen p a) ps b) = ta_partitions b" for ps b
    by (induction ps arbitrary: b) auto
  note F = this [of "ta_partitions a" "a\<lparr>ta_minTimeNs := 0, ta_maxTimeNs := 0\<rparr>"]
  show "ta_files (recomputeTenantTimeBounds a) = ta_files a" "ta_partitions (recomputeTenantTimeBounds a) = ta_partitions a"
    using F by (simp_all add: recomputeTenantTimeBounds_def)
qed

lemma accumRemove_counts:
  assumes "1 \<le> partCount a p"
  shows "ta_files (accumRemove p fi a) = ta_files a - 1"
    "partCount (accumRemove p fi a) q = partCount a q - (if q = p then 1 else 0)"
proof -
  have c: "ta_partitions (accumRemove p fi a) = (if partCount a p - 1 \<le> 0 then mdel p (ta_partitions a) else mput p (partCount a p - 1) (ta_partitions a))"
    by (simp add: accumRemove_def Let_def split: option.split)
  show "ta_files (accumRemove p fi a) = ta_files a - 1"
    by (simp add: accumRemove_def Let_def split: option.split)
  show "partCount (accumRemove p fi a) q = partCount a q - (if q = p then 1 else 0)"
    unfolding partCount_def [of "accumRemove p fi a"] c using assms by (auto simp: go_map partCount_def)
qed

lemma onAdd_counts:
  "aggFiles (updateTenantAggregateOnAdd p fi m) tk = aggFiles m tk + (if tenantKeyFromFileKey m (fi_Key fi) = tk then 1 else 0)"
  "aggCount (updateTenantAggregateOnAdd p fi m) tk q
    = aggCount m tk q + (if tenantKeyFromFileKey m (fi_Key fi) = tk \<and> q = p then 1 else 0)"
proof -
  let ?T = "tenantKeyFromFileKey m (fi_Key fi)"
  have eq: "aggOf (updateTenantAggregateOnAdd p fi m) tk
      = (if ?T = tk then Some (accumAdd p fi (case aggOf m tk of None \<Rightarrow> emptyAccum | Some a \<Rightarrow> a)) else aggOf m tk)" for tk
    by (cases ?T; cases tk) (auto simp: aggOf_def updateTenantAggregateOnAdd_def Let_def go_map)
  show "aggFiles (updateTenantAggregateOnAdd p fi m) tk = aggFiles m tk + (if ?T = tk then 1 else 0)"
    by (simp add: aggFiles_def eq accumAdd_counts emptyAccum_def split: option.split)
  show "aggCount (updateTenantAggregateOnAdd p fi m) tk q = aggCount m tk q + (if ?T = tk \<and> q = p then 1 else 0)"
    by (simp add: aggCount_def eq accumAdd_counts split: option.split) (simp add: emptyAccum_def partCount_def)
qed

lemma onRemove_counts:
  fixes m p fi
  defines "T \<equiv> tenantKeyFromFileKey m (fi_Key fi)"
  assumes "1 \<le> aggCount m T p"
  shows "aggFiles (updateTenantAggregateOnRemove p fi m) tk = aggFiles m tk - (if T = tk then 1 else 0)"
    "aggCount (updateTenantAggregateOnRemove p fi m) tk q
      = (if T = tk \<and> aggFiles m tk = 1 then 0 else aggCount m tk q - (if T = tk \<and> q = p then 1 else 0))"
proof -
  obtain a where a: "aggOf m T = Some a" "1 \<le> partCount a p"
    using assms(2) by (cases "aggOf m T") (auto simp: aggCount_def)
  note C = accumRemove_counts [OF a(2), of fi]
  have eq: "aggOf (updateTenantAggregateOnRemove p fi m) tk
      = (if T = tk then if ta_files a = 1 then None else Some (accumRemove p fi a) else aggOf m tk)"
    using a(1) C(1) by (cases T) (auto simp: T_def aggOf_def updateTenantAggregateOnRemove_def Let_def go_map split: option.splits)
  show "aggFiles (updateTenantAggregateOnRemove p fi m) tk = aggFiles m tk - (if T = tk then 1 else 0)"
    using a C by (auto simp: aggFiles_def eq)
  show "aggCount (updateTenantAggregateOnRemove p fi m) tk q
      = (if T = tk \<and> aggFiles m tk = 1 then 0 else aggCount m tk q - (if T = tk \<and> q = p then 1 else 0))"
    using a C by (auto simp: aggFiles_def aggCount_def eq)
qed

section \<open>Every operation of the manifest\<close>

lemma tenantKey_frame:
  "m_templateSegments n = m_templateSegments m \<Longrightarrow> m_prefixTemplate n = m_prefixTemplate m \<Longrightarrow> tenantKeyFromFileKey n = tenantKeyFromFileKey m"
  by (simp add: tenantKeyFromFileKey_def fun_eq_iff)

definition sameTotals :: "manifest \<Rightarrow> manifest \<Rightarrow> bool" where
  "sameTotals n m \<longleftrightarrow> m_files n = m_files m \<and> m_tenantAggregates n = m_tenantAggregates m \<and> m_legacyAggregate n = m_legacyAggregate m
     \<and> m_templateSegments n = m_templateSegments m \<and> m_prefixTemplate n = m_prefixTemplate m"

lemma agg_cong:
  assumes "m_tenantAggregates n = m_tenantAggregates m" "m_legacyAggregate n = m_legacyAggregate m"
  shows "aggFiles n = aggFiles m \<and> aggCount n = aggCount m"
proof -
  have "aggOf n = aggOf m" using assms by (simp add: fun_eq_iff aggOf_def split: option.split)
  then show ?thesis by (simp add: fun_eq_iff aggFiles_def aggCount_def)
qed

lemma agg_ok_frame: "sameTotals n m \<Longrightarrow> agg_ok m \<Longrightarrow> agg_ok n"
  using tenantKey_frame [of n m] agg_cong [of n m] by (simp add: sameTotals_def agg_ok_def)

lemma template_frames [simp]:
  "m_templateSegments (updateTenantAggregateOnAdd p fi m) = m_templateSegments m"
  "m_prefixTemplate (updateTenantAggregateOnAdd p fi m) = m_prefixTemplate m"
  "m_templateSegments (updateTenantAggregateOnRemove p fi m) = m_templateSegments m"
  "m_prefixTemplate (updateTenantAggregateOnRemove p fi m) = m_prefixTemplate m"
  "m_files (updateTenantAggregateOnRemove p fi m) = m_files m"
  by (simp_all add: updateTenantAggregateOnAdd_def updateTenantAggregateOnRemove_def Let_def split: option.split)

lemma addFile_agg:
  assumes "agg_ok m" "wfmap (m_files m)"
  shows "agg_ok (addFileLocked now p fi m)"
proof (cases "mhas (m_byKey m) (fi_Key fi)")
  case False
  let ?n = "addFileLocked now p fi m"
  have s: "m_templateSegments ?n = m_templateSegments m" "m_prefixTemplate ?n = m_prefixTemplate m"
    by (simp_all add: addFileLocked_def noteAddedLocked_def widenTimes_def Let_def split: option.split)
  have t: "tenantKeyFromFileKey ?n = tenantKeyFromFileKey m" by (rule tenantKey_frame [OF s])
  define m2 where "m2 = (let m1 = noteAddedLocked (fi_Key fi) now m in
      m1\<lparr>m_files := mput p (filesOf (m_files m1) p @ [fi]) (m_files m1), m_byKey := mput (fi_Key fi) p (m_byKey m1)\<rparr>)"
  have w: "m_tenantAggregates (widenTimes p x) = m_tenantAggregates x" "m_legacyAggregate (widenTimes p x) = m_legacyAggregate x" for x
    by (simp_all add: widenTimes_def Let_def split: option.split)
  have m2: "m_tenantAggregates ?n = m_tenantAggregates (updateTenantAggregateOnAdd p fi m2)"
      "m_legacyAggregate ?n = m_legacyAggregate (updateTenantAggregateOnAdd p fi m2)"
    using False by (simp_all add: addFileLocked_def m2_def Let_def w)
  have m2': "m_tenantAggregates m2 = m_tenantAggregates m" "m_legacyAggregate m2 = m_legacyAggregate m"
      "m_templateSegments m2 = m_templateSegments m" "m_prefixTemplate m2 = m_prefixTemplate m"
    by (simp_all add: m2_def noteAddedLocked_def Let_def)
  have k: "tenantKeyFromFileKey m2 = tenantKeyFromFileKey m" by (rule tenantKey_frame [OF m2'(3, 4)])
  have c: "aggFiles ?n tk = aggFiles m tk + (if tenantKeyFromFileKey m (fi_Key fi) = tk then 1 else 0)"
    "aggCount ?n tk q = aggCount m tk q + (if tenantKeyFromFileKey m (fi_Key fi) = tk \<and> q = p then 1 else 0)" for tk q
    using agg_cong [OF m2(1, 2)] agg_cong [OF m2'(1, 2)] onAdd_counts [of p fi m2] by (simp_all add: k)
  have "mset (allFiles (m_files ?n)) + mset (filesOf (m_files m) p) = mset (allFiles (m_files m) @ filesOf (m_files m) p @ [fi])"
    using mset_mput [OF assms(2), of p "filesOf (m_files m) p @ [fi]"] addFile_frame(1) [OF False] by simp
  then have "mset (allFiles (m_files ?n)) = mset (fi # allFiles (m_files m))" by simp
  then have "ownedBy T tk (allFiles (m_files ?n)) = ownedBy T tk (fi # allFiles (m_files m))" for T tk by (rule ownedBy_mset)
  moreover have "filesOf (m_files ?n) q = filesOf (m_files m) q @ (if q = p then [fi] else [])" for q
    by (simp add: addFile_frame(1) [OF False] filesOf_mput)
  ultimately show ?thesis using assms(1) by (simp add: agg_ok_def c t)
qed (use assms in \<open>simp add: addFileLocked_def\<close>)

lemma removeFile_agg:
  assumes "agg_ok m" "wfmap (m_files m)"
  shows "agg_ok (snd (removeFileLocked p key m))"
proof (cases "find (\<lambda>fi. fi_Key fi = key) (filesOf (m_files m) p)")
  case (Some fi)
  let ?T = "tenantKeyFromFileKey m" and ?n = "snd (removeFileLocked p key m)"
  define m1 where "m1 = m\<lparr>m_totalFiles := m_totalFiles m - 1, m_totalBytes := m_totalBytes m - fi_Size fi\<rparr>"
  have fi: "fi \<in> set (filesOf (m_files m) p)" using Some by (auto simp: find_Some_iff)
  have k: "tenantKeyFromFileKey m1 = ?T" by (rule tenantKey_frame) (simp_all add: m1_def)
  have e: "aggFiles m1 = aggFiles m \<and> aggCount m1 = aggCount m" by (rule agg_cong) (simp_all add: m1_def)
  have n: "m_tenantAggregates ?n = m_tenantAggregates (updateTenantAggregateOnRemove p fi m1)"
    "m_legacyAggregate ?n = m_legacyAggregate (updateTenantAggregateOnRemove p fi m1)"
    "m_files ?n = (if remove1 fi (filesOf (m_files m) p) = [] then mdel p (m_files m) else mput p (remove1 fi (filesOf (m_files m) p)) (m_files m))"
    using Some by (simp_all add: removeFileLocked_def Let_def rebuildIndex_def m1_def)
  have "1 \<le> ownedBy ?T (?T (fi_Key fi)) (filesOf (m_files m) p)" using ownedBy_pos [of ?T "?T (fi_Key fi)"] fi by (auto simp: int_one_le_iff_zero_less)
  then have "1 \<le> aggCount m1 (tenantKeyFromFileKey m1 (fi_Key fi)) p" using assms(1) by (simp add: e k agg_ok_def)
  note C = onRemove_counts [OF this, unfolded k]
  have t: "tenantKeyFromFileKey ?n = ?T"
    by (rule tenantKey_frame) (use Some in \<open>simp_all add: removeFileLocked_def Let_def rebuildIndex_def\<close>)
  have f: "filesOf (m_files ?n) q = (if q = p then remove1 fi (filesOf (m_files m) p) else filesOf (m_files m) q)" for q
    by (simp add: n(3) filesOf_mput filesOf_mdel)
  have "mset (allFiles (m_files ?n)) + mset (filesOf (m_files m) p) = mset (allFiles (m_files m)) + mset (remove1 fi (filesOf (m_files m) p))"
    using mset_mput [OF assms(2), of p "remove1 fi (filesOf (m_files m) p)"] mset_mdel [OF assms(2), of p] unfolding n(3)
    by (auto simp del: mset_remove1)
  moreover have "mset (filesOf (m_files m) p) = mset (fi # remove1 fi (filesOf (m_files m) p))" using fi by (simp add: insert_DiffM)
  ultimately have all: "mset (fi # allFiles (m_files ?n)) = mset (allFiles (m_files m))" by (simp add: union_iff del: mset_remove1)
  have o: "ownedBy ?T tk (allFiles (m_files ?n)) = ownedBy ?T tk (allFiles (m_files m)) - (if ?T (fi_Key fi) = tk then 1 else 0)" for tk
    using ownedBy_mset [OF all, of ?T tk] by simp
  have oq: "ownedBy ?T tk (filesOf (m_files ?n) q) = ownedBy ?T tk (filesOf (m_files m) q) - (if ?T (fi_Key fi) = tk \<and> q = p then 1 else 0)" for tk q
    using ownedBy_mset [of "filesOf (m_files m) p" "fi # remove1 fi (filesOf (m_files m) p)" ?T tk] fi by (auto simp: f)
  have "ownedBy ?T tk (filesOf (m_files ?n) q) = 0" if z: "?T (fi_Key fi) = tk" "ownedBy ?T tk (allFiles (m_files m)) = 1" for tk q
  proof -
    have w: "wfmap (m_files ?n)" unfolding n(3) using assms(2) by (auto intro: distinct_update distinct_delete)
    have "ownedBy ?T tk (allFiles (m_files ?n)) = 0" using o [of tk] z by simp
    then show ?thesis using ownedBy_part [OF w, of ?T tk q] ownedBy_simps(4) [of ?T tk "filesOf (m_files ?n) q"] by simp
  qed
  then show ?thesis using assms(1) C agg_cong [OF n(1, 2)] e oq o by (auto simp: agg_ok_def t)
qed (use assms in \<open>simp add: removeFileLocked_def\<close>)


lemma removeFile_wf: "wfmap (m_files m) \<Longrightarrow> wfmap (m_files (snd (removeFileLocked p key m)))"
  using removeFile_cases [of p key m] by (auto intro: distinct_update distinct_delete)

lemma retire_same: "sameTotals (retireLocked now rk m) m"
  by (simp add: sameTotals_def retireLocked_def Let_def)

lemma retire_agg: "agg_ok m \<Longrightarrow> agg_ok (retireLocked now rk m)"
  by (rule agg_ok_frame [OF retire_same])

lemma takeOut_agg:
  "agg_ok m \<Longrightarrow> wfmap (m_files m) \<Longrightarrow> agg_ok (takeOut now p b ks m) \<and> wfmap (m_files (takeOut now p b ks m))"
  unfolding takeOut_def by (induction ks arbitrary: m) (simp_all add: retire_agg removeFile_agg removeFile_wf)

lemma unregister_agg: "agg_ok m \<Longrightarrow> wfmap (m_files m) \<Longrightarrow> agg_ok (snd (unregister k m))"
  by (simp add: unregister_def removeFile_agg split: option.split)

lemma updateFile_agg:
  assumes "agg_ok m" "wfmap (m_files m)" "\<And>fi. fi_Key (f fi) = fi_Key fi"
  shows "agg_ok (updateFile key f m)"
proof (cases "updateFile key f m = m")
  case False
  then obtain p where p: "updateFile key f m = m\<lparr>m_files := mput p (updateFirst key f (filesOf (m_files m) p)) (m_files m)\<rparr>"
    by (auto simp: updateFile_def split: option.splits if_splits)
  let ?l = "filesOf (m_files m) p" and ?n = "updateFile key f m"
  have k: "map fi_Key (updateFirst key f ?l) = map fi_Key ?l" by (rule map_updateFirst) (rule assms(3))
  have f: "ownedBy T tk (filesOf (m_files ?n) q) = ownedBy T tk (filesOf (m_files m) q)" for T tk q
    using ownedBy_keys [OF k] by (simp add: p filesOf_mput)
  have b: "ownedBy T tk (allFiles (m_files ?n) @ ?l) = ownedBy T tk (allFiles (m_files m) @ updateFirst key f ?l)" for T tk
    by (rule ownedBy_mset) (use mset_mput [OF assms(2), of p "updateFirst key f ?l"] in \<open>simp add: p\<close>)
  have a: "ownedBy T tk (allFiles (m_files ?n)) = ownedBy T tk (allFiles (m_files m))" for T tk
    using b [of T tk] ownedBy_keys [OF k, of T tk] by simp
  have t: "tenantKeyFromFileKey ?n = tenantKeyFromFileKey m" by (rule tenantKey_frame) (simp_all add: p)
  have "aggFiles ?n = aggFiles m \<and> aggCount ?n = aggCount m" by (rule agg_cong) (simp_all add: p)
  then show ?thesis using assms(1) f a t by (simp add: agg_ok_def)
qed (use assms in simp)

lemma enrich_key [simp]: "fi_Key (enrich r lo hi fi) = fi_Key fi"
  by (simp add: enrich_def Let_def)

lemma Enrich_agg:
  assumes "agg_ok m" "wfmap (m_files m)"
  shows "agg_ok (EnrichFileMetadata key r lo hi m)"
proof -
  let ?m = "updateFile key (enrich r lo hi) m"
  have u: "agg_ok ?m" by (rule updateFile_agg [OF assms]) simp
  have "agg_ok (?m\<lparr>m_tenantAggregates := mput tk (a\<lparr>ta_rows := x\<rparr>) (m_tenantAggregates ?m)\<rparr>)"
    if a: "mget (m_tenantAggregates ?m) tk = Some a" for tk a x
  proof -
    let ?n = "?m\<lparr>m_tenantAggregates := mput tk (a\<lparr>ta_rows := x\<rparr>) (m_tenantAggregates ?m)\<rparr>"
    have o: "aggOf ?n k = (if k = Some tk then Some (a\<lparr>ta_rows := x\<rparr>) else aggOf ?m k)" for k
      by (simp add: aggOf_def go_map split: option.split)
    have "aggFiles ?n k = aggFiles ?m k" "aggCount ?n k q = aggCount ?m k q" for k q
      using a by (simp_all add: aggFiles_def aggCount_def o) (simp_all add: aggOf_def partCount_def)
    moreover have "tenantKeyFromFileKey ?n = tenantKeyFromFileKey ?m" by (rule tenantKey_frame) simp_all
    ultimately show ?thesis using u by (simp add: agg_ok_def)
  qed
  then show ?thesis using assms(1) u by (auto simp: EnrichFileMetadata_def Let_def split: option.split)
qed

section \<open>Rebuilding the totals\<close>

lemma fold_onAdd:
  "tenantKeyFromFileKey (fold (updateTenantAggregateOnAdd p) fs m) = tenantKeyFromFileKey m
    \<and> aggFiles (fold (updateTenantAggregateOnAdd p) fs m) tk = aggFiles m tk + ownedBy (tenantKeyFromFileKey m) tk fs
    \<and> aggCount (fold (updateTenantAggregateOnAdd p) fs m) tk q
      = aggCount m tk q + (if q = p then ownedBy (tenantKeyFromFileKey m) tk fs else 0)"
proof (induction fs arbitrary: m)
  case (Cons fi fs)
  have t: "tenantKeyFromFileKey (updateTenantAggregateOnAdd p fi m) = tenantKeyFromFileKey m" by (rule tenantKey_frame) simp_all
  show ?case using Cons [of "updateTenantAggregateOnAdd p fi m"] by (simp add: t onAdd_counts)
qed simp

lemma fold_rebuild:
  assumes "wfmap fs"
  shows "tenantKeyFromFileKey (fold (\<lambda>(p, l) m. fold (updateTenantAggregateOnAdd p) l m) fs m) = tenantKeyFromFileKey m
    \<and> aggFiles (fold (\<lambda>(p, l) m. fold (updateTenantAggregateOnAdd p) l m) fs m) tk
      = aggFiles m tk + ownedBy (tenantKeyFromFileKey m) tk (allFiles fs)
    \<and> aggCount (fold (\<lambda>(p, l) m. fold (updateTenantAggregateOnAdd p) l m) fs m) tk q
      = aggCount m tk q + ownedBy (tenantKeyFromFileKey m) tk (filesOf fs q)"
  using assms
proof (induction fs arbitrary: m)
  case (Cons x fs)
  obtain p l where x: "x = (p, l)" by (cases x)
  let ?m = "fold (updateTenantAggregateOnAdd p) l m"
  have "filesOf fs p = []" using Cons.prems by (simp add: x filesOf_notin)
  then have f: "ownedBy T tk (filesOf (x # fs) q) = (if q = p then ownedBy T tk l else 0) + ownedBy T tk (filesOf fs q)" for T
    by (auto simp: x filesOf_def)
  show ?case using Cons.IH [of ?m] Cons.prems fold_onAdd [of p l m tk q] f by (simp add: x allFiles_def)
qed (simp add: allFiles_def filesOf_def)

lemma rebuild_agg:
  assumes "wfmap (m_files m)"
  shows "agg_ok (rebuildTenantAggregates m)"
proof -
  let ?m = "m\<lparr>m_tenantAggregates := [], m_legacyAggregate := None\<rparr>"
  have t: "tenantKeyFromFileKey ?m = tenantKeyFromFileKey m" by (rule tenantKey_frame) simp_all
  have z: "aggFiles ?m tk = 0" "aggCount ?m tk q = 0" for tk q by (simp_all add: aggFiles_def aggCount_def aggOf_def split: option.split)
  show ?thesis using fold_rebuild [OF assms, of ?m] unfolding agg_ok_def rebuildAggregates_frame(1)
    unfolding rebuildTenantAggregates_def by (simp add: t z)
qed

lemma applyLocked_agg:
  assumes "agg_ok m" "man_ok m" "wfmap files"
  shows "agg_ok (snd (applyLocked v now files ls sk m))"
proof -
  obtain fs gone where r: "refreshedFiles m files ls sk = (fs, gone)" by fastforce
  have w: "wfmap fs" using refreshed_keys(1) [OF assms(2, 3) r] by (simp add: map_ok_def)
  let ?m1 = "rebuildTenantAggregates (rebuildByKey (m\<lparr>m_files := fs\<rparr>))" and ?n = "installFiles fs ls sk now m"
  have "agg_ok ?m1" by (rule rebuild_agg) (simp add: rebuildByKey_def w)
  moreover have "sameTotals ?n ?m1" by (simp add: sameTotals_def) (simp add: installFiles_def rebuildByKey_def rebuildIndex_def Let_def)
  ultimately have "agg_ok ?n" using agg_ok_frame by blast
  moreover have "sameTotals (afterAcceptedRefreshLocked gone ls sk now ?n) ?n"
    by (simp add: sameTotals_def afterAcceptedRefreshLocked_def pruneRetiredLocked_def Let_def)
  ultimately have "agg_ok (afterAcceptedRefreshLocked gone ls sk now ?n)" using agg_ok_frame by blast
  then show ?thesis using assms(1) by (simp add: applyLocked_def r)
qed

section \<open>The invariant\<close>

definition tenants_ok :: "manifest \<Rightarrow> bool" where
  "tenants_ok m \<longleftrightarrow> man_ok m \<and> agg_ok m"

lemma man_wf: "man_ok m \<Longrightarrow> wfmap (m_files m)"
  by (simp add: man_ok_def files_ok_def map_ok_def)

lemma quiet_ops_same:
  "sameTotals (snd (ClaimPending now key m)) m" "sameTotals (ReleasePending key m) m" "sameTotals (snd (Unretire key m)) m"
  "sameTotals (snd (UnretireIfReplacedBy key r m)) m" "sameTotals (ConfirmDeleted key m) m" "sameTotals (Hold key m) m" "sameTotals (Release key m) m"
  by (simp_all add: sameTotals_def ClaimPending_def ReleasePending_def Unretire_def UnretireIfReplacedBy_def ConfirmDeleted_def Hold_def Release_def
      split: option.split)

lemma manStep_agg:
  assumes "agg_ok m" "man_ok m" "manPre op m"
  shows "agg_ok (manStep op m)"
proof (cases op)
  case (OReplace now p ks fi)
  then show ?thesis using takeOut_agg [OF assms(1) man_wf [OF assms(2)]] assms(1) by (simp add: ReplaceFiles_eq addFile_agg)
next
  case (OBucket key b)
  then show ?thesis using updateFile_agg [OF assms(1) man_wf [OF assms(2)]] by (simp add: SetFileBucket_def)
next
  case (ORefresh v now files ls sk)
  then show ?thesis using assms by (simp add: applyLocked_agg)
qed (use assms man_wf [OF assms(2)] quiet_ops_same [THEN agg_ok_frame, OF assms(1)] in \<open>simp_all add: AddFile_def AddFileUnlessRetired_def
  addFile_agg RemoveFile_def RemoveFileIfPresent_def case_prod_beta retire_agg removeFile_agg AbandonPending_def Retire_def unregister_agg Enrich_agg\<close>)

interpretation tenant_machine: machine manPre manStep tenants_ok
  by unfold_locales (simp add: tenants_ok_def manStep_agg manStep_ok)

section \<open>The files of one tenant\<close>

text \<open>The tracked files that a range can hold rows of.\<close>

definition tracked_in :: "manifest \<Rightarrow> int \<Rightarrow> int \<Rightarrow> fileInfo \<Rightarrow> bool" where
  "tracked_in m lo hi fi \<longleftrightarrow>
     (\<exists>p t. fi \<in> set (filesOf (m_files m) p) \<and> parsePartitionTime p = Some t \<and> t \<le> hi \<and> lo < t + hour \<and> inFileRange lo hi fi)"

lemma filesInAccum_set:
  assumes "man_ok m"
  shows "set (filesInAccumRangeLocked a lo hi kp m) =
    {fi. \<exists>p t. fi \<in> set (filesOf (m_files m) p) \<and> parsePartitionTime p = Some t \<and> t \<le> hi \<and> lo < t + hour \<and> inFileRange lo hi fi
       \<and> (kp = [] \<or> hasPrefix (fi_Key fi) kp) \<and> 0 < partCount a p}"
proof -
  have I: "index_ok m" using assms by (simp add: man_ok_def)
  have e: "fi \<in> set (filesInAccumRangeLocked a lo hi kp m) \<longleftrightarrow>
      (\<exists>e \<in> set (rangePartitions lo hi m). 0 < partCount a (pe_key e) \<and> fi \<in> set (filesOf (m_files m) (pe_key e))
        \<and> (kp = [] \<or> hasPrefix (fi_Key fi) kp) \<and> inFileRange lo hi fi)" for fi
    by (auto simp: filesInAccumRangeLocked_def not_le)
  have k: "p \<in> set (mkeys (m_files m))" if "fi \<in> set (filesOf (m_files m) p)" for fi p
    using that filesOf_notin by (metis empty_iff list.set(1))
  show ?thesis unfolding set_eq_iff e rangePartitions_set [OF I] mem_Collect_eq
  proof (intro allI iffI)
    fix fi
    assume "\<exists>p t. fi \<in> set (filesOf (m_files m) p) \<and> parsePartitionTime p = Some t \<and> t \<le> hi \<and> lo < t + hour \<and> inFileRange lo hi fi
       \<and> (kp = [] \<or> hasPrefix (fi_Key fi) kp) \<and> 0 < partCount a p"
    then obtain p t where "fi \<in> set (filesOf (m_files m) p)" "parsePartitionTime p = Some t" "t \<le> hi" "lo < t + hour" "inFileRange lo hi fi"
       "kp = [] \<or> hasPrefix (fi_Key fi) kp" "0 < partCount a p" by blast
    then show "\<exists>e \<in> {e. \<exists>p \<in> set (mkeys (m_files m)). entryOf p = Some e \<and> lo < pe_end e \<and> pe_start e \<le> hi}. 0 < partCount a (pe_key e)
        \<and> fi \<in> set (filesOf (m_files m) (pe_key e)) \<and> (kp = [] \<or> hasPrefix (fi_Key fi) kp) \<and> inFileRange lo hi fi"
      using k by (intro bexI [of _ "\<lparr>pe_key = p, pe_start = t, pe_end = t + hour\<rparr>"]) (auto simp: entryOf_def simp del: set_map)
  qed (auto simp: entryOf_def)
qed

lemma tracked_GetFiles: "man_ok m \<Longrightarrow> fi \<in> set (GetFilesForRange lo hi m) \<longleftrightarrow> tracked_in m lo hi fi"
  by (simp add: GetFilesForRange_set tracked_in_def)

text \<open>A total that counts a tenant's files leaves out no partition with one of them.\<close>

lemma aggCount_pos:
  "agg_ok m \<Longrightarrow> 0 < aggCount m tk p \<longleftrightarrow> (\<exists>fi \<in> set (filesOf (m_files m) p). tenantKeyFromFileKey m (fi_Key fi) = tk)"
  by (simp add: agg_ok_def ownedBy_pos)

lemma accum_files:
  assumes "tenants_ok m" "aggOf m tk = Some a"
    and "\<And>fi :: fileInfo. tenantKeyFromFileKey m (fi_Key fi) = tk \<Longrightarrow> kp = [] \<or> hasPrefix (fi_Key fi) kp"
  shows "fi \<in> set (filesInAccumRangeLocked a lo hi kp m) \<and> tenantKeyFromFileKey m (fi_Key fi) = tk
    \<longleftrightarrow> tracked_in m lo hi fi \<and> tenantKeyFromFileKey m (fi_Key fi) = tk"
proof -
  have pc: "partCount a p = aggCount m tk p" for p using assms(2) by (simp add: aggCount_def)
  have "man_ok m" using assms(1) by (simp add: tenants_ok_def)
  note S = filesInAccum_set [OF this, of a lo hi kp]
  have "0 < aggCount m tk p" if "fi \<in> set (filesOf (m_files m) p)" "tenantKeyFromFileKey m (fi_Key fi) = tk" for p
    using that assms(1) aggCount_pos by (auto simp: tenants_ok_def)
  then show ?thesis using assms(3) [of fi] unfolding S tracked_in_def mem_Collect_eq pc by blast
qed

lemma no_accum:
  assumes "tenants_ok m" "aggOf m tk = None \<or> aggOf m tk = Some a \<and> ta_partitions a = []"
  shows "\<not> (tracked_in m lo hi fi \<and> tenantKeyFromFileKey m (fi_Key fi) = tk)"
proof
  assume "tracked_in m lo hi fi \<and> tenantKeyFromFileKey m (fi_Key fi) = tk"
  then obtain p where "fi \<in> set (filesOf (m_files m) p)" "tenantKeyFromFileKey m (fi_Key fi) = tk" by (auto simp: tracked_in_def)
  then have "0 < aggCount m tk p" using assms(1) aggCount_pos by (auto simp: tenants_ok_def)
  then show False using assms(2) by (auto simp: aggCount_def partCount_def)
qed

text \<open>Keys of two tenant segments are told apart by their prefix.\<close>

lemma indexByte_slash: "CHR ''/'' \<notin> set a \<Longrightarrow> indexByte (a @ CHR ''/'' # s) (CHR ''/'') = Some (length a)"
  by (induction a) auto

lemma valid_no_slash: "isValidTenantSegment s \<Longrightarrow> CHR ''/'' \<notin> set s"
proof
  assume v: "isValidTenantSegment s" "CHR ''/'' \<in> set s"
  then have "digit (CHR ''/'') \<or> byteIn (CHR ''a'') (CHR ''z'') (CHR ''/'') \<or> byteIn (CHR ''A'') (CHR ''Z'') (CHR ''/'')
      \<or> CHR ''/'' = CHR ''_'' \<or> CHR ''/'' = CHR ''-''"
    unfolding isValidTenantSegment_def list_all_iff by blast
  then show False by (simp add: digit_def byteIn_def less_eq_char_def)
qed

end
