(* ===== verification/Retention.thy ===== *)
theory Retention
  imports Compactor Segments "HOL-Library.Signed_Division"
begin

text \<open>
  Retention: \<open>src/internal/retention/policy.go\<close>, \<open>retention.go\<close> and \<open>tenant_rules.go\<close>, with the parts of the standard
  library they use (\<open>time.ParseDuration\<close>, \<open>strconv.Atoi\<close>, \<open>strings.TrimSpace\<close>, \<open>path.Match\<close>).

  A duration is an integer of nanoseconds; arithmetic that the code does on 64 bits wraps around. The product that \<open>time.ParseDuration\<close>
  computes in floating point for the digits after a decimal point is the parameter \<open>fl\<close>. The manager works on the world of the
  compactor: \<open>cw_man\<close> is its manifest and \<open>cw_objs\<close> the objects of the bucket. Not modelled: the ticker, log lines and metrics.
\<close>

section \<open>Durations\<close>

text \<open>The white space of \<open>unicode.IsSpace\<close>, in UTF-8.\<close>

definition whiteSpace :: "string list" where
  "whiteSpace = [[CHR 0x09], [CHR 0x0A], [CHR 0x0B], [CHR 0x0C], [CHR 0x0D], [CHR 0x20], [CHR 0xC2, CHR 0x85], [CHR 0xC2, CHR 0xA0],
     [CHR 0xE1, CHR 0x9A, CHR 0x80], [CHR 0xE2, CHR 0x80, CHR 0xA8], [CHR 0xE2, CHR 0x80, CHR 0xA9], [CHR 0xE2, CHR 0x80, CHR 0xAF],
     [CHR 0xE2, CHR 0x81, CHR 0x9F], [CHR 0xE3, CHR 0x80, CHR 0x80]]
     @ map (\<lambda>n. [CHR 0xE2, CHR 0x80, char_of (0x80 + n)]) [0 ..< 11]"

lemma find_holds: "find P xs = Some x \<Longrightarrow> P x"
  by (auto simp: find_Some_iff)

function trimLeft :: "string \<Rightarrow> string" where
  "trimLeft s = (case find (\<lambda>w. hasPrefix s w \<and> w \<noteq> []) whiteSpace of None \<Rightarrow> s | Some w \<Rightarrow> trimLeft (drop (length w) s))"
  by auto
termination
proof (relation "measure length")
  show "(drop (length w) s, s) \<in> measure length" if "find (\<lambda>w. hasPrefix s w \<and> w \<noteq> []) whiteSpace = Some w" for s w
    using find_holds [OF that] by (cases s; cases w) (auto simp: hasPrefix_def)
qed simp

function trimRight :: "string \<Rightarrow> string" where
  "trimRight s = (case find (\<lambda>w. hasSuffix s w \<and> w \<noteq> []) whiteSpace of None \<Rightarrow> s | Some w \<Rightarrow> trimRight (take (length s - length w) s))"
  by auto
termination
proof (relation "measure length")
  show "(take (length s - length w) s, s) \<in> measure length" if "find (\<lambda>w. hasSuffix s w \<and> w \<noteq> []) whiteSpace = Some w" for s w
    using find_holds [OF that] by (cases s; cases w) (auto simp: hasSuffix_def)
qed simp

definition trimSpace :: "string \<Rightarrow> string" where
  "trimSpace s = trimRight (trimLeft s)"

text \<open>\<open>strconv.Atoi\<close> on a 64-bit platform.\<close>

definition atoi :: "string \<Rightarrow> int option" where
  "atoi s =
     (let neg = (s \<noteq> [] \<and> hd s = CHR ''-'');
          u = (if s \<noteq> [] \<and> (hd s = CHR ''-'' \<or> hd s = CHR ''+'') then tl s else s);
          v = (if neg then - digits u else digits u)
      in if u = [] \<or> \<not> list_all digit u \<or> v < - (2 ^ 63) \<or> v > max_int64 then None else Some v)"

text \<open>\<open>leadingInt\<close> and \<open>leadingFraction\<close>: the digits at the start of a string. The first fails above \<open>2^63\<close>, the second stops
  accumulating there and reports how many digits it took.\<close>

fun leadingInt :: "nat \<Rightarrow> string \<Rightarrow> (nat \<times> string) option" where
  "leadingInt x [] = Some (x, [])"
| "leadingInt x (c # s) =
     (if \<not> digit c then Some (x, c # s)
      else if x > 2 ^ 63 div 10 then None
      else let y = x * 10 + (of_char c - 48) in if y > 2 ^ 63 then None else leadingInt y s)"

fun leadingFraction :: "nat \<Rightarrow> nat \<Rightarrow> bool \<Rightarrow> string \<Rightarrow> nat \<times> nat \<times> string" where
  "leadingFraction x scale overflow [] = (x, scale, [])"
| "leadingFraction x scale overflow (c # s) =
     (if \<not> digit c then (x, scale, c # s)
      else if overflow then leadingFraction x scale overflow s
      else if x > (2 ^ 63 - 1) div 10 then leadingFraction x scale True s
      else let y = x * 10 + (of_char c - 48)
           in if y > 2 ^ 63 then leadingFraction x scale True s else leadingFraction y (Suc scale) overflow s)"

definition unitMap :: "(string, nat) gomap" where
  "unitMap = [(''ns'', 1), (''us'', 1000), ([CHR 0xC2, CHR 0xB5, CHR ''s''], 1000), ([CHR 0xCE, CHR 0xBC, CHR ''s''], 1000),
     (''ms'', 1000000), (''s'', 1000000000), (''m'', 60000000000), (''h'', 3600000000000)]"

definition unitChar :: "char \<Rightarrow> bool" where
  "unitChar c \<longleftrightarrow> c \<noteq> CHR ''.'' \<and> \<not> digit c"

text \<open>One number with its unit: its nanoseconds and the rest of the string.\<close>

definition takeQuantity :: "(nat \<Rightarrow> nat \<Rightarrow> nat \<Rightarrow> nat) \<Rightarrow> string \<Rightarrow> (nat \<times> string) option" where
  "takeQuantity fl s =
     (case leadingInt 0 s of
        None \<Rightarrow> None
      | Some (v, s1) \<Rightarrow>
          (case (if s1 \<noteq> [] \<and> hd s1 = CHR ''.'' then leadingFraction 0 0 False (tl s1) else (0, 0, s1)) of
             (f, scale, s2) \<Rightarrow>
               let pre = length s \<noteq> length s1; post = (s1 \<noteq> [] \<and> hd s1 = CHR ''.'' \<and> length (tl s1) \<noteq> length s2);
                   u = takeWhile unitChar s2
               in if \<not> pre \<and> \<not> post \<or> u = [] then None
                  else case mget unitMap u of
                    None \<Rightarrow> None
                  | Some unit \<Rightarrow>
                      if v > 2 ^ 63 div unit then None
                      else let w = v * unit + (if f > 0 then fl f scale unit else 0)
                           in if f > 0 \<and> w > 2 ^ 63 then None else Some (w, dropWhile unitChar s2)))"

text \<open>What the loop reads gets shorter: a unit has at least one character.\<close>

lemma leadingInt_length: "leadingInt x s = Some (v, s1) \<Longrightarrow> length s1 \<le> length s"
  by (induction x s rule: leadingInt.induct) (auto simp: Let_def split: if_splits)

lemma leadingFraction_length: "leadingFraction x n b s = (f, scale, s2) \<Longrightarrow> length s2 \<le> length s"
proof (induction s arbitrary: x n b)
  case (Cons c s)
  show ?case
  proof (cases "digit c")
    case True
    then obtain x' n' b' where "leadingFraction x' n' b' s = (f, scale, s2)" using Cons.prems by (auto simp: Let_def split: if_splits)
    then show ?thesis using Cons.IH [of x' n' b'] by simp
  qed (use Cons.prems in auto)
qed simp

lemma takeQuantity_length:
  assumes "takeQuantity fl s = Some (w, r)"
  shows "length r < length s"
proof -
  obtain v s1 where s1: "leadingInt 0 s = Some (v, s1)" using assms by (auto simp: takeQuantity_def split: option.splits)
  obtain f scale s2 where s2: "(if s1 \<noteq> [] \<and> hd s1 = CHR ''.'' then leadingFraction 0 0 False (tl s1) else (0, 0, s1)) = (f, scale, s2)"
    by (metis prod_cases3)
  have "r = dropWhile unitChar s2" "takeWhile unitChar s2 \<noteq> []"
    using assms by (auto simp: takeQuantity_def s1 s2 Let_def split: option.splits if_splits)
  moreover have "length s2 \<le> length s1"
    using s2 leadingFraction_length [of 0 0 False "tl s1" f scale s2] by (auto split: if_splits)
  moreover have "length (takeWhile unitChar s2) + length (dropWhile unitChar s2) = length s2"
    by (metis length_append takeWhile_dropWhile_id)
  moreover have "length s1 \<le> length s" by (rule leadingInt_length [OF s1])
  ultimately show ?thesis by (cases "takeWhile unitChar s2") auto
qed

function durationLoop :: "(nat \<Rightarrow> nat \<Rightarrow> nat \<Rightarrow> nat) \<Rightarrow> nat \<Rightarrow> string \<Rightarrow> nat option" where
  "durationLoop fl d s =
     (if s = [] then Some d
      else if hd s \<noteq> CHR ''.'' \<and> \<not> digit (hd s) then None
      else case takeQuantity fl s of
        None \<Rightarrow> None
      | Some (v, r) \<Rightarrow> if d + v > 2 ^ 63 then None else durationLoop fl (d + v) r)"
  by auto
termination
  by (relation "measure (\<lambda>(fl, d, s). length s)") (auto simp: takeQuantity_length)

definition goParseDuration :: "(nat \<Rightarrow> nat \<Rightarrow> nat \<Rightarrow> nat) \<Rightarrow> string \<Rightarrow> int option" where
  "goParseDuration fl s0 =
     (let neg = (s0 \<noteq> [] \<and> hd s0 = CHR ''-'');
          s = (if s0 \<noteq> [] \<and> (hd s0 = CHR ''-'' \<or> hd s0 = CHR ''+'') then tl s0 else s0)
      in if s = ''0'' then Some 0
         else if s = [] then None
         else case durationLoop fl 0 s of
           None \<Rightarrow> None
         | Some d \<Rightarrow> if neg then Some (- int d) else if d > 2 ^ 63 - 1 then None else Some (int d))"

datatype durationError = EmptyDuration | MissingDays string | InvalidDays string | NotPositive string | Unparsable string

definition parseDuration :: "(nat \<Rightarrow> nat \<Rightarrow> nat \<Rightarrow> nat) \<Rightarrow> string \<Rightarrow> durationError + int" where
  "parseDuration fl s0 =
     (if s0 = [] then Inl EmptyDuration
      else let s = trimSpace s0
           in case goParseDuration fl s of
                Some d \<Rightarrow> Inr d
              | None \<Rightarrow>
                  if hasSuffix s ''d''
                  then let numPart = take (length s - 1) s
                       in if numPart = [] then Inl (MissingDays s)
                          else case atoi numPart of
                            None \<Rightarrow> Inl (InvalidDays s)
                          | Some days \<Rightarrow>
                              if days \<le> 0 then Inl (NotPositive s) else Inr (to_int64 (to_int64 (days * 24) * hour))
                  else Inl (Unparsable s))"

section \<open>Patterns\<close>

text \<open>\<open>utf8.DecodeRuneInString\<close> of a string that is not empty: the code point and its length; an invalid byte is the replacement
  character of length 1.\<close>

fun decodeRune :: "string \<Rightarrow> nat \<times> nat" where
  "decodeRune [] = (0xFFFD, 0)"
| "decodeRune (c # cs) =
     (let n = (of_char c :: nat); v = (\<lambda>a. (of_char a :: nat) mod 64) in
      if n < 0x80 then (n, 1)
      else if 0xC2 \<le> n \<and> n \<le> 0xDF then
        (case cs of a # r \<Rightarrow> if contByte 0x80 a then ((n mod 32) * 64 + v a, 2) else (0xFFFD, 1) | _ \<Rightarrow> (0xFFFD, 1))
      else if 0xE0 \<le> n \<and> n \<le> 0xEF then
        (case cs of
           a # b # r \<Rightarrow>
             if contByte (if n = 0xE0 then 0xA0 else 0x80) a \<and> (n = 0xED \<longrightarrow> of_char a \<le> (0x9F :: nat)) \<and> contByte 0x80 b
             then ((n mod 16) * 4096 + v a * 64 + v b, 3) else (0xFFFD, 1)
         | _ \<Rightarrow> (0xFFFD, 1))
      else if 0xF0 \<le> n \<and> n \<le> 0xF4 then
        (case cs of
           a # b # d # r \<Rightarrow>
             if contByte (if n = 0xF0 then 0x90 else 0x80) a \<and> (n = 0xF4 \<longrightarrow> of_char a \<le> (0x8F :: nat)) \<and> contByte 0x80 b \<and> contByte 0x80 d
             then ((n mod 8) * 262144 + v a * 4096 + v b * 64 + v d, 4) else (0xFFFD, 1)
         | _ \<Rightarrow> (0xFFFD, 1))
      else (0xFFFD, 1))"

definition getEsc :: "string \<Rightarrow> (nat \<times> string) option" where
  "getEsc chunk0 =
     (if chunk0 = [] \<or> hd chunk0 = CHR ''-'' \<or> hd chunk0 = CHR '']'' then None
      else let chunk = (if hd chunk0 = CHR 0x5C then tl chunk0 else chunk0)
           in if chunk = [] then None
              else case decodeRune chunk of
                (r, n) \<Rightarrow> if r = 0xFFFD \<and> n = 1 \<or> drop n chunk = [] then None else Some (r, drop n chunk))"

lemma decodeRune_pos: "s \<noteq> [] \<Longrightarrow> 1 \<le> snd (decodeRune s)"
  by (cases s) (auto simp: Let_def split: list.split)

lemma getEsc_shorter: "getEsc c = Some (r, d) \<Longrightarrow> length d < length c \<and> d \<noteq> []"
proof -
  assume g: "getEsc c = Some (r, d)"
  define e where "e = (if hd c = CHR 0x5C then tl c else c)"
  have "c \<noteq> []" "e \<noteq> []" using g by (auto simp: getEsc_def e_def Let_def split: if_splits)
  moreover obtain x n where n: "decodeRune e = (x, n)" by fastforce
  moreover have "length e \<le> length c" by (simp add: e_def)
  moreover have "1 \<le> n" using decodeRune_pos [OF \<open>e \<noteq> []\<close>] n by simp
  moreover have "d = drop n e \<and> d \<noteq> []" using g \<open>c \<noteq> []\<close> n by (auto simp: getEsc_def e_def Let_def split: if_splits)
  ultimately show ?thesis by (cases e) auto
qed

text \<open>The ranges of a character class: whether one holds the rune, and the rest of the chunk; \<open>None\<close> for a malformed class.\<close>

function classRanges :: "nat \<Rightarrow> bool \<Rightarrow> nat \<Rightarrow> string \<Rightarrow> (bool \<times> string) option" where
  "classRanges r found nrange chunk =
     (if chunk \<noteq> [] \<and> hd chunk = CHR '']'' \<and> nrange > 0 then Some (found, tl chunk)
      else case getEsc chunk of
        None \<Rightarrow> None
      | Some (lo, c1) \<Rightarrow>
          (case (if hd c1 = CHR ''-'' then getEsc (tl c1) else Some (lo, c1)) of
             None \<Rightarrow> None
           | Some (hi, c2) \<Rightarrow> classRanges r (found \<or> lo \<le> r \<and> r \<le> hi) (Suc nrange) c2))"
  by auto
termination
proof (relation "measure (\<lambda>(r, found, nrange, chunk). length chunk)")
  show "((r, found \<or> lo \<le> r \<and> r \<le> hi, Suc nrange, c2), (r, found, nrange, chunk)) \<in> measure (\<lambda>(r, found, nrange, chunk). length chunk)"
    if "getEsc chunk = Some x" "(lo, c1) = x" "(if hd c1 = CHR ''-'' then getEsc (tl c1) else Some (lo, c1)) = Some y" "(hi, c2) = y"
    for r found nrange chunk x lo c1 y hi c2
    using that getEsc_shorter [of chunk lo c1] getEsc_shorter [of "tl c1" hi c2] by (auto split: if_splits)
qed simp

lemma classRanges_shorter: "classRanges r b n c = Some (m, d) \<Longrightarrow> length d < length c"
proof (induction r b n c rule: classRanges.induct)
  case (1 r found nrange chunk)
  show ?case
  proof (cases "chunk \<noteq> [] \<and> hd chunk = CHR '']'' \<and> nrange > 0")
    case False
    then obtain lo c1 hi c2 where g: "getEsc chunk = Some (lo, c1)"
        "(if hd c1 = CHR ''-'' then getEsc (tl c1) else Some (lo, c1)) = Some (hi, c2)"
        "classRanges r (found \<or> lo \<le> r \<and> r \<le> hi) (Suc nrange) c2 = Some (m, d)"
      using 1(2) by (subst (asm) classRanges.simps) (auto split: option.splits simp del: classRanges.simps)
    have "length d < length c2" using 1(1) [OF False g(1) refl g(2) refl g(3)] .
    then show ?thesis using g getEsc_shorter [of chunk lo c1] getEsc_shorter [of "tl c1" hi c2] by (auto split: if_splits)
  qed (use 1(2) in \<open>auto simp: classRanges.simps\<close>)
qed

text \<open>\<open>matchChunk\<close> and \<open>Match\<close> of the package \<open>path\<close>, as far as the caller looks: it drops the error of a malformed pattern, with which
  no name matches.\<close>

function matchChunk :: "string \<Rightarrow> string \<Rightarrow> string option" where
  "matchChunk [] s = Some s"
| "matchChunk (c # cs) s =
     (if s = [] then None
      else if c = CHR ''['' then
        (case decodeRune s of (r, n) \<Rightarrow>
           let negated = (cs \<noteq> [] \<and> hd cs = CHR 0x5E)
           in case classRanges r False 0 (if negated then tl cs else cs) of
                None \<Rightarrow> None
              | Some (found, rest) \<Rightarrow> if found = negated then None else matchChunk rest (drop n s))
      else if c = CHR ''?'' then (if hd s = CHR ''/'' then None else matchChunk cs (drop (snd (decodeRune s)) s))
      else if c = CHR 0x5C then
        (case cs of [] \<Rightarrow> None | d # ds \<Rightarrow> if d = hd s then matchChunk ds (tl s) else None)
      else if c = hd s then matchChunk cs (tl s) else None)"
  by pat_completeness auto
termination
proof (relation "measure (\<lambda>(chunk, s). length chunk)")
  show "((rest, drop n s), (c # cs, s)) \<in> measure (\<lambda>(chunk, s). length chunk)"
    if "classRanges r False 0 (if negated then tl cs else cs) = Some x" "(found, rest) = x" for c cs s r n negated x found rest
    using that classRanges_shorter [of r False 0 "if negated then tl cs else cs" found rest] by (auto split: if_splits)
qed auto

fun chunkEnd :: "bool \<Rightarrow> string \<Rightarrow> nat" where
  "chunkEnd inrange [] = 0"
| "chunkEnd inrange (c # cs) =
     (if c = CHR 0x5C then (case cs of [] \<Rightarrow> 1 | d # ds \<Rightarrow> 2 + chunkEnd inrange ds)
      else if c = CHR ''['' then Suc (chunkEnd True cs)
      else if c = CHR '']'' then Suc (chunkEnd False cs)
      else if c = CHR ''*'' \<and> \<not> inrange then 0
      else Suc (chunkEnd inrange cs))"

definition scanChunk :: "string \<Rightarrow> bool \<times> string \<times> string" where
  "scanChunk pat =
     (let p = dropWhile (\<lambda>c. c = CHR ''*'') pat; i = chunkEnd False p
      in (length p < length pat, take i p, drop i p))"

text \<open>The bytes that a star skips before its chunk matches: the rest of the name after the first match that serves.\<close>

fun starMatch :: "string \<Rightarrow> bool \<Rightarrow> string \<Rightarrow> string option" where
  "starMatch chunk atEnd [] = None"
| "starMatch chunk atEnd (c # name) =
     (if c = CHR ''/'' then None
      else case matchChunk chunk name of
        Some t \<Rightarrow> if atEnd \<and> t \<noteq> [] then starMatch chunk atEnd name else Some t
      | None \<Rightarrow> starMatch chunk atEnd name)"

lemma scanChunk_shorter: "pat \<noteq> [] \<Longrightarrow> scanChunk pat = (star, chunk, rest) \<Longrightarrow> length rest < length pat"
proof -
  assume a: "pat \<noteq> []" "scanChunk pat = (star, chunk, rest)"
  define p where "p = dropWhile (\<lambda>c. c = CHR ''*'') pat"
  have le: "length p \<le> length pat" unfolding p_def by (rule length_dropWhile_le)
  have pos: "0 < chunkEnd False q" if "q \<noteq> []" "hd q \<noteq> CHR ''*''" for q using that by (cases q) (auto split: list.split)
  have r: "rest = drop (chunkEnd False p) p" using a(2) by (simp add: scanChunk_def p_def Let_def)
  show ?thesis
  proof (cases "p = []")
    case False
    then have "hd p \<noteq> CHR ''*''" using hd_dropWhile [of "\<lambda>c. c = CHR ''*''" pat] unfolding p_def by simp
    then show ?thesis using pos [OF False] False le r by (cases p) auto
  qed (use a(1) r in auto)
qed

text \<open>The part of a name that one chunk leaves for the rest of the pattern.\<close>

definition nextChunk :: "bool \<Rightarrow> string \<Rightarrow> bool \<Rightarrow> string \<Rightarrow> string option" where
  "nextChunk star chunk atEnd name =
     (case matchChunk chunk name of
        Some t \<Rightarrow> if t = [] \<or> \<not> atEnd then Some t else if star then starMatch chunk atEnd name else None
      | None \<Rightarrow> if star then starMatch chunk atEnd name else None)"

function pathMatch :: "string \<Rightarrow> string \<Rightarrow> bool" where
  "pathMatch pat name =
     (if pat = [] then name = []
      else case scanChunk pat of
        (star, chunk, rest) \<Rightarrow>
          if star \<and> chunk = [] then CHR ''/'' \<notin> set name
          else (case nextChunk star chunk (rest = []) name of None \<Rightarrow> False | Some t \<Rightarrow> pathMatch rest t))"
  by pat_completeness simp_all
termination
proof (relation "measure (\<lambda>(pat, name). length pat)")
  show "((rest, t), (pat, name)) \<in> measure (\<lambda>(pat, name). length pat)" if "pat \<noteq> []" "(star, y) = scanChunk pat" "(chunk, rest) = y"
    for pat rest t name :: string and star y chunk
    using that scanChunk_shorter [of pat star chunk rest] by simp
qed simp

declare trimLeft.simps [simp del] trimRight.simps [simp del] durationLoop.simps [simp del] classRanges.simps [simp del] pathMatch.simps [simp del]

definition isGlob :: "string \<Rightarrow> bool" where
  "isGlob pat \<longleftrightarrow> CHR ''*'' \<in> set pat \<or> CHR ''?'' \<in> set pat"

definition matchAnyGlob :: "string list \<Rightarrow> string \<Rightarrow> bool" where
  "matchAnyGlob vs pat = list_ex (pathMatch pat) vs"

definition containsExact :: "string list \<Rightarrow> string \<Rightarrow> bool" where
  "containsExact vs target = list_ex (\<lambda>v. v = target) vs"

section \<open>The policy\<close>

record rule =
  rl_Match :: "(string, string) gomap"
  rl_Keep :: string

record retentionConfig =
  rc_Enabled :: bool
  rc_Default :: string
  rc_CheckInterval :: string
  rc_Rules :: "rule list"

record parsedRule =
  pr_match :: "(string, string) gomap"
  pr_keep :: int

record policy =
  rp_enabled :: bool
  rp_defaultTTL :: int
  rp_rules :: "parsedRule list"
  rp_minTTL :: int
  rp_maxTTL :: int

definition newPolicy :: "bool \<Rightarrow> int \<Rightarrow> parsedRule list \<Rightarrow> policy" where
  "newPolicy enabled defaultTTL rules =
     fold (\<lambda>r p. p\<lparr>rp_minTTL := (if pr_keep r < rp_minTTL p then pr_keep r else rp_minTTL p),
                    rp_maxTTL := (if pr_keep r > rp_maxTTL p then pr_keep r else rp_maxTTL p)\<rparr>)
       rules \<lparr>rp_enabled = enabled, rp_defaultTTL = defaultTTL, rp_rules = rules, rp_minTTL = defaultTTL, rp_maxTTL = defaultTTL\<rparr>"

datatype retentionError =
    BadDefault durationError | BadKeep nat durationError | NoMatch nat | BadInterval durationError | IntervalNotPositive int

fun parseRules :: "(nat \<Rightarrow> nat \<Rightarrow> nat \<Rightarrow> nat) \<Rightarrow> nat \<Rightarrow> rule list \<Rightarrow> retentionError + parsedRule list" where
  "parseRules fl i [] = Inr []"
| "parseRules fl i (r # rs) =
     (case parseDuration fl (rl_Keep r) of
        Inl e \<Rightarrow> Inl (BadKeep i e)
      | Inr keep \<Rightarrow>
          if rl_Match r = [] then Inl (NoMatch i)
          else (case parseRules fl (Suc i) rs of
                  Inl e \<Rightarrow> Inl e
                | Inr ps \<Rightarrow> Inr (\<lparr>pr_match = rl_Match r, pr_keep = keep\<rparr> # ps)))"

definition NewPolicy :: "(nat \<Rightarrow> nat \<Rightarrow> nat \<Rightarrow> nat) \<Rightarrow> retentionConfig \<Rightarrow> retentionError + policy" where
  "NewPolicy fl cfg =
     (if \<not> rc_Enabled cfg then Inr (newPolicy False 0 [])
      else case parseDuration fl (rc_Default cfg) of
        Inl e \<Rightarrow> Inl (BadDefault e)
      | Inr defaultTTL \<Rightarrow>
          (case parseRules fl 0 (rc_Rules cfg) of Inl e \<Rightarrow> Inl e | Inr rules \<Rightarrow> Inr (newPolicy True defaultTTL rules)))"

definition matchRule :: "fileInfo \<Rightarrow> parsedRule \<Rightarrow> bool" where
  "matchRule fi r =
     (if fi_Labels fi = [] then False
      else list_all (\<lambda>(fld, pat).
        case mget (fi_Labels fi) fld of
          None \<Rightarrow> False
        | Some vs \<Rightarrow> if isGlob pat then matchAnyGlob vs pat else containsExact vs pat) (pr_match r))"

definition ResolveTTL :: "policy \<Rightarrow> fileInfo \<Rightarrow> int" where
  "ResolveTTL p fi =
     (case fold (\<lambda>r longest.
        if matchRule fi r
        then (case longest of None \<Rightarrow> Some (pr_keep r) | Some l \<Rightarrow> if pr_keep r > l then Some (pr_keep r) else longest)
        else longest) (rp_rules p) None of
        None \<Rightarrow> rp_defaultTTL p
      | Some l \<Rightarrow> l)"

definition nsPerDay :: int where "nsPerDay = 24 * hour"

text \<open>Go's division of integers rounds towards zero.\<close>

definition dayOf :: "int \<Rightarrow> int" where
  "dayOf ns = (let d = ns sdiv nsPerDay in if ns smod nsPerDay < 0 then d - 1 else d)"

definition Expired :: "policy \<Rightarrow> fileInfo \<Rightarrow> int \<Rightarrow> bool" where
  "Expired p fi now =
     (if \<not> rp_enabled p then False
      else let age = timeSub now (fi_MaxTimeNs fi)
           in if age \<le> rp_minTTL p then False
              else let ttl = ResolveTTL p fi
                   in if age \<le> ttl then False
                      else if ttl < 24 * hour then True
                      else dayOf (fi_MaxTimeNs fi) < dayOf (to_int64 (unixNano now - ttl)))"

definition MaxTTL :: "policy \<Rightarrow> int" where "MaxTTL p = rp_maxTTL p"

section \<open>Rules of tenants\<close>

record tenantRetentionEntry =
  te_AccountID :: nat
  te_ProjectID :: nat
  te_Keep :: string

definition SynthesizeRules :: "tenantRetentionEntry list \<Rightarrow> rule list" where
  "SynthesizeRules entries =
     map (\<lambda>e. \<lparr>rl_Match = [(''account_id'', formatDec (te_AccountID e)), (''project_id'', formatDec (te_ProjectID e))], rl_Keep = te_Keep e\<rparr>)
       (filter (\<lambda>e. te_Keep e \<noteq> []) entries)"

section \<open>The manager\<close>

text \<open>What a pass meets: the clock of each removal, cancellation before a file, delete requests that fail, and the other goroutines, which act
  around the delete request of the file with number \<open>i\<close>.\<close>

record 'd retentionEnv =
  re_clock :: "nat \<Rightarrow> int"
  re_cancelled :: "nat \<Rightarrow> bool"
  re_delFails :: "string \<Rightarrow> bool"
  re_others :: "nat \<Rightarrow> nat \<Rightarrow> 'd cworld \<Rightarrow> 'd cworld"

record retentionManager =
  rm_policy :: policy
  rm_checkInterval :: int

definition NewWithPolicy :: "(nat \<Rightarrow> nat \<Rightarrow> nat \<Rightarrow> nat) \<Rightarrow> policy \<Rightarrow> string \<Rightarrow> retentionError + retentionManager" where
  "NewWithPolicy fl p checkInterval =
     (case parseDuration fl checkInterval of
        Inl e \<Rightarrow> Inl (BadInterval e)
      | Inr interval \<Rightarrow>
          if interval \<le> 0 then Inl (IntervalNotPositive interval) else Inr \<lparr>rm_policy = p, rm_checkInterval = interval\<rparr>)"

definition NewManager :: "(nat \<Rightarrow> nat \<Rightarrow> nat \<Rightarrow> nat) \<Rightarrow> retentionConfig \<Rightarrow> retentionError + retentionManager" where
  "NewManager fl cfg =
     (case parseDuration fl (rc_Default cfg) of
        Inl e \<Rightarrow> Inl (BadDefault e)
      | Inr defaultTTL \<Rightarrow>
          (case parseRules fl 0 (rc_Rules cfg) of
             Inl e \<Rightarrow> Inl e
           | Inr rules \<Rightarrow> NewWithPolicy fl (newPolicy (rc_Enabled cfg) defaultTTL rules) (rc_CheckInterval cfg)))"

definition AllFiles :: "manifest \<Rightarrow> fileMap" where "AllFiles m = m_files m"

fun expireLoop ::
    "'d retentionEnv \<Rightarrow> policy \<Rightarrow> int \<Rightarrow> nat \<Rightarrow> (string \<times> fileInfo) list \<Rightarrow> (string \<times> fileInfo) list \<Rightarrow> 'd cworld
     \<Rightarrow> (string \<times> fileInfo) list \<times> bool \<times> 'd cworld" where
  "expireLoop R p now i [] deleted w = (deleted, True, w)"
| "expireLoop R p now i ((part, fi) # rest) deleted w0 =
     (if re_cancelled R i then (deleted, False, w0)
      else if \<not> Expired p fi now then expireLoop R p now (Suc i) rest deleted w0
      else let w1 = re_others R i 0 w0
           in if re_delFails R (fi_Key fi) then expireLoop R p now (Suc i) rest deleted w1
              else let w2 = re_others R i 1 (w1\<lparr>cw_objs := mdel (fi_Key fi) (cw_objs w1)\<rparr>)
                   in expireLoop R p now (Suc i) rest (deleted @ [(part, fi)])
                        (w2\<lparr>cw_man := RemoveFile (re_clock R i) part (fi_Key fi) (cw_man w2)\<rparr>))"

text \<open>The files deleted, whether the pass ran to its end, and the world; the code returns the number of files.\<close>

definition RunOnce :: "'d retentionEnv \<Rightarrow> retentionManager \<Rightarrow> int \<Rightarrow> 'd cworld \<Rightarrow> (string \<times> fileInfo) list \<times> bool \<times> 'd cworld" where
  "RunOnce R mgr now w =
     expireLoop R (rm_policy mgr) now 0 (concat (map (\<lambda>(part, fs). map (Pair part) fs) (AllFiles (cw_man w)))) [] w"

section \<open>The expiry as arithmetic\<close>

lemma nsPerDay_pos [simp]: "0 < nsPerDay"
  by (simp add: nsPerDay_def hour_def minute_def second_def)

lemma dayOf_div: "dayOf ns = ns div nsPerDay"
proof (cases "0 \<le> ns")
  case True
  moreover have "\<bar>nsPerDay\<bar> = nsPerDay" "\<not> ns mod nsPerDay < 0" using nsPerDay_pos by (simp_all add: not_less del: nsPerDay_pos)
  ultimately show ?thesis by (simp add: dayOf_def Let_def signed_divide_int_def signed_modulo_int_def sgn_if)
next
  case False
  let ?d = nsPerDay
  have abs: "\<bar>?d\<bar> = ?d" using nsPerDay_pos by (simp del: nsPerDay_pos)
  have q: "ns sdiv ?d = - ((- ns) div ?d)" "ns smod ?d = - ((- ns) mod ?d)"
    using False nsPerDay_pos by (auto simp: abs signed_divide_int_def signed_modulo_int_def sgn_if)
  have neg: "ns div ?d = (if (- ns) mod ?d = 0 then - ((- ns) div ?d) else - ((- ns) div ?d) - 1)"
    using zdiv_zminus1_eq_if [of ?d "- ns"] nsPerDay_pos by simp
  have "0 < (- ns) mod ?d \<longleftrightarrow> (- ns) mod ?d \<noteq> 0" using pos_mod_sign [OF nsPerDay_pos, of "- ns"] by linarith
  then show ?thesis using q neg by (auto simp: dayOf_def Let_def)
qed

lemma newPolicy_eq:
  "rp_enabled (newPolicy b d rs) = b" "rp_defaultTTL (newPolicy b d rs) = d" "rp_rules (newPolicy b d rs) = rs"
  "x = d \<or> x \<in> pr_keep ` set rs \<Longrightarrow> rp_minTTL (newPolicy b d rs) \<le> x \<and> x \<le> rp_maxTTL (newPolicy b d rs)"
proof -
  let ?f = "\<lambda>r p. p\<lparr>rp_minTTL := (if pr_keep r < rp_minTTL p then pr_keep r else rp_minTTL p),
                    rp_maxTTL := (if pr_keep r > rp_maxTTL p then pr_keep r else rp_maxTTL p)\<rparr>"
  have "rp_enabled (fold ?f rs p) = rp_enabled p \<and> rp_defaultTTL (fold ?f rs p) = rp_defaultTTL p \<and> rp_rules (fold ?f rs p) = rp_rules p
      \<and> rp_minTTL (fold ?f rs p) \<le> rp_minTTL p \<and> rp_maxTTL p \<le> rp_maxTTL (fold ?f rs p)
      \<and> (\<forall>r \<in> set rs. rp_minTTL (fold ?f rs p) \<le> pr_keep r \<and> pr_keep r \<le> rp_maxTTL (fold ?f rs p))" for p :: policy
  proof (induction rs arbitrary: p)
    case (Cons r rs)
    show ?case using Cons [of "?f r p"] by (auto split: if_splits)
  qed simp
  note F = this [of "\<lparr>rp_enabled = b, rp_defaultTTL = d, rp_rules = rs, rp_minTTL = d, rp_maxTTL = d\<rparr>"]
  show "rp_enabled (newPolicy b d rs) = b" "rp_defaultTTL (newPolicy b d rs) = d" "rp_rules (newPolicy b d rs) = rs"
    "x = d \<or> x \<in> pr_keep ` set rs \<Longrightarrow> rp_minTTL (newPolicy b d rs) \<le> x \<and> x \<le> rp_maxTTL (newPolicy b d rs)"
    using F by (auto simp: newPolicy_def)
qed

text \<open>The time a file is kept: the longest of the rules that match it, or the default when none does.\<close>

lemma ResolveTTL_cases:
  "(\<forall>r \<in> set (rp_rules p). \<not> matchRule fi r) \<and> ResolveTTL p fi = rp_defaultTTL p
   \<or> (\<exists>r \<in> set (rp_rules p). matchRule fi r \<and> ResolveTTL p fi = pr_keep r
        \<and> (\<forall>r' \<in> set (rp_rules p). matchRule fi r' \<longrightarrow> pr_keep r' \<le> pr_keep r))"
proof -
  let ?f = "\<lambda>r longest. if matchRule fi r
        then (case longest of None \<Rightarrow> Some (pr_keep r) | Some l \<Rightarrow> if pr_keep r > l then Some (pr_keep r) else longest) else longest"
  have "case fold ?f rs a of
      None \<Rightarrow> a = None \<and> (\<forall>r \<in> set rs. \<not> matchRule fi r)
    | Some l \<Rightarrow> (a = Some l \<or> (\<exists>r \<in> set rs. matchRule fi r \<and> l = pr_keep r)) \<and> (\<forall>m. a = Some m \<longrightarrow> m \<le> l)
        \<and> (\<forall>r \<in> set rs. matchRule fi r \<longrightarrow> pr_keep r \<le> l)" for rs a
  proof (induction rs arbitrary: a)
    case (Cons r rs)
    show ?case using Cons [of "?f r a"] by (cases a) (auto split: option.splits if_splits)
  qed (simp split: option.split)
  from this [where rs = "rp_rules p" and a = None] show ?thesis by (auto simp: ResolveTTL_def split: option.splits)
qed

lemma ResolveTTL_bounds:
  "rp_minTTL (newPolicy b d rs) \<le> ResolveTTL (newPolicy b d rs) fi" "ResolveTTL (newPolicy b d rs) fi \<le> MaxTTL (newPolicy b d rs)"
proof -
  have "ResolveTTL (newPolicy b d rs) fi = d \<or> ResolveTTL (newPolicy b d rs) fi \<in> pr_keep ` set rs"
    using ResolveTTL_cases [of "newPolicy b d rs" fi] by (auto simp: newPolicy_eq(1, 2, 3))
  then show "rp_minTTL (newPolicy b d rs) \<le> ResolveTTL (newPolicy b d rs) fi" "ResolveTTL (newPolicy b d rs) fi \<le> MaxTTL (newPolicy b d rs)"
    using newPolicy_eq(4) by (simp_all add: MaxTTL_def)
qed

text \<open>The quick exit for young files changes nothing.\<close>

lemma Expired_eq:
  "Expired (newPolicy b d rs) fi now \<longleftrightarrow> b \<and> timeSub now (fi_MaxTimeNs fi) > ResolveTTL (newPolicy b d rs) fi
     \<and> (ResolveTTL (newPolicy b d rs) fi < nsPerDay
        \<or> fi_MaxTimeNs fi div nsPerDay < to_int64 (unixNano now - ResolveTTL (newPolicy b d rs) fi) div nsPerDay)"
  using ResolveTTL_bounds(1) [of b d rs fi] by (auto simp: Expired_def Let_def newPolicy_eq(1) dayOf_div nsPerDay_def)

end
