(* ===== verification/TenantScope.thy ===== *)
theory TenantScope
  imports ManifestTenants Retention Tombstones
begin

text \<open>
  Which objects a request may read: \<open>src/internal/storage/parquets3/tenant_scope.go\<close>, with the tenant prefix of the object keys
  (\<open>validateTenantPrefixTemplate\<close> of \<open>src/internal/config/config.go\<close>, \<open>tenantPrefixResolver\<close> of \<open>src/cmd/lakehouse-logs/main.go\<close> and
  \<open>assignLogKey\<close> of \<open>writer.go\<close>). A tenant id of a request is a \<open>tenantRef\<close>. The reports of a violation (log line, counter) are not modelled; the site
  name they carry is left out.
\<close>

section \<open>The scope of a request\<close>

record tenantScope =
  sc_all :: bool
  sc_account :: string
  sc_project :: string
  sc_more :: "(string \<times> string) list"

definition tenantPair :: "tenantRef \<Rightarrow> string \<times> string" where
  "tenantPair t = (formatDec (AccountID t), formatDec (ProjectID t))"

definition scopeForTenantID :: "tenantRef \<Rightarrow> tenantScope" where
  "scopeForTenantID t = \<lparr>sc_all = False, sc_account = formatDec (AccountID t), sc_project = formatDec (ProjectID t), sc_more = []\<rparr>"

definition resolveTenantScope :: "tenantRef list \<Rightarrow> tenantScope" where
  "resolveTenantScope tenantIDs =
     (case tenantIDs of
        [] \<Rightarrow> \<lparr>sc_all = False, sc_account = ''0'', sc_project = ''0'', sc_more = []\<rparr>
      | t # ts \<Rightarrow>
          fst (fold (\<lambda>u (scope, seen).
             if u \<in> set seen then (scope, seen)
             else (scope\<lparr>sc_more := sc_more scope @ [tenantPair u]\<rparr>, u # seen)) ts (scopeForTenantID t, [t])))"

definition scopeFor :: "bool \<Rightarrow> tenantRef list \<Rightarrow> tenantScope" where
  "scopeFor globalRead tenantIDs =
     (if globalRead then \<lparr>sc_all = True, sc_account = [], sc_project = [], sc_more = []\<rparr> else resolveTenantScope tenantIDs)"

definition scopePairs :: "tenantScope \<Rightarrow> (string \<times> string) list" where
  "scopePairs ts = (if sc_all ts then [] else (sc_account ts, sc_project ts) # sc_more ts)"

definition scopeSingle :: "tenantScope \<Rightarrow> bool" where
  "scopeSingle ts \<longleftrightarrow> \<not> sc_all ts \<and> sc_more ts = []"

definition isDefault :: "tenantScope \<Rightarrow> bool" where
  "isDefault ts = list_ex (\<lambda>(account, project). account = ''0'' \<and> project = ''0'') (scopePairs ts)"

section \<open>The objects of a scope\<close>

definition tenantOwnsKey :: "key_tenant \<Rightarrow> tenantScope \<Rightarrow> string \<Rightarrow> bool" where
  "tenantOwnsKey parse scope key =
     (case parse key of
        None \<Rightarrow> isDefault scope
      | Some (account, project) \<Rightarrow> list_ex (\<lambda>(a, q). account = a \<and> (project = [] \<or> project = q)) (scopePairs scope))"

definition guardTenantFiles :: "manifest \<Rightarrow> tenantScope \<Rightarrow> fileInfo list \<Rightarrow> fileInfo list" where
  "guardTenantFiles m scope files =
     (if sc_all scope \<or> files = [] then files
      else filter (\<lambda>fi. tenantOwnsKey (tenantKeyFromFileKey m) scope (fi_Key fi)) files)"

definition byMinTime :: "fileInfo list \<Rightarrow> fileInfo list" where
  "byMinTime files = sort_slice (\<lambda>a b. fi_MinTimeNs a < fi_MinTimeNs b) files"

definition filesForScopeUncut :: "int \<Rightarrow> int \<Rightarrow> tenantScope \<Rightarrow> manifest \<Rightarrow> fileInfo list" where
  "filesForScopeUncut startNs endNs scope m =
     (if sc_all scope then GetFilesForRange startNs endNs m
      else let files = concat (map (\<lambda>(a, q). GetFilesForRangeTenant startNs endNs a q m) (scopePairs scope));
               files1 = (if scopeSingle scope then files else byMinTime files);
               legacy = GetFilesForRangeUntenanted startNs endNs m;
               files2 = (if isDefault scope \<and> legacy \<noteq> [] then byMinTime (files1 @ legacy) else files1)
           in guardTenantFiles m scope files2)"

text \<open>The cut at the retention: nothing is copied before the first expired file.\<close>

definition cutRetention :: "policy option \<Rightarrow> int \<Rightarrow> fileInfo list \<Rightarrow> fileInfo list" where
  "cutRetention pol now files =
     (case pol of
        None \<Rightarrow> files
      | Some p \<Rightarrow>
          if \<not> rp_enabled p \<or> files = [] then files
          else case find (\<lambda>i. Expired p (files ! i) now) [0 ..< length files] of
            None \<Rightarrow> files
          | Some first \<Rightarrow> take first files @ filter (\<lambda>fi. \<not> Expired p fi now) (drop (Suc first) files))"

definition filesForScope :: "policy option \<Rightarrow> int \<Rightarrow> int \<Rightarrow> int \<Rightarrow> tenantScope \<Rightarrow> manifest \<Rightarrow> fileInfo list" where
  "filesForScope pol now startNs endNs scope m = cutRetention pol now (filesForScopeUncut startNs endNs scope m)"

definition filesForTenants :: "policy option \<Rightarrow> int \<Rightarrow> int \<Rightarrow> int \<Rightarrow> bool \<Rightarrow> tenantRef list \<Rightarrow> manifest \<Rightarrow> fileInfo list" where
  "filesForTenants pol now startNs endNs globalRead tenantIDs m = filesForScope pol now startNs endNs (scopeFor globalRead tenantIDs) m"

definition tenantScopeAllowsGlobalIndex :: "manifest \<Rightarrow> tenantScope \<Rightarrow> bool" where
  "tenantScopeAllowsGlobalIndex m scope =
     (if sc_all scope then True
      else if \<not> scopeSingle scope then False
      else case SoleTenant m of
        None \<Rightarrow> False
      | Some (account, project) \<Rightarrow> sc_account scope = account \<and> (project = [] \<or> sc_project scope = project))"

text \<open>Buffered rows carry the ids of their tenant.\<close>

definition rowInTenantScope :: "tenantScope \<Rightarrow> tenantRef \<Rightarrow> bool" where
  "rowInTenantScope scope t =
     (if sc_all scope then True else list_ex (\<lambda>p. p = tenantPair t) (scopePairs scope))"

definition filterRowsByTenant :: "('r \<Rightarrow> tenantRef) \<Rightarrow> tenantScope \<Rightarrow> 'r list \<Rightarrow> 'r list" where
  "filterRowsByTenant tenantOf scope rows =
     (if sc_all scope \<or> rows = [] then rows else filter (\<lambda>r. rowInTenantScope scope (tenantOf r)) rows)"

section \<open>The prefix of the keys\<close>

text \<open>\<open>strings.NewReplacer(...).Replace\<close>: at each position the first of the old strings that starts there.\<close>

function replaceAll :: "(string \<times> string) list \<Rightarrow> string \<Rightarrow> string" where
  "replaceAll olds [] = []"
| "replaceAll olds (c # s) =
     (case find (\<lambda>(old, new). old \<noteq> [] \<and> hasPrefix (c # s) old) olds of
        None \<Rightarrow> c # replaceAll olds s
      | Some (old, new) \<Rightarrow> new @ replaceAll olds (drop (length old) (c # s)))"
  by pat_completeness auto
termination
proof (relation "measure (\<lambda>(olds, s). length s)")
  show "((olds, drop (length old) (c # s)), (olds, c # s)) \<in> measure (\<lambda>(olds, s). length s)"
    if "find (\<lambda>(old, new). old \<noteq> [] \<and> hasPrefix (c # s) old) olds = Some x" "(old, new) = x" for olds c s x old new
    using find_holds [OF that(1)] that(2) by (cases old) auto
qed auto

datatype templateError = MissingPlaceholder string | UnknownPlaceholder string

definition validateTenantPrefixTemplate :: "string \<Rightarrow> templateError option" where
  "validateTenantPrefixTemplate tmpl =
     (if tmpl = [] then None
      else if \<not> containsStr tmpl ''{AccountID}'' \<or> \<not> containsStr tmpl ''{ProjectID}'' then Some (MissingPlaceholder tmpl)
      else let rest = replaceAll [(''{AccountID}'', []), (''{ProjectID}'', [])] tmpl
           in if CHR ''{'' \<in> set rest \<or> CHR ''}'' \<in> set rest then Some (UnknownPlaceholder tmpl) else None)"

text \<open>\<open>None\<close> is the resolver that is not installed.\<close>

definition tenantPrefixResolver :: "mode \<Rightarrow> string \<Rightarrow> (tenantRef \<Rightarrow> string) option" where
  "tenantPrefixResolver md tmpl =
     (if tmpl = [] then None
      else if \<not> containsStr tmpl ''{AccountID}'' \<and> \<not> containsStr tmpl ''{ProjectID}'' then None
      else Some (\<lambda>t. replaceAll [(''{AccountID}'', formatDec (AccountID t)), (''{ProjectID}'', formatDec (ProjectID t))] tmpl
                 @ (if md = ModeTraces then ''traces/'' else ''logs/'')))"

definition prefixForTenant :: "string \<Rightarrow> (tenantRef \<Rightarrow> string) option \<Rightarrow> tenantRef \<Rightarrow> string" where
  "prefixForTenant writerPrefix resolver t =
     (case resolver of None \<Rightarrow> writerPrefix | Some f \<Rightarrow> if f t \<noteq> [] then f t else writerPrefix)"

record logGroupUpload =
  lu_partition :: string
  lu_tenant :: tenantRef
  lu_batchID :: string
  lu_key :: string

text \<open>The key of an upload is fixed at the first attempt; \<open>fresh\<close> is the random name that a group without one draws.\<close>

definition assignLogKey :: "string \<Rightarrow> (tenantRef \<Rightarrow> string) option \<Rightarrow> string \<Rightarrow> logGroupUpload \<Rightarrow> string \<times> logGroupUpload" where
  "assignLogKey writerPrefix resolver fresh up =
     (if lu_key up = []
      then let batchID = (if lu_batchID up = [] then fresh else lu_batchID up);
               key = prefixForTenant writerPrefix resolver (lu_tenant up) @ lu_partition up @ ''/'' @ batchID @ ''.parquet''
           in (key, up\<lparr>lu_batchID := batchID, lu_key := key\<rparr>)
      else (lu_key up, up))"

section \<open>Segments of keys\<close>

lemma indexByte_Some: "indexByte s c = Some i \<Longrightarrow> \<exists>a r. s = a @ c # r \<and> i = length a"
proof (induction s arbitrary: i)
  case (Cons x s)
  show ?case
  proof (cases "x = c")
    case False
    then obtain j where "indexByte s c = Some j" "i = Suc j" using Cons.prems by auto
    then obtain a r where "s = a @ c # r" "i = Suc (length a)" using Cons.IH by blast
    then show ?thesis by (intro exI [of _ "x # a"] exI [of _ r]) simp
  qed (use Cons.prems in auto)
qed simp

text \<open>In a layout of two tenant segments the tenant of a key is its prefix.\<close>

lemma segments_two:
  "parseTenantSegments key 2 = Some (a, q)
    \<longleftrightarrow> isValidTenantSegment a \<and> isValidTenantSegment q \<and> hasPrefix key (a @ ''/'' @ q @ ''/'')"
proof
  assume p: "parseTenantSegments key 2 = Some (a, q)"
  have s: "splitN 4 key = (case indexByte key (CHR ''/'') of None \<Rightarrow> [key] | Some i \<Rightarrow> take i key # splitN 3 (drop (Suc i) key))" for key
    using splitN.simps(3) [of 2 key] by (simp split: option.split)
  have s3: "splitN 3 k = (case indexByte k (CHR ''/'') of None \<Rightarrow> [k] | Some i \<Rightarrow> take i k # splitN 2 (drop (Suc i) k))" for k
    unfolding numeral_3_eq_3 numeral_2_eq_2 by simp
  have l: "3 \<le> length (splitN 4 key)" using p by (simp add: parseTenantSegments_def Let_def split: if_splits)
  obtain i where i: "indexByte key (CHR ''/'') = Some i" using l by (cases "indexByte key (CHR ''/'')") (simp_all add: s)
  obtain b r where b: "key = b @ CHR ''/'' # r" "i = length b" using indexByte_Some [OF i] by blast
  have k: "splitN 4 key = b # splitN 3 r" using i b s [of key] by simp
  obtain j where j: "indexByte r (CHR ''/'') = Some j"
  proof (cases "indexByte r (CHR ''/'')")
    case None
    then show ?thesis using l k by (simp add: s3)
  qed
  obtain c t where c: "r = c @ CHR ''/'' # t" "j = length c" using indexByte_Some [OF j] by blast
  have "splitN 4 key = b # c # splitN 2 t" using k j c s3 [of r] by simp
  then show "isValidTenantSegment a \<and> isValidTenantSegment q \<and> hasPrefix key (a @ ''/'' @ q @ ''/'')"
    using p b c by (auto simp: parseTenantSegments_def Let_def hasPrefix_def split: if_splits)
next
  assume v: "isValidTenantSegment a \<and> isValidTenantSegment q \<and> hasPrefix key (a @ ''/'' @ q @ ''/'')"
  then obtain t where t: "key = a @ CHR ''/'' # q @ CHR ''/'' # t" by (auto simp: hasPrefix_ex)
  have "CHR ''/'' \<notin> set a" "CHR ''/'' \<notin> set q" using v by (auto dest: valid_no_slash)
  then have "indexByte key (CHR ''/'') = Some (length a)" "indexByte (q @ CHR ''/'' # t) (CHR ''/'') = Some (length q)"
    by (simp_all add: t indexByte_slash)
  then have "splitN 4 key = a # q # splitN 2 t" by (simp add: eval_nat_numeral t)
  moreover have "splitN 2 t \<noteq> []" by (simp add: eval_nat_numeral split: option.split)
  ultimately show "parseTenantSegments key 2 = Some (a, q)" using v by (simp add: parseTenantSegments_def Let_def neq_Nil_conv)
qed

text \<open>A decimal of a 32-bit number is a segment.\<close>

lemma formatDec_digits: "\<forall>c \<in> set (formatDec n). digit c"
proof (induction n rule: formatDec.induct)
  case (1 n)
  have d: "digit (char_of (48 + k))" if "k < 10" for k :: nat
  proof -
    have "k \<in> {0, 1, 2, 3, 4, 5, 6, 7, 8, 9}" using that by auto
    then show ?thesis by (auto simp: digit_def byteIn_def less_eq_char_def)
  qed
  show ?case using 1 d [of n] d [of "n mod 10"] by (subst formatDec.simps) auto
qed

lemma formatDec_length: "n < 10 ^ k \<Longrightarrow> 0 < k \<Longrightarrow> formatDec n \<noteq> [] \<and> length (formatDec n) \<le> k"
proof (induction k arbitrary: n)
  case (Suc k)
  show ?case
  proof (cases "n < 10")
    case False
    then have "n div 10 < 10 ^ k" "0 < k" using Suc.prems by (auto simp: less_mult_imp_div_less) (cases k; simp)
    then show ?thesis using Suc.IH [of "n div 10"] False by (subst (1 2) formatDec.simps) auto
  qed (subst (1 2) formatDec.simps, simp)
qed simp

lemma formatDec_segment: "n < 2 ^ 32 \<Longrightarrow> isValidTenantSegment (formatDec n)"
  using formatDec_digits [of n] formatDec_length [of n 10] by (auto simp: isValidTenantSegment_def list_all_iff)

end
