(* ===== verification/TenantScopeProofs.thy ===== *)
theory TenantScopeProofs
  imports TenantScope
begin

text \<open>The objects of a scope are exactly the tracked ones that its tenants own, in every reachable manifest.\<close>

section \<open>The layout stays\<close>

definition layout :: "manifest \<Rightarrow> nat \<times> string" where
  "layout m = (m_templateSegments m, m_prefixTemplate m)"

lemma layout_key: "layout n = layout m \<Longrightarrow> tenantKeyFromFileKey n = tenantKeyFromFileKey m"
  by (rule tenantKey_frame) (simp_all add: layout_def)

lemma sameTotals_layout: "sameTotals n m \<Longrightarrow> layout n = layout m"
  by (simp add: sameTotals_def layout_def)

lemma layout_addFile [simp]: "layout (addFileLocked now p fi m) = layout m"
  by (simp add: layout_def addFileLocked_def noteAddedLocked_def widenTimes_def Let_def split: option.split)

lemma layout_removeFile [simp]: "layout (snd (removeFileLocked p k m)) = layout m"
  by (simp add: layout_def removeFileLocked_def rebuildIndex_def Let_def split: option.split)

lemma layout_retire [simp]: "layout (retireLocked now rk m) = layout m"
  by (rule sameTotals_layout [OF retire_same])

lemma layout_takeOut [simp]: "layout (takeOut now p b ks m) = layout m"
  unfolding takeOut_def by (induction ks arbitrary: m) simp_all

lemma layout_updateFile [simp]: "layout (updateFile k f m) = layout m"
  by (simp add: layout_def updateFile_def split: option.split)

lemma layout_rebuild [simp]: "layout (rebuildTenantAggregates m) = layout m"
proof -
  have one: "layout (updateTenantAggregateOnAdd p fi n) = layout n" for p fi n by (simp add: layout_def)
  have inner: "layout (fold (updateTenantAggregateOnAdd p) l n) = layout n" for p l n by (induction l arbitrary: n) (simp_all add: one)
  have "layout (fold (\<lambda>(p, fs) m. fold (updateTenantAggregateOnAdd p) fs m) fs n) = layout n" for fs n
    by (induction fs arbitrary: n) (auto simp: inner)
  then have "layout (rebuildTenantAggregates m) = layout (m\<lparr>m_tenantAggregates := [], m_legacyAggregate := None\<rparr>)"
    unfolding rebuildTenantAggregates_def .
  then show ?thesis by (simp add: layout_def)
qed

lemma layout_applyLocked [simp]: "layout (snd (applyLocked v now files ls sk m)) = layout m"
proof -
  have "layout (installFiles fs ls sk now m) = layout (rebuildTenantAggregates (rebuildByKey (m\<lparr>m_files := fs\<rparr>)))" for fs
    by (simp add: layout_def installFiles_def rebuildIndex_def Let_def)
  moreover have "layout (rebuildByKey (m\<lparr>m_files := fs\<rparr>)) = layout m" for fs by (simp add: layout_def rebuildByKey_def)
  moreover have "layout (afterAcceptedRefreshLocked gone ls sk now n) = layout n" for gone n
    by (simp add: layout_def afterAcceptedRefreshLocked_def pruneRetiredLocked_def Let_def)
  ultimately show ?thesis by (simp add: applyLocked_def case_prod_beta)
qed

lemma layout_manStep [simp]: "layout (manStep op m) = layout m"
proof (cases op)
  case (OEnrich key r lo hi)
  have "layout (n\<lparr>m_tenantAggregates := x\<rparr>) = layout n" for n x by (simp add: layout_def)
  then show ?thesis unfolding OEnrich by (simp add: EnrichFileMetadata_def Let_def split: option.split)
qed (simp_all add: quiet_ops_same [THEN sameTotals_layout] AddFile_def AddFileUnlessRetired_def RemoveFile_def RemoveFileIfPresent_def
  case_prod_beta AbandonPending_def Retire_def unregister_def ReplaceFiles_eq SetFileBucket_def split: option.split)

lemma layout_run: "layout (fold manStep ops m) = layout m"
  by (induction ops arbitrary: m) simp_all

text \<open>A manifest in use: its template was set when it was empty.\<close>

lemma fresh_ok: "tenants_ok (SetPrefixTemplate tmpl New)"
proof -
  let ?m = "SetPrefixTemplate tmpl New"
  have "sameTotals (?m\<lparr>m_prefixTemplate := [], m_templateSegments := 0\<rparr>) New" by (simp add: sameTotals_def SetPrefixTemplate_def New_def)
  have "agg_ok ?m"
    by (simp add: agg_ok_def aggFiles_def aggCount_def aggOf_def SetPrefixTemplate_def New_def allFiles_def filesOf_def split: option.split)
  moreover have "man_ok ?m" using man_ok_New by (simp add: SetPrefixTemplate_def man_ok_def files_ok_def guard_ok_def index_ok_def)
  ultimately show ?thesis by (simp add: tenants_ok_def)
qed

lemma used_ok: "runs_ok manPre manStep ops (SetPrefixTemplate tmpl New) \<Longrightarrow> tenants_ok (fold manStep ops (SetPrefixTemplate tmpl New))"
  by (rule tenant_machine.run_inv [OF fresh_ok])

text \<open>The two-segment layout is the one of every template that names a project.\<close>

lemma used_layout:
  assumes "\<not> (containsStr tmpl ''{OrgID}'' \<and> \<not> containsStr tmpl ''{ProjectID}'')"
  shows "tenantKeyFromFileKey (fold manStep ops (SetPrefixTemplate tmpl New)) key = parseTenantSegments key 2"
proof -
  have "tenantKeyFromFileKey (fold manStep ops (SetPrefixTemplate tmpl New)) = tenantKeyFromFileKey (SetPrefixTemplate tmpl New)"
    by (rule layout_key [OF layout_run])
  moreover have "m_templateSegments (SetPrefixTemplate tmpl New) = 2" using assms by (simp add: SetPrefixTemplate_def)
  ultimately show ?thesis by (simp add: tenantKeyFromFileKey_def templateSegmentsOf_def)
qed

section \<open>The files of a tenant\<close>

lemma GetFilesForRangeTenant_set:
  assumes "tenants_ok m" "\<And>key. tenantKeyFromFileKey m key = parseTenantSegments key 2" "isValidTenantSegment a" "isValidTenantSegment q"
  shows "fi \<in> set (GetFilesForRangeTenant lo hi a q m) \<longleftrightarrow> tracked_in m lo hi fi \<and> tenantKeyFromFileKey m (fi_Key fi) = Some (a, q)"
proof -
  let ?kp = "a @ ''/'' @ q @ ''/''"
  have ne: "a \<noteq> []" "q \<noteq> []" using assms(3, 4) by (simp_all add: isValidTenantSegment_def)
  have iff: "tenantKeyFromFileKey m key = Some (a, q) \<longleftrightarrow> hasPrefix key ?kp" for key using assms(2 - 4) by (simp add: segments_two)
  show ?thesis
  proof (cases "aggOf m (Some (a, q))")
    case None
    then show ?thesis using no_accum [OF assms(1)] ne by (auto simp: GetFilesForRangeTenant_def aggOf_def)
  next
    case (Some acc)
    show ?thesis
    proof (cases "ta_partitions acc = []")
      case True
      then show ?thesis using no_accum [OF assms(1)] Some ne by (auto simp: GetFilesForRangeTenant_def aggOf_def)
    next
      case False
      then have g: "GetFilesForRangeTenant lo hi a q m = filesInAccumRangeLocked acc lo hi ?kp m"
        using Some ne by (simp add: GetFilesForRangeTenant_def aggOf_def)
      have "man_ok m" using assms(1) by (simp add: tenants_ok_def)
      then have "fi \<in> set (filesInAccumRangeLocked acc lo hi ?kp m) \<Longrightarrow> hasPrefix (fi_Key fi) ?kp" using filesInAccum_set by auto
      then show ?thesis using accum_files [OF assms(1) Some, of ?kp fi lo hi] iff unfolding g by auto
    qed
  qed
qed

lemma GetFilesForRangeUntenanted_set:
  assumes "tenants_ok m"
  shows "fi \<in> set (GetFilesForRangeUntenanted lo hi m) \<longleftrightarrow> tracked_in m lo hi fi \<and> tenantKeyFromFileKey m (fi_Key fi) = None"
proof (cases "aggOf m None")
  case None
  then have "\<not> (tracked_in m lo hi fi \<and> tenantKeyFromFileKey m (fi_Key fi) = None)" by (intro no_accum [OF assms]) blast
  then show ?thesis using None by (simp add: GetFilesForRangeUntenanted_def aggOf_def)
next
  case (Some acc)
  show ?thesis
  proof (cases "ta_partitions acc = []")
    case True
    then have "\<not> (tracked_in m lo hi fi \<and> tenantKeyFromFileKey m (fi_Key fi) = None)" using no_accum [OF assms] Some by blast
    then show ?thesis using True Some by (simp add: GetFilesForRangeUntenanted_def aggOf_def)
  next
    case False
    then show ?thesis using accum_files [OF assms Some, of "[]" fi lo hi] Some by (auto simp: GetFilesForRangeUntenanted_def aggOf_def)
  qed
qed

section \<open>The files of a scope\<close>

definition scope_ok :: "tenantScope \<Rightarrow> bool" where
  "scope_ok scope \<longleftrightarrow> (\<forall>(a, q) \<in> set (scopePairs scope). isValidTenantSegment a \<and> isValidTenantSegment q)"

lemma set_byMinTime [simp]: "set (byMinTime fs) = set fs"
  by (simp add: byMinTime_def)

lemma isDefault_iff: "isDefault scope \<longleftrightarrow> (''0'', ''0'') \<in> set (scopePairs scope)"
  by (auto simp: isDefault_def list_ex_iff)

lemma filesForScopeUncut_set:
  assumes "tenants_ok m" "\<And>key. tenantKeyFromFileKey m key = parseTenantSegments key 2" "scope_ok scope"
  shows "fi \<in> set (filesForScopeUncut lo hi scope m)
    \<longleftrightarrow> tracked_in m lo hi fi \<and> (sc_all scope \<or> tenantOwnsKey (tenantKeyFromFileKey m) scope (fi_Key fi))"
proof (cases "sc_all scope")
  case True
  then show ?thesis using assms(1) by (simp add: filesForScopeUncut_def tracked_GetFiles tenants_ok_def)
next
  case False
  define files2 where "files2 = (let files = concat (map (\<lambda>(a, q). GetFilesForRangeTenant lo hi a q m) (scopePairs scope));
               files1 = (if scopeSingle scope then files else byMinTime files);
               legacy = GetFilesForRangeUntenanted lo hi m
           in if isDefault scope \<and> legacy \<noteq> [] then byMinTime (files1 @ legacy) else files1)"
  have u: "filesForScopeUncut lo hi scope m = guardTenantFiles m scope files2"
    using False unfolding filesForScopeUncut_def files2_def by (simp add: Let_def)
  have "fi \<in> set files2 \<longleftrightarrow> (\<exists>(a, q) \<in> set (scopePairs scope). fi \<in> set (GetFilesForRangeTenant lo hi a q m))
      \<or> isDefault scope \<and> fi \<in> set (GetFilesForRangeUntenanted lo hi m)"
    by (auto simp: files2_def Let_def)
  also have "\<dots> \<longleftrightarrow> tracked_in m lo hi fi \<and> ((\<exists>(a, q) \<in> set (scopePairs scope). tenantKeyFromFileKey m (fi_Key fi) = Some (a, q))
      \<or> isDefault scope \<and> tenantKeyFromFileKey m (fi_Key fi) = None)"
    using assms(3) GetFilesForRangeTenant_set [OF assms(1, 2)] GetFilesForRangeUntenanted_set [OF assms(1)] unfolding scope_ok_def by fastforce
  also have "\<dots> \<longleftrightarrow> tracked_in m lo hi fi \<and> tenantOwnsKey (tenantKeyFromFileKey m) scope (fi_Key fi)"
  proof (cases "tenantKeyFromFileKey m (fi_Key fi)")
    case (Some p)
    obtain a q where p: "p = (a, q)" by (cases p)
    then have "q \<noteq> []" using Some assms(2) segments_two [of "fi_Key fi" a q] by (auto simp: isValidTenantSegment_def)
    then show ?thesis using Some p by (auto simp: tenantOwnsKey_def list_ex_iff)
  qed (auto simp: tenantOwnsKey_def)
  finally show ?thesis using False unfolding u guardTenantFiles_def by auto
qed

lemma cutRetention_eq:
  "cutRetention pol now files = filter (\<lambda>fi. case pol of None \<Rightarrow> True | Some p \<Rightarrow> \<not> Expired p fi now) files"
proof (cases pol)
  case (Some p)
  show ?thesis
  proof (cases "\<not> rp_enabled p \<or> files = []")
    case True
    then show ?thesis using Some by (auto simp: cutRetention_def Expired_def)
  next
    case False
    show ?thesis
    proof (cases "find (\<lambda>i. Expired p (files ! i) now) [0 ..< length files]")
      case None
      then have "\<forall>fi \<in> set files. \<not> Expired p fi now" by (auto simp: find_None_iff in_set_conv_nth)
      then show ?thesis using Some False None by (simp add: cutRetention_def)
    next
      case first: (Some k)
      then have k: "k < length files" "Expired p (files ! k) now" "\<forall>j < k. \<not> Expired p (files ! j) now"
        by (auto simp: find_Some_iff)
      have "\<forall>fi \<in> set (take k files). \<not> Expired p fi now" using k(1, 3) by (auto simp: in_set_conv_nth)
      then have "filter (\<lambda>fi. \<not> Expired p fi now) (take k files @ files ! k # drop (Suc k) files)
          = take k files @ filter (\<lambda>fi. \<not> Expired p fi now) (drop (Suc k) files)" using k(2) by simp
      then show ?thesis using Some False first id_take_nth_drop [OF k(1)] by (simp add: cutRetention_def)
    qed
  qed
qed (simp add: cutRetention_def)

section \<open>The tenants of a request\<close>

definition requested :: "tenantRef list \<Rightarrow> tenantRef set" where
  "requested ids = (if ids = [] then {\<lparr>AccountID = 0, ProjectID = 0\<rparr>} else set ids)"

lemma resolve_pairs: "sc_all (resolveTenantScope ids) = False" "set (scopePairs (resolveTenantScope ids)) = tenantPair ` requested ids"
proof -
  let ?f = "\<lambda>u (scope, seen). if u \<in> set seen then (scope, seen) else (scope\<lparr>sc_more := sc_more scope @ [tenantPair u]\<rparr>, u # seen)"
  have F: "\<not> sc_all scope \<Longrightarrow> set (scopePairs scope) = tenantPair ` set seen \<Longrightarrow>
      \<not> sc_all (fst (fold ?f ts (scope, seen))) \<and> set (scopePairs (fst (fold ?f ts (scope, seen)))) = tenantPair ` (set seen \<union> set ts)" for ts scope seen
  proof (induction ts arbitrary: scope seen)
    case (Cons u ts)
    show ?case
    proof (cases "u \<in> set seen")
      case True
      then show ?thesis using Cons.IH [OF Cons.prems] by (simp add: insert_absorb)
    next
      case False
      have "set (scopePairs (scope\<lparr>sc_more := sc_more scope @ [tenantPair u]\<rparr>)) = tenantPair ` set (u # seen)"
        using Cons.prems by (auto simp: scopePairs_def)
      then show ?thesis using Cons.IH [of "scope\<lparr>sc_more := sc_more scope @ [tenantPair u]\<rparr>" "u # seen"] Cons.prems(1) False by simp
    qed
  qed auto
  have d: "formatDec 0 = ''0''" by code_simp
  have "\<not> sc_all (resolveTenantScope ids) \<and> set (scopePairs (resolveTenantScope ids)) = tenantPair ` requested ids"
  proof (cases ids)
    case Nil
    then show ?thesis by (simp add: resolveTenantScope_def scopePairs_def tenantPair_def requested_def d)
  next
    case (Cons t ts)
    have "set (scopePairs (scopeForTenantID t)) = tenantPair ` set [t]" "\<not> sc_all (scopeForTenantID t)"
      by (simp_all add: scopeForTenantID_def scopePairs_def tenantPair_def)
    from F [OF this(2, 1), of ts] show ?thesis by (simp add: Cons resolveTenantScope_def requested_def)
  qed
  then show "sc_all (resolveTenantScope ids) = False" "set (scopePairs (resolveTenantScope ids)) = tenantPair ` requested ids" by auto
qed

definition readsKey :: "tenantRef list \<Rightarrow> (string \<times> string) option \<Rightarrow> bool" where
  "readsKey ids owner =
     (case owner of None \<Rightarrow> \<lparr>AccountID = 0, ProjectID = 0\<rparr> \<in> requested ids | Some p \<Rightarrow> p \<in> tenantPair ` requested ids)"

lemma formatDec_inject: "formatDec m = formatDec n \<Longrightarrow> m = n"
proof (induction m arbitrary: n rule: formatDec.induct)
  case (1 m)
  have ne: "formatDec k \<noteq> []" for k by (subst formatDec.simps) simp
  have c: "a = b" if "a < 10" "b < 10" "char_of (48 + a) = (char_of (48 + b) :: char)" for a b :: nat
    using arg_cong [OF that(3), of "of_char :: char \<Rightarrow> nat"] that(1, 2) by simp
  show ?case
  proof (cases "m < 10"; cases "n < 10")
    assume "m < 10" "n < 10"
    then show ?thesis using 1(2) c by (simp add: formatDec.simps)
  next
    assume "m < 10" "\<not> n < 10"
    then show ?thesis using 1(2) ne [of "n div 10"] by (simp add: formatDec.simps [of m] formatDec.simps [of n])
  next
    assume "\<not> m < 10" "n < 10"
    then show ?thesis using 1(2) ne [of "m div 10"] by (simp add: formatDec.simps [of m] formatDec.simps [of n])
  next
    assume a: "\<not> m < 10" "\<not> n < 10"
    then have "formatDec (m div 10) = formatDec (n div 10)" "char_of (48 + m mod 10) = (char_of (48 + n mod 10) :: char)"
      using 1(2) by (simp_all add: formatDec.simps [of m] formatDec.simps [of n])
    then have "m div 10 = n div 10" "m mod 10 = n mod 10" using 1(1) [OF a(1)] c by simp_all
    then show ?thesis by (metis div_mult_mod_eq)
  qed
qed

lemma tenantPair_inject: "tenantPair s = tenantPair t \<Longrightarrow> s = t"
  by (cases s, cases t) (auto simp: tenantPair_def dest!: formatDec_inject)

lemma owns_iff:
  assumes "owner = None \<or> (\<exists>a q. owner = Some (a, q) \<and> q \<noteq> [])" "parse key = owner"
  shows "tenantOwnsKey parse (resolveTenantScope ids) key \<longleftrightarrow> readsKey ids owner"
proof -
  have d: "tenantPair \<lparr>AccountID = 0, ProjectID = 0\<rparr> = (''0'', ''0'')" by code_simp
  have "(''0'', ''0'') \<in> tenantPair ` S \<longleftrightarrow> \<lparr>AccountID = 0, ProjectID = 0\<rparr> \<in> S" for S
    unfolding d [symmetric] using tenantPair_inject by (auto simp: image_iff)
  then have n: "tenantOwnsKey parse (resolveTenantScope ids) key \<longleftrightarrow> readsKey ids owner" if "owner = None"
    using assms(2) that by (simp add: tenantOwnsKey_def readsKey_def isDefault_iff resolve_pairs(2))
  have "tenantOwnsKey parse (resolveTenantScope ids) key \<longleftrightarrow> (a, q) \<in> set (scopePairs (resolveTenantScope ids))" if "owner = Some (a, q)" "q \<noteq> []" for a q
    using assms(2) that by (auto simp: tenantOwnsKey_def list_ex_iff)
  then show ?thesis using n assms(1) unfolding resolve_pairs(2) by (auto simp: readsKey_def)
qed

end
