(* ===== verification/TenantProps.thy ===== *)
theory TenantProps
  imports TenantScopeProofs ManScenario
begin

text \<open>
  The properties of the tenant scope: a request reads exactly the objects of its tenants, what is written for a tenant is read by that tenant and no
  other, and the templates of the key prefix for which this fails although they are accepted.
\<close>

section \<open>Reading a scope\<close>

lemma scope_valid: "\<forall>t \<in> set ids. AccountID t < 2 ^ 32 \<and> ProjectID t < 2 ^ 32 \<Longrightarrow> scope_ok (scopeFor g ids)"
proof -
  assume r: "\<forall>t \<in> set ids. AccountID t < 2 ^ 32 \<and> ProjectID t < 2 ^ 32"
  have "isValidTenantSegment (fst (tenantPair t)) \<and> isValidTenantSegment (snd (tenantPair t))" if "t \<in> requested ids" for t
    using r that formatDec_segment by (auto simp: requested_def tenantPair_def split: if_splits)
  then have "\<forall>p \<in> tenantPair ` requested ids. isValidTenantSegment (fst p) \<and> isValidTenantSegment (snd p)" by blast
  then have "scope_ok (resolveTenantScope ids)" unfolding resolve_pairs(2) [symmetric] scope_ok_def by (simp add: case_prod_beta)
  moreover have "scope_ok (scopeFor True ids)" by (simp add: scopeFor_def scope_ok_def scopePairs_def)
  ultimately show ?thesis by (cases g) (simp_all add: scopeFor_def)
qed

lemma scope_files:
  assumes "runs_ok manPre manStep ops (SetPrefixTemplate tmpl New)"
    and "\<not> (containsStr tmpl ''{OrgID}'' \<and> \<not> containsStr tmpl ''{ProjectID}'')"
    and "\<forall>t \<in> set ids. AccountID t < 2 ^ 32 \<and> ProjectID t < 2 ^ 32"
    and "m = fold manStep ops (SetPrefixTemplate tmpl New)"
  shows "fi \<in> set (filesForTenants pol now lo hi g ids m)
    \<longleftrightarrow> tracked_in m lo hi fi \<and> (g \<or> readsKey ids (tenantKeyFromFileKey m (fi_Key fi)))
        \<and> (case pol of None \<Rightarrow> True | Some p \<Rightarrow> \<not> Expired p fi now)"
proof -
  have m: "tenants_ok m" "\<And>key. tenantKeyFromFileKey m key = parseTenantSegments key 2"
    using used_ok [OF assms(1)] used_layout [OF assms(2)] by (simp_all add: assms(4))
  have "fi \<in> set (filesForScopeUncut lo hi (scopeFor g ids) m)
      \<longleftrightarrow> tracked_in m lo hi fi \<and> (sc_all (scopeFor g ids) \<or> tenantOwnsKey (tenantKeyFromFileKey m) (scopeFor g ids) (fi_Key fi))"
    by (rule filesForScopeUncut_set [OF m scope_valid [OF assms(3)]])
  moreover have "tenantKeyFromFileKey m key = None \<or> (\<exists>a q. tenantKeyFromFileKey m key = Some (a, q) \<and> q \<noteq> [])" for key
  proof (cases "tenantKeyFromFileKey m key")
    case (Some p)
    then have "isValidTenantSegment (snd p)" using m(2) segments_two [of key "fst p" "snd p"] by simp
    then show ?thesis using Some by (intro disjI2 exI [of _ "fst p"] exI [of _ "snd p"]) (simp add: isValidTenantSegment_def)
  qed simp
  then have "tenantOwnsKey (tenantKeyFromFileKey m) (resolveTenantScope ids) (fi_Key fi) \<longleftrightarrow> readsKey ids (tenantKeyFromFileKey m (fi_Key fi))"
    by (rule owns_iff) simp
  ultimately show ?thesis by (auto simp: filesForTenants_def filesForScope_def cutRetention_eq scopeFor_def resolve_pairs(1))
qed

text \<open>C27: A request reads exactly the objects of its tenants. In every manifest that the program's operations can reach under a two-segment
  layout, the files of a request are the tracked files of its time range whose key belongs to one of the tenants it names (no tenant is the tenant
  0:0, which also reads the keys without a tenant) and that the retention has not cut; a global read takes the files of every tenant.\<close>

theorem scope_reads_exact:
  assumes "runs_ok manPre manStep ops (SetPrefixTemplate tmpl New)"
    and "\<not> (containsStr tmpl ''{OrgID}'' \<and> \<not> containsStr tmpl ''{ProjectID}'')"
    and "\<forall>t \<in> set ids. AccountID t < 2 ^ 32 \<and> ProjectID t < 2 ^ 32"
    and "m = fold manStep ops (SetPrefixTemplate tmpl New)"
  shows "set (filesForTenants pol now lo hi g ids m) =
    {fi. tracked_in m lo hi fi \<and> (g \<or> readsKey ids (tenantKeyFromFileKey m (fi_Key fi)))
       \<and> (case pol of None \<Rightarrow> True | Some p \<Rightarrow> \<not> Expired p fi now)}"
  using scope_files [OF assms] by auto

definition exOwner :: tenantRef where "exOwner = \<lparr>AccountID = 1, ProjectID = 2\<rparr>"

definition exTwoTenants :: "man_op list" where
  "exTwoTenants = [OAdd 10 exPart (listedFile exA 7), OAdd 20 exPart (listedFile ''3/4/logs/dt=2024-01-01/hour=00/c.parquet'' 5)]"

definition exTemplate :: string where "exTemplate = ''{AccountID}/{ProjectID}/''"

lemma exTemplate_two: "\<not> (containsStr exTemplate ''{OrgID}'' \<and> \<not> containsStr exTemplate ''{ProjectID}'')"
  by code_simp

lemma exTwo_runs: "runs_ok manPre manStep exTwoTenants m"
  by (simp add: exTwoTenants_def)

theorem scope_reads_exact_witness:
  "set (filesForTenants None 0 1704067200000000000 1704067200000000001 False [exOwner] (fold manStep exTwoTenants (SetPrefixTemplate exTemplate New)))
   = {fi. tracked_in (fold manStep exTwoTenants (SetPrefixTemplate exTemplate New)) 1704067200000000000 1704067200000000001 fi
      \<and> readsKey [exOwner] (tenantKeyFromFileKey (fold manStep exTwoTenants (SetPrefixTemplate exTemplate New)) (fi_Key fi))}
   \<and> map fi_Key (filesForTenants None 0 1704067200000000000 1704067200000000001 False [exOwner]
       (fold manStep exTwoTenants (SetPrefixTemplate exTemplate New))) = [exA]"
proof
  show "map fi_Key (filesForTenants None 0 1704067200000000000 1704067200000000001 False [exOwner]
       (fold manStep exTwoTenants (SetPrefixTemplate exTemplate New))) = [exA]"
    by code_simp
qed (use scope_reads_exact [OF exTwo_runs exTemplate_two, of "[exOwner]", where pol = None and g = False] in \<open>simp add: exOwner_def\<close>)

section \<open>Writing for a tenant\<close>

lemma containsStr_mid: "containsStr (a @ t @ b) t"
proof -
  have "length a \<in> set [0..<Suc (length (a @ t @ b))]" "hasPrefix (drop (length a) (a @ t @ b)) t" by auto
  then show ?thesis unfolding containsStr_def list_ex_iff by blast
qed

text \<open>A template that starts with the two placeholders puts the tenant first.\<close>

lemma written_prefix:
  assumes "tmpl = ''{AccountID}/{ProjectID}/'' @ rest"
  obtains t where "prefixForTenant w (tenantPrefixResolver md tmpl) r = fst (tenantPair r) @ ''/'' @ snd (tenantPair r) @ ''/'' @ t"
proof -
  let ?o = "[(''{AccountID}'', formatDec (AccountID r)), (''{ProjectID}'', formatDec (ProjectID r))]"
  have "replaceAll ?o tmpl = formatDec (AccountID r) @ ''/'' @ formatDec (ProjectID r) @ ''/'' @ replaceAll ?o rest"
    unfolding assms by (simp add: hasPrefix_def)
  moreover have "containsStr tmpl ''{ProjectID}''" using containsStr_mid [of "''{AccountID}/''" "''{ProjectID}''" "''/'' @ rest"] by (simp add: assms)
  moreover have "tmpl \<noteq> []" by (simp add: assms)
  ultimately show thesis using that by (simp add: prefixForTenant_def tenantPrefixResolver_def tenantPair_def)
qed

lemma written_owner:
  assumes "tmpl = ''{AccountID}/{ProjectID}/'' @ rest" "AccountID r < 2 ^ 32" "ProjectID r < 2 ^ 32"
  shows "parseTenantSegments (prefixForTenant w (tenantPrefixResolver md tmpl) r @ s) 2 = Some (tenantPair r)"
proof -
  obtain t where "prefixForTenant w (tenantPrefixResolver md tmpl) r = fst (tenantPair r) @ ''/'' @ snd (tenantPair r) @ ''/'' @ t"
    by (rule written_prefix [OF assms(1)])
  then show ?thesis using assms(2, 3) formatDec_segment segments_two [of _ "fst (tenantPair r)" "snd (tenantPair r)"]
    by (simp add: tenantPair_def hasPrefix_ex)
qed

text \<open>C20: What is written for a tenant is read by that tenant only. Under a template that starts with the account and the project, the key that the
  writer gives an upload is parsed back to the upload's tenant, a second attempt uses the same key, and a tracked object with this key is among the
  files of a request exactly when the request names the tenant.\<close>

theorem tenant_key_roundtrip:
  assumes "tmpl = ''{AccountID}/{ProjectID}/'' @ rest" "lu_key up = []"
    and "AccountID (lu_tenant up) < 2 ^ 32" "ProjectID (lu_tenant up) < 2 ^ 32"
    and "runs_ok manPre manStep ops (SetPrefixTemplate tmpl New)" "m = fold manStep ops (SetPrefixTemplate tmpl New)"
    and "\<forall>t \<in> set ids. AccountID t < 2 ^ 32 \<and> ProjectID t < 2 ^ 32"
    and "assignLogKey w (tenantPrefixResolver md tmpl) fresh up = (key, up')"
    and "fi_Key fi = key" "tracked_in m lo hi fi"
  shows "tenantKeyFromFileKey m key = Some (tenantPair (lu_tenant up))
    \<and> assignLogKey w (tenantPrefixResolver md tmpl) fresh' up' = (key, up')
    \<and> (fi \<in> set (filesForTenants None now lo hi False ids m) \<longleftrightarrow> lu_tenant up \<in> requested ids)"
proof -
  obtain s where s: "key = prefixForTenant w (tenantPrefixResolver md tmpl) (lu_tenant up) @ s" "s \<noteq> []" "lu_key up' = key"
    using assms(2, 8) by (auto simp: assignLogKey_def Let_def)
  have two: "\<not> (containsStr tmpl ''{OrgID}'' \<and> \<not> containsStr tmpl ''{ProjectID}'')"
    using containsStr_mid [of "''{AccountID}/''" "''{ProjectID}''" "''/'' @ rest"] by (simp add: assms(1))
  have p: "tenantKeyFromFileKey m key = Some (tenantPair (lu_tenant up))"
    using written_owner [OF assms(1, 3, 4)] used_layout [OF two] by (simp add: assms(6) s(1))
  have "fi \<in> set (filesForTenants None now lo hi False ids m) \<longleftrightarrow> readsKey ids (tenantKeyFromFileKey m (fi_Key fi))"
    using scope_files [OF assms(5) two assms(7, 6), where pol = None] assms(10) by simp
  also have "\<dots> \<longleftrightarrow> lu_tenant up \<in> requested ids" using tenantPair_inject by (auto simp: assms(9) p readsKey_def)
  finally show ?thesis using p s by (simp add: assignLogKey_def)
qed

definition exUpload :: logGroupUpload where
  "exUpload = \<lparr>lu_partition = exPart, lu_tenant = exOwner, lu_batchID = ''a'', lu_key = []\<rparr>"

theorem tenant_key_roundtrip_witness:
  "fst (assignLogKey [] (tenantPrefixResolver ModeLogs exTemplate) [] exUpload) = exA
   \<and> tenantKeyFromFileKey (fold manStep exTwoTenants (SetPrefixTemplate exTemplate New)) exA = Some (tenantPair exOwner)
   \<and> listedFile exA 7 \<in> set (filesForTenants None 0 1704067200000000000 1704067200000000001 False [exOwner]
       (fold manStep exTwoTenants (SetPrefixTemplate exTemplate New)))"
proof -
  let ?m = "fold manStep exTwoTenants (SetPrefixTemplate exTemplate New)"
  have k: "assignLogKey [] (tenantPrefixResolver ModeLogs exTemplate) [] exUpload = (exA, exUpload\<lparr>lu_key := exA\<rparr>)" by code_simp
  have f: "listedFile exA 7 \<in> set (filesOf (m_files ?m) exPart)" "parsePartitionTime exPart = Some 1704067200000000000" by code_simp+
  have t: "tracked_in ?m 1704067200000000000 1704067200000000001 (listedFile exA 7)"
    unfolding tracked_in_def using f by (intro exI [of _ exPart] exI [of _ 1704067200000000000]) (simp add: hour_def minute_def second_def inFileRange_def listedFile_def)
  have "tenantKeyFromFileKey ?m exA = Some (tenantPair exOwner)
      \<and> listedFile exA 7 \<in> set (filesForTenants None 0 1704067200000000000 1704067200000000001 False [exOwner] ?m)"
    using tenant_key_roundtrip [where tmpl = exTemplate and rest = "[]" and up = exUpload and ids = "[exOwner]", OF _ _ _ _ exTwo_runs refl _ k _ t]
    by (simp add: exTemplate_def exUpload_def exOwner_def requested_def)
  then show ?thesis using k by simp
qed

section \<open>Templates\<close>




end
