(* ===== verification/RetentionProofs.thy ===== *)
theory RetentionProofs
  imports TenantScopeProofs TombProtocol
begin

text \<open>The retention pass on the manifest and the bucket, and the expiry in time.\<close>

section \<open>What a pass deletes\<close>

definition snapshot :: "manifest \<Rightarrow> (string \<times> fileInfo) list" where
  "snapshot m = concat (map (\<lambda>(part, fs). map (Pair part) fs) (AllFiles m))"

definition victims :: "'d retentionEnv \<Rightarrow> policy \<Rightarrow> int \<Rightarrow> (string \<times> fileInfo) list \<Rightarrow> (string \<times> fileInfo) list" where
  "victims R p now l = filter (\<lambda>(part, fi). Expired p fi now \<and> \<not> re_delFails R (fi_Key fi)) l"

lemma victims_simps [simp]:
  "victims R p now [] = []"
  "victims R p now ((part, fi) # l) = (if Expired p fi now \<and> \<not> re_delFails R (fi_Key fi) then (part, fi) # victims R p now l else victims R p now l)"
  by (simp_all add: victims_def)

lemma set_snapshot: "wfmap (m_files m) \<Longrightarrow> (part, fi) \<in> set (snapshot m) \<longleftrightarrow> fi \<in> set (filesOf (m_files m) part)"
proof -
  assume w: "wfmap (m_files m)"
  have "(part, fi) \<in> set (snapshot m) \<longleftrightarrow> (\<exists>fs. (part, fs) \<in> set (m_files m) \<and> fi \<in> set fs)"
    by (auto simp: snapshot_def AllFiles_def)
  also have "\<dots> \<longleftrightarrow> (\<exists>fs. mget (m_files m) part = Some fs \<and> fi \<in> set fs)" using w by simp
  finally show ?thesis by (auto simp: filesOf_def split: option.split)
qed

text \<open>The pass goes through a part of the snapshot, whatever the others do meanwhile; it stops early only when it is cancelled.\<close>

lemma expireLoop_deleted:
  "expireLoop R p now i l d w = (d', complete, w') \<Longrightarrow>
     \<exists>n. d' = d @ victims R p now (take n l) \<and> (complete \<longrightarrow> n = length l) \<and> (\<not> complete \<longrightarrow> (\<exists>j. i \<le> j \<and> j < i + length l \<and> re_cancelled R j))"
proof (induction R p now i l d w rule: expireLoop.induct)
  case (2 R p now i part fi rest d w)
  show ?case
  proof (cases "re_cancelled R i")
    case True
    then show ?thesis using "2.prems" by (intro exI [of _ 0]) auto
  next
    case False
    obtain w1 where "expireLoop R p now (Suc i) rest (d @ victims R p now [(part, fi)]) w1 = (d', complete, w')"
        "\<exists>n. d' = (d @ victims R p now [(part, fi)]) @ victims R p now (take n rest) \<and> (complete \<longrightarrow> n = length rest)
           \<and> (\<not> complete \<longrightarrow> (\<exists>j. Suc i \<le> j \<and> j < Suc i + length rest \<and> re_cancelled R j))"
      using 2 False by (auto simp: Let_def split: if_splits)
    then obtain n where n: "d' = (d @ victims R p now [(part, fi)]) @ victims R p now (take n rest)" "complete \<longrightarrow> n = length rest"
        "\<not> complete \<longrightarrow> (\<exists>j. Suc i \<le> j \<and> j < Suc i + length rest \<and> re_cancelled R j)" by blast
    have "\<exists>j. i \<le> j \<and> j < i + length ((part, fi) # rest) \<and> re_cancelled R j" if "\<not> complete"
    proof -
      obtain j where "Suc i \<le> j \<and> j < Suc i + length rest \<and> re_cancelled R j" using n(3) \<open>\<not> complete\<close> by blast
      then show ?thesis by (intro exI [of _ j]) simp
    qed
    then show ?thesis using n by (intro exI [of _ "Suc n"]) (auto split: if_splits)
  qed
qed auto

section \<open>What a pass leaves\<close>

lemma runs_ok_append: "runs_ok pre step (xs @ ys) s \<longleftrightarrow> runs_ok pre step xs s \<and> runs_ok pre step ys (fold step xs s)"
  by (induction xs arbitrary: s) auto

lemma RemoveFile_files:
  assumes "man_ok m" "mget (m_byKey m) key = None \<or> mget (m_byKey m) key = Some p"
  shows "set (filesOf (m_files (RemoveFile now p key m)) q) = {fi \<in> set (filesOf (m_files m) q). fi_Key fi \<noteq> key}"
proof -
  have F: "map_ok (m_files m)" "indexes (m_byKey m) (m_files m)" using assms(1) by (simp_all add: man_ok_def files_ok_def)
  have idx: "mget (m_byKey m) k = Some q \<longleftrightarrow> (\<exists>x \<in> set (filesOf (m_files m) q). fi_Key x = k)" for k q
    using F(2) unfolding indexes_def by blast
  have f: "m_files (RemoveFile now p key m) = m_files (snd (removeFileLocked p key m))" by (simp add: RemoveFile_def retireLocked_def Let_def)
  from removeFile_cases [of p key m] show ?thesis
  proof (elim disjE exE conjE)
    assume "removeFileLocked p key m = (False, m)" "\<forall>fi \<in> set (filesOf (m_files m) p). fi_Key fi \<noteq> key"
    moreover from this have "mget (m_byKey m) key = None" using assms(2) idx [of key p] by auto
    then have "fi_Key fi \<noteq> key" if "fi \<in> set (filesOf (m_files m) q)" for fi using that idx [of key q] by auto
    ultimately show ?thesis by (auto simp: f)
  next
    fix fi as bs m'
    assume r: "removeFileLocked p key m = (True, m')" "filesOf (m_files m) p = as @ fi # bs" "fi_Key fi = key"
      "m_files m' = (if as @ bs = [] then mdel p (m_files m) else mput p (as @ bs) (m_files m))"
    have q: "filesOf (m_files m') q = (if q = p then as @ bs else filesOf (m_files m) q)" for q
      using removeFile_map(3) [OF F(1) r(2)] by (simp add: r(4))
    have k: "mget (m_byKey m) key = Some p" using r(2, 3) idx [of key p] by auto
    have other: "fi_Key x \<noteq> key" if "x \<in> set (filesOf (m_files m) q)" "q \<noteq> p" for x q
      using that k idx [of key q] by auto
    have "mget (m_files m) p = Some (as @ fi # bs)" using r(2) by (cases "mget (m_files m) p") (simp_all add: filesOf_def)
    then have "(p, as @ fi # bs) \<in> set (m_files m)" by (rule map_of_SomeD)
    then obtain us vs where "m_files m = us @ (p, as @ fi # bs) # vs" by (meson split_list)
    then have "distinct (map fi_Key (filesOf (m_files m) p))" using F(1) r(2) by (auto simp: map_ok_def allFiles_def)
    then have "fi_Key fi \<notin> set (map fi_Key (as @ bs))" by (auto simp: r(2))
    then have "\<forall>x \<in> set (as @ bs). fi_Key x \<noteq> key" unfolding r(3) [symmetric] by (metis image_eqI list.set_map)
    then show ?thesis using other [of _ q] r(2, 3) by (auto simp: f r(1) q)
  qed
qed

text \<open>A pass alone on the world: it removes its files from the manifest and the bucket and changes nothing else.\<close>

lemma expireLoop_alone:
  assumes "\<forall>i j w. re_others R i j w = w"
  shows "expireLoop R p now i l d w = (d', complete, w') \<Longrightarrow> man_ok (cw_man w) \<Longrightarrow>
      (\<forall>(part, fi) \<in> set l. mget (m_byKey (cw_man w)) (fi_Key fi) = None \<or> mget (m_byKey (cw_man w)) (fi_Key fi) = Some part) \<Longrightarrow>
      \<exists>ops n. d' = d @ victims R p now (take n l) \<and> runs_ok manPre manStep ops (cw_man w) \<and> cw_man w' = fold manStep ops (cw_man w)
        \<and> (\<forall>q. set (filesOf (m_files (cw_man w')) q) = {fi \<in> set (filesOf (m_files (cw_man w)) q). fi_Key fi \<notin> fi_Key ` snd ` set (victims R p now (take n l))})
        \<and> (\<forall>k. mget (cw_objs w') k = (if k \<in> fi_Key ` snd ` set (victims R p now (take n l)) then None else mget (cw_objs w) k))"
proof (induction l arbitrary: i d w)
  case Nil
  then show ?case by (intro exI [of _ "[]"] exI [of _ 0]) auto
next
  case (Cons x rest)
  obtain part fi where x: "x = (part, fi)" by (cases x)
  let ?k = "fi_Key fi"
  show ?case
  proof (cases "re_cancelled R i")
    case True
    then show ?thesis using Cons.prems by (intro exI [of _ "[]"] exI [of _ 0]) (auto simp: x)
  next
    case run: False
    show ?thesis
    proof (cases "Expired p fi now \<and> \<not> re_delFails R ?k")
      case False
      then have "expireLoop R p now (Suc i) rest d w = (d', complete, w')" using Cons.prems(1) run assms by (auto simp: x Let_def split: if_splits)
      from Cons.IH [OF this Cons.prems(2)] Cons.prems(3) obtain ops n where IH:
        "d' = d @ victims R p now (take n rest) \<and> runs_ok manPre manStep ops (cw_man w) \<and> cw_man w' = fold manStep ops (cw_man w)
        \<and> (\<forall>q. set (filesOf (m_files (cw_man w')) q) = {fi \<in> set (filesOf (m_files (cw_man w)) q). fi_Key fi \<notin> fi_Key ` snd ` set (victims R p now (take n rest))})
        \<and> (\<forall>k. mget (cw_objs w') k = (if k \<in> fi_Key ` snd ` set (victims R p now (take n rest)) then None else mget (cw_objs w) k))"
        by auto
      have v: "victims R p now (take (Suc n) (x # rest)) = victims R p now (take n rest)" using False by (auto simp: x)
      show ?thesis using IH by (intro exI [of _ ops] exI [of _ "Suc n"]) (unfold v, assumption)
    next
      case True
      let ?w = "w\<lparr>cw_objs := mdel ?k (cw_objs w), cw_man := RemoveFile (re_clock R i) part ?k (cw_man w)\<rparr>"
      have run': "expireLoop R p now (Suc i) rest (d @ [(part, fi)]) ?w = (d', complete, w')"
        using Cons.prems(1) run True assms by (simp add: x Let_def)
      have pre: "mget (m_byKey (cw_man w)) ?k = None \<or> mget (m_byKey (cw_man w)) ?k = Some part" using Cons.prems(3) by (simp add: x)
      have bk: "m_byKey (cw_man ?w) = mdel ?k (m_byKey (cw_man w))" using removeRetire_ok(2) [OF Cons.prems(2) pre] by (simp add: RemoveFile_def)
      have "man_ok (cw_man ?w)" using RemoveFile_ok [OF Cons.prems(2) pre] by simp
      moreover have "\<forall>(part, fi) \<in> set rest. mget (m_byKey (cw_man ?w)) (fi_Key fi) = None \<or> mget (m_byKey (cw_man ?w)) (fi_Key fi) = Some part"
        using Cons.prems(3) unfolding bk by (auto simp: mget_mdel)
      ultimately obtain ops n where IH: "d' = (d @ [(part, fi)]) @ victims R p now (take n rest)" "runs_ok manPre manStep ops (cw_man ?w)"
          "cw_man w' = fold manStep ops (cw_man ?w)"
          "\<forall>q. set (filesOf (m_files (cw_man w')) q) = {fi \<in> set (filesOf (m_files (cw_man ?w)) q). fi_Key fi \<notin> fi_Key ` snd ` set (victims R p now (take n rest))}"
          "\<forall>k. mget (cw_objs w') k = (if k \<in> fi_Key ` snd ` set (victims R p now (take n rest)) then None else mget (cw_objs ?w) k)"
        using Cons.IH [OF run'] by blast
      have v: "victims R p now (take (Suc n) (x # rest)) = (part, fi) # victims R p now (take n rest)" using True by (simp add: x)
      have "set (filesOf (m_files (cw_man w')) q)
          = {fi' \<in> set (filesOf (m_files (cw_man w)) q). fi_Key fi' \<notin> fi_Key ` snd ` set (victims R p now (take (Suc n) (x # rest)))}" for q
        using IH(4) RemoveFile_files [OF Cons.prems(2) pre, of "re_clock R i" q] unfolding v by auto
      moreover have "mget (cw_objs w') k = (if k \<in> fi_Key ` snd ` set (victims R p now (take (Suc n) (x # rest))) then None else mget (cw_objs w) k)" for k
        using IH(5) unfolding v by (auto simp: mget_mdel)
      moreover have "runs_ok manPre manStep (ORemove (re_clock R i) part ?k # ops) (cw_man w)"
          "cw_man w' = fold manStep (ORemove (re_clock R i) part ?k # ops) (cw_man w)" using IH(2, 3) pre by simp_all
      ultimately show ?thesis using IH(1) v
        by (intro exI [of _ "ORemove (re_clock R i) part ?k # ops"] exI [of _ "Suc n"]) simp
    qed
  qed
qed

section \<open>Expiry in time\<close>

text \<open>The expiry of a tombstone under a retention policy: \<open>tombstoneRetention.expiry\<close> of \<open>src/cmd/lakehouse-logs/tombstones.go\<close>. \<open>None\<close> is
  the policy that is not set yet.\<close>

definition retentionExpiry :: "policy option \<Rightarrow> tombstone \<Rightarrow> int option" where
  "retentionExpiry pol t =
     (case pol of
        None \<Rightarrow> None
      | Some p \<Rightarrow> if \<not> rp_enabled p then None else ExpiryAt t (MaxTTL p))"

lemma to_int64_in: "- (2 ^ 63) \<le> x \<Longrightarrow> x \<le> max_int64 \<Longrightarrow> to_int64 x = x"
  by (simp add: to_int64_id max_int64_def)

lemma timeSub_gt: "timeSub a b > x \<longleftrightarrow> (a - b > x \<and> x < max_int64 \<or> x < - (2 ^ 63))"
  by (auto simp: timeSub_def max_int64_def)

lemma Expired_later:
  assumes "Expired (newPolicy b d rs) fi now" "now \<le> later"
    and "- (2 ^ 63) \<le> now - MaxTTL (newPolicy b d rs)" "later \<le> max_int64"
  shows "Expired (newPolicy b d rs) fi later"
proof -
  define ttl where "ttl = ResolveTTL (newPolicy b d rs) fi"
  have E: "b" "timeSub now (fi_MaxTimeNs fi) > ttl"
      "ttl < nsPerDay \<or> fi_MaxTimeNs fi div nsPerDay < to_int64 (unixNano now - ttl) div nsPerDay"
    using assms(1) unfolding Expired_eq ttl_def by blast+
  have le: "ttl \<le> MaxTTL (newPolicy b d rs)" unfolding ttl_def by (rule ResolveTTL_bounds(2))
  have "timeSub later (fi_MaxTimeNs fi) > ttl" using E(2) assms(2) by (auto simp: timeSub_gt)
  moreover have "fi_MaxTimeNs fi div nsPerDay < to_int64 (unixNano later - ttl) div nsPerDay" if "\<not> ttl < nsPerDay"
  proof -
    have "0 \<le> ttl" using that nsPerDay_pos by linarith
    then have "to_int64 (unixNano now - ttl) = now - ttl" "to_int64 (unixNano later - ttl) = later - ttl"
      using assms le by (simp_all add: unixNano_def to_int64_in)
    then show ?thesis using E(3) that zdiv_mono1 [of "now - ttl" "later - ttl" nsPerDay] assms(2) by simp
  qed
  ultimately show ?thesis using E(1) by (auto simp: Expired_eq ttl_def)
qed

text \<open>Once a tombstone has expired, a file with a row that it covered has.\<close>

lemma tombstone_expired_row:
  assumes "p = newPolicy b d rs" "0 \<le> MaxTTL p" "MaxTTL p \<le> max_int64 - nsPerDay"
    and "retentionExpiry (Some p) t = Some at" "at < now" "now \<le> max_int64"
    and "- (2 ^ 63) \<le> ts" "ts \<le> t_EndNs t" "dayOf (fi_MaxTimeNs fi) = dayOf ts"
  shows "Expired p fi now"
proof -
  let ?D = nsPerDay
  define ttl where "ttl = ResolveTTL p fi"
  have le: "ttl \<le> MaxTTL p" unfolding ttl_def assms(1) by (rule ResolveTTL_bounds(2))
  have b: "b" using assms(4) by (simp add: retentionExpiry_def assms(1) newPolicy_eq split: if_splits)
  have D: "retentionMargin = ?D" "0 < ?D" by (simp_all add: retentionMargin_def nsPerDay_def hour_def minute_def second_def)
  have m: "to_int64 (MaxTTL p + ?D) = MaxTTL p + ?D" "to_int64 (max_int64 - (MaxTTL p + ?D)) = max_int64 - (MaxTTL p + ?D)"
    using assms(2, 3) D(2) by (auto intro!: to_int64_in simp: max_int64_def simp del: nsPerDay_pos)
  have "ExpiryAt t (MaxTTL p) = Some at" using assms(4) by (simp add: retentionExpiry_def split: if_splits)
  then have "t_EndNs t \<le> max_int64 - (MaxTTL p + ?D)" "at = to_int64 (t_EndNs t + (MaxTTL p + ?D))"
    by (simp_all add: ExpiryAt_def D(1) m Let_def split: if_splits)
  moreover from this have "at = t_EndNs t + (MaxTTL p + ?D)" using assms(2, 7, 8) D(2) by (simp add: to_int64_in del: nsPerDay_pos)
  ultimately have now: "now > ts + MaxTTL p + ?D" using assms(5, 8) by simp
  have day: "fi_MaxTimeNs fi div ?D = ts div ?D" using assms(9) by (simp add: dayOf_div)
  have "fi_MaxTimeNs fi < ts div ?D * ?D + ?D"
    using div_mult_mod_eq [of "fi_MaxTimeNs fi" ?D] pos_mod_bound [OF D(2), of "fi_MaxTimeNs fi"] unfolding day by linarith
  moreover have "ts div ?D * ?D \<le> ts" using div_mult_mod_eq [of ts ?D] pos_mod_sign [OF D(2), of ts] by linarith
  ultimately have "fi_MaxTimeNs fi < ts + ?D" by linarith
  then have "timeSub now (fi_MaxTimeNs fi) > ttl" using now le assms(3) D(2) by (auto simp: timeSub_gt simp del: nsPerDay_pos)
  moreover have "fi_MaxTimeNs fi div ?D < to_int64 (unixNano now - ttl) div ?D" if "\<not> ttl < ?D"
  proof -
    have "0 \<le> ttl" using that D(2) by linarith
    then have "to_int64 (unixNano now - ttl) = now - ttl" using assms(2, 6, 7) now le D(2) by (simp add: unixNano_def to_int64_in del: nsPerDay_pos)
    moreover have "(ts + ?D) div ?D \<le> (now - ttl) div ?D" using now le D(2) by (intro zdiv_mono1) simp_all
    moreover have "(ts + ?D) div ?D = ts div ?D + 1" using D(2) div_add_self2 [of ?D ts] by linarith
    ultimately show ?thesis using day by simp
  qed
  ultimately show ?thesis using b by (auto simp: assms(1) Expired_eq ttl_def)
qed

end
