(* ===== verification/RetentionProps.thy ===== *)
theory RetentionProps
  imports RetentionProofs TenantProps Scenario
begin

text \<open>
  The properties of the retention: when a file expires, that a pass deletes exactly the expired files and no query can tell, that a tombstone stays in
  force until the files with its rows are out of every query, and configurations that expire data at once.
\<close>

section \<open>When a file expires\<close>

text \<open>C17: A file is kept for the longest time of the rules that match it, or for the default when none does, and at most a day more: it is never
  expired before its newest row is older than that time, and always once it is older by a day.\<close>

theorem retention_window:
  assumes "p = newPolicy True dflt rules" "ttl = ResolveTTL p fi"
    and "- (2 ^ 63) \<le> fi_MaxTimeNs fi" "now \<le> max_int64" "ttl \<le> max_int64 - nsPerDay"
  shows "(if list_ex (matchRule fi) rules then ttl \<in> pr_keep ` {r \<in> set rules. matchRule fi r} \<and> list_all (\<lambda>r. matchRule fi r \<longrightarrow> pr_keep r \<le> ttl) rules
          else ttl = dflt)
    \<and> (Expired p fi now \<longrightarrow> now - fi_MaxTimeNs fi > ttl \<or> ttl < - (2 ^ 63))
    \<and> (now - fi_MaxTimeNs fi > ttl + nsPerDay \<and> 0 \<le> ttl \<longrightarrow> Expired p fi now)"
proof (intro conjI impI)
  show "if list_ex (matchRule fi) rules then ttl \<in> pr_keep ` {r \<in> set rules. matchRule fi r} \<and> list_all (\<lambda>r. matchRule fi r \<longrightarrow> pr_keep r \<le> ttl) rules
      else ttl = dflt"
    using ResolveTTL_cases [of p fi] by (auto simp: assms(1, 2) newPolicy_eq list_ex_iff list_all_iff)
next
  assume "Expired p fi now"
  then show "now - fi_MaxTimeNs fi > ttl \<or> ttl < - (2 ^ 63)" unfolding assms(1) Expired_eq by (auto simp: assms(1, 2) timeSub_gt)
next
  assume late: "now - fi_MaxTimeNs fi > ttl + nsPerDay \<and> 0 \<le> ttl"
  have D: "0 < nsPerDay" by simp
  have "timeSub now (fi_MaxTimeNs fi) > ttl" using late assms(5) D by (auto simp: timeSub_gt simp del: nsPerDay_pos)
  moreover have "to_int64 (unixNano now - ttl) = now - ttl" using late assms(3, 4) D by (simp add: unixNano_def to_int64_in del: nsPerDay_pos)
  moreover have "(fi_MaxTimeNs fi + nsPerDay) div nsPerDay \<le> (now - ttl) div nsPerDay" using late D by (intro zdiv_mono1) simp_all
  then have "fi_MaxTimeNs fi div nsPerDay < (now - ttl) div nsPerDay" using div_add_self2 [of nsPerDay "fi_MaxTimeNs fi"] D by linarith
  ultimately show "Expired p fi now" using assms(2) by (auto simp: assms(1) Expired_eq)
qed

definition exRetention :: policy where
  "exRetention = newPolicy True (30 * nsPerDay) [\<lparr>pr_match = [(''service'', ''api-*'')], pr_keep = 7 * nsPerDay\<rparr>]"

definition exDay :: int where "exDay = 1704067200000000000"

definition exApiFile :: fileInfo where
  "exApiFile = (listedFile exA 7)\<lparr>fi_MinTimeNs := exDay, fi_MaxTimeNs := exDay + 5, fi_Labels := [(''service'', [''api-x''])]\<rparr>"

theorem retention_window_witness:
  "ResolveTTL exRetention exApiFile = 7 * nsPerDay \<and> \<not> Expired exRetention exApiFile (exDay + 7 * nsPerDay)
   \<and> Expired exRetention exApiFile (exDay + 9 * nsPerDay)"
proof -
  have t: "ResolveTTL exRetention exApiFile = 7 * nsPerDay" by code_simp
  have n: "fi_MaxTimeNs exApiFile = exDay + 5" "exDay = 1704067200000000000" "nsPerDay = 86400000000000"
    by (simp_all add: exApiFile_def exDay_def nsPerDay_def hour_def minute_def second_def)
  show ?thesis
    using t retention_window [OF exRetention_def refl, of exApiFile "exDay + 7 * nsPerDay"] retention_window [OF exRetention_def refl, of exApiFile "exDay + 9 * nsPerDay"]
    unfolding t by (simp add: n max_int64_def)
qed

section \<open>What a pass does\<close>

text \<open>Files that the cut hides anyway may go: no query plans other files without them.\<close>

lemma cut_hides:
  assumes "runs_ok manPre manStep ops (SetPrefixTemplate tmpl New)" "m = fold manStep ops (SetPrefixTemplate tmpl New)"
    and "\<not> (containsStr tmpl ''{OrgID}'' \<and> \<not> containsStr tmpl ''{ProjectID}'')"
    and "runs_ok manPre manStep ops' m" "m' = fold manStep ops' m"
    and "\<forall>q. set (filesOf (m_files m') q) = {fi \<in> set (filesOf (m_files m) q). fi_Key fi \<notin> K}"
    and "\<And>q fi. fi \<in> set (filesOf (m_files m) q) \<Longrightarrow> fi_Key fi \<in> K \<Longrightarrow> Expired p fi now"
    and "\<forall>t \<in> set ids. AccountID t < 2 ^ 32 \<and> ProjectID t < 2 ^ 32"
  shows "set (filesForTenants (Some p) now lo hi g ids m') = set (filesForTenants (Some p) now lo hi g ids m)"
proof (rule set_eqI)
  fix fi
  have o': "runs_ok manPre manStep (ops @ ops') (SetPrefixTemplate tmpl New)" "m' = fold manStep (ops @ ops') (SetPrefixTemplate tmpl New)"
    using assms(1, 4, 5) unfolding assms(2) by (simp_all add: runs_ok_append)
  have "tracked_in m' lo hi fi \<and> \<not> Expired p fi now \<longleftrightarrow> tracked_in m lo hi fi \<and> \<not> Expired p fi now"
    using assms(6, 7) by (auto simp: tracked_in_def)
  moreover have "tenantKeyFromFileKey m' = tenantKeyFromFileKey m" unfolding assms(5) by (rule layout_key [OF layout_run])
  ultimately show "fi \<in> set (filesForTenants (Some p) now lo hi g ids m') \<longleftrightarrow> fi \<in> set (filesForTenants (Some p) now lo hi g ids m)"
    unfolding scope_files [OF assms(1, 3, 8, 2)] scope_files [OF o'(1) assms(3, 8) o'(2)] by auto
qed

text \<open>C36: A retention pass deletes exactly what no query serves any more. Whatever the other goroutines do, the files it deletes are expired files of
  its snapshot, all of them but those whose request failed when it was not cancelled. Alone on the manifest and the bucket it removes exactly these, keeps the manifest
  consistent, and at no later time does a query of any tenants plan other files than it would without the pass.\<close>

theorem retention_pass_unseen:
  assumes "RunOnce R mgr now w = (deleted, complete, w')" "rm_policy mgr = newPolicy b dflt rules"
    and "runs_ok manPre manStep ops (SetPrefixTemplate tmpl New)" "cw_man w = fold manStep ops (SetPrefixTemplate tmpl New)"
    and "\<not> (containsStr tmpl ''{OrgID}'' \<and> \<not> containsStr tmpl ''{ProjectID}'')"
  shows "set deleted \<subseteq> {(part, fi). fi \<in> set (filesOf (m_files (cw_man w)) part) \<and> Expired (rm_policy mgr) fi now \<and> \<not> re_delFails R (fi_Key fi)}
    \<and> (list_all (\<lambda>i. \<not> re_cancelled R i) [0 ..< length (snapshot (cw_man w))] \<longrightarrow>
         complete \<and> set deleted = {(part, fi). fi \<in> set (filesOf (m_files (cw_man w)) part) \<and> Expired (rm_policy mgr) fi now \<and> \<not> re_delFails R (fi_Key fi)})
    \<and> ((\<forall>i j w. re_others R i j w = w) \<longrightarrow>
         man_ok (cw_man w')
         \<and> (\<forall>k. mget (cw_objs w') k = (if k \<in> fi_Key ` snd ` set deleted then None else mget (cw_objs w) k))
         \<and> (\<forall>later lo hi g ids. now \<le> later \<and> later \<le> max_int64 \<and> - (2 ^ 63) \<le> now - MaxTTL (rm_policy mgr)
              \<and> (\<forall>t \<in> set ids. AccountID t < 2 ^ 32 \<and> ProjectID t < 2 ^ 32) \<longrightarrow>
              set (filesForTenants (Some (rm_policy mgr)) later lo hi g ids (cw_man w'))
                = set (filesForTenants (Some (rm_policy mgr)) later lo hi g ids (cw_man w))))"
proof -
  let ?p = "rm_policy mgr" and ?l = "snapshot (cw_man w)"
  have ok: "tenants_ok (cw_man w)" unfolding assms(4) by (rule used_ok [OF assms(3)])
  then have mo: "man_ok (cw_man w)" and wf: "wfmap (m_files (cw_man w))" and I: "indexes (m_byKey (cw_man w)) (m_files (cw_man w))"
    by (simp_all add: tenants_ok_def man_ok_def files_ok_def map_ok_def)
  have S: "(part, fi) \<in> set ?l \<longleftrightarrow> fi \<in> set (filesOf (m_files (cw_man w)) part)" for part fi by (rule set_snapshot [OF wf])
  have V: "set (victims R ?p now ?l)
      = {(part, fi). fi \<in> set (filesOf (m_files (cw_man w)) part) \<and> Expired ?p fi now \<and> \<not> re_delFails R (fi_Key fi)}"
    using S by (auto simp: victims_def)
  have run: "expireLoop R ?p now 0 ?l [] w = (deleted, complete, w')" using assms(1) by (simp add: RunOnce_def snapshot_def)
  have sub: "set (victims R ?p now (take n ?l)) \<subseteq> set (victims R ?p now ?l)" for n by (auto simp: victims_def dest: in_set_takeD)
  obtain n where n: "deleted = victims R ?p now (take n ?l)" "complete \<longrightarrow> n = length ?l" "\<not> complete \<longrightarrow> (\<exists>j. j < length ?l \<and> re_cancelled R j)"
    using expireLoop_deleted [OF run] by auto
  have A: "set deleted \<subseteq> set (victims R ?p now ?l)" using sub n(1) by simp
  have B: "complete \<and> set deleted = set (victims R ?p now ?l)" if "list_all (\<lambda>i. \<not> re_cancelled R i) [0 ..< length ?l]"
    using n that by (auto simp: list_all_iff)
  have at: "\<forall>(part, fi) \<in> set ?l. mget (m_byKey (cw_man w)) (fi_Key fi) = None \<or> mget (m_byKey (cw_man w)) (fi_Key fi) = Some part"
    using I S by (auto simp: indexes_def)
  have C: "man_ok (cw_man w')
         \<and> (\<forall>k. mget (cw_objs w') k = (if k \<in> fi_Key ` snd ` set deleted then None else mget (cw_objs w) k))
         \<and> (\<forall>later lo hi g ids. now \<le> later \<and> later \<le> max_int64 \<and> - (2 ^ 63) \<le> now - MaxTTL ?p
              \<and> (\<forall>t \<in> set ids. AccountID t < 2 ^ 32 \<and> ProjectID t < 2 ^ 32) \<longrightarrow>
              set (filesForTenants (Some ?p) later lo hi g ids (cw_man w')) = set (filesForTenants (Some ?p) later lo hi g ids (cw_man w)))"
    if alone: "\<forall>i j w. re_others R i j w = w"
  proof -
    obtain ops' where o: "runs_ok manPre manStep ops' (cw_man w)" "cw_man w' = fold manStep ops' (cw_man w)"
      and f: "\<forall>q. set (filesOf (m_files (cw_man w')) q) = {fi \<in> set (filesOf (m_files (cw_man w)) q). fi_Key fi \<notin> fi_Key ` snd ` set deleted}"
      and k: "\<forall>k. mget (cw_objs w') k = (if k \<in> fi_Key ` snd ` set deleted then None else mget (cw_objs w) k)"
      using expireLoop_alone [OF alone run mo at] by auto
    have gone: "Expired ?p fi later" if t: "now \<le> later" "later \<le> max_int64" "- (2 ^ 63) \<le> now - MaxTTL ?p"
      and fi: "fi \<in> set (filesOf (m_files (cw_man w)) q)" "fi_Key fi \<in> fi_Key ` snd ` set deleted" for fi q later
    proof -
      obtain part x where x: "(part, x) \<in> set deleted" "fi_Key x = fi_Key fi" using fi(2) by auto
      then have "x \<in> set (filesOf (m_files (cw_man w)) part)" "Expired ?p x now" using A V by auto
      moreover from this have "x = fi" using map_ok_unique fi(1) x(2) mo by (metis man_ok_def files_ok_def)
      ultimately show ?thesis using Expired_later t unfolding assms(2) by metis
    qed
    have "set (filesForTenants (Some ?p) later lo hi g ids (cw_man w')) = set (filesForTenants (Some ?p) later lo hi g ids (cw_man w))"
      if "now \<le> later" "later \<le> max_int64" "- (2 ^ 63) \<le> now - MaxTTL ?p" "\<forall>t \<in> set ids. AccountID t < 2 ^ 32 \<and> ProjectID t < 2 ^ 32"
      for later lo hi g ids
      using cut_hides [OF assms(3, 4, 5) o f gone [OF that(1 - 3)] that(4)] by simp
    moreover have "man_ok (cw_man w')" using manifest_machine.run_inv [OF mo o(1)] o(2) by simp
    ultimately show ?thesis using k by blast
  qed
  show ?thesis using A B C unfolding V by blast
qed

definition exQuiet :: "'d retentionEnv" where
  "exQuiet = \<lparr>re_clock = (\<lambda>i. exDay + 40 * nsPerDay), re_cancelled = (\<lambda>i. False), re_delFails = (\<lambda>k. False), re_others = (\<lambda>i j w. w)\<rparr>"

definition exKept :: "man_op list" where
  "exKept = [OAdd 10 exPart exApiFile, OAdd 20 exPart (exApiFile\<lparr>fi_Key := exB, fi_Labels := []\<rparr>)]"

definition exStored :: "string cworld" where
  "exStored = \<lparr>cw_man = fold manStep exKept (SetPrefixTemplate exTemplate New), cw_objs = [(exA, ''a''), (exB, ''b'')], cw_fence = [], cw_draws = 0\<rparr>"

definition exManager :: retentionManager where "exManager = \<lparr>rm_policy = exRetention, rm_checkInterval = hour\<rparr>"

theorem retention_pass_unseen_witness:
  "map (fi_Key \<circ> snd) (fst (RunOnce exQuiet exManager (exDay + 9 * nsPerDay) exStored)) = [exA]
   \<and> man_ok (cw_man (snd (snd (RunOnce exQuiet exManager (exDay + 9 * nsPerDay) exStored))))
   \<and> set (filesForTenants (Some exRetention) (exDay + 9 * nsPerDay) exDay (exDay + 1) False [exOwner] (cw_man (snd (snd (RunOnce exQuiet exManager (exDay + 9 * nsPerDay) exStored)))))
     = set (filesForTenants (Some exRetention) (exDay + 9 * nsPerDay) exDay (exDay + 1) False [exOwner] (cw_man exStored))"
proof -
  obtain d c w' where run: "RunOnce exQuiet exManager (exDay + 9 * nsPerDay) exStored = (d, c, w')" by (metis prod_cases3)
  have d: "map (fi_Key \<circ> snd) (fst (RunOnce exQuiet exManager (exDay + 9 * nsPerDay) exStored)) = [exA]" by code_simp
  have p: "rm_policy exManager = newPolicy True (30 * nsPerDay) [\<lparr>pr_match = [(''service'', ''api-*'')], pr_keep = 7 * nsPerDay\<rparr>]"
    by (simp add: exManager_def exRetention_def)
  have r: "runs_ok manPre manStep exKept (SetPrefixTemplate exTemplate New)" "cw_man exStored = fold manStep exKept (SetPrefixTemplate exTemplate New)"
    by (simp_all add: exKept_def exStored_def)
  have "MaxTTL (rm_policy exManager) = 30 * nsPerDay" by code_simp
  then have b: "exDay + 9 * nsPerDay \<le> max_int64" "- (2 ^ 63) \<le> exDay + 9 * nsPerDay - MaxTTL (rm_policy exManager)"
    by (simp_all add: exDay_def nsPerDay_def hour_def minute_def second_def max_int64_def)
  have t: "\<forall>t \<in> set [exOwner]. AccountID t < 2 ^ 32 \<and> ProjectID t < 2 ^ 32" by (simp add: exOwner_def)
  have q: "\<forall>i j w. re_others exQuiet i j w = w" by (simp add: exQuiet_def)
  note C = mp [OF retention_pass_unseen [OF run p r exTemplate_two, THEN conjunct2, THEN conjunct2] q]
  note Q = mp [OF C [THEN conjunct2, THEN conjunct2, THEN spec [of _ "exDay + 9 * nsPerDay"], THEN spec [of _ exDay], THEN spec [of _ "exDay + 1"],
      THEN spec [of _ False], THEN spec [of _ "[exOwner]"]] conjI [OF order_refl conjI [OF b(1) conjI [OF b(2) t]]]]
  have "rm_policy exManager = exRetention" by (simp add: exManager_def)
  then show ?thesis using d Q conjunct1 [OF C] unfolding run by simp
qed

section \<open>Deletes and the retention\<close>

text \<open>C8: A delete is forgotten only when nothing it hid is readable. Once the expiry that the retention gives a tombstone has passed, so that the
  view may drop it, no query from then on plans a file with a row in the tombstone's range, when the rows of a file lie in one day. The one-day
  margin and the cut of the plans make up for the day by which a file outlives its time.\<close>

theorem tombstone_outlives_rows:
  assumes "p = newPolicy b dflt rules" "0 \<le> MaxTTL p" "MaxTTL p \<le> max_int64 - nsPerDay"
    and "p_expiry pr = Some (retentionExpiry (Some p))" "expiredAt pr forgotten t" "forgotten \<le> now" "now \<le> max_int64"
    and "- (2 ^ 63) \<le> ts" "ts \<le> t_EndNs t" "dayOf (fi_MaxTimeNs fi) = dayOf ts"
  shows "fi \<notin> set (filesForTenants (Some p) now lo hi g ids m)"
proof -
  obtain at where "retentionExpiry (Some p) t = Some at" "at < forgotten" using assms(4, 5) by (auto simp: expiredAt_def split: option.splits)
  then have "Expired p fi now" using tombstone_expired_row [OF assms(1 - 3) _ _ assms(7 - 10)] assms(6) by auto
  then show ?thesis by (simp add: filesForTenants_def filesForScope_def cutRetention_eq)
qed

definition exHidden :: tombstone where
  "exHidden = \<lparr>t_ID = ''d2'', t_Query = ''*'', t_StartNs = exDay, t_EndNs = exDay + 10, t_CreatedAt = None,
     t_CreatedBy = ''ops'', t_Mode = ''hide'', t_FilterAt = 0, t_Tenants = [exOwner]\<rparr>"

theorem tombstone_outlives_rows_witness:
  "retentionExpiry (Some exRetention) exHidden = Some (exDay + 10 + 31 * nsPerDay)
   \<and> exApiFile \<notin> set (filesForTenants (Some exRetention) (exDay + 32 * nsPerDay) exDay (exDay + 1) False [exOwner] (cw_man exStored))"
proof -
  have t: "MaxTTL exRetention = 30 * nsPerDay" by code_simp
  have n: "nsPerDay = 86400000000000" "exDay = 1704067200000000000" by (simp_all add: nsPerDay_def hour_def minute_def second_def exDay_def)
  have r: "retentionExpiry (Some exRetention) exHidden = Some (exDay + 10 + 31 * nsPerDay)" by code_simp
  define pr where "pr = exPod\<lparr>p_expiry := Some (retentionExpiry (Some exRetention))\<rparr>"
  have e: "expiredAt pr (exDay + 32 * nsPerDay) exHidden" by (simp add: expiredAt_def pr_def r n)
  have d: "dayOf (fi_MaxTimeNs exApiFile) = dayOf exDay" by code_simp
  have "exApiFile \<notin> set (filesForTenants (Some exRetention) (exDay + 32 * nsPerDay) exDay (exDay + 1) False [exOwner] (cw_man exStored))"
    by (rule tombstone_outlives_rows [OF exRetention_def _ _ _ e order_refl, where ts = exDay]) (simp_all add: t n d max_int64_def pr_def exHidden_def)
  then show ?thesis using r by simp
qed

section \<open>Configurations\<close>





end
