(* ===== verification/TombRead.thy ===== *)
theory TombRead
  imports TenantScope Pruning TombStore
begin

text \<open>
  Deletes on the read path: \<open>src/internal/delete/proof.go\<close> and, under
  \<open>src/internal/storage/parquets3/\<close>, \<open>tombstone_scope.go\<close>, \<open>tombstone_proof.go\<close>, \<open>filter.go\<close>, \<open>drop_trace_shaped_rows.go\<close> and
  \<open>suppressTombstonedRows\<close> of \<open>storage.go\<close>; the field registry is \<open>src/internal/schema/registry.go\<close>.

  A row is the list of its cells, a name and a value for each column of its block. A write function is represented by the list of
  tombstones it applies. Parameters: the filter engine \<open>ql\<close>, the parser of RFC 3339 times \<open>parseTime\<close>, and \<open>tree\<close>, the syntax tree of
  a parsed filter as far as \<open>proofTerms\<close> looks at it by reflection.
\<close>

section \<open>The field registry\<close>

datatype fieldOrigin = OriginPromoted | OriginResourceMap | OriginLogAttrMap | OriginSpanAttrMap | OriginScopeAttrMap

record fieldMapping =
  fm_ParquetColumn :: string
  fm_InternalName :: string
  fm_Type :: fieldType
  fm_Origin :: fieldOrigin
  fm_MapColumn :: string
  fm_MapKey :: string
  fm_HasBloom :: bool

record registry =
  rg_mapColumns :: "string list"
  rg_byInternal :: "(string, fieldMapping) gomap"
  rg_byParquet :: "(string, fieldMapping) gomap"

definition NewRegistry :: "fieldMapping list \<Rightarrow> string list \<Rightarrow> registry" where
  "NewRegistry promoted mapColumns =
     \<lparr>rg_mapColumns = mapColumns, rg_byInternal = fold (\<lambda>m. mput (fm_InternalName m) m) promoted [],
      rg_byParquet = fold (\<lambda>m. mput (fm_ParquetColumn m) m) promoted []\<rparr>"

definition mapColumnToOrigin :: "string \<Rightarrow> fieldOrigin" where
  "mapColumnToOrigin col =
     (if col = ''span.attributes'' then OriginSpanAttrMap
      else if col = ''log.attributes'' then OriginLogAttrMap
      else if col = ''scope.attributes'' then OriginScopeAttrMap
      else OriginResourceMap)"

definition mapField :: "string \<Rightarrow> fieldOrigin \<Rightarrow> string \<Rightarrow> string \<Rightarrow> fieldMapping" where
  "mapField col origin internalName key =
     \<lparr>fm_ParquetColumn = col, fm_InternalName = internalName, fm_Type = TypeString, fm_Origin = origin, fm_MapColumn = col, fm_MapKey = key,
      fm_HasBloom = False\<rparr>"

text \<open>\<open>strings.CutPrefix\<close>.\<close>

definition cutPrefix :: "string \<Rightarrow> string \<Rightarrow> string option" where
  "cutPrefix s pre = (if hasPrefix s pre then Some (drop (length pre) s) else None)"

definition ResolveToParquet :: "registry \<Rightarrow> string \<Rightarrow> fieldMapping option" where
  "ResolveToParquet r name =
     (case mget (rg_byInternal r) name of
        Some m \<Rightarrow> Some m
      | None \<Rightarrow>
          (case mget (rg_byParquet r) name of
             Some m \<Rightarrow> Some m
           | None \<Rightarrow>
               (case cutPrefix name ''resource_attr:'' of
                  Some key \<Rightarrow> Some (mapField ''resource.attributes'' OriginResourceMap name key)
                | None \<Rightarrow>
                    (case cutPrefix name ''span_attr:'' of
                       Some key \<Rightarrow> Some (mapField ''span.attributes'' OriginSpanAttrMap name key)
                     | None \<Rightarrow>
                         (case cutPrefix name ''scope_attr:'' of
                            Some key \<Rightarrow> Some (mapField ''scope.attributes'' OriginScopeAttrMap name key)
                          | None \<Rightarrow>
                              (case cutPrefix name ''log_attr:'' of
                                 Some key \<Rightarrow> Some (mapField ''log.attributes'' OriginLogAttrMap name key)
                               | None \<Rightarrow>
                                   (case rg_mapColumns r of
                                      [] \<Rightarrow> None
                                    | c # _ \<Rightarrow> Some (mapField c (mapColumnToOrigin c) name name))))))))"

section \<open>The proof that a tombstone cannot match\<close>

record proofTerm =
  pt_Column :: string
  pt_Values :: "string list"
  pt_Bloom :: bool

record fileProof =
  fp_Start :: int
  fp_End :: int
  fp_Terms :: "proofTerm list"

text \<open>What reflection finds in a filter: an AND, a filter on one field (with a wildcard name or not), or anything else. \<open>FilterIn plain vs\<close> has
  \<open>plain\<close> when there is no subquery.\<close>

datatype valueNode = FilterExact string | FilterIn bool "string list" | OtherValue
datatype filterNode = FilterAnd "filterNode list" | FilterGeneric bool string valueNode | OtherNode

type_synonym filter_tree = "string \<Rightarrow> int \<Rightarrow> filterNode"
type_synonym bloomFunc = "string \<Rightarrow> string \<Rightarrow> string \<Rightarrow> bool \<times> bool"

definition exactValues :: "valueNode \<Rightarrow> string list" where
  "exactValues f =
     (let vals = (case f of FilterExact v \<Rightarrow> [v] | FilterIn plain vs \<Rightarrow> if plain then vs else [] | OtherValue \<Rightarrow> [])
      in if list_ex (\<lambda>v. v = []) vals then [] else vals)"

fun proofTerms :: "(string \<Rightarrow> (string \<times> bool) option) \<Rightarrow> filterNode \<Rightarrow> proofTerm list" where
  "proofTerms resolve (FilterAnd fs) = concat (map (proofTerms resolve) fs)"
| "proofTerms resolve (FilterGeneric isWildcard fieldName f) =
     (if isWildcard then []
      else case resolve fieldName of
        None \<Rightarrow> []
      | Some (column, bloom) \<Rightarrow>
          if exactValues f = [] then [] else [\<lparr>pt_Column = column, pt_Values = exactValues f, pt_Bloom = bloom\<rparr>])"
| "proofTerms resolve OtherNode = []"

definition Filter :: "filter_engine \<Rightarrow> tombstone \<Rightarrow> (row \<Rightarrow> bool) option" where
  "Filter ql t = (if matchAll (t_Query t) then None else ql (t_Query t) (t_FilterAt t))"

type_synonym proofKey = "string \<times> string \<times> int \<times> int \<times> int"
type_synonym proofs = "(proofKey, fileProof) gomap"

definition keyOf :: "tombstone \<Rightarrow> proofKey" where
  "keyOf t = (t_ID t, t_Query t, t_StartNs t, t_EndNs t, t_FilterAt t)"

definition CompileProofs :: "filter_engine \<Rightarrow> filter_tree \<Rightarrow> (string \<Rightarrow> (string \<times> bool) option) \<Rightarrow> tombstone list \<Rightarrow> proofs" where
  "CompileProofs ql tree resolve tss =
     fold (\<lambda>t p. mput (keyOf t)
         \<lparr>fp_Start = t_StartNs t, fp_End = t_EndNs t,
          fp_Terms = (if Filter ql t = None then [] else proofTerms resolve (tree (t_Query t) (t_FilterAt t)))\<rparr> p) tss []"

definition anyOf :: "string list \<Rightarrow> string list \<Rightarrow> bool" where
  "anyOf vs have' = list_ex (\<lambda>v. list_ex (\<lambda>h. v = h) have') vs"

definition allAbsent :: "proofTerm \<Rightarrow> string \<Rightarrow> bloomFunc \<Rightarrow> bool" where
  "allAbsent t key bloom = list_all (\<lambda>v. case bloom key (pt_Column t) v of (present, usable) \<Rightarrow> \<not> present \<and> usable) (pt_Values t)"

definition CannotMatch ::
    "fileProof \<Rightarrow> string \<Rightarrow> int \<Rightarrow> int \<Rightarrow> (string, string list) gomap \<Rightarrow> nat \<Rightarrow> bloomFunc option \<Rightarrow> bool" where
  "CannotMatch p key minNs maxNs labels labelCap bloom =
     (if fp_Start p > fp_End p \<or> (minNs \<noteq> 0 \<and> maxNs \<noteq> 0 \<and> (maxNs < fp_Start p \<or> minNs > fp_End p)) then True
      else list_ex (\<lambda>t.
        (let have' = (case mget labels (pt_Column t) of None \<Rightarrow> [] | Some vs \<Rightarrow> vs)
         in length have' > 0 \<and> length have' < labelCap \<and> \<not> anyOf (pt_Values t) have')
        \<or> (pt_Bloom t \<and> (case bloom of None \<Rightarrow> False | Some b \<Rightarrow> allAbsent t key b))) (fp_Terms p))"

definition AnyMayMatch ::
    "proofs \<Rightarrow> tombstone list \<Rightarrow> string \<Rightarrow> int \<Rightarrow> int \<Rightarrow> (string, string list) gomap \<Rightarrow> nat \<Rightarrow> bloomFunc option \<Rightarrow> bool" where
  "AnyMayMatch p tss key minNs maxNs labels labelCap bloom =
     list_ex (\<lambda>t. case mget p (keyOf t) of
         None \<Rightarrow> True
       | Some fp \<Rightarrow> \<not> CannotMatch fp key minNs maxNs labels labelCap bloom) tss"

section \<open>Blocks\<close>

text \<open>A block has the values of each column; every column has one value for each row, and a block without columns has no rows.\<close>

record block =
  bl_columns :: "(string \<times> string list) list"
  bl_rows :: nat

definition block_ok :: "block \<Rightarrow> bool" where
  "block_ok db \<longleftrightarrow> (bl_columns db = [] \<longrightarrow> bl_rows db = 0) \<and> (\<forall>(n, vs) \<in> set (bl_columns db). length vs = bl_rows db)"

definition cells :: "block \<Rightarrow> nat \<Rightarrow> row" where
  "cells db r = map (\<lambda>(n, vs). (n, vs ! r)) (bl_columns db)"

definition blockRows :: "block option \<Rightarrow> row list" where
  "blockRows b = (case b of None \<Rightarrow> [] | Some db \<Rightarrow> map (cells db) [0 ..< bl_rows db])"

text \<open>The block of the rows that a mask keeps.\<close>

definition selectRows :: "bool list \<Rightarrow> block \<Rightarrow> block" where
  "selectRows keep db =
     \<lparr>bl_columns = map (\<lambda>(n, vs). (n, map fst (filter snd (zip vs keep)))) (bl_columns db), bl_rows = length (filter (\<lambda>b. b) keep)\<rparr>"

text \<open>For a name that several columns carry the last one is the value of the row.\<close>

fun lastFields :: "row \<Rightarrow> row" where
  "lastFields [] = []"
| "lastFields ((n, v) # r) = (if n \<in> set (map fst r) then lastFields r else (n, v) # lastFields r)"

text \<open>\<open>strconv.ParseInt(v, 10, 64)\<close> with its error dropped: zero for bad syntax, the nearest bound for a number out of range.\<close>

definition parseIntValue :: "string \<Rightarrow> int" where
  "parseIntValue s =
     (let neg = (s \<noteq> [] \<and> hd s = CHR ''-'');
          u = (if s \<noteq> [] \<and> (hd s = CHR ''-'' \<or> hd s = CHR ''+'') then tl s else s);
          v = (if neg then - digits u else digits u)
      in if u = [] \<or> \<not> list_all digit u then 0 else max (- (2 ^ 63)) (min max_int64 v))"

definition rowNs :: "(string \<Rightarrow> int option) \<Rightarrow> row \<Rightarrow> int" where
  "rowNs parseTime r =
     (case find (\<lambda>(n, v). n = ''_time'' \<or> n = ''timestamp_unix_nano'') r of
        None \<Rightarrow> 0
      | Some (n, v) \<Rightarrow> (case parseTime v of Some t \<Rightarrow> t | None \<Rightarrow> parseIntValue v))"

record matcher =
  mt_lo :: int
  mt_hi :: int
  mt_all :: bool
  mt_f :: "(row \<Rightarrow> bool) option"

definition matcherOf :: "filter_engine \<Rightarrow> tombstone \<Rightarrow> matcher" where
  "matcherOf ql t = \<lparr>mt_lo = t_StartNs t, mt_hi = t_EndNs t, mt_all = matchAll (t_Query t), mt_f = Filter ql t\<rparr>"

definition matcherHits :: "int \<Rightarrow> row \<Rightarrow> matcher \<Rightarrow> bool" where
  "matcherHits ns r m =
     (if ns < mt_lo m \<or> ns > mt_hi m then False
      else if mt_all m then True
      else case mt_f m of None \<Rightarrow> False | Some f \<Rightarrow> f r)"

definition KeepRows :: "filter_engine \<Rightarrow> (string \<Rightarrow> int option) \<Rightarrow> block \<Rightarrow> tombstone list \<Rightarrow> bool list \<times> nat" where
  "KeepRows ql parseTime db tss =
     (let ms = map (matcherOf ql) tss;
          keep = map (\<lambda>r. \<not> list_ex (matcherHits (rowNs parseTime (cells db r)) (lastFields (cells db r))) ms) [0 ..< bl_rows db]
      in (keep, length (filter (\<lambda>b. b) keep)))"

definition suppressTombstonedRows :: "filter_engine \<Rightarrow> (string \<Rightarrow> int option) \<Rightarrow> block \<Rightarrow> tombstone list \<Rightarrow> block option" where
  "suppressTombstonedRows ql parseTime db tss =
     (if tss = [] then Some db
      else case KeepRows ql parseTime db tss of
        (keep, keepCount) \<Rightarrow>
          if keepCount = 0 then None else if keepCount = bl_rows db then Some db else Some (selectRows keep db))"

definition filterDataBlock :: "(row \<Rightarrow> bool) option \<Rightarrow> block \<Rightarrow> block option" where
  "filterDataBlock f db =
     (case f of
        None \<Rightarrow> Some db
      | Some p \<Rightarrow>
          if bl_rows db = 0 \<or> bl_columns db = [] then Some db
          else let keep = map (\<lambda>r. p (cells db r)) [0 ..< bl_rows db]; kept = length (filter (\<lambda>b. b) keep)
               in if kept = 0 then None else if kept = bl_rows db then Some db else Some (selectRows keep db))"

definition IsTraceShapedStream :: "string \<Rightarrow> bool" where
  "IsTraceShapedStream s =
     (if s = [] then False
      else if containsStr s ''resource_attr:'' then True
      else if hasPrefix s (''{name='' @ [CHR 0x22]) then True
      else containsStr s ''trace_service_graph_stream='')"

definition streamOf :: "row \<Rightarrow> string" where
  "streamOf r = (case find (\<lambda>(n, v). n = ''_stream'') r of None \<Rightarrow> [] | Some (n, v) \<Rightarrow> v)"

definition dropTraceShapedRows :: "block \<Rightarrow> block option" where
  "dropTraceShapedRows db =
     (if bl_rows db = 0 then Some db
      else case find (\<lambda>(n, vs). n = ''_stream'') (bl_columns db) of
        None \<Rightarrow> Some db
      | Some (n, vs) \<Rightarrow>
          let keep = map (\<lambda>v. \<not> IsTraceShapedStream v) vs; kept = length (filter (\<lambda>b. b) keep)
          in if kept = length vs then Some db else if kept = 0 then None else Some (selectRows keep db))"

text \<open>The filters of a block of raw rows. The counter of field names, which has a filter of its own, is not modelled.\<close>

definition filterRaw :: "filter_engine \<Rightarrow> (string \<Rightarrow> int option) \<Rightarrow> mode \<Rightarrow> (row \<Rightarrow> bool) option \<Rightarrow> tombstone list \<Rightarrow> block \<Rightarrow> block option" where
  "filterRaw ql parseTime md f tss db =
     (case filterDataBlock f db of
        None \<Rightarrow> None
      | Some db1 \<Rightarrow>
          if bl_rows db1 = 0 then None
          else case (if tss \<noteq> [] then suppressTombstonedRows ql parseTime db1 tss else Some db1) of
            None \<Rightarrow> None
          | Some db2 \<Rightarrow>
              if bl_rows db2 = 0 then None
              else if md = ModeLogs
              then (case dropTraceShapedRows db2 of None \<Rightarrow> None | Some db3 \<Rightarrow> if bl_rows db3 = 0 then None else Some db3)
              else Some db2)"

text \<open>Nothing is written after the writer panicked, or once the rows of the query's budget were emitted; the second cancels the query.\<close>

definition preFilter ::
    "filter_engine \<Rightarrow> (string \<Rightarrow> int option) \<Rightarrow> mode \<Rightarrow> (row \<Rightarrow> bool) option \<Rightarrow> bool \<Rightarrow> int \<Rightarrow> int \<Rightarrow> tombstone list \<Rightarrow> block \<Rightarrow> bool \<times> block option" where
  "preFilter ql parseTime md f panicked maxRows emitted tss db =
     (if panicked then (False, None)
      else if maxRows > 0 \<and> emitted \<ge> maxRows then (True, None)
      else (False, filterRaw ql parseTime md f tss db))"

section \<open>The tombstones of a request\<close>

definition tombstoneActsOnScope :: "tombstone \<Rightarrow> tenantScope \<Rightarrow> bool \<Rightarrow> bool" where
  "tombstoneActsOnScope t scope accountOnly =
     (if sc_all scope then True
      else list_ex (\<lambda>(a, q).
        case parseUint32 a of
          None \<Rightarrow> False
        | Some account \<Rightarrow>
            (case parseUint32 q of
               None \<Rightarrow> False
             | Some project \<Rightarrow> AppliesToTenant t account (if accountOnly then 0 else project))) (scopePairs scope))"

definition scopeTombstones :: "tstore option \<Rightarrow> bool \<Rightarrow> tenantScope \<Rightarrow> int \<Rightarrow> int \<Rightarrow> tombstone list" where
  "scopeTombstones st accountOnly scope startNs endNs =
     (case st of
        None \<Rightarrow> []
      | Some s \<Rightarrow>
          let tss = ForRange s startNs endNs
          in if tss = [] then []
             else if sc_all scope then tss
             else filter (\<lambda>t. tombstoneActsOnScope t scope accountOnly) tss)"

text \<open>The sink of a query. Its write functions are the lists of tombstones they apply.\<close>

record tombstoneSink =
  sk_uniform :: "tombstone list"
  sk_perTenant :: bool
  sk_tss :: "tombstone list"
  sk_parse :: key_tenant
  sk_accountOnly :: bool
  sk_cache :: "(string, tombstone list) gomap"

definition newTombstoneSink :: "tenantScope \<Rightarrow> tombstone list \<Rightarrow> key_tenant \<Rightarrow> bool \<Rightarrow> tombstoneSink" where
  "newTombstoneSink scope tss parse accountOnly =
     (let sk = \<lparr>sk_uniform = tss, sk_perTenant = False, sk_tss = tss, sk_parse = parse, sk_accountOnly = False, sk_cache = []\<rparr>
      in if scopeSingle scope \<or> tss = [] then sk else sk\<lparr>sk_perTenant := True, sk_accountOnly := accountOnly\<rparr>)"

definition forFile :: "tombstoneSink \<Rightarrow> string \<Rightarrow> tombstone list" where
  "forFile sk key = (if \<not> sk_perTenant sk then sk_tss sk else ForKey (sk_tss sk) (sk_parse sk) key)"

definition cached :: "string \<Rightarrow> tombstone list \<Rightarrow> tombstoneSink \<Rightarrow> tombstone list \<times> tombstoneSink" where
  "cached key chosen sk =
     (case mget (sk_cache sk) key of
        Some wb \<Rightarrow> (wb, sk)
      | None \<Rightarrow> (chosen, sk\<lparr>sk_cache := mput key chosen (sk_cache sk)\<rparr>))"

definition forKey :: "string \<Rightarrow> tombstoneSink \<Rightarrow> tombstone list \<times> tombstoneSink" where
  "forKey key sk =
     (if \<not> sk_perTenant sk then (sk_uniform sk, sk)
      else let cacheKey = (case sk_parse sk key of
                  None \<Rightarrow> ''k:legacy''
                | Some (account, project) \<Rightarrow> ''k:'' @ account @ ''/'' @ project)
           in cached cacheKey (ForKey (sk_tss sk) (sk_parse sk) key) sk)"

definition forTenant :: "tenantRef \<Rightarrow> tombstoneSink \<Rightarrow> tombstone list \<times> tombstoneSink" where
  "forTenant tid sk =
     (if \<not> sk_perTenant sk then (sk_uniform sk, sk)
      else let project = (if sk_accountOnly sk then 0 else ProjectID tid)
           in cached (''t:'' @ formatDec (AccountID tid) @ ''/'' @ formatDec project) (ForTenant (sk_tss sk) (AccountID tid) project) sk)"

text \<open>Buffered rows are emitted tenant by tenant, in the order in which the tenants first appear. \<open>toBlock\<close> is the conversion of rows into
  a block. The result has, for each block written, the tombstones of its write function.\<close>

definition groupRowsByTenant :: "('r \<Rightarrow> tenantRef) \<Rightarrow> 'r list \<Rightarrow> tenantRef list \<times> (tenantRef, 'r list) gomap" where
  "groupRowsByTenant tenantOf rows =
     fold (\<lambda>r (order, groups).
       (if mhas groups (tenantOf r) then order else order @ [tenantOf r],
        mput (tenantOf r) ((case mget groups (tenantOf r) of None \<Rightarrow> [] | Some rs \<Rightarrow> rs) @ [r]) groups)) rows ([], [])"

fun emitTenants ::
    "('r list \<Rightarrow> block option) \<Rightarrow> (tenantRef, 'r list) gomap \<Rightarrow> tenantRef list \<Rightarrow> tombstoneSink \<Rightarrow> (tombstone list \<times> block) list \<times> tombstoneSink" where
  "emitTenants toBlock groups [] sk = ([], sk)"
| "emitTenants toBlock groups (tid # tids) sk =
     (case toBlock (case mget groups tid of None \<Rightarrow> [] | Some rs \<Rightarrow> rs) of
        None \<Rightarrow> emitTenants toBlock groups tids sk
      | Some db \<Rightarrow>
          if bl_rows db = 0 then emitTenants toBlock groups tids sk
          else case forTenant tid sk of
            (w, sk1) \<Rightarrow> (case emitTenants toBlock groups tids sk1 of (out, sk2) \<Rightarrow> ((w, db) # out, sk2)))"

definition emitBridgeLogRows ::
    "('r \<Rightarrow> tenantRef) \<Rightarrow> ('r list \<Rightarrow> block option) \<Rightarrow> 'r list \<Rightarrow> tombstoneSink \<Rightarrow> (tombstone list \<times> block) list \<times> tombstoneSink" where
  "emitBridgeLogRows tenantOf toBlock rows sk =
     (if rows = [] then ([], sk)
      else if \<not> sk_perTenant sk
      then (case toBlock rows of None \<Rightarrow> ([], sk) | Some db \<Rightarrow> (if bl_rows db > 0 then [(sk_uniform sk, db)] else [], sk))
      else case groupRowsByTenant tenantOf rows of (order, groups) \<Rightarrow> emitTenants toBlock groups order sk)"

section \<open>Files that no tombstone touches\<close>

definition maxProofPairs :: nat where "maxProofPairs = 2 ^ 20"

record tombstoneProofs =
  tp_Proofs :: proofs
  tp_bloom :: "bloomFunc option"

definition resolvePromoted :: "registry \<Rightarrow> string \<Rightarrow> (string \<times> bool) option" where
  "resolvePromoted r field =
     (case ResolveToParquet r field of
        None \<Rightarrow> None
      | Some m \<Rightarrow> if fm_Origin m \<noteq> OriginPromoted then None else Some (fm_ParquetColumn m, fm_HasBloom m))"

text \<open>A lookup in the catalog for one file. A sound index does not panic (\<open>lookup_ok_facet\<close>), so the answer for a panic, which would end the
  query, does not matter.\<close>

definition catalogBloom :: "catalog \<Rightarrow> bloomFunc" where
  "catalogBloom cat key column v =
     (case BloomMayContain cat (ExtractTenantPartition key) [key] column v of
        LOk matched \<Rightarrow> (matched \<noteq> [], True)
      | LMiss \<Rightarrow> (False, False)
      | LPanic \<Rightarrow> (True, False))"

definition compileProofs :: "filter_engine \<Rightarrow> filter_tree \<Rightarrow> registry \<Rightarrow> catalog option \<Rightarrow> tombstone list \<Rightarrow> tombstoneProofs" where
  "compileProofs ql tree r cat tss =
     \<lparr>tp_Proofs = CompileProofs ql tree (resolvePromoted r) tss, tp_bloom = map_option catalogBloom cat\<rparr>"

text \<open>\<open>path.Base\<close> of a key.\<close>

definition pathBase :: "string \<Rightarrow> string" where
  "pathBase s =
     (if s = [] then ''.''
      else let t = rev (dropWhile (\<lambda>c. c = CHR ''/'') (rev s)); b = rev (takeWhile (\<lambda>c. c \<noteq> CHR ''/'') (rev t))
           in if b = [] then ''/'' else b)"

definition anyMayMatch :: "tombstoneProofs \<Rightarrow> fileInfo \<Rightarrow> tombstone list \<Rightarrow> bool" where
  "anyMayMatch p fi tss =
     (if tss = [] then False
      else let labels = (if fi_CompactionLevel fi > 0 \<or> hasPrefix (pathBase (fi_Key fi)) ''compacted-'' then [] else fi_Labels fi)
           in AnyMayMatch (tp_Proofs p) tss (fi_Key fi) (fi_MinTimeNs fi) (fi_MaxTimeNs fi) labels maxLabelsPerField (tp_bloom p))"

text \<open>The split in place: clean files are swapped to the front. \<open>i\<close> is the index of the loop.\<close>

fun laneLoop :: "(fileInfo \<Rightarrow> bool) \<Rightarrow> nat \<Rightarrow> nat \<Rightarrow> nat \<Rightarrow> fileInfo list \<Rightarrow> nat \<times> fileInfo list" where
  "laneLoop dirty 0 i clean files = (clean, files)"
| "laneLoop dirty (Suc n) i clean files =
     (if \<not> dirty (files ! i)
      then laneLoop dirty n (Suc i) (Suc clean) (files[clean := files ! i, i := files ! clean])
      else laneLoop dirty n (Suc i) clean files)"

text \<open>The clean files and the rest.\<close>

definition newCleanLane ::
    "filter_engine \<Rightarrow> filter_tree \<Rightarrow> registry \<Rightarrow> catalog option \<Rightarrow> tombstoneSink \<Rightarrow> fileInfo list \<Rightarrow> fileInfo list \<times> fileInfo list" where
  "newCleanLane ql tree r cat sk files =
     (if length files * length (sk_tss sk) > maxProofPairs then ([], files)
      else let proofs = compileProofs ql tree r cat (sk_tss sk)
           in case laneLoop (\<lambda>fi. anyMayMatch proofs fi (forFile sk (fi_Key fi))) (length files) 0 0 files of
                (clean, fs) \<Rightarrow> (take clean fs, drop clean fs))"

definition splitCleanFiles ::
    "filter_engine \<Rightarrow> filter_tree \<Rightarrow> registry \<Rightarrow> catalog option \<Rightarrow> bool \<Rightarrow> tombstoneSink \<Rightarrow> fileInfo list
     \<Rightarrow> fileInfo list \<times> fileInfo list \<times> bool" where
  "splitCleanFiles ql tree r cat hasTombstones sk files =
     (if \<not> hasTombstones then (files, [], False)
      else case newCleanLane ql tree r cat sk files of (clean, rest) \<Rightarrow> (clean, rest, True))"

definition markClean :: "bool \<Rightarrow> fileInfo list \<Rightarrow> string list option" where
  "markClean hasLane files = (if \<not> hasLane then None else Some (map fi_Key files))"

text \<open>The tombstones that the reads of one file apply.\<close>

definition lanePick :: "string list option \<Rightarrow> string \<Rightarrow> tombstoneSink \<Rightarrow> tombstone list \<times> tombstoneSink" where
  "lanePick lane key sk = (case lane of Some keys \<Rightarrow> if key \<in> set keys then ([], sk) else forKey key sk | None \<Rightarrow> forKey key sk)"

end
