(* ===== verification/TombReadProofs.thy ===== *)
theory TombReadProofs
  imports TombRead TenantScopeProofs
begin

text \<open>What the read path hides: the filters of a block against their meaning for rows, the sink, the clean lane.\<close>

section \<open>Rows of blocks\<close>

lemma zip_select:
  assumes "length vs = length keep"
  shows "map fst (filter snd (zip vs keep)) = map ((!) vs) (filter ((!) keep) [0 ..< length keep])"
proof -
  have "zip vs keep = map (\<lambda>i. (vs ! i, keep ! i)) [0 ..< length keep]" using assms by (intro nth_equalityI) simp_all
  then show ?thesis by (simp add: filter_map comp_def)
qed

text \<open>Selecting with a mask is filtering the rows.\<close>

lemma selectRows_rows:
  assumes "block_ok db" "length keep = bl_rows db"
  shows "block_ok (selectRows keep db)" "blockRows (Some (selectRows keep db)) = map (cells db) (filter ((!) keep) [0 ..< bl_rows db])"
proof -
  define js where "js = filter ((!) keep) [0 ..< bl_rows db]"
  have "filter (\<lambda>b. b) keep = map ((!) keep) js" using filter_map [of "\<lambda>b. b" "(!) keep" "[0 ..< length keep]"] by (simp add: map_nth js_def comp_def flip: assms(2))
  then have n: "bl_rows (selectRows keep db) = length js" by (simp add: selectRows_def)
  have c: "map fst (filter snd (zip vs keep)) = map ((!) vs) js" if "(a, vs) \<in> set (bl_columns db)" for a vs
    using that assms zip_select [of vs keep] by (auto simp: block_ok_def js_def)
  then have cols: "bl_columns (selectRows keep db) = map (\<lambda>(a, vs). (a, map ((!) vs) js)) (bl_columns db)" by (auto simp: selectRows_def)
  have "js = []" if "bl_columns db = []" using that assms(1) by (simp add: block_ok_def js_def)
  then show "block_ok (selectRows keep db)" unfolding block_ok_def cols n by auto
  have "cells (selectRows keep db) k = cells db (js ! k)" if "k < length js" for k
    using that by (auto simp: cells_def cols)
  then have "map (cells (selectRows keep db)) [0 ..< length js] = map (cells db) js" by (intro nth_equalityI) simp_all
  then show "blockRows (Some (selectRows keep db)) = map (cells db) (filter ((!) keep) [0 ..< bl_rows db])" by (simp add: blockRows_def n js_def)
qed

lemma kept_rows:
  assumes "block_ok db" "keep = map (\<lambda>r. P (cells db r)) [0 ..< bl_rows db]"
  shows "block_ok (selectRows keep db)" "blockRows (Some (selectRows keep db)) = filter P (blockRows (Some db))"
    "length (filter (\<lambda>b. b) keep) = length (filter P (blockRows (Some db)))"
proof -
  have l: "length keep = bl_rows db" by (simp add: assms(2))
  show "block_ok (selectRows keep db)" by (rule selectRows_rows(1) [OF assms(1) l])
  have "filter ((!) keep) [0 ..< bl_rows db] = filter (\<lambda>r. P (cells db r)) [0 ..< bl_rows db]" by (rule filter_cong) (simp_all add: assms(2))
  then show "blockRows (Some (selectRows keep db)) = filter P (blockRows (Some db))"
    using selectRows_rows(2) [OF assms(1) l] by (simp add: blockRows_def filter_map comp_def)
  show "length (filter (\<lambda>b. b) keep) = length (filter P (blockRows (Some db)))"
    by (simp add: assms(2) blockRows_def filter_map comp_def)
qed

lemma all_kept: "length (filter P xs) = length xs \<Longrightarrow> filter P xs = xs"
  by (metis filter_id_conv length_filter_less less_irrefl)

definition selects :: "block \<Rightarrow> (row \<Rightarrow> bool) \<Rightarrow> block option \<Rightarrow> bool" where
  "selects db P out \<longleftrightarrow> blockRows out = filter P (blockRows (Some db)) \<and> (\<forall>db'. out = Some db' \<longrightarrow> block_ok db')"

lemma selects_mask:
  assumes "block_ok db" "keep = map (\<lambda>r. P (cells db r)) [0 ..< bl_rows db]"
  shows "selects db P (if length (filter (\<lambda>b. b) keep) = 0 then None else if length (filter (\<lambda>b. b) keep) = bl_rows db then Some db else Some (selectRows keep db))"
proof -
  have n: "length (blockRows (Some db)) = bl_rows db" by (simp add: blockRows_def)
  show ?thesis
  proof (cases "length (filter (\<lambda>b. b) keep) = 0")
    case True
    then have "filter P (blockRows (Some db)) = []" unfolding kept_rows(3) [OF assms] by simp
    then show ?thesis using True by (simp add: selects_def blockRows_def)
  next
    case some: False
    show ?thesis
    proof (cases "length (filter (\<lambda>b. b) keep) = bl_rows db")
      case True
      then have "filter P (blockRows (Some db)) = blockRows (Some db)" using kept_rows(3) [OF assms] n by (intro all_kept) simp
      then show ?thesis using True some assms(1) by (simp add: selects_def)
    next
      case False
      then show ?thesis using some kept_rows(1, 2) [OF assms] by (simp add: selects_def)
    qed
  qed
qed

section \<open>The filters\<close>

definition hidden :: "filter_engine \<Rightarrow> (string \<Rightarrow> int option) \<Rightarrow> tombstone list \<Rightarrow> row \<Rightarrow> bool" where
  "hidden ql parseTime tss r \<longleftrightarrow> (\<exists>t \<in> set tss. MatchesFields ql t (lastFields r) (rowNs parseTime r))"

lemma matcherHits_iff: "matcherHits ns r (matcherOf ql t) \<longleftrightarrow> MatchesFields ql t r ns"
  by (simp add: matcherHits_def matcherOf_def MatchesFields_def Filter_def)

lemma suppress_selects: "block_ok db \<Longrightarrow> selects db (\<lambda>r. \<not> hidden ql parseTime tss r) (suppressTombstonedRows ql parseTime db tss)"
proof -
  assume ok: "block_ok db"
  show ?thesis
  proof (cases "tss = []")
    case True
    then show ?thesis using ok by (simp add: selects_def suppressTombstonedRows_def hidden_def)
  next
    case False
    define keep where "keep = map (\<lambda>r. \<not> hidden ql parseTime tss (cells db r)) [0 ..< bl_rows db]"
    have "KeepRows ql parseTime db tss = (keep, length (filter (\<lambda>b. b) keep))"
      by (simp add: KeepRows_def keep_def hidden_def list_ex_iff matcherHits_iff comp_def)
    then show ?thesis using False selects_mask [OF ok keep_def] by (simp add: suppressTombstonedRows_def)
  qed
qed

definition queryKeeps :: "(row \<Rightarrow> bool) option \<Rightarrow> row \<Rightarrow> bool" where
  "queryKeeps f r = (case f of None \<Rightarrow> True | Some p \<Rightarrow> p r)"

lemma filterDataBlock_selects: "block_ok db \<Longrightarrow> selects db (queryKeeps f) (filterDataBlock f db)"
proof -
  assume ok: "block_ok db"
  show ?thesis
  proof (cases f)
    case (Some p)
    show ?thesis
    proof (cases "bl_rows db = 0 \<or> bl_columns db = []")
      case True
      then have "bl_rows db = 0" using ok by (auto simp: block_ok_def)
      then show ?thesis using Some ok by (simp add: selects_def filterDataBlock_def blockRows_def)
    next
      case False
      define keep where "keep = map (\<lambda>r. p (cells db r)) [0 ..< bl_rows db]"
      have "filterDataBlock f db = (if length (filter (\<lambda>b. b) keep) = 0 then None else if length (filter (\<lambda>b. b) keep) = bl_rows db then Some db else Some (selectRows keep db))"
        using Some False by (simp add: filterDataBlock_def Let_def keep_def filter_map)
      moreover have "queryKeeps f = p" by (simp add: queryKeeps_def fun_eq_iff Some)
      ultimately show ?thesis using selects_mask [OF ok keep_def] by simp
    qed
  qed (use ok in \<open>simp add: selects_def filterDataBlock_def queryKeeps_def\<close>)
qed

lemma find_cells: "find (\<lambda>(n, v). n = a) (cells db r) = map_option (\<lambda>(n, vs). (n, vs ! r)) (find (\<lambda>(n, vs). n = a) (bl_columns db))"
proof -
  have "find (\<lambda>(n, v). n = a) (map (\<lambda>(n, vs). (n, vs ! r)) cs) = map_option (\<lambda>(n, vs). (n, vs ! r)) (find (\<lambda>(n, vs). n = a) cs)"
    for cs :: "(string \<times> string list) list"
    by (induction cs) auto
  then show ?thesis by (simp add: cells_def)
qed

lemma dropTraceShaped_selects: "block_ok db \<Longrightarrow> selects db (\<lambda>r. \<not> IsTraceShapedStream (streamOf r)) (dropTraceShapedRows db)"
proof -
  assume ok: "block_ok db"
  show ?thesis
  proof (cases "bl_rows db = 0")
    case True
    then show ?thesis using ok by (simp add: selects_def dropTraceShapedRows_def blockRows_def)
  next
    case rows: False
    show ?thesis
    proof (cases "find (\<lambda>(n, vs). n = ''_stream'') (bl_columns db)")
      case None
      then have "streamOf (cells db r) = []" for r by (simp add: streamOf_def find_cells)
      then have "filter (\<lambda>r. \<not> IsTraceShapedStream (streamOf r)) (blockRows (Some db)) = blockRows (Some db)"
        by (intro filter_True) (auto simp: blockRows_def IsTraceShapedStream_def)
      then show ?thesis using None rows ok by (simp add: selects_def dropTraceShapedRows_def)
    next
      case (Some c)
      obtain n vs where c: "c = (n, vs)" by (cases c)
      have "(n, vs) \<in> set (bl_columns db)" using Some unfolding c by (auto simp: find_Some_iff) (metis nth_mem)
      then have l: "length vs = bl_rows db" using ok by (auto simp: block_ok_def)
      have s: "streamOf (cells db r) = vs ! r" for r by (simp add: streamOf_def find_cells Some c)
      define keep where "keep = map (\<lambda>r. \<not> IsTraceShapedStream (streamOf (cells db r))) [0 ..< bl_rows db]"
      have k: "map (\<lambda>v. \<not> IsTraceShapedStream v) vs = keep" using l by (intro nth_equalityI) (simp_all add: keep_def s)
      have "dropTraceShapedRows db = (let kept = length (filter (\<lambda>b. b) keep) in
          if kept = bl_rows db then Some db else if kept = 0 then None else Some (selectRows keep db))"
        using rows unfolding dropTraceShapedRows_def Some c option.case prod.case Let_def k l by simp
      also have "\<dots> = (if length (filter (\<lambda>b. b) keep) = 0 then None else if length (filter (\<lambda>b. b) keep) = bl_rows db then Some db else Some (selectRows keep db))"
        using rows by (simp add: Let_def)
      finally show ?thesis using selects_mask [OF ok keep_def] by simp
    qed
  qed
qed

text \<open>Filters run one after the other; a block without rows stands for nothing.\<close>

lemma selects_then:
  assumes "selects db P out" "\<And>db'. out = Some db' \<Longrightarrow> selects db' Q out'" "out = None \<Longrightarrow> out' = None"
  shows "selects db (\<lambda>r. P r \<and> Q r) out'"
proof (cases out)
  case None
  then have "filter P (blockRows (Some db)) = []" using assms(1) by (simp add: selects_def blockRows_def)
  then have "filter (\<lambda>r. P r \<and> Q r) (blockRows (Some db)) = []" by (auto simp: filter_empty_conv)
  then show ?thesis using assms(3) None by (simp add: selects_def blockRows_def)
qed (use assms in \<open>auto simp: selects_def conj_commute simp flip: filter_filter\<close>)

lemma selects_empty: "selects db P out \<Longrightarrow> selects db P (case out of None \<Rightarrow> None | Some db' \<Rightarrow> if bl_rows db' = 0 then None else Some db')"
  by (auto simp: selects_def blockRows_def split: option.split)

definition shows_row :: "mode \<Rightarrow> (row \<Rightarrow> bool) option \<Rightarrow> row \<Rightarrow> bool" where
  "shows_row md f r \<longleftrightarrow> queryKeeps f r \<and> (md = ModeLogs \<longrightarrow> \<not> IsTraceShapedStream (streamOf r))"

lemma filterRaw_selects:
  assumes "block_ok db"
  shows "selects db (\<lambda>r. shows_row md f r \<and> \<not> hidden ql parseTime tss r) (filterRaw ql parseTime md f tss db)"
proof -
  define out1 where "out1 = (case filterDataBlock f db of None \<Rightarrow> None | Some db' \<Rightarrow> if bl_rows db' = 0 then None else Some db')"
  have 1: "selects db (queryKeeps f) out1" unfolding out1_def by (rule selects_empty [OF filterDataBlock_selects [OF assms]])
  define out2 where "out2 = (case out1 of None \<Rightarrow> None | Some db1 \<Rightarrow>
      (case suppressTombstonedRows ql parseTime db1 tss of None \<Rightarrow> None | Some db' \<Rightarrow> if bl_rows db' = 0 then None else Some db'))"
  have 2: "selects db (\<lambda>r. queryKeeps f r \<and> \<not> hidden ql parseTime tss r) out2"
  proof (rule selects_then [OF 1])
    show "selects db' (\<lambda>r. \<not> hidden ql parseTime tss r) out2" if "out1 = Some db'" for db'
      using selects_empty [OF suppress_selects, of db' ql parseTime tss] 1 that by (simp add: out2_def selects_def)
  qed (simp add: out2_def)
  define out3 where "out3 = (case out2 of None \<Rightarrow> None | Some db2 \<Rightarrow> if md = ModeLogs
      then (case dropTraceShapedRows db2 of None \<Rightarrow> None | Some db' \<Rightarrow> if bl_rows db' = 0 then None else Some db') else Some db2)"
  have 3: "selects db (\<lambda>r. (queryKeeps f r \<and> \<not> hidden ql parseTime tss r) \<and> (md = ModeLogs \<longrightarrow> \<not> IsTraceShapedStream (streamOf r))) out3"
  proof (rule selects_then [OF 2])
    fix db2
    assume o: "out2 = Some db2"
    then have ok: "block_ok db2" using 2 by (simp add: selects_def)
    show "selects db2 (\<lambda>r. md = ModeLogs \<longrightarrow> \<not> IsTraceShapedStream (streamOf r)) out3"
      using selects_empty [OF dropTraceShaped_selects [OF ok]] o ok by (cases "md = ModeLogs") (simp_all add: out3_def selects_def)
  qed (simp add: out3_def)
  have "suppressTombstonedRows ql parseTime db1 [] = Some db1" for db1 by (simp add: suppressTombstonedRows_def)
  then have "filterRaw ql parseTime md f tss db = out3"
    by (auto simp: filterRaw_def out1_def out2_def out3_def split: option.splits)
  moreover have "(\<lambda>r. (queryKeeps f r \<and> \<not> hidden ql parseTime tss r) \<and> (md = ModeLogs \<longrightarrow> \<not> IsTraceShapedStream (streamOf r)))
      = (\<lambda>r. shows_row md f r \<and> \<not> hidden ql parseTime tss r)"
    by (auto simp: shows_row_def)
  ultimately show ?thesis using 3 by simp
qed

section \<open>The sink\<close>

definition keyCache :: "key_tenant \<Rightarrow> string \<Rightarrow> string" where
  "keyCache parse key = (case parse key of None \<Rightarrow> ''k:legacy'' | Some (account, project) \<Rightarrow> ''k:'' @ account @ ''/'' @ project)"

definition tenantCache :: "bool \<Rightarrow> tenantRef \<Rightarrow> string" where
  "tenantCache accountOnly tid = ''t:'' @ formatDec (AccountID tid) @ ''/'' @ formatDec (if accountOnly then 0 else ProjectID tid)"

definition no_slash :: "key_tenant \<Rightarrow> bool" where
  "no_slash parse \<longleftrightarrow> (\<forall>key a q. parse key = Some (a, q) \<longrightarrow> CHR ''/'' \<notin> set a)"

lemma slash_split: "a @ CHR ''/'' # q = b @ CHR ''/'' # p \<Longrightarrow> CHR ''/'' \<notin> set a \<Longrightarrow> CHR ''/'' \<notin> set b \<Longrightarrow> a = b \<and> q = p"
proof (induction a arbitrary: b)
  case Nil
  then show ?case by (cases b) auto
next
  case (Cons x a)
  then show ?case by (cases b) auto
qed

lemma formatDec_slash: "CHR ''/'' \<notin> set (formatDec n)"
  using formatDec_digits [of n] by (auto simp: digit_def byteIn_def less_eq_char_def)

text \<open>One cache key stands for one tenant.\<close>

lemma keyCache_inject: "no_slash parse \<Longrightarrow> keyCache parse key = keyCache parse key' \<Longrightarrow> parse key = parse key'"
proof -
  assume p: "no_slash parse" and e: "keyCache parse key = keyCache parse key'"
  have ne: "''legacy'' \<noteq> a @ CHR ''/'' # q" for a q :: string
  proof
    assume "''legacy'' = a @ CHR ''/'' # q"
    then have "CHR ''/'' \<in> set ''legacy''" by simp
    then show False by simp
  qed
  show ?thesis
  proof (cases "parse key")
    case None
    then show ?thesis using e ne by (cases "parse key'") (auto simp: keyCache_def)
  next
    case (Some x)
    obtain a q where x: "x = (a, q)" by (cases x)
    show ?thesis
    proof (cases "parse key'")
      case None
      then show ?thesis using e ne [symmetric] Some x by (auto simp: keyCache_def)
    next
      case (Some y)
      obtain b r where y: "y = (b, r)" by (cases y)
      have "a @ CHR ''/'' # q = b @ CHR ''/'' # r" using e \<open>parse key = Some x\<close> Some x y by (simp add: keyCache_def)
      then show ?thesis using slash_split [of a q b r] p \<open>parse key = Some x\<close> Some x y by (auto simp: no_slash_def)
    qed
  qed
qed

lemma tenantCache_inject:
  "tenantCache b s = tenantCache b t \<Longrightarrow> AccountID s = AccountID t \<and> (if b then 0 else ProjectID s) = (if b then 0 else ProjectID t)"
proof -
  let ?p = "\<lambda>u. if b then 0 else ProjectID u"
  assume "tenantCache b s = tenantCache b t"
  then have "formatDec (AccountID s) @ CHR ''/'' # formatDec (?p s) = formatDec (AccountID t) @ CHR ''/'' # formatDec (?p t)" by (simp add: tenantCache_def)
  from slash_split [OF this formatDec_slash formatDec_slash] show ?thesis using formatDec_inject by blast
qed

lemma cache_apart: "keyCache parse key \<noteq> tenantCache b t"
  by (auto simp: keyCache_def tenantCache_def split: option.split)

lemma ForKey_cong: "parse key = parse key' \<Longrightarrow> ForKey tss parse key = ForKey tss parse key'"
proof -
  assume e: "parse key = parse key'"
  have "anyTenantOwnsKey ts parse key = anyTenantOwnsKey ts parse key'" for ts using e by (induction ts) (auto split: option.splits)
  then show ?thesis by (simp add: ForKey_def AppliesToKey_def)
qed

definition sink_ok :: "tombstoneSink \<Rightarrow> bool" where
  "sink_ok sk \<longleftrightarrow> no_slash (sk_parse sk) \<and> (\<not> sk_perTenant sk \<longrightarrow> sk_uniform sk = sk_tss sk)
     \<and> (\<forall>key l. mget (sk_cache sk) (keyCache (sk_parse sk) key) = Some l \<longrightarrow> l = ForKey (sk_tss sk) (sk_parse sk) key)
     \<and> (\<forall>tid l. mget (sk_cache sk) (tenantCache (sk_accountOnly sk) tid) = Some l
          \<longrightarrow> l = ForTenant (sk_tss sk) (AccountID tid) (if sk_accountOnly sk then 0 else ProjectID tid))"

lemma cache_ok:
  assumes "sink_ok sk" "\<And>key. keyCache (sk_parse sk) key = ck \<Longrightarrow> v = ForKey (sk_tss sk) (sk_parse sk) key"
    and "\<And>tid. tenantCache (sk_accountOnly sk) tid = ck \<Longrightarrow> v = ForTenant (sk_tss sk) (AccountID tid) (if sk_accountOnly sk then 0 else ProjectID tid)"
  shows "sink_ok (sk\<lparr>sk_cache := mput ck v (sk_cache sk)\<rparr>)"
proof (unfold sink_ok_def, intro conjI allI impI)
  fix key l
  assume "mget (sk_cache (sk\<lparr>sk_cache := mput ck v (sk_cache sk)\<rparr>)) (keyCache (sk_parse (sk\<lparr>sk_cache := mput ck v (sk_cache sk)\<rparr>)) key) = Some l"
  then show "l = ForKey (sk_tss (sk\<lparr>sk_cache := mput ck v (sk_cache sk)\<rparr>)) (sk_parse (sk\<lparr>sk_cache := mput ck v (sk_cache sk)\<rparr>)) key"
    using assms(1) assms(2) [of key] by (simp add: mget_mput sink_ok_def split: if_splits)
next
  fix tid l
  assume "mget (sk_cache (sk\<lparr>sk_cache := mput ck v (sk_cache sk)\<rparr>)) (tenantCache (sk_accountOnly (sk\<lparr>sk_cache := mput ck v (sk_cache sk)\<rparr>)) tid) = Some l"
  then show "l = ForTenant (sk_tss (sk\<lparr>sk_cache := mput ck v (sk_cache sk)\<rparr>)) (AccountID tid)
      (if sk_accountOnly (sk\<lparr>sk_cache := mput ck v (sk_cache sk)\<rparr>) then 0 else ProjectID tid)"
    using assms(1) assms(3) [of tid] by (cases "sk_accountOnly sk") (auto simp: mget_mput sink_ok_def split: if_splits)
qed (use assms(1) in \<open>simp_all add: sink_ok_def\<close>)

datatype sink_op = SKey string | STenant tenantRef

fun sinkStep :: "sink_op \<Rightarrow> tombstoneSink \<Rightarrow> tombstoneSink" where
  "sinkStep (SKey key) sk = snd (forKey key sk)"
| "sinkStep (STenant tid) sk = snd (forTenant tid sk)"

lemma forKey_eq:
  assumes "sink_ok sk"
  shows "fst (forKey key sk) = forFile sk key" "sink_ok (snd (forKey key sk))" "forFile (snd (forKey key sk)) = forFile sk"
proof -
  have e: "forKey key sk = (if \<not> sk_perTenant sk then (sk_uniform sk, sk) else cached (keyCache (sk_parse sk) key) (ForKey (sk_tss sk) (sk_parse sk) key) sk)"
    by (simp add: forKey_def keyCache_def Let_def)
  show "fst (forKey key sk) = forFile sk key"
    using assms by (auto simp: e forFile_def cached_def sink_ok_def split: option.split)
  show "forFile (snd (forKey key sk)) = forFile sk" by (auto simp: e forFile_def cached_def fun_eq_iff split: option.split)
  show "sink_ok (snd (forKey key sk))"
  proof (cases "sk_perTenant sk \<and> mget (sk_cache sk) (keyCache (sk_parse sk) key) = None")
    case True
    have "sink_ok (sk\<lparr>sk_cache := mput (keyCache (sk_parse sk) key) (ForKey (sk_tss sk) (sk_parse sk) key) (sk_cache sk)\<rparr>)"
    proof (rule cache_ok [OF assms])
      show "ForKey (sk_tss sk) (sk_parse sk) key = ForKey (sk_tss sk) (sk_parse sk) key'" if "keyCache (sk_parse sk) key' = keyCache (sk_parse sk) key" for key'
        using keyCache_inject [OF _ that] assms by (intro ForKey_cong) (simp add: sink_ok_def)
    qed (use cache_apart in metis)
    then show ?thesis using True by (simp add: e cached_def)
  qed (use assms in \<open>auto simp: e cached_def split: option.split\<close>)
qed

lemma forTenant_eq:
  assumes "sink_ok sk"
  shows "fst (forTenant tid sk)
      = (if \<not> sk_perTenant sk then sk_tss sk else ForTenant (sk_tss sk) (AccountID tid) (if sk_accountOnly sk then 0 else ProjectID tid))"
    "sink_ok (snd (forTenant tid sk))" "forFile (snd (forTenant tid sk)) = forFile sk"
proof -
  let ?F = "\<lambda>t. ForTenant (sk_tss sk) (AccountID t) (if sk_accountOnly sk then 0 else ProjectID t)"
  have e: "forTenant tid sk = (if \<not> sk_perTenant sk then (sk_uniform sk, sk) else cached (tenantCache (sk_accountOnly sk) tid) (?F tid) sk)"
    by (simp add: forTenant_def tenantCache_def Let_def)
  show "fst (forTenant tid sk) = (if \<not> sk_perTenant sk then sk_tss sk else ?F tid)"
    using assms by (auto simp: e cached_def sink_ok_def split: option.split)
  show "forFile (snd (forTenant tid sk)) = forFile sk" by (auto simp: e forFile_def cached_def fun_eq_iff split: option.split)
  show "sink_ok (snd (forTenant tid sk))"
  proof (cases "sk_perTenant sk \<and> mget (sk_cache sk) (tenantCache (sk_accountOnly sk) tid) = None")
    case True
    have "sink_ok (sk\<lparr>sk_cache := mput (tenantCache (sk_accountOnly sk) tid) (?F tid) (sk_cache sk)\<rparr>)"
    proof (rule cache_ok [OF assms])
      show "?F tid = ?F tid'" if "tenantCache (sk_accountOnly sk) tid' = tenantCache (sk_accountOnly sk) tid" for tid'
        using tenantCache_inject [OF that] by simp
    qed (use cache_apart in metis)
    then show ?thesis using True by (simp add: e cached_def)
  qed (use assms in \<open>auto simp: e cached_def split: option.split\<close>)
qed

interpretation sink_machine: machine "\<lambda>op sk. True" sinkStep "\<lambda>sk. sink_ok sk \<and> forFile sk = F"
proof
  show "sink_ok (sinkStep op sk) \<and> forFile (sinkStep op sk) = F" if "sink_ok sk \<and> forFile sk = F" "True" for op sk
    using that forKey_eq(2, 3) forTenant_eq(2, 3) by (cases op) auto
qed

lemma newSink_ok: "no_slash parse \<Longrightarrow> sink_ok (newTombstoneSink scope tss parse b)"
  by (simp add: newTombstoneSink_def sink_ok_def Let_def)

lemma runs_ok_True: "runs_ok (\<lambda>op s. True) step ops s"
  by (induction ops arbitrary: s) auto

text \<open>Whatever was asked of the sink before, it answers for a file with the tombstones of the file.\<close>

lemma sink_answers:
  assumes "no_slash parse"
  shows "fst (forKey key (fold sinkStep ops (newTombstoneSink scope tss parse b))) = forFile (newTombstoneSink scope tss parse b) key"
proof -
  let ?s = "newTombstoneSink scope tss parse b"
  have "sink_ok (fold sinkStep ops ?s) \<and> forFile (fold sinkStep ops ?s) = forFile ?s"
    by (rule sink_machine.run_inv) (simp_all add: newSink_ok [OF assms] runs_ok_True)
  then show ?thesis using forKey_eq(1) by metis
qed

end
