(* ===== verification/TombLane.thy ===== *)
theory TombLane
  imports TombReadProofs
begin

text \<open>The tombstones of a scope against those of a file, and the files that no tombstone touches.\<close>

section \<open>The tombstones of a file\<close>

lemma digits_append: "digits (s @ [c]) = digits s * 10 + (of_char c - 48)"
  by (simp add: digits_def)

lemma digits_formatDec: "digits (formatDec n) = int n"
proof (induction n rule: formatDec.induct)
  case (1 n)
  have d: "(of_char (char_of (48 + k) :: char) :: int) = 48 + int k" if "k < 10" for k
  proof -
    have "(of_char (char_of (48 + k) :: char) :: nat) = 48 + k" using that by simp
    then show ?thesis by (metis of_nat_of_char of_nat_add of_nat_numeral)
  qed
  show ?case
  proof (cases "n < 10")
    case True
    then show ?thesis using d [of n] by (simp add: formatDec.simps [of n] digits_def)
  next
    case False
    then have "digits (formatDec n) = int (n div 10) * 10 + int (n mod 10)"
      using 1 d [of "n mod 10"] by (simp add: formatDec.simps [of n] digits_append)
    then show ?thesis using div_mult_mod_eq [of n 10] by linarith
  qed
qed

lemma parseUint32_formatDec: "n < 2 ^ 32 \<Longrightarrow> parseUint32 (formatDec n) = Some n"
  using formatDec_digits [of n] formatDec_length [of n 10] by (auto simp: parseUint32_def digits_formatDec list_all_iff)

lemma anyTenant_iff:
  "anyTenantOwnsKey ts parse key \<longleftrightarrow> (\<exists>tn \<in> set ts. case parse key of
       None \<Rightarrow> tn = \<lparr>AccountID = 0, ProjectID = 0\<rparr>
     | Some (a, q) \<Rightarrow> a = formatDec (AccountID tn) \<and> (q = [] \<or> q = formatDec (ProjectID tn)))"
proof (induction ts)
  case (Cons tn ts)
  have "tn = \<lparr>AccountID = 0, ProjectID = 0\<rparr> \<longleftrightarrow> AccountID tn = 0 \<and> ProjectID tn = 0" by (cases tn) auto
  then show ?case using Cons by (cases "parse key") auto
qed simp

text \<open>In a layout of two segments a tombstone acts on a key when it names the key's tenant; a key without a tenant is that of 0:0.\<close>

definition keyTenants :: "key_tenant \<Rightarrow> string \<Rightarrow> tenantRef set" where
  "keyTenants parse key = (case parse key of None \<Rightarrow> {\<lparr>AccountID = 0, ProjectID = 0\<rparr>} | Some p \<Rightarrow> {u. tenantPair u = p})"

lemma AppliesToKey_iff:
  assumes "\<And>a q. parse key = Some (a, q) \<Longrightarrow> q \<noteq> []"
  shows "AppliesToKey t parse key \<longleftrightarrow> (\<exists>u \<in> set (t_Tenants t). u \<in> keyTenants parse key)"
  using assms by (cases "parse key") (auto simp: AppliesToKey_def anyTenant_iff keyTenants_def tenantPair_def)

lemma tenantRef_eqI: "AccountID a = AccountID b \<Longrightarrow> ProjectID a = ProjectID b \<Longrightarrow> a = (b :: tenantRef)"
  by (cases a, cases b) simp

lemma actsOnScope_iff:
  assumes "\<forall>u \<in> set ids. AccountID u < 2 ^ 32 \<and> ProjectID u < 2 ^ 32"
  shows "tombstoneActsOnScope t (resolveTenantScope ids) False \<longleftrightarrow> (\<exists>u \<in> requested ids. u \<in> set (t_Tenants t))"
proof -
  let ?P = "\<lambda>(a, q). case parseUint32 a of None \<Rightarrow> False | Some account \<Rightarrow>
      (case parseUint32 q of None \<Rightarrow> False | Some project \<Rightarrow> AppliesToTenant t account project)"
  have r: "AccountID u < 2 ^ 32 \<and> ProjectID u < 2 ^ 32" if "u \<in> requested ids" for u using assms that by (auto simp: requested_def split: if_splits)
  have "AppliesToTenant t (AccountID u) (ProjectID u) \<longleftrightarrow> u \<in> set (t_Tenants t)" for u
    unfolding AppliesToTenant_def using tenantRef_eqI by blast
  then have "?P (tenantPair u) \<longleftrightarrow> u \<in> set (t_Tenants t)" if "u \<in> requested ids" for u
    using r [OF that] by (simp add: tenantPair_def parseUint32_formatDec)
  moreover have "tombstoneActsOnScope t (resolveTenantScope ids) False \<longleftrightarrow> (\<exists>p \<in> set (scopePairs (resolveTenantScope ids)). ?P p)"
    by (simp only: tombstoneActsOnScope_def resolve_pairs(1) list_ex_iff if_False)
  ultimately show ?thesis unfolding resolve_pairs(2) by auto
qed

lemma single_requested: "scopeSingle (resolveTenantScope ids) \<Longrightarrow> \<exists>u. tenantPair ` requested ids = {tenantPair u}"
proof -
  assume "scopeSingle (resolveTenantScope ids)"
  then have "set (scopePairs (resolveTenantScope ids)) = {(sc_account (resolveTenantScope ids), sc_project (resolveTenantScope ids))}"
    by (simp add: scopeSingle_def scopePairs_def)
  then have "tenantPair ` requested ids = {(sc_account (resolveTenantScope ids), sc_project (resolveTenantScope ids))}" unfolding resolve_pairs(2) .
  moreover obtain u where "u \<in> requested ids" by (cases ids) (auto simp: requested_def)
  ultimately have "tenantPair ` requested ids = {tenantPair u}" by (metis image_eqI singletonD)
  then show ?thesis ..
qed

text \<open>For a file that the scope reads, the sink has exactly the tombstones of the range that act on the file's tenant.\<close>

lemma file_tombstones:
  assumes "\<And>a q. parse key = Some (a, q) \<Longrightarrow> q \<noteq> []" "\<forall>u \<in> set ids. AccountID u < 2 ^ 32 \<and> ProjectID u < 2 ^ 32"
    and "g \<or> readsKey ids (parse key)"
  shows "set (forFile (newTombstoneSink (scopeFor g ids) (scopeTombstones (Some s) False (scopeFor g ids) lo hi) parse False) key)
    = {t \<in> set (ForRange s lo hi). AppliesToKey t parse key}"
proof (cases g)
  case True
  then have "scopeTombstones (Some s) False (scopeFor g ids) lo hi = ForRange s lo hi" "\<not> scopeSingle (scopeFor g ids)"
    by (simp_all add: scopeTombstones_def scopeFor_def scopeSingle_def Let_def)
  then show ?thesis by (auto simp: newTombstoneSink_def forFile_def ForKey_def Let_def)
next
  case False
  define sc where "sc = resolveTenantScope ids"
  have tss: "set (scopeTombstones (Some s) False sc lo hi) = {t \<in> set (ForRange s lo hi). \<exists>u \<in> requested ids. u \<in> set (t_Tenants t)}"
    using actsOnScope_iff [OF assms(2)] resolve_pairs(1) [of ids] by (auto simp: scopeTombstones_def sc_def Let_def)
  have own: "\<exists>v \<in> requested ids. keyTenants parse key = {v}"
  proof (cases "parse key")
    case None
    then show ?thesis using assms(3) False by (auto simp: readsKey_def keyTenants_def)
  next
    case (Some p)
    then obtain v where "v \<in> requested ids" "p = tenantPair v" using assms(3) False by (auto simp: readsKey_def)
    moreover from this have "keyTenants parse key = {v}" using tenantPair_inject by (auto simp: keyTenants_def Some)
    ultimately show ?thesis by blast
  qed
  then obtain v where v: "v \<in> requested ids" "keyTenants parse key = {v}" by blast
  have app: "AppliesToKey t parse key \<longleftrightarrow> v \<in> set (t_Tenants t)" for t using AppliesToKey_iff [OF assms(1)] v(2) by auto
  have sf: "scopeFor g ids = sc" using False by (simp add: scopeFor_def sc_def)
  show ?thesis
  proof (cases "scopeSingle sc")
    case True
    then obtain u where "tenantPair ` requested ids = {tenantPair u}" using single_requested sc_def by blast
    then have "requested ids = {v}" using v(1) tenantPair_inject by blast
    then show ?thesis using True app tss by (auto simp: newTombstoneSink_def forFile_def sf Let_def)
  next
    case multi: False
    show ?thesis
    proof (cases "scopeTombstones (Some s) False sc lo hi = []")
      case True
      then show ?thesis using tss v(1) app by (auto simp: newTombstoneSink_def forFile_def sf Let_def)
    next
      case False
      then have "forFile (newTombstoneSink sc (scopeTombstones (Some s) False sc lo hi) parse False) key
          = ForKey (scopeTombstones (Some s) False sc lo hi) parse key"
        using multi by (simp add: newTombstoneSink_def forFile_def Let_def)
      then show ?thesis using tss v(1) app by (auto simp: ForKey_def sf)
    qed
  qed
qed

section \<open>The clean lane\<close>

lemma laneLoop_split:
  assumes "i + n = length files" "c \<le> i" "\<forall>j < c. \<not> dirty (files ! j)" "laneLoop dirty n i c files = (c', fs)"
  shows "mset fs = mset files \<and> (\<forall>fi \<in> set (take c' fs). \<not> dirty fi)"
  using assms
proof (induction n arbitrary: i c files)
  case 0
  then show ?case by (auto simp: in_set_conv_nth)
next
  case (Suc n)
  show ?case
  proof (cases "dirty (files ! i)")
    case True
    then have "laneLoop dirty n (Suc i) c files = (c', fs)" using Suc.prems(4) by simp
    moreover have "Suc i + n = length files" "c \<le> Suc i" using Suc.prems(1, 2) by simp_all
    ultimately show ?thesis using Suc.IH Suc.prems(3) by blast
  next
    case False
    let ?f = "files[c := files ! i, i := files ! c]"
    have l: "i < length files" "c < length files" using Suc.prems(1, 2) by simp_all
    have "\<not> dirty (?f ! j)" if "j < Suc c" for j
    proof (cases "j = c")
      case True
      then have "?f ! j = files ! i" using l by (cases "c = i") simp_all
      then show ?thesis using False by simp
    next
      case other: False
      then have "?f ! j = files ! j" "j < c" using that Suc.prems(2) by simp_all
      then show ?thesis using Suc.prems(3) by simp
    qed
    then have "\<forall>j < Suc c. \<not> dirty (?f ! j)" by blast
    moreover have "laneLoop dirty n (Suc i) (Suc c) ?f = (c', fs)" using Suc.prems(4) False by simp
    moreover have "Suc i + n = length ?f" "Suc c \<le> Suc i" using Suc.prems(1, 2) by simp_all
    ultimately have "mset fs = mset ?f \<and> (\<forall>fi \<in> set (take c' fs). \<not> dirty fi)" using Suc.IH by blast
    moreover have "mset ?f = mset files" using l by (rule mset_swap)
    ultimately show ?thesis by simp
  qed
qed

section \<open>The proof\<close>

text \<open>The value of a field of a row, empty when the row does not have it.\<close>

definition fieldOf :: "row \<Rightarrow> string \<Rightarrow> string" where
  "fieldOf r name = (case map_of (lastFields r) name of None \<Rightarrow> [] | Some v \<Rightarrow> v)"

text \<open>What a row that matches a filter satisfies of the filter's tree.\<close>

fun nodeHolds :: "row \<Rightarrow> filterNode \<Rightarrow> bool" where
  "nodeHolds r (FilterAnd fs) = list_all (nodeHolds r) fs"
| "nodeHolds r (FilterGeneric isWildcard name f) =
     (isWildcard \<or> (case f of FilterExact v \<Rightarrow> fieldOf r name = v | FilterIn plain vs \<Rightarrow> plain \<longrightarrow> fieldOf r name \<in> set vs | OtherValue \<Rightarrow> True))"
| "nodeHolds r OtherNode = True"

text \<open>The filter engine: a row that a filter matches satisfies its tree.\<close>

definition tree_sound :: "filter_engine \<Rightarrow> filter_tree \<Rightarrow> bool" where
  "tree_sound ql tree \<longleftrightarrow> (\<forall>q at f r. ql q at = Some f \<longrightarrow> f (lastFields r) \<longrightarrow> nodeHolds r (tree q at))"

text \<open>The metadata of a file against its rows: known time bounds hold them; a label list that is not at its cap has every value of its column, and a
  usable bloom filter does not deny one. The labels of a merged file may be partial.\<close>

definition file_facts :: "registry \<Rightarrow> bloomFunc option \<Rightarrow> (string \<Rightarrow> int option) \<Rightarrow> fileInfo \<Rightarrow> row list \<Rightarrow> bool" where
  "file_facts reg bloom parseTime fi rs \<longleftrightarrow>
     (\<forall>r \<in> set rs. (fi_MinTimeNs fi \<noteq> 0 \<and> fi_MaxTimeNs fi \<noteq> 0 \<longrightarrow> fi_MinTimeNs fi \<le> rowNs parseTime r \<and> rowNs parseTime r \<le> fi_MaxTimeNs fi)
       \<and> (\<forall>name col hasBloom. resolvePromoted reg name = Some (col, hasBloom) \<and> fieldOf r name \<noteq> [] \<longrightarrow>
            (\<forall>vs. fi_CompactionLevel fi \<le> 0 \<and> mget (fi_Labels fi) col = Some vs \<and> vs \<noteq> [] \<and> length vs < maxLabelsPerField \<longrightarrow> fieldOf r name \<in> set vs)
            \<and> (\<forall>b. hasBloom \<and> bloom = Some b \<longrightarrow> b (fi_Key fi) col (fieldOf r name) \<noteq> (False, True))))"

lemma proofTerms_hold:
  "nodeHolds r node \<Longrightarrow> pt \<in> set (proofTerms resolve node) \<Longrightarrow>
     \<exists>name. resolve name = Some (pt_Column pt, pt_Bloom pt) \<and> fieldOf r name \<in> set (pt_Values pt) \<and> fieldOf r name \<noteq> []"
proof (induction resolve node rule: proofTerms.induct)
  case (1 resolve fs)
  then show ?case by (auto simp: list_all_iff)
next
  case (2 resolve isWildcard name f)
  then obtain column bloom where t: "\<not> isWildcard" "resolve name = Some (column, bloom)" "exactValues f \<noteq> []"
      "pt = \<lparr>pt_Column = column, pt_Values = exactValues f, pt_Bloom = bloom\<rparr>"
    by (cases "resolve name") (auto split: if_splits)
  have "fieldOf r name \<in> set (exactValues f)" using 2 t(1, 3) by (cases f) (auto simp: exactValues_def Let_def split: if_splits)
  moreover have "[] \<notin> set (exactValues f)" by (auto simp: exactValues_def Let_def list_ex_iff split: if_splits valueNode.splits)
  ultimately show ?case using t by (intro exI [of _ name]) auto
qed simp

definition proofOf :: "filter_engine \<Rightarrow> filter_tree \<Rightarrow> (string \<Rightarrow> (string \<times> bool) option) \<Rightarrow> tombstone \<Rightarrow> fileProof" where
  "proofOf ql tree resolve t = \<lparr>fp_Start = t_StartNs t, fp_End = t_EndNs t,
          fp_Terms = (if Filter ql t = None then [] else proofTerms resolve (tree (t_Query t) (t_FilterAt t)))\<rparr>"

lemma proofOf_key: "keyOf t = keyOf u \<Longrightarrow> proofOf ql tree resolve t = proofOf ql tree resolve u"
  by (auto simp: keyOf_def proofOf_def Filter_def)

lemma CompileProofs_get: "mget (CompileProofs ql tree resolve tss) (keyOf t) = Some fp \<Longrightarrow> fp = proofOf ql tree resolve t"
proof -
  let ?f = "\<lambda>t p. mput (keyOf t) (proofOf ql tree resolve t) p"
  have "\<forall>k fp. mget p k = Some fp \<longrightarrow> (\<forall>t. keyOf t = k \<longrightarrow> fp = proofOf ql tree resolve t) \<Longrightarrow>
      mget (fold ?f tss p) k = Some fp \<Longrightarrow> keyOf t = k \<Longrightarrow> fp = proofOf ql tree resolve t" for p k fp t
  proof (induction tss arbitrary: p)
    case (Cons u tss)
    show ?case
    proof (rule Cons.IH)
      show "\<forall>k fp. mget (?f u p) k = Some fp \<longrightarrow> (\<forall>t. keyOf t = k \<longrightarrow> fp = proofOf ql tree resolve t)"
      proof (intro allI impI)
        fix k fp t
        assume g: "mget (?f u p) k = Some fp" "keyOf t = k"
        show "fp = proofOf ql tree resolve t"
        proof (cases "keyOf u = k")
          case True
          then have "fp = proofOf ql tree resolve u" using g(1) by (simp add: mget_mput)
          also have "\<dots> = proofOf ql tree resolve t" by (rule proofOf_key) (simp add: True g(2))
          finally show ?thesis .
        next
          case False
          then have "mget p k = Some fp" using g(1) by (simp add: mget_mput)
          then show ?thesis using Cons.prems(1) g(2) by blast
        qed
      qed
    qed (use Cons.prems in auto)
  next
    case Nil
    then have "mget p k = Some fp" by simp
    then show ?case using Nil.prems(1, 3) by blast
  qed
  note F = this [of "[]" "keyOf t" fp t]
  have "CompileProofs ql tree resolve tss = fold ?f tss []" by (simp add: CompileProofs_def proofOf_def)
  then show "mget (CompileProofs ql tree resolve tss) (keyOf t) = Some fp \<Longrightarrow> fp = proofOf ql tree resolve t" using F by simp
qed

text \<open>A file that the proof clears has no row that one of the tombstones matches.\<close>

lemma cleared:
  assumes "tree_sound ql tree" "file_facts reg (map_option catalogBloom cat) parseTime fi rs"
    and "\<not> anyMayMatch (compileProofs ql tree reg cat tss) fi l" "r \<in> set rs"
  shows "\<not> hidden ql parseTime l r"
proof
  assume "hidden ql parseTime l r"
  then obtain t where t: "t \<in> set l" "MatchesFields ql t (lastFields r) (rowNs parseTime r)" by (auto simp: hidden_def)
  define labels where "labels = (if fi_CompactionLevel fi > 0 \<or> hasPrefix (pathBase (fi_Key fi)) ''compacted-'' then [] else fi_Labels fi)"
  have "l \<noteq> []" using t(1) by auto
  then obtain fp where fp: "fp = proofOf ql tree (resolvePromoted reg) t"
      "CannotMatch fp (fi_Key fi) (fi_MinTimeNs fi) (fi_MaxTimeNs fi) labels maxLabelsPerField (map_option catalogBloom cat)"
    using assms(3) t(1) CompileProofs_get [of ql tree "resolvePromoted reg" tss t]
    by (fastforce simp: anyMayMatch_def AnyMayMatch_def list_ex_iff compileProofs_def labels_def [symmetric] split: option.splits)
  have tm: "t_StartNs t \<le> rowNs parseTime r" "rowNs parseTime r \<le> t_EndNs t" using t(2) by (auto simp: MatchesFields_def split: if_splits)
  have F: "fi_MinTimeNs fi \<noteq> 0 \<and> fi_MaxTimeNs fi \<noteq> 0 \<longrightarrow> fi_MinTimeNs fi \<le> rowNs parseTime r \<and> rowNs parseTime r \<le> fi_MaxTimeNs fi"
    "\<And>name col hasBloom. resolvePromoted reg name = Some (col, hasBloom) \<Longrightarrow> fieldOf r name \<noteq> [] \<Longrightarrow>
            (\<forall>vs. fi_CompactionLevel fi \<le> 0 \<and> mget (fi_Labels fi) col = Some vs \<and> vs \<noteq> [] \<and> length vs < maxLabelsPerField \<longrightarrow> fieldOf r name \<in> set vs)
            \<and> (\<forall>b. hasBloom \<and> map_option catalogBloom cat = Some b \<longrightarrow> b (fi_Key fi) col (fieldOf r name) \<noteq> (False, True))"
    using assms(2, 4) unfolding file_facts_def by blast+
  obtain pt where pt: "pt \<in> set (fp_Terms fp)"
      "(let have' = (case mget labels (pt_Column pt) of None \<Rightarrow> [] | Some vs \<Rightarrow> vs)
         in length have' > 0 \<and> length have' < maxLabelsPerField \<and> \<not> anyOf (pt_Values pt) have')
        \<or> (pt_Bloom pt \<and> (case map_option catalogBloom cat of None \<Rightarrow> False | Some b \<Rightarrow> allAbsent pt (fi_Key fi) b))"
    using fp(2) F(1) tm by (auto simp: CannotMatch_def fp(1) proofOf_def list_ex_iff split: if_splits)
  then have "Filter ql t \<noteq> None" "pt \<in> set (proofTerms (resolvePromoted reg) (tree (t_Query t) (t_FilterAt t)))"
    by (auto simp: fp(1) proofOf_def split: if_splits)
  moreover from this(1) obtain f where "\<not> matchAll (t_Query t)" "ql (t_Query t) (t_FilterAt t) = Some f" by (auto simp: Filter_def split: if_splits)
  moreover from this have "nodeHolds r (tree (t_Query t) (t_FilterAt t))"
    using t(2) assms(1) unfolding tree_sound_def by (auto simp: MatchesFields_def split: if_splits)
  ultimately obtain name where n: "resolvePromoted reg name = Some (pt_Column pt, pt_Bloom pt)" "fieldOf r name \<in> set (pt_Values pt)" "fieldOf r name \<noteq> []"
    using proofTerms_hold by blast
  show False using pt(2)
  proof
    assume "let have' = (case mget labels (pt_Column pt) of None \<Rightarrow> [] | Some vs \<Rightarrow> vs)
         in length have' > 0 \<and> length have' < maxLabelsPerField \<and> \<not> anyOf (pt_Values pt) have'"
    then obtain vs where "mget labels (pt_Column pt) = Some vs" "vs \<noteq> []" "length vs < maxLabelsPerField" "\<not> anyOf (pt_Values pt) vs"
      by (cases "mget labels (pt_Column pt)") (auto simp: Let_def)
    moreover from this have "fi_CompactionLevel fi \<le> 0" "labels = fi_Labels fi" by (auto simp: labels_def split: if_splits)
    ultimately show False using F(2) [OF n(1, 3)] n(2) by (auto simp: anyOf_def list_ex_iff)
  next
    assume "pt_Bloom pt \<and> (case map_option catalogBloom cat of None \<Rightarrow> False | Some b \<Rightarrow> allAbsent pt (fi_Key fi) b)"
    then obtain b where "pt_Bloom pt" "map_option catalogBloom cat = Some b" "allAbsent pt (fi_Key fi) b" by (cases cat) auto
    moreover from this(3) n(2) have "b (fi_Key fi) (pt_Column pt) (fieldOf r name) = (False, True)"
      by (cases "b (fi_Key fi) (pt_Column pt) (fieldOf r name)") (auto simp: allAbsent_def list_all_iff)
    ultimately show False using F(2) [OF n(1, 3)] by blast
  qed
qed

end
