(* ===== verification/TombReadProps.thy ===== *)
theory TombReadProps
  imports TombLane TenantProps Scenario
begin






definition exEarly :: fileInfo where
  "exEarly = (listedFile ''1/2/logs/dt=1970-01-01/hour=00/a.parquet'' 7)\<lparr>fi_MinTimeNs := 1, fi_MaxTimeNs := 20\<rparr>"

definition exEarlyOps :: "man_op list" where
  "exEarlyOps = [OAdd 10 ''dt=1970-01-01/hour=00'' exEarly, OAdd 20 ''dt=1970-01-01/hour=00''
     (exEarly\<lparr>fi_Key := ''1/2/logs/dt=1970-01-01/hour=00/b.parquet'', fi_MinTimeNs := 12\<rparr>)]"

definition exEarlyMan :: manifest where "exEarlyMan = fold manStep exEarlyOps (SetPrefixTemplate exTemplate New)"

definition exSink :: tombstoneSink where
  "exSink = newTombstoneSink (scopeFor False [exTenant]) (scopeTombstones (Some (p_s exReader)) False (scopeFor False [exTenant]) 1 20)
     (tenantKeyFromFileKey exEarlyMan) False"

definition exSplit :: "fileInfo list \<times> fileInfo list \<times> bool" where
  "exSplit = splitCleanFiles noql (\<lambda>q at. OtherNode) (NewRegistry [] []) None True exSink (filesForTenants None 0 1 20 False [exTenant] exEarlyMan)"



text \<open>The cap on the pairs is compared as an integer when the example is evaluated.\<close>

lemma newCleanLane_code [code]:
  "newCleanLane eng tree reg cat sk files =
     (if int (length files) * int (length (sk_tss sk)) > 1048576 then ([], files)
      else let proofs = compileProofs eng tree reg cat (sk_tss sk)
           in case laneLoop (\<lambda>fi. anyMayMatch proofs fi (forFile sk (fi_Key fi))) (length files) 0 0 files of
                (clean, fs) \<Rightarrow> (take clean fs, drop clean fs))"
proof -
  have "length files * length (sk_tss sk) > maxProofPairs \<longleftrightarrow> int (length files) * int (length (sk_tss sk)) > 1048576"
  proof -
    have "int maxProofPairs = 1048576" by (simp add: maxProofPairs_def)
    then show ?thesis unfolding of_nat_mult [symmetric] by (metis of_nat_less_iff)
  qed
  then show ?thesis by (simp only: newCleanLane_def)
qed

text \<open>The second file is cleared by its time; the first is read with the tombstone.\<close>

lemma exSplit_lane: "map fi_Key (fst exSplit) = [''1/2/logs/dt=1970-01-01/hour=00/b.parquet'']" "snd (snd exSplit)"
  by code_simp+



end
