(* ===== verification/Spec2Isabelle.thy ===== *)
theory Spec2Isabelle
  imports Scenario ManScenario Ownership CompactionProps PruningProps SweepProps TenantProps RetentionProps TombReadProps
begin

text \<open>
  The verification of victoria-lakehouse: a store of logs and traces that keeps immutable Parquet objects in S3 and answers queries
  from them. This library models the components that decide which rows a query sees: the deletes (tombstones), the manifest of the
  tracked objects, the compaction that replaces objects by merged ones, and the indexes that leave out objects before they are read. Paths are
  below \<open>src/internal/\<close>.

  \<^bold>\<open>The parts and how they interact.\<close> Every pod keeps a \<^emph>\<open>manifest\<close> (\<open>manifest/\<close>): the objects it serves, by partition (an hour), with an index by key, a
  label index and totals per tenant. Flushes, compaction and delete rewrites publish in it (\<open>AddFile\<close>, \<open>ReplaceFiles\<close>); a refresh
  replaces it by a listing of the bucket, with guards for the keys that were published, retired or claimed meanwhile. The \<^emph>\<open>scheduler\<close> (\<open>compaction/\<close>) scans the manifest:
  it reclaims retired objects, plans merges for the partitions the pod owns, picks among the tenants and runs the \<^emph>\<open>compactor\<close>, which
  downloads, merges, uploads and publishes. A \<^emph>\<open>freeze\<close> keeps both away from objects that a bucket lifecycle rule has moved or is about to move. Deletes
  are \<^emph>\<open>tombstones\<close> (\<open>delete/\<close>): objects with a definition or an undo, which every pod polls into its view; a query is refused while the view is stale. A query takes the
  files of its tenants and its time range from the manifest, without those past their \<^emph>\<open>retention\<close> (\<open>retention/\<close>), which a periodic pass deletes, and prunes them by labels, column statistics and \<^emph>\<open>bloom indexes\<close> (\<open>bloomindex/\<close>, \<open>pmeta/\<close>).

  \<^bold>\<open>Theories.\<close> \<open>Prelude\<close> has Go's strings, maps, 64-bit integers and times and the locale \<open>machine\<close> (an invariant over every sequence of operations); \<open>GoSort\<close> has
  \<open>sort.Search\<close> and stable sorting, with the locale \<open>comparator\<close>. The names of definitions are those of the Go functions.

  \<^item> \<open>Tombstones\<close>, \<open>TombKeys\<close>: \<open>tombstone.go\<close>, \<open>tenant_scope.go\<close>, \<open>keys.go\<close>: matching, validation, tenant scopes, the key format, the stored
    definition. \<open>TombStore\<close>: \<open>store.go\<close>, the view with its range index on an explicit heap of entries. \<open>TombProtocol\<close>: \<open>protocol.go\<close>, the state of a pod (record \<open>proto\<close>) with attach, sync,
    gate, create, undelete and retention GC against a record of backend functions. \<open>TombBucket\<close>: \<open>deletetest/bucket.go\<close>, the in-memory bucket with its faults, and the locale \<open>bucket\<close> (what the protocol
    relies on). \<open>TombSync\<close>: the abstract view (\<open>vstep\<close>: learn, undo, forget) and the proof that a sync implements it. \<open>Scenario\<close>: the examples.
  \<^item> \<open>Manifest\<close>, \<open>ManifestRefresh\<close>: \<open>manifest.go\<close>, \<open>retired.go\<close>, \<open>column_stats.go\<close>, the record \<open>manifest\<close> with every operation under its lock. \<open>ManifestInv\<close>, \<open>ManifestSafety\<close>,
    \<open>ManifestProbe\<close>: the invariants, which keys a refresh installs, and what a shrinking listing needs. \<open>ManScenario\<close>: the examples.
  \<^item> \<open>Ownership\<close>: \<open>ownership.go\<close>. \<open>Freeze\<close>: \<open>storageclass.go\<close>, \<open>lifecycle_freeze.go\<close>. \<open>Planner\<close>, \<open>PlannerProofs\<close>: \<open>planner.go\<close>, \<open>policy.go\<close>,
    \<open>compaction_candidates.go\<close>. \<open>Scheduling\<close>, \<open>SchedulingProofs\<close>: \<open>backoff.go\<close>, \<open>fair_share.go\<close>, the ring window. \<open>Compactor\<close>, \<open>CompactorProofs\<close>: \<open>compactor.go\<close>, on a world of
    objects, retired keys and a manifest in which other goroutines act between any two requests. \<open>Segments\<close>: \<open>manifest/segments.go\<close>. \<open>Scan\<close>, \<open>ScanProofs\<close>: a whole scan and the forced
    compaction of \<open>scheduler.go\<close>. \<open>CompactScenario\<close>, \<open>CompactionProps\<close>: examples and properties. \<open>Sweep\<close>, \<open>SweepProofs\<close>, \<open>SweepProps\<close>: \<open>orphan_sweep.go\<close>, the recovery of
    abandoned partitions (Tier A) and the deletion of orphaned objects (Tier B).
  \<^item> \<open>Bloom\<close>, \<open>BloomProofs\<close>: filters at the width of their bytes and hashes, the index and its builders. \<open>BloomCodec\<close>: the stored bytes, with the locale \<open>codec\<close>. \<open>BloomTier\<close>, \<open>BloomTierProofs\<close>: \<open>tiering.go\<close>,
    \<open>cache.go\<close>, \<open>metadata_compactor.go\<close>. \<open>BloomProps\<close>: the properties.
  \<^item> \<open>Pruning\<close>, \<open>PruningProofs\<close>, \<open>PruningProps\<close>: \<open>schema/labels.go\<close>, \<open>filter_pushdown.go\<close>, \<open>prewhere.go\<close> and the filters of \<open>storage_query.go\<close> (\<open>storage/parquets3/\<close>),
    \<open>pmeta/facet_bloom.go\<close>, \<open>manifest/metadata_sidecar.go\<close>; the locale \<open>pruner\<close> is the contract of a filter over files, and chains of filters keep it.
  \<^item> \<open>ManifestTenants\<close>: the totals per tenant count the tracked files, in every reachable manifest. \<open>TenantScope\<close>, \<open>TenantScopeProofs\<close>, \<open>TenantProps\<close>: \<open>storage/parquets3/tenant_scope.go\<close>, which
    objects a request may read, and the tenant prefix of the writer's keys (\<open>writer.go\<close>, \<open>config/config.go\<close>, \<open>cmd/lakehouse-logs/main.go\<close>). \<open>Retention\<close>, \<open>RetentionProofs\<close>, \<open>RetentionProps\<close>: \<open>retention/\<close>, the parsing of durations,
    rules and patterns, the policy, a retention pass on the compactor's world of objects, and the expiry that the policy gives the tombstones.
  \<^item> \<open>TombRead\<close>, \<open>TombReadProofs\<close>, \<open>TombLane\<close>, \<open>TombReadProps\<close>: the deletes on the read path, \<open>delete/proof.go\<close> and, in \<open>storage/parquets3/\<close>, \<open>tombstone_scope.go\<close>, \<open>tombstone_proof.go\<close>, \<open>filter.go\<close>,
    \<open>drop_trace_shaped_rows.go\<close> and the filters of \<open>RunQuery\<close>, with the field registry of \<open>schema/registry.go\<close>: blocks of columns against lists of rows, the sink as a state machine, and the lane of the clean files.

  \<^bold>\<open>What the properties show.\<close>

  \<^item> Deletes (C1 to C6, C9, C13, C15, C16, C30): no enforced delete is forgotten or undone without evidence in the bucket, whatever requests fail; a sync refines the abstract view;
    the range index is exact; keys and definitions round-trip; create and undelete do what they report; and a query writes exactly the rows that no delete in force of their tenant covers (C30), with the tombstones chosen per file, the cache of the sink and the
    shortcut for files that no tombstone can touch.
  \<^item> Tenants and retention (C8, C11, C14, C17, C20, C27, C36): a request reads exactly the objects of its tenants within their retention, and what the writer stores for a tenant is read by that tenant only; a file expires
    between its time and a day more; a retention pass deletes exactly the expired files and no query can tell; a tombstone is forgotten only when no readable file holds a row it hid. C11 and C14 show accepted settings for which data is
    deleted early or tenants are mixed up.
  \<^item> Manifest (C21 to C25): lists, indexes, totals and guards agree after any sequence of operations; a publish is atomic and survives a listing that began before it; a listing that
    loses more than half of the files needs evidence; lookups are exact.
  \<^item> Compaction (C19, C28, C31 to C35, C37, C39, C40): one owner per partition; nothing frozen is planned; the planner equals a reference; the fair share ends, is fair and starves no tenant; merges and scans keep every
    served row, with the one exception that C39 shows; the orphan sweep takes over only abandoned partitions (C33) and deletes only dead objects (C19).
  \<^item> Indexes (C7, C10, C12, C18, C26, C29, C38): no false negatives from bloom indexes and pruning, the stored index decodes exactly and safely; C18 and C38 show where metadata does hide a match.

  \<^bold>\<open>Bounds and fuel.\<close> No model uses fuel. The loops of the code are structural recursions or have a termination proof; the loop of the fair share, which may not end in the code, is a
  \<open>partial_function\<close> into options and C34 proves that it returns. Unix times and durations are 64-bit with wrap-around written out where the code can overflow (\<open>to_int64\<close>); hashes and filter bytes are words of 8, 32 and 64 bits. Concurrency is modelled by the
  points where a lock is free: \<open>env\<close> functions, or steps of other goroutines, act there.

  \<^bold>\<open>Parameters.\<close> What is not in the repository is an argument: the object store (a record of functions, or a map with faults), JSON and SHA-256, LogsQL matching of a row, the Parquet reader
  and writer, the parser of a query's filters, the random choices of the probe, the clock, products and logarithms in floating point (fractions of a duration, filter sizes, compaction debt), and the addresses of the peers.

  \<^bold>\<open>Not modelled.\<close> The query engine above the pruned files and the write path below the manifest, because they run inside the VictoriaLogs and Parquet packages; the syntax analysis of queries, which inspects types of those
  packages; the module for traces, a copy of the storage for spans over the same shared packages; HTTP handlers, statistics, metrics and UI; the byte caches and peer requests, which hold copies of objects; configuration and wiring.
\<close>

section \<open>The tombstone view\<close>



text \<open>C2: Only its own undo ends a delete. A sync marks the definition \<open>key\<close> undone only when the
  listing delivers an undo key that names this very definition, or such an undo was waiting for
  it; an undo of another definition of the same id does not.\<close>

theorem sync_undoes_only_named:
  assumes "bucket E obj" "sync E ff p w = (r, p', w')" "store_ok (p_s p)"
    and "\<forall>u k. u \<in> set (syncKeys E ff p w) \<and> parseKey (p_prefix p) u = Some k \<and> tk_kind k = kindUndo
      \<longrightarrow> definitionKey (p_prefix p) k \<noteq> key"
    and "\<not> mhas (p_undoSeen p) key" "not_undone key (view (p_s p))"
  shows "not_undone key (view (p_s p'))"
  by (rule sync_not_undone [OF assms(2,3) bucket.reads_keep_obj [OF assms(1), of "obj w"]]) (use assms in auto)

theorem sync_undoes_only_named_witness:
  "not_undone exKey (view (p_s (fst (snd (sync (memEnv noql) True exPod exWorld)))))"
proof -
  obtain r p' w' where s: "sync (memEnv noql) True exPod exWorld = (r, p', w')" by (metis prod_cases3)
  have k: "syncKeys (memEnv noql) True exPod exWorld = [exKey]" "map_option tk_kind (parseKey (p_prefix exPod) exKey) = Some kindDefinition"
    "p_undoSeen exPod = []" "s_byID (p_s exPod) = []"
    by code_simp+
  have "view (p_s exPod) i = None" for i by (simp add: view_eq_None k(4))
  then have "not_undone exKey (view (p_s exPod))" by (simp add: not_undone_def)
  then show ?thesis
    using sync_undoes_only_named [OF mem.bucket_axioms s ex_store_ok(1), of exKey] k s by (auto simp: mhas_def)
qed



text \<open>C4: The protocol implements its abstract view. A sync is a sequence of abstract steps, each with its
  evidence: a definition is learned only when the listing delivered its key (now, or earlier when
  it could not be read), an entry is undone only by an undo key of its definition, and an entry
  is forgotten only when its retention has passed or its definition is not an object of the
  bucket.\<close>

theorem sync_implements_view:
  assumes "bucket E obj" "sync E ff p w = (r, p', w')" "store_ok (p_s p)"
  shows "(vstep (p_prefix p)
      (\<lambda>key. key \<in> set (syncKeys E ff p w) \<or> mhas (p_bad p) key)
      (\<lambda>key. obj w key = None)
      (expiredAt p (syncTime E w))
      (\<lambda>dk. mhas (p_undoSeen p) dk \<or> (\<exists>u \<in> set (syncKeys E ff p w). \<exists>k. parseKey (p_prefix p) u = Some k
         \<and> tk_kind k = kindUndo \<and> definitionKey (p_prefix p) k = dk)))\<^sup>*\<^sup>* (view (p_s p)) (view (p_s p'))"
    (is "(vstep _ ?Ld ?Ab ?Xp ?Ud)\<^sup>*\<^sup>* _ _")
proof -
  have "refines ?Ld ?Ab ?Xp ?Ud p p'"
  proof (rule sync_refines [OF assms(2) bucket.reads_keep_obj [OF assms(1), of "obj w"]])
    show "obj w key = None" if "obj w1 = obj w" "fst (be_exists E key w1) = Inr False" for key w1
      using bucket.exists_reads [OF assms(1), of key w1 False "snd (be_exists E key w1)"] that by (metis prod.collapse)
  qed auto
  moreover have "good ?Ud p" using assms(3) by (simp add: good_def)
  ultimately show ?thesis by (simp add: refines_def)
qed

theorem sync_implements_view_witness:
  "(vstep (p_prefix exPod) (\<lambda>key. key \<in> set (syncKeys (memEnv noql) True exPod exWorld) \<or> mhas (p_bad exPod) key)
      (\<lambda>key. mem_obj exWorld key = None) (expiredAt exPod (syncTime (memEnv noql) exWorld))
      (\<lambda>dk. mhas (p_undoSeen exPod) dk \<or> (\<exists>u \<in> set (syncKeys (memEnv noql) True exPod exWorld). \<exists>k.
         parseKey (p_prefix exPod) u = Some k \<and> tk_kind k = kindUndo \<and> definitionKey (p_prefix exPod) k = dk)))\<^sup>*\<^sup>*
      (view (p_s exPod)) (view (p_s exReader))"
proof -
  obtain r p' w' where s: "sync (memEnv noql) True exPod exWorld = (r, p', w')" by (metis prod_cases3)
  have p': "p' = exReader" using s by (simp add: exReader_def exSynced_def)
  show ?thesis using sync_implements_view [OF mem.bucket_axioms s [unfolded p'] ex_store_ok(1)] .
qed

text \<open>C5: Whatever a pod does, its view stays well formed. After any sequence of syncs, creates and
  undeletes, with any bucket and any outcome of each, the pod's store is consistent (its map, its
  range index, its counters and its filter references agree), only reversible tombstones are
  undone, and every entry is held under a key that parses to its own id.\<close>

theorem pod_view_well_formed:
  assumes "clock_ok E" "Attach E opts (NewTombstoneStore parsed) = Inr p"
  shows "proto_inv (fst (fold (podStep E) ops (p, w)))"
  by (rule pod_run_inv [OF assms])

theorem pod_view_well_formed_witness:
  "proto_inv (fst (fold (podStep ((memEnv noql)\<lparr>pod_now := \<lambda>w. (5, w)\<rparr>)) [PCreate exDelete, PSync False, PUndelete ''d1''] (exPod, exBucket)))"
proof -
  have "clock_ok ((memEnv noql)\<lparr>pod_now := \<lambda>w. (5, w)\<rparr>)" by (simp add: clock_ok_def max_int64_def)
  moreover have "Attach ((memEnv noql)\<lparr>pod_now := \<lambda>w. (5, w)\<rparr>) exOpts (NewTombstoneStore []) = Inr exPod"
    by (simp add: exPod_def Attach_def exOpts_def seed_def)
  ultimately show ?thesis by (rule pod_view_well_formed)
qed

text \<open>C6: The range index answers exactly. \<open>ForRange\<close> returns the tombstones in force whose range
  overlaps the asked one, and nothing else, in the order of the index: by range end, then id. A
  scan that consults it therefore misses no delete.\<close>

theorem ForRange_exact:
  assumes "store_ok s"
  shows "set (ForRange s lo hi) = {t \<in> in_force s. t_StartNs t \<le> hi \<and> lo \<le> t_EndNs t}
    \<and> sorted_wrt (\<lambda>a b. t_EndNs a < t_EndNs b \<or> t_EndNs a = t_EndNs b \<and> t_ID a < t_ID b) (ForRange s lo hi)"
  using ForRange_correct [OF assms] by blast

theorem ForRange_exact_witness:
  "set (ForRange (p_s exReader) 0 6) = {t \<in> in_force (p_s exReader). t_StartNs t \<le> 6 \<and> 0 \<le> t_EndNs t}
    \<and> map t_ID (ForRange (p_s exReader) 0 6) = [''d1'']"
proof -
  have "map t_ID (ForRange (p_s exReader) 0 6) = [''d1'']" by code_simp
  then show ?thesis using ForRange_exact [OF ex_store_ok(2), of 0 6] by blast
qed

text \<open>The counters and the listing agree with the view: \<open>Count\<close> is the number of tombstones
  in force, \<open>Active\<close> lists each of them once, and \<open>Get\<close> finds exactly these.\<close>

lemma store_reads_exact:
  assumes "store_ok s"
  shows "Count s = int (card (in_force s)) \<and> set (Active s) = in_force s \<and> distinct (Active s)
    \<and> in_force s = {t. \<exists>i. Get s i = Some t}"
  using Count_correct [OF assms] Active_correct [OF assms] by (auto simp: in_force_def Get_iff)

text \<open>Every operation of the store does to the view exactly what it says, and keeps the store
  consistent: a put replaces the entry of its id, an undo marks one entry, a forget removes the
  ids it names and no other.\<close>

theorem store_ops_refine:
  assumes "store_ok s"
  shows "store_ok (putLocked e s) \<and> view (putLocked e s) = (view s)(t_ID (e_t e) \<mapsto> e)
    \<and> store_ok (undoID i s)
    \<and> view (undoID i s) = (case view s i of None \<Rightarrow> view s | Some e \<Rightarrow> (view s)(i \<mapsto> e\<lparr>e_undone := True\<rparr>))
    \<and> store_ok (forgetMany ids s) \<and> view (forgetMany ids s) = (view s) |` (- set ids)"
  using putLocked_ok [OF assms] forgetMany_ok [OF assms] pod_view.undo_ok [OF assms] pod_view.look_undo [OF assms]
  by simp

section \<open>Keys and bodies\<close>

text \<open>C9: The key format is a bijection: \<open>parseKey\<close> accepts exactly the keys \<open>formatKey\<close> writes
  for the well formed key records, and gives the record back. No two deletes share a key, and no
  other object under the prefix is taken for one.\<close>

theorem key_format_bijective:
  "parseKey pfx key = Some k \<longleftrightarrow> wf_tombKey k \<and> formatKey pfx k = key"
  using parse_format format_parse by blast

text \<open>Keys sort by time, so a listing that starts at a window's start misses no key of the
  window: the start key of the poll window is before every key whose time is in the window, and
  keys with a later time come later.\<close>

lemma poll_window_complete:
  assumes "wf_tombKey a" "wf_tombKey b"
  shows "(ns \<le> tk_timeNs a \<longrightarrow> startAfterKey pfx ns < formatKey pfx a)
    \<and> (tk_timeNs a < tk_timeNs b \<longrightarrow> formatKey pfx a < formatKey pfx b)"
  using startAfter_before [OF assms(1)] formatKey_mono [of a b] assms by (auto simp: wf_tombKey_def)


text \<open>A definition round-trips through its body: what a pod writes for a valid delete, every pod
  decodes to the same delete with its tenants in canonical order; a body that decodes is valid;
  and two deletes with the same body are the same delete.\<close>

theorem definition_roundtrip:
  "decodeDefinition q (encodeDefinition ts) =
     (case Validate q ts of
        Some e \<Rightarrow> Inl e
      | None \<Rightarrow> Inr (ts\<lparr>t_CreatedAt := None, t_Tenants := NormalizeTenants (t_Tenants ts)\<rparr>))"
  by (rule decode_encode)

text \<open>The tenant list of a delete is canonical: the same tenants give the same list whatever their
  order and repetitions, the list is strictly ascending, and normalising changes no membership.\<close>

lemma tenants_canonical:
  "(NormalizeTenants a = NormalizeTenants b \<longleftrightarrow> set a = set b)
    \<and> set (NormalizeTenants a) = set a \<and> sorted_wrt tenantLess (NormalizeTenants a)"
  using NormalizeTenants_canonical [of a b] NormalizeTenants_sorted NormalizeTenants_set by metis

section \<open>Writing deletes and undos\<close>

text \<open>C13: A create that succeeds is enforced and durable. The pod's own view has the delete in force at
  once, with the content that was asked for; and when the id was unknown, the bucket holds the
  definition at the key of the delete, so every other pod will learn it.\<close>

theorem Create_enforced_durable:
  assumes "bucket E obj" "Create E ts (Some p) w = (Inr t, po, w')" "store_ok (p_s p)"
  shows "(\<exists>p'. po = Some p' \<and> store_ok (p_s p') \<and> Get (p_s p') (t_ID ts) = Some t
      \<and> Validate (ql E) (defaultMode ts) = None \<and> encodeDefinition t = encodeDefinition (defaultMode ts))
    \<and> (view (p_s p) (t_ID ts) = None \<longrightarrow>
        (\<exists>keyNs. obj w' (createKey (p_prefix p) keyNs (t_ID ts)) = Some (encodeDefinition (defaultMode ts))))"
proof
  show "view (p_s p) (t_ID ts) = None \<longrightarrow>
      (\<exists>keyNs. obj w' (createKey (p_prefix p) keyNs (t_ID ts)) = Some (encodeDefinition (defaultMode ts)))"
    using assms(2)
  proof (cases rule: Create_cases)
    case (run keyNs w1 p')
    then show ?thesis
      using bucket.createAt_durable [OF assms(1) run(4)] by (auto simp: defaultMode_def encodeDefinition_def)
  qed simp
qed (rule Create_success [OF assms(2,3)])

theorem Create_enforced_durable_witness:
  "\<exists>keyNs. mem_obj exWorld (createKey (p_prefix exPod) keyNs ''d1'') = Some (encodeDefinition (defaultMode exDelete))"
proof -
  obtain t where t: "Create (memEnv noql) exDelete (Some exPod) exBucket = (Inr t, fst (snd exCreated), exWorld)"
    using exCreated_ok(1) unfolding exWorld_def exCreated_def by (cases "Create (memEnv noql) exDelete (Some exPod) exBucket")
      (auto simp: isl_def split: sum.splits, metis sum.exhaust)
  have e: "s_byID (p_s exPod) = []" "t_ID exDelete = ''d1''" by code_simp+
  then have "view (p_s exPod) (t_ID exDelete) = None" by (simp add: view_eq_None)
  with Create_enforced_durable [OF mem.bucket_axioms t ex_store_ok(1)] show ?thesis by (simp add: e)
qed

text \<open>A create cannot replace a delete. No create, successful or not, changes or removes an object the
  bucket holds; and when the bucket holds another definition at the key of a new delete, the
  create is refused and the pod's view is unchanged.\<close>

theorem Create_never_overwrites:
  assumes "bucket E obj" "Create E ts (Some p) w = (r, po, w')"
  shows "(obj w k = Some x \<longrightarrow> obj w' k = Some x)
    \<and> (view (p_s p) (t_ID ts) = None
        \<and> obj w (createKey (p_prefix p) (case idTime (t_ID ts) of Some ns \<Rightarrow> ns | None \<Rightarrow> fst (pod_now E w)) (t_ID ts)) = Some b
        \<and> b \<noteq> encodeDefinition (defaultMode ts) \<longrightarrow> isl r \<and> po = Some p)"
  using bucket.Create_keeps [OF assms] bucket.Create_conflict [OF assms] by blast

text \<open>C15: An undelete of a delete the pod knows takes exactly that delete out of force, and only when it is
  reversible. One that the caller may not manage is reported as not found, and a permanent or
  automatic delete as irreversible, both before anything is written.\<close>

theorem UndeleteIf_exact:
  assumes "UndeleteIf E i allow (Some p) w = (err, po, w')" "proto_inv p" "view (p_s p) i = Some e"
  shows "(err = None \<longrightarrow> t_Mode (e_t e) = ''hide'' \<and> (\<forall>f. allow = Some f \<longrightarrow> f (e_t e))
        \<and> view (p_s (the po)) = (view (p_s p))(i \<mapsto> e\<lparr>e_undone := True\<rparr>))
    \<and> (allow = Some f \<and> \<not> f (e_t e) \<longrightarrow> err = Some ErrTombstoneNotFound \<and> po = Some p \<and> w' = w)
    \<and> (e_defKey e \<noteq> [] \<and> t_Mode (e_t e) \<noteq> ''hide'' \<and> allow = None \<longrightarrow> err = Some ErrNotReversible \<and> po = Some p \<and> w' = w)"
proof (intro conjI impI)
  have i: "store_ok (p_s p)" "keyed (p_prefix p) (view (p_s p))" using assms(2) by (auto simp: proto_inv_def)
  note U = UndeleteIf_known [OF assms(3), of E allow w, unfolded assms(1)]
  assume "err = None"
  then obtain p2 where u: "\<forall>f. allow = Some f \<longrightarrow> f (e_t e)" "undoEntry E i e p w = (None, p2, w')" "po = Some p2"
    using U by (auto split: if_splits option.splits prod.splits)
  with undoEntry_ok [OF u(2) i assms(3)]
  show "t_Mode (e_t e) = ''hide''" "\<forall>f. allow = Some f \<longrightarrow> f (e_t e)"
    "view (p_s (the po)) = (view (p_s p))(i \<mapsto> e\<lparr>e_undone := True\<rparr>)" by simp_all
next
  note U = UndeleteIf_known [OF assms(3), of E allow w, unfolded assms(1)]
  show "err = Some ErrTombstoneNotFound" "po = Some p" "w' = w" if "allow = Some f \<and> \<not> f (e_t e)"
    using U that by simp_all
  show "err = Some ErrNotReversible" "po = Some p" "w' = w"
    if "e_defKey e \<noteq> [] \<and> t_Mode (e_t e) \<noteq> ''hide'' \<and> allow = None"
    using U that undoEntry_irreversible [of e E i p w] by simp_all
qed

theorem UndeleteIf_exact_witness:
  "\<exists>e. view (p_s exReader) ''d1'' = Some e
     \<and> view (p_s (the (fst (snd (UndeleteIf (memEnv noql) ''d1'' None (Some exReader) exWorld)))))
        = (view (p_s exReader))(''d1'' \<mapsto> e\<lparr>e_undone := True\<rparr>)"
proof -
  obtain err po w' where u: "UndeleteIf (memEnv noql) ''d1'' None (Some exReader) exWorld = (err, po, w')" by (metis prod_cases3)
  have "fst (UndeleteIf (memEnv noql) ''d1'' None (Some exReader) exWorld) = None" by code_simp
  then have "err = None" using u by simp
  moreover obtain e where e: "view (p_s exReader) ''d1'' = Some e" using exReader_view by auto
  ultimately show ?thesis using UndeleteIf_exact [OF u exReader_inv e] e u by simp
qed



text \<open>Every pod ends with the same definition of an id. When several definitions of one id exist, two
  pods that learn the same set of them, each in its own order and with its own repetitions, hold
  the same entry for the id: the definition with the least key.\<close>

theorem definitions_order_independent:
  assumes "store_ok (p_s p)" "p_undoSeen p = []" "view (p_s p) i = None"
    and "store_ok (p_s q)" "p_undoSeen q = []" "view (p_s q) i = None" "set ds = set es"
    and "\<forall>(d, ts) \<in> set ds. t_ID ts = i \<and> lk_key d \<noteq> []" "inj_on (\<lambda>(d, ts). lk_key d) (set ds)"
  shows "view (p_s (learnAll ds p)) i = view (p_s (learnAll es q)) i"
  by (rule learnAll_order [OF assms])

text \<open>The gate opens exactly when the view can be trusted: the last complete sync is recent enough, and
  no undecodable definition names (or may name) a tenant of the request.\<close>

lemma gate_open_iff:
  "gateCheck now p tenants = None \<longleftrightarrow>
     (\<exists>g. p_lastGood p = Some g \<and> now - g \<le> staleAfter * p_interval p)
     \<and> \<not> (\<exists>(key, u) \<in> set (p_unreadableSnapshot p). u_all u \<or> tenants = []
          \<or> (\<exists>want \<in> set tenants. \<exists>named \<in> set (u_tenants u). AccountID named = AccountID want
               \<and> (ProjectID named = ProjectID want \<or> ProjectID named = 0)))"
  unfolding gateCheck_open closedFor_def ..

text \<open>A scan may skip the files a delete does not affect. A row a delete hides lies in the delete's
  range, so every file whose bounds cover the row is one the delete affects, and the range index
  returns the delete for that file.\<close>

lemma hidden_row_found:
  assumes "store_ok s" "Get s i = Some t" "MatchesFields q t flds ts" "lo \<le> ts" "ts \<le> hi"
  shows "AffectsFile t lo hi \<and> t \<in> set (ForRange s lo hi)"
proof -
  have a: "AffectsFile t lo hi" by (rule MatchesFields_AffectsFile [OF assms(3-5)])
  moreover have "t \<in> in_force s" using assms(2) by (auto simp: in_force_def Get_iff)
  ultimately show ?thesis using ForRange_correct(1) [OF assms(1)] by (auto simp: AffectsFile_def split: if_splits)
qed


text \<open>A gap in the completeness of a sync when an id has two definitions. A pod that holds the first definition
  of an id lists, in a full sync, only the second one, because the first was removed from the
  bucket. The sync skips the second (the view still holds the earlier key), then forgets the
  first, and reports success: the listed second definition is an object of the bucket, it is not
  enforced, and the gate is open.\<close>

theorem second_definition_skipped:
  "fst exAfterSwap = None \<and> exKey2 \<in> set (syncKeys (memEnv noql) True exReader exSwapped)
    \<and> mem_obj exSwapped exKey2 \<noteq> None
    \<and> view (p_s (fst (snd exAfterSwap))) ''d1'' = None
    \<and> gateCheck (m_now exSwapped) (fst (snd exAfterSwap)) [exTenant] = None"
proof -
  have "s_byID (p_s (fst (snd exAfterSwap))) = []" by code_simp
  moreover have "fst exAfterSwap = None" "exKey2 \<in> set (syncKeys (memEnv noql) True exReader exSwapped)"
    "mem_obj exSwapped exKey2 \<noteq> None" "gateCheck (m_now exSwapped) (fst (snd exAfterSwap)) [exTenant] = None"
    by code_simp+
  ultimately show ?thesis by (simp add: view_eq_None)
qed

section \<open>The manifest\<close>

text \<open>C21: The manifest stays consistent. Whatever sequence of publishes, removals, claims, holds, retirements,
  enrichments and refreshes runs on a new manifest, the file lists, the key index, the totals and
  the sorted partitions agree; no key is registered twice; and a registered key is neither retired
  nor claimed by a writer.\<close>

theorem manifest_consistent:
  assumes "runs_ok manPre manStep ops New"
  shows "man_ok (fold manStep ops New)"
  by (rule manifest_machine.run_inv [OF man_ok_New assms])

theorem manifest_consistent_witness:
  "man_ok (fold manStep [OAdd 10 exPart (listedFile exA 7), OHold exA, OClaim 11 exAB, ORetire 12 exB exAB True] New)"
  by (rule manifest_consistent) simp

text \<open>C22: A publish is all or nothing. It succeeds exactly when every source is registered in the partition
  and not held, and the output key is free or one of the sources. Then each source is out and
  retired, the output is registered, and no other key changes; otherwise nothing changes.\<close>

theorem publish_atomic:
  assumes "man_ok m"
  shows "case ReplaceFiles now p ks fi m of (ok, m') \<Rightarrow>
      (ok \<longleftrightarrow> (\<forall>k \<in> set ks. mget (m_byKey m) k = Some p \<and> k \<notin> set (m_held m))
        \<and> (\<not> mhas (m_byKey m) (fi_Key fi) \<or> fi_Key fi \<in> set ks))
      \<and> (\<not> ok \<longrightarrow> m' = m)
      \<and> (ok \<longrightarrow> man_ok m'
        \<and> (\<forall>k. mget (m_byKey m') k = (if k = fi_Key fi then Some p else if k \<in> set ks then None else mget (m_byKey m) k))
        \<and> (\<forall>k \<in> set ks. k \<noteq> fi_Key fi \<longrightarrow> mhas (m_retired m') k))"
proof (cases "ReplaceFiles now p ks fi m")
  case (Pair ok m')
  show ?thesis
  proof (cases ok)
    case True
    then have r: "ReplaceFiles now p ks fi m = (True, m')" using Pair by simp
    have "man_ok m'" using ReplaceFiles_ok [OF assms, of now p ks fi] r by simp
    then show ?thesis using ReplaceFiles_effect [OF assms r] True r
      by (auto simp: ReplaceFiles_eq freeForPublishLocked_def simp del: map_of_eq_Some_iff split: if_splits)
  next
    case False
    then show ?thesis using Pair by (auto simp: ReplaceFiles_eq freeForPublishLocked_def split: if_splits)
  qed
qed

theorem publish_atomic_witness:
  "mget (m_byKey (snd exMerged)) exAB = Some exPart \<and> mget (m_byKey (snd exMerged)) exA = None
    \<and> mhas (m_retired (snd exMerged)) exA"
  using publish_atomic [OF exMan_ok, where now = 40 and p = exPart and ks = "[exA, exB]" and fi = "listedFile exAB 11"]
  unfolding exMerged_run by (simp del: map_of_eq_Some_iff)

text \<open>C23: No listing undoes a publish it did not see. A listing that began no later than a publish, whatever
  it contains and whether the publish came before the probe of the listing or while it ran, leaves
  the output registered and does not bring a source back.\<close>

theorem publish_survives_stale_listing:
  assumes "man_ok m" "ReplaceFiles now p ks fi m = (True, m')" "fi_Key fi \<notin> set ks" "listStart \<le> now" "env m0 = m'"
    and "ApplyPartialListing pick probe env now' objects listStart skipped m0 = (True, m'')"
  shows "mhas (m_byKey m'') (fi_Key fi) \<and> (\<forall>k \<in> set ks. \<not> mhas (m_byKey m'') k)"
proof -
  have "applyLocked (probeShrink pick probe (listingFiles objects) listStart skipped m0) now' (listingFiles objects)
      listStart skipped m' = (True, m'')"
    using assms(5,6) by (simp add: ApplyPartialListing_def applyRefreshedFiles_def)
  from publish_survives_listing [OF assms(1-4) listingFiles_wf this] show ?thesis by blast
qed

theorem publish_survives_stale_listing_witness:
  "case ApplyPartialListing (\<lambda>n. 0) None (\<lambda>m. snd exMerged) 50 exStale 30 [] exMan of
     (ok, m'') \<Rightarrow> ok \<and> mhas (m_byKey m'') exAB \<and> \<not> mhas (m_byKey m'') exA \<and> \<not> mhas (m_byKey m'') exB"
proof -
  obtain ok m'' where r: "ApplyPartialListing (\<lambda>n. 0) None (\<lambda>m. snd exMerged) 50 exStale 30 [] exMan = (ok, m'')" by fastforce
  then have ok by (auto simp: ApplyPartialListing_def applyRefreshedFiles_def applyLocked_def exMerged_total case_prod_beta
        split: if_splits dest: sym)
  then show ?thesis
    using publish_survives_stale_listing [OF exMan_ok exMerged_run, of 30 "\<lambda>m. snd exMerged" exMan
        "\<lambda>n. 0" None 50 exStale "[]" m''] r
    by simp
qed

text \<open>C24: A listing that loses half of the manifest is not believed without evidence. A refused refresh changes
  nothing. A refresh that is accepted either keeps at least half of the files the manifest tracks,
  or the probe found up to 16 distinct keys it would drop, at least one, and the bucket answered
  for every one of them that the object is gone. A probe that fails, or that is not configured,
  is no such evidence.\<close>

theorem cliff_needs_evidence:
  assumes "files_ok m" "wfmap files"
  shows "case applyRefreshedFiles pick probe env now files listStart skipped m of
      (False, m') \<Rightarrow> m' = env m
    | (True, m') \<Rightarrow> m_totalFiles m' \<ge> m_totalFiles (env m) div 2
        \<or> (\<exists>f sample bkt. probe = Some f \<and> sample \<noteq> [] \<and> distinct sample
            \<and> length sample = min cliffProbeSample (card (droppedKeys files listStart skipped m))
            \<and> (\<forall>k \<in> set sample. k \<in> droppedKeys files listStart skipped m \<and> f (bkt k) k = Inr False))"
proof -
  obtain fs gone where r: "refreshedFiles (env m) files listStart skipped = (fs, gone)" by fastforce
  let ?v = "probeShrink pick probe files listStart skipped m"
  obtain ok m' where a: "applyRefreshedFiles pick probe env now files listStart skipped m = (ok, m')" by fastforce
  show ?thesis
  proof (cases ok)
    case False
    then show ?thesis using a by (auto simp: applyRefreshedFiles_def applyLocked_def r split: if_splits)
  next
    case True
    have "m_totalFiles (env m) div 2 \<le> countFiles fs" if "\<not> 0 < m_totalFiles (env m)"
      using that countFiles_nonneg [of fs] by linarith
    with True have t: "m_totalFiles m' = countFiles fs" "?v = shrinkConfirmed \<or> m_totalFiles (env m) div 2 \<le> countFiles fs"
      using a
      by (auto simp: applyRefreshedFiles_def applyLocked_def r afterAcceptedRefreshLocked_def pruneRetiredLocked_def split: if_splits)
    show ?thesis
    proof (cases "?v = shrinkConfirmed")
      case True
      obtain f sample bkt where "probe = Some f" "sample \<noteq> []" "distinct sample" "set sample \<subseteq> droppedKeys files listStart skipped m"
        "length sample = min cliffProbeSample (card (droppedKeys files listStart skipped m))" "\<forall>k \<in> set sample. f (bkt k) k = Inr False"
        by (rule probeShrink_confirmed [OF assms(1) True])
      then show ?thesis unfolding a using \<open>ok\<close> by (simp add: subset_iff) blast
    next
      case False
      then show ?thesis unfolding a using t \<open>ok\<close> by simp
    qed
  qed
qed

theorem cliff_needs_evidence_witness:
  "case applyRefreshedFiles (\<lambda>n. 0) None id 50 [] 30 [] exMan of
     (False, m') \<Rightarrow> m' = exMan
   | (True, m') \<Rightarrow> m_totalFiles m' \<ge> m_totalFiles exMan div 2"
  using cliff_needs_evidence [where m = exMan and files = "[]" and env = id and probe = None and pick = "\<lambda>n. 0" and listStart = 30
      and skipped = "[]" and now = 50] exMan_ok
  by (auto simp: man_ok_def split: prod.splits bool.splits)

text \<open>C25: What an accepted refresh tracks. It tracks a key exactly when the listing has it and the manifest
  neither retired it nor has a writer claiming it, or the key was published since the listing
  began, or it is already tracked under a prefix the listing skipped. Holds and claims stay.\<close>

theorem accepted_refresh_tracks:
  assumes "man_ok m" "wfmap files" "applyLocked verdict now files listStart skipped m = (True, m')"
  shows "man_ok m' \<and> m_held m' = m_held m \<and> m_pending m' = m_pending m
    \<and> (\<forall>k. mhas (m_byKey m') k \<longleftrightarrow>
        k \<in> fkeys files \<and> \<not> mhas (m_retired m) k \<and> \<not> mhas (m_pending m) k
        \<or> mhas (m_byKey m) k \<and> k \<in> fst ` set (recentAddsSinceLocked m listStart)
        \<or> mhas (m_byKey m) k \<and> underSkipped k skipped)"
  using applyLocked_accepted [OF assms(3,1,2)] applyLocked_ok [OF assms(1,2), of verdict now listStart skipped] assms(3)
  by (auto simp: recentKeys_def)

theorem accepted_refresh_tracks_witness: "man_ok (snd exRefreshed) \<and> \<not> mhas (m_byKey (snd exRefreshed)) exA"
proof -
  have "mhas (m_retired (snd exMerged)) exA" "\<not> mhas (m_byKey (snd exMerged)) exA"
    using ReplaceFiles_effect [OF exMan_ok exMerged_run, of exA] by (simp_all add: mhas_def)
  then show ?thesis
    using accepted_refresh_tracks [OF exMerged_ok listingFiles_wf exRefreshed_eq [unfolded exRefreshed_def]]
    by (simp add: exRefreshed_def)
qed

text \<open>A retired key is guarded until it is safe to forget. An accepted refresh forgets it only when the
  listing began after the retirement and does not have the key, or its guard has timed out and no
  delete is owed for it, or the cap is reached and everything kept is at least as expensive to
  forget (a key whose object is known deleted goes first, a key with a delete owed last).\<close>

lemma retired_forgotten_for_reason:
  assumes "man_ok m" "wfmap files" "applyLocked verdict now files listStart skipped m = (True, m')"
    and "mget (m_retired m) k = Some rk" "\<not> mhas (m_retired m') k"
  shows "k \<notin> fkeys files \<and> rk_At rk < listStart \<and> \<not> underSkipped k skipped
    \<or> \<not> rk_Reclaim rk \<and> now - rk_At rk > retiredKeyTTL
    \<or> length (m_retired m') = maxRetiredKeys \<and> (\<forall>k' x. mget (m_retired m') k' = Some x \<longrightarrow> \<not> evictBefore x rk)"
  by (rule applyLocked_forgets [OF assms(3,1,2,4,5)])


text \<open>Reading the manifest is exact. A lookup by key returns the tracked file with this key. A range query
  returns exactly the tracked files of the partitions whose hour overlaps the range that are not
  known to lie outside it.\<close>

theorem manifest_reads_exact:
  assumes "man_ok m"
  shows "(GetFileByKey k m = Some fi \<longleftrightarrow> fi \<in> set (allFiles (m_files m)) \<and> fi_Key fi = k)
    \<and> set (GetFilesForRange lo hi m) =
        {fi. \<exists>p t. fi \<in> set (filesOf (m_files m) p) \<and> parsePartitionTime p = Some t \<and> t \<le> hi \<and> lo < t + hour
          \<and> (fi_MinTimeNs fi = 0 \<or> fi_MaxTimeNs fi = 0 \<or> lo \<le> fi_MaxTimeNs fi \<and> fi_MinTimeNs fi \<le> hi)}"
proof -
  have "inFileRange lo hi fi \<longleftrightarrow> fi_MinTimeNs fi = 0 \<or> fi_MaxTimeNs fi = 0 \<or> lo \<le> fi_MaxTimeNs fi \<and> fi_MinTimeNs fi \<le> hi" for fi
    by (auto simp: inFileRange_def)
  then show ?thesis using GetFileByKey_iff assms GetFilesForRange_set [OF assms] by (simp add: man_ok_def)
qed

section \<open>Compaction: who compacts what\<close>

text \<open>C28: Every partition has exactly one owner. When the pods of a ring see the same peers, the same draining
  peers and use the same hash, none of them is stabilizing and each recognises itself, then
  whatever the hash and the partition, exactly one of the peers that are not draining owns it.\<close>

theorem exactly_one_owner:
  assumes "peersForOwnership r0 \<noteq> []"
    and "\<forall>x \<in> set (peersForOwnership r0). same_ring r0 (pod x) \<and> or_Stabilizing (pod x) \<noteq> Some True
      \<and> or_resolve (pod x) (rawPeers (pod x)) = Some x"
  shows "\<exists>!x. x \<in> set (peersForOwnership r0) \<and> OwnsPartition (pod x) part"
  by (rule some_owner [OF assms])

theorem exactly_one_owner_witness:
  "\<exists>!x. x \<in> {''a'', ''b'', ''c''} \<and> OwnsPartition (exPodOf x) ''dt=2024-01-01/hour=00''"
  using exactly_one_owner [of "exPodOf ''a''" exPodOf] by (simp add: exPodOf_ring same_ring_def)

text \<open>A peer that joins, leaves or drains moves no partition between the others: the ranking of any part of
  the peers is the ranking of all of them, restricted to that part, whatever order the peers are
  listed in.\<close>

lemma ranking_restricts:
  assumes "mset qs = mset (filter P ps)"
  shows "rankFromPeers r part qs = filter P (rankFromPeers r part ps)"
  using rank_perm [OF assms refl] rank_filter by simp

end
